(* ===== verification/Prelude.thy ===== *)
theory Prelude
  imports Main "HOL-Library.Word" "HOL-Library.Monad_Syntax"
begin

section \<open>Shared vocabulary of the development\<close>

text \<open>
  What every component uses: the kernel's error codes, the machine integers of the ILP32 m68k
  target (\<open>int\<close>, \<open>long\<close>, pointers and \<open>size_t\<close> are 32 bits wide, \<open>off_t\<close> is 64 bits wide),
  bounds-checked array accesses, and the lemmas on lists and words that several components need.

  A kernel function that can run into \<open>abort()\<close>, a failed \<open>assert()\<close>, a NULL dereference or an
  access outside of an array has a result of type \<open>'a option\<close>: \<open>None\<close> is that fault, so that
  a theorem which states a \<open>Some\<close> result also states that none of these happens. The
  error codes that the C code returns are ordinary values of type \<open>errno\<close>.
\<close>

unbundle bit_operations_syntax

named_theorems arr_simps \<open>bounds-checked array accesses\<close>
named_theorems word_conv \<open>conversions from words to numbers\<close>

subsection \<open>Error codes\<close>

text \<open>The codes of \<open>kern/h/kpi/_errno.h\<close> that the modelled code returns.\<close>

datatype errno =
    EOK | ENOMEM | ETIMEDOUT | ENODEV | ERANGE | ECANCELED | EAGAIN | EPIPE | EBUSY | EINVAL
  | EIO | EPERM | ENOENT | ENOTBLK | EBADF | ESRCH | ESPIPE | ENOTDIR | ENAMETOOLONG | EACCESS
  | EROFS | ENOSPC | EEXIST | EOVERFLOW | EFBIG | EISDIR | EMLINK | EMFILE | EXDEV | ETERMINATED
  | ENOTSUP | ENXIO | EDISKCHANGE | ENOMEDIUM

abbreviation EABORTED :: errno where "EABORTED \<equiv> ETERMINATED"

subsection \<open>Machine integers\<close>

type_synonym u8 = "8 word"
type_synonym u16 = "16 word"
type_synonym u32 = "32 word"
type_synonym u64 = "64 word"

text \<open>\<open>off_t\<close> is a signed 64 bit integer; \<open>wrap64\<close> is the value its arithmetic wraps to.\<close>

definition wrap64 :: "int \<Rightarrow> int" where
  "wrap64 x = (x + 9223372036854775808) mod 18446744073709551616 - 9223372036854775808"

lemma wrap64_id: "- 9223372036854775808 \<le> x \<Longrightarrow> x < 9223372036854775808 \<Longrightarrow> wrap64 x = x"
  by (simp add: wrap64_def mod_pos_pos_trivial)

lemma wrap64_over:
  assumes "9223372036854775808 \<le> x" "x < 27670116110564327424"
  shows "wrap64 x = x - 18446744073709551616"
proof -
  have "(x - 9223372036854775808 + 18446744073709551616) mod 18446744073709551616 = x - 9223372036854775808"
    using assms by (simp only: mod_add_self2) (simp add: mod_pos_pos_trivial)
  then show ?thesis by (simp add: wrap64_def add.commute)
qed

subsection \<open>Arrays\<close>

definition arr_get :: "'a list \<Rightarrow> nat \<Rightarrow> 'a option" where
  "arr_get xs i = (if i < length xs then Some (xs ! i) else None)"

definition arr_set :: "'a list \<Rightarrow> nat \<Rightarrow> 'a \<Rightarrow> 'a list option" where
  "arr_set xs i v = (if i < length xs then Some (xs[i := v]) else None)"

lemma arr_get_in [arr_simps, simp]: "i < length xs \<Longrightarrow> arr_get xs i = Some (xs ! i)"
  by (simp add: arr_get_def)

lemma arr_set_in [arr_simps, simp]: "i < length xs \<Longrightarrow> arr_set xs i v = Some (xs[i := v])"
  by (simp add: arr_set_def)

lemma arr_get_Some_iff: "arr_get xs i = Some v \<longleftrightarrow> i < length xs \<and> xs ! i = v"
  by (auto simp: arr_get_def)

lemma arr_set_Some_iff: "arr_set xs i v = Some ys \<longleftrightarrow> i < length xs \<and> ys = xs[i := v]"
  by (auto simp: arr_set_def)

text \<open>An index of C type \<open>int\<close>: a negative one is out of bounds.\<close>

definition iarr_get :: "'a list \<Rightarrow> int \<Rightarrow> 'a option" where
  "iarr_get xs i = (if 0 \<le> i then arr_get xs (nat i) else None)"

definition iarr_set :: "'a list \<Rightarrow> int \<Rightarrow> 'a \<Rightarrow> 'a list option" where
  "iarr_set xs i v = (if 0 \<le> i then arr_set xs (nat i) v else None)"

lemma iarr_get_in [arr_simps, simp]:
  "0 \<le> i \<Longrightarrow> i < int (length xs) \<Longrightarrow> iarr_get xs i = Some (xs ! nat i)"
  by (simp add: iarr_get_def nat_less_iff)

lemma iarr_set_in [arr_simps, simp]:
  "0 \<le> i \<Longrightarrow> i < int (length xs) \<Longrightarrow> iarr_set xs i v = Some (xs[nat i := v])"
  by (simp add: iarr_set_def nat_less_iff)

lemma iarr_get_Some_iff:
  "iarr_get xs i = Some v \<longleftrightarrow> 0 \<le> i \<and> i < int (length xs) \<and> xs ! nat i = v"
  by (auto simp: iarr_get_def arr_get_Some_iff nat_less_iff)

lemma iarr_set_Some_iff:
  "iarr_set xs i v = Some ys \<longleftrightarrow> 0 \<le> i \<and> i < int (length xs) \<and> ys = xs[nat i := v]"
  by (auto simp: iarr_set_def arr_set_Some_iff nat_less_iff)

text \<open>\<open>memcpy\<close> of \<open>n\<close> elements to the start of another block.\<close>

definition arr_copy :: "'a list \<Rightarrow> 'a list \<Rightarrow> nat \<Rightarrow> 'a list option" where
  "arr_copy dst src n =
     (if n \<le> length dst \<and> n \<le> length src then Some (take n src @ drop n dst) else None)"

lemma arr_copy_in [arr_simps, simp]:
  "n \<le> length dst \<Longrightarrow> n \<le> length src \<Longrightarrow> arr_copy dst src n = Some (take n src @ drop n dst)"
  by (simp add: arr_copy_def)

subsection \<open>Words\<close>

lemma unat_less_pow [word_conv, simp]: "unat (w :: u32) < 4294967296"
  using unsigned_less [of w] by simp

lemma unat_of_nat_u32 [word_conv]: "n < 4294967296 \<Longrightarrow> unat (of_nat n :: u32) = n"
  by (simp add: unat_of_nat)

lemma unat_add_u32: "unat (a + b :: u32) = (unat a + unat b) mod 4294967296"
  by (simp add: unat_word_ariths)

lemma unat_sub_u32: "b \<le> a \<Longrightarrow> unat (a - b :: u32) = unat a - unat b"
  by (simp add: unat_sub)

text \<open>A \<open>size_t\<close> below \<open>2 ^ 31\<close> keeps its value when it is converted to \<open>int\<close>.\<close>

lemma sint_u32_small:
  assumes "unat (w :: u32) < 2 ^ 31"
  shows "sint w = int (unat w)"
proof -
  have "sint w = signed_take_bit 31 (int (unat w))"
    by (simp add: sint_uint)
  also have "\<dots> = int (unat w)"
  proof (rule signed_take_bit_int_eq_self)
    show "- (2 ^ 31) \<le> int (unat w)" by (rule order_trans [of _ 0]) simp_all
    show "int (unat w) < 2 ^ 31" using assms by (simp only: of_nat_less_numeral_power_cancel_iff)
  qed
  finally show ?thesis .
qed

lemma unat_word_of_int_u32:
  assumes "0 \<le> x" "x < 4294967296"
  shows "unat (word_of_int x :: u32) = nat x"
proof -
  have "(word_of_int x :: u32) = of_nat (nat x)"
    using assms(1) by simp
  then show ?thesis
    using assms by (simp only: unat_of_nat_u32 nat_less_iff)
qed

lemma sint_of_nat_u32: "n < 2147483648 \<Longrightarrow> sint (of_nat n :: u32) = int n"
  by (subst sint_u32_small) (simp_all add: unat_of_nat_u32)

text \<open>Masking with a power of two minus one is the remainder.\<close>

lemma and_pow2_minus1:
  fixes w :: "'a::len word"
  assumes "k < LENGTH('a)"
  shows "unat (w AND (2 ^ k - 1)) = unat w mod 2 ^ k"
proof -
  have "w AND (2 ^ k - 1) = take_bit k w"
    by (simp add: take_bit_eq_mask mask_eq_decr_exp)
  then have "unat (w AND (2 ^ k - 1)) = take_bit k (unat w)"
    by (simp only: unsigned_take_bit_eq)
  then show ?thesis
    by (simp only: take_bit_eq_mod)
qed

subsection \<open>Sequences of operations and data refinement\<close>

text \<open>
  A component is run by a sequence of operations; each returns a result or faults. The locale
  \<open>data_refinement\<close> is the contract between a detailed operation \<open>step\<close> and its abstract
  counterpart \<open>spec\<close>: on related states, and where the caller meets \<open>pre\<close>, the detailed
  operation does not fault, returns what the specification says and ends in a related state.
\<close>

fun run_ops :: "('o \<Rightarrow> 'c \<Rightarrow> ('r \<times> 'c) option) \<Rightarrow> 'o list \<Rightarrow> 'c \<Rightarrow> ('r list \<times> 'c) option" where
  "run_ops f [] c = Some ([], c)"
| "run_ops f (x # xs) c =
     do { (r, c1) \<leftarrow> f x c;
          (rs, c2) \<leftarrow> run_ops f xs c1;
          Some (r # rs, c2) }"

fun run_spec :: "('o \<Rightarrow> 'a \<Rightarrow> 'r \<times> 'a) \<Rightarrow> 'o list \<Rightarrow> 'a \<Rightarrow> 'r list \<times> 'a" where
  "run_spec g [] a = ([], a)"
| "run_spec g (x # xs) a =
     (let (r, a1) = g x a; (rs, a2) = run_spec g xs a1 in (r # rs, a2))"

fun run_pre :: "('o \<Rightarrow> 'a \<Rightarrow> bool) \<Rightarrow> ('o \<Rightarrow> 'a \<Rightarrow> 'r \<times> 'a) \<Rightarrow> 'o list \<Rightarrow> 'a \<Rightarrow> bool" where
  "run_pre P g [] a \<longleftrightarrow> True"
| "run_pre P g (x # xs) a \<longleftrightarrow> P x a \<and> run_pre P g xs (snd (g x a))"

locale data_refinement =
  fixes rep :: "'c \<Rightarrow> 'a \<Rightarrow> bool"
    and step :: "'o \<Rightarrow> 'c \<Rightarrow> ('r \<times> 'c) option"
    and pre :: "'o \<Rightarrow> 'a \<Rightarrow> bool"
    and spec :: "'o \<Rightarrow> 'a \<Rightarrow> 'r \<times> 'a"
  assumes simulates: "rep c a \<Longrightarrow> pre x a \<Longrightarrow>
    \<exists>c'. step x c = Some (fst (spec x a), c') \<and> rep c' (snd (spec x a))"
begin

lemma run_refines:
  "rep c a \<Longrightarrow> run_pre pre spec xs a \<Longrightarrow>
   \<exists>c'. run_ops step xs c = Some (fst (run_spec spec xs a), c') \<and> rep c' (snd (run_spec spec xs a))"
proof (induction xs arbitrary: c a)
  case Nil
  then show ?case by simp
next
  case (Cons x xs)
  obtain c1 where c1: "step x c = Some (fst (spec x a), c1)" "rep c1 (snd (spec x a))"
    using simulates [of c a x] Cons.prems by auto
  obtain c2 where "run_ops step xs c1 = Some (fst (run_spec spec xs (snd (spec x a))), c2)"
      "rep c2 (snd (run_spec spec xs (snd (spec x a))))"
    using Cons.IH [OF c1(2)] Cons.prems by auto
  with c1 show ?case by (simp add: split_beta)
qed

end

text \<open>
  The contract of a component whose specification is a relation: the result and the next abstract state are among those that \<open>allowed\<close> relates
  to the call. The caller meets \<open>pre\<close> whichever allowed results the calls before had (\<open>run_demands\<close>).
\<close>

fun run_demands :: "('o \<Rightarrow> 'a \<Rightarrow> bool) \<Rightarrow> ('o \<Rightarrow> 'r \<Rightarrow> 'a \<Rightarrow> 'a \<Rightarrow> bool) \<Rightarrow> 'o list \<Rightarrow> 'a \<Rightarrow> bool" where
  "run_demands P A [] a \<longleftrightarrow> True"
| "run_demands P A (x # xs) a \<longleftrightarrow> P x a \<and> (\<forall>r a1. A x r a a1 \<longrightarrow> run_demands P A xs a1)"

fun run_allowed :: "('o \<Rightarrow> 'r \<Rightarrow> 'a \<Rightarrow> 'a \<Rightarrow> bool) \<Rightarrow> 'o list \<Rightarrow> 'r list \<Rightarrow> 'a \<Rightarrow> 'a \<Rightarrow> bool" where
  "run_allowed A [] [] a a' \<longleftrightarrow> a' = a"
| "run_allowed A (x # xs) (r # rs) a a' \<longleftrightarrow> (\<exists>a1. A x r a a1 \<and> run_allowed A xs rs a1 a')"
| "run_allowed A _ _ a a' \<longleftrightarrow> False"

text \<open>
  A call may meet a \<open>hazard\<close> of the concrete state that the specification does not know. The run conforms up to the first such call.
\<close>

locale relational_refinement =
  fixes rep :: "'c \<Rightarrow> 'a \<Rightarrow> bool"
    and step :: "'o \<Rightarrow> 'c \<Rightarrow> ('r \<times> 'c) option"
    and pre :: "'o \<Rightarrow> 'a \<Rightarrow> bool"
    and allowed :: "'o \<Rightarrow> 'r \<Rightarrow> 'a \<Rightarrow> 'a \<Rightarrow> bool"
    and hazard :: "'o \<Rightarrow> 'c \<Rightarrow> bool"
  assumes conforms: "rep c a \<Longrightarrow> pre x a \<Longrightarrow> \<not> hazard x c \<Longrightarrow> \<exists>r c' a'. step x c = Some (r, c') \<and> allowed x r a a' \<and> rep c' a'"
begin

lemma run_conforms:
  "rep c a \<Longrightarrow> run_demands pre allowed xs a \<Longrightarrow>
   \<exists>ys zs rs c' a'. xs = ys @ zs \<and> run_ops step ys c = Some (rs, c') \<and> run_allowed allowed ys rs a a' \<and> rep c' a' \<and>
     (zs = [] \<or> hazard (hd zs) c')"
proof (induction xs arbitrary: c a)
  case Nil
  have "run_allowed allowed [] [] a a" by simp
  with Nil show ?case by (intro exI [of _ "[]"] exI [of _ c] exI [of _ a]) simp
next
  case (Cons x xs)
  show ?case
  proof (cases "hazard x c")
    case True
    have "run_allowed allowed [] [] a a" by simp
    with Cons.prems(1) True show ?thesis by (intro exI [of _ "[]"] exI [of _ "x # xs"] exI [of _ c] exI [of _ a]) simp
  next
    case False
    obtain r c1 a1 where s: "step x c = Some (r, c1)" "allowed x r a a1" "rep c1 a1"
      using conforms [of c a x] Cons.prems False by auto
    have "run_demands pre allowed xs a1" using Cons.prems(2) s(2) by simp
    from Cons.IH [OF s(3) this] obtain ys zs rs c2 a2 where
      t: "xs = ys @ zs" "run_ops step ys c1 = Some (rs, c2)" "run_allowed allowed ys rs a1 a2" "rep c2 a2"
      "zs = [] \<or> hazard (hd zs) c2" by blast
    have "run_allowed allowed (x # ys) (r # rs) a a2" using s(2) t(3) by auto
    with s(1) t show ?thesis
      by (intro exI [of _ "x # ys"] exI [of _ zs] exI [of _ "r # rs"] exI [of _ c2] exI [of _ a2]) simp
  qed
qed

end

text \<open>
  Systems whose calls have a guard in the state: a call whose guard does not hold is not made. Every enabled call succeeds and keeps the invariant.
\<close>

fun run_guarded :: "('o \<Rightarrow> 'c \<Rightarrow> 'c option) \<Rightarrow> ('o \<Rightarrow> 'c \<Rightarrow> bool) \<Rightarrow> 'o list \<Rightarrow> 'c \<Rightarrow> 'c option" where
  "run_guarded step guard [] c = Some c"
| "run_guarded step guard (x # xs) c =
     (if guard x c then Option.bind (step x c) (run_guarded step guard xs) else run_guarded step guard xs c)"

text \<open>
  A run that makes every call. In such a system it either completes, or it gets to a first call whose guard does not hold.
\<close>

fun run_all :: "('o \<Rightarrow> 'c \<Rightarrow> 'c option) \<Rightarrow> 'o list \<Rightarrow> 'c \<Rightarrow> 'c option" where
  "run_all step [] c = Some c"
| "run_all step (x # xs) c = Option.bind (step x c) (run_all step xs)"

lemma run_all_append: "run_all step (xs @ ys) c = Option.bind (run_all step xs c) (run_all step ys)"
  by (induction xs arbitrary: c) (auto split: bind_split)

lemma run_all_stuck:
  assumes "run_all step ys c = Some c'" "step x c' = None"
  shows "run_all step (ys @ x # zs) c = None"
  using assms by (simp add: run_all_append)

locale guarded_system =
  fixes inv :: "'c \<Rightarrow> bool"
    and step :: "'o \<Rightarrow> 'c \<Rightarrow> 'c option"
    and guard :: "'o \<Rightarrow> 'c \<Rightarrow> bool"
  assumes step_ok: "inv c \<Longrightarrow> guard x c \<Longrightarrow> \<exists>c'. step x c = Some c' \<and> inv c'"
begin

lemma run_guarded_ok: "inv c \<Longrightarrow> \<exists>c'. run_guarded step guard xs c = Some c' \<and> inv c'"
proof (induction xs arbitrary: c)
  case (Cons x xs)
  show ?case
  proof (cases "guard x c")
    case True
    then obtain c1 where "step x c = Some c1" "inv c1" using step_ok Cons.prems by blast
    then show ?thesis using Cons.IH True by simp
  qed (use Cons in simp)
qed simp

lemma run_stops:
  "inv c \<Longrightarrow> (\<exists>c'. run_all step xs c = Some c' \<and> inv c')
     \<or> (\<exists>ys x zs c'. xs = ys @ x # zs \<and> run_all step ys c = Some c' \<and> inv c' \<and> \<not> guard x c')"
proof (induction xs arbitrary: c)
  case (Cons x xs)
  show ?case
  proof (cases "guard x c")
    case True
    then obtain c1 where c1: "step x c = Some c1" "inv c1" using step_ok Cons.prems by blast
    from Cons.IH [OF c1(2)] show ?thesis
    proof
      assume "\<exists>ys y zs c'. xs = ys @ y # zs \<and> run_all step ys c1 = Some c' \<and> inv c' \<and> \<not> guard y c'"
      then obtain ys y zs c' where "xs = ys @ y # zs" "run_all step ys c1 = Some c'" "inv c'" "\<not> guard y c'" by blast
      then show ?thesis using c1(1) by (intro disjI2 exI [of _ "x # ys"] exI [of _ y] exI [of _ zs] exI [of _ c']) simp
    qed (use c1(1) in simp)
  next
    case False
    then show ?thesis using Cons.prems by (intro disjI2 exI [of _ "[]"] exI [of _ x] exI [of _ xs] exI [of _ c]) simp
  qed
qed simp

end

end
