(* ===== verification/BitMath.thy ===== *)
theory BitMath
  imports Prelude
begin

section \<open>Bit arithmetic helpers\<close>

text \<open>
  The helpers of \<open>user/lib/libc/src/ext\<close> that the kernel links as well: power-of-2 tests and
  rounding (\<open>pow2_ul.c\<close>), the ceiling logarithm (\<open>log2_ul.c\<close>), and the leading-zero counts
  (\<open>bit_uc.c\<close>, \<open>bit_us.c\<close>, \<open>bit_ul.c\<close>, \<open>bit_ull.c\<close>) by which the scheduler finds the
  highest populated priority. \<open>unsigned long\<close> has 32 bits on the target.

  The rounding loop doubles \<open>p\<close> until it reaches \<open>n\<close>. Doubling wraps, so the loop never
  ends for \<open>n > 2 ^ 31\<close>; the loops are partial functions whose value \<open>None\<close> is a loop that
  does not return, and the theorems say exactly when they return.
\<close>

subsection \<open>Definitions\<close>

definition ispow2_ul :: "u32 \<Rightarrow> bool" where
  "ispow2_ul n \<longleftrightarrow> n \<noteq> 0 \<and> n AND (n - 1) = 0"

partial_function (option) pow2_ceil_loop :: "u32 \<Rightarrow> u32 \<Rightarrow> u32 option" where
  "pow2_ceil_loop n p = (if p < n then pow2_ceil_loop n (push_bit 1 p) else Some p)"

definition pow2_ceil_ul :: "u32 \<Rightarrow> u32 option" where
  "pow2_ceil_ul n = (if n \<noteq> 0 \<and> n AND (n - 1) = 0 then Some n else pow2_ceil_loop n 1)"

partial_function (option) log2_loop :: "u32 \<Rightarrow> u32 \<Rightarrow> u32 \<Rightarrow> u32 option" where
  "log2_loop n p b = (if p < n then log2_loop n (push_bit 1 p) (b + 1) else Some b)"

definition log2_ul :: "u32 \<Rightarrow> u32 option" where
  "log2_ul n = log2_loop n 1 0"

text \<open>One line of the binary search: \<open>if (val <= b) {n = n + k; val <<= k;}\<close>.\<close>

definition lz_try :: "nat \<Rightarrow> 'a::len word \<Rightarrow> nat \<times> 'a word \<Rightarrow> nat \<times> 'a word" where
  "lz_try k b s = (case s of (n, val) \<Rightarrow> if val \<le> b then (n + k, push_bit k val) else (n, val))"

definition leading_zeros_uc :: "u8 \<Rightarrow> nat" where
  "leading_zeros_uc val =
     (if val = 0 then 8
      else let (n, val) = lz_try 2 0x3F (lz_try 4 0x0F (0, val))
           in if val \<le> 0x7F then n + 1 else n)"

definition leading_ones_uc :: "u8 \<Rightarrow> nat" where
  "leading_ones_uc val = leading_zeros_uc (NOT val)"

definition leading_zeros_us :: "u16 \<Rightarrow> nat" where
  "leading_zeros_us val =
     (if val = 0 then 16
      else let (n, val) = lz_try 2 0x3FFF (lz_try 4 0x0FFF (lz_try 8 0x00FF (0, val)))
           in if val \<le> 0x7FFF then n + 1 else n)"

definition leading_ones_us :: "u16 \<Rightarrow> nat" where
  "leading_ones_us val = leading_zeros_us (NOT val)"

definition leading_zeros_ul :: "u32 \<Rightarrow> nat" where
  "leading_zeros_ul val =
     (if val = 0 then 32
      else let (n, val) = lz_try 2 0x3FFFFFFF (lz_try 4 0x0FFFFFFF (lz_try 8 0x00FFFFFF (lz_try 16 0x0000FFFF (0, val))))
           in if val \<le> 0x7FFFFFFF then n + 1 else n)"

definition leading_ones_ul :: "u32 \<Rightarrow> nat" where
  "leading_ones_ul val = leading_zeros_ul (NOT val)"

definition leading_zeros_ull :: "u64 \<Rightarrow> nat" where
  "leading_zeros_ull val =
     (let n = leading_zeros_ul (ucast (drop_bit 32 val))
      in if n = 32 then n + leading_zeros_ul (ucast (val AND 0xffffffff)) else n)"

definition leading_ones_ull :: "u64 \<Rightarrow> nat" where
  "leading_ones_ull val = leading_zeros_ull (NOT val)"

subsection \<open>Powers of two\<close>

lemma nat_and_pred_0:
  fixes n :: nat
  assumes "0 < n" and "n AND (n - 1) = 0"
  shows "\<exists>k. n = 2 ^ k"
  using assms
proof (induction n rule: less_induct)
  case (less n)
  show ?case
  proof (cases "even n")
    case True
    then obtain m where m: "n = 2 * m" by blast
    with less.prems have "0 < m" by simp
    have "(2 * m - 1) div 2 = m - 1" using \<open>0 < m\<close> by linarith
    then have "(2 * m) AND (2 * m - 1) = 2 * (m AND (m - 1))"
      by (subst and_nat_rec) simp
    with less.prems m have "m AND (m - 1) = 0" by simp
    with less.IH [of m] m \<open>0 < m\<close> obtain k where "m = 2 ^ k" by auto
    with m have "n = 2 ^ Suc k" by simp
    then show ?thesis by blast
  next
    case False
    then obtain m where m: "n = 2 * m + 1" by (metis oddE)
    then have "n AND (n - 1) = 2 * m"
      by (simp add: and_nat_rec)
    with less.prems m have "n = 2 ^ 0" by simp
    then show ?thesis by blast
  qed
qed

lemma unat_pow2_u32: "j < 32 \<Longrightarrow> unat ((2 :: u32) ^ j) = 2 ^ j"
proof -
  assume "j < 32"
  then have "(2 :: nat) ^ j < 2 ^ 32" by (intro power_strict_increasing) simp_all
  moreover have "(2 :: u32) ^ j = of_nat (2 ^ j)" by simp
  ultimately show ?thesis
    by (simp only: unat_of_nat take_bit_eq_mod) simp
qed

lemma pow2_and_pred_0: "(2 :: u32) ^ j AND (2 ^ j - 1) = 0"
proof -
  have "(2 :: u32) ^ j AND (2 ^ j - 1) = take_bit j (push_bit j 1)"
    by (simp add: push_bit_eq_mult take_bit_eq_mask mask_eq_decr_exp)
  then show ?thesis by (simp only: take_bit_push_bit) simp
qed

lemma ispow2_ul_iff: "ispow2_ul n \<longleftrightarrow> (\<exists>k<32. n = 2 ^ k)"
proof
  assume a: "ispow2_ul n"
  then have "0 < unat n" by (simp add: ispow2_ul_def unat_gt_0)
  moreover have "unat n AND (unat n - 1) = 0"
  proof -
    have "unat (n - 1) = unat n - 1"
      using a by (simp add: ispow2_ul_def unat_minus_one)
    moreover have "unat (n AND (n - 1)) = unat n AND unat (n - 1)"
      by (rule unsigned_and_eq)
    ultimately show ?thesis using a by (simp add: ispow2_ul_def)
  qed
  ultimately obtain k where k: "unat n = 2 ^ k" using nat_and_pred_0 by blast
  then have "(2 :: nat) ^ k < 2 ^ 32" using unat_less_pow [of n] by simp
  then have "k < 32" by (simp only: power_strict_increasing_iff)
  moreover have "n = 2 ^ k"
    using k \<open>k < 32\<close> by (simp add: word_unat_eq_iff unat_pow2_u32)
  ultimately show "\<exists>k<32. n = 2 ^ k" by blast
next
  assume "\<exists>k<32. n = 2 ^ k"
  then obtain k where k: "k < 32" "n = 2 ^ k" by blast
  then have "unat n = 2 ^ k" by (simp add: unat_pow2_u32)
  then have "n \<noteq> 0" by auto
  with k show "ispow2_ul n" by (simp add: ispow2_ul_def pow2_and_pred_0)
qed

subsection \<open>Rounding up to a power of two\<close>

lemma pow2_double: "(2 :: u32) ^ j * 2 = 2 ^ Suc j"
  by simp

lemma pow2_less_u32:
  assumes "j < 32"
  shows "(2 :: u32) ^ j < n \<longleftrightarrow> 2 ^ j < unat n"
  using assms by (simp add: word_less_nat_alt unat_pow2_u32)

lemma pow2_ceil_loop_stop:
  assumes "j < 32" and "unat n \<le> 2 ^ j"
  shows "pow2_ceil_loop n (2 ^ j) = Some (2 ^ j)"
proof -
  from assms have "\<not> (2 :: u32) ^ j < n" by (simp only: pow2_less_u32 not_less)
  then show ?thesis by (subst pow2_ceil_loop.simps) (simp only: if_False)
qed

lemma pow2_ceil_loop_double:
  assumes "j < 32" and "2 ^ j < unat n"
  shows "pow2_ceil_loop n (2 ^ j) = pow2_ceil_loop n (2 ^ Suc j)"
proof -
  from assms have "(2 :: u32) ^ j < n" by (simp only: pow2_less_u32)
  then show ?thesis
    by (subst pow2_ceil_loop.simps) (simp only: if_True push_bit_eq_mult power_one_right pow2_double)
qed

lemma pow2_ceil_loop_returns:
  assumes "j \<le> 31" and "unat n \<le> 2 ^ 31"
  shows "\<exists>k\<ge>j. k \<le> 31 \<and> pow2_ceil_loop n (2 ^ j) = Some (2 ^ k) \<and> unat n \<le> 2 ^ k
           \<and> (k = j \<or> 2 ^ (k - 1) < unat n)"
  using assms(1)
proof (induction "31 - j" arbitrary: j)
  case 0
  then have "j = 31" by simp
  with assms(2) show ?case
    by (intro exI [of _ 31]) (simp add: pow2_ceil_loop_stop del: power_numeral)
next
  case (Suc d)
  show ?case
  proof (cases "2 ^ j < unat n")
    case True
    from Suc.hyps(2) have "d = 31 - Suc j" "Suc j \<le> 31" by simp_all
    from Suc.hyps(1) [OF this] obtain k where k: "Suc j \<le> k" "k \<le> 31"
      "pow2_ceil_loop n (2 ^ Suc j) = Some (2 ^ k)" "unat n \<le> 2 ^ k"
      "k = Suc j \<or> 2 ^ (k - 1) < unat n"
      by blast
    have "pow2_ceil_loop n (2 ^ j) = pow2_ceil_loop n (2 ^ Suc j)"
      using True Suc.prems by (intro pow2_ceil_loop_double) simp_all
    with k True show ?thesis
      by (intro exI [of _ k]) auto
  next
    case False
    with Suc.prems show ?thesis
      by (intro exI [of _ j]) (simp add: pow2_ceil_loop_stop)
  qed
qed

lemma pow2_or_0_double:
  fixes p :: u32
  assumes "p = 0 \<or> (\<exists>j\<le>31. p = 2 ^ j)"
  shows "push_bit 1 p = 0 \<or> (\<exists>j\<le>31. push_bit 1 p = 2 ^ j)"
proof (cases "p = 0 \<or> p = 2 ^ 31")
  case True
  then show ?thesis by (auto simp: push_bit_eq_mult)
next
  case False
  with assms obtain j where j: "j \<le> 31" "p = 2 ^ j" by blast
  with False have "Suc j \<le> 31" by (cases "j = 31") auto
  moreover have "push_bit 1 p = 2 ^ Suc j"
    using j by (simp only: push_bit_eq_mult power_one_right pow2_double)
  ultimately show ?thesis by blast
qed

lemma pow2_or_0_less:
  assumes "p = 0 \<or> (\<exists>j\<le>31. p = 2 ^ j)" and "2 ^ 31 < unat n"
  shows "p < (n :: u32)"
proof -
  have "unat p \<le> 2 ^ 31"
    using assms(1)
  proof
    assume "\<exists>j\<le>31. p = 2 ^ j"
    then obtain j where "j \<le> 31" "p = 2 ^ j" by blast
    then have "unat p = 2 ^ j" by (simp add: unat_pow2_u32)
    with \<open>j \<le> 31\<close> show ?thesis by (simp only: power_increasing_iff)
  qed simp
  with assms(2) show ?thesis by (simp only: word_less_nat_alt)
qed

lemma pow2_ceil_loop_diverges:
  assumes "2 ^ 31 < unat n" and "p = 0 \<or> (\<exists>j\<le>31. p = 2 ^ j)"
  shows "pow2_ceil_loop n p = None"
proof (rule ccontr)
  assume "pow2_ceil_loop n p \<noteq> None"
  then obtain r where r: "pow2_ceil_loop n p = Some r" by blast
  let ?D = "\<lambda>n p (r :: u32). 2 ^ 31 < unat n \<longrightarrow> (p = 0 \<or> (\<exists>j\<le>31. p = 2 ^ j)) \<longrightarrow> False"
  have "?D n p r"
  proof (rule pow2_ceil_loop.raw_induct [where P = ?D, OF _ r], intro impI)
    fix f n p r
    assume IH: "\<And>n p r. f n p = Some r \<Longrightarrow> ?D n p r"
      and eq: "(if p < n then f n (push_bit 1 p) else Some p) = Some r"
      and n: "2 ^ 31 < unat n" and p: "p = 0 \<or> (\<exists>j\<le>31. p = 2 ^ j)"
    from eq pow2_or_0_less [OF p n] have "f n (push_bit 1 p) = Some r" by simp
    from IH [OF this] n pow2_or_0_double [OF p] show False by blast
  qed
  with assms show False by blast
qed

lemma pow2_ceil_loop_ceil:
  assumes "unat n \<le> 2 ^ 31"
  shows "pow2_ceil_loop n 1 = Some (2 ^ (LEAST k. unat n \<le> 2 ^ k))"
proof -
  from pow2_ceil_loop_returns [of 0 n] assms obtain k where k:
    "pow2_ceil_loop n 1 = Some (2 ^ k)" "unat n \<le> 2 ^ k" "k = 0 \<or> 2 ^ (k - 1) < unat n"
    by auto
  have "(LEAST j. unat n \<le> 2 ^ j) = k"
  proof (rule Least_equality)
    show "unat n \<le> 2 ^ k" by (rule k(2))
    fix j
    assume j: "unat n \<le> 2 ^ j"
    show "k \<le> j"
    proof (rule ccontr)
      assume "\<not> k \<le> j"
      then have "(2 :: nat) ^ j \<le> 2 ^ (k - 1)" by (intro power_increasing) simp_all
      with j have "unat n \<le> 2 ^ (k - 1)" by (rule le_trans)
      with k(3) \<open>\<not> k \<le> j\<close> show False by auto
    qed
  qed
  with k(1) show ?thesis by simp
qed

lemma Least_ge: "(LEAST j. (k :: nat) \<le> j) = k"
  by (rule Least_equality) auto

lemma pow2_ceil_ul_pow2:
  fixes n :: u32
  assumes "n \<noteq> 0 \<and> n AND (n - 1) = 0"
  shows "unat n \<le> 2 ^ 31 \<and> n = 2 ^ (LEAST k. unat n \<le> 2 ^ k)"
proof -
  from assms have "ispow2_ul n" by (simp add: ispow2_ul_def)
  then obtain k where k: "k < 32" "n = 2 ^ k" by (auto simp: ispow2_ul_iff)
  then have u: "unat n = 2 ^ k" by (simp add: unat_pow2_u32)
  have "(2 :: nat) ^ k \<le> 2 ^ 31" using k by (intro power_increasing) simp_all
  with k u show ?thesis by (simp add: Least_ge)
qed

subsection \<open>Leading zeros\<close>

text \<open>
  One step of the binary search: when the top \<open>k\<close> bits are clear, shifting by \<open>k\<close> loses nothing.
  \<open>v\<close> is the value at the start of the search.
\<close>

lemma lz_try_bounds:
  fixes val :: "'a::len word"
  assumes "k \<le> LENGTH('a)" and "unat val = 2 ^ n * v" and "2 ^ (LENGTH('a) - 2 * k) \<le> unat val"
    and "(n', val') = lz_try k b (n, val)" and "unat b = 2 ^ (LENGTH('a) - k) - 1"
  shows "unat val' = 2 ^ n' * v \<and> 2 ^ (LENGTH('a) - k) \<le> unat val'"
proof (cases "val \<le> b")
  case True
  then have "unat val \<le> 2 ^ (LENGTH('a) - k) - 1"
    using assms(5) by (simp add: word_le_nat_alt)
  moreover have "(0 :: nat) < 2 ^ (LENGTH('a) - k)" by simp
  ultimately have "unat val < 2 ^ (LENGTH('a) - k)" by linarith
  then have "2 ^ k * unat val < 2 ^ k * 2 ^ (LENGTH('a) - k)" by simp
  also have "\<dots> = 2 ^ LENGTH('a)" using assms(1) by (simp flip: power_add)
  finally have "unat (push_bit k val) = 2 ^ k * unat val"
    by (subst unsigned_push_bit_eq) (simp only: take_bit_eq_mod push_bit_eq_mult mult.commute mod_less)
  moreover have "(2 :: nat) ^ (LENGTH('a) - k) \<le> 2 ^ k * unat val"
  proof -
    have "(2 :: nat) ^ (LENGTH('a) - k) \<le> 2 ^ k * 2 ^ (LENGTH('a) - 2 * k)"
      by (simp flip: power_add)
    also have "\<dots> \<le> 2 ^ k * unat val" using assms(3) by simp
    finally show ?thesis .
  qed
  ultimately show ?thesis using True assms(2,4)
    by (simp add: lz_try_def power_add mult_ac)
next
  case False
  then have "2 ^ (LENGTH('a) - k) - 1 < unat val"
    using assms(5) by (simp add: word_le_nat_alt)
  with False assms(2,4) show ?thesis by (simp add: lz_try_def)
qed

lemma top_bit_word:
  fixes w :: "'a::len word"
  assumes "2 ^ m \<le> unat w" and "unat w < 2 ^ Suc m"
  shows "bit w m" and "m < j \<Longrightarrow> \<not> bit w j"
proof -
  have "unat w div 2 ^ m = 1"
    using assms by (intro div_nat_eqI) simp_all
  then have "bit (unat w) m" by (simp add: bit_iff_odd)
  then show "bit w m" by (simp add: bit_unsigned_iff)
next
  assume "m < j"
  then have "(2 :: nat) ^ Suc m \<le> 2 ^ j" by (intro power_increasing) simp_all
  with assms(2) have "unat w < 2 ^ j" by (rule less_le_trans)
  then have "unat w div 2 ^ j = 0" by simp
  then have "\<not> bit (unat w) j" by (simp add: bit_iff_odd)
  then show "\<not> bit w j" by (auto simp: bit_unsigned_iff dest: bit_imp_le_length)
qed

text \<open>The search as a list of step widths, each the half of the one before.\<close>

fun lz_run :: "nat list \<Rightarrow> nat \<times> 'a::len word \<Rightarrow> nat \<times> 'a word" where
  "lz_run [] s = s"
| "lz_run (k # ks) s = lz_run ks (lz_try k (mask (LENGTH('a) - k)) s)"

fun halves :: "nat list \<Rightarrow> bool" where
  "halves [] = False"
| "halves [k] = (k = 1)"
| "halves (k # j # ks) = (k = 2 * j \<and> halves (j # ks))"

lemma unat_mask: "k \<le> LENGTH('a) \<Longrightarrow> unat (mask k :: 'a::len word) = 2 ^ k - 1"
proof -
  assume "k \<le> LENGTH('a)"
  have "unat (mask k :: 'a word) = take_bit k (mask LENGTH('a))"
    by (simp only: take_bit_minus_one_eq_mask [symmetric] unsigned_take_bit_eq unsigned_minus_1_eq_mask)
  also have "\<dots> = mask k" using \<open>k \<le> LENGTH('a)\<close> by (simp only: take_bit_of_mask min.absorb1)
  finally show ?thesis by (simp only: mask_eq_exp_minus_1)
qed

lemma lz_run_bounds:
  fixes val :: "'a::len word"
  assumes "halves ks" and "hd ks \<le> LENGTH('a)" and "unat val = 2 ^ n * v"
    and "2 ^ (LENGTH('a) - 2 * hd ks) \<le> unat val" and "(n', val') = lz_run ks (n, val)"
  shows "unat val' = 2 ^ n' * v \<and> 2 ^ (LENGTH('a) - 1) \<le> unat val'"
  using assms
proof (induction ks arbitrary: n val rule: halves.induct)
  case 1
  then show ?case by simp
next
  case (2 k)
  then have "(n', val') = lz_try 1 (mask (LENGTH('a) - 1)) (n, val)" by simp
  from lz_try_bounds [OF _ _ _ this] 2 show ?case by (simp add: unat_mask)
next
  case (3 k j ks)
  obtain m w where mw: "(m, w) = lz_try k (mask (LENGTH('a) - k)) (n, val)"
    by (metis surj_pair)
  with 3 have "unat w = 2 ^ m * v \<and> 2 ^ (LENGTH('a) - k) \<le> unat w"
    by (intro lz_try_bounds [OF _ _ _ mw]) (simp_all add: unat_mask)
  with 3 mw show ?case by (intro "3.IH" [of w m]) simp_all
qed

text \<open>The reference: the clear bits from the top down to the first set one.\<close>

definition clz :: "'a::len word \<Rightarrow> nat" where
  "clz w = length (takeWhile (\<lambda>i. \<not> bit w (LENGTH('a) - 1 - i)) [0..<LENGTH('a)])"

lemma clz_0 [simp]: "clz (0 :: 'a::len word) = LENGTH('a)"
  by (simp add: clz_def takeWhile_eq_all_conv [THEN iffD2])

lemma clz_eqI:
  fixes w :: "'a::len word"
  assumes "2 ^ (LENGTH('a) - 1) \<le> 2 ^ n * unat w" and "2 ^ n * unat w < 2 ^ LENGTH('a)"
  shows "clz w = n"
proof -
  let ?L = "LENGTH('a)"
  have "0 < unat w" using assms(1) by (cases "unat w = 0") simp_all
  then have "(2 :: nat) ^ n \<le> 2 ^ n * unat w" by simp
  with assms(2) have "(2 :: nat) ^ n < 2 ^ ?L" by linarith
  then have n: "n < ?L" by simp
  have split: "(2 :: nat) ^ (?L - 1) = 2 ^ n * 2 ^ (?L - 1 - n)" "(2 :: nat) ^ ?L = 2 ^ n * 2 ^ Suc (?L - 1 - n)"
    using n by (simp_all flip: power_add power_Suc)
  with assms have "2 ^ (?L - 1 - n) \<le> unat w" "unat w < 2 ^ Suc (?L - 1 - n)" by simp_all
  from top_bit_word [OF this] n
  have "takeWhile (\<lambda>i. \<not> bit w (?L - 1 - i)) [0..<?L] = take n [0..<?L]"
    by (intro takeWhile_eq_take_P_nth) auto
  with n show ?thesis by (simp add: clz_def)
qed

lemma lz_run_clz:
  fixes val :: "'a::len word"
  assumes "val \<noteq> 0" and "halves ks" and "2 * hd ks = LENGTH('a)"
  shows "fst (lz_run ks (0, val)) = clz val"
proof -
  obtain n w where nw: "(n, w) = lz_run ks (0, val)" by (metis surj_pair)
  from assms(1) have "1 \<le> unat val" by (simp add: Suc_le_eq unat_gt_0)
  with assms have "unat w = 2 ^ n * unat val \<and> 2 ^ (LENGTH('a) - 1) \<le> unat w"
    by (intro lz_run_bounds [OF _ _ _ _ nw]) simp_all
  moreover have "unat w < 2 ^ LENGTH('a)" by (rule unsigned_less)
  ultimately have "clz val = n" by (intro clz_eqI) simp_all
  with nw show ?thesis by (metis fst_conv)
qed

lemma fst_lz_try: "fst (lz_try k b s) = (let (n, val) = s in if val \<le> b then n + k else n)"
  by (simp add: lz_try_def split: prod.splits)

lemma leading_zeros_clz:
  "leading_zeros_uc v8 = clz v8"
  "leading_zeros_us v16 = clz v16"
  "leading_zeros_ul v32 = clz v32"
proof -
  have "v8 \<noteq> 0 \<Longrightarrow> leading_zeros_uc v8 = fst (lz_run [4, 2, 1] (0, v8))"
    by (simp add: leading_zeros_uc_def fst_lz_try mask_eq_exp_minus_1 split: prod.splits)
  then show "leading_zeros_uc v8 = clz v8"
    by (cases "v8 = 0") (simp add: leading_zeros_uc_def, simp add: lz_run_clz del: lz_run.simps)
  have "v16 \<noteq> 0 \<Longrightarrow> leading_zeros_us v16 = fst (lz_run [8, 4, 2, 1] (0, v16))"
    by (simp add: leading_zeros_us_def fst_lz_try mask_eq_exp_minus_1 split: prod.splits)
  then show "leading_zeros_us v16 = clz v16"
    by (cases "v16 = 0") (simp add: leading_zeros_us_def, simp add: lz_run_clz del: lz_run.simps)
  have "v32 \<noteq> 0 \<Longrightarrow> leading_zeros_ul v32 = fst (lz_run [16, 8, 4, 2, 1] (0, v32))"
    by (simp add: leading_zeros_ul_def fst_lz_try mask_eq_exp_minus_1 split: prod.splits)
  then show "leading_zeros_ul v32 = clz v32"
    by (cases "v32 = 0") (simp add: leading_zeros_ul_def, simp add: lz_run_clz del: lz_run.simps)
qed

lemma clz_le: "clz (w :: 'a::len word) \<le> LENGTH('a)"
  using length_takeWhile_le [of _ "[0..<LENGTH('a)]"] by (simp add: clz_def)

lemma clz_bounds:
  fixes w :: "'a::len word"
  assumes "w \<noteq> 0"
  shows "clz w < LENGTH('a)" and "bit w (LENGTH('a) - 1 - clz w)"
    and "i < clz w \<Longrightarrow> \<not> bit w (LENGTH('a) - 1 - i)"
proof -
  let ?P = "\<lambda>i. \<not> bit w (LENGTH('a) - 1 - i)"
  show *: "clz w < LENGTH('a)"
  proof (rule ccontr)
    assume "\<not> clz w < LENGTH('a)"
    then have "length (takeWhile ?P [0..<LENGTH('a)]) = length [0..<LENGTH('a)]"
      using clz_le [of w] by (simp add: clz_def)
    then have "takeWhile ?P [0..<LENGTH('a)] = [0..<LENGTH('a)]"
      by (metis takeWhile_eq_take take_all order_refl)
    then have P: "\<forall>i<LENGTH('a). ?P i" by (simp add: takeWhile_eq_all_conv)
    have "\<not> bit w i" for i
    proof (cases "i < LENGTH('a)")
      case True
      with P [rule_format, of "LENGTH('a) - 1 - i"] show ?thesis by simp
    qed (use bit_imp_le_length in blast)
    then have "w = 0" by (simp add: bit_eq_iff)
    with assms show False ..
  qed
  show "bit w (LENGTH('a) - 1 - clz w)"
    using nth_length_takeWhile [of ?P "[0..<LENGTH('a)]"] * by (simp add: clz_def)
  assume "i < clz w"
  then show "\<not> bit w (LENGTH('a) - 1 - i)"
    using nth_mem [of i "takeWhile ?P [0..<LENGTH('a)]"] *
    by (auto simp: clz_def takeWhile_nth dest: set_takeWhileD)
qed

lemma clz_unique:
  fixes w :: "'a::len word"
  assumes "n < LENGTH('a)" and "bit w (LENGTH('a) - 1 - n)"
    and "\<And>i. i < n \<Longrightarrow> \<not> bit w (LENGTH('a) - 1 - i)"
  shows "clz w = n"
proof -
  have "takeWhile (\<lambda>i. \<not> bit w (LENGTH('a) - 1 - i)) [0..<LENGTH('a)] = take n [0..<LENGTH('a)]"
    using assms by (intro takeWhile_eq_take_P_nth) auto
  with assms(1) show ?thesis by (simp add: clz_def)
qed

lemma leading_zeros_ull_clz: "leading_zeros_ull val = clz val"
proof -
  define hi lo :: u32 where "hi = ucast (drop_bit 32 val)" and "lo = ucast (val AND 0xffffffff)"
  have def: "leading_zeros_ull val = (if clz hi = 32 then 32 + clz lo else clz hi)"
    by (simp add: leading_zeros_ull_def leading_zeros_clz Let_def hi_def lo_def)
  have hi: "bit hi i \<longleftrightarrow> bit val (32 + i)" if "i < 32" for i
    using that by (simp add: hi_def bit_simps)
  have lo: "bit lo i \<longleftrightarrow> bit val i" if "i < 32" for i
  proof -
    have "(0xffffffff :: u64) = mask 32" by (simp add: mask_eq_exp_minus_1)
    then have "lo = ucast (take_bit 32 val)" by (simp only: lo_def take_bit_eq_mask)
    then show ?thesis using that by (simp add: bit_simps)
  qed
  show ?thesis
  proof (cases "hi = 0")
    case False
    have hi': "bit val (63 - i) \<longleftrightarrow> bit hi (31 - i)" if "i < 32" for i
      using hi [of "31 - i"] that by simp
    with clz_bounds [OF False] have "clz val = clz hi"
      by (intro clz_unique) auto
    with def clz_bounds(1) [OF False] show ?thesis by simp
  next
    case hi0: True
    then have nhi: "\<not> bit val (63 - i)" if "i < 32" for i
      using hi [of "31 - i"] that by simp
    show ?thesis
    proof (cases "lo = 0")
      case False
      have "clz val = 32 + clz lo"
      proof (rule clz_unique)
        show "32 + clz lo < LENGTH(64)" using clz_bounds(1) [OF False] by simp
        show "bit val (LENGTH(64) - 1 - (32 + clz lo))"
          using clz_bounds(1,2) [OF False] lo by simp
        fix i
        assume i: "i < 32 + clz lo"
        show "\<not> bit val (LENGTH(64) - 1 - i)"
        proof (cases "i < 32")
          case True
          then show ?thesis using nhi by simp
        next
          case False
          with i clz_bounds(3) [OF \<open>lo \<noteq> 0\<close>, of "i - 32"] lo [of "63 - i"] show ?thesis by simp
        qed
      qed
      with hi0 def show ?thesis by simp
    next
      case True
      have "\<not> bit val i" if "i < 64" for i
        using nhi [of "63 - i"] lo [of i] True that by (cases "i < 32") auto
      then have "val = 0" by (intro bit_word_eqI) simp
      with def hi0 True show ?thesis by simp
    qed
  qed
qed

lemma pow2_ceil_ul_value:
  "pow2_ceil_ul n = (if unat n \<le> 2 ^ 31 then Some (2 ^ (LEAST k. unat n \<le> 2 ^ k)) else None)"
proof (cases "n \<noteq> 0 \<and> n AND (n - 1) = 0")
  case True
  from pow2_ceil_ul_pow2 [OF True] True show ?thesis by (simp add: pow2_ceil_ul_def)
next
  case False
  then have "pow2_ceil_ul n = pow2_ceil_loop n 1" by (auto simp: pow2_ceil_ul_def)
  moreover have "pow2_ceil_loop n 1 = None" if "2 ^ 31 < unat n"
    using that by (rule pow2_ceil_loop_diverges) (auto intro: exI [of _ 0])
  ultimately show ?thesis by (auto simp: pow2_ceil_loop_ceil not_le)
qed

subsection \<open>Properties\<close>

text \<open>
  C35. Rounding up to a power of two: \<open>pow2_ceil_ul\<close> returns the least power of two that is
  not below its argument for every argument up to \<open>2 ^ 31\<close>, and it never returns for a larger
  one (the doubled value wraps to 0 and the loop goes on forever).
\<close>

theorem pow2_ceil_ul_spec:
  "pow2_ceil_ul n = (if unat n \<le> 2 ^ 31 then Some (2 ^ (LEAST k. unat n \<le> 2 ^ k)) else None)"
  by (rule pow2_ceil_ul_value)

text \<open>
  C36. The leading-zero counts: the binary searches over 8, 16, 32 and 64 bits all compute the
  number of clear bits above the highest set bit (all bits when the word is 0).
\<close>

theorem leading_zeros_spec:
  "leading_zeros_uc v8 = clz v8 \<and> leading_zeros_us v16 = clz v16
   \<and> leading_zeros_ul v32 = clz v32 \<and> leading_zeros_ull v64 = clz v64"
  by (simp add: leading_zeros_clz leading_zeros_ull_clz)

end
