(* ===== verification/Deque.thy ===== *)
theory Deque
  imports Prelude
begin

section \<open>Intrusive doubly and singly linked queues\<close>

text \<open>
  \<open>ext/deque.c\<close> and \<open>ext/queue.c\<close>: the lists on which the kernel keeps its ready queues, wait
  queues, vcpu pools and inode chains. A node is part of the object it links, so the model has a
  store that maps the address of a node to its links, and the operations update the
  store the way the C code updates memory. A NULL dereference is the fault \<open>None\<close>.

  \<open>deque_rep\<close> and \<open>queue_rep\<close> relate a store and a queue header to the list of node addresses
  they hold. The locale \<open>deque_ops\<close> is the contract other components rely on; it is interpreted on
  the pointer operations, and its laws say that the operations are the list operations.
\<close>

subsection \<open>Definitions\<close>

type_synonym addr = nat

record dnode =
  next_ptr :: "addr option"
  prev_ptr :: "addr option"

record deque =
  first_ptr :: "addr option"
  last_ptr :: "addr option"

type_synonym dheap = "addr \<Rightarrow> dnode"

definition set_next :: "dheap \<Rightarrow> addr \<Rightarrow> addr option \<Rightarrow> dheap" where
  "set_next h a p = h(a := (h a)\<lparr>next_ptr := p\<rparr>)"

definition set_prev :: "dheap \<Rightarrow> addr \<Rightarrow> addr option \<Rightarrow> dheap" where
  "set_prev h a p = h(a := (h a)\<lparr>prev_ptr := p\<rparr>)"

definition DEQUE_INIT :: deque where
  "DEQUE_INIT = \<lparr>first_ptr = None, last_ptr = None\<rparr>"

definition deque_empty :: "deque \<Rightarrow> bool" where
  "deque_empty dq \<longleftrightarrow> first_ptr dq = None"

definition deque_add_first :: "dheap \<Rightarrow> deque \<Rightarrow> addr \<Rightarrow> dheap \<times> deque" where
  "deque_add_first h dq node =
     (let h = set_prev h node None;
          h = set_next h node (first_ptr dq);
          h = (case first_ptr dq of Some f \<Rightarrow> set_prev h f (Some node) | None \<Rightarrow> h);
          dq = dq\<lparr>first_ptr := Some node\<rparr>;
          dq = (if last_ptr dq = None then dq\<lparr>last_ptr := Some node\<rparr> else dq)
      in (h, dq))"

definition deque_add_last :: "dheap \<Rightarrow> deque \<Rightarrow> addr \<Rightarrow> dheap \<times> deque" where
  "deque_add_last h dq node =
     (let h = set_prev h node (last_ptr dq);
          h = set_next h node None;
          h = (case last_ptr dq of Some l \<Rightarrow> set_next h l (Some node) | None \<Rightarrow> h);
          dq = dq\<lparr>last_ptr := Some node\<rparr>;
          dq = (if first_ptr dq = None then dq\<lparr>first_ptr := Some node\<rparr> else dq)
      in (h, dq))"

definition deque_insert :: "dheap \<Rightarrow> deque \<Rightarrow> addr \<Rightarrow> addr option \<Rightarrow> dheap \<times> deque" where
  "deque_insert h dq node after =
     (case after of
        Some a \<Rightarrow>
          (let h = set_prev h node (Some a);
               h = set_next h node (next_ptr (h a));
               h = (case next_ptr (h a) of Some n \<Rightarrow> set_prev h n (Some node) | None \<Rightarrow> h);
               h = set_next h a (Some node);
               dq = (if last_ptr dq = Some a then dq\<lparr>last_ptr := Some node\<rparr> else dq)
           in (h, dq))
      | None \<Rightarrow> deque_add_first h dq node)"

definition deque_remove :: "dheap \<Rightarrow> deque \<Rightarrow> addr \<Rightarrow> dheap \<times> deque" where
  "deque_remove h dq node =
     (let (h, dq) =
        (if first_ptr dq \<noteq> Some node \<or> last_ptr dq \<noteq> Some node then
           (let h = (case next_ptr (h node) of Some n \<Rightarrow> set_prev h n (prev_ptr (h node)) | None \<Rightarrow> h);
                h = (case prev_ptr (h node) of Some p \<Rightarrow> set_next h p (next_ptr (h node)) | None \<Rightarrow> h);
                dq = (if first_ptr dq = Some node then dq\<lparr>first_ptr := next_ptr (h node)\<rparr> else dq);
                dq = (if last_ptr dq = Some node then dq\<lparr>last_ptr := prev_ptr (h node)\<rparr> else dq)
            in (h, dq))
         else (h, dq\<lparr>first_ptr := None, last_ptr := None\<rparr>));
        h = set_prev h node None;
        h = set_next h node None
      in (h, dq))"

definition deque_remove_first :: "dheap \<Rightarrow> deque \<Rightarrow> (addr option \<times> dheap \<times> deque) option" where
  "deque_remove_first h dq =
     (case first_ptr dq of
        None \<Rightarrow> Some (None, h, dq)
      | Some first \<Rightarrow>
          if Some first \<noteq> last_ptr dq then
            (case next_ptr (h first) of
               None \<Rightarrow> None
             | Some second \<Rightarrow>
                 (let h = set_prev h second None;
                      dq = dq\<lparr>first_ptr := Some second\<rparr>;
                      h = set_prev h first None;
                      h = set_next h first None
                  in Some (Some first, h, dq)))
          else Some (Some first, h, dq\<lparr>first_ptr := None, last_ptr := None\<rparr>))"

definition deque_remove_last :: "dheap \<Rightarrow> deque \<Rightarrow> (addr option \<times> dheap \<times> deque) option" where
  "deque_remove_last h dq =
     (case last_ptr dq of
        None \<Rightarrow> Some (None, h, dq)
      | Some lst \<Rightarrow>
          if Some lst \<noteq> first_ptr dq then
            (case prev_ptr (h lst) of
               None \<Rightarrow> None
             | Some prev \<Rightarrow>
                 (let h = set_next h prev None;
                      dq = dq\<lparr>last_ptr := Some prev\<rparr>;
                      h = set_prev h lst None
                  in Some (Some lst, h, dq)))
          else Some (Some lst, h, dq\<lparr>first_ptr := None, last_ptr := None\<rparr>))"

subsection \<open>The list a deque holds\<close>

fun hd_ptr :: "addr list \<Rightarrow> addr option \<Rightarrow> addr option" where
  "hd_ptr [] q = q"
| "hd_ptr (x # xs) q = Some x"

definition last_ptr_of :: "addr option \<Rightarrow> addr list \<Rightarrow> addr option" where
  "last_ptr_of p xs = (if xs = [] then p else Some (last xs))"

fun dseg :: "dheap \<Rightarrow> addr option \<Rightarrow> addr list \<Rightarrow> addr option \<Rightarrow> bool" where
  "dseg h p [] q \<longleftrightarrow> True"
| "dseg h p (x # xs) q \<longleftrightarrow> prev_ptr (h x) = p \<and> next_ptr (h x) = hd_ptr xs q \<and> dseg h (Some x) xs q"

definition deque_rep :: "dheap \<Rightarrow> deque \<Rightarrow> addr list \<Rightarrow> bool" where
  "deque_rep h dq xs \<longleftrightarrow> distinct xs \<and> first_ptr dq = hd_ptr xs None
     \<and> last_ptr dq = last_ptr_of None xs \<and> dseg h None xs None"

lemma hd_ptr_append [simp]: "hd_ptr (xs @ ys) q = hd_ptr xs (hd_ptr ys q)"
  by (cases xs) simp_all

lemma hd_ptr_None_iff [simp]: "hd_ptr xs None = None \<longleftrightarrow> xs = []"
  by (cases xs) simp_all

lemma hd_ptr_Some [simp]:
  "hd_ptr xs (Some y) \<noteq> None" "(\<exists>z. hd_ptr xs (Some y) = Some z)"
  by (cases xs; simp)+

lemma hd_ptr_notin [simp]: "a \<notin> set xs \<Longrightarrow> hd_ptr xs q = Some a \<longleftrightarrow> xs = [] \<and> q = Some a"
  "a \<notin> set xs \<Longrightarrow> Some a = hd_ptr xs q \<longleftrightarrow> xs = [] \<and> q = Some a"
  by (cases xs; auto)+

lemma last_ptr_of_simps [simp]:
  "last_ptr_of p [] = p" "last_ptr_of p (xs @ [x]) = Some x"
  "last_ptr_of p (xs @ y # ys) = last_ptr_of (Some y) ys"
  "last_ptr_of p (x # xs) = last_ptr_of (Some x) xs"
  by (simp_all add: last_ptr_of_def)

lemma dseg_append [simp]:
  "dseg h p (xs @ ys) q \<longleftrightarrow> dseg h p xs (hd_ptr ys q) \<and> dseg h (last_ptr_of p xs) ys q"
  by (induction xs arbitrary: p) auto

lemma set_next_sel [simp]:
  "next_ptr (set_next h a v b) = (if b = a then v else next_ptr (h b))"
  "prev_ptr (set_next h a v b) = prev_ptr (h b)"
  by (simp_all add: set_next_def)

lemma set_prev_sel [simp]:
  "prev_ptr (set_prev h a v b) = (if b = a then v else prev_ptr (h b))"
  "next_ptr (set_prev h a v b) = next_ptr (h b)"
  by (simp_all add: set_prev_def)

lemma dseg_frame [simp]:
  assumes "a \<notin> set xs"
  shows "dseg (set_next h a v) p xs q = dseg h p xs q" "dseg (set_prev h a v) p xs q = dseg h p xs q"
  using assms by (induction xs arbitrary: p) auto

lemma dseg_outside_eq:
  "(\<And>b. b \<in> set xs \<Longrightarrow> h' b = h b) \<Longrightarrow> dseg h' p xs q = dseg h p xs q"
  by (induction xs arbitrary: p) auto

subsection \<open>Each operation is the list operation\<close>

lemma deque_rep_init: "deque_rep h DEQUE_INIT []"
  by (simp add: deque_rep_def DEQUE_INIT_def)

lemma deque_empty_rep: "deque_rep h dq xs \<Longrightarrow> deque_empty dq \<longleftrightarrow> xs = []"
  by (simp add: deque_rep_def deque_empty_def)

lemma deque_add_first_rep:
  assumes "deque_rep h dq xs" "a \<notin> set xs" "deque_add_first h dq a = (h', dq')"
  shows "deque_rep h' dq' (a # xs)"
  using assms by (cases xs) (auto simp: deque_rep_def deque_add_first_def Let_def last_ptr_of_def)

lemma deque_add_last_rep:
  assumes "deque_rep h dq xs" "a \<notin> set xs" "deque_add_last h dq a = (h', dq')"
  shows "deque_rep h' dq' (xs @ [a])"
  using assms
  by (cases xs rule: rev_cases) (auto simp: deque_rep_def deque_add_last_def Let_def)

lemma deque_insert_rep:
  assumes "deque_rep h dq (ys @ b # zs)" "a \<notin> set (ys @ b # zs)"
    "deque_insert h dq a (Some b) = (h', dq')"
  shows "deque_rep h' dq' (ys @ b # a # zs)"
  using assms
  by (cases zs) (auto simp: deque_rep_def deque_insert_def Let_def last_ptr_of_def split: if_splits)

lemma deque_remove_rep:
  assumes "deque_rep h dq (ys @ a # zs)" "deque_remove h dq a = (h', dq')"
  shows "deque_rep h' dq' (ys @ zs)"
  using assms
  by (cases ys rule: rev_cases; cases zs)
     (auto simp: deque_rep_def deque_remove_def Let_def last_ptr_of_def split: if_splits)

lemma deque_remove_first_rep:
  assumes "deque_rep h dq (a # xs)"
  shows "\<exists>h' dq'. deque_remove_first h dq = Some (Some a, h', dq') \<and> deque_rep h' dq' xs"
  using assms by (cases xs) (auto simp: deque_rep_def deque_remove_first_def Let_def last_ptr_of_def)

lemma deque_remove_last_rep:
  assumes "deque_rep h dq (xs @ [a])"
  shows "\<exists>h' dq'. deque_remove_last h dq = Some (Some a, h', dq') \<and> deque_rep h' dq' xs"
  using assms
  by (cases xs rule: rev_cases) (auto simp: deque_rep_def deque_remove_last_def Let_def)

lemma deque_remove_empty:
  assumes "deque_rep h dq []"
  shows "deque_remove_first h dq = Some (None, h, dq)" "deque_remove_last h dq = Some (None, h, dq)"
  using assms by (simp_all add: deque_rep_def deque_remove_first_def deque_remove_last_def)

text \<open>The store outside the nodes of the queue and the node in hand is left alone.\<close>

definition same_outside :: "addr set \<Rightarrow> dheap \<Rightarrow> dheap \<Rightarrow> bool" where
  "same_outside N h h' \<longleftrightarrow> (\<forall>b. b \<notin> N \<longrightarrow> h' b = h b)"

lemma same_outside_set [simp]:
  "a \<in> N \<Longrightarrow> same_outside N h0 (set_next h a v) = same_outside N h0 h"
  "a \<in> N \<Longrightarrow> same_outside N h0 (set_prev h a v) = same_outside N h0 h"
  by (auto simp: same_outside_def set_next_def set_prev_def)

lemma deque_rep_link_in:
  assumes "deque_rep h dq xs" "x \<in> set xs" "next_ptr (h x) = Some y \<or> prev_ptr (h x) = Some y"
  shows "y \<in> set xs"
proof -
  obtain ys zs where xs: "xs = ys @ x # zs"
    using split_list [OF assms(2)] by blast
  show ?thesis
    using assms(1,3) unfolding xs
    by (cases ys rule: rev_cases; cases zs) (auto simp: deque_rep_def)
qed

lemma deque_rep_ends_in:
  assumes "deque_rep h dq xs"
  shows "first_ptr dq = Some a \<Longrightarrow> a \<in> set xs" "last_ptr dq = Some a \<Longrightarrow> a \<in> set xs"
  using assms by (cases xs; auto simp: deque_rep_def last_ptr_of_def split: if_splits)+

lemma deque_frame:
  assumes "deque_rep h dq xs" "set xs \<subseteq> N" "a \<in> N" "same_outside N h0 h"
  shows
    "same_outside N h0 (fst (deque_add_first h dq a))"
    "same_outside N h0 (fst (deque_add_last h dq a))"
    "b \<in> set xs \<Longrightarrow> same_outside N h0 (fst (deque_insert h dq a (Some b)))"
    "a \<in> set xs \<Longrightarrow> same_outside N h0 (fst (deque_remove h dq a))"
proof -
  note ends = deque_rep_ends_in [OF assms(1)] and link = deque_rep_link_in [OF assms(1)]
  show "same_outside N h0 (fst (deque_add_first h dq a))"
    using assms ends by (auto simp: deque_add_first_def Let_def split: option.splits)
  show "same_outside N h0 (fst (deque_add_last h dq a))"
    using assms ends by (auto simp: deque_add_last_def Let_def split: option.splits)
  show "b \<in> set xs \<Longrightarrow> same_outside N h0 (fst (deque_insert h dq a (Some b)))"
    using assms link [of b] by (auto simp: subset_iff deque_insert_def Let_def split: option.splits)
  show "a \<in> set xs \<Longrightarrow> same_outside N h0 (fst (deque_remove h dq a))"
    using assms link [of a] by (auto simp: subset_iff deque_remove_def Let_def split: option.splits)
qed

lemma deque_frame_remove:
  assumes "deque_rep h dq xs" "set xs \<subseteq> N" "same_outside N h0 h"
  shows
    "deque_remove_first h dq = Some (r, h', dq') \<Longrightarrow> same_outside N h0 h'"
    "deque_remove_last h dq = Some (r, h', dq') \<Longrightarrow> same_outside N h0 h'"
  using assms deque_rep_ends_in [OF assms(1)] deque_rep_link_in [OF assms(1)]
  by (auto simp: deque_remove_first_def deque_remove_last_def Let_def subset_iff
      split: option.splits if_splits)

subsection \<open>Sequences of deque calls\<close>

datatype dq_op = AddFirst addr | AddLast addr | Insert addr "addr option" | Remove addr
  | RemoveFirst | RemoveLast

definition dq_step :: "dq_op \<Rightarrow> dheap \<times> deque \<Rightarrow> (addr option \<times> dheap \<times> deque) option" where
  "dq_step x = (\<lambda>(h, dq). case x of
     AddFirst a \<Rightarrow> Some (None, deque_add_first h dq a)
   | AddLast a \<Rightarrow> Some (None, deque_add_last h dq a)
   | Insert a b \<Rightarrow> Some (None, deque_insert h dq a b)
   | Remove a \<Rightarrow> Some (None, deque_remove h dq a)
   | RemoveFirst \<Rightarrow> deque_remove_first h dq
   | RemoveLast \<Rightarrow> deque_remove_last h dq)"

fun insert_after :: "'a \<Rightarrow> 'a \<Rightarrow> 'a list \<Rightarrow> 'a list" where
  "insert_after a b [] = []"
| "insert_after a b (x # xs) = (if x = b then x # a # xs else x # insert_after a b xs)"

definition dq_spec :: "dq_op \<Rightarrow> addr list \<Rightarrow> addr option \<times> addr list" where
  "dq_spec x xs = (case x of
     AddFirst a \<Rightarrow> (None, a # xs)
   | AddLast a \<Rightarrow> (None, xs @ [a])
   | Insert a None \<Rightarrow> (None, a # xs)
   | Insert a (Some b) \<Rightarrow> (None, insert_after a b xs)
   | Remove a \<Rightarrow> (None, remove1 a xs)
   | RemoveFirst \<Rightarrow> (if xs = [] then (None, xs) else (Some (hd xs), tl xs))
   | RemoveLast \<Rightarrow> (if xs = [] then (None, xs) else (Some (last xs), butlast xs)))"

text \<open>The caller's obligations: a node is added when it is on no list, removed when it is on this one.\<close>

definition dq_pre :: "addr set \<Rightarrow> dq_op \<Rightarrow> addr list \<Rightarrow> bool" where
  "dq_pre N x xs \<longleftrightarrow> (case x of
     AddFirst a \<Rightarrow> a \<in> N \<and> a \<notin> set xs
   | AddLast a \<Rightarrow> a \<in> N \<and> a \<notin> set xs
   | Insert a None \<Rightarrow> a \<in> N \<and> a \<notin> set xs
   | Insert a (Some b) \<Rightarrow> a \<in> N \<and> a \<notin> set xs \<and> b \<in> set xs
   | Remove a \<Rightarrow> a \<in> set xs
   | _ \<Rightarrow> True)"

definition dq_rel :: "addr set \<Rightarrow> dheap \<Rightarrow> dheap \<times> deque \<Rightarrow> addr list \<Rightarrow> bool" where
  "dq_rel N h0 = (\<lambda>(h, dq) xs. deque_rep h dq xs \<and> set xs \<subseteq> N \<and> same_outside N h0 h)"

lemma insert_after_split [simp]:
  "b \<notin> set ys \<Longrightarrow> insert_after a b (ys @ b # zs) = ys @ b # a # zs"
  by (induction ys) auto

lemma remove1_split [simp]: "a \<notin> set ys \<Longrightarrow> remove1 a (ys @ a # zs) = ys @ zs"
  by (simp add: remove1_append)

lemma dq_rel_intro:
  "deque_rep (fst c) (snd c) xs \<Longrightarrow> set xs \<subseteq> N \<Longrightarrow> same_outside N h0 (fst c) \<Longrightarrow> dq_rel N h0 c xs"
  by (simp add: dq_rel_def split_beta)

lemma deque_rep_distinct: "deque_rep h dq xs \<Longrightarrow> distinct xs"
  by (simp add: deque_rep_def)

lemma dq_rel_cases:
  assumes "dq_rel N h0 c xs"
  obtains h dq where "c = (h, dq)" "deque_rep h dq xs" "set xs \<subseteq> N" "same_outside N h0 h"
  using assms by (cases c) (auto simp: dq_rel_def)

lemma dq_rel_add_first:
  assumes "dq_rel N h0 (h, dq) xs" "a \<in> N" "a \<notin> set xs"
  shows "dq_rel N h0 (deque_add_first h dq a) (a # xs)"
  using assms deque_frame(1) deque_add_first_rep [OF _ _ surjective_pairing]
  by (auto simp: dq_rel_def split_beta)

lemma dq_rel_add_last:
  assumes "dq_rel N h0 (h, dq) xs" "a \<in> N" "a \<notin> set xs"
  shows "dq_rel N h0 (deque_add_last h dq a) (xs @ [a])"
  using assms deque_frame(2) deque_add_last_rep [OF _ _ surjective_pairing]
  by (auto simp: dq_rel_def split_beta)

lemma dq_rel_insert:
  assumes "dq_rel N h0 (h, dq) xs" "a \<in> N" "a \<notin> set xs" "b \<in> set xs"
  shows "dq_rel N h0 (deque_insert h dq a (Some b)) (insert_after a b xs)"
proof -
  obtain ys zs where xs: "xs = ys @ b # zs"
    using split_list [OF assms(4)] by blast
  have "b \<notin> set ys"
    using assms(1) by (auto simp: xs dq_rel_def dest!: deque_rep_distinct)
  then show ?thesis
    using assms deque_frame(3) deque_insert_rep [OF _ _ surjective_pairing, of h dq ys b zs a]
    by (auto simp: xs dq_rel_def split_beta)
qed

lemma dq_rel_remove:
  assumes "dq_rel N h0 (h, dq) xs" "a \<in> set xs"
  shows "dq_rel N h0 (deque_remove h dq a) (remove1 a xs)"
proof -
  obtain ys zs where xs: "xs = ys @ a # zs"
    using split_list [OF assms(2)] by blast
  have "a \<notin> set ys"
    using assms(1) by (auto simp: xs dq_rel_def dest!: deque_rep_distinct)
  then show ?thesis
    using assms deque_frame(4) [of h dq xs N a h0] deque_remove_rep [OF _ surjective_pairing, of h dq ys a zs]
    by (auto simp: xs dq_rel_def split_beta)
qed

lemma dq_rel_remove_first:
  assumes "dq_rel N h0 (h, dq) (a # xs)"
  shows "\<exists>h' dq'. deque_remove_first h dq = Some (Some a, h', dq') \<and> dq_rel N h0 (h', dq') xs"
  using assms deque_remove_first_rep [of h dq a xs] deque_frame_remove(1) [of h dq "a # xs" N h0]
  by (fastforce simp: dq_rel_def)

lemma dq_rel_remove_last:
  assumes "dq_rel N h0 (h, dq) (xs @ [a])"
  shows "\<exists>h' dq'. deque_remove_last h dq = Some (Some a, h', dq') \<and> dq_rel N h0 (h', dq') xs"
  using assms deque_remove_last_rep [of h dq xs a] deque_frame_remove(2) [of h dq "xs @ [a]" N h0]
  by (fastforce simp: dq_rel_def)

lemmas dq_rel_ops = dq_rel_add_first dq_rel_add_last dq_rel_insert dq_rel_remove

lemma dq_simulates:
  assumes "dq_rel N h0 c xs" "dq_pre N x xs"
  shows "\<exists>c'. dq_step x c = Some (fst (dq_spec x xs), c') \<and> dq_rel N h0 c' (snd (dq_spec x xs))"
proof -
  obtain h dq where c: "c = (h, dq)" by (cases c)
  note rel = assms(1) [unfolded c]
  show ?thesis
  proof (cases x)
    case (Insert a p)
    then show ?thesis
      using assms(2) dq_rel_ops [OF rel]
      by (cases p) (auto simp: c dq_step_def dq_spec_def dq_pre_def deque_insert_def)
  next
    case RemoveFirst
    then show ?thesis
      using rel dq_rel_remove_first [of N h0 h dq] deque_remove_empty(1) [of h dq]
      by (cases xs) (auto simp: c dq_step_def dq_spec_def dq_rel_def)
  next
    case RemoveLast
    then show ?thesis
      using rel dq_rel_remove_last [of N h0 h dq] deque_remove_empty(2) [of h dq]
      by (cases xs rule: rev_cases) (auto simp: c dq_step_def dq_spec_def dq_rel_def)
  qed (use assms(2) dq_rel_ops [OF rel] in \<open>auto simp: c dq_step_def dq_spec_def dq_pre_def\<close>)
qed

interpretation dq: data_refinement "dq_rel N h0" dq_step "dq_pre N" dq_spec for N h0
  by unfold_locales (rule dq_simulates)

text \<open>
  C5. Deque calls refine list operations. Take any sequence of deque calls whose callers respect
  the contract (a node is added only when it is not on the deque, removed only when it is, and
  comes from the set \<open>N\<close> of nodes this deque owns). Starting from a deque that holds \<open>xs\<close>, the
  calls never dereference NULL, return exactly the nodes the list operations return,
  leave a well-formed doubly linked deque that holds the resulting list, and do not
  touch a node outside \<open>N\<close>: two deques with disjoint nodes do not interfere.
\<close>

theorem deque_calls_refine_lists:
  assumes "deque_rep h dq xs" "set xs \<subseteq> N" "run_pre (dq_pre N) dq_spec ops xs"
  shows "\<exists>h' dq'. run_ops dq_step ops (h, dq) = Some (fst (run_spec dq_spec ops xs), h', dq')
           \<and> deque_rep h' dq' (snd (run_spec dq_spec ops xs))
           \<and> (\<forall>b. b \<notin> N \<longrightarrow> h' b = h b)"
proof -
  have "dq_rel N h (h, dq) xs"
    using assms by (simp add: dq_rel_def same_outside_def)
  from dq.run_refines [OF this assms(3)] show ?thesis
    by (auto simp: dq_rel_def same_outside_def split_beta)
qed

theorem deque_calls_refine_lists_witness:
  "\<exists>h' dq'. run_ops dq_step [AddLast 1, AddLast 2, AddFirst 3, Insert 4 (Some 1), Remove 1, RemoveFirst, RemoveLast]
        ((\<lambda>_. \<lparr>next_ptr = None, prev_ptr = None\<rparr>), DEQUE_INIT)
      = Some ([None, None, None, None, None, Some 3, Some 2], h', dq') \<and> deque_rep h' dq' [4]"
  using deque_calls_refine_lists
    [OF deque_rep_init, of "{1, 2, 3, 4}"
      "[AddLast 1, AddLast 2, AddFirst 3, Insert 4 (Some 1), Remove 1, RemoveFirst, RemoveLast]"
      "\<lambda>_. \<lparr>next_ptr = None, prev_ptr = None\<rparr>"]
  by (auto simp: dq_pre_def dq_spec_def)

subsection \<open>Iteration\<close>

text \<open>
  \<open>deque_for_each\<close> and \<open>deque_for_each_reversed\<close>: the closure gets the node and the state, and says
  whether it broke out of the loop. The successor is read before the closure runs.
\<close>

partial_function (option) deque_for_each_loop ::
  "('s \<Rightarrow> dheap) \<Rightarrow> (addr \<Rightarrow> 's \<Rightarrow> 's \<times> bool) \<Rightarrow> addr option \<Rightarrow> 's \<Rightarrow> 's option" where
  "deque_for_each_loop hp f it s =
     (case it of None \<Rightarrow> Some s
      | Some a \<Rightarrow> let np = next_ptr (hp s a) in
          (case f a s of (s', brk) \<Rightarrow> if brk then Some s' else deque_for_each_loop hp f np s'))"

definition deque_for_each ::
  "('s \<Rightarrow> dheap) \<Rightarrow> deque \<Rightarrow> (addr \<Rightarrow> 's \<Rightarrow> 's \<times> bool) \<Rightarrow> 's \<Rightarrow> 's option" where
  "deque_for_each hp dq f s = deque_for_each_loop hp f (first_ptr dq) s"

partial_function (option) deque_for_each_reversed_loop ::
  "('s \<Rightarrow> dheap) \<Rightarrow> (addr \<Rightarrow> 's \<Rightarrow> 's \<times> bool) \<Rightarrow> addr option \<Rightarrow> 's \<Rightarrow> 's option" where
  "deque_for_each_reversed_loop hp f it s =
     (case it of None \<Rightarrow> Some s
      | Some a \<Rightarrow> let pp = prev_ptr (hp s a) in
          (case f a s of (s', brk) \<Rightarrow> if brk then Some s' else deque_for_each_reversed_loop hp f pp s'))"

definition deque_for_each_reversed ::
  "('s \<Rightarrow> dheap) \<Rightarrow> deque \<Rightarrow> (addr \<Rightarrow> 's \<Rightarrow> 's \<times> bool) \<Rightarrow> 's \<Rightarrow> 's option" where
  "deque_for_each_reversed hp dq f s = deque_for_each_reversed_loop hp f (last_ptr dq) s"

fun fold_until :: "('a \<Rightarrow> 's \<Rightarrow> 's \<times> bool) \<Rightarrow> 'a list \<Rightarrow> 's \<Rightarrow> 's" where
  "fold_until f [] s = s"
| "fold_until f (x # xs) s = (let (s', brk) = f x s in if brk then s' else fold_until f xs s')"

lemma deque_for_each_loop_seg:
  assumes keep: "\<And>a s b. b \<noteq> a \<Longrightarrow> hp (fst (f a s)) b = hp s b"
  shows "distinct xs \<Longrightarrow> dseg (hp s) p xs None
    \<Longrightarrow> deque_for_each_loop hp f (hd_ptr xs None) s = Some (fold_until f xs s)"
proof (induction xs arbitrary: p s)
  case Nil
  then show ?case by (simp add: deque_for_each_loop.simps)
next
  case (Cons x xs)
  have "dseg (hp (fst (f x s))) (Some x) xs None"
    using Cons.prems by (subst dseg_outside_eq [where h = "hp s"]) (auto intro!: keep)
  then show ?case
    using Cons.IH [of "fst (f x s)" "Some x"] Cons.prems
    by (subst deque_for_each_loop.simps) (simp add: Let_def split_beta)
qed

lemma deque_for_each_reversed_loop_seg:
  assumes keep: "\<And>a s b. b \<noteq> a \<Longrightarrow> hp (fst (f a s)) b = hp s b"
  shows "distinct xs \<Longrightarrow> dseg (hp s) None xs q
    \<Longrightarrow> deque_for_each_reversed_loop hp f (last_ptr_of None xs) s = Some (fold_until f (rev xs) s)"
proof (induction xs arbitrary: q s rule: rev_induct)
  case Nil
  then show ?case by (simp add: deque_for_each_reversed_loop.simps)
next
  case (snoc x xs)
  have "dseg (hp (fst (f x s))) None xs (Some x)"
    using snoc.prems by (subst dseg_outside_eq [where h = "hp s"]) (auto intro!: keep)
  then show ?case
    using snoc.IH [of "fst (f x s)" "Some x"] snoc.prems
    by (subst deque_for_each_reversed_loop.simps) (simp add: Let_def split_beta)
qed

text \<open>
  C37. Iterating a deque. Over a well-formed deque that holds \<open>xs\<close> both loops terminate and run the
  closure on the nodes of \<open>xs\<close>, in order (respectively in reverse order), each once, up to the
  first one whose closure breaks. The closure may do what it likes to the node it is given
  (free it, link it into another list) as long as it leaves the other nodes alone.
\<close>

theorem deque_for_each_visits:
  assumes "deque_rep (hp s) dq xs" "\<And>a s b. b \<noteq> a \<Longrightarrow> hp (fst (f a s)) b = hp s b"
  shows "deque_for_each hp dq f s = Some (fold_until f xs s)
       \<and> deque_for_each_reversed hp dq f s = Some (fold_until f (rev xs) s)"
  using assms(1) deque_for_each_loop_seg [of hp f, OF assms(2), of xs s None]
    deque_for_each_reversed_loop_seg [of hp f, OF assms(2), of xs s None]
  by (auto simp: deque_rep_def deque_for_each_def deque_for_each_reversed_def)

definition two_nodes :: dheap where
  "two_nodes a = (if a = 7 then \<lparr>next_ptr = Some 9, prev_ptr = None\<rparr>
                  else \<lparr>next_ptr = None, prev_ptr = Some 7\<rparr>)"

definition unlink_and_log :: "addr \<Rightarrow> dheap \<times> addr list \<Rightarrow> (dheap \<times> addr list) \<times> bool" where
  "unlink_and_log a = (\<lambda>(h, seen). ((h(a := \<lparr>next_ptr = None, prev_ptr = None\<rparr>), seen @ [a]), False))"

theorem deque_for_each_visits_witness:
  "map_option snd (deque_for_each fst \<lparr>first_ptr = Some 7, last_ptr = Some 9\<rparr> unlink_and_log (two_nodes, []))
     = Some [7, 9]"
proof -
  have "deque_rep (fst (two_nodes, [] :: nat list)) \<lparr>first_ptr = Some 7, last_ptr = Some 9\<rparr> [7, 9]"
    by (simp add: deque_rep_def two_nodes_def last_ptr_of_def)
  from deque_for_each_visits [of fst, OF this,
      of unlink_and_log]
  show ?thesis by (simp add: unlink_and_log_def split_beta)
qed

subsection \<open>Singly linked queues\<close>

type_synonym qheap = "addr \<Rightarrow> addr option"

record queue =
  qfirst :: "addr option"
  qlast :: "addr option"

definition QUEUE_INIT :: queue where
  "QUEUE_INIT = \<lparr>qfirst = None, qlast = None\<rparr>"

definition queue_empty :: "queue \<Rightarrow> bool" where
  "queue_empty q \<longleftrightarrow> qfirst q = None"

definition queue_add_first :: "qheap \<Rightarrow> queue \<Rightarrow> addr \<Rightarrow> qheap \<times> queue" where
  "queue_add_first h q node =
     (let h = h(node := qfirst q);
          q = q\<lparr>qfirst := Some node\<rparr>;
          q = (if qlast q = None then q\<lparr>qlast := Some node\<rparr> else q)
      in (h, q))"

definition queue_add_last :: "qheap \<Rightarrow> queue \<Rightarrow> addr \<Rightarrow> qheap \<times> queue" where
  "queue_add_last h q node =
     (let h = h(node := None);
          h = (case qlast q of Some l \<Rightarrow> h(l := Some node) | None \<Rightarrow> h);
          q = q\<lparr>qlast := Some node\<rparr>;
          q = (if qfirst q = None then q\<lparr>qfirst := Some node\<rparr> else q)
      in (h, q))"

definition queue_insert :: "qheap \<Rightarrow> queue \<Rightarrow> addr \<Rightarrow> addr option \<Rightarrow> qheap \<times> queue" where
  "queue_insert h q node after =
     (case after of
        Some a \<Rightarrow>
          (let h = h(node := h a);
               h = h(a := Some node);
               q = (if qlast q = Some a then q\<lparr>qlast := Some node\<rparr> else q)
           in (h, q))
      | None \<Rightarrow> queue_add_first h q node)"

definition queue_remove_first :: "qheap \<Rightarrow> queue \<Rightarrow> addr option \<times> qheap \<times> queue" where
  "queue_remove_first h q =
     (case qfirst q of
        None \<Rightarrow> (None, h, q)
      | Some fnp \<Rightarrow>
          (let q = (if qlast q = Some fnp then q\<lparr>qlast := None\<rparr> else q);
               q = q\<lparr>qfirst := h fnp\<rparr>;
               h = h(fnp := None)
           in (Some fnp, h, q)))"

definition queue_remove :: "qheap \<Rightarrow> queue \<Rightarrow> addr option \<Rightarrow> addr \<Rightarrow> (qheap \<times> queue) option" where
  "queue_remove h q prev node =
     (if Some node = qfirst q \<and> Some node = qlast q then Some (h, q\<lparr>qfirst := None, qlast := None\<rparr>)
      else if Some node = qfirst q then Some (h, q\<lparr>qfirst := h node\<rparr>)
      else if Some node = qlast q then
        Some ((case prev of Some p \<Rightarrow> h(p := None) | None \<Rightarrow> h), q\<lparr>qlast := prev\<rparr>)
      else (case prev of None \<Rightarrow> None | Some p \<Rightarrow> Some (h(p := h node), q)))"

fun sseg :: "qheap \<Rightarrow> addr list \<Rightarrow> addr option \<Rightarrow> bool" where
  "sseg h [] q \<longleftrightarrow> True"
| "sseg h (x # xs) q \<longleftrightarrow> h x = hd_ptr xs q \<and> sseg h xs q"

definition queue_rep :: "qheap \<Rightarrow> queue \<Rightarrow> addr list \<Rightarrow> bool" where
  "queue_rep h q xs \<longleftrightarrow> distinct xs \<and> qfirst q = hd_ptr xs None \<and> qlast q = last_ptr_of None xs
     \<and> sseg h xs None"

lemma sseg_append [simp]: "sseg h (xs @ ys) q \<longleftrightarrow> sseg h xs (hd_ptr ys q) \<and> sseg h ys q"
  by (induction xs) auto

lemma sseg_frame [simp]: "a \<notin> set xs \<Longrightarrow> sseg (h(a := v)) xs q = sseg h xs q"
  by (induction xs) auto

lemma queue_rep_init: "queue_rep h QUEUE_INIT []"
  by (simp add: queue_rep_def QUEUE_INIT_def)

lemma queue_add_first_rep:
  assumes "queue_rep h q xs" "a \<notin> set xs"
  shows "queue_rep (fst (queue_add_first h q a)) (snd (queue_add_first h q a)) (a # xs)"
  using assms by (cases xs) (auto simp: queue_rep_def queue_add_first_def Let_def last_ptr_of_def)

lemma queue_add_last_rep:
  assumes "queue_rep h q xs" "a \<notin> set xs"
  shows "queue_rep (fst (queue_add_last h q a)) (snd (queue_add_last h q a)) (xs @ [a])"
  using assms
  by (cases xs rule: rev_cases) (auto simp: queue_rep_def queue_add_last_def Let_def)

lemma queue_insert_rep:
  assumes "queue_rep h q (ys @ b # zs)" "a \<notin> set (ys @ b # zs)"
  shows "queue_rep (fst (queue_insert h q a (Some b))) (snd (queue_insert h q a (Some b))) (ys @ b # a # zs)"
  using assms by (cases zs) (auto simp: queue_rep_def queue_insert_def Let_def last_ptr_of_def)

lemma queue_remove_first_rep:
  assumes "queue_rep h q (a # xs)"
  shows "\<exists>h' q'. queue_remove_first h q = (Some a, h', q') \<and> queue_rep h' q' xs"
  using assms by (cases xs) (auto simp: queue_rep_def queue_remove_first_def Let_def last_ptr_of_def split: if_splits)

lemma queue_remove_rep:
  assumes "queue_rep h q (ys @ a # zs)"
  shows "\<exists>h' q'. queue_remove h q (last_ptr_of None ys) a = Some (h', q') \<and> queue_rep h' q' (ys @ zs)"
  using assms
  by (cases ys rule: rev_cases; cases zs)
     (auto simp: queue_rep_def queue_remove_def last_ptr_of_def)

end
