(* ===== verification/Cbuf.thy ===== *)
theory Cbuf
  imports Prelude BitMath
begin

section \<open>Circular byte buffers\<close>

text \<open>
  \<open>kern/cbuf.h\<close> and \<open>kernlib/cbuf.c\<close>. The read and write indices are 32 bit counters that are never
  reduced: they wrap around at \<open>2 ^ 32\<close> and are masked with \<open>capacity - 1\<close> when the buffer is
  accessed. \<open>contents\<close> is the byte sequence a buffer holds and \<open>cbuf_ok\<close> its invariant; every operation
  is proved to be the FIFO operation on \<open>contents\<close>, also across the wrap-around.
  An access outside of the buffer or of the caller's memory is the fault \<open>None\<close>.
\<close>

subsection \<open>Definitions\<close>

record cbuf =
  cb_data :: "u8 list option"
  capacity :: u32
  readIdx :: u32
  writeIdx :: u32
  cb_flags :: u32

definition kFlag_OwnsBuffer :: u32 where "kFlag_OwnsBuffer = 1"

definition cbuf_empty :: "cbuf \<Rightarrow> bool" where
  "cbuf_empty c \<longleftrightarrow> readIdx c = writeIdx c"

definition cbuf_readable :: "cbuf \<Rightarrow> u32" where
  "cbuf_readable c = writeIdx c - readIdx c"

definition cbuf_writable :: "cbuf \<Rightarrow> u32" where
  "cbuf_writable c = capacity c - (writeIdx c - readIdx c)"

definition cbuf_clear :: "cbuf \<Rightarrow> cbuf" where
  "cbuf_clear c = c\<lparr>readIdx := 0, writeIdx := 0\<rparr>"

definition cbuf_mask_index :: "cbuf \<Rightarrow> u32 \<Rightarrow> u32" where
  "cbuf_mask_index c v = v AND (capacity c - 1)"

text \<open>
  \<open>kalloc\<close> is the kernel allocator: it hands out a block of the requested size with
  arbitrary contents or fails with ENOMEM, in which case the data pointer is left as it was.
\<close>

definition cbuf_init :: "(u32 \<Rightarrow> u8 list option) \<Rightarrow> cbuf \<Rightarrow> u32 \<Rightarrow> (errno \<times> cbuf) option" where
  "cbuf_init kalloc self cap =
     do { c \<leftarrow> pow2_ceil_ul cap;
          let self = self\<lparr>capacity := c, readIdx := 0, writeIdx := 0, cb_flags := kFlag_OwnsBuffer\<rparr>;
          Some (case kalloc (capacity self) of
                  Some d \<Rightarrow> (EOK, self\<lparr>cb_data := Some d\<rparr>)
                | None \<Rightarrow> (ENOMEM, self)) }"

definition cbuf_init_extbuf :: "cbuf \<Rightarrow> u8 list \<Rightarrow> u32 \<Rightarrow> cbuf" where
  "cbuf_init_extbuf self buf cap = self\<lparr>cb_data := Some buf, capacity := cap, readIdx := 0, writeIdx := 0\<rparr>"

text \<open>\<open>cbuf_deinit\<close> returns the block that it frees, if it frees one.\<close>

definition cbuf_deinit :: "cbuf \<Rightarrow> u8 list option \<times> cbuf" where
  "cbuf_deinit self =
     ((if cb_flags self AND kFlag_OwnsBuffer = kFlag_OwnsBuffer then cb_data self else None),
      self\<lparr>cb_data := None, capacity := 0, readIdx := 0, writeIdx := 0\<rparr>)"

definition cbuf_put :: "cbuf \<Rightarrow> u8 \<Rightarrow> (u32 \<times> cbuf) option" where
  "cbuf_put self byte =
     (if cbuf_writable self \<ge> 1 then
        do { d \<leftarrow> cb_data self;
             d \<leftarrow> arr_set d (unat (cbuf_mask_index self (writeIdx self))) byte;
             Some (1, self\<lparr>cb_data := Some d, writeIdx := writeIdx self + 1\<rparr>) }
      else Some (0, self))"

function cbuf_puts_loop :: "cbuf \<Rightarrow> u8 list \<Rightarrow> nat \<Rightarrow> int \<Rightarrow> int \<Rightarrow> cbuf option" where
  "cbuf_puts_loop self pBytes off i n =
     (if i < n then
        do { b \<leftarrow> arr_get pBytes (off + nat i);
             d \<leftarrow> cb_data self;
             d \<leftarrow> arr_set d (unat (cbuf_mask_index self (writeIdx self + word_of_int i))) b;
             cbuf_puts_loop (self\<lparr>cb_data := Some d\<rparr>) pBytes off (i + 1) n }
      else Some self)"
  by pat_completeness auto
termination by (relation "measure (\<lambda>(_, _, _, i, n). nat (n - i))") auto

text \<open>\<open>pBytes\<close> and \<open>off\<close>: the caller passes the address of byte \<open>off\<close> of its buffer.\<close>

definition cbuf_puts :: "cbuf \<Rightarrow> u8 list \<Rightarrow> nat \<Rightarrow> u32 \<Rightarrow> (u32 \<times> cbuf) option" where
  "cbuf_puts self pBytes off count =
     (let avail = cbuf_writable self in
      if count = 0 \<or> avail = 0 then Some (0, self)
      else
        (let nBytesToCopy = sint (min avail count) in
         do { self \<leftarrow> cbuf_puts_loop self pBytes off 0 nBytesToCopy;
              Some (word_of_int nBytesToCopy,
                    self\<lparr>writeIdx := writeIdx self + word_of_int nBytesToCopy\<rparr>) }))"

definition cbuf_get :: "cbuf \<Rightarrow> (u32 \<times> u8 option \<times> cbuf) option" where
  "cbuf_get self =
     (if cbuf_readable self \<ge> 1 then
        do { d \<leftarrow> cb_data self;
             b \<leftarrow> arr_get d (unat (cbuf_mask_index self (readIdx self)));
             Some (1, Some b, self\<lparr>readIdx := readIdx self + 1\<rparr>) }
      else Some (0, None, self))"

function cbuf_gets_loop :: "cbuf \<Rightarrow> u8 list \<Rightarrow> nat \<Rightarrow> int \<Rightarrow> int \<Rightarrow> u8 list option" where
  "cbuf_gets_loop self pBytes off i n =
     (if i < n then
        do { d \<leftarrow> cb_data self;
             b \<leftarrow> arr_get d (unat (cbuf_mask_index self (readIdx self + word_of_int i)));
             pBytes \<leftarrow> arr_set pBytes (off + nat i) b;
             cbuf_gets_loop self pBytes off (i + 1) n }
      else Some pBytes)"
  by pat_completeness auto
termination by (relation "measure (\<lambda>(_, _, _, i, n). nat (n - i))") auto

definition cbuf_gets :: "cbuf \<Rightarrow> u8 list \<Rightarrow> nat \<Rightarrow> u32 \<Rightarrow> (u32 \<times> u8 list \<times> cbuf) option" where
  "cbuf_gets self pBytes off count =
     (let avail = cbuf_readable self in
      if count = 0 \<or> avail = 0 then Some (0, pBytes, self)
      else
        (let nBytesToCopy = sint (min avail count) in
         do { pBytes \<leftarrow> cbuf_gets_loop self pBytes off 0 nBytesToCopy;
              Some (word_of_int nBytesToCopy, pBytes,
                    self\<lparr>readIdx := readIdx self + word_of_int nBytesToCopy\<rparr>) }))"

declare cbuf_puts_loop.simps [simp del] cbuf_gets_loop.simps [simp del]

subsection \<open>Contents and invariant\<close>

definition ring :: "'a list \<Rightarrow> nat \<Rightarrow> nat \<Rightarrow> 'a list" where
  "ring d r n = map (\<lambda>k. d ! ((r + k) mod length d)) [0..<n]"

definition contents :: "cbuf \<Rightarrow> u8 list" where
  "contents c = (case cb_data c of
      None \<Rightarrow> []
    | Some d \<Rightarrow> ring d (unat (readIdx c)) (unat (cbuf_readable c)))"

definition cbuf_ok :: "cbuf \<Rightarrow> bool" where
  "cbuf_ok c \<longleftrightarrow> (\<exists>j\<le>30. unat (capacity c) = 2 ^ j)
     \<and> (case cb_data c of None \<Rightarrow> False | Some d \<Rightarrow> length d = unat (capacity c))
     \<and> cbuf_readable c \<le> capacity c"

lemma length_ring [simp]: "length (ring d r n) = n"
  by (simp add: ring_def)

lemma nth_ring [simp]: "i < n \<Longrightarrow> ring d r n ! i = d ! ((r + i) mod length d)"
  by (simp add: ring_def)

lemma ring_extend:
  assumes "n < length d"
  shows "ring (d[(r + n) mod length d := b]) r (Suc n) = ring d r n @ [b]"
proof -
  have "(r + n) mod length d \<noteq> (r + k) mod length d" if "k < n" for k
  proof
    assume "(r + n) mod length d = (r + k) mod length d"
    then have "length d dvd (r + n) - (r + k)"
      using that by (subst (asm) mod_eq_dvd_iff_nat) simp_all
    with that assms show False by (auto dest: dvd_imp_le)
  qed
  moreover have "(r + n) mod length d < length d"
    using assms by (cases d) auto
  ultimately show ?thesis
    by (auto simp: ring_def nth_list_update)
qed

lemma ring_take: "n \<le> m \<Longrightarrow> take n (ring d r m) = ring d r n"
  by (rule nth_equalityI) simp_all

lemma ring_drop: "n \<le> m \<Longrightarrow> drop n (ring d r m) = ring d (r + n) (m - n)"
  by (rule nth_equalityI) (simp_all add: add.assoc)

lemma ring_cong_mod:
  assumes "r mod length d = r' mod length d"
  shows "ring d r n = ring d r' n"
  using mod_add_cong [OF assms refl] by (simp add: ring_def)

lemma ring_Suc: "ring d r (Suc n) = d ! (r mod length d) # ring d (Suc r) n"
  by (rule nth_equalityI) (auto simp: nth_Cons split: nat.splits)

subsection \<open>The machine arithmetic of the indices\<close>

lemma unat_mask_index:
  assumes "cbuf_ok c"
  shows "unat (cbuf_mask_index c v) = unat v mod unat (capacity c)"
proof -
  obtain j where j: "j \<le> 30" "unat (capacity c) = 2 ^ j"
    using assms by (auto simp: cbuf_ok_def)
  then have "capacity c = 2 ^ j"
    by (simp add: word_unat_eq_iff unat_pow2_u32)
  then show ?thesis
    using j by (simp add: cbuf_mask_index_def and_pow2_minus1 unat_pow2_u32)
qed

lemma capacity_dvd: "cbuf_ok c \<Longrightarrow> unat (capacity c) dvd 4294967296"
  using le_imp_power_dvd [of _ 32 "2::nat"] by (auto simp: cbuf_ok_def)

lemma unat_add_mod_capacity:
  assumes "cbuf_ok c"
  shows "unat (v + w :: u32) mod unat (capacity c) = (unat v + unat w) mod unat (capacity c)"
  using capacity_dvd [OF assms] by (simp add: unat_add_u32 mod_mod_cancel)

lemma capacity_bound: "cbuf_ok c \<Longrightarrow> unat (capacity c) \<le> 2 ^ 30"
proof -
  assume "cbuf_ok c"
  then obtain j where "j \<le> 30" "unat (capacity c) = 2 ^ j" by (auto simp: cbuf_ok_def)
  then show ?thesis using power_increasing [of j 30 "2::nat"] by simp
qed

lemma capacity_pos: "cbuf_ok c \<Longrightarrow> 0 < unat (capacity c)"
  by (auto simp: cbuf_ok_def)

lemma cbuf_okE:
  assumes "cbuf_ok c"
  obtains d where "cb_data c = Some d" "length d = unat (capacity c)" "cbuf_readable c \<le> capacity c"
  using assms by (auto simp: cbuf_ok_def split: option.splits)

lemma unat_writable:
  assumes "cbuf_ok c"
  shows "unat (cbuf_writable c) = unat (capacity c) - length (contents c)"
    "length (contents c) = unat (cbuf_readable c)" "length (contents c) \<le> unat (capacity c)"
  using assms
  by (auto simp: cbuf_ok_def cbuf_writable_def cbuf_readable_def contents_def unat_sub_u32 word_le_nat_alt
      split: option.splits)

subsection \<open>Puts appends, gets takes from the front\<close>

lemma cbuf_ok_data:
  "cbuf_ok c \<Longrightarrow> length d = unat (capacity c) \<Longrightarrow> cbuf_ok (c\<lparr>cb_data := Some d\<rparr>)"
  by (simp add: cbuf_ok_def cbuf_readable_def)

lemma cb_index_update [simp]:
  "cbuf_mask_index (c\<lparr>cb_data := x\<rparr>) v = cbuf_mask_index c v"
  "cbuf_readable (c\<lparr>cb_data := x\<rparr>) = cbuf_readable c"
  by (simp_all add: cbuf_mask_index_def cbuf_readable_def)

text \<open>The slot the write index selects is the one right after the contents.\<close>

lemma unat_add_of_nat_mod:
  assumes "cbuf_ok c"
  shows "unat (v + of_nat i :: u32) mod unat (capacity c) = (unat v + i) mod unat (capacity c)"
proof -
  have "unat (of_nat i :: u32) mod unat (capacity c) = i mod unat (capacity c)"
    using capacity_dvd [OF assms] by (simp add: unat_of_nat mod_mod_cancel)
  then show ?thesis
    unfolding unat_add_mod_capacity [OF assms] by (rule mod_add_cong [OF refl])
qed

lemma write_slot:
  assumes "cbuf_ok c"
  shows "unat (cbuf_mask_index c (writeIdx c + of_nat i))
       = (unat (readIdx c) + (unat (cbuf_readable c) + i)) mod unat (capacity c)"
proof -
  have w: "writeIdx c = readIdx c + cbuf_readable c"
    by (simp add: cbuf_readable_def)
  have "unat (writeIdx c) mod unat (capacity c)
      = (unat (readIdx c) + unat (cbuf_readable c)) mod unat (capacity c)"
    unfolding w by (rule unat_add_mod_capacity [OF assms])
  then have "(unat (writeIdx c) + i) mod unat (capacity c)
      = (unat (readIdx c) + unat (cbuf_readable c) + i) mod unat (capacity c)"
    by (rule mod_add_cong [OF _ refl])
  then show ?thesis
    using assms by (simp only: unat_mask_index unat_add_of_nat_mod add.assoc)
qed

lemma read_slot:
  assumes "cbuf_ok c"
  shows "unat (cbuf_mask_index c (readIdx c + of_nat i)) = (unat (readIdx c) + i) mod unat (capacity c)"
  using assms by (simp only: unat_mask_index unat_add_of_nat_mod)

lemma mod_capacity_less: "cbuf_ok c \<Longrightarrow> n mod unat (capacity c) < unat (capacity c)"
  using capacity_pos by simp

lemma cbuf_puts_loop_ok:
  assumes "cbuf_ok c" "cb_data c = Some d"
    "i + k = n" "unat (cbuf_readable c) + n \<le> unat (capacity c)" "off + n \<le> length bytes"
  shows "\<exists>d'. cbuf_puts_loop c bytes off (int i) (int n) = Some (c\<lparr>cb_data := Some d'\<rparr>)
      \<and> length d' = length d
      \<and> ring d' (unat (readIdx c)) (unat (cbuf_readable c) + n)
        = ring d (unat (readIdx c)) (unat (cbuf_readable c) + i) @ take k (drop (off + i) bytes)"
  using assms
proof (induction k arbitrary: c d i)
  case 0
  then show ?case by (cases c) (subst cbuf_puts_loop.simps, simp)
next
  case (Suc k)
  have len: "length d = unat (capacity c)"
    using Suc.prems by (auto elim: cbuf_okE)
  define slot where "slot = (unat (readIdx c) + (unat (cbuf_readable c) + i)) mod unat (capacity c)"
  define d1 where "d1 = d[slot := bytes ! (off + i)]"
  have slot: "unat (cbuf_mask_index c (writeIdx c + of_nat i)) = slot" "slot < length d"
    using write_slot [OF Suc.prems(1)] mod_capacity_less [OF Suc.prems(1)] by (simp_all add: slot_def len)
  have ok: "cbuf_ok (c\<lparr>cb_data := Some d1\<rparr>)"
    using Suc.prems(1) len by (intro cbuf_ok_data) (simp_all add: d1_def)
  from Suc.IH [OF ok, of d1 "Suc i"] Suc.prems
  obtain d' where d': "cbuf_puts_loop (c\<lparr>cb_data := Some d1\<rparr>) bytes off (int (Suc i)) (int n)
        = Some (c\<lparr>cb_data := Some d'\<rparr>)" "length d' = length d1"
      "ring d' (unat (readIdx c)) (unat (cbuf_readable c) + n)
       = ring d1 (unat (readIdx c)) (Suc (unat (cbuf_readable c) + i)) @ take k (drop (off + Suc i) bytes)"
    by auto
  have "ring d1 (unat (readIdx c)) (Suc (unat (cbuf_readable c) + i))
      = ring d (unat (readIdx c)) (unat (cbuf_readable c) + i) @ [bytes ! (off + i)]"
    unfolding d1_def slot_def len [symmetric] using Suc.prems len by (intro ring_extend) simp
  moreover have "take (Suc k) (drop (off + i) bytes) = bytes ! (off + i) # take k (drop (off + Suc i) bytes)"
    using Suc.prems by (simp add: Cons_nth_drop_Suc [symmetric])
  moreover have "cbuf_puts_loop c bytes off (int i) (int n)
      = cbuf_puts_loop (c\<lparr>cb_data := Some d1\<rparr>) bytes off (int (Suc i)) (int n)"
    using Suc.prems slot by (subst cbuf_puts_loop.simps) (simp add: d1_def add.commute)
  ultimately show ?case
    using d' by (auto simp: d1_def)
qed

lemma cbuf_gets_loop_ok:
  assumes "cbuf_ok c" "cb_data c = Some d" "i + k = n" "off + n \<le> length bytes"
  shows "cbuf_gets_loop c bytes off (int i) (int n)
       = Some (take (off + i) bytes @ ring d (unat (readIdx c) + i) k @ drop (off + n) bytes)"
  using assms
proof (induction k arbitrary: bytes i)
  case 0
  then show ?case by (subst cbuf_gets_loop.simps) (simp add: ring_def)
next
  case (Suc k)
  have len: "length d = unat (capacity c)"
    using Suc.prems by (auto elim: cbuf_okE)
  have slot: "unat (cbuf_mask_index c (readIdx c + of_nat i)) = (unat (readIdx c) + i) mod length d"
      "(unat (readIdx c) + i) mod length d < length d"
    using read_slot [OF Suc.prems(1)] mod_capacity_less [OF Suc.prems(1)] by (simp_all add: len)
  show ?case
    using Suc.prems slot Suc.IH [of "Suc i" "bytes[off + i := d ! ((unat (readIdx c) + i) mod length d)]"]
    by (subst cbuf_gets_loop.simps)
       (simp add: add.commute ring_Suc take_Suc_conv_app_nth take_update_swap
         list_update_append)
qed

lemma cbuf_puts_ok:
  assumes "cbuf_ok c" "off + unat count \<le> length bytes"
  defines "n \<equiv> min (unat count) (unat (capacity c) - length (contents c))"
  shows "\<exists>c'. cbuf_puts c bytes off count = Some (of_nat n, c') \<and> cbuf_ok c'
      \<and> capacity c' = capacity c
      \<and> contents c' = contents c @ take n (drop off bytes)"
proof (cases "n = 0")
  case True
  then have "count = 0 \<or> cbuf_writable c = 0"
    using unat_writable(1) [OF assms(1)] by (auto simp: n_def word_unat_eq_iff min_def split: if_splits)
  then show ?thesis
    using assms(1) True by (auto simp: cbuf_puts_def)
next
  case False
  obtain d where d: "cb_data c = Some d" "length d = unat (capacity c)"
    using assms(1) by (rule cbuf_okE)
  note wr = unat_writable [OF assms(1)]
  have m: "unat (min (cbuf_writable c) count) = n"
    by (simp add: min_def n_def wr(1) word_le_nat_alt)
  have nz: "count \<noteq> 0" "cbuf_writable c \<noteq> 0"
    using False wr(1) by (auto simp: n_def)
  have n_le: "n + unat (cbuf_readable c) \<le> unat (capacity c)" "n \<le> unat count"
    using wr by (simp_all add: n_def)
  have sint: "sint (min (cbuf_writable c) count) = int n"
    using sint_u32_small [of "min (cbuf_writable c) count"] n_le capacity_bound [OF assms(1)] by (simp add: m)
  obtain d' where d': "cbuf_puts_loop c bytes off 0 (int n) = Some (c\<lparr>cb_data := Some d'\<rparr>)"
      "length d' = length d"
      "ring d' (unat (readIdx c)) (unat (cbuf_readable c) + n)
       = ring d (unat (readIdx c)) (unat (cbuf_readable c)) @ take n (drop off bytes)"
    using cbuf_puts_loop_ok [OF assms(1) d(1), of 0 n n off bytes] n_le assms(2) by auto
  let ?c' = "c\<lparr>cb_data := Some d', writeIdx := writeIdx c + of_nat n\<rparr>"
  have "cbuf_readable ?c' = cbuf_readable c + of_nat n"
    by (simp add: cbuf_readable_def)
  moreover have "unat (cbuf_readable c + of_nat n) = unat (cbuf_readable c) + n"
    using n_le capacity_bound [OF assms(1)] by (simp add: unat_add_u32 unat_of_nat_u32)
  ultimately have rd: "unat (cbuf_readable ?c') = unat (cbuf_readable c) + n" by simp
  have "cbuf_ok ?c'"
    using assms(1) d d'(2) rd n_le by (simp add: cbuf_ok_def word_le_nat_alt)
  moreover have "contents ?c' = contents c @ take n (drop off bytes)"
    using rd d'(3) d(1) by (simp add: contents_def)
  moreover have "cbuf_puts c bytes off count = Some (of_nat n, ?c')"
    using nz d'(1) by (simp add: cbuf_puts_def Let_def sint)
  ultimately show ?thesis by auto
qed

lemma cbuf_gets_ok:
  assumes "cbuf_ok c" "off + unat count \<le> length buf"
  defines "n \<equiv> min (unat count) (length (contents c))"
  shows "\<exists>c'. cbuf_gets c buf off count
        = Some (of_nat n, take off buf @ take n (contents c) @ drop (off + n) buf, c') \<and> cbuf_ok c'
      \<and> capacity c' = capacity c
      \<and> contents c' = drop n (contents c)"
proof (cases "n = 0")
  case True
  then have "count = 0 \<or> cbuf_readable c = 0"
    using unat_writable(2) [OF assms(1)] by (auto simp: n_def word_unat_eq_iff min_def split: if_splits)
  then show ?thesis
    using assms(1) True by (auto simp: cbuf_gets_def)
next
  case False
  obtain d where d: "cb_data c = Some d" "length d = unat (capacity c)"
    using assms(1) by (rule cbuf_okE)
  note wr = unat_writable [OF assms(1)]
  have m: "unat (min (cbuf_readable c) count) = n"
    by (simp add: min_def n_def wr(2) word_le_nat_alt)
  have nz: "count \<noteq> 0" "cbuf_readable c \<noteq> 0"
    using False wr(2) by (auto simp: n_def)
  have n_le: "n \<le> unat (cbuf_readable c)" "n \<le> unat count"
    using wr by (simp_all add: n_def)
  have sint: "sint (min (cbuf_readable c) count) = int n"
    using sint_u32_small [of "min (cbuf_readable c) count"] n_le wr capacity_bound [OF assms(1)]
    by (simp add: m)
  have ct: "contents c = ring d (unat (readIdx c)) (unat (cbuf_readable c))"
    by (simp add: contents_def d(1))
  have loop: "cbuf_gets_loop c buf off 0 (int n)
      = Some (take off buf @ take n (contents c) @ drop (off + n) buf)"
    using cbuf_gets_loop_ok [OF assms(1) d(1), of 0 n n off buf] n_le assms(2) by (simp add: ct ring_take)
  let ?c' = "c\<lparr>readIdx := readIdx c + of_nat n\<rparr>"
  have "cbuf_readable ?c' = cbuf_readable c - of_nat n"
    by (simp add: cbuf_readable_def)
  moreover have "unat (cbuf_readable c - of_nat n) = unat (cbuf_readable c) - n"
    using n_le le_less_trans [OF n_le(2) unat_less_pow]
    by (subst unat_sub_u32) (simp_all add: word_le_nat_alt unat_of_nat_u32)
  ultimately have rd: "unat (cbuf_readable ?c') = unat (cbuf_readable c) - n" by simp
  have "cbuf_ok ?c'"
    using assms(1) d rd by (simp add: cbuf_ok_def word_le_nat_alt le_diff_conv trans_le_add1)
  moreover have "contents ?c' = drop n (contents c)"
    using rd n_le d unat_add_of_nat_mod [OF assms(1), of "readIdx c" n]
    by (simp add: contents_def ring_drop) (rule ring_cong_mod, simp)
  moreover have "cbuf_gets c buf off count
      = Some (of_nat n, take off buf @ take n (contents c) @ drop (off + n) buf, ?c')"
    using nz loop by (simp add: cbuf_gets_def Let_def sint)
  ultimately show ?thesis by auto
qed

text \<open>The single byte operations are the block operations on one byte.\<close>

lemma sint_min_1 [simp]: "w \<noteq> 0 \<Longrightarrow> min (w :: u32) 1 = 1" "w \<noteq> 0 \<Longrightarrow> w \<ge> 1"
  by (auto simp: min_def word_le_nat_alt word_unat_eq_iff)

lemma cbuf_put_puts: "cbuf_put c b = cbuf_puts c [b] 0 1"
proof (cases "cbuf_writable c = 0")
  case False
  then show ?thesis
    by (simp add: cbuf_put_def cbuf_puts_def cbuf_puts_loop.simps)
qed (simp add: cbuf_put_def cbuf_puts_def)

lemma cbuf_get_gets:
  "cbuf_get c = map_option (\<lambda>(n, bs, c'). (n, (if n = 0 then None else Some (hd bs)), c')) (cbuf_gets c [0] 0 1)"
proof (cases "cbuf_readable c = 0")
  case False
  then show ?thesis
    by (cases "cb_data c")
       (simp_all add: cbuf_get_def cbuf_gets_def cbuf_gets_loop.simps arr_get_def)
qed (simp add: cbuf_get_def cbuf_gets_def)

subsection \<open>Sequences of buffer calls\<close>

datatype cb_op = Put u8 | Puts "u8 list" | Get | Gets u32 | Clear

definition cb_step :: "cb_op \<Rightarrow> cbuf \<Rightarrow> ((u32 \<times> u8 list) \<times> cbuf) option" where
  "cb_step x c = (case x of
     Put b \<Rightarrow> do { (n, c) \<leftarrow> cbuf_put c b; Some ((n, []), c) }
   | Puts bs \<Rightarrow> do { (n, c) \<leftarrow> cbuf_puts c bs 0 (of_nat (length bs)); Some ((n, []), c) }
   | Get \<Rightarrow> do { (n, b, c) \<leftarrow> cbuf_get c; Some ((n, (case b of None \<Rightarrow> [] | Some b \<Rightarrow> [b])), c) }
   | Gets cnt \<Rightarrow> do { (n, bs, c) \<leftarrow> cbuf_gets c (replicate (unat cnt) 0) 0 cnt;
                      Some ((n, take (unat n) bs), c) }
   | Clear \<Rightarrow> Some ((0, []), cbuf_clear c))"

text \<open>A bounded FIFO: its capacity and its bytes.\<close>

definition fifo_spec :: "cb_op \<Rightarrow> nat \<times> u8 list \<Rightarrow> (u32 \<times> u8 list) \<times> (nat \<times> u8 list)" where
  "fifo_spec x = (\<lambda>(cap, xs). case x of
     Put b \<Rightarrow> (if length xs < cap then ((1, []), (cap, xs @ [b])) else ((0, []), (cap, xs)))
   | Puts bs \<Rightarrow> let n = min (length bs) (cap - length xs) in ((of_nat n, []), (cap, xs @ take n bs))
   | Get \<Rightarrow> (case xs of [] \<Rightarrow> ((0, []), (cap, [])) | b # xs \<Rightarrow> ((1, [b]), (cap, xs)))
   | Gets cnt \<Rightarrow> let n = min (unat cnt) (length xs) in ((of_nat n, take n xs), (cap, drop n xs))
   | Clear \<Rightarrow> ((0, []), (cap, [])))"

definition fifo_pre :: "cb_op \<Rightarrow> nat \<times> u8 list \<Rightarrow> bool" where
  "fifo_pre x a \<longleftrightarrow> (case x of Puts bs \<Rightarrow> length bs < 2 ^ 32 | _ \<Rightarrow> True)"

definition cb_rel :: "cbuf \<Rightarrow> nat \<times> u8 list \<Rightarrow> bool" where
  "cb_rel c a \<longleftrightarrow> cbuf_ok c \<and> a = (unat (capacity c), contents c)"

lemma unat_min_u32 [simp]:
  "unat (of_nat (min (unat (w :: u32)) k) :: u32) = min (unat w) k"
  by (rule unat_of_nat_u32) (simp add: min.strict_coboundedI1)

lemma cb_simulates:
  assumes "cb_rel c a" "fifo_pre x a"
  shows "\<exists>c'. cb_step x c = Some (fst (fifo_spec x a), c') \<and> cb_rel c' (snd (fifo_spec x a))"
proof -
  have ok: "cbuf_ok c" and a: "a = (unat (capacity c), contents c)"
    using assms by (simp_all add: cb_rel_def)
  show ?thesis
  proof (cases x)
    case (Put b)
    then show ?thesis
      using cbuf_puts_ok [OF ok, of 0 1 "[b]"] unat_writable(3) [OF ok]
      by (auto simp: a cb_step_def fifo_spec_def cb_rel_def cbuf_put_puts min_def split: if_splits)
  next
    case (Puts bs)
    then show ?thesis
      using cbuf_puts_ok [OF ok, of 0 "of_nat (length bs)" bs] assms(2)
      by (auto simp: a Let_def cb_step_def fifo_spec_def fifo_pre_def cb_rel_def unat_of_nat_u32)
  next
    case Get
    then show ?thesis
      using cbuf_gets_ok [OF ok, of 0 1 "[0]"]
      by (cases "contents c") (auto simp: a cb_step_def fifo_spec_def cb_rel_def cbuf_get_gets)
  next
    case (Gets cnt)
    then show ?thesis
      using cbuf_gets_ok [OF ok, of 0 cnt "replicate (unat cnt) 0"]
      by (auto simp: a Let_def cb_step_def fifo_spec_def cb_rel_def)
  next
    case Clear
    then show ?thesis
      using ok
      by (auto simp: a cb_step_def fifo_spec_def cb_rel_def cbuf_clear_def cbuf_ok_def cbuf_readable_def
          contents_def ring_def split: option.splits)
  qed
qed

interpretation fifo: data_refinement cb_rel cb_step fifo_pre fifo_spec
  by unfold_locales (rule cb_simulates)

subsection \<open>Properties\<close>

text \<open>
  C3. A circular buffer is a bounded FIFO. Take any sequence of put, puts, get, gets and clear calls on
  a well-formed buffer (its capacity is a power of two up to \<open>2 ^ 30\<close> and it holds at most that many
  bytes), whatever the current values of the 32 bit indices, wrap-around included. The
  calls never touch memory outside of the buffer or of the caller's block, return the counts and the bytes
  of the bounded FIFO of that capacity, and leave a well-formed buffer with the FIFO's contents.
\<close>

theorem cbuf_refines_fifo:
  assumes "cbuf_ok c" "run_pre fifo_pre fifo_spec ops (unat (capacity c), contents c)"
  shows "\<exists>c'. run_ops cb_step ops c = Some (fst (run_spec fifo_spec ops (unat (capacity c), contents c)), c')
           \<and> cbuf_ok c'
           \<and> snd (run_spec fifo_spec ops (unat (capacity c), contents c)) = (unat (capacity c'), contents c')"
  using fifo.run_refines [of c "(unat (capacity c), contents c)" ops] assms by (auto simp: cb_rel_def)

text \<open>The sample buffer has its indices just below the wrap-around.\<close>

definition sample_cbuf :: cbuf where
  "sample_cbuf = \<lparr>cb_data = Some [0, 0, 0, 0], capacity = 4, readIdx = 4294967294, writeIdx = 4294967294,
     cb_flags = 1\<rparr>"

lemma sample_cbuf_ok: "cbuf_ok sample_cbuf" "contents sample_cbuf = []" "unat (capacity sample_cbuf) = 4"
proof -
  have "\<exists>j\<le>30. (4::nat) = 2 ^ j" by (intro exI [of _ 2]) simp
  then show "cbuf_ok sample_cbuf"
    by (simp add: cbuf_ok_def sample_cbuf_def cbuf_readable_def)
qed (simp_all add: sample_cbuf_def contents_def ring_def cbuf_readable_def)

theorem cbuf_refines_fifo_witness:
  "\<exists>c'. run_ops cb_step [Puts [1, 2, 3], Get, Puts [4, 5, 6], Gets 3] sample_cbuf
      = Some ([(3, []), (1, [1]), (2, []), (3, [2, 3, 4])], c') \<and> contents c' = [5]"
  using cbuf_refines_fifo [OF sample_cbuf_ok(1), of "[Puts [1, 2, 3], Get, Puts [4, 5, 6], Gets 3]"]
  by (auto simp: sample_cbuf_ok fifo_pre_def fifo_spec_def simp del: run_ops.simps)

text \<open>
  Creating a buffer. For every requested capacity up to \<open>2 ^ 30\<close>, and an allocator that
  returns blocks of the requested size, \<open>cbuf_init\<close> terminates and either reports ENOMEM or yields a
  well-formed empty buffer whose capacity is the least power of two that is not
  below the request; tearing it down returns exactly its block.
\<close>

theorem cbuf_init_establishes:
  assumes "unat cap \<le> 2 ^ 30" "\<And>n d. kalloc n = Some d \<Longrightarrow> length d = unat n"
  shows "(\<exists>c. cbuf_init kalloc c0 cap = Some (ENOMEM, c))
       \<or> (\<exists>c. cbuf_init kalloc c0 cap = Some (EOK, c) \<and> cbuf_ok c \<and> contents c = []
            \<and> unat (capacity c) = 2 ^ (LEAST k. unat cap \<le> 2 ^ k)
            \<and> fst (cbuf_deinit c) = kalloc (capacity c))"
proof -
  define k where "k = (LEAST k. unat cap \<le> 2 ^ k)"
  have "k \<le> 30" unfolding k_def using assms(1) by (rule Least_le)
  then have k: "unat (2 ^ k :: u32) = 2 ^ k" by (simp add: unat_pow2_u32)
  have "pow2_ceil_ul cap = Some (2 ^ k)"
    using assms(1) by (simp add: pow2_ceil_ul_value k_def)
  then show ?thesis
    unfolding k_def [symmetric] using k \<open>k \<le> 30\<close> assms(2)
    by (cases "kalloc (2 ^ k)")
       (auto simp: cbuf_init_def cbuf_deinit_def kFlag_OwnsBuffer_def cbuf_ok_def cbuf_readable_def contents_def
         ring_def)
qed

theorem cbuf_init_establishes_witness:
  "(\<exists>c. cbuf_init (\<lambda>n. Some (replicate (unat n) 0)) sample_cbuf 100 = Some (ENOMEM, c))
   \<or> (\<exists>c. cbuf_init (\<lambda>n. Some (replicate (unat n) 0)) sample_cbuf 100 = Some (EOK, c) \<and> cbuf_ok c \<and> contents c = []
            \<and> unat (capacity c) = 2 ^ (LEAST k. unat (100::u32) \<le> 2 ^ k)
            \<and> fst (cbuf_deinit c) = Some (replicate (unat (capacity c)) 0))"
  by (rule cbuf_init_establishes) auto

end
