(* ===== verification/PipeModel.thy ===== *)
theory PipeModel
  imports Cbuf
begin

section \<open>Pipes\<close>

text \<open>
  \<open>ipc/Pipe.c\<close>. A pipe is a circular buffer, the number of open read and write ends, a mutex and two
  condition variables. The code between two points at which the mutex is dropped is one
  atomic segment: \<open>Pipe_Read_loop\<close> and \<open>Pipe_Write_loop\<close> run the loops up to the return or up to the
  \<open>cnd_wait\<close>. \<open>pipe_step\<close> interleaves the segments of any number of threads with the opening and closing
  of ends and with interrupted waits. The fields \<open>produced\<close>, \<open>consumed\<close> and \<open>moved\<close> record what has gone through
  the buffer; the code does not look at them.
\<close>

subsection \<open>Operations\<close>

record pipe =
  readerCount :: u32
  writerCount :: u32
  buffer :: cbuf

datatype pipe_end = kPipeEnd_Read | kPipeEnd_Write

definition Pipe_Create :: "bool \<Rightarrow> (u32 \<Rightarrow> u8 list option) \<Rightarrow> cbuf \<Rightarrow> u32 \<Rightarrow> (errno \<times> pipe option) option" where
  "Pipe_Create obj_ok kalloc cb0 bufferSize =
     (if \<not> obj_ok then Some (ENOMEM, None)
      else do { (err, b) \<leftarrow> cbuf_init kalloc cb0 (max bufferSize 1);
                Some (if err = EOK then (EOK, Some \<lparr>readerCount = 0, writerCount = 0, buffer = b\<rparr>)
                      else (err, None)) })"

definition Pipe_GetNonBlockingReadableCount :: "pipe \<Rightarrow> u32" where
  "Pipe_GetNonBlockingReadableCount self = cbuf_readable (buffer self)"

definition Pipe_GetNonBlockingWritableCount :: "pipe \<Rightarrow> u32" where
  "Pipe_GetNonBlockingWritableCount self = cbuf_writable (buffer self)"

definition Pipe_GetCapacity :: "pipe \<Rightarrow> u32" where
  "Pipe_GetCapacity self = capacity (buffer self)"

definition Pipe_Open :: "pipe \<Rightarrow> pipe_end \<Rightarrow> pipe" where
  "Pipe_Open self e = (case e of
     kPipeEnd_Read \<Rightarrow> self\<lparr>readerCount := readerCount self + 1\<rparr>
   | kPipeEnd_Write \<Rightarrow> self\<lparr>writerCount := writerCount self + 1\<rparr>)"

definition Pipe_Close :: "pipe \<Rightarrow> pipe_end \<Rightarrow> pipe" where
  "Pipe_Close self e = (case e of
     kPipeEnd_Read \<Rightarrow>
       (if readerCount self > 0 then self\<lparr>readerCount := readerCount self - 1\<rparr> else self)
   | kPipeEnd_Write \<Rightarrow>
       (if writerCount self > 0 then self\<lparr>writerCount := writerCount self - 1\<rparr> else self))"

text \<open>How a segment ends: the call returns, or the thread goes to sleep in \<open>cnd_wait\<close>.\<close>

datatype seg = Return errno | Wait

partial_function (option) Pipe_Read_loop ::
  "pipe \<Rightarrow> u8 list \<Rightarrow> int \<Rightarrow> int \<Rightarrow> (seg \<times> pipe \<times> u8 list \<times> int) option" where
  "Pipe_Read_loop self pBuffer nBytesToRead nBytesRead =
     (if nBytesRead < nBytesToRead \<and> readerCount self > 0 then
        do { (n, pBuffer, b) \<leftarrow> cbuf_gets (buffer self) pBuffer (nat nBytesRead)
                                (word_of_int (nBytesToRead - nBytesRead));
             let self = self\<lparr>buffer := b\<rparr>;
             let nChunkSize = sint n;
             let nBytesRead = nBytesRead + nChunkSize;
             if nChunkSize = 0 then
               if writerCount self = 0 then Some (Return EOK, self, pBuffer, nBytesRead)
               else Some (Wait, self, pBuffer, nBytesRead)
             else Pipe_Read_loop self pBuffer nBytesToRead nBytesRead }
      else Some (Return EOK, self, pBuffer, nBytesRead))"

definition Pipe_Read :: "pipe \<Rightarrow> u8 list \<Rightarrow> int \<Rightarrow> (seg \<times> pipe \<times> u8 list \<times> int) option" where
  "Pipe_Read self pBuffer nBytesToRead =
     (if nBytesToRead > 0 then Pipe_Read_loop self pBuffer nBytesToRead 0
      else Some (Return EOK, self, pBuffer, 0))"

text \<open>What the reader does with the result of its \<open>cnd_wait\<close>.\<close>

definition Pipe_Read_wait ::
  "pipe \<Rightarrow> errno \<Rightarrow> u8 list \<Rightarrow> int \<Rightarrow> int \<Rightarrow> (seg \<times> pipe \<times> u8 list \<times> int) option" where
  "Pipe_Read_wait self err pBuffer nBytesToRead nBytesRead =
     (if err \<noteq> EOK then
        Some (Return (if nBytesRead = 0 then ECANCELED else EOK), self, pBuffer, nBytesRead)
      else Pipe_Read_loop self pBuffer nBytesToRead nBytesRead)"

partial_function (option) Pipe_Write_loop ::
  "pipe \<Rightarrow> u8 list \<Rightarrow> int \<Rightarrow> int \<Rightarrow> (seg \<times> pipe \<times> int) option" where
  "Pipe_Write_loop self pBytes nBytesToWrite nBytesWritten =
     (if nBytesWritten < nBytesToWrite \<and> writerCount self > 0 then
        do { (n, b) \<leftarrow> cbuf_puts (buffer self) pBytes (nat nBytesWritten)
                        (word_of_int (nBytesToWrite - nBytesWritten));
             let self = self\<lparr>buffer := b\<rparr>;
             let nChunkSize = sint n;
             let nBytesWritten = nBytesWritten + nChunkSize;
             if nChunkSize = 0 then
               if readerCount self = 0 then
                 Some (Return (if nBytesWritten = 0 then EPIPE else EOK), self, nBytesWritten)
               else Some (Wait, self, nBytesWritten)
             else Pipe_Write_loop self pBytes nBytesToWrite nBytesWritten }
      else Some (Return EOK, self, nBytesWritten))"

definition Pipe_Write :: "pipe \<Rightarrow> u8 list \<Rightarrow> int \<Rightarrow> (seg \<times> pipe \<times> int) option" where
  "Pipe_Write self pBytes nBytesToWrite =
     (if nBytesToWrite > 0 then Pipe_Write_loop self pBytes nBytesToWrite 0
      else Some (Return EOK, self, 0))"

definition Pipe_Write_wait ::
  "pipe \<Rightarrow> errno \<Rightarrow> u8 list \<Rightarrow> int \<Rightarrow> int \<Rightarrow> (seg \<times> pipe \<times> int) option" where
  "Pipe_Write_wait self err pBytes nBytesToWrite nBytesWritten =
     (if err \<noteq> EOK then
        Some (Return (if nBytesWritten = 0 then ECANCELED else EOK), self, nBytesWritten)
      else Pipe_Write_loop self pBytes nBytesToWrite nBytesWritten)"

declare Pipe_Read_loop.simps [code] Pipe_Write_loop.simps [code]

subsection \<open>What a segment does\<close>

definition read_seg :: "pipe \<Rightarrow> int \<Rightarrow> int \<Rightarrow> seg" where
  "read_seg p n k = (if k < n \<and> readerCount p > 0 \<and> writerCount p \<noteq> 0 then Wait else Return EOK)"

definition read_amount :: "pipe \<Rightarrow> int \<Rightarrow> int \<Rightarrow> nat" where
  "read_amount p n k = (if readerCount p > 0 then min (nat (n - k)) (length (contents (buffer p))) else 0)"

definition write_seg :: "pipe \<Rightarrow> int \<Rightarrow> int \<Rightarrow> seg" where
  "write_seg p n k =
     (if k < n \<and> writerCount p > 0 then
        if readerCount p \<noteq> 0 then Wait else Return (if k = 0 then EPIPE else EOK)
      else Return EOK)"

definition write_amount :: "pipe \<Rightarrow> int \<Rightarrow> int \<Rightarrow> nat" where
  "write_amount p n k =
     (if writerCount p > 0
      then min (nat (n - k)) (unat (capacity (buffer p)) - length (contents (buffer p))) else 0)"

lemma pipe_gets:
  assumes "cbuf_ok (buffer p)" "0 \<le> k" "k \<le> n" "n < 2147483648" "nat n \<le> length buf"
  defines "m \<equiv> min (nat (n - k)) (length (contents (buffer p)))"
  obtains b where "cbuf_gets (buffer p) buf (nat k) (word_of_int (n - k))
        = Some (of_nat m, take (nat k) buf @ take m (contents (buffer p)) @ drop (nat k + m) buf, b)"
      "cbuf_ok b" "capacity b = capacity (buffer p)" "contents b = drop m (contents (buffer p))"
      "sint (of_nat m :: u32) = int m"
proof -
  have cnt: "unat (word_of_int (n - k) :: u32) = nat (n - k)"
    using assms by (intro unat_word_of_int_u32) auto
  have "nat k + nat (n - k) \<le> length buf"
    using assms by linarith
  moreover have "sint (of_nat m :: u32) = int m"
    using assms by (intro sint_of_nat_u32) auto
  ultimately show ?thesis
    using cbuf_gets_ok [OF assms(1), of "nat k" "word_of_int (n - k)" buf] that
    unfolding cnt m_def [symmetric] by auto
qed

lemma pipe_puts:
  assumes "cbuf_ok (buffer p)" "0 \<le> k" "k \<le> n" "n < 2147483648" "nat n \<le> length bytes"
  defines "m \<equiv> min (nat (n - k)) (unat (capacity (buffer p)) - length (contents (buffer p)))"
  obtains b where "cbuf_puts (buffer p) bytes (nat k) (word_of_int (n - k)) = Some (of_nat m, b)"
      "cbuf_ok b" "capacity b = capacity (buffer p)"
      "contents b = contents (buffer p) @ take m (drop (nat k) bytes)"
      "sint (of_nat m :: u32) = int m"
proof -
  have cnt: "unat (word_of_int (n - k) :: u32) = nat (n - k)"
    using assms by (intro unat_word_of_int_u32) auto
  have "nat k + nat (n - k) \<le> length bytes"
    using assms by linarith
  moreover have "sint (of_nat m :: u32) = int m"
    using assms by (intro sint_of_nat_u32) auto
  ultimately show ?thesis
    using cbuf_puts_ok [OF assms(1), of "nat k" "word_of_int (n - k)" bytes] that
    unfolding cnt m_def [symmetric] by auto
qed

text \<open>When there is nothing to transfer, a segment leaves everything as it is.\<close>

lemma Pipe_Read_loop_idle:
  assumes "cbuf_ok (buffer p)" "0 \<le> k" "k \<le> n" "n < 2147483648" "nat n \<le> length buf"
    "read_amount p n k = 0"
  shows "\<exists>b. Pipe_Read_loop p buf n k = Some (read_seg p n k, p\<lparr>buffer := b\<rparr>, buf, k)
      \<and> cbuf_ok b \<and> capacity b = capacity (buffer p) \<and> contents b = contents (buffer p)"
proof (cases "k < n \<and> readerCount p > 0")
  case False
  then have "Pipe_Read_loop p buf n k = Some (read_seg p n k, p\<lparr>buffer := buffer p\<rparr>, buf, k)"
    by (subst Pipe_Read_loop.simps) (auto simp: read_seg_def)
  then show ?thesis using assms(1) by blast
next
  case True
  then have "min (nat (n - k)) (length (contents (buffer p))) = 0"
    using assms(6) by (simp add: read_amount_def)
  then obtain b where "cbuf_gets (buffer p) buf (nat k) (word_of_int (n - k)) = Some (0, buf, b)"
      "cbuf_ok b" "capacity b = capacity (buffer p)" "contents b = contents (buffer p)"
    using pipe_gets [OF assms(1-5)] by auto
  then show ?thesis
    using True by (subst Pipe_Read_loop.simps) (auto simp: read_seg_def)
qed

lemma Pipe_Read_loop_spec:
  assumes "cbuf_ok (buffer p)" "0 \<le> k" "k \<le> n" "n < 2147483648" "nat n \<le> length buf"
  defines "m \<equiv> read_amount p n k"
  shows "\<exists>b. Pipe_Read_loop p buf n k
      = Some (read_seg p n (k + int m), p\<lparr>buffer := b\<rparr>,
              take (nat k) buf @ take m (contents (buffer p)) @ drop (nat k + m) buf, k + int m)
     \<and> cbuf_ok b \<and> capacity b = capacity (buffer p) \<and> contents b = drop m (contents (buffer p))"
proof (cases "m = 0")
  case True
  then show ?thesis using Pipe_Read_loop_idle [OF assms(1-5)] by (simp add: m_def)
next
  case False
  then have m: "m = min (nat (n - k)) (length (contents (buffer p)))" and run: "k < n" "readerCount p > 0"
    by (auto simp: m_def read_amount_def split: if_splits)
  let ?buf = "take (nat k) buf @ take m (contents (buffer p)) @ drop (nat k + m) buf"
  obtain b where b: "cbuf_gets (buffer p) buf (nat k) (word_of_int (n - k)) = Some (of_nat m, ?buf, b)"
      "cbuf_ok b" "capacity b = capacity (buffer p)" "contents b = drop m (contents (buffer p))"
      "sint (of_nat m :: u32) = int m"
    using pipe_gets [OF assms(1-5)] unfolding m [symmetric] by metis
  have "Pipe_Read_loop p buf n k = Pipe_Read_loop (p\<lparr>buffer := b\<rparr>) ?buf n (k + int m)"
    using run b False by (subst Pipe_Read_loop.simps) simp
  moreover have "read_amount (p\<lparr>buffer := b\<rparr>) n (k + int m) = 0"
    by (auto simp: read_amount_def b(4) m)
  moreover have "length ?buf = length buf" "k + int m \<le> n"
    using assms(2-5) by (auto simp: m)
  moreover have "read_seg (p\<lparr>buffer := b\<rparr>) n j = read_seg p n j" for j
    by (simp add: read_seg_def)
  ultimately show ?thesis
    using Pipe_Read_loop_idle [of "p\<lparr>buffer := b\<rparr>" "k + int m" n ?buf] b(2-4) assms(2-5) by auto
qed

lemma Pipe_Write_loop_idle:
  assumes "cbuf_ok (buffer p)" "0 \<le> k" "k \<le> n" "n < 2147483648" "nat n \<le> length bytes"
    "write_amount p n k = 0"
  shows "\<exists>b. Pipe_Write_loop p bytes n k = Some (write_seg p n k, p\<lparr>buffer := b\<rparr>, k)
      \<and> cbuf_ok b \<and> capacity b = capacity (buffer p) \<and> contents b = contents (buffer p)"
proof (cases "k < n \<and> writerCount p > 0")
  case False
  then have "Pipe_Write_loop p bytes n k = Some (write_seg p n k, p\<lparr>buffer := buffer p\<rparr>, k)"
    by (subst Pipe_Write_loop.simps) (auto simp: write_seg_def)
  then show ?thesis using assms(1) by blast
next
  case True
  then have "min (nat (n - k)) (unat (capacity (buffer p)) - length (contents (buffer p))) = 0"
    using assms(6) by (simp add: write_amount_def)
  then obtain b where "cbuf_puts (buffer p) bytes (nat k) (word_of_int (n - k)) = Some (0, b)"
      "cbuf_ok b" "capacity b = capacity (buffer p)" "contents b = contents (buffer p)"
    using pipe_puts [OF assms(1-5)] by auto
  then show ?thesis
    using True by (subst Pipe_Write_loop.simps) (auto simp: write_seg_def)
qed

lemma Pipe_Write_loop_spec:
  assumes "cbuf_ok (buffer p)" "0 \<le> k" "k \<le> n" "n < 2147483648" "nat n \<le> length bytes"
  defines "m \<equiv> write_amount p n k"
  shows "\<exists>b. Pipe_Write_loop p bytes n k = Some (write_seg p n (k + int m), p\<lparr>buffer := b\<rparr>, k + int m)
     \<and> cbuf_ok b \<and> capacity b = capacity (buffer p)
     \<and> contents b = contents (buffer p) @ take m (drop (nat k) bytes)"
proof (cases "m = 0")
  case True
  then show ?thesis using Pipe_Write_loop_idle [OF assms(1-5)] by (simp add: m_def)
next
  case False
  then have m: "m = min (nat (n - k)) (unat (capacity (buffer p)) - length (contents (buffer p)))"
    and run: "k < n" "writerCount p > 0"
    by (auto simp: m_def write_amount_def split: if_splits)
  obtain b where b: "cbuf_puts (buffer p) bytes (nat k) (word_of_int (n - k)) = Some (of_nat m, b)"
      "cbuf_ok b" "capacity b = capacity (buffer p)"
      "contents b = contents (buffer p) @ take m (drop (nat k) bytes)" "sint (of_nat m :: u32) = int m"
    using pipe_puts [OF assms(1-5)] unfolding m [symmetric] by metis
  have "m \<le> nat (n - k)" by (simp add: m)
  then have "nat k + m \<le> length bytes" "k + int m \<le> n"
    using assms(2-5) by linarith+
  then have "length (contents b) = length (contents (buffer p)) + m"
    by (simp add: b(4))
  then have "write_amount (p\<lparr>buffer := b\<rparr>) n (k + int m) = 0"
    using m unfolding write_amount_def by (auto simp: b(3) min_def split: if_splits)
  moreover have "Pipe_Write_loop p bytes n k = Pipe_Write_loop (p\<lparr>buffer := b\<rparr>) bytes n (k + int m)"
    using run b False by (subst Pipe_Write_loop.simps) simp
  moreover have "write_seg (p\<lparr>buffer := b\<rparr>) n j = write_seg p n j" for j
    by (simp add: write_seg_def)
  ultimately show ?thesis
    using Pipe_Write_loop_idle [of "p\<lparr>buffer := b\<rparr>" "k + int m" n bytes, OF _ _ \<open>k + int m \<le> n\<close> assms(4,5)]
      b(2-4) assms(2) by auto
qed

subsection \<open>Threads sharing a pipe\<close>

type_synonym tid = nat

text \<open>
  The flag of \<open>Reader\<close> and \<open>Writer\<close> says that the thread is asleep on its condition variable; a
  thread that was woken up and has not got the mutex back yet has it cleared.
\<close>

datatype task = Idle
  | Reader bool "u8 list" int int | ReadDone errno "u8 list" int
  | Writer bool "u8 list" int int | WriteDone errno "u8 list" int

record psys =
  pp :: pipe
  tasks :: "tid \<Rightarrow> task"
  produced :: "u8 list"
  consumed :: "u8 list"
  moved :: "tid \<Rightarrow> u8 list"

fun idle :: "task \<Rightarrow> bool" where
  "idle (Reader _ _ _ _) = False"
| "idle (Writer _ _ _ _) = False"
| "idle _ = True"

fun wake_reader :: "task \<Rightarrow> task" where
  "wake_reader (Reader _ buf n k) = Reader False buf n k"
| "wake_reader x = x"

fun wake_writer :: "task \<Rightarrow> task" where
  "wake_writer (Writer _ buf n k) = Writer False buf n k"
| "wake_writer x = x"

fun sleeping_reader :: "task \<Rightarrow> bool" where
  "sleeping_reader (Reader a _ _ _) = a"
| "sleeping_reader _ = False"

fun sleeping_writer :: "task \<Rightarrow> bool" where
  "sleeping_writer (Writer a _ _ _) = a"
| "sleeping_writer _ = False"

text \<open>
  The end of a segment of thread \<open>t\<close>: a thread that goes to sleep has broadcast to the other side. The
  chunk is what this segment has moved.
\<close>

definition end_read :: "psys \<Rightarrow> tid \<Rightarrow> int \<Rightarrow> int \<Rightarrow> seg \<times> pipe \<times> u8 list \<times> int \<Rightarrow> psys" where
  "end_read s t n k = (\<lambda>(sg, p, buf, k'). let chunk = take (nat (k' - k)) (drop (nat k) buf) in
     s\<lparr>pp := p,
       tasks := (case sg of
           Wait \<Rightarrow> (wake_writer \<circ> tasks s)(t := Reader True buf n k')
         | Return e \<Rightarrow> (tasks s)(t := ReadDone e buf k')),
       consumed := consumed s @ chunk,
       moved := (moved s)(t := moved s t @ chunk)\<rparr>)"

definition end_write :: "psys \<Rightarrow> tid \<Rightarrow> u8 list \<Rightarrow> int \<Rightarrow> int \<Rightarrow> seg \<times> pipe \<times> int \<Rightarrow> psys" where
  "end_write s t bytes n k = (\<lambda>(sg, p, k'). let chunk = take (nat (k' - k)) (drop (nat k) bytes) in
     s\<lparr>pp := p,
       tasks := (case sg of
           Wait \<Rightarrow> (wake_reader \<circ> tasks s)(t := Writer True bytes n k')
         | Return e \<Rightarrow> (tasks s)(t := WriteDone e bytes k')),
       produced := produced s @ chunk,
       moved := (moved s)(t := moved s t @ chunk)\<rparr>)"

definition fresh_call :: "psys \<Rightarrow> tid \<Rightarrow> psys" where
  "fresh_call s t = s\<lparr>tasks := (tasks s)(t := Idle), moved := (moved s)(t := [])\<rparr>"

definition change_ends :: "psys \<Rightarrow> pipe \<Rightarrow> psys" where
  "change_ends s p = s\<lparr>pp := p, tasks := wake_writer \<circ> wake_reader \<circ> tasks s\<rparr>"

inductive pipe_step :: "psys \<Rightarrow> psys \<Rightarrow> bool" where
  call_read: "\<lbrakk>idle (tasks s t); n < 2147483648; nat n \<le> length buf;
      Pipe_Read (pp s) buf n = Some r\<rbrakk> \<Longrightarrow> pipe_step s (end_read (fresh_call s t) t n 0 r)"
| resume_read: "\<lbrakk>tasks s t = Reader False buf n k;
      Pipe_Read_wait (pp s) EOK buf n k = Some r\<rbrakk> \<Longrightarrow> pipe_step s (end_read s t n k r)"
| interrupt_read: "\<lbrakk>tasks s t = Reader a buf n k; err \<noteq> EOK;
      Pipe_Read_wait (pp s) err buf n k = Some r\<rbrakk> \<Longrightarrow> pipe_step s (end_read s t n k r)"
| call_write: "\<lbrakk>idle (tasks s t); n < 2147483648; nat n \<le> length bytes;
      Pipe_Write (pp s) bytes n = Some r\<rbrakk> \<Longrightarrow> pipe_step s (end_write (fresh_call s t) t bytes n 0 r)"
| resume_write: "\<lbrakk>tasks s t = Writer False bytes n k;
      Pipe_Write_wait (pp s) EOK bytes n k = Some r\<rbrakk> \<Longrightarrow> pipe_step s (end_write s t bytes n k r)"
| interrupt_write: "\<lbrakk>tasks s t = Writer a bytes n k; err \<noteq> EOK;
      Pipe_Write_wait (pp s) err bytes n k = Some r\<rbrakk> \<Longrightarrow> pipe_step s (end_write s t bytes n k r)"
| open_end: "pipe_step s (change_ends s (Pipe_Open (pp s) e))"
| close_end: "pipe_step s (change_ends s (Pipe_Close (pp s) e))"

text \<open>A state right after \<open>Pipe_Create\<close>.\<close>

definition pipe_start :: "psys \<Rightarrow> bool" where
  "pipe_start s \<longleftrightarrow> cbuf_ok (buffer (pp s)) \<and> contents (buffer (pp s)) = []
     \<and> tasks s = (\<lambda>_. Idle) \<and> produced s = [] \<and> consumed s = []"

definition pipe_reachable :: "psys \<Rightarrow> bool" where
  "pipe_reachable s \<longleftrightarrow> (\<exists>s0. pipe_start s0 \<and> pipe_step\<^sup>*\<^sup>* s0 s)"

subsection \<open>The invariant\<close>

definition task_ok :: "pipe \<Rightarrow> task \<Rightarrow> u8 list \<Rightarrow> bool" where
  "task_ok p x mv = (case x of
     Idle \<Rightarrow> True
   | Reader a buf n k \<Rightarrow> 0 \<le> k \<and> k \<le> n \<and> n < 2147483648 \<and> nat n \<le> length buf \<and> take (nat k) buf = mv
       \<and> (a \<longrightarrow> readerCount p \<noteq> 0 \<and> writerCount p \<noteq> 0)
   | ReadDone e buf k \<Rightarrow> 0 \<le> k \<and> nat k \<le> length buf \<and> take (nat k) buf = mv
   | Writer a buf n k \<Rightarrow> 0 \<le> k \<and> k \<le> n \<and> n < 2147483648 \<and> nat n \<le> length buf \<and> take (nat k) buf = mv
       \<and> (a \<longrightarrow> readerCount p \<noteq> 0 \<and> writerCount p \<noteq> 0)
   | WriteDone e buf k \<Rightarrow> 0 \<le> k \<and> nat k \<le> length buf \<and> take (nat k) buf = mv)"

definition pipe_inv :: "psys \<Rightarrow> bool" where
  "pipe_inv s \<longleftrightarrow> cbuf_ok (buffer (pp s))
     \<and> consumed s @ contents (buffer (pp s)) = produced s
     \<and> (\<forall>t. task_ok (pp s) (tasks s t) (moved s t))
     \<and> \<not> ((\<exists>t. sleeping_reader (tasks s t)) \<and> (\<exists>t. sleeping_writer (tasks s t)))"

lemma task_ok_wake [simp]:
  "task_ok p x mv \<Longrightarrow> task_ok p (wake_reader x) mv"
  "task_ok p x mv \<Longrightarrow> task_ok p (wake_writer x) mv"
  by (cases x; simp add: task_ok_def)+

lemma task_ok_woken: "task_ok p x mv \<Longrightarrow> task_ok q (wake_writer (wake_reader x)) mv"
  by (cases x; simp add: task_ok_def)

lemma task_ok_cong: "readerCount q = readerCount p \<Longrightarrow> writerCount q = writerCount p \<Longrightarrow>
    task_ok q x mv = task_ok p x mv"
  by (cases x) (simp_all add: task_ok_def)

lemma wake_not_sleeping [simp]:
  "\<not> sleeping_reader (wake_reader x)" "\<not> sleeping_writer (wake_writer x)"
  "sleeping_reader (wake_writer x) = sleeping_reader x" "sleeping_writer (wake_reader x) = sleeping_writer x"
  by (cases x; simp)+

lemma idle_not_sleeping [simp]: "idle x \<Longrightarrow> \<not> sleeping_reader x" "idle x \<Longrightarrow> \<not> sleeping_writer x"
  by (cases x; simp)+

text \<open>The end of a segment: thread \<open>t\<close> has a new task, and the other side may have been woken.\<close>

lemma not_both_sleeping: "sleeping_reader x \<Longrightarrow> \<not> sleeping_writer x"
  by (cases x) simp_all

definition others :: "psys \<Rightarrow> tid \<Rightarrow> (task \<Rightarrow> task) \<Rightarrow> psys \<Rightarrow> bool" where
  "others s t f s' \<longleftrightarrow> (\<forall>u. u \<noteq> t \<longrightarrow> tasks s' u = f (tasks s u) \<and> moved s' u = moved s u)"

lemma pipe_inv_segment:
  assumes inv: "pipe_inv s"
    and cnt: "readerCount (pp s') = readerCount (pp s)" "writerCount (pp s') = writerCount (pp s)"
    and buf: "cbuf_ok (buffer (pp s'))" "consumed s' @ contents (buffer (pp s')) = produced s'"
    and new: "task_ok (pp s) (tasks s' t) (moved s' t)"
    and oth: "sleeping_reader (tasks s' t) \<and> others s t wake_writer s'
      \<or> sleeping_writer (tasks s' t) \<and> others s t wake_reader s'
      \<or> \<not> sleeping_reader (tasks s' t) \<and> \<not> sleeping_writer (tasks s' t) \<and> others s t id s'"
  shows "pipe_inv s'"
proof -
  have tk: "task_ok (pp s) (tasks s u) (moved s u)" for u
    using inv by (simp add: pipe_inv_def)
  have "task_ok (pp s) (tasks s' u) (moved s' u)" for u
    using oth tk [of u] new unfolding others_def by (cases "u = t") (auto simp del: task_ok_wake dest: task_ok_wake)
  moreover have "\<not> sleeping_writer (tasks s' v)" if "sleeping_reader (tasks s' u)" for u v
    using oth
  proof (elim disjE conjE)
    assume "sleeping_reader (tasks s' t)" "others s t wake_writer s'"
    then show ?thesis by (cases "v = t") (auto simp: others_def not_both_sleeping)
  next
    assume "sleeping_writer (tasks s' t)" "others s t wake_reader s'"
    then show ?thesis using that not_both_sleeping by (cases "u = t") (auto simp: others_def)
  next
    assume no: "\<not> sleeping_reader (tasks s' t)" "\<not> sleeping_writer (tasks s' t)" "others s t id s'"
    then have "sleeping_reader (tasks s u)"
      using that by (cases "u = t") (auto simp: others_def)
    then have "\<not> sleeping_writer (tasks s v)"
      using inv unfolding pipe_inv_def by blast
    then show ?thesis using no by (cases "v = t") (auto simp: others_def)
  qed
  ultimately show ?thesis
    using buf task_ok_cong [OF cnt] unfolding pipe_inv_def by blast
qed

text \<open>One segment of a reader, from a state in which it has \<open>k\<close> bytes.\<close>

lemma read_segment_inv:
  assumes inv: "pipe_inv s" and k: "0 \<le> k" "k \<le> n" "n < 2147483648" "nat n \<le> length buf"
    and mv: "take (nat k) buf = moved s t"
    and run: "Pipe_Read_loop (pp s) buf n k = Some r"
  shows "pipe_inv (end_read s t n k r)"
proof -
  define m where "m = read_amount (pp s) n k"
  have ok: "cbuf_ok (buffer (pp s))" and str: "consumed s @ contents (buffer (pp s)) = produced s"
    using inv by (simp_all add: pipe_inv_def)
  let ?xs = "contents (buffer (pp s))"
  define buf' where "buf' = take (nat k) buf @ take m ?xs @ drop (nat k + m) buf"
  obtain b where r: "r = (read_seg (pp s) n (k + int m), (pp s)\<lparr>buffer := b\<rparr>, buf', k + int m)"
    and b: "cbuf_ok b" "contents b = drop m ?xs"
    using Pipe_Read_loop_spec [OF ok k] run unfolding m_def buf'_def by auto
  have m: "m \<le> length ?xs" "m \<le> nat (n - k)"
    by (auto simp: m_def read_amount_def)
  have le: "nat k + m \<le> length buf" "k + int m \<le> n" "nat (k + int m) = nat k + m"
    using m k by linarith+
  have chunk: "take m (drop (nat k) buf') = take m ?xs" and len: "length buf' = length buf"
    and got: "take (nat k + m) buf' = moved s t @ take m ?xs"
    using le m by (auto simp: buf'_def min_def mv [symmetric])
  show ?thesis
    using inv
  proof (rule pipe_inv_segment [where t = t])
    show "task_ok (pp s) (tasks (end_read s t n k r) t) (moved (end_read s t n k r) t)"
      using k le by (auto simp: end_read_def r task_ok_def read_seg_def chunk got len Let_def)
    show "consumed (end_read s t n k r) @ contents (buffer (pp (end_read s t n k r)))
        = produced (end_read s t n k r)"
      using str by (simp add: end_read_def r Let_def b(2) chunk)
    show "sleeping_reader (tasks (end_read s t n k r) t) \<and> others s t wake_writer (end_read s t n k r)
      \<or> sleeping_writer (tasks (end_read s t n k r) t) \<and> others s t wake_reader (end_read s t n k r)
      \<or> \<not> sleeping_reader (tasks (end_read s t n k r) t) \<and> \<not> sleeping_writer (tasks (end_read s t n k r) t)
        \<and> others s t id (end_read s t n k r)"
      by (cases "read_seg (pp s) n (k + int m)") (simp_all add: end_read_def r others_def Let_def)
  qed (simp_all add: end_read_def r Let_def b(1))
qed

lemma write_segment_inv:
  assumes inv: "pipe_inv s" and k: "0 \<le> k" "k \<le> n" "n < 2147483648" "nat n \<le> length bytes"
    and mv: "take (nat k) bytes = moved s t"
    and run: "Pipe_Write_loop (pp s) bytes n k = Some r"
  shows "pipe_inv (end_write s t bytes n k r)"
proof -
  define m where "m = write_amount (pp s) n k"
  have ok: "cbuf_ok (buffer (pp s))" and str: "consumed s @ contents (buffer (pp s)) = produced s"
    using inv by (simp_all add: pipe_inv_def)
  let ?xs = "contents (buffer (pp s))"
  obtain b where r: "r = (write_seg (pp s) n (k + int m), (pp s)\<lparr>buffer := b\<rparr>, k + int m)"
    and b: "cbuf_ok b" "contents b = ?xs @ take m (drop (nat k) bytes)"
    using Pipe_Write_loop_spec [OF ok k] run unfolding m_def by auto
  have m: "m \<le> nat (n - k)"
    by (auto simp: m_def write_amount_def)
  have le: "nat k + m \<le> length bytes" "k + int m \<le> n" "nat (k + int m) = nat k + m"
    using m k by linarith+
  show ?thesis
    using inv
  proof (rule pipe_inv_segment [where t = t])
    show "task_ok (pp s) (tasks (end_write s t bytes n k r) t) (moved (end_write s t bytes n k r) t)"
      using k le mv by (auto simp: end_write_def r task_ok_def write_seg_def Let_def take_add)
    show "consumed (end_write s t bytes n k r) @ contents (buffer (pp (end_write s t bytes n k r)))
        = produced (end_write s t bytes n k r)"
      using str by (simp add: end_write_def r Let_def b(2))
    show "sleeping_reader (tasks (end_write s t bytes n k r) t) \<and> others s t wake_writer (end_write s t bytes n k r)
      \<or> sleeping_writer (tasks (end_write s t bytes n k r) t) \<and> others s t wake_reader (end_write s t bytes n k r)
      \<or> \<not> sleeping_reader (tasks (end_write s t bytes n k r) t) \<and> \<not> sleeping_writer (tasks (end_write s t bytes n k r) t)
        \<and> others s t id (end_write s t bytes n k r)"
      by (cases "write_seg (pp s) n (k + int m)") (simp_all add: end_write_def r others_def Let_def)
  qed (simp_all add: end_write_def r Let_def b(1))
qed

lemma read_return_inv:
  assumes "pipe_inv s" "0 \<le> k" "nat k \<le> length buf" "take (nat k) buf = moved s t"
  shows "pipe_inv (end_read s t n k (Return e, pp s, buf, k))"
  using assms(1) by (rule pipe_inv_segment [where t = t])
    (use assms in \<open>simp_all add: end_read_def others_def task_ok_def pipe_inv_def\<close>)

lemma write_return_inv:
  assumes "pipe_inv s" "0 \<le> k" "nat k \<le> length bytes" "take (nat k) bytes = moved s t"
  shows "pipe_inv (end_write s t bytes n k (Return e, pp s, k))"
  using assms(1) by (rule pipe_inv_segment [where t = t])
    (use assms in \<open>simp_all add: end_write_def others_def task_ok_def pipe_inv_def\<close>)

lemma fresh_call_inv: "pipe_inv s \<Longrightarrow> pipe_inv (fresh_call s t)"
  by (rule pipe_inv_segment [where t = t and s = s])
     (simp_all add: fresh_call_def others_def task_ok_def pipe_inv_def)

lemma fresh_call_sel [simp]: "pp (fresh_call s t) = pp s" "moved (fresh_call s t) t = []"
  by (simp_all add: fresh_call_def)

lemma change_ends_inv:
  assumes "pipe_inv s" "buffer p = buffer (pp s)"
  shows "pipe_inv (change_ends s p)"
proof -
  have "task_ok p (wake_writer (wake_reader (tasks s t))) (moved s t)" for t
    using assms(1) task_ok_woken unfolding pipe_inv_def by blast
  then show ?thesis
    using assms by (simp add: pipe_inv_def change_ends_def)
qed

lemma Reader_ok:
  assumes "pipe_inv s" "tasks s t = Reader a buf n k"
  shows "0 \<le> k" "k \<le> n" "n < 2147483648" "nat n \<le> length buf" "take (nat k) buf = moved s t" "nat k \<le> length buf"
proof -
  have "task_ok (pp s) (tasks s t) (moved s t)" using assms(1) unfolding pipe_inv_def by blast
  then show "0 \<le> k" "k \<le> n" "n < 2147483648" "nat n \<le> length buf" "take (nat k) buf = moved s t" "nat k \<le> length buf"
    unfolding assms(2) by (auto simp: task_ok_def)
qed

lemma Writer_ok:
  assumes "pipe_inv s" "tasks s t = Writer a buf n k"
  shows "0 \<le> k" "k \<le> n" "n < 2147483648" "nat n \<le> length buf" "take (nat k) buf = moved s t" "nat k \<le> length buf"
proof -
  have "task_ok (pp s) (tasks s t) (moved s t)" using assms(1) unfolding pipe_inv_def by blast
  then show "0 \<le> k" "k \<le> n" "n < 2147483648" "nat n \<le> length buf" "take (nat k) buf = moved s t" "nat k \<le> length buf"
    unfolding assms(2) by (auto simp: task_ok_def)
qed

lemma pipe_step_inv: "pipe_step s s' \<Longrightarrow> pipe_inv s \<Longrightarrow> pipe_inv s'"
proof (induction rule: pipe_step.induct)
  case (call_read s t n buf r)
  then show ?case
    using read_segment_inv [OF fresh_call_inv, of s 0 n buf t t r] read_return_inv [OF fresh_call_inv, of s 0 buf t t n EOK]
    by (auto simp: Pipe_Read_def split: if_splits)
next
  case (resume_read s t buf n k r)
  note ok = Reader_ok [OF resume_read.prems resume_read.hyps(1)]
  from resume_read show ?case
    using read_segment_inv [OF _ ok(1-5)] by (simp add: Pipe_Read_wait_def)
next
  case (interrupt_read s t a buf n k err r)
  note ok = Reader_ok [OF interrupt_read.prems interrupt_read.hyps(1)]
  show ?case
    using interrupt_read read_return_inv [OF interrupt_read.prems ok(1,6,5)]
    by (simp add: Pipe_Read_wait_def) blast
next
  case (call_write s t n bytes r)
  then show ?case
    using write_segment_inv [OF fresh_call_inv, of s 0 n bytes t t r] write_return_inv [OF fresh_call_inv, of s 0 bytes t t n EOK]
    by (auto simp: Pipe_Write_def split: if_splits)
next
  case (resume_write s t bytes n k r)
  note ok = Writer_ok [OF resume_write.prems resume_write.hyps(1)]
  from resume_write show ?case
    using write_segment_inv [OF _ ok(1-5)] by (simp add: Pipe_Write_wait_def)
next
  case (interrupt_write s t a bytes n k err r)
  note ok = Writer_ok [OF interrupt_write.prems interrupt_write.hyps(1)]
  show ?case
    using interrupt_write write_return_inv [OF interrupt_write.prems ok(1,6,5)]
    by (simp add: Pipe_Write_wait_def) blast
next
  case (open_end s e)
  then show ?case by (cases e) (auto intro!: change_ends_inv simp: Pipe_Open_def)
next
  case (close_end s e)
  then show ?case by (cases e) (auto intro!: change_ends_inv simp: Pipe_Close_def)
qed

lemma pipe_reachable_inv: "pipe_reachable s \<Longrightarrow> pipe_inv s"
proof -
  assume "pipe_reachable s"
  then obtain s0 where "pipe_start s0" and steps: "pipe_step\<^sup>*\<^sup>* s0 s"
    by (auto simp: pipe_reachable_def)
  then have "pipe_inv s0"
    by (simp add: pipe_start_def pipe_inv_def task_ok_def)
  with steps show ?thesis
    by (induction rule: rtranclp_induct) (auto intro: pipe_step_inv)
qed

subsection \<open>Properties\<close>

text \<open>
  C1. A pipe is a reliable byte stream. In every state that any number of threads can reach by
  reading, writing, opening and closing ends and being interrupted, in any interleaving: the bytes that readers have
  taken out, followed by the bytes in the buffer, are exactly the bytes that writers have put in, in that order;
  a finished read call hands its caller exactly the bytes that this call took from the stream, and a
  finished write call reports exactly the prefix of its bytes that it put into the stream.
\<close>

theorem pipe_stream_integrity:
  assumes "pipe_reachable s"
  shows "consumed s @ contents (buffer (pp s)) = produced s
    \<and> (\<forall>t e buf k. tasks s t = ReadDone e buf k \<longrightarrow> 0 \<le> k \<and> take (nat k) buf = moved s t)
    \<and> (\<forall>t e bytes k. tasks s t = WriteDone e bytes k \<longrightarrow> 0 \<le> k \<and> take (nat k) bytes = moved s t)"
proof -
  have inv: "pipe_inv s" by (rule pipe_reachable_inv) (rule assms)
  then have "task_ok (pp s) (tasks s t) (moved s t)" for t
    by (simp add: pipe_inv_def)
  then have "task_ok (pp s) x (moved s t)" if "tasks s t = x" for t x
    using that by auto
  from this [where x = "ReadDone _ _ _"] this [where x = "WriteDone _ _ _"] inv show ?thesis
    by (simp add: pipe_inv_def task_ok_def)
qed

definition sample_psys :: psys where
  "sample_psys = \<lparr>pp = \<lparr>readerCount = 0, writerCount = 0, buffer = sample_cbuf\<rparr>, tasks = (\<lambda>_. Idle),
     produced = [], consumed = [], moved = (\<lambda>_. [])\<rparr>"

lemma sample_psys_start: "pipe_start sample_psys"
  by (simp add: pipe_start_def sample_psys_def sample_cbuf_ok)

text \<open>A reader that finds the pipe empty goes to sleep; a writer then writes what the reader wants and returns.\<close>

lemma lost_wakeup_run:
  "\<exists>s b. pipe_step\<^sup>*\<^sup>* sample_psys s \<and> tasks s = (\<lambda>_. Idle)(0 := Reader True [0, 0] 2 0, 1 := WriteDone EOK [7, 8] 2)
     \<and> pp s = \<lparr>readerCount = 1, writerCount = 1, buffer = b\<rparr> \<and> contents b = [7, 8]
     \<and> produced s = [7, 8] \<and> consumed s = []"
proof -
  let ?p = "\<lambda>b. \<lparr>readerCount = 1, writerCount = 1, buffer = b\<rparr>"
  let ?s1 = "change_ends (change_ends sample_psys (Pipe_Open (pp sample_psys) kPipeEnd_Read))
      (Pipe_Open (Pipe_Open (pp sample_psys) kPipeEnd_Read) kPipeEnd_Write)"
  have s1: "pipe_step\<^sup>*\<^sup>* sample_psys ?s1"
    using pipe_step.open_end [of sample_psys kPipeEnd_Read]
      pipe_step.open_end [of "change_ends sample_psys (Pipe_Open (pp sample_psys) kPipeEnd_Read)" kPipeEnd_Write]
    by (auto simp: change_ends_def)
  have pp1: "pp ?s1 = ?p sample_cbuf" "tasks ?s1 = (\<lambda>_. Idle)" "produced ?s1 = []" "consumed ?s1 = []"
    by (simp_all add: change_ends_def Pipe_Open_def sample_psys_def comp_def)
  obtain b where b: "Pipe_Read_loop (?p sample_cbuf) [0, 0] 2 0 = Some (Wait, ?p b, [0, 0], 0)"
      "cbuf_ok b" "unat (capacity b) = 4" "contents b = []"
    using Pipe_Read_loop_spec [of "?p sample_cbuf" 0 2 "[0, 0]"] sample_cbuf_ok
    by (auto simp: read_amount_def read_seg_def)
  let ?s2 = "end_read (fresh_call ?s1 0) 0 2 0 (Wait, ?p b, [0, 0], 0)"
  have s2: "pipe_step ?s1 ?s2"
    using b(1) by (intro pipe_step.call_read) (simp_all add: pp1 Pipe_Read_def)
  have pp2: "pp ?s2 = ?p b" "tasks ?s2 = (\<lambda>_. Idle)(0 := Reader True [0, 0] 2 0)" "produced ?s2 = []" "consumed ?s2 = []"
    using pp1 by (simp_all add: end_read_def fresh_call_def comp_def fun_eq_iff Let_def)
  obtain b' where b': "Pipe_Write_loop (?p b) [7, 8] 2 0 = Some (Return EOK, ?p b', 2)" "contents b' = [7, 8]"
    using Pipe_Write_loop_spec [of "?p b" 0 2 "[7, 8]"] b
    by (auto simp: write_amount_def write_seg_def)
  let ?s3 = "end_write (fresh_call ?s2 1) 1 [7, 8] 2 0 (Return EOK, ?p b', 2)"
  have "pipe_step ?s2 ?s3"
    using b' by (intro pipe_step.call_write) (simp_all add: pp2 Pipe_Write_def)
  then have "pipe_step\<^sup>*\<^sup>* sample_psys ?s3"
    using s1 s2 by (meson rtranclp.rtrancl_into_rtrancl)
  moreover have "pp ?s3 = ?p b'" "tasks ?s3 = (\<lambda>_. Idle)(0 := Reader True [0, 0] 2 0, 1 := WriteDone EOK [7, 8] 2)"
      "produced ?s3 = [7, 8]" "consumed ?s3 = []"
    using pp2 by (simp_all add: end_write_def fresh_call_def fun_eq_iff Let_def)
  ultimately show ?thesis using b'(2) by blast
qed

lemma sample_reachable:
  "\<exists>s. pipe_reachable s \<and> tasks s 0 = Reader True [0, 0] 2 0 \<and> tasks s 1 = WriteDone EOK [7, 8] 2
     \<and> (\<forall>t. t \<noteq> 0 \<longrightarrow> idle (tasks s t)) \<and> contents (buffer (pp s)) = [7, 8] \<and> consumed s = [] \<and> produced s = [7, 8]
     \<and> readerCount (pp s) = 1 \<and> writerCount (pp s) = 1"
proof -
  obtain s b where s: "pipe_step\<^sup>*\<^sup>* sample_psys s"
    and t: "tasks s = (\<lambda>_. Idle)(0 := Reader True [0, 0] 2 0, 1 := WriteDone EOK [7, 8] 2)"
    and p: "pp s = \<lparr>readerCount = 1, writerCount = 1, buffer = b\<rparr>" "contents b = [7, 8]"
    and g: "produced s = [7, 8]" "consumed s = []"
    using lost_wakeup_run by blast
  have "pipe_reachable s"
    using s sample_psys_start by (auto simp: pipe_reachable_def)
  then show ?thesis
    using p g by (intro exI [of _ s]) (simp add: t)
qed

theorem pipe_stream_integrity_witness:
  "\<exists>s. pipe_reachable s \<and> produced s = [7, 8] \<and> consumed s @ contents (buffer (pp s)) = [7, 8] \<and> moved s 1 = [7, 8]"
proof -
  obtain s where s: "pipe_reachable s" "tasks s 1 = WriteDone EOK [7, 8] 2" "produced s = [7, 8]"
    using sample_reachable by blast
  have "consumed s @ contents (buffer (pp s)) = produced s" "take (nat 2) [7, 8] = moved s 1"
    using pipe_stream_integrity [OF s(1)] s(2) by blast+
  then show ?thesis using s(1,3) by (intro exI [of _ s]) simp
qed

text \<open>
  C14. Sleepers. In every reachable state a thread sleeps in a read or in a write only
  while both ends of the pipe are open: closing the last write end wakes every reader, so that it sees the end of the
  stream, and closing the last read end wakes every writer, so that it sees the broken pipe. And there is
  never a sleeping reader together with a sleeping writer: the threads of a pipe cannot deadlock on each other.
\<close>

theorem pipe_sleepers:
  assumes "pipe_reachable s"
  shows "(\<forall>t. sleeping_reader (tasks s t) \<or> sleeping_writer (tasks s t)
            \<longrightarrow> readerCount (pp s) \<noteq> 0 \<and> writerCount (pp s) \<noteq> 0)
    \<and> \<not> ((\<exists>t. sleeping_reader (tasks s t)) \<and> (\<exists>t. sleeping_writer (tasks s t)))"
proof -
  have inv: "pipe_inv s" by (rule pipe_reachable_inv) (rule assms)
  have "readerCount (pp s) \<noteq> 0 \<and> writerCount (pp s) \<noteq> 0"
    if "sleeping_reader (tasks s t) \<or> sleeping_writer (tasks s t)" for t
  proof -
    have "task_ok (pp s) (tasks s t) (moved s t)" using inv unfolding pipe_inv_def by blast
    with that show ?thesis by (cases "tasks s t") (simp_all add: task_ok_def)
  qed
  with inv show ?thesis by (simp add: pipe_inv_def)
qed

theorem pipe_sleepers_witness:
  "\<exists>s. pipe_reachable s \<and> sleeping_reader (tasks s 0) \<and> readerCount (pp s) \<noteq> 0 \<and> writerCount (pp s) \<noteq> 0
     \<and> \<not> (\<exists>t. sleeping_writer (tasks s t))"
proof -
  obtain s where s: "pipe_reachable s" "tasks s 0 = Reader True [0, 0] 2 0"
    using sample_reachable by blast
  then show ?thesis using pipe_sleepers [OF s(1)] by (intro exI [of _ s]) (metis sleeping_reader.simps(1))
qed

text \<open>
  C38. A wakeup is lost. There is a reachable state in which a reader sleeps although the pipe holds all the
  bytes it is waiting for, and no other thread is inside a call that could still wake it: a write
  that fits into the buffer returns without a broadcast to the readers.
\<close>

theorem pipe_lost_wakeup:
  "\<exists>s t buf n k. pipe_reachable s \<and> tasks s t = Reader True buf n k \<and> k < n
     \<and> n - k \<le> int (length (contents (buffer (pp s)))) \<and> (\<forall>u. u \<noteq> t \<longrightarrow> idle (tasks s u))"
proof -
  obtain s where s: "pipe_reachable s" "tasks s 0 = Reader True [0, 0] 2 0" "\<forall>t. t \<noteq> 0 \<longrightarrow> idle (tasks s t)"
      "contents (buffer (pp s)) = [7, 8]"
    using sample_reachable by blast
  then show ?thesis by (intro exI [of _ s] exI [of _ 0] exI [of _ "[0, 0]"] exI [of _ 2]) simp
qed

theorem pipe_lost_wakeup_witness:
  "\<exists>s t buf n k. pipe_reachable s \<and> tasks s t = Reader True buf n k \<and> n - k \<le> int (length (contents (buffer (pp s))))"
  using pipe_lost_wakeup by blast

text \<open>
  C29. What a call transfers. On a well-formed pipe and for a buffer that is as long as the caller says, the reading
  and the writing loop terminate without a fault. A reader gets as many bytes as it still wants
  and as there are, in order, behind the ones it has; it returns when it has them all or when no writer is
  left and goes to sleep otherwise. A writer puts in as many bytes as still fit, and returns when
  all are in, returns EPIPE (or the short count) when no reader is left, and goes to sleep otherwise.
\<close>

theorem pipe_transfer:
  assumes "cbuf_ok (buffer p)" "0 \<le> k" "k \<le> n" "n < 2147483648" "nat n \<le> length buf"
  shows
    "(\<exists>b. let m = (if readerCount p > 0 then min (nat (n - k)) (length (contents (buffer p))) else 0) in
        Pipe_Read_loop p buf n k
        = Some (if k + int m < n \<and> readerCount p > 0 \<and> writerCount p \<noteq> 0 then Wait else Return EOK,
                p\<lparr>buffer := b\<rparr>, take (nat k) buf @ take m (contents (buffer p)) @ drop (nat k + m) buf, k + int m)
        \<and> cbuf_ok b \<and> contents b = drop m (contents (buffer p)))
     \<and> (\<exists>b. let m = (if writerCount p > 0
                     then min (nat (n - k)) (unat (capacity (buffer p)) - length (contents (buffer p))) else 0) in
        Pipe_Write_loop p buf n k
        = Some (if k + int m < n \<and> writerCount p > 0
                then if readerCount p \<noteq> 0 then Wait else Return (if k + int m = 0 then EPIPE else EOK)
                else Return EOK, p\<lparr>buffer := b\<rparr>, k + int m)
        \<and> cbuf_ok b \<and> contents b = contents (buffer p) @ take m (drop (nat k) buf))"
  using Pipe_Read_loop_spec [OF assms] Pipe_Write_loop_spec [OF assms]
  unfolding read_amount_def read_seg_def write_amount_def write_seg_def Let_def by blast

theorem pipe_transfer_witness:
  "\<exists>b. Pipe_Write_loop \<lparr>readerCount = 0, writerCount = 1, buffer = sample_cbuf\<rparr> [1, 2, 3, 4, 5, 6] 6 0
      = Some (Return EOK, \<lparr>readerCount = 0, writerCount = 1, buffer = b\<rparr>, 4) \<and> contents b = [1, 2, 3, 4]"
  using pipe_transfer [of "\<lparr>readerCount = 0, writerCount = 1, buffer = sample_cbuf\<rparr>" 0 6 "[1, 2, 3, 4, 5, 6]"]
  by (auto simp: sample_cbuf_ok Let_def)

end
