(* ===== verification/HandlerTab.thy ===== *)
theory HandlerTab
  imports Prelude
begin

section \<open>File descriptor tables\<close>

text \<open>
  \<open>handler/HandlerTable.c\<close>, the descriptor calls of \<open>syscall/sys_fd.c\<close> and the shared parts of
  \<open>handler/Handler.c\<close>. A table maps descriptors to handlers and owns one strong reference for every slot that
  names a handler. The table grows by pages of 128 slots; \<open>max_fd_num\<close> is the highest descriptor in
  use. Handlers are addresses; their reference counts live in the object store \<open>objs\<close>, which also records the
  handlers that were destroyed. The kernel allocator is an argument that says which requests succeed.

  The theorems show that the table is a partial map from descriptors to handlers, that a new descriptor is the
  lowest free one, and that every call keeps the reference counts in step with the slots.
\<close>

subsection \<open>Objects\<close>

type_synonym hnd = nat

record objs =
  refs :: "hnd \<Rightarrow> int"
  closed :: "hnd list"

definition Object_Retain :: "objs \<Rightarrow> hnd \<Rightarrow> objs" where
  "Object_Retain os h = os\<lparr>refs := (refs os)(h := refs os h + 1)\<rparr>"

definition Object_Release :: "objs \<Rightarrow> hnd option \<Rightarrow> objs" where
  "Object_Release os s = (case s of
     None \<Rightarrow> os
   | Some h \<Rightarrow>
       (let os = os\<lparr>refs := (refs os)(h := refs os h - 1)\<rparr> in
        if refs os h = 0 then os\<lparr>closed := closed os @ [h]\<rparr> else os))"

subsection \<open>Tables\<close>

record htable =
  table :: "hnd option list option"
  table_size :: int
  max_fd_num :: int

definition FDNO_MAX :: int where "FDNO_MAX = 2048"
definition FDTAB_PAGE_SHIFT :: nat where "FDTAB_PAGE_SHIFT = 7"
definition FDTAB_PAGE_SIZE :: int where "FDTAB_PAGE_SIZE = 128"

definition HandlerTable_Init :: htable where
  "HandlerTable_Init = \<lparr>table = None, table_size = 0, max_fd_num = -1\<rparr>"

text \<open>A pointer to a handler is 4 bytes wide. \<open>alloc n\<close>: a block of \<open>n\<close> bytes can be allocated.\<close>

definition ensure_fd_slot_exists :: "(int \<Rightarrow> bool) \<Rightarrow> htable \<Rightarrow> int \<Rightarrow> (errno \<times> htable) option" where
  "ensure_fd_slot_exists alloc self fd_slot =
     (if table_size self > fd_slot then Some (EOK, self)
      else if fd_slot > FDNO_MAX then Some (EMFILE, self)
      else
        (let new_page_count = drop_bit FDTAB_PAGE_SHIFT fd_slot + 1;
             new_table_size = new_page_count * FDTAB_PAGE_SIZE;
             new_memblk_size = new_table_size * 4
         in if new_memblk_size < 0 then Some (EMFILE, self)
            else if alloc new_memblk_size then
              do { let new_table = replicate (nat new_table_size) None;
                   new_table \<leftarrow> (case table self of
                       Some t \<Rightarrow> arr_copy new_table t (nat (max_fd_num self + 1))
                     | None \<Rightarrow> Some new_table);
                   Some (EOK, self\<lparr>table := Some new_table, table_size := new_table_size\<rparr>) }
            else Some (ENOMEM, self)))"

text \<open>The scan for a free slot: \<open>Some None\<close> when it runs off the end of the table.\<close>

function scan_fd_slot :: "htable \<Rightarrow> int \<Rightarrow> int option option" where
  "scan_fd_slot self i =
     (if i < table_size self then
        (case table self of
           None \<Rightarrow> None
         | Some t \<Rightarrow>
             (case iarr_get t i of
                None \<Rightarrow> None
              | Some None \<Rightarrow> Some (Some i)
              | Some (Some _) \<Rightarrow> scan_fd_slot self (i + 1)))
      else Some None)"
  by pat_completeness auto
termination by (relation "measure (\<lambda>(self, i). nat (table_size self - i))") auto

declare scan_fd_slot.simps [simp del]

lemma ensure_grows:
  assumes "ensure_fd_slot_exists alloc self (table_size self) = Some (EOK, self')"
  shows "table_size self < table_size self' \<and> table_size self \<le> FDNO_MAX"
proof -
  have "table_size self < (table_size self div 128 + 1) * 128"
    by (simp add: algebra_simps)
  then show ?thesis
    using assms
    by (auto simp: ensure_fd_slot_exists_def FDTAB_PAGE_SHIFT_def FDTAB_PAGE_SIZE_def Let_def drop_bit_eq_div
        split: if_splits option.splits bind_splits)
qed

function alloc_fd_slot :: "(int \<Rightarrow> bool) \<Rightarrow> htable \<Rightarrow> int \<Rightarrow> (errno \<times> int \<times> htable) option" where
  "alloc_fd_slot alloc self min_fd =
     (case scan_fd_slot self min_fd of
        None \<Rightarrow> None
      | Some (Some i) \<Rightarrow> Some (EOK, i, self\<lparr>max_fd_num := max (max_fd_num self) i\<rparr>)
      | Some None \<Rightarrow>
          (case ensure_fd_slot_exists alloc self (table_size self) of
             None \<Rightarrow> None
           | Some (err, self') \<Rightarrow>
               if err = EOK then alloc_fd_slot alloc self' min_fd else Some (err, -1, self')))"
  by pat_completeness auto
termination
  by (relation "measure (\<lambda>(alloc, self, min_fd). nat (2049 - table_size self))")
     (auto dest: ensure_grows simp: FDNO_MAX_def)

declare alloc_fd_slot.simps [simp del]

text \<open>The loop that lowers \<open>max_fd_num\<close> to the highest slot in use.\<close>

function lower_max :: "hnd option list \<Rightarrow> int \<Rightarrow> int option" where
  "lower_max t m =
     (if m \<ge> 0 then
        (case iarr_get t m of
           None \<Rightarrow> None
         | Some None \<Rightarrow> lower_max t (m - 1)
         | Some (Some _) \<Rightarrow> Some m)
      else Some m)"
  by pat_completeness auto
termination by (relation "measure (\<lambda>(t, m). nat (m + 1))") auto

declare lower_max.simps [simp del]

definition clear_fd_slot :: "htable \<Rightarrow> int \<Rightarrow> htable option" where
  "clear_fd_slot self fd =
     do { t \<leftarrow> table self;
          t \<leftarrow> iarr_set t fd None;
          let self = self\<lparr>table := Some t\<rparr>;
          if fd = max_fd_num self then
            do { m \<leftarrow> lower_max t (max_fd_num self); Some (self\<lparr>max_fd_num := m\<rparr>) }
          else Some self }"

text \<open>The check that opens most calls: the descriptor names a handler.\<close>

definition fd_lookup :: "htable \<Rightarrow> int \<Rightarrow> hnd option option" where
  "fd_lookup self fd =
     (if fd \<ge> 0 \<and> fd \<le> max_fd_num self then
        (case table self of None \<Rightarrow> None | Some t \<Rightarrow> iarr_get t fd)
      else Some None)"

definition HandlerTable_AdoptHandler ::
  "(int \<Rightarrow> bool) \<Rightarrow> htable \<Rightarrow> hnd \<Rightarrow> (errno \<times> int \<times> htable) option" where
  "HandlerTable_AdoptHandler alloc self hnd =
     do { (err, new_fd, self) \<leftarrow> alloc_fd_slot alloc self 0;
          if err = EOK then
            do { t \<leftarrow> table self;
                 t \<leftarrow> iarr_set t new_fd (Some hnd);
                 Some (err, new_fd, self\<lparr>table := Some t\<rparr>) }
          else Some (err, -1, self) }"

text \<open>Of the result handler, \<open>None\<close> says that the call has not written its out parameter.\<close>

definition HandlerTable_CopyHandler :: "htable \<Rightarrow> objs \<Rightarrow> int \<Rightarrow> (errno \<times> hnd option \<times> objs) option" where
  "HandlerTable_CopyHandler self os fd =
     do { r \<leftarrow> fd_lookup self fd;
          Some (case r of
                  Some h \<Rightarrow> (EOK, Some h, Object_Retain os h)
                | None \<Rightarrow> (EBADF, None, os)) }"

definition HandlerTable_DupHandler ::
  "(int \<Rightarrow> bool) \<Rightarrow> htable \<Rightarrow> objs \<Rightarrow> int \<Rightarrow> int \<Rightarrow> (errno \<times> int \<times> htable \<times> objs) option" where
  "HandlerTable_DupHandler alloc self os fd min_fd =
     do { r \<leftarrow> fd_lookup self fd;
          case r of
            Some _ \<Rightarrow>
              do { (err, new_fd, self) \<leftarrow> alloc_fd_slot alloc self min_fd;
                   if err = EOK then
                     do { t \<leftarrow> table self;
                          h \<leftarrow> iarr_get t fd;
                          h \<leftarrow> h;
                          t \<leftarrow> iarr_set t new_fd (Some h);
                          Some (err, new_fd, self\<lparr>table := Some t\<rparr>, Object_Retain os h) }
                   else Some (err, -1, self, os) }
          | None \<Rightarrow> Some (EOK, -1, self, os) }"

text \<open>
  \<open>HandlerTable_DupHandlerTo\<close> works on two tables that may be one and the same, so it gets a store of
  tables and the names of the two.
\<close>

definition dup_store ::
  "(nat \<Rightarrow> htable) \<Rightarrow> objs \<Rightarrow> nat \<Rightarrow> int \<Rightarrow> nat \<Rightarrow> int \<Rightarrow> ((nat \<Rightarrow> htable) \<times> objs) option" where
  "dup_store tabs os self fd other target_fd =
     do { ts \<leftarrow> table (tabs self);
          h \<leftarrow> iarr_get ts fd;
          h \<leftarrow> h;
          t \<leftarrow> table (tabs other);
          t \<leftarrow> iarr_set t target_fd (Some h);
          Some (tabs(other := (tabs other)\<lparr>table := Some t, max_fd_num := max (max_fd_num (tabs other)) target_fd\<rparr>),
                Object_Retain os h) }"

definition HandlerTable_DupHandlerTo ::
  "(int \<Rightarrow> bool) \<Rightarrow> (nat \<Rightarrow> htable) \<Rightarrow> objs \<Rightarrow> nat \<Rightarrow> int \<Rightarrow> nat \<Rightarrow> int \<Rightarrow> (errno \<times> (nat \<Rightarrow> htable) \<times> objs) option" where
  "HandlerTable_DupHandlerTo alloc tabs os self fd other target_fd =
     do { r \<leftarrow> fd_lookup (tabs self) fd;
          if r = None then Some (EBADF, tabs, os)
          else if target_fd < 0 then Some (EBADF, tabs, os)
          else if target_fd \<le> max_fd_num (tabs other) then
            do { t \<leftarrow> table (tabs other);
                 hnd_to_close \<leftarrow> iarr_get t target_fd;
                 (tabs, os) \<leftarrow> dup_store tabs os self fd other target_fd;
                 Some (EOK, tabs, Object_Release os hnd_to_close) }
          else
            do { (err, o') \<leftarrow> ensure_fd_slot_exists alloc (tabs other) target_fd;
                 let tabs = tabs(other := o');
                 if err \<noteq> EOK then Some (err, tabs, os)
                 else do { (tabs, os) \<leftarrow> dup_store tabs os self fd other target_fd; Some (EOK, tabs, os) } } }"

definition HandlerTable_CloseHandler :: "htable \<Rightarrow> objs \<Rightarrow> int \<Rightarrow> (errno \<times> htable \<times> objs) option" where
  "HandlerTable_CloseHandler self os fd =
     do { r \<leftarrow> fd_lookup self fd;
          case r of
            Some h \<Rightarrow> do { self \<leftarrow> clear_fd_slot self fd; Some (EOK, self, Object_Release os (Some h)) }
          | None \<Rightarrow> Some (EBADF, self, os) }"

function close_all_loop :: "hnd option list \<Rightarrow> objs \<Rightarrow> int \<Rightarrow> int \<Rightarrow> objs option" where
  "close_all_loop t os i n =
     (if i < n then
        (case iarr_get t i of
           None \<Rightarrow> None
         | Some r \<Rightarrow> close_all_loop t (Object_Release os r) (i + 1) n)
      else Some os)"
  by pat_completeness auto
termination by (relation "measure (\<lambda>(t, os, i, n). nat (n - i))") auto

declare close_all_loop.simps [simp del]

definition HandlerTable_CloseAll :: "htable \<Rightarrow> objs \<Rightarrow> (htable \<times> objs) option" where
  "HandlerTable_CloseAll self os =
     do { os \<leftarrow> close_all_loop (case table self of None \<Rightarrow> [] | Some t \<Rightarrow> t) os 0 (max_fd_num self);
          Some (self\<lparr>table := None, table_size := 0, max_fd_num := -1\<rparr>, os) }"

definition HandlerTable_Deinit :: "htable \<Rightarrow> objs \<Rightarrow> (htable \<times> objs) option" where
  "HandlerTable_Deinit self os = HandlerTable_CloseAll self os"

definition O_PRSVEXEC :: u32 where "O_PRSVEXEC = 0x40"

function close_on_exec_loop :: "(hnd \<Rightarrow> u32) \<Rightarrow> hnd option list \<Rightarrow> objs \<Rightarrow> int \<Rightarrow> (hnd option list \<times> objs) option" where
  "close_on_exec_loop flags t os fd =
     (if fd \<ge> 0 then
        (case iarr_get t fd of
           None \<Rightarrow> None
         | Some (Some h) \<Rightarrow>
             if flags h AND O_PRSVEXEC = 0
             then close_on_exec_loop flags (t[nat fd := None]) (Object_Release os (Some h)) (fd - 1)
             else close_on_exec_loop flags t os (fd - 1)
         | Some None \<Rightarrow> close_on_exec_loop flags t os (fd - 1))
      else Some (t, os))"
  by pat_completeness auto
termination by (relation "measure (\<lambda>(flags, t, os, fd). nat (fd + 1))") auto

declare close_on_exec_loop.simps [simp del]

definition HandlerTable_CloseHandlersOnExec :: "(hnd \<Rightarrow> u32) \<Rightarrow> htable \<Rightarrow> objs \<Rightarrow> (htable \<times> objs) option" where
  "HandlerTable_CloseHandlersOnExec flags self os =
     (case table self of
        None \<Rightarrow> if max_fd_num self \<ge> 0 then None else Some (self, os)
      | Some t \<Rightarrow>
          do { (t, os) \<leftarrow> close_on_exec_loop flags t os (max_fd_num self);
               m \<leftarrow> lower_max t (max_fd_num self);
               Some (self\<lparr>table := Some t, max_fd_num := m\<rparr>, os) })"

subsection \<open>Flags and positions of a handler\<close>

definition O_ACCMASK :: u32 where "O_ACCMASK = 0x3"
definition O_MODMASK :: u32 where "O_MODMASK = 0x70"

definition FD_FOP_REPLACE :: int where "FD_FOP_REPLACE = 1"
definition FD_FOP_ADD :: int where "FD_FOP_ADD = 2"
definition FD_FOP_REMOVE :: int where "FD_FOP_REMOVE = 3"

definition Handler_SetFlags :: "u32 \<Rightarrow> int \<Rightarrow> u32 \<Rightarrow> errno \<times> u32" where
  "Handler_SetFlags cur op flags =
     (if flags AND (NOT O_MODMASK) \<noteq> 0 then (EINVAL, cur)
      else if op = FD_FOP_ADD then (EOK, cur OR flags)
      else if op = FD_FOP_REMOVE then (EOK, cur AND (NOT flags))
      else if op = FD_FOP_REPLACE then (EOK, flags)
      else (EINVAL, cur))"

definition SEEK_SET :: int where "SEEK_SET = 0"
definition SEEK_CUR :: int where "SEEK_CUR = 1"
definition SEEK_END :: int where "SEEK_END = 2"

definition do_seek :: "int \<Rightarrow> int \<Rightarrow> int \<Rightarrow> int \<Rightarrow> errno \<times> int" where
  "do_seek offset whence endPos pos =
     (if whence = SEEK_SET then
        if offset \<ge> 0 then (EOK, offset) else (EINVAL, pos)
      else if whence = SEEK_CUR \<or> whence = SEEK_END then
        (let refPos = (if whence = SEEK_END then endPos else pos) in
         if offset < 0 \<and> wrap64 (- offset) > refPos then (EINVAL, pos)
         else
           (let newOffset = wrap64 (refPos + offset) in
            if newOffset < 0 then (EOVERFLOW, pos) else (EOK, newOffset)))
      else (EINVAL, pos))"

subsection \<open>Descriptor system calls\<close>

text \<open>
  The calls that work on one handler copy it out of the table, run the handler's operation \<open>f\<close> on it and
  drop the copy again. \<open>f\<close> stands for the class specific operation; it may change the state \<open>'s\<close> of the
  handler's class but does not touch reference counts.
\<close>

definition with_handler :: "htable \<Rightarrow> objs \<Rightarrow> int \<Rightarrow> (hnd \<Rightarrow> 's \<Rightarrow> errno \<times> 's) \<Rightarrow> 's \<Rightarrow> (errno \<times> objs \<times> 's) option" where
  "with_handler self os fd f s =
     do { (err, h, os) \<leftarrow> HandlerTable_CopyHandler self os fd;
          if err = EOK then
            (case h of
               None \<Rightarrow> None
             | Some h \<Rightarrow> (let (err, s) = f h s in Some (err, Object_Release os (Some h), s)))
          else Some (err, os, s) }"

definition SSIZE_MAX :: u32 where "SSIZE_MAX = 0x7FFFFFFF"

definition SSizeByClampingSize :: "u32 \<Rightarrow> int" where
  "SSizeByClampingSize ub = sint (min ub SSIZE_MAX)"

definition sys_fd_read ::
  "htable \<Rightarrow> objs \<Rightarrow> int \<Rightarrow> u32 \<Rightarrow> (hnd \<Rightarrow> int \<Rightarrow> 's \<Rightarrow> errno \<times> 's) \<Rightarrow> 's \<Rightarrow> (errno \<times> objs \<times> 's) option" where
  "sys_fd_read self os fd nBytesToRead Handler_Read s =
     with_handler self os fd (\<lambda>h. Handler_Read h (SSizeByClampingSize nBytesToRead)) s"

definition sys_fd_write ::
  "htable \<Rightarrow> objs \<Rightarrow> int \<Rightarrow> u32 \<Rightarrow> (hnd \<Rightarrow> int \<Rightarrow> 's \<Rightarrow> errno \<times> 's) \<Rightarrow> 's \<Rightarrow> (errno \<times> objs \<times> 's) option" where
  "sys_fd_write self os fd nBytesToWrite Handler_Write s =
     with_handler self os fd (\<lambda>h. Handler_Write h (SSizeByClampingSize nBytesToWrite)) s"

definition sys_fd_seek ::
  "htable \<Rightarrow> objs \<Rightarrow> int \<Rightarrow> int \<Rightarrow> int \<Rightarrow> (hnd \<Rightarrow> int \<Rightarrow> int \<Rightarrow> 's \<Rightarrow> errno \<times> 's) \<Rightarrow> 's \<Rightarrow> (errno \<times> objs \<times> 's) option" where
  "sys_fd_seek self os fd offset whence Handler_Seek s =
     with_handler self os fd (\<lambda>h. Handler_Seek h offset whence) s"

definition sys_fd_type :: "htable \<Rightarrow> objs \<Rightarrow> int \<Rightarrow> (hnd \<Rightarrow> int) \<Rightarrow> int \<Rightarrow> (errno \<times> objs \<times> int) option" where
  "sys_fd_type self os fd Handler_GetType out = with_handler self os fd (\<lambda>h out. (EOK, Handler_GetType h)) out"

definition sys_fd_flags :: "htable \<Rightarrow> objs \<Rightarrow> int \<Rightarrow> (hnd \<Rightarrow> u32) \<Rightarrow> u32 \<Rightarrow> (errno \<times> objs \<times> u32) option" where
  "sys_fd_flags self os fd flags out = with_handler self os fd (\<lambda>h out. (EOK, flags h)) out"

definition sys_fd_setflags ::
  "htable \<Rightarrow> objs \<Rightarrow> int \<Rightarrow> int \<Rightarrow> u32 \<Rightarrow> (hnd \<Rightarrow> u32) \<Rightarrow> (errno \<times> objs \<times> (hnd \<Rightarrow> u32)) option" where
  "sys_fd_setflags self os fd op fl flags =
     with_handler self os fd (\<lambda>h flags. let (e, v) = Handler_SetFlags (flags h) op fl in (e, flags(h := v))) flags"

definition sys_fd_cntl ::
  "htable \<Rightarrow> objs \<Rightarrow> int \<Rightarrow> int \<Rightarrow> (hnd \<Rightarrow> int \<Rightarrow> 's \<Rightarrow> errno \<times> 's) \<Rightarrow> 's \<Rightarrow> (errno \<times> objs \<times> 's) option" where
  "sys_fd_cntl self os fd cmd Handler_Control s = with_handler self os fd (\<lambda>h. Handler_Control h cmd) s"

definition sys_fd_truncate ::
  "htable \<Rightarrow> objs \<Rightarrow> int \<Rightarrow> int \<Rightarrow> (hnd \<Rightarrow> int \<Rightarrow> 's \<Rightarrow> errno \<times> 's) \<Rightarrow> 's \<Rightarrow> (errno \<times> objs \<times> 's) option" where
  "sys_fd_truncate self os fd len Handler_Truncate s = with_handler self os fd (\<lambda>h. Handler_Truncate h len) s"

definition sys_fd_attr ::
  "htable \<Rightarrow> objs \<Rightarrow> int \<Rightarrow> (hnd \<Rightarrow> 's \<Rightarrow> errno \<times> 's) \<Rightarrow> 's \<Rightarrow> (errno \<times> objs \<times> 's) option" where
  "sys_fd_attr self os fd Handler_GetAttributes s = with_handler self os fd Handler_GetAttributes s"

definition sys_fd_close :: "htable \<Rightarrow> objs \<Rightarrow> int \<Rightarrow> (errno \<times> htable \<times> objs) option" where
  "sys_fd_close = HandlerTable_CloseHandler"

definition sys_fd_dup ::
  "(int \<Rightarrow> bool) \<Rightarrow> htable \<Rightarrow> objs \<Rightarrow> int \<Rightarrow> int \<Rightarrow> (errno \<times> int \<times> htable \<times> objs) option" where
  "sys_fd_dup = HandlerTable_DupHandler"

definition sys_fd_dup_to ::
  "(int \<Rightarrow> bool) \<Rightarrow> (nat \<Rightarrow> htable) \<Rightarrow> objs \<Rightarrow> nat \<Rightarrow> int \<Rightarrow> int \<Rightarrow> (errno \<times> (nat \<Rightarrow> htable) \<times> objs) option" where
  "sys_fd_dup_to alloc tabs os pp fd target_fd = HandlerTable_DupHandlerTo alloc tabs os pp fd pp target_fd"

subsection \<open>The invariant of a table and the map it represents\<close>

definition slots :: "htable \<Rightarrow> hnd option list" where
  "slots t = (case table t of None \<Rightarrow> [] | Some l \<Rightarrow> l)"

definition fdmap :: "htable \<Rightarrow> int \<Rightarrow> hnd option" where
  "fdmap t fd = (if 0 \<le> fd \<and> fd < int (length (slots t)) then slots t ! nat fd else None)"

text \<open>The shape of a table, and the invariant: the highest descriptor in use is \<open>max_fd_num\<close>.\<close>

definition ht_shape :: "htable \<Rightarrow> bool" where
  "ht_shape t \<longleftrightarrow> (table t = None \<longrightarrow> table_size t = 0) \<and> int (length (slots t)) = table_size t
     \<and> table_size t mod 128 = 0 \<and> table_size t \<le> 2176
     \<and> - 1 \<le> max_fd_num t \<and> max_fd_num t < table_size t \<and> (\<forall>fd. max_fd_num t < fd \<longrightarrow> fdmap t fd = None)"

definition ht_ok :: "htable \<Rightarrow> bool" where
  "ht_ok t \<longleftrightarrow> ht_shape t \<and> (0 \<le> max_fd_num t \<longrightarrow> fdmap t (max_fd_num t) \<noteq> None)"

lemma ht_shapeD:
  assumes "ht_shape t"
  shows "int (length (slots t)) = table_size t" "table_size t mod 128 = 0" "table_size t \<le> 2176"
    "- 1 \<le> max_fd_num t" "max_fd_num t < table_size t" "max_fd_num t < fd \<Longrightarrow> fdmap t fd = None"
    "table t = None \<Longrightarrow> table_size t = 0"
  using assms unfolding ht_shape_def by blast+

lemma fdmap_outside: "fd < 0 \<or> int (length (slots t)) \<le> fd \<Longrightarrow> fdmap t fd = None"
  by (auto simp: fdmap_def)

lemma fdmap_nth: "i < length (slots t) \<Longrightarrow> fdmap t (int i) = slots t ! i"
  by (simp add: fdmap_def)

lemma ht_ok_init: "ht_ok HandlerTable_Init" "fdmap HandlerTable_Init = (\<lambda>_. None)"
  by (auto simp: ht_ok_def ht_shape_def HandlerTable_Init_def slots_def fdmap_def fun_eq_iff)

lemma table_Some: "ht_shape t \<Longrightarrow> 0 < table_size t \<Longrightarrow> table t = Some (slots t)"
  by (auto simp: ht_shape_def slots_def split: option.splits)

lemma fdmap_get:
  assumes "ht_shape t" "0 \<le> fd" "fd < table_size t"
  shows "table t = Some (slots t)" "iarr_get (slots t) fd = Some (fdmap t fd)"
proof -
  show "table t = Some (slots t)"
    using assms by (intro table_Some) auto
  show "iarr_get (slots t) fd = Some (fdmap t fd)"
    using assms(2,3) ht_shapeD(1) [OF assms(1)] by (simp add: fdmap_def)
qed

lemma fdmap_Some:
  assumes "ht_shape t" "fdmap t fd = Some h"
  shows "0 \<le> fd" "fd \<le> max_fd_num t" "fd < table_size t"
proof -
  show "0 \<le> fd" "fd < table_size t"
    using assms(2) ht_shapeD(1) [OF assms(1)] by (auto simp: fdmap_def split: if_splits)
  show "fd \<le> max_fd_num t"
    using assms(2) ht_shapeD(6) [OF assms(1), of fd] by force
qed

lemma fd_lookup_fdmap:
  assumes "ht_shape t"
  shows "fd_lookup t fd = Some (fdmap t fd)"
proof (cases "0 \<le> fd \<and> fd \<le> max_fd_num t")
  case True
  then have "fd < table_size t" using ht_shapeD(5) [OF assms] by linarith
  with True fdmap_get [OF assms, of fd] show ?thesis by (simp add: fd_lookup_def)
next
  case False
  then have "fdmap t fd = None"
    using ht_shapeD(6) [OF assms, of fd] fdmap_outside [of fd t] by (meson not_le)
  with False show ?thesis by (auto simp: fd_lookup_def)
qed

text \<open>Growing a table appends free slots.\<close>

lemma free_tail:
  assumes "ht_shape t" "nat (max_fd_num t + 1) \<le> n" "length (slots t) \<le> n"
  shows "take (nat (max_fd_num t + 1)) (slots t) @ replicate (n - nat (max_fd_num t + 1)) None
       = slots t @ replicate (n - length (slots t)) None"
proof (rule nth_equalityI)
  define m where "m = nat (max_fd_num t + 1)"
  note sh = ht_shapeD [OF assms(1)]
  have le: "m \<le> length (slots t)" using sh(1,5) unfolding m_def by linarith
  have free: "slots t ! i = None" if "i < length (slots t)" "\<not> i < m" for i
    using that sh(6) [of "int i"] fdmap_nth [of i t] unfolding m_def by simp
  show "length (take (nat (max_fd_num t + 1)) (slots t) @ replicate (n - nat (max_fd_num t + 1)) None)
      = length (slots t @ replicate (n - length (slots t)) None)"
    using le assms(2,3) unfolding m_def [symmetric] by simp
  fix i assume "i < length (take (nat (max_fd_num t + 1)) (slots t) @ replicate (n - nat (max_fd_num t + 1)) None)"
  then show "(take (nat (max_fd_num t + 1)) (slots t) @ replicate (n - nat (max_fd_num t + 1)) None) ! i
      = (slots t @ replicate (n - length (slots t)) None) ! i"
    using le assms(2,3) free [of i] unfolding m_def [symmetric] by (simp add: nth_append)
qed

lemma fdmap_append_free: "slots t' = slots t @ replicate k None \<Longrightarrow> fdmap t' = fdmap t"
  by (auto simp: fdmap_def fun_eq_iff nth_append nat_less_iff)

lemma ensure_fd_slot_grow:
  assumes "ht_ok t" "table_size t \<le> slot" "slot \<le> 2048" "0 \<le> slot"
    and n: "(drop_bit FDTAB_PAGE_SHIFT slot + 1) * FDTAB_PAGE_SIZE = n" and "alloc (n * 4)"
  shows "ensure_fd_slot_exists alloc t slot
      = Some (EOK, t\<lparr>table := Some (slots t @ replicate (nat n - length (slots t)) None), table_size := n\<rparr>)"
    "slot < n" "n \<le> 2176" "n mod 128 = 0"
proof -
  have "n = (slot div 128 + 1) * 128"
    using n by (simp add: FDTAB_PAGE_SHIFT_def FDTAB_PAGE_SIZE_def drop_bit_eq_div)
  then show nn: "slot < n" "n \<le> 2176" "n mod 128 = 0"
    using assms(3) by (simp_all add: algebra_simps)
  have sh: "ht_shape t" using assms(1) by (simp add: ht_ok_def)
  note D = ht_shapeD [OF sh]
  have le: "nat (max_fd_num t + 1) \<le> nat n" "length (slots t) \<le> nat n" "nat (max_fd_num t + 1) \<le> length (slots t)"
    using D(1,5) nn(1) assms(2) by linarith+
  have copy: "(case table t of Some l \<Rightarrow> arr_copy (replicate (nat n) None) l (nat (max_fd_num t + 1))
        | None \<Rightarrow> Some (replicate (nat n) None))
      = Some (slots t @ replicate (nat n - length (slots t)) None)"
    using le free_tail [OF sh le(1,2)] by (cases "table t") (auto simp: slots_def)
  show "ensure_fd_slot_exists alloc t slot
      = Some (EOK, t\<lparr>table := Some (slots t @ replicate (nat n - length (slots t)) None), table_size := n\<rparr>)"
    using copy assms(2-4,6) nn(1) unfolding ensure_fd_slot_exists_def FDNO_MAX_def Let_def n by simp
qed

lemma ensure_fd_slot_stay:
  "slot < table_size t \<Longrightarrow> ensure_fd_slot_exists alloc t slot = Some (EOK, t)"
  "table_size t \<le> slot \<Longrightarrow> 2048 < slot \<Longrightarrow> ensure_fd_slot_exists alloc t slot = Some (EMFILE, t)"
  "table_size t \<le> slot \<Longrightarrow> 0 \<le> slot \<Longrightarrow> slot \<le> 2048 \<Longrightarrow>
     \<not> alloc ((drop_bit FDTAB_PAGE_SHIFT slot + 1) * FDTAB_PAGE_SIZE * 4) \<Longrightarrow>
     ensure_fd_slot_exists alloc t slot = Some (ENOMEM, t)"
proof -
  have "\<not> drop_bit FDTAB_PAGE_SHIFT slot + 1 < 0" if "0 \<le> slot"
    using that pos_imp_zdiv_nonneg_iff [of 128 slot] by (simp add: FDTAB_PAGE_SHIFT_def drop_bit_eq_div)
  then show "slot < table_size t \<Longrightarrow> ensure_fd_slot_exists alloc t slot = Some (EOK, t)"
    "table_size t \<le> slot \<Longrightarrow> 2048 < slot \<Longrightarrow> ensure_fd_slot_exists alloc t slot = Some (EMFILE, t)"
    "table_size t \<le> slot \<Longrightarrow> 0 \<le> slot \<Longrightarrow> slot \<le> 2048 \<Longrightarrow>
     \<not> alloc ((drop_bit FDTAB_PAGE_SHIFT slot + 1) * FDTAB_PAGE_SIZE * 4) \<Longrightarrow>
     ensure_fd_slot_exists alloc t slot = Some (ENOMEM, t)"
    by (simp_all add: ensure_fd_slot_exists_def FDNO_MAX_def FDTAB_PAGE_SIZE_def Let_def)
qed

definition grown :: "htable \<Rightarrow> htable \<Rightarrow> bool" where
  "grown t t' \<longleftrightarrow> (\<exists>k. slots t' = slots t @ replicate k None) \<and> max_fd_num t' = max_fd_num t \<and> ht_ok t'"

lemma ensure_fd_slot_exists_ok:
  assumes "ht_ok t" "0 \<le> slot"
  obtains e t' where "ensure_fd_slot_exists alloc t slot = Some (e, t')" "grown t t'"
    "e = EOK \<Longrightarrow> slot < table_size t'"
    "e \<noteq> EOK \<Longrightarrow> t' = t" "e = EOK \<or> e = EMFILE \<and> 2048 < slot \<or> e = ENOMEM"
proof -
  have refl: "grown t t" using assms(1) by (auto simp: grown_def intro: exI [of _ 0])
  define n where "n = (drop_bit FDTAB_PAGE_SHIFT slot + 1) * FDTAB_PAGE_SIZE"
  consider "slot < table_size t" | "table_size t \<le> slot" "2048 < slot"
    | "table_size t \<le> slot" "slot \<le> 2048" "\<not> alloc (n * 4)"
    | (grow) "table_size t \<le> slot" "slot \<le> 2048" "alloc (n * 4)" by linarith
  then show ?thesis
  proof cases
    case grow
    note g = ensure_fd_slot_grow [of t slot n alloc, OF assms(1) grow(1,2) assms(2) n_def [symmetric] grow(3)]
    let ?t' = "t\<lparr>table := Some (slots t @ replicate (nat n - length (slots t)) None), table_size := n\<rparr>"
    have sl: "slots ?t' = slots t @ replicate (nat n - length (slots t)) None"
      by (simp add: slots_def [of ?t'])
    have fm: "fdmap ?t' = fdmap t" using sl by (rule fdmap_append_free)
    have "ht_ok ?t'"
      using assms(1) g(2-4) grow(1) unfolding ht_ok_def ht_shape_def fm by (auto simp: sl)
    then have gr: "grown t ?t'" using sl by (auto simp: grown_def)
    show ?thesis by (rule that [OF g(1) gr]) (use g(2) in simp_all)
  qed (use refl assms(2) ensure_fd_slot_stay in \<open>auto intro: that simp: n_def\<close>)
qed

lemma grown_fdmap: "grown t t' \<Longrightarrow> fdmap t' = fdmap t"
  by (auto simp: grown_def intro: fdmap_append_free)

lemma grown_trans: "grown t t' \<Longrightarrow> grown t' t'' \<Longrightarrow> grown t t''"
  by (auto simp: grown_def replicate_add [symmetric])

text \<open>The scan finds the lowest free slot of the table, if there is one.\<close>

lemma scan_fd_slot_ok:
  assumes "ht_shape t" "0 \<le> i"
  shows "(\<exists>j. scan_fd_slot t i = Some (Some j) \<and> i \<le> j \<and> j < table_size t \<and> fdmap t j = None
            \<and> (\<forall>k. i \<le> k \<and> k < j \<longrightarrow> fdmap t k \<noteq> None))
       \<or> scan_fd_slot t i = Some None \<and> (\<forall>k. i \<le> k \<and> k < table_size t \<longrightarrow> fdmap t k \<noteq> None)"
  using assms
proof (induction "nat (table_size t - i)" arbitrary: i)
  case 0
  then show ?case by (subst (2) scan_fd_slot.simps) auto
next
  case (Suc d)
  then have i: "i < table_size t" by linarith
  note get = fdmap_get [OF Suc.prems i]
  show ?case
  proof (cases "fdmap t i")
    case None
    then have "scan_fd_slot t i = Some (Some i)"
      using i get by (subst scan_fd_slot.simps) simp
    with None i show ?thesis by auto
  next
    case (Some h)
    then have step: "scan_fd_slot t i = scan_fd_slot t (i + 1)"
      using i get by (subst scan_fd_slot.simps) simp
    have occ: "fdmap t k \<noteq> None" if "i \<le> k" "i + 1 \<le> k \<Longrightarrow> fdmap t k \<noteq> None" for k
      using that Some by (cases "k = i") auto
    have "d = nat (table_size t - (i + 1))" "0 \<le> i + 1"
      using Suc.hyps(2) Suc.prems by linarith+
    from Suc.hyps(1) [OF this(1) Suc.prems(1) this(2)] show ?thesis
    proof (elim disjE exE conjE)
      fix j assume j: "scan_fd_slot t (i + 1) = Some (Some j)" "i + 1 \<le> j" "j < table_size t" "fdmap t j = None"
        "\<forall>k. i + 1 \<le> k \<and> k < j \<longrightarrow> fdmap t k \<noteq> None"
      have "\<forall>k. i \<le> k \<and> k < j \<longrightarrow> fdmap t k \<noteq> None" using occ j(5) by blast
      with j step show ?thesis by (intro disjI1 exI [of _ j]) simp
    next
      assume n: "scan_fd_slot t (i + 1) = Some None" "\<forall>k. i + 1 \<le> k \<and> k < table_size t \<longrightarrow> fdmap t k \<noteq> None"
      have "\<forall>k. i \<le> k \<and> k < table_size t \<longrightarrow> fdmap t k \<noteq> None" using occ n(2) by blast
      with n step show ?thesis by simp
    qed
  qed
qed

text \<open>\<open>alloc_fd_slot\<close> returns the lowest free descriptor that is not below \<open>min_fd\<close>, growing the table if it has to.\<close>

definition lowest_free :: "htable \<Rightarrow> int \<Rightarrow> int \<Rightarrow> bool" where
  "lowest_free t lo fd \<longleftrightarrow> lo \<le> fd \<and> fdmap t fd = None \<and> (\<forall>k. lo \<le> k \<and> k < fd \<longrightarrow> fdmap t k \<noteq> None)"

definition alloc_post :: "htable \<Rightarrow> int \<Rightarrow> errno \<Rightarrow> int \<Rightarrow> htable \<Rightarrow> bool" where
  "alloc_post t lo e fd t' \<longleftrightarrow>
     (if e = EOK then \<exists>t1. grown t t1 \<and> t' = t1\<lparr>max_fd_num := max (max_fd_num t) fd\<rparr>
                         \<and> fd < table_size t1 \<and> lowest_free t lo fd
      else (e = EMFILE \<or> e = ENOMEM) \<and> fd = -1 \<and> grown t t')"

lemma alloc_post_grown:
  assumes "grown t t'" "alloc_post t' lo e fd t2"
  shows "alloc_post t lo e fd t2"
  using assms grown_fdmap [OF assms(1)] grown_trans [OF assms(1)]
  unfolding alloc_post_def lowest_free_def by (simp add: grown_def split: if_splits) blast+

lemma alloc_fd_slot_ok:
  assumes "ht_ok t" "0 \<le> lo"
  shows "\<exists>e fd t'. alloc_fd_slot alloc t lo = Some (e, fd, t') \<and> alloc_post t lo e fd t'"
  using assms(1)
proof (induction "nat (2177 - table_size t)" arbitrary: t rule: less_induct)
  case less
  have sh: "ht_shape t" using less.prems by (simp add: ht_ok_def)
  have refl: "grown t t" using less.prems by (auto simp: grown_def intro: exI [of _ 0])
  from scan_fd_slot_ok [OF sh assms(2)] show ?case
  proof (elim disjE exE conjE)
    fix j assume j: "scan_fd_slot t lo = Some (Some j)" "lo \<le> j" "j < table_size t" "fdmap t j = None"
      "\<forall>k. lo \<le> k \<and> k < j \<longrightarrow> fdmap t k \<noteq> None"
    then have "alloc_fd_slot alloc t lo = Some (EOK, j, t\<lparr>max_fd_num := max (max_fd_num t) j\<rparr>)"
      by (subst alloc_fd_slot.simps) simp
    moreover have "alloc_post t lo EOK j (t\<lparr>max_fd_num := max (max_fd_num t) j\<rparr>)"
      using j refl unfolding alloc_post_def lowest_free_def by auto
    ultimately show ?thesis by blast
  next
    assume full: "scan_fd_slot t lo = Some None"
    have "0 \<le> table_size t" using ht_shapeD(4,5) [OF sh] by linarith
    then obtain e t' where e: "ensure_fd_slot_exists alloc t (table_size t) = Some (e, t')" "grown t t'"
        "e = EOK \<Longrightarrow> table_size t < table_size t'" "e = EOK \<or> e = EMFILE \<or> e = ENOMEM"
      using ensure_fd_slot_exists_ok [OF less.prems, of "table_size t" alloc] by metis
    have step: "alloc_fd_slot alloc t lo = (if e = EOK then alloc_fd_slot alloc t' lo else Some (e, -1, t'))"
      using full e(1) by (subst alloc_fd_slot.simps) simp
    show ?thesis
    proof (cases "e = EOK")
      case False
      then show ?thesis using step e(2,4) by (simp add: alloc_post_def)
    next
      case True
      have ok': "ht_ok t'" using e(2) by (simp add: grown_def)
      then have "table_size t' \<le> 2176" by (simp add: ht_ok_def ht_shape_def)
      then have "nat (2177 - table_size t') < nat (2177 - table_size t)" using e(3) [OF True] by linarith
      from less.hyps [OF this ok'] show ?thesis
        using step True alloc_post_grown [OF e(2)] by auto
    qed
  qed
qed

subsection \<open>Storing and clearing slots\<close>

definition slot_count :: "htable \<Rightarrow> hnd \<Rightarrow> int" where
  "slot_count t h = int (count_list (slots t) (Some h))"

lemma count_list_update:
  "i < length xs \<Longrightarrow>
   int (count_list (xs[i := y]) z) = int (count_list xs z) - (if xs ! i = z then 1 else 0) + (if y = z then 1 else 0)"
proof (induction xs arbitrary: i)
  case (Cons x xs)
  show ?case
  proof (cases i)
    case (Suc j)
    then show ?thesis using Cons.IH [of j] Cons.prems by auto
  qed auto
qed simp

lemma count_list_replicate_None [simp]: "count_list (replicate k None) (Some h) = 0"
  by (induction k) auto

lemma grown_slot_count: "grown t t' \<Longrightarrow> slot_count t' = slot_count t"
  by (auto simp: grown_def slot_count_def fun_eq_iff)

definition store_slot :: "htable \<Rightarrow> int \<Rightarrow> hnd option \<Rightarrow> int \<Rightarrow> htable" where
  "store_slot t fd v m = t\<lparr>table := Some ((slots t)[nat fd := v]), max_fd_num := m\<rparr>"

lemma store_slot_sel:
  assumes "ht_shape t" "0 \<le> fd" "fd < table_size t"
  shows "slots (store_slot t fd v m) = (slots t)[nat fd := v]"
    "fdmap (store_slot t fd v m) = (fdmap t)(fd := v)"
    "slot_count (store_slot t fd v m) h
       = slot_count t h - (if fdmap t fd = Some h then 1 else 0) + (if v = Some h then 1 else 0)"
proof -
  have len: "nat fd < length (slots t)" using assms(2,3) ht_shapeD(1) [OF assms(1)] by linarith
  show sl: "slots (store_slot t fd v m) = (slots t)[nat fd := v]"
    by (simp add: store_slot_def slots_def)
  show "fdmap (store_slot t fd v m) = (fdmap t)(fd := v)"
    using assms(2) len by (auto simp: fdmap_def sl fun_eq_iff nth_list_update eq_nat_nat_iff)
  have "fdmap t fd = slots t ! nat fd" using assms(2) len by (simp add: fdmap_def nat_less_iff)
  then show "slot_count (store_slot t fd v m) h
       = slot_count t h - (if fdmap t fd = Some h then 1 else 0) + (if v = Some h then 1 else 0)"
    using count_list_update [OF len, of v "Some h"] by (simp add: slot_count_def sl)
qed

lemma store_slot_ok:
  assumes "ht_ok t" "0 \<le> fd" "fd < table_size t"
  shows "ht_ok (store_slot t fd (Some h) (max (max_fd_num t) fd))"
proof -
  have sh: "ht_shape t" using assms(1) by (simp add: ht_ok_def)
  note st = store_slot_sel [OF sh assms(2,3), where v = "Some h"] and D = ht_shapeD [OF sh]
  have "ht_shape (store_slot t fd (Some h) (max (max_fd_num t) fd))"
    unfolding ht_shape_def st using D assms(2,3) by (auto simp: store_slot_def)
  moreover have "fdmap t (max_fd_num t) \<noteq> None" if "0 \<le> max_fd_num t"
    using assms(1) that by (simp add: ht_ok_def)
  ultimately show ?thesis
    using D assms(2) unfolding ht_ok_def st by (auto simp: store_slot_def max_def)
qed

lemma lower_max_ok:
  assumes "m < int (length l)" "- 1 \<le> m"
  shows "\<exists>m'. lower_max l m = Some m' \<and> - 1 \<le> m' \<and> m' \<le> m
     \<and> (\<forall>i. m' < i \<and> i \<le> m \<longrightarrow> l ! nat i = None) \<and> (0 \<le> m' \<longrightarrow> l ! nat m' \<noteq> None)"
  using assms
proof (induction "nat (m + 1)" arbitrary: m)
  case 0
  then show ?case by (subst lower_max.simps) (auto intro!: exI [of _ m])
next
  case (Suc d)
  then have m: "0 \<le> m" by linarith
  show ?case
  proof (cases "l ! nat m")
    case None
    then have step: "lower_max l m = lower_max l (m - 1)"
      using m Suc.prems by (subst lower_max.simps) simp
    have "d = nat (m - 1 + 1)" "m - 1 < int (length l)" "- 1 \<le> m - 1"
      using Suc.hyps(2) Suc.prems m by linarith+
    from Suc.hyps(1) [OF this] obtain m' where m': "lower_max l (m - 1) = Some m'" "- 1 \<le> m'" "m' \<le> m - 1"
      "\<forall>i. m' < i \<and> i \<le> m - 1 \<longrightarrow> l ! nat i = None" "0 \<le> m' \<longrightarrow> l ! nat m' \<noteq> None" by blast
    have "\<forall>i. m' < i \<and> i \<le> m \<longrightarrow> l ! nat i = None"
      using m'(4) None by (metis zle_diff1_eq order_less_le)
    with m' step show ?thesis by (intro exI [of _ m']) simp
  next
    case (Some h)
    then have "lower_max l m = Some m"
      using m Suc.prems by (subst lower_max.simps) simp
    with Some m show ?thesis by (intro exI [of _ m]) auto
  qed
qed

text \<open>Lowering \<open>max_fd_num\<close> over a table of the right shape establishes the invariant.\<close>

lemma lower_max_establishes:
  assumes "ht_shape t" "lower_max (slots t) (max_fd_num t) = Some m"
  shows "ht_ok (t\<lparr>max_fd_num := m\<rparr>)" "fdmap (t\<lparr>max_fd_num := m\<rparr>) = fdmap t"
proof -
  note D = ht_shapeD [OF assms(1)]
  have sl: "slots (t\<lparr>max_fd_num := m\<rparr>) = slots t" by (simp add: slots_def)
  show fm: "fdmap (t\<lparr>max_fd_num := m\<rparr>) = fdmap t" by (simp add: fdmap_def sl fun_eq_iff)
  have m: "- 1 \<le> m" "m \<le> max_fd_num t" "\<forall>i. m < i \<and> i \<le> max_fd_num t \<longrightarrow> slots t ! nat i = None"
      "0 \<le> m \<longrightarrow> slots t ! nat m \<noteq> None"
    using lower_max_ok [of "max_fd_num t" "slots t"] assms(2) D(1,4,5) by auto
  have "fdmap t fd = None" if "m < fd" for fd
  proof (cases "fd \<le> max_fd_num t")
    case True
    then show ?thesis using that m(1,3) by (simp add: fdmap_def)
  next
    case False
    then show ?thesis by (intro D(6)) simp
  qed
  moreover have "fdmap t m \<noteq> None" if "0 \<le> m"
    using that m(2,4) D(1,5) by (simp add: fdmap_def)
  ultimately show "ht_ok (t\<lparr>max_fd_num := m\<rparr>)"
    unfolding ht_ok_def ht_shape_def fm sl using D m(1,2) by auto
qed

lemma clear_fd_slot_ok:
  assumes "ht_ok t" "fdmap t fd = Some h"
  shows "\<exists>t'. clear_fd_slot t fd = Some t' \<and> ht_ok t' \<and> fdmap t' = (fdmap t)(fd := None)
     \<and> (\<forall>g. slot_count t' g = slot_count t g - (if g = h then 1 else 0))"
proof -
  have sh: "ht_shape t" using assms(1) by (simp add: ht_ok_def)
  note fd = fdmap_Some [OF sh assms(2)] and D = ht_shapeD [OF sh]
  let ?t = "store_slot t fd None (max_fd_num t)"
  note st = store_slot_sel [OF sh fd(1,3), where v = None and m = "max_fd_num t"]
  have sh': "ht_shape ?t"
    unfolding ht_shape_def st using D fd by (auto simp: store_slot_def)
  have tab: "table t = Some (slots t)" "iarr_set (slots t) fd None = Some ((slots t)[nat fd := None])"
    using table_Some [OF sh] fd D(1) by auto
  show ?thesis
  proof (cases "fd = max_fd_num t")
    case True
    have "- 1 \<le> max_fd_num t" "max_fd_num t < int (length (slots ?t))"
      using D by (auto simp: st)
    then obtain m where m: "lower_max (slots ?t) (max_fd_num t) = Some m"
      using lower_max_ok by blast
    have "clear_fd_slot t fd = Some (?t\<lparr>max_fd_num := m\<rparr>)"
      using True m tab unfolding st(1) by (simp add: clear_fd_slot_def store_slot_def)
    moreover have "max_fd_num ?t = max_fd_num t" by (simp add: store_slot_def)
    then have "ht_ok (?t\<lparr>max_fd_num := m\<rparr>)" "fdmap (?t\<lparr>max_fd_num := m\<rparr>) = (fdmap t)(fd := None)"
      using lower_max_establishes [OF sh', of m] m by (simp_all add: st(2))
    moreover have "slot_count (?t\<lparr>max_fd_num := m\<rparr>) = slot_count ?t"
      by (simp add: slot_count_def slots_def fun_eq_iff)
    ultimately show ?thesis using st(3) assms(2) by auto
  next
    case False
    have "clear_fd_slot t fd = Some ?t"
      using False tab by (simp add: clear_fd_slot_def store_slot_def)
    moreover have "ht_ok ?t"
      using sh' assms(1) False by (auto simp: ht_ok_def st) (auto simp: store_slot_def)
    ultimately show ?thesis using st assms(2) by auto
  qed
qed

subsection \<open>The calls on the map\<close>

lemma alloc_then_store:
  assumes "ht_ok t" "0 \<le> lo" "alloc_post t lo EOK fd t'"
  shows "table t' = Some (slots t')" "iarr_set (slots t') fd v = Some ((slots t')[nat fd := v])"
    "\<And>g. 0 \<le> g \<Longrightarrow> g < table_size t' \<Longrightarrow> iarr_get (slots t') g = Some (fdmap t g)"
    "table_size t \<le> table_size t'"
    "ht_ok (t'\<lparr>table := Some ((slots t')[nat fd := Some h])\<rparr>)"
    "fdmap (t'\<lparr>table := Some ((slots t')[nat fd := Some h])\<rparr>) = (fdmap t)(fd \<mapsto> h)"
    "slot_count (t'\<lparr>table := Some ((slots t')[nat fd := Some h])\<rparr>) = (slot_count t)(h := slot_count t h + 1)"
proof -
  obtain t1 where t1: "grown t t1" "t' = t1\<lparr>max_fd_num := max (max_fd_num t) fd\<rparr>" "fd < table_size t1"
      "lowest_free t lo fd"
    using assms(3) by (auto simp: alloc_post_def)
  have ok1: "ht_ok t1" and m1: "max_fd_num t1 = max_fd_num t" using t1(1) by (auto simp: grown_def)
  then have sh1: "ht_shape t1" by (simp add: ht_ok_def)
  have fd: "0 \<le> fd" using t1(4) assms(2) by (simp add: lowest_free_def)
  have sl: "slots t' = slots t1" "table_size t' = table_size t1" by (simp_all add: t1(2) slots_def)
  have len: "int (length (slots t1)) = table_size t1" using ht_shapeD(1) [OF sh1] .
  have "table t1 = Some (slots t1)" using fd t1(3) by (intro table_Some [OF sh1]) simp
  then show "table t' = Some (slots t')" by (simp add: t1(2) sl(1) [unfolded t1(2)])
  show "iarr_set (slots t') fd v = Some ((slots t')[nat fd := v])"
    using fd t1(3) len by (simp add: sl)
  show "iarr_get (slots t') g = Some (fdmap t g)" if "0 \<le> g" "g < table_size t'" for g
    using fdmap_get(2) [OF sh1, of g] that grown_fdmap [OF t1(1)] by (simp add: sl)
  obtain k where "slots t1 = slots t @ replicate k None" using t1(1) by (auto simp: grown_def)
  then show "table_size t \<le> table_size t'"
    using len ht_shapeD(1) [of t] assms(1) by (simp add: sl ht_ok_def)
  have st: "t'\<lparr>table := Some ((slots t')[nat fd := Some h])\<rparr> = store_slot t1 fd (Some h) (max (max_fd_num t1) fd)"
    by (simp add: store_slot_def t1(2) sl(1) [unfolded t1(2)] m1)
  show "ht_ok (t'\<lparr>table := Some ((slots t')[nat fd := Some h])\<rparr>)"
    unfolding st by (rule store_slot_ok [OF ok1 fd t1(3)])
  show "fdmap (t'\<lparr>table := Some ((slots t')[nat fd := Some h])\<rparr>) = (fdmap t)(fd \<mapsto> h)"
    unfolding st store_slot_sel(2) [OF sh1 fd t1(3)] grown_fdmap [OF t1(1)] ..
  have "fdmap t1 fd = None" using t1(4) grown_fdmap [OF t1(1)] by (simp add: lowest_free_def)
  then show "slot_count (t'\<lparr>table := Some ((slots t')[nat fd := Some h])\<rparr>) = (slot_count t)(h := slot_count t h + 1)"
    unfolding st fun_eq_iff store_slot_sel(3) [OF sh1 fd t1(3)] grown_slot_count [OF t1(1)] by simp
qed

lemma AdoptHandler_ok:
  assumes "ht_ok t"
  shows "\<exists>e fd t'. HandlerTable_AdoptHandler alloc t h = Some (e, fd, t') \<and> ht_ok t'
    \<and> (if e = EOK then lowest_free t 0 fd \<and> fdmap t' = (fdmap t)(fd \<mapsto> h)
                       \<and> slot_count t' = (slot_count t)(h := slot_count t h + 1)
       else (e = EMFILE \<or> e = ENOMEM) \<and> fd = -1 \<and> fdmap t' = fdmap t \<and> slot_count t' = slot_count t)"
proof -
  obtain e fd t' where r: "alloc_fd_slot alloc t 0 = Some (e, fd, t')" "alloc_post t 0 e fd t'"
    using alloc_fd_slot_ok [OF assms, of 0 alloc] by auto
  show ?thesis
  proof (cases "e = EOK")
    case True
    note st = alloc_then_store [OF assms _ r(2) [unfolded True], simplified]
    have "lowest_free t 0 fd" using r(2) True by (auto simp: alloc_post_def)
    then show ?thesis
      using r(1) True st by (simp add: HandlerTable_AdoptHandler_def)
  next
    case False
    then show ?thesis
      using r grown_fdmap grown_slot_count by (auto simp: HandlerTable_AdoptHandler_def alloc_post_def grown_def)
  qed
qed

lemma CopyHandler_ok:
  assumes "ht_ok t"
  shows "HandlerTable_CopyHandler t os fd
    = Some (case fdmap t fd of Some h \<Rightarrow> (EOK, Some h, Object_Retain os h) | None \<Rightarrow> (EBADF, None, os))"
  using assms by (simp add: HandlerTable_CopyHandler_def ht_ok_def fd_lookup_fdmap)

lemma DupHandler_ok:
  assumes "ht_ok t" "0 \<le> lo"
  shows "\<exists>e new t' os'. HandlerTable_DupHandler alloc t os fd lo = Some (e, new, t', os') \<and> ht_ok t'
    \<and> (case fdmap t fd of
         None \<Rightarrow> e = EOK \<and> new = -1 \<and> t' = t \<and> os' = os
       | Some h \<Rightarrow>
           (if e = EOK then lowest_free t lo new \<and> fdmap t' = (fdmap t)(new \<mapsto> h) \<and> os' = Object_Retain os h
                            \<and> slot_count t' = (slot_count t)(h := slot_count t h + 1)
            else (e = EMFILE \<or> e = ENOMEM) \<and> new = -1 \<and> fdmap t' = fdmap t \<and> slot_count t' = slot_count t \<and> os' = os))"
proof (cases "fdmap t fd")
  case None
  then show ?thesis
    using assms(1) by (simp add: HandlerTable_DupHandler_def ht_ok_def fd_lookup_fdmap)
next
  case (Some h)
  have sh: "ht_shape t" using assms(1) by (simp add: ht_ok_def)
  note fd = fdmap_Some [OF sh Some]
  obtain e new t' where r: "alloc_fd_slot alloc t lo = Some (e, new, t')" "alloc_post t lo e new t'"
    using alloc_fd_slot_ok [OF assms] by blast
  show ?thesis
  proof (cases "e = EOK")
    case True
    note st = alloc_then_store [OF assms r(2) [unfolded True]]
    have "lowest_free t lo new" using r(2) True by (auto simp: alloc_post_def)
    moreover have "iarr_get (slots t') fd = Some (Some h)"
      using st(3) [of fd] st(4) fd Some by simp
    ultimately show ?thesis
      using r(1) True st sh Some by (simp add: HandlerTable_DupHandler_def fd_lookup_fdmap)
  next
    case False
    then show ?thesis
      using r Some sh grown_fdmap grown_slot_count
      by (auto simp: HandlerTable_DupHandler_def fd_lookup_fdmap alloc_post_def grown_def)
  qed
qed

lemma CloseHandler_ok:
  assumes "ht_ok t"
  shows "\<exists>e t' os'. HandlerTable_CloseHandler t os fd = Some (e, t', os') \<and> ht_ok t' \<and> fdmap t' = (fdmap t)(fd := None)
    \<and> os' = Object_Release os (fdmap t fd) \<and> e = (if fdmap t fd = None then EBADF else EOK)
    \<and> (\<forall>g. slot_count t' g = slot_count t g - (if fdmap t fd = Some g then 1 else 0))"
proof (cases "fdmap t fd")
  case None
  then show ?thesis
    using assms by (auto simp: HandlerTable_CloseHandler_def ht_ok_def fd_lookup_fdmap Object_Release_def fun_eq_iff)
next
  case (Some h)
  then show ?thesis
    using assms clear_fd_slot_ok [OF assms Some]
    by (auto simp: HandlerTable_CloseHandler_def ht_ok_def fd_lookup_fdmap)
qed

lemma dup_store_ok:
  assumes ok: "\<And>i. ht_ok (tabs i)" and fd: "fdmap (tabs self) fd = Some h"
    and tg: "0 \<le> target" "target < table_size (tabs other)"
  shows "dup_store tabs os self fd other target
     = Some (tabs(other := store_slot (tabs other) target (Some h) (max (max_fd_num (tabs other)) target)),
             Object_Retain os h)"
proof -
  have sh: "ht_shape (tabs i)" for i using ok [of i] by (simp add: ht_ok_def)
  have "table (tabs other) = Some (slots (tabs other))"
    using tg by (intro table_Some [OF sh]) simp
  moreover have "iarr_set (slots (tabs other)) target (Some h) = Some ((slots (tabs other))[nat target := Some h])"
    using tg ht_shapeD(1) [OF sh] by simp
  moreover have "table (tabs self) = Some (slots (tabs self))" "iarr_get (slots (tabs self)) fd = Some (Some h)"
    using fdmap_get [OF sh, of fd] fdmap_Some [OF sh fd] fd by auto
  ultimately show ?thesis by (simp add: dup_store_def store_slot_def)
qed

definition dup_to_post where
  "dup_to_post tabs os other target h e tabs' os' \<longleftrightarrow>
     (if e = EOK then (\<forall>i. ht_ok (tabs' i)) \<and> fdmap (tabs' other) = (fdmap (tabs other))(target \<mapsto> h)
          \<and> (\<forall>i. i \<noteq> other \<longrightarrow> tabs' i = tabs i)
          \<and> os' = Object_Release (Object_Retain os h) (fdmap (tabs other) target)
          \<and> (\<forall>g. slot_count (tabs' other) g = slot_count (tabs other) g
                  - (if fdmap (tabs other) target = Some g then 1 else 0) + (if g = h then 1 else 0))
      else (e = EMFILE \<or> e = ENOMEM) \<and> tabs' = tabs \<and> os' = os)"

lemma dup_to_post_store:
  assumes ok: "\<And>i. ht_ok (tabs i)" and gr: "grown (tabs other) t1" and tg: "0 \<le> target" "target < table_size t1"
  shows "dup_to_post tabs os other target h EOK (tabs(other := store_slot t1 target (Some h) (max (max_fd_num t1) target)))
     (Object_Release (Object_Retain os h) (fdmap (tabs other) target))"
proof -
  have ok1: "ht_ok t1" using gr by (simp add: grown_def)
  then have sh1: "ht_shape t1" by (simp add: ht_ok_def)
  note sel = store_slot_sel [OF sh1 tg, where v = "Some h", unfolded grown_fdmap [OF gr] grown_slot_count [OF gr]]
  show ?thesis
    using ok store_slot_ok [OF ok1 tg] by (auto simp: dup_to_post_def sel)
qed

lemma DupHandlerTo_ok:
  assumes ok: "\<And>i. ht_ok (tabs i)" and fd: "fdmap (tabs self) fd = Some h" and tg: "0 \<le> target"
  shows "\<exists>e tabs' os'. HandlerTable_DupHandlerTo alloc tabs os self fd other target = Some (e, tabs', os')
    \<and> dup_to_post tabs os other target h e tabs' os'"
proof -
  have sh: "ht_shape (tabs i)" for i using ok [of i] by (simp add: ht_ok_def)
  note look = fd_lookup_fdmap [OF sh]
  show ?thesis
  proof (cases "target \<le> max_fd_num (tabs other)")
    case True
    then have lt: "target < table_size (tabs other)" using ht_shapeD(5) [OF sh, of other] by linarith
    have gr: "grown (tabs other) (tabs other)" using ok by (auto simp: grown_def intro: exI [of _ 0])
    let ?t = "store_slot (tabs other) target (Some h) (max (max_fd_num (tabs other)) target)"
    have "dup_store tabs os self fd other target = Some (tabs(other := ?t), Object_Retain os h)"
      by (rule dup_store_ok [where tabs = tabs]) (use ok fd tg lt in auto)
    moreover have "dup_to_post tabs os other target h EOK (tabs(other := ?t))
        (Object_Release (Object_Retain os h) (fdmap (tabs other) target))"
      by (rule dup_to_post_store [where tabs = tabs]) (use ok gr tg lt in auto)
    ultimately show ?thesis
      using True fdmap_get [OF sh tg lt] fd tg by (auto simp: HandlerTable_DupHandlerTo_def look)
  next
    case False
    then have old: "fdmap (tabs other) target = None" using ht_shapeD(6) [OF sh] by simp
    obtain e t1 where e: "ensure_fd_slot_exists alloc (tabs other) target = Some (e, t1)" "grown (tabs other) t1"
        "e = EOK \<Longrightarrow> target < table_size t1" "e \<noteq> EOK \<Longrightarrow> t1 = tabs other" "e = EOK \<or> e = EMFILE \<or> e = ENOMEM"
      using ensure_fd_slot_exists_ok [OF ok [of other] tg, of alloc] by metis
    show ?thesis
    proof (cases "e = EOK")
      case True
      let ?t = "store_slot t1 target (Some h) (max (max_fd_num t1) target)"
      have "dup_store (tabs(other := t1)) os self fd other target
          = Some ((tabs(other := t1))(other := store_slot ((tabs(other := t1)) other) target (Some h)
              (max (max_fd_num ((tabs(other := t1)) other)) target)), Object_Retain os h)"
        by (rule dup_store_ok [where tabs = "tabs(other := t1)"])
           (use ok e(2,3) True fd tg grown_fdmap [OF e(2)] in \<open>auto simp: grown_def\<close>)
      moreover have "dup_to_post tabs os other target h EOK (tabs(other := ?t))
          (Object_Release (Object_Retain os h) (fdmap (tabs other) target))"
        by (rule dup_to_post_store [where tabs = tabs]) (use ok e(2,3) True tg in auto)
      ultimately show ?thesis
        using False True e(1) fd tg
        by (auto simp: HandlerTable_DupHandlerTo_def look old Object_Release_def)
    next
      case nok: False
      then show ?thesis
        using False e fd tg by (auto simp: HandlerTable_DupHandlerTo_def look dup_to_post_def)
    qed
  qed
qed

text \<open>What releasing does to the counts.\<close>

lemma refs_Retain [simp]: "refs (Object_Retain os h) g = refs os g + (if g = h then 1 else 0)"
  by (simp add: Object_Retain_def)

lemma refs_Release [simp]: "refs (Object_Release os r) g = refs os g - (if r = Some g then 1 else 0)"
  by (cases r) (auto simp: Object_Release_def Let_def)

lemma close_all_loop_ok:
  assumes "0 \<le> i" "i + int k = n" "n \<le> int (length l)"
  shows "\<exists>os'. close_all_loop l os i n = Some os'
    \<and> (\<forall>g. refs os' g = refs os g - int (count_list (take k (drop (nat i) l)) (Some g)))"
  using assms
proof (induction k arbitrary: os i)
  case 0
  then show ?case by (subst close_all_loop.simps) simp
next
  case (Suc k)
  have i: "nat i < length l" "i < n" using Suc.prems by linarith+
  have step: "close_all_loop l os i n = close_all_loop l (Object_Release os (l ! nat i)) (i + 1) n"
    using i Suc.prems by (subst close_all_loop.simps) simp
  have "drop (nat i) l = l ! nat i # drop (nat (i + 1)) l"
    using i(1) Suc.prems(1) by (simp add: Cons_nth_drop_Suc nat_add_distrib)
  then have "int (count_list (take (Suc k) (drop (nat i) l)) (Some g))
      = (if l ! nat i = Some g then 1 else 0) + int (count_list (take k (drop (nat (i + 1)) l)) (Some g))" for g
    by simp
  with step Suc.IH [of "i + 1" "Object_Release os (l ! nat i)"] Suc.prems show ?case by auto
qed

definition closes_on_exec :: "(hnd \<Rightarrow> u32) \<Rightarrow> hnd option \<Rightarrow> bool" where
  "closes_on_exec flags v \<longleftrightarrow> (case v of None \<Rightarrow> False | Some h \<Rightarrow> flags h AND O_PRSVEXEC = 0)"

lemma close_on_exec_loop_ok:
  assumes "- 1 \<le> fd" "fd < int (length l)"
  shows "\<exists>l' os'. close_on_exec_loop flags l os fd = Some (l', os') \<and> length l' = length l
    \<and> (\<forall>j<length l. l' ! j = (if int j \<le> fd \<and> closes_on_exec flags (l ! j) then None else l ! j))
    \<and> (\<forall>g. refs os' g - int (count_list l' (Some g)) = refs os g - int (count_list l (Some g)))"
  using assms
proof (induction "nat (fd + 1)" arbitrary: fd l os)
  case 0
  then show ?case by (subst close_on_exec_loop.simps) auto
next
  case (Suc d)
  then have fd: "0 \<le> fd" "nat fd < length l" by linarith+
  have d: "d = nat (fd - 1 + 1)" "- 1 \<le> fd - 1" using Suc.hyps(2) fd by linarith+
  define c where "c = closes_on_exec flags (l ! nat fd)"
  define l1 where "l1 = (if c then l[nat fd := None] else l)"
  define os1 where "os1 = (if c then Object_Release os (l ! nat fd) else os)"
  have step: "close_on_exec_loop flags l os fd = close_on_exec_loop flags l1 os1 (fd - 1)"
    using fd Suc.prems unfolding l1_def os1_def c_def
    by (subst close_on_exec_loop.simps) (auto simp: closes_on_exec_def split: option.splits)
  have len: "length l1 = length l" by (simp add: l1_def)
  have "fd - 1 < int (length l1)" using Suc.prems len by simp
  from Suc.hyps(1) [OF d this, of os1] obtain l' os' where r:
    "close_on_exec_loop flags l1 os1 (fd - 1) = Some (l', os')" "length l' = length l"
    "\<forall>j<length l1. l' ! j = (if int j \<le> fd - 1 \<and> closes_on_exec flags (l1 ! j) then None else l1 ! j)"
    "\<forall>g. refs os' g - int (count_list l' (Some g)) = refs os1 g - int (count_list l1 (Some g))"
    by (auto simp: len)
  have "l' ! j = (if int j \<le> fd \<and> closes_on_exec flags (l ! j) then None else l ! j)" if "j < length l" for j
  proof (cases "j = nat fd")
    case True
    then show ?thesis using r(3) that fd by (auto simp: len l1_def c_def)
  next
    case False
    then have "int j \<le> fd - 1 \<longleftrightarrow> int j \<le> fd" "l1 ! j = l ! j" using fd by (auto simp: l1_def)
    then show ?thesis using r(3) that len by simp
  qed
  moreover have "refs os1 g - int (count_list l1 (Some g)) = refs os g - int (count_list l (Some g))" for g
    using count_list_update [OF fd(2), of None "Some g"] by (auto simp: l1_def os1_def)
  ultimately show ?case using step r by auto
qed

lemma CloseHandlersOnExec_ok:
  assumes "ht_ok t"
  shows "\<exists>t' os'. HandlerTable_CloseHandlersOnExec flags t os = Some (t', os') \<and> ht_ok t'
    \<and> (\<forall>fd. fdmap t' fd = (if closes_on_exec flags (fdmap t fd) then None else fdmap t fd))
    \<and> (\<forall>g. refs os' g - slot_count t' g = refs os g - slot_count t g)"
proof (cases "table t")
  case None
  have "ht_shape t" using assms by (simp add: ht_ok_def)
  then have "max_fd_num t < 0" using None ht_shapeD(5,7) by fastforce
  moreover have "fdmap t fd = None" for fd using None by (auto simp: fdmap_def slots_def)
  ultimately show ?thesis
    using None assms by (simp add: HandlerTable_CloseHandlersOnExec_def closes_on_exec_def)
next
  case (Some l)
  have sh: "ht_shape t" using assms by (simp add: ht_ok_def)
  note D = ht_shapeD [OF sh]
  have sl: "slots t = l" using Some by (simp add: slots_def)
  obtain l' os' where r: "close_on_exec_loop flags l os (max_fd_num t) = Some (l', os')" "length l' = length l"
    "\<forall>j<length l. l' ! j = (if int j \<le> max_fd_num t \<and> closes_on_exec flags (l ! j) then None else l ! j)"
    "\<forall>g. refs os' g - int (count_list l' (Some g)) = refs os g - int (count_list l (Some g))"
    using close_on_exec_loop_ok [of "max_fd_num t" l flags os] D(1,4,5) by (auto simp: sl)
  let ?t = "t\<lparr>table := Some l'\<rparr>"
  have sl': "slots ?t = l'" by (simp add: slots_def)
  have fm: "fdmap ?t fd = (if closes_on_exec flags (fdmap t fd) then None else fdmap t fd)" for fd
  proof (cases "0 \<le> fd \<and> fd < int (length l)")
    case True
    then have "fdmap t fd = None" if "max_fd_num t < fd" using that by (intro D(6))
    then show ?thesis
      using True r(2,3) by (auto simp: fdmap_def sl sl' nat_less_iff)
  qed (auto simp: fdmap_def sl sl' r(2) closes_on_exec_def)
  have "ht_shape ?t"
    using D r(2) unfolding ht_shape_def fm sl' by (auto simp: sl)
  moreover obtain m where m: "lower_max (slots ?t) (max_fd_num ?t) = Some m"
    using lower_max_ok [of "max_fd_num t" l'] D(1,4,5) r(2) by (auto simp: sl sl')
  ultimately have "ht_ok (?t\<lparr>max_fd_num := m\<rparr>)" "fdmap (?t\<lparr>max_fd_num := m\<rparr>) = fdmap ?t"
    using lower_max_establishes by auto
  moreover have "HandlerTable_CloseHandlersOnExec flags t os = Some (?t\<lparr>max_fd_num := m\<rparr>, os')"
    using Some r(1) m by (simp add: HandlerTable_CloseHandlersOnExec_def sl')
  moreover have "slot_count (?t\<lparr>max_fd_num := m\<rparr>) g = int (count_list l' (Some g))" for g
    by (simp add: slot_count_def slots_def)
  ultimately show ?thesis
    using r(4) fm by (simp add: slot_count_def sl)
qed

lemma CloseAll_ok:
  assumes "ht_ok t"
  shows "\<exists>os'. HandlerTable_CloseAll t os = Some (HandlerTable_Init, os')
    \<and> (\<forall>g. refs os' g = refs os g - slot_count t g
           + (if 0 \<le> max_fd_num t \<and> fdmap t (max_fd_num t) = Some g then 1 else 0))"
proof -
  have sh: "ht_shape t" using assms by (simp add: ht_ok_def)
  note D = ht_shapeD [OF sh]
  have tab: "(case table t of None \<Rightarrow> [] | Some l \<Rightarrow> l) = slots t" by (simp add: slots_def)
  have fin: "t\<lparr>table := None, table_size := 0, max_fd_num := -1\<rparr> = HandlerTable_Init"
    by (simp add: HandlerTable_Init_def)
  show ?thesis
  proof (cases "0 \<le> max_fd_num t")
    case False
    then have "slot_count t g = 0" for g
    proof -
      have "Some g \<notin> set (slots t)"
      proof
        assume "Some g \<in> set (slots t)"
        then obtain i where "i < length (slots t)" "slots t ! i = Some g" by (auto simp: in_set_conv_nth)
        then show False using D(6) [of "int i"] False fdmap_nth [of i t] by simp
      qed
      then show ?thesis by (simp add: slot_count_def count_list_0_iff)
    qed
    then show ?thesis
      using False by (simp add: HandlerTable_CloseAll_def close_all_loop.simps fin)
  next
    case True
    define m where "m = nat (max_fd_num t)"
    have m: "int m = max_fd_num t" "m < length (slots t)" using True D(1,5) by (simp_all add: m_def nat_less_iff)
    have rest: "drop (Suc m) (slots t) = replicate (length (slots t) - Suc m) None"
    proof (rule nth_equalityI)
      fix i assume "i < length (drop (Suc m) (slots t))"
      then show "drop (Suc m) (slots t) ! i = replicate (length (slots t) - Suc m) None ! i"
        using D(6) [of "int (Suc m + i)"] fdmap_nth [of "Suc m + i" t] m by simp
    qed simp
    have eq: "slots t = take m (slots t) @ slots t ! m # replicate (length (slots t) - Suc m) None"
      using id_take_nth_drop [OF m(2)] rest by simp
    have "count_list (slots t) (Some g)
        = count_list (take m (slots t)) (Some g) + (if slots t ! m = Some g then 1 else 0)" for g
      using arg_cong [OF eq, of "\<lambda>l. count_list l (Some g)"] by simp
    moreover have "fdmap t (max_fd_num t) = slots t ! m" using fdmap_nth [OF m(2)] m(1) by simp
    moreover obtain os' where "close_all_loop (slots t) os 0 (max_fd_num t) = Some os'"
        "\<forall>g. refs os' g = refs os g - int (count_list (take m (slots t)) (Some g))"
      using close_all_loop_ok [of 0 m "max_fd_num t" "slots t" os] m by auto
    ultimately show ?thesis
      using True by (simp add: HandlerTable_CloseAll_def tab fin slot_count_def)
  qed
qed

subsection \<open>Sequences of descriptor calls\<close>

text \<open>
  The calls a process makes on its own table. The last component of the state counts the references that are held
  outside of the table: adopting a handler hands the caller's reference over to the table, copying one out
  gives a reference to the caller.
\<close>

datatype fd_op = FAdopt "int \<Rightarrow> bool" hnd | FCopy int | FDup "int \<Rightarrow> bool" int int
  | FDupTo "int \<Rightarrow> bool" int int | FClose int | FExec "hnd \<Rightarrow> u32"

definition fd_step ::
  "fd_op \<Rightarrow> htable \<times> objs \<times> (hnd \<Rightarrow> int) \<Rightarrow> ((errno \<times> int) \<times> htable \<times> objs \<times> (hnd \<Rightarrow> int)) option" where
  "fd_step x = (\<lambda>(t, os, ext). case x of
     FAdopt alloc h \<Rightarrow>
       do { (e, fd, t') \<leftarrow> HandlerTable_AdoptHandler alloc t h;
            Some ((e, fd), t', os, if e = EOK then ext(h := ext h - 1) else ext) }
   | FCopy fd \<Rightarrow>
       do { (e, h, os') \<leftarrow> HandlerTable_CopyHandler t os fd;
            Some ((e, -1), t, os', case h of Some h \<Rightarrow> ext(h := ext h + 1) | None \<Rightarrow> ext) }
   | FDup alloc fd lo \<Rightarrow>
       do { (e, new, t', os') \<leftarrow> sys_fd_dup alloc t os fd lo; Some ((e, new), t', os', ext) }
   | FDupTo alloc fd target \<Rightarrow>
       do { (e, tabs', os') \<leftarrow> sys_fd_dup_to alloc (\<lambda>_. t) os 0 fd target; Some ((e, -1), tabs' 0, os', ext) }
   | FClose fd \<Rightarrow>
       do { (e, t', os') \<leftarrow> sys_fd_close t os fd; Some ((e, -1), t', os', ext) }
   | FExec flags \<Rightarrow>
       do { (t', os') \<leftarrow> HandlerTable_CloseHandlersOnExec flags t os; Some ((EOK, -1), t', os', ext) })"

definition fd_inv :: "htable \<times> objs \<times> (hnd \<Rightarrow> int) \<Rightarrow> bool" where
  "fd_inv = (\<lambda>(t, os, ext). ht_ok t \<and> (\<forall>g. refs os g = ext g + slot_count t g))"

definition fd_exec :: "fd_op \<Rightarrow> htable \<times> objs \<times> (hnd \<Rightarrow> int) \<Rightarrow> (htable \<times> objs \<times> (hnd \<Rightarrow> int)) option" where
  "fd_exec x c = map_option snd (fd_step x c)"

text \<open>
  The one call that faults: \<open>fd_dup\<close> does not check the lowest descriptor that it is given, and the search for a free slot starts at that index.
\<close>

fun dup_below_table :: "fd_op \<Rightarrow> htable \<times> objs \<times> (hnd \<Rightarrow> int) \<Rightarrow> bool" where
  "dup_below_table (FDup alloc fd lo) (t, os, ext) \<longleftrightarrow> lo < 0 \<and> fdmap t fd \<noteq> None"
| "dup_below_table _ _ \<longleftrightarrow> False"

lemma dup_below_table_faults:
  assumes "fd_inv c" "dup_below_table x c"
  shows "fd_exec x c = None"
proof -
  obtain alloc fd lo t os ext where x: "x = FDup alloc fd lo" "c = (t, os, ext)" "lo < 0" "fdmap t fd \<noteq> None"
    using assms(2) by (elim dup_below_table.elims) auto
  have sh: "ht_shape t" using assms(1) by (simp add: x(2) fd_inv_def ht_ok_def)
  obtain l where l: "table t = Some l" "0 \<le> table_size t"
    using x(4) ht_shapeD(1) [OF sh] by (cases "table t") (auto simp: fdmap_def slots_def split: if_splits)
  have "scan_fd_slot t lo = None" using l x(3) by (subst scan_fd_slot.simps) (simp add: iarr_get_def)
  then have "alloc_fd_slot alloc t lo = None" by (subst alloc_fd_slot.simps) simp
  then show ?thesis
    using x sh by (auto simp: fd_exec_def fd_step_def sys_fd_dup_def HandlerTable_DupHandler_def fd_lookup_fdmap)
qed

lemma DupHandlerTo_bad:
  assumes "ht_ok (tabs self)" "fdmap (tabs self) fd = None \<or> target < 0"
  shows "HandlerTable_DupHandlerTo alloc tabs os self fd other target = Some (EBADF, tabs, os)"
  using assms by (auto simp: HandlerTable_DupHandlerTo_def ht_ok_def fd_lookup_fdmap)

lemma fd_step_dup_to:
  assumes "ht_ok t" "\<forall>g. refs os g = ext g + slot_count t g"
  shows "\<exists>r c'. fd_step (FDupTo alloc fd target) (t, os, ext) = Some (r, c') \<and> fd_inv c'"
proof (cases "fdmap t fd = None \<or> target < 0")
  case True
  then show ?thesis
    using assms DupHandlerTo_bad [of "\<lambda>_. t" 0] by (auto simp: fd_step_def sys_fd_dup_to_def fd_inv_def)
next
  case False
  then obtain h where h: "fdmap t fd = Some h" "0 \<le> target" by auto
  obtain e tabs' os' where r: "HandlerTable_DupHandlerTo alloc (\<lambda>_. t) os 0 fd 0 target = Some (e, tabs', os')"
      "dup_to_post (\<lambda>_. t) os 0 target h e tabs' os'"
    using DupHandlerTo_ok [of "\<lambda>_. t" 0 fd h target alloc os 0] assms(1) h by auto
  then show ?thesis
    using assms by (cases "e = EOK") (auto simp: fd_step_def sys_fd_dup_to_def fd_inv_def dup_to_post_def)
qed

lemma fd_step_preserves:
  assumes "fd_inv c" "\<not> dup_below_table x c"
  shows "\<exists>r c'. fd_step x c = Some (r, c') \<and> fd_inv c'"
proof -
  obtain t os ext where c: "c = (t, os, ext)" by (cases c)
  have ok: "ht_ok t" and rc: "\<forall>g. refs os g = ext g + slot_count t g"
    using assms(1) by (auto simp: fd_inv_def c)
  show ?thesis
  proof (cases x)
    case (FAdopt alloc h)
    obtain e fd t' where r: "HandlerTable_AdoptHandler alloc t h = Some (e, fd, t')" "ht_ok t'"
        "slot_count t' = (if e = EOK then (slot_count t)(h := slot_count t h + 1) else slot_count t)"
      using AdoptHandler_ok [OF ok, of alloc h] by (auto split: if_splits)
    then show ?thesis
      using FAdopt rc by (cases "e = EOK") (simp_all add: c fd_step_def fd_inv_def)
  next
    case (FCopy fd)
    then show ?thesis
      using CopyHandler_ok [OF ok, of os fd] ok rc
      by (auto simp: c fd_step_def fd_inv_def split: option.splits)
  next
    case (FDup alloc fd lo)
    then consider "fdmap t fd = None" | "0 \<le> lo" using assms(2) c by fastforce
    then obtain e new t' os' where r: "HandlerTable_DupHandler alloc t os fd lo = Some (e, new, t', os')" "ht_ok t'"
        "\<forall>g. refs os' g - slot_count t' g = refs os g - slot_count t g"
    proof cases
      case 1
      then show ?thesis using that ok by (simp add: HandlerTable_DupHandler_def ht_ok_def fd_lookup_fdmap)
    next
      case 2
      then show ?thesis using that DupHandler_ok [OF ok 2, of alloc os fd] by (cases "fdmap t fd") (auto split: if_splits)
    qed
    then show ?thesis
      using FDup rc by (simp add: c fd_step_def fd_inv_def sys_fd_dup_def) (metis add_diff_cancel_right' diff_eq_eq)
  next
    case (FDupTo alloc fd target)
    then show ?thesis using fd_step_dup_to [OF ok rc] by (simp add: c)
  next
    case (FClose fd)
    then show ?thesis
      using CloseHandler_ok [OF ok, of os fd] rc by (auto simp: c fd_step_def fd_inv_def sys_fd_close_def)
  next
    case (FExec flags)
    obtain t' os' where "HandlerTable_CloseHandlersOnExec flags t os = Some (t', os')" "ht_ok t'"
        "\<forall>g. refs os' g - slot_count t' g = refs os g - slot_count t g"
      using CloseHandlersOnExec_ok [OF ok] by blast
    then show ?thesis
      using FExec rc by (simp add: c fd_step_def fd_inv_def) (metis add_diff_cancel_right' diff_eq_eq)
  qed
qed

interpretation fdops: guarded_system fd_inv fd_exec "\<lambda>x c. \<not> dup_below_table x c"
  proof unfold_locales
  fix c x assume "fd_inv c" "\<not> dup_below_table x c"
  then obtain r c' where "fd_step x c = Some (r, c')" "fd_inv c'" using fd_step_preserves by blast
  then show "\<exists>c'. fd_exec x c = Some c' \<and> fd_inv c'" by (simp add: fd_exec_def)
qed

subsection \<open>Properties\<close>

text \<open>
  C12. A descriptor table is a partial map from descriptors to handlers. On a well-formed table no call faults, every
  call leaves a well-formed table, and: adopting a handler binds it to the lowest free descriptor or fails with EMFILE
  or ENOMEM and changes nothing; copying returns the handler the map names or EBADF; duplicating binds the
  same handler to the lowest free descriptor that is not below the requested one; closing unbinds the descriptor, drops the
  table's reference, and reports EBADF for an unbound one.
\<close>

theorem fd_table_is_map:
  assumes "ht_ok t"
  shows
    "(\<exists>e fd t'. HandlerTable_AdoptHandler alloc t h = Some (e, fd, t') \<and> ht_ok t'
       \<and> (if e = EOK then lowest_free t 0 fd \<and> fdmap t' = (fdmap t)(fd \<mapsto> h)
          else (e = EMFILE \<or> e = ENOMEM) \<and> fd = -1 \<and> fdmap t' = fdmap t))
    \<and> HandlerTable_CopyHandler t os fd
       = Some (case fdmap t fd of Some h \<Rightarrow> (EOK, Some h, Object_Retain os h) | None \<Rightarrow> (EBADF, None, os))
    \<and> (0 \<le> lo \<longrightarrow> fdmap t fd = Some h \<longrightarrow>
       (\<exists>e new t' os'. HandlerTable_DupHandler alloc t os fd lo = Some (e, new, t', os') \<and> ht_ok t'
       \<and> (if e = EOK then lowest_free t lo new \<and> fdmap t' = (fdmap t)(new \<mapsto> h) \<and> os' = Object_Retain os h
          else (e = EMFILE \<or> e = ENOMEM) \<and> new = -1 \<and> fdmap t' = fdmap t \<and> os' = os)))
    \<and> (\<exists>t'. HandlerTable_CloseHandler t os fd
         = Some (if fdmap t fd = None then EBADF else EOK, t', Object_Release os (fdmap t fd))
       \<and> ht_ok t' \<and> fdmap t' = (fdmap t)(fd := None))"
  using AdoptHandler_ok [OF assms, of alloc h] CopyHandler_ok [OF assms, of os fd]
    DupHandler_ok [OF assms, of lo alloc os fd] CloseHandler_ok [OF assms, of os fd]
  by (intro conjI impI) (auto split: if_splits)

theorem fd_table_is_map_witness:
  "\<exists>e fd t'. HandlerTable_AdoptHandler (\<lambda>_. True) HandlerTable_Init 7 = Some (e, fd, t') \<and> ht_ok t'
     \<and> (if e = EOK then lowest_free HandlerTable_Init 0 fd \<and> fdmap t' fd = Some 7
        else (e = EMFILE \<or> e = ENOMEM) \<and> fd = -1 \<and> fdmap t' fd = None)"
  using fd_table_is_map [OF ht_ok_init(1), of "\<lambda>_. True" 7, THEN conjunct1] by (auto simp: ht_ok_init(2) split: if_splits)

text \<open>
  C2. Reference counts. Take any sequence of descriptor calls of a process (adopt, copy out, dup, dup to, close, close on exec, with
  an allocator that may fail at any time) that starts with an empty table. Either no call faults, and
  at the end every handler's reference count is the number of references held outside of the table plus the number of
  slots that name it: no reference is leaked and none is dropped twice. Or the sequence contains a \<open>fd_dup\<close> of a bound descriptor whose \<open>min_fd\<close> is
  negative: then the counts balance up to that call, and the call reads the slot array in front of its start, which is a fault. \<open>fd_dup\<close> passes on whatever
  user code gives it, so that a process can do this.
\<close>

theorem fd_calls_balance_references:
  assumes "\<And>g. refs os g = ext g"
  shows "(\<exists>t' os' ext'. run_all fd_exec ops (HandlerTable_Init, os, ext) = Some (t', os', ext')
        \<and> ht_ok t' \<and> (\<forall>g. refs os' g = ext' g + slot_count t' g))
    \<or> (\<exists>before alloc fd lo after t' os' ext'. ops = before @ FDup alloc fd lo # after \<and> lo < 0 \<and> fdmap t' fd \<noteq> None
        \<and> run_all fd_exec before (HandlerTable_Init, os, ext) = Some (t', os', ext')
        \<and> ht_ok t' \<and> (\<forall>g. refs os' g = ext' g + slot_count t' g)
        \<and> run_all fd_exec ops (HandlerTable_Init, os, ext) = None)"
proof -
  let ?c = "(HandlerTable_Init, os, ext)"
  have "fd_inv ?c"
    using ht_ok_init assms by (simp add: fd_inv_def slot_count_def slots_def HandlerTable_Init_def)
  from fdops.run_stops [OF this, of ops] show ?thesis
  proof
    assume "\<exists>ys x zs c'. ops = ys @ x # zs \<and> run_all fd_exec ys ?c = Some c' \<and> fd_inv c' \<and> \<not> \<not> dup_below_table x c'"
    then obtain ys x zs c' where stop: "ops = ys @ x # zs" "run_all fd_exec ys ?c = Some c'" "fd_inv c'" "dup_below_table x c'" by blast
    then have fault: "run_all fd_exec ops ?c = None" using run_all_stuck dup_below_table_faults by metis
    obtain alloc fd lo t os' ext' where "x = FDup alloc fd lo" "c' = (t, os', ext')" "lo < 0" "fdmap t fd \<noteq> None"
      using stop(4) by (elim dup_below_table.elims) auto
    then show ?thesis using stop(1-3) fault unfolding fd_inv_def by blast
  qed (auto simp: fd_inv_def)
qed

theorem fd_calls_balance_references_witness:
  "\<exists>t' os' ext'. run_all fd_exec [FAdopt (\<lambda>_. True) 5, FDup (\<lambda>_. True) 0 3, FDupTo (\<lambda>_. True) 0 200, FClose 0, FExec (\<lambda>_. 0)]
      (HandlerTable_Init, \<lparr>refs = (\<lambda>_. 1), closed = []\<rparr>, \<lambda>_. 1) = Some (t', os', ext')
    \<and> ht_ok t' \<and> (\<forall>g. refs os' g = ext' g + slot_count t' g)"
proof -
  let ?ops = "[FAdopt (\<lambda>_. True) 5, FDup (\<lambda>_. True) 0 3, FDupTo (\<lambda>_. True) 0 200, FClose 0, FExec (\<lambda>_. 0)]"
  have "0 \<le> lo" if "?ops = before @ FDup alloc fd lo # after" for before alloc fd lo after
  proof -
    have "FDup alloc fd lo \<in> set ?ops" unfolding that by simp
    then show ?thesis by auto
  qed
  then show ?thesis
    using fd_calls_balance_references [of "\<lparr>refs = (\<lambda>_. 1), closed = []\<rparr>" "\<lambda>_. 1" ?ops, OF objs.select_convs(1) [THEN fun_cong]]
    by (meson not_le)
qed

text \<open>
  C22. Duplicating into another table. Two tables, which may be one and the same, are well-formed; \<open>fd\<close> names the handler
  \<open>h\<close> in the first. Then \<open>HandlerTable_DupHandlerTo\<close> binds \<open>target\<close> to \<open>h\<close> in the second table with a
  new reference, releases the handler that \<open>target\<close> named before, and changes no other
  descriptor and no other table; or it fails with EMFILE or ENOMEM and changes nothing.
\<close>

theorem dup_to_rebinds:
  assumes "\<And>i. ht_ok (tabs i)" "fdmap (tabs self) fd = Some h" "0 \<le> target"
  shows "\<exists>e tabs' os'. HandlerTable_DupHandlerTo alloc tabs os self fd other target = Some (e, tabs', os')
    \<and> (if e = EOK then (\<forall>i. ht_ok (tabs' i)) \<and> fdmap (tabs' other) = (fdmap (tabs other))(target \<mapsto> h)
          \<and> (\<forall>i. i \<noteq> other \<longrightarrow> tabs' i = tabs i)
          \<and> os' = Object_Release (Object_Retain os h) (fdmap (tabs other) target)
       else (e = EMFILE \<or> e = ENOMEM) \<and> tabs' = tabs \<and> os' = os)"
  using DupHandlerTo_ok [where tabs = tabs, OF assms] unfolding dup_to_post_def by (metis (no_types, lifting))

definition sample_table :: htable where
  "sample_table = \<lparr>table = Some (Some 5 # replicate 127 None), table_size = 128, max_fd_num = 0\<rparr>"

lemma sample_table_ok: "ht_ok sample_table" "fdmap sample_table = [0 \<mapsto> 5]"
proof -
  have sl: "slots sample_table = Some 5 # replicate 127 None" by (simp add: sample_table_def slots_def)
  show fm: "fdmap sample_table = [0 \<mapsto> 5]"
    by (auto simp: fun_eq_iff fdmap_def sl nth_Cons' nat_less_iff)
  show "ht_ok sample_table" unfolding ht_ok_def ht_shape_def fm sl by (simp add: sample_table_def)
qed

theorem dup_to_rebinds_witness:
  "\<exists>e tabs' os'. HandlerTable_DupHandlerTo (\<lambda>_. True) (\<lambda>_. sample_table) \<lparr>refs = (\<lambda>_. 1), closed = []\<rparr> 0 0 1 300
       = Some (e, tabs', os')
    \<and> (e = EOK \<longrightarrow> fdmap (tabs' 1) = [0 \<mapsto> 5, 300 \<mapsto> 5] \<and> tabs' 0 = sample_table)"
  using dup_to_rebinds [of "\<lambda>_. sample_table" 0 0 5 300 "\<lambda>_. True" "\<lparr>refs = (\<lambda>_. 1), closed = []\<rparr>" 1]
  by (auto simp: sample_table_ok)

text \<open>What a call that borrows a handler does as long as the counts cover the slots.\<close>

definition borrows :: "htable \<Rightarrow> objs \<Rightarrow> int \<Rightarrow> (hnd \<Rightarrow> errno \<times> 's) \<Rightarrow> 's \<Rightarrow> errno \<times> objs \<times> 's" where
  "borrows t os fd f s = (case fdmap t fd of Some h \<Rightarrow> (fst (f h), os, snd (f h)) | None \<Rightarrow> (EBADF, os, s))"

lemma with_handler_borrows:
  assumes "ht_ok t" "\<And>g. slot_count t g \<le> refs os g"
  shows "with_handler t os fd f s = Some (borrows t os fd (\<lambda>h. f h s) s)"
proof (cases "fdmap t fd")
  case None
  then show ?thesis by (simp add: with_handler_def borrows_def CopyHandler_ok [OF assms(1)])
next
  case (Some h)
  have "Some h \<in> set (slots t)" using Some by (auto simp: fdmap_def split: if_splits intro!: nth_mem) (metis nat_less_iff nth_mem)
  then have "1 \<le> slot_count t h" by (simp add: slot_count_def Suc_le_eq) (metis count_list_0_iff gr0I)
  then have pos: "refs os h \<noteq> 0" using assms(2) [of h] by linarith
  have os: "Object_Release (Object_Retain os h) (Some h) = os"
    using pos by (simp add: Object_Release_def Object_Retain_def)
  then show ?thesis
    using Some by (simp add: with_handler_def borrows_def CopyHandler_ok [OF assms(1)] split_beta)
qed

lemma SSizeByClampingSize_min: "SSizeByClampingSize n = min (int (unat n)) 2147483647"
proof -
  have "unat (min n SSIZE_MAX) = min (unat n) 2147483647"
    by (simp add: min_def word_le_nat_alt SSIZE_MAX_def)
  then show ?thesis by (simp add: SSizeByClampingSize_def sint_u32_small of_nat_min)
qed

text \<open>
  C23. System calls leave no trace in the reference counts. Each of the nine calls that borrow the handler of a descriptor
  (read, write, seek, type, flags, set flags, control, truncate, attributes) runs the handler's operation exactly when the descriptor is bound, and fails
  with EBADF and changes nothing otherwise; reads and writes pass a byte
  count clamped to the positive \<open>ssize_t\<close> range, and setting flags changes the flags of that handler only. The reference is
  returned: all counts are as before, and no handler is destroyed by the call as long as the counts cover the slots.
\<close>

theorem fd_calls_borrow:
  assumes "ht_ok t" "\<And>g. slot_count t g \<le> refs os g"
  shows
    "sys_fd_read t os fd n Handler_Read s = Some (borrows t os fd (\<lambda>h. Handler_Read h (min (int (unat n)) 2147483647) s) s)
    \<and> sys_fd_write t os fd n Handler_Write s = Some (borrows t os fd (\<lambda>h. Handler_Write h (min (int (unat n)) 2147483647) s) s)
    \<and> sys_fd_seek t os fd offset whence Handler_Seek s = Some (borrows t os fd (\<lambda>h. Handler_Seek h offset whence s) s)
    \<and> sys_fd_type t os fd Handler_GetType ty = Some (borrows t os fd (\<lambda>h. (EOK, Handler_GetType h)) ty)
    \<and> sys_fd_flags t os fd flags out = Some (borrows t os fd (\<lambda>h. (EOK, flags h)) out)
    \<and> sys_fd_setflags t os fd op fl flags = Some (borrows t os fd (\<lambda>h.
         if fl AND NOT O_MODMASK = 0 \<and> (op = FD_FOP_ADD \<or> op = FD_FOP_REMOVE \<or> op = FD_FOP_REPLACE)
         then (EOK, flags(h := if op = FD_FOP_ADD then flags h OR fl else if op = FD_FOP_REMOVE then flags h AND NOT fl else fl))
         else (EINVAL, flags)) flags)
    \<and> sys_fd_cntl t os fd cmd Handler_Control s = Some (borrows t os fd (\<lambda>h. Handler_Control h cmd s) s)
    \<and> sys_fd_truncate t os fd len Handler_Truncate s = Some (borrows t os fd (\<lambda>h. Handler_Truncate h len s) s)
    \<and> sys_fd_attr t os fd Handler_GetAttributes s = Some (borrows t os fd (\<lambda>h. Handler_GetAttributes h s) s)"
proof -
  note borrow = with_handler_borrows [OF assms]
  have flags: "(let (e, v) = Handler_SetFlags (flags h) op fl in (e, flags(h := v))) =
     (if fl AND NOT O_MODMASK = 0 \<and> (op = FD_FOP_ADD \<or> op = FD_FOP_REMOVE \<or> op = FD_FOP_REPLACE)
      then (EOK, flags(h := if op = FD_FOP_ADD then flags h OR fl else if op = FD_FOP_REMOVE then flags h AND NOT fl else fl))
      else (EINVAL, flags))" for h
    by (auto simp: Handler_SetFlags_def FD_FOP_ADD_def FD_FOP_REMOVE_def FD_FOP_REPLACE_def)
  show ?thesis
    unfolding sys_fd_read_def sys_fd_write_def sys_fd_seek_def sys_fd_type_def sys_fd_flags_def sys_fd_setflags_def sys_fd_cntl_def
      sys_fd_truncate_def sys_fd_attr_def borrow SSizeByClampingSize_min flags
    by (intro conjI refl)
qed

theorem fd_calls_borrow_witness:
  "sys_fd_read sample_table \<lparr>refs = (\<lambda>_. 1), closed = []\<rparr> 0 0xFFFFFFFF (\<lambda>h n s. (EOK, n)) 0
     = Some (EOK, \<lparr>refs = (\<lambda>_. 1), closed = []\<rparr>, 2147483647)
   \<and> sys_fd_cntl sample_table \<lparr>refs = (\<lambda>_. 1), closed = []\<rparr> 1 4 (\<lambda>h n s. (EOK, n)) 0
     = Some (EBADF, \<lparr>refs = (\<lambda>_. 1), closed = []\<rparr>, 0)"
proof -
  have "slot_count sample_table g \<le> 1" for g
    by (simp add: slot_count_def slots_def sample_table_def)
  then have ok: "slot_count sample_table g \<le> refs \<lparr>refs = (\<lambda>_. 1), closed = []\<rparr> g" for g by simp
  note borrow = fd_calls_borrow [OF sample_table_ok(1) ok]
  show ?thesis
    using borrow [of 0 "0xFFFFFFFF" "\<lambda>h n s. (EOK, n)" 0, THEN conjunct1]
      borrow [where fd = 1 and cmd = 4 and Handler_Control = "\<lambda>h n s. (EOK, n)" and s = 0, THEN conjunct2, THEN conjunct2, THEN conjunct2, THEN conjunct2,
        THEN conjunct2, THEN conjunct2, THEN conjunct1]
    by (simp add: borrows_def sample_table_ok(2))
qed

text \<open>
  Closing all descriptors leaks one. \<open>HandlerTable_CloseAll\<close>, which also runs when a table is torn down, empties
  the table and drops the reference of every slot except that of the highest descriptor in use: that
  handler keeps a reference that nobody holds any more.
\<close>

theorem close_all_leaks_last:
  assumes "ht_ok t" "fdmap t fd = Some h"
  shows "\<exists>os'. HandlerTable_CloseAll t os = Some (HandlerTable_Init, os') \<and>
    (\<exists>l. fdmap t (max_fd_num t) = Some l \<and> refs os' l = refs os l - slot_count t l + 1
        \<and> (\<forall>g. g \<noteq> l \<longrightarrow> refs os' g = refs os g - slot_count t g))"
proof -
  have "0 \<le> max_fd_num t" using fdmap_Some [OF _ assms(2)] assms(1) by (auto simp: ht_ok_def)
  moreover from this obtain l where "fdmap t (max_fd_num t) = Some l" using assms(1) by (auto simp: ht_ok_def)
  moreover obtain os' where "HandlerTable_CloseAll t os = Some (HandlerTable_Init, os')"
      "\<forall>g. refs os' g = refs os g - slot_count t g
           + (if 0 \<le> max_fd_num t \<and> fdmap t (max_fd_num t) = Some g then 1 else 0)"
    using CloseAll_ok [OF assms(1)] by blast
  ultimately show ?thesis by auto
qed

theorem close_all_leaks_last_witness:
  "\<exists>os'. HandlerTable_CloseAll sample_table \<lparr>refs = (\<lambda>_. 1), closed = []\<rparr> = Some (HandlerTable_Init, os') \<and> refs os' 5 = 1"
  using close_all_leaks_last [OF sample_table_ok(1), of 0 5 "\<lparr>refs = (\<lambda>_. 1), closed = []\<rparr>"]
  by (auto simp: sample_table_ok(2)) (auto simp: sample_table_def sample_table_ok(2) [unfolded sample_table_def] slot_count_def slots_def)

text \<open>
  Duplicating a descriptor that is not bound is reported as a success: the call returns EOK with the
  descriptor -1 instead of EBADF, and changes nothing.
\<close>

theorem dup_unbound_reports_success:
  assumes "ht_ok t" "0 \<le> lo" "fdmap t fd = None"
  shows "sys_fd_dup alloc t os fd lo = Some (EOK, -1, t, os)"
  using DupHandler_ok [OF assms(1,2), of alloc os fd] assms(3) by (auto simp: sys_fd_dup_def)

theorem dup_unbound_reports_success_witness:
  "sys_fd_dup (\<lambda>_. True) sample_table \<lparr>refs = (\<lambda>_. 1), closed = []\<rparr> 77 0
     = Some (EOK, -1, sample_table, \<lparr>refs = (\<lambda>_. 1), closed = []\<rparr>)"
  using dup_unbound_reports_success [OF sample_table_ok(1), of 0 77] by (simp add: sample_table_ok(2))

definition full_table :: htable where
  "full_table = \<lparr>table = Some (replicate 2049 (Some 5) @ replicate 127 None), table_size = 2176, max_fd_num = 2048\<rparr>"

lemma full_table_ok: "ht_ok full_table" "fdmap full_table fd = (if 0 \<le> fd \<and> fd \<le> 2048 then Some 5 else None)"
proof -
  have sl: "slots full_table = replicate 2049 (Some 5) @ replicate 127 None" by (simp add: full_table_def slots_def)
  show fm: "fdmap full_table fd = (if 0 \<le> fd \<and> fd \<le> 2048 then Some 5 else None)" for fd
    by (auto simp: fdmap_def sl nth_append nat_less_iff)
  show "ht_ok full_table" unfolding ht_ok_def ht_shape_def fm sl by (simp add: full_table_def)
qed

text \<open>
  Descriptor numbers. A new descriptor is below 2176, the size of a fully grown table; and numbers above the limit
  \<open>_FDNO_MAX\<close>, which the system header calls the highest allowed descriptor number, are handed out: a table in which
  the descriptors 0 to 2048 are bound still takes a handler, as descriptor 2049.
\<close>

theorem fd_numbers_bounded:
  "(\<forall>t alloc h fd t'. ht_ok t \<and> HandlerTable_AdoptHandler alloc t h = Some (EOK, fd, t') \<longrightarrow> 0 \<le> fd \<and> fd < 2176)
   \<and> (\<exists>t'. HandlerTable_AdoptHandler (\<lambda>_. True) full_table 7 = Some (EOK, 2049, t') \<and> FDNO_MAX < 2049)"
proof (intro conjI allI impI)
  fix t alloc h fd t'
  assume a: "ht_ok t \<and> HandlerTable_AdoptHandler alloc t h = Some (EOK, fd, t')"
  then have "ht_ok t'" "fdmap t' fd = Some h" using AdoptHandler_ok [of t alloc h] by auto
  then have "ht_shape t'" "0 \<le> fd" "fd < table_size t'" using fdmap_Some by (auto simp: ht_ok_def)
  with ht_shapeD(3) show "0 \<le> fd" "fd < 2176" by fastforce+
next
  have shp: "ht_shape full_table" using full_table_ok(1) by (simp add: ht_ok_def)
  have lf: "fd = 2049" if "lowest_free full_table 0 fd" for fd
  proof -
    have "0 \<le> fd" "fdmap full_table fd = None" "2049 < fd \<longrightarrow> fdmap full_table 2049 \<noteq> None"
      using that unfolding lowest_free_def by simp_all
    then have "\<not> fd \<le> 2048" "\<not> 2049 < fd" by (simp_all add: full_table_ok(2) split: if_splits)
    then show ?thesis by linarith
  qed
  have "table_size full_table = 2176" by (simp add: full_table_def)
  moreover have "fdmap full_table 2100 = None" by (simp add: full_table_ok(2))
  ultimately have "\<not> (\<forall>k. 0 \<le> k \<and> k < table_size full_table \<longrightarrow> fdmap full_table k \<noteq> None)"
    by (intro notI) (drule spec [of _ 2100], simp)
  then obtain j where "scan_fd_slot full_table 0 = Some (Some j)"
    using scan_fd_slot_ok [OF shp, of 0] by auto
  then have al: "alloc_fd_slot (\<lambda>_. True) full_table 0
      = Some (EOK, j, full_table\<lparr>max_fd_num := max (max_fd_num full_table) j\<rparr>)"
    by (subst alloc_fd_slot.simps) simp
  obtain e fd t' where r: "HandlerTable_AdoptHandler (\<lambda>_. True) full_table 7 = Some (e, fd, t')"
      "e = EOK \<Longrightarrow> lowest_free full_table 0 fd"
    using AdoptHandler_ok [OF full_table_ok(1), of "\<lambda>_. True" 7] by (auto split: if_splits)
  then have "e = EOK" using al by (auto simp: HandlerTable_AdoptHandler_def bind_eq_Some_conv)
  with r lf [of fd] show "\<exists>t'. HandlerTable_AdoptHandler (\<lambda>_. True) full_table 7 = Some (EOK, 2049, t') \<and> FDNO_MAX < 2049"
    by (simp add: FDNO_MAX_def)
qed

theorem fd_numbers_bounded_witness:
  "\<exists>t'. HandlerTable_AdoptHandler (\<lambda>_. True) full_table 7 = Some (EOK, 2049, t') \<and> FDNO_MAX < 2049"
  using fd_numbers_bounded by blast

text \<open>
  C30. Seeking. For a position and a file size that are valid and any 64 bit offset, a seek relative to the start, the
  current position or the end moves to the exact target position when it is representable, reports
  EINVAL for a target before the start of the file (EOVERFLOW for the offset \<open>-2^63\<close>) and EOVERFLOW for a target past
  the largest offset, and leaves the position alone when it fails; the new position is never negative.
\<close>

theorem do_seek_spec:
  assumes "0 \<le> pos" "pos < 9223372036854775808" "0 \<le> endPos" "endPos < 9223372036854775808"
    "- 9223372036854775808 \<le> offset" "offset < 9223372036854775808" "whence \<in> {SEEK_SET, SEEK_CUR, SEEK_END}"
  defines "target \<equiv> (if whence = SEEK_SET then 0 else if whence = SEEK_CUR then pos else endPos) + offset"
  shows "do_seek offset whence endPos pos =
    (if 0 \<le> target \<and> target < 9223372036854775808 then (EOK, target)
     else if target < 0 \<and> (whence = SEEK_SET \<or> offset \<noteq> - 9223372036854775808) then (EINVAL, pos)
     else (EOVERFLOW, pos))"
proof (cases "whence = SEEK_SET")
  case True
  then show ?thesis using assms(6) by (simp add: do_seek_def target_def)
next
  case False
  define r where "r = (if whence = SEEK_END then endPos else pos)"
  have r: "0 \<le> r" "r < 9223372036854775808" "target = r + offset"
    using assms(1-4,7) False by (auto simp: r_def target_def SEEK_SET_def SEEK_CUR_def SEEK_END_def)
  have neg: "wrap64 (- offset) = (if offset = - 9223372036854775808 then offset else - offset)"
    using assms(5,6) wrap64_id [of "- offset"] wrap64_over [of "- offset"] by auto
  have add: "wrap64 (r + offset) = (if r + offset < 9223372036854775808 then r + offset else r + offset - 18446744073709551616)"
    using assms(5,6) r(1,2) wrap64_id [of "r + offset"] wrap64_over [of "r + offset"] by auto
  have "do_seek offset whence endPos pos
      = (if offset < 0 \<and> wrap64 (- offset) > r then (EINVAL, pos)
         else if wrap64 (r + offset) < 0 then (EOVERFLOW, pos) else (EOK, wrap64 (r + offset)))"
    using False assms(7) by (auto simp: do_seek_def r_def Let_def)
  also have "\<dots> = (if 0 \<le> target \<and> target < 9223372036854775808 then (EOK, target)
     else if target < 0 \<and> (whence = SEEK_SET \<or> offset \<noteq> - 9223372036854775808) then (EINVAL, pos)
     else (EOVERFLOW, pos))"
    unfolding neg add using r assms(5,6) False by auto
  finally show ?thesis .
qed

theorem do_seek_spec_witness:
  "do_seek (-3) SEEK_END 10 4 = (EOK, 7) \<and> do_seek (-11) SEEK_END 10 4 = (EINVAL, 4)"
  using do_seek_spec [of 4 10 "-3" SEEK_END] do_seek_spec [of 4 10 "-11" SEEK_END]
  by (simp add: SEEK_SET_def SEEK_CUR_def SEEK_END_def)

end
