(* ===== verification/Perms.thy ===== *)
theory Perms
  imports Prelude
begin

section \<open>Permissions and signal sets\<close>

text \<open>
  \<open>kpi/fs_perms.h\<close>, \<open>security/perm_check.c\<close> and \<open>kernlib/sigset.c\<close>: the permission bits of a file, the decision
  whether a user may access a node, change its attributes or send a signal, and the 32 bit signal sets.
  The decisions are compared with an access matrix written in terms of rights, and
  the signal sets with sets of signal numbers.
\<close>

subsection \<open>Permission words\<close>

datatype fs_class = FS_CLS_USR | FS_CLS_GRP | FS_CLS_OTH

fun cls_shift :: "fs_class \<Rightarrow> nat" where
  "cls_shift FS_CLS_USR = 6"
| "cls_shift FS_CLS_GRP = 3"
| "cls_shift FS_CLS_OTH = 0"

definition FS_CLS_MASK :: u32 where "FS_CLS_MASK = 7"
definition FS_PRM_R :: u32 where "FS_PRM_R = 4"
definition FS_PRM_W :: u32 where "FS_PRM_W = 2"
definition FS_PRM_X :: u32 where "FS_PRM_X = 1"

definition fs_perms_from :: "u32 \<Rightarrow> u32 \<Rightarrow> u32 \<Rightarrow> u32" where
  "fs_perms_from u g oth =
     push_bit (cls_shift FS_CLS_USR) (u AND FS_CLS_MASK)
     OR push_bit (cls_shift FS_CLS_GRP) (g AND FS_CLS_MASK)
     OR push_bit (cls_shift FS_CLS_OTH) (oth AND FS_CLS_MASK)"

definition fs_perms_from_octal :: "u32 \<Rightarrow> u32" where
  "fs_perms_from_octal n = n AND 511"

definition fs_perms_get :: "u32 \<Rightarrow> fs_class \<Rightarrow> u32" where
  "fs_perms_get perms cls = drop_bit (cls_shift cls) perms AND FS_CLS_MASK"

definition fs_perms_has :: "u32 \<Rightarrow> fs_class \<Rightarrow> u32 \<Rightarrow> bool" where
  "fs_perms_has perms cls perm \<longleftrightarrow> fs_perms_get perms cls AND perm = perm"

definition fs_perms_add :: "u32 \<Rightarrow> fs_class \<Rightarrow> u32 \<Rightarrow> u32" where
  "fs_perms_add perms cls bits = perms OR push_bit (cls_shift cls) (bits AND FS_CLS_MASK)"

definition fs_perms_remove :: "u32 \<Rightarrow> fs_class \<Rightarrow> u32 \<Rightarrow> u32" where
  "fs_perms_remove perms cls bits = perms AND NOT (push_bit (cls_shift cls) (bits AND FS_CLS_MASK))"

definition fs_perms_set :: "u32 \<Rightarrow> fs_class \<Rightarrow> u32 \<Rightarrow> u32" where
  "fs_perms_set perms cls bits =
     (perms AND NOT (push_bit (cls_shift cls) FS_CLS_MASK)) OR push_bit (cls_shift cls) (bits AND FS_CLS_MASK)"

lemma bit_FS_CLS_MASK [simp]: "bit FS_CLS_MASK n \<longleftrightarrow> n < 3"
proof -
  have "FS_CLS_MASK = mask 3" by (simp add: FS_CLS_MASK_def mask_eq_exp_minus_1)
  then show ?thesis unfolding \<open>FS_CLS_MASK = mask 3\<close> by (auto simp: bit_mask_iff)
qed

lemma bit_fs_perms_get: "bit (fs_perms_get p c) n \<longleftrightarrow> n < 3 \<and> bit p (cls_shift c + n)"
  by (auto simp: fs_perms_get_def bit_and_iff bit_drop_bit_eq)

lemma cls_shift_less [simp]: "n < 3 \<Longrightarrow> cls_shift c + n < 32"
  by (cases c) auto

lemma bit_push_class:
  "n < 3 \<Longrightarrow> bit (push_bit (cls_shift c') (b AND FS_CLS_MASK) :: u32) (cls_shift c + n) \<longleftrightarrow> c = c' \<and> bit b n"
  by (cases c; cases c') (auto simp: bit_push_bit_iff bit_and_iff)

lemma bit_push_mask:
  "n < 3 \<Longrightarrow> bit (push_bit (cls_shift c') FS_CLS_MASK :: u32) (cls_shift c + n) \<longleftrightarrow> c = c'"
  by (cases c; cases c') (auto simp: bit_push_bit_iff)

text \<open>
  C31. Permission words. Reading a class back gives the three bits that were stored, added or removed there, and updating one
  class leaves the two others as they were.
\<close>

theorem fs_perms_roundtrip:
  "fs_perms_get (fs_perms_set p c b) c' = (if c' = c then b AND FS_CLS_MASK else fs_perms_get p c')
   \<and> fs_perms_get (fs_perms_add p c b) c' = (if c' = c then fs_perms_get p c OR (b AND FS_CLS_MASK) else fs_perms_get p c')
   \<and> fs_perms_get (fs_perms_remove p c b) c' = (if c' = c then fs_perms_get p c AND NOT b else fs_perms_get p c')
   \<and> fs_perms_get (fs_perms_from u g oth) c'
     = (case c' of FS_CLS_USR \<Rightarrow> u | FS_CLS_GRP \<Rightarrow> g | FS_CLS_OTH \<Rightarrow> oth) AND FS_CLS_MASK"
proof (intro conjI)
  show "fs_perms_get (fs_perms_set p c b) c' = (if c' = c then b AND FS_CLS_MASK else fs_perms_get p c')"
    by (rule bit_eqI) (auto simp: bit_fs_perms_get fs_perms_set_def bit_or_iff bit_and_iff bit_not_iff bit_push_class bit_push_mask
        simp del: push_bit_and)
  show "fs_perms_get (fs_perms_add p c b) c' = (if c' = c then fs_perms_get p c OR (b AND FS_CLS_MASK) else fs_perms_get p c')"
    by (rule bit_eqI) (auto simp: bit_fs_perms_get fs_perms_add_def bit_or_iff bit_and_iff bit_push_class
        simp del: push_bit_and)
  show "fs_perms_get (fs_perms_remove p c b) c' = (if c' = c then fs_perms_get p c AND NOT b else fs_perms_get p c')"
    by (rule bit_eqI) (auto simp: bit_fs_perms_get fs_perms_remove_def bit_and_iff bit_not_iff bit_push_class
        simp del: push_bit_and)
  show "fs_perms_get (fs_perms_from u g oth) c'
     = (case c' of FS_CLS_USR \<Rightarrow> u | FS_CLS_GRP \<Rightarrow> g | FS_CLS_OTH \<Rightarrow> oth) AND FS_CLS_MASK"
    by (rule bit_eqI) (cases c', auto simp: bit_fs_perms_get fs_perms_from_def bit_or_iff bit_and_iff bit_push_bit_iff)
qed

subsection \<open>Access checks\<close>

text \<open>The attributes of an inode that the checks look at, and whether its file system is read-only.\<close>

record node =
  permissions :: u32
  node_uid :: u32
  node_gid :: u32
  fs_readonly :: bool

definition UID_ROOT :: u32 where "UID_ROOT = 0"
definition R_OK :: u32 where "R_OK = 1"
definition W_OK :: u32 where "W_OK = 2"
definition X_OK :: u32 where "X_OK = 4"

definition perm_check_node_access :: "node \<Rightarrow> u32 \<Rightarrow> u32 \<Rightarrow> u32 \<Rightarrow> errno" where
  "perm_check_node_access pNode uid gid mode =
     (let fsperms = permissions pNode;
          reqPerms = 0
      in if uid = UID_ROOT then EOK
      else
        (let reqPerms = (if mode AND R_OK = R_OK then reqPerms OR FS_PRM_R else reqPerms)
         in if mode AND W_OK = W_OK \<and> fs_readonly pNode then EROFS
         else
           (let reqPerms = (if mode AND W_OK = W_OK then reqPerms OR FS_PRM_W else reqPerms);
                reqPerms = (if mode AND X_OK = X_OK then reqPerms OR FS_PRM_X else reqPerms);
                finalPerms = (if node_uid pNode = uid then fs_perms_get fsperms FS_CLS_USR
                              else if node_gid pNode = gid then fs_perms_get fsperms FS_CLS_GRP
                              else fs_perms_get fsperms FS_CLS_OTH)
            in if finalPerms AND reqPerms = reqPerms then EOK else EACCESS)))"

definition perm_check_node_attr_update :: "node \<Rightarrow> u32 \<Rightarrow> errno" where
  "perm_check_node_attr_update pNode uid =
     (if uid = UID_ROOT then EOK
      else if fs_readonly pNode then EROFS
      else if node_uid pNode = uid then EOK else EPERM)"

record sig_sndr =
  sndr_pid :: int
  sndr_uid :: u32

definition PID_KERNELD :: int where "PID_KERNELD = 1"
definition SIG_TARGET_PROC :: int where "SIG_TARGET_PROC = 3"

definition perm_check_send_signal :: "sig_sndr \<Rightarrow> int \<Rightarrow> int \<Rightarrow> u32 \<Rightarrow> int \<Rightarrow> errno" where
  "perm_check_send_signal sndr rcv_scope rcv_pid rcv_uid signo =
     (if rcv_pid = PID_KERNELD then EPERM
      else if rcv_scope < SIG_TARGET_PROC \<and> (sndr_pid sndr \<noteq> PID_KERNELD \<and> sndr_pid sndr \<noteq> rcv_pid) then EPERM
      else if sndr_uid sndr = UID_ROOT then EOK
      else if sndr_uid sndr = rcv_uid then EOK
      else EPERM)"

text \<open>The access matrix: the rights a mode asks for, and the rights a node grants to a user.\<close>

datatype right = Read | Write | Execute

fun mode_bit :: "right \<Rightarrow> nat" where
  "mode_bit Read = 0" | "mode_bit Write = 1" | "mode_bit Execute = 2"

fun perm_bit :: "right \<Rightarrow> nat" where
  "perm_bit Read = 2" | "perm_bit Write = 1" | "perm_bit Execute = 0"

definition requests :: "u32 \<Rightarrow> right \<Rightarrow> bool" where
  "requests mode r \<longleftrightarrow> bit mode (mode_bit r)"

definition class_of :: "node \<Rightarrow> u32 \<Rightarrow> u32 \<Rightarrow> fs_class" where
  "class_of nd uid gid =
     (if node_uid nd = uid then FS_CLS_USR else if node_gid nd = gid then FS_CLS_GRP else FS_CLS_OTH)"

definition grants :: "node \<Rightarrow> u32 \<Rightarrow> u32 \<Rightarrow> right \<Rightarrow> bool" where
  "grants nd uid gid r \<longleftrightarrow> bit (permissions nd) (cls_shift (class_of nd uid gid) + perm_bit r)"

lemma bit_pow2_u32: "n < 32 \<Longrightarrow> bit (2 ^ n :: u32) m \<longleftrightarrow> m = n"
  by (auto simp: bit_exp_iff)

lemma all_right: "(\<forall>r. P r) \<longleftrightarrow> P Read \<and> P Write \<and> P Execute"
proof
  assume a: "P Read \<and> P Write \<and> P Execute"
  show "\<forall>r. P r"
  proof
    fix r show "P r" using a by (cases r) simp_all
  qed
qed simp

lemma and_bit_eq:
  assumes "n < 32"
  shows "(w :: u32) AND 2 ^ n = 2 ^ n \<longleftrightarrow> bit w n"
proof
  assume "w AND 2 ^ n = 2 ^ n"
  then have "bit (w AND 2 ^ n) n = bit (2 ^ n :: u32) n" by simp
  then show "bit w n" using assms by (simp add: bit_and_iff bit_pow2_u32)
next
  assume "bit w n"
  then show "w AND 2 ^ n = 2 ^ n"
    using assms by (intro bit_eqI) (auto simp: bit_and_iff bit_pow2_u32)
qed

lemma mode_requests:
  "mode AND R_OK = R_OK \<longleftrightarrow> requests mode Read"
  "mode AND W_OK = W_OK \<longleftrightarrow> requests mode Write"
  "mode AND X_OK = X_OK \<longleftrightarrow> requests mode Execute"
  using and_bit_eq [of 0 mode] and_bit_eq [of 1 mode] and_bit_eq [of 2 mode]
  by (simp_all add: requests_def R_OK_def W_OK_def X_OK_def)

lemma bit_prm:
  "bit FS_PRM_R n \<longleftrightarrow> n = 2" "bit FS_PRM_W n \<longleftrightarrow> n = 1" "bit FS_PRM_X n \<longleftrightarrow> n = 0"
  using bit_pow2_u32 [of 2 n] bit_pow2_u32 [of 1 n] bit_pow2_u32 [of 0 n]
  by (simp_all add: FS_PRM_R_def FS_PRM_W_def FS_PRM_X_def)

lemma covers_iff:
  fixes r w x :: bool and p :: u32
  defines "req \<equiv> (if r then FS_PRM_R else 0) OR (if w then FS_PRM_W else 0) OR (if x then FS_PRM_X else 0)"
  shows "p AND req = req \<longleftrightarrow> (r \<longrightarrow> bit p 2) \<and> (w \<longrightarrow> bit p 1) \<and> (x \<longrightarrow> bit p 0)"
proof -
  have req: "bit req n \<longleftrightarrow> r \<and> n = 2 \<or> w \<and> n = 1 \<or> x \<and> n = 0" for n
    by (auto simp: req_def bit_or_iff bit_prm)
  have "p AND req = req \<longleftrightarrow> (\<forall>n. bit req n \<longrightarrow> bit p n)"
  proof
    assume a: "p AND req = req"
    show "\<forall>n. bit req n \<longrightarrow> bit p n" using bit_and_iff [of p req] unfolding a by blast
  next
    assume "\<forall>n. bit req n \<longrightarrow> bit p n"
    then show "p AND req = req" by (intro bit_eqI) (auto simp: bit_and_iff)
  qed
  also have "\<dots> \<longleftrightarrow> (r \<longrightarrow> bit p 2) \<and> (w \<longrightarrow> bit p 1) \<and> (x \<longrightarrow> bit p 0)" unfolding req by auto
  finally show ?thesis .
qed

text \<open>
  C13. The access decision is the access matrix. The superuser is always let through. For everyone else: a request to write on a
  read-only file system is EROFS, whatever the permissions; otherwise the class is the owner's if
  the user owns the node, else the group's if the groups match, else the others', and the request succeeds exactly
  when that one class grants every right the request asks for, and is EACCESS if it does not.
\<close>

theorem node_access_matrix:
  "perm_check_node_access nd uid gid mode =
     (if uid = 0 then EOK
      else if requests mode Write \<and> fs_readonly nd then EROFS
      else if \<forall>r. requests mode r \<longrightarrow> grants nd uid gid r then EOK
      else EACCESS)"
proof -
  define p where "p = fs_perms_get (permissions nd) (class_of nd uid gid)"
  have fin: "(if node_uid nd = uid then fs_perms_get (permissions nd) FS_CLS_USR
         else if node_gid nd = gid then fs_perms_get (permissions nd) FS_CLS_GRP
         else fs_perms_get (permissions nd) FS_CLS_OTH) = p"
    by (simp add: p_def class_of_def)
  have g: "grants nd uid gid r \<longleftrightarrow> bit p (perm_bit r)" for r
    by (cases r) (simp_all add: grants_def p_def bit_fs_perms_get)
  have all: "(\<forall>r. requests mode r \<longrightarrow> grants nd uid gid r) \<longleftrightarrow>
      (requests mode Read \<longrightarrow> bit p 2) \<and> (requests mode Write \<longrightarrow> bit p 1) \<and> (requests mode Execute \<longrightarrow> bit p 0)"
    unfolding g all_right by simp
  define r w x where "r = requests mode Read" and "w = requests mode Write" and "x = requests mode Execute"
  have req: "(if x then (if w then (if r then 0 OR FS_PRM_R else 0) OR FS_PRM_W else if r then 0 OR FS_PRM_R else 0) OR FS_PRM_X
        else if w then (if r then 0 OR FS_PRM_R else 0) OR FS_PRM_W else if r then 0 OR FS_PRM_R else 0)
      = (if r then FS_PRM_R else 0) OR (if w then FS_PRM_W else 0) OR (if x then FS_PRM_X else 0)"
    by (cases r; cases w; cases x) (simp_all add: or.assoc)
  show ?thesis
    unfolding perm_check_node_access_def Let_def fin mode_requests all UID_ROOT_def r_def [symmetric] w_def [symmetric]
      x_def [symmetric] req covers_iff [of p r w x] by simp
qed

theorem node_access_matrix_witness:
  "perm_check_node_access \<lparr>permissions = 0x1A0, node_uid = 5, node_gid = 7, fs_readonly = False\<rparr> 9 7 R_OK = EOK
   \<and> perm_check_node_access \<lparr>permissions = 0x1A0, node_uid = 5, node_gid = 7, fs_readonly = False\<rparr> 9 8 R_OK = EACCESS"
  unfolding node_access_matrix all_right by (simp add: requests_def grants_def class_of_def R_OK_def)

subsection \<open>Signal sets\<close>

definition SIG_MIN :: int where "SIG_MIN = 1"
definition SIG_MAX :: int where "SIG_MAX = 32"

definition sig_bit :: "int \<Rightarrow> u32" where
  "sig_bit signo = push_bit (nat (signo - 1)) 1"

definition sigset_clear :: "u32 \<Rightarrow> u32" where
  "sigset_clear s = 0"

definition sigset_fill :: "u32 \<Rightarrow> u32" where
  "sigset_fill s = 0xFFFFFFFF"

definition sigset_add :: "u32 \<Rightarrow> int \<Rightarrow> errno \<times> u32" where
  "sigset_add s signo = (if signo < SIG_MIN \<or> signo > SIG_MAX then (EINVAL, s) else (EOK, s OR sig_bit signo))"

definition sigset_init :: "u32 \<Rightarrow> int \<Rightarrow> errno \<times> u32" where
  "sigset_init s signo = sigset_add 0 signo"

definition sigset_addall :: "u32 \<Rightarrow> u32 \<Rightarrow> u32" where
  "sigset_addall s oth = s OR oth"

definition sigset_remove :: "u32 \<Rightarrow> int \<Rightarrow> errno \<times> u32" where
  "sigset_remove s signo = (if signo < SIG_MIN \<or> signo > SIG_MAX then (EINVAL, s) else (EOK, s AND NOT (sig_bit signo)))"

definition sigset_removeall :: "u32 \<Rightarrow> u32 \<Rightarrow> u32" where
  "sigset_removeall s oth = s AND NOT oth"

definition sigset_contains :: "u32 \<Rightarrow> int \<Rightarrow> bool" where
  "sigset_contains s signo = (if signo < SIG_MIN \<or> signo > SIG_MAX then False else s AND sig_bit signo \<noteq> 0)"

definition sigset_isempty :: "u32 \<Rightarrow> bool" where
  "sigset_isempty s \<longleftrightarrow> s = 0"

text \<open>The set of signal numbers a signal set stands for.\<close>

definition signals :: "u32 \<Rightarrow> int set" where
  "signals s = {k. 1 \<le> k \<and> k \<le> 32 \<and> bit s (nat (k - 1))}"

lemma bit_sig_bit: "1 \<le> k \<Longrightarrow> k \<le> 32 \<Longrightarrow> bit (sig_bit k) n \<longleftrightarrow> n = nat (k - 1)"
  using bit_pow2_u32 [of "nat (k - 1)" n] by (simp add: sig_bit_def)

lemma sigset_contains_signals: "sigset_contains s k \<longleftrightarrow> k \<in> signals s"
proof (cases "1 \<le> k \<and> k \<le> 32")
  case True
  have "s AND sig_bit k \<noteq> 0 \<longleftrightarrow> bit s (nat (k - 1))"
  proof
    assume "s AND sig_bit k \<noteq> 0"
    then have "\<exists>n. bit (s AND sig_bit k) n"
      by (rule contrapos_np) (intro bit_eqI, simp)
    then show "bit s (nat (k - 1))" using True by (auto simp: bit_and_iff bit_sig_bit)
  next
    assume "bit s (nat (k - 1))"
    then have "bit (s AND sig_bit k) (nat (k - 1))" using True by (simp add: bit_and_iff bit_sig_bit)
    then show "s AND sig_bit k \<noteq> 0" by auto
  qed
  with True show ?thesis by (auto simp: sigset_contains_def signals_def SIG_MIN_def SIG_MAX_def)
next
  case False
  then show ?thesis by (auto simp: sigset_contains_def signals_def SIG_MIN_def SIG_MAX_def)
qed

lemma signals_eq_iff: "signals s = signals t \<longleftrightarrow> s = t"
proof
  assume eq: "signals s = signals t"
  show "s = t"
  proof (rule bit_eqI)
    fix n assume "possible_bit TYPE(32 word) n"
    then have n: "n < 32" by (simp add: possible_bit_word)
    have "int (Suc n) \<in> signals s \<longleftrightarrow> int (Suc n) \<in> signals t" by (simp add: eq)
    with n show "bit s n = bit t n" by (simp add: signals_def)
  qed
qed simp

text \<open>
  C32. Signal sets are sets of signal numbers. Every operation on the 32 bit words is the operation on the sets they stand for:
  adding and removing one signal (EINVAL and no change for a number outside of 1 to 32), union, difference, the
  empty and the full set, membership and the test for emptiness.
\<close>

theorem sigset_refines_sets:
  "signals (sigset_clear s) = {} \<and> signals (sigset_fill s) = {1..32}
   \<and> sigset_add s k = (if k \<in> {1..32} then (EOK, snd (sigset_add s k)) else (EINVAL, s))
   \<and> signals (snd (sigset_add s k)) = (if k \<in> {1..32} then insert k (signals s) else signals s)
   \<and> sigset_remove s k = (if k \<in> {1..32} then (EOK, snd (sigset_remove s k)) else (EINVAL, s))
   \<and> signals (snd (sigset_remove s k)) = signals s - {k}
   \<and> signals (sigset_addall s t) = signals s \<union> signals t
   \<and> signals (sigset_removeall s t) = signals s - signals t
   \<and> (sigset_contains s k \<longleftrightarrow> k \<in> signals s)
   \<and> (sigset_isempty s \<longleftrightarrow> signals s = {})"
proof (intro conjI)
  have full: "0xFFFFFFFF = (mask 32 :: u32)" by (simp add: mask_eq_exp_minus_1)
  show "signals (sigset_fill s) = {1..32}"
    unfolding sigset_fill_def full by (auto simp: signals_def bit_mask_iff possible_bit_word)
  show "signals (snd (sigset_add s k)) = (if k \<in> {1..32} then insert k (signals s) else signals s)"
    by (auto simp: sigset_add_def SIG_MIN_def SIG_MAX_def signals_def bit_or_iff bit_sig_bit nat_eq_iff eq_nat_nat_iff)
  show "signals (snd (sigset_remove s k)) = signals s - {k}"
    by (auto simp: sigset_remove_def SIG_MIN_def SIG_MAX_def signals_def bit_and_iff bit_not_iff bit_sig_bit eq_nat_nat_iff
        possible_bit_word)
  show "sigset_contains s k \<longleftrightarrow> k \<in> signals s" by (rule sigset_contains_signals)
  show "sigset_isempty s \<longleftrightarrow> signals s = {}"
    using signals_eq_iff [of s 0] by (auto simp: sigset_isempty_def signals_def)
qed (auto simp: sigset_clear_def sigset_add_def sigset_remove_def sigset_addall_def sigset_removeall_def signals_def
       SIG_MIN_def SIG_MAX_def bit_or_iff bit_and_iff bit_not_iff possible_bit_word)

end
