(* ===== verification/Sched.thy ===== *)
theory Sched
  imports Prelude BitMath Perms
begin

section \<open>Virtual processors and the ready queue\<close>

text \<open>
  \<open>sched/sched.h\<close>, \<open>sched/sched.c\<close> and the scheduling part of \<open>sched/vcpu.c\<close>: quality-of-service priorities, the computation of a
  vcpu's effective priority and quantum, the ready queue (80 lists and a bitmap of the populated ones), the selection of the
  best ready vcpu and the context switch. Vcpus are numbers; the deques of vcpus are lists, which is justified by
  the refinement in theory \<open>Deque\<close>. The context switcher is translated from \<open>hal/hw/m68k/sched_csw.s\<close>,
  reduced to what it does to the scheduler's data. \<open>abort()\<close> and failed assertions are the fault \<open>None\<close>.

  The byte tables of quantum lengths are indexed with a grade between 1 and 5 although they have 5 entries;
  what lies behind them in memory is given by the two fields \<open>oob_base\<close> and \<open>oob_max\<close>.
\<close>

subsection \<open>Priorities\<close>

definition VCPU_QOS_REALTIME :: int where "VCPU_QOS_REALTIME = 5"
definition VCPU_QOS_URGENT :: int where "VCPU_QOS_URGENT = 4"
definition VCPU_QOS_INTERACTIVE :: int where "VCPU_QOS_INTERACTIVE = 3"
definition VCPU_QOS_BACKGROUND :: int where "VCPU_QOS_BACKGROUND = 1"
definition VCPU_PRI_HIGHEST :: int where "VCPU_PRI_HIGHEST = 7"
definition VCPU_PRI_LOWEST :: int where "VCPU_PRI_LOWEST = -8"
definition VCPU_PRI_SHIFT :: nat where "VCPU_PRI_SHIFT = 4"
definition VCPU_PRI_COUNT :: int where "VCPU_PRI_COUNT = 16"
definition SCHED_PRI_COUNT :: int where "SCHED_PRI_COUNT = 80"
definition SCHED_PRI_HIGHEST :: int where "SCHED_PRI_HIGHEST = SCHED_PRI_COUNT - 1"
definition SCHED_PRI_LOWEST :: int where "SCHED_PRI_LOWEST = 0"

definition SCHED_PRI_FROM_QOS :: "int \<Rightarrow> int \<Rightarrow> int" where
  "SCHED_PRI_FROM_QOS grade pri = push_bit VCPU_PRI_SHIFT (grade - 1) + pri - VCPU_PRI_LOWEST"

definition SCHED_QOS_GRADE :: "int \<Rightarrow> int" where
  "SCHED_QOS_GRADE pri = drop_bit VCPU_PRI_SHIFT pri + 1"

definition SCHED_QOS_PRI :: "int \<Rightarrow> int" where
  "SCHED_QOS_PRI pri = (pri AND (VCPU_PRI_COUNT - 1)) + VCPU_PRI_LOWEST"

lemmas pri_consts = VCPU_QOS_REALTIME_def VCPU_QOS_URGENT_def VCPU_QOS_INTERACTIVE_def VCPU_QOS_BACKGROUND_def
  VCPU_PRI_HIGHEST_def VCPU_PRI_LOWEST_def VCPU_PRI_SHIFT_def VCPU_PRI_COUNT_def SCHED_PRI_COUNT_def
  SCHED_PRI_HIGHEST_def SCHED_PRI_LOWEST_def

lemma and_15: "(x :: int) AND 15 = x mod 16"
proof -
  have "x AND 15 = take_bit 4 x" by (simp add: take_bit_eq_mask mask_eq_exp_minus_1)
  then show ?thesis by (simp add: take_bit_eq_mod)
qed

lemma SCHED_PRI_FROM_QOS_eq: "SCHED_PRI_FROM_QOS g p = (g - 1) * 16 + p + 8"
  by (simp add: SCHED_PRI_FROM_QOS_def pri_consts push_bit_eq_mult)

lemma SCHED_QOS_GRADE_eq: "SCHED_QOS_GRADE x = x div 16 + 1"
  by (simp add: SCHED_QOS_GRADE_def pri_consts drop_bit_eq_div)

lemma SCHED_QOS_PRI_eq: "SCHED_QOS_PRI x = x mod 16 - 8"
  by (simp add: SCHED_QOS_PRI_def pri_consts and_15)

subsection \<open>Virtual processors\<close>

type_synonym vid = nat

datatype run_state = VCPU_STATE_READY | VCPU_STATE_RUNNING | VCPU_STATE_WAITING | VCPU_STATE_SUSPENDED

record vcpu =
  run_state :: run_state
  base_priority :: int
  cur_priority :: int
  priority_penalty :: int
  priority_boost :: int
  quantum_boost :: int
  sched_nice :: int
  quantum_countdown :: int
  suspension_count :: int
  did_wait :: bool
  fixed_pri :: bool
  vtag :: int
  vproc :: "nat option"
  pending_sigs :: u32
  wait_sigs :: u32
  waiting_on :: "nat option"
  wakeup_reason :: int
  is_armed :: bool
  t_deadline :: int
  v_usr_ticks :: int
  v_sys_ticks :: int
  v_wait_ticks :: int
  stack_ok :: bool

text \<open>
  The scheduler and what it shares with the other parts: all vcpus, the ready queue with its bitmap, the wait queues, and the
  tick counters of the processor and of the processes.
\<close>

record world =
  vcpus :: "vid \<Rightarrow> vcpu"
  running :: "vid option"
  scheduled :: "vid option"
  csw_switch :: bool
  csw_preempted :: bool
  irq_nest_count :: int
  idle_vp :: vid
  boot_vp :: vid
  prioq :: "vid list list"
  populated :: "u32 list"
  waitqs :: "vid list list"
  tick_count :: int
  deadline_queue :: "vid list"
  s_usr_ticks :: int
  s_sys_ticks :: int
  s_idle_ticks :: int
  p_usr_ticks :: "nat \<Rightarrow> int"
  p_sys_ticks :: "nat \<Rightarrow> int"
  p_wait_ticks :: "nat \<Rightarrow> int"
  p_waiting_count :: "nat \<Rightarrow> int"
  oob_base :: int
  oob_max :: int

definition upd_vcpu :: "world \<Rightarrow> vid \<Rightarrow> (vcpu \<Rightarrow> vcpu) \<Rightarrow> world" where
  "upd_vcpu w v f = w\<lparr>vcpus := (vcpus w)(v := f (vcpus w v))\<rparr>"

definition wrap8 :: "int \<Rightarrow> int" where
  "wrap8 x = (x + 128) mod 256 - 128"

definition SCHED_QUANTUM :: "int \<Rightarrow> int" where "SCHED_QUANTUM q = 3 * q"

definition g_quantum_base_length :: "int list" where
  "g_quantum_base_length = [SCHED_QUANTUM 1, SCHED_QUANTUM 2, SCHED_QUANTUM 4, SCHED_QUANTUM 8, SCHED_QUANTUM 12]"

definition g_quantum_max_length :: "int list" where
  "g_quantum_max_length = [SCHED_QUANTUM 2, SCHED_QUANTUM 3, SCHED_QUANTUM 6, SCHED_QUANTUM 10, SCHED_QUANTUM 14]"

definition quantum_entry :: "int list \<Rightarrow> int \<Rightarrow> int \<Rightarrow> int" where
  "quantum_entry tab oob i = (if 0 \<le> i \<and> i < int (length tab) then tab ! nat i else oob)"

definition vcpu_effective_quantum_length_np :: "world \<Rightarrow> vcpu \<Rightarrow> int" where
  "vcpu_effective_quantum_length_np w self =
     (let qos_class = SCHED_QOS_GRADE (cur_priority self);
          base_len = quantum_entry g_quantum_base_length (oob_base w) qos_class;
          max_len = quantum_entry g_quantum_max_length (oob_max w) qos_class
      in wrap8 (min (base_len + quantum_boost self) max_len))"

definition vcpu_reset_quantum_np :: "world \<Rightarrow> vcpu \<Rightarrow> vcpu" where
  "vcpu_reset_quantum_np w self = self\<lparr>quantum_countdown := vcpu_effective_quantum_length_np w self\<rparr>"

definition VCPU_CLAMPED_QUANTUM_BOOST :: "int \<Rightarrow> int" where
  "VCPU_CLAMPED_QUANTUM_BOOST b = max (min b 127) 0"

definition VCPU_CLAMPED_NICE_PRIORITY :: "int \<Rightarrow> int" where
  "VCPU_CLAMPED_NICE_PRIORITY n = max (min n (VCPU_QOS_URGENT * VCPU_PRI_COUNT)) 0"

definition vcpu_set_quantum_boost_np :: "vcpu \<Rightarrow> int \<Rightarrow> vcpu" where
  "vcpu_set_quantum_boost_np self boost = self\<lparr>quantum_boost := wrap8 (VCPU_CLAMPED_QUANTUM_BOOST boost)\<rparr>"

definition vcpu_set_nice_np :: "vcpu \<Rightarrow> int \<Rightarrow> vcpu" where
  "vcpu_set_nice_np self nice =
     (let self = self\<lparr>sched_nice := wrap8 (VCPU_CLAMPED_NICE_PRIORITY nice)\<rparr>
      in if sched_nice self > 0 then self\<lparr>priority_penalty := 0\<rparr> else self)"

definition vcpu_on_sched_param_changed_np :: "world \<Rightarrow> vcpu \<Rightarrow> vcpu" where
  "vcpu_on_sched_param_changed_np w self =
     (let base_qos_class = SCHED_QOS_GRADE (base_priority self);
          base_qos_pri = SCHED_QOS_PRI (base_priority self);
          self = self\<lparr>fixed_pri := (base_qos_class = VCPU_QOS_BACKGROUND \<and> base_qos_pri = VCPU_PRI_LOWEST)
                                 \<or> base_qos_class = VCPU_QOS_REALTIME\<rparr>;
          eff_pri =
            (if fixed_pri self then base_priority self
             else
               (let pri_boost = (if priority_penalty self \<le> 0 then priority_boost self else 0);
                    boosted_qos_pri = min (base_qos_pri + pri_boost) VCPU_PRI_HIGHEST;
                    boosted_pri = SCHED_PRI_FROM_QOS base_qos_class boosted_qos_pri;
                    dyn_top_pri = VCPU_QOS_URGENT * VCPU_PRI_COUNT - 1;
                    dyn_bot_pri = SCHED_PRI_LOWEST + 1
                in max (min (boosted_pri - priority_penalty self - sched_nice self) dyn_top_pri) dyn_bot_pri));
          self = self\<lparr>cur_priority := wrap8 eff_pri\<rparr>
      in self\<lparr>quantum_countdown := vcpu_effective_quantum_length_np w self\<rparr>)"

record vcpu_policy =
  version :: int
  grade :: int
  qpriority :: int

text \<open>The size of a \<open>vcpu_policy_t\<close>: three 32 bit integers.\<close>

definition policy_size :: int where "policy_size = 12"

definition vcpu_policy :: "vcpu \<Rightarrow> int \<Rightarrow> errno \<times> vcpu_policy option" where
  "vcpu_policy self ver =
     (if ver \<noteq> policy_size then (EINVAL, None)
      else (EOK, Some \<lparr>version = policy_size, grade = SCHED_QOS_GRADE (base_priority self),
                        qpriority = SCHED_QOS_PRI (base_priority self)\<rparr>))"

definition validate_vcpu_policy :: "vcpu_policy \<Rightarrow> errno" where
  "validate_vcpu_policy p =
     (if version p \<noteq> policy_size then EINVAL
      else if grade p < VCPU_QOS_BACKGROUND \<or> grade p > VCPU_QOS_REALTIME then EINVAL
      else if qpriority p < VCPU_PRI_LOWEST \<or> qpriority p > VCPU_PRI_HIGHEST then EINVAL
      else if grade p = VCPU_QOS_BACKGROUND \<and> qpriority p = VCPU_PRI_LOWEST then EPERM
      else if grade p = VCPU_QOS_REALTIME \<and> qpriority p = VCPU_PRI_HIGHEST then EPERM
      else EOK)"

definition vcpu_set_base_priority_np :: "vcpu \<Rightarrow> vcpu_policy \<Rightarrow> vcpu" where
  "vcpu_set_base_priority_np self p = self\<lparr>base_priority := wrap8 (SCHED_PRI_FROM_QOS (grade p) (qpriority p))\<rparr>"

definition vcpu_reset_penalties_and_boosts_np :: "vcpu \<Rightarrow> vcpu" where
  "vcpu_reset_penalties_and_boosts_np self =
     self\<lparr>priority_boost := 0, priority_penalty := 0, quantum_boost := 0, sched_nice := 0\<rparr>"

definition vcpu_reset_np :: "world \<Rightarrow> vcpu \<Rightarrow> vcpu_policy \<Rightarrow> int \<Rightarrow> int \<Rightarrow> vcpu" where
  "vcpu_reset_np w self p nice qboost =
     (let self = self\<lparr>vproc := None, pending_sigs := 0, v_usr_ticks := 0, v_sys_ticks := 0, v_wait_ticks := 0,
                      did_wait := False\<rparr>;
          self = vcpu_reset_penalties_and_boosts_np self;
          self = vcpu_set_base_priority_np self p;
          self = vcpu_set_nice_np self nice;
          self = vcpu_set_quantum_boost_np self qboost
      in vcpu_on_sched_param_changed_np w self)"

subsection \<open>The ready queue\<close>

definition sched_rq_mark_populated :: "u32 list \<Rightarrow> nat \<Rightarrow> u32 list option" where
  "sched_rq_mark_populated pop pri =
     do { p \<leftarrow> arr_get pop (pri div 32); arr_set pop (pri div 32) (p OR 2 ^ (pri mod 32)) }"

definition sched_rq_clear_populated :: "u32 list \<Rightarrow> nat \<Rightarrow> u32 list option" where
  "sched_rq_clear_populated pop pri =
     do { p \<leftarrow> arr_get pop (pri div 32); arr_set pop (pri div 32) (p AND NOT (2 ^ (pri mod 32))) }"

text \<open>
  \<open>v\<close> is on a ready or wait queue through its \<open>rewa_qe\<close> node. The assertions of \<open>sched_set_ready\<close> test the links of that node; a
  node without neighbours may still be the only one of its queue. Adding a node that is on a queue, or removing one from a queue that it is
  not on, violates the contract of the deque (theory \<open>Deque\<close>) and is a fault.
\<close>

definition rewa_queued :: "world \<Rightarrow> vid \<Rightarrow> bool" where
  "rewa_queued w v \<longleftrightarrow> (\<exists>q \<in> set (prioq w @ waitqs w). v \<in> set q)"

definition sched_set_ready :: "world \<Rightarrow> vid \<Rightarrow> bool \<Rightarrow> world option" where
  "sched_set_ready w v doAddToTail =
     (if rewa_queued w v then None
      else
        do { let w = upd_vcpu w v (\<lambda>vp. vp\<lparr>run_state := VCPU_STATE_READY\<rparr>);
             let pri = cur_priority (vcpus w v);
             q \<leftarrow> iarr_get (prioq w) pri;
             pq \<leftarrow> iarr_set (prioq w) pri (if doAddToTail then q @ [v] else v # q);
             pop \<leftarrow> sched_rq_mark_populated (populated w) (nat pri);
             Some (w\<lparr>prioq := pq, populated := pop\<rparr>) })"

definition sched_set_unready :: "world \<Rightarrow> vid \<Rightarrow> bool \<Rightarrow> world option" where
  "sched_set_unready w v doReadyToRun =
     (let pri = cur_priority (vcpus w v) in
      do { w \<leftarrow> (if doReadyToRun then
                    if stack_ok (vcpus w v)
                    then Some (upd_vcpu w v (\<lambda>vp. vp\<lparr>run_state := VCPU_STATE_RUNNING\<rparr>))
                    else None
                  else Some w);
           q \<leftarrow> iarr_get (prioq w) pri;
           if v \<in> set q then
             do { pq \<leftarrow> iarr_set (prioq w) pri (remove1 v q);
                  let w = w\<lparr>prioq := pq\<rparr>;
                  if remove1 v q = [] then
                    do { pop \<leftarrow> sched_rq_clear_populated (populated w) (nat pri); Some (w\<lparr>populated := pop\<rparr>) }
                  else Some w }
           else None })"

text \<open>One word of the bitmap: the queue of its highest set bit. \<open>Some None\<close>: no bit is set.\<close>

definition first_in_word :: "world \<Rightarrow> nat \<Rightarrow> vid option option" where
  "first_in_word w i =
     do { p \<leftarrow> arr_get (populated w) i;
          let lzc = leading_zeros_ul p;
          if lzc < 32 then
            do { q \<leftarrow> arr_get (prioq w) ((31 - lzc) + 32 * i); Some (case q of [] \<Rightarrow> None | v # _ \<Rightarrow> Some v) }
          else Some None }"

definition sched_highest_priority_ready :: "world \<Rightarrow> vid option option" where
  "sched_highest_priority_ready w =
     do { p2 \<leftarrow> arr_get (populated w) 2;
          if leading_zeros_ul p2 < 32 then first_in_word w 2
          else do { p1 \<leftarrow> arr_get (populated w) 1;
                    if leading_zeros_ul p1 < 32 then first_in_word w 1
                    else first_in_word w 0 } }"

subsection \<open>Context switches\<close>

definition sched_set_running :: "world \<Rightarrow> vid \<Rightarrow> world" where
  "sched_set_running w v = w\<lparr>scheduled := Some v, csw_switch := True\<rparr>"

definition sched_set_running_as_preemptor :: "world \<Rightarrow> vid \<Rightarrow> world" where
  "sched_set_running_as_preemptor w v = w\<lparr>scheduled := Some v, csw_switch := True, csw_preempted := True\<rparr>"

definition sched_is_irq_ctx :: "world \<Rightarrow> bool" where
  "sched_is_irq_ctx w \<longleftrightarrow> irq_nest_count w > 0"

definition sched_switch_context :: "world \<Rightarrow> world option" where
  "sched_switch_context w =
     do { r \<leftarrow> running w;
          w \<leftarrow> (if run_state (vcpus w r) = VCPU_STATE_RUNNING then sched_set_ready w r (\<not> csw_preempted w) else Some w);
          v \<leftarrow> scheduled w;
          w \<leftarrow> sched_set_unready w v True;
          Some (w\<lparr>running := Some v, scheduled := None, csw_switch := False, csw_preempted := False\<rparr>) }"

definition sched_switch_to :: "world \<Rightarrow> vid option \<Rightarrow> world option" where
  "sched_switch_to w v = do { v \<leftarrow> v; sched_switch_context (sched_set_running w v) }"

text \<open>
  \<open>vcpu_init\<close>, up to the stacks, the processor features and the fields that no modelled operation reads.
\<close>

definition vcpu_init :: "world \<Rightarrow> bool \<Rightarrow> vcpu" where
  "vcpu_init w stk =
     vcpu_on_sched_param_changed_np w
       \<lparr>run_state = VCPU_STATE_SUSPENDED,
        base_priority = SCHED_PRI_FROM_QOS VCPU_QOS_BACKGROUND (VCPU_PRI_LOWEST + 1), cur_priority = 0,
        priority_penalty = 0, priority_boost = 0, quantum_boost = 0, sched_nice = 0, quantum_countdown = 0,
        suspension_count = 1, did_wait = False, fixed_pri = False, vtag = 0, vproc = None, pending_sigs = 0, wait_sigs = 0,
        waiting_on = None, wakeup_reason = 0, is_armed = False, t_deadline = 0, v_usr_ticks = 0, v_sys_ticks = 0, v_wait_ticks = 0,
        stack_ok = stk\<rparr>"

definition vcpu_set_policy :: "world \<Rightarrow> vid \<Rightarrow> vcpu_policy \<Rightarrow> (errno \<times> world) option" where
  "vcpu_set_policy w self p =
     (let err = validate_vcpu_policy p in
      if err \<noteq> EOK then Some (err, w)
      else
        (let change = (\<lambda>vp. vcpu_on_sched_param_changed_np w (vcpu_set_base_priority_np vp p)) in
         case run_state (vcpus w self) of
           VCPU_STATE_READY \<Rightarrow>
             do { w \<leftarrow> sched_set_unready w self False;
                  w \<leftarrow> sched_set_ready (upd_vcpu w self change) self True;
                  Some (err, w) }
         | _ \<Rightarrow> Some (err, upd_vcpu w self change)))"

definition vcpu_yield_np :: "world \<Rightarrow> vid \<Rightarrow> world option" where
  "vcpu_yield_np w self =
     (if run_state (vcpus w self) = VCPU_STATE_RUNNING then
        do { let w = upd_vcpu w self
               (\<lambda>vp. (if \<not> fixed_pri vp \<and> priority_penalty vp > 0
                      then vcpu_on_sched_param_changed_np w (vp\<lparr>priority_penalty := priority_penalty vp div 2\<rparr>)
                      else vp)\<lparr>did_wait := True\<rparr>);
             best \<leftarrow> sched_highest_priority_ready w;
             sched_switch_to w best }
      else Some w)"

definition vcpu_yield :: "world \<Rightarrow> world option" where
  "vcpu_yield w = do { self \<leftarrow> running w; vcpu_yield_np w self }"

definition vcpu_do_deferred_suspend_np :: "world \<Rightarrow> vid \<Rightarrow> world option" where
  "vcpu_do_deferred_suspend_np w self =
     (if suspension_count (vcpus w self) > 0 \<and> run_state (vcpus w self) \<noteq> VCPU_STATE_SUSPENDED then
        do { let w = upd_vcpu w self (\<lambda>vp. vp\<lparr>run_state := VCPU_STATE_SUSPENDED\<rparr>);
             best \<leftarrow> sched_highest_priority_ready w;
             sched_switch_to w best }
      else Some w)"

definition vcpu_resume :: "world \<Rightarrow> vid \<Rightarrow> bool \<Rightarrow> world option" where
  "vcpu_resume w self force =
     (if suspension_count (vcpus w self) > 0 then
        do { let w = upd_vcpu w self (\<lambda>vp. vp\<lparr>suspension_count := (if force then 0 else suspension_count vp - 1)\<rparr>);
             if suspension_count (vcpus w self) = 0 \<and> run_state (vcpus w self) = VCPU_STATE_SUSPENDED
             then sched_set_ready w self True else Some w }
      else Some w)"

subsection \<open>Effective priorities\<close>

lemma wrap8_id: "-128 \<le> x \<Longrightarrow> x \<le> 127 \<Longrightarrow> wrap8 x = x"
  by (simp add: wrap8_def)

definition wf_vcpu :: "vcpu \<Rightarrow> bool" where
  "wf_vcpu vp \<longleftrightarrow> 0 \<le> base_priority vp \<and> base_priority vp < 80 \<and> 0 \<le> cur_priority vp \<and> cur_priority vp < 80
     \<and> 0 \<le> priority_penalty vp \<and> priority_penalty vp < 80 \<and> 0 \<le> priority_boost vp \<and> priority_boost vp < 16
     \<and> 0 \<le> sched_nice vp \<and> sched_nice vp \<le> 64 \<and> 0 \<le> quantum_boost vp \<and> quantum_boost vp < 128"

text \<open>The priority that the scheduler's rules assign: reserved and realtime priorities are fixed, all others are dynamic.\<close>

definition effective_priority :: "vcpu \<Rightarrow> int" where
  "effective_priority vp =
     (let b = base_priority vp; top = b - b mod 16 + 15;
          lifted = (if priority_penalty vp \<le> 0 then min (b + priority_boost vp) top else b)
      in if b = 0 \<or> b \<ge> 64 then b
         else max 1 (min 63 (lifted - priority_penalty vp - sched_nice vp)))"

lemma wrap8_clamp: "wrap8 (max (min x 63) 1) = max 1 (min 63 x)"
  using wrap8_id [of "max 1 (min 63 x)"] by (simp add: max.commute min.commute)

lemma clamp_range: "1 \<le> max 1 (min 63 x)" "max 1 (min 63 x) \<le> (63 :: int)"
  by auto

lemma qos_split: "(b div 16) * 16 = b - b mod (16 :: int)"
  using div_mult_mod_eq [of b 16] by linarith

lemma param_changed_fields [simp]:
  "run_state (vcpu_on_sched_param_changed_np w vp) = run_state vp"
  "base_priority (vcpu_on_sched_param_changed_np w vp) = base_priority vp"
  "priority_penalty (vcpu_on_sched_param_changed_np w vp) = priority_penalty vp"
  "priority_boost (vcpu_on_sched_param_changed_np w vp) = priority_boost vp"
  "quantum_boost (vcpu_on_sched_param_changed_np w vp) = quantum_boost vp"
  "sched_nice (vcpu_on_sched_param_changed_np w vp) = sched_nice vp"
  "suspension_count (vcpu_on_sched_param_changed_np w vp) = suspension_count vp"
  "waiting_on (vcpu_on_sched_param_changed_np w vp) = waiting_on vp"
  "stack_ok (vcpu_on_sched_param_changed_np w vp) = stack_ok vp"
  "vproc (vcpu_on_sched_param_changed_np w vp) = vproc vp"
  "vtag (vcpu_on_sched_param_changed_np w vp) = vtag vp"
  "is_armed (vcpu_on_sched_param_changed_np w vp) = is_armed vp"
  "t_deadline (vcpu_on_sched_param_changed_np w vp) = t_deadline vp"
  "pending_sigs (vcpu_on_sched_param_changed_np w vp) = pending_sigs vp"
  "wait_sigs (vcpu_on_sched_param_changed_np w vp) = wait_sigs vp"
  "wakeup_reason (vcpu_on_sched_param_changed_np w vp) = wakeup_reason vp"
  by (simp_all add: vcpu_on_sched_param_changed_np_def Let_def)

lemma set_base_priority_fields [simp]:
  "run_state (vcpu_set_base_priority_np vp p) = run_state vp"
  "waiting_on (vcpu_set_base_priority_np vp p) = waiting_on vp"
  "stack_ok (vcpu_set_base_priority_np vp p) = stack_ok vp"
  "vproc (vcpu_set_base_priority_np vp p) = vproc vp"
  "is_armed (vcpu_set_base_priority_np vp p) = is_armed vp"
  "t_deadline (vcpu_set_base_priority_np vp p) = t_deadline vp"
  by (simp_all add: vcpu_set_base_priority_np_def)

lemma fixed_pri_iff:
  assumes "0 \<le> b" "b < 80"
  shows "(SCHED_QOS_GRADE b = VCPU_QOS_BACKGROUND \<and> SCHED_QOS_PRI b = VCPU_PRI_LOWEST) \<or> SCHED_QOS_GRADE b = VCPU_QOS_REALTIME
    \<longleftrightarrow> b = 0 \<or> b \<ge> 64"
proof -
  have "b div 16 = 0 \<and> b mod 16 = 0 \<longleftrightarrow> b = 0" using qos_split [of b] by force
  moreover have "b div 16 = 4 \<longleftrightarrow> b \<ge> 64" using assms by auto
  ultimately show ?thesis by (simp add: SCHED_QOS_GRADE_eq SCHED_QOS_PRI_eq pri_consts)
qed

lemma lifted_priority:
  "SCHED_PRI_FROM_QOS (SCHED_QOS_GRADE b) (min (SCHED_QOS_PRI b + k) VCPU_PRI_HIGHEST) = min (b + k) (b - b mod 16 + 15)"
  by (simp add: SCHED_PRI_FROM_QOS_eq SCHED_QOS_GRADE_eq SCHED_QOS_PRI_eq pri_consts min_def qos_split)

lemma cur_priority_unfold:
  "cur_priority (vcpu_on_sched_param_changed_np w vp) =
     wrap8 (let b = base_priority vp in
       if (SCHED_QOS_GRADE b = VCPU_QOS_BACKGROUND \<and> SCHED_QOS_PRI b = VCPU_PRI_LOWEST) \<or> SCHED_QOS_GRADE b = VCPU_QOS_REALTIME then b
       else max (min (SCHED_PRI_FROM_QOS (SCHED_QOS_GRADE b)
                    (min (SCHED_QOS_PRI b + (if priority_penalty vp \<le> 0 then priority_boost vp else 0)) VCPU_PRI_HIGHEST)
                  - priority_penalty vp - sched_nice vp) (VCPU_QOS_URGENT * VCPU_PRI_COUNT - 1)) (SCHED_PRI_LOWEST + 1))"
  by (simp add: vcpu_on_sched_param_changed_np_def Let_def)

lemma cur_priority_param_changed:
  assumes "wf_vcpu vp"
  shows "cur_priority (vcpu_on_sched_param_changed_np w vp) = effective_priority vp"
    and "fixed_pri (vcpu_on_sched_param_changed_np w vp) \<longleftrightarrow> base_priority vp = 0 \<or> base_priority vp \<ge> 64"
proof -
  let ?b = "base_priority vp"
  have b: "0 \<le> ?b" "?b < 80" using assms by (auto simp: wf_vcpu_def)
  have m: "min (?b + 0) (?b - ?b mod 16 + 15) = ?b" using pos_mod_bound [of 16 ?b] by simp
  show "fixed_pri (vcpu_on_sched_param_changed_np w vp) \<longleftrightarrow> ?b = 0 \<or> ?b \<ge> 64"
    using fixed_pri_iff [OF b] by (simp add: vcpu_on_sched_param_changed_np_def Let_def)
  show "cur_priority (vcpu_on_sched_param_changed_np w vp) = effective_priority vp"
  proof (cases "?b = 0 \<or> ?b \<ge> 64")
    case True
    then show ?thesis
      using b fixed_pri_iff [OF b] by (auto simp: vcpu_on_sched_param_changed_np_def effective_priority_def Let_def wrap8_id)
  next
    case False
    then have dyn: "\<not> ((SCHED_QOS_GRADE ?b = VCPU_QOS_BACKGROUND \<and> SCHED_QOS_PRI ?b = VCPU_PRI_LOWEST)
        \<or> SCHED_QOS_GRADE ?b = VCPU_QOS_REALTIME)"
      using fixed_pri_iff [OF b] by blast
    have lift: "min (?b + (if priority_penalty vp \<le> 0 then priority_boost vp else 0)) (?b - ?b mod 16 + 15) =
        (if priority_penalty vp \<le> 0 then min (?b + priority_boost vp) (?b - ?b mod 16 + 15) else ?b)"
      using m by simp
    have limits: "VCPU_QOS_URGENT * VCPU_PRI_COUNT - 1 = 63" "SCHED_PRI_LOWEST + 1 = 1"
      by (simp_all add: pri_consts)
    show ?thesis
      unfolding cur_priority_unfold effective_priority_def Let_def
      by (simp only: False dyn if_False lifted_priority lift limits wrap8_clamp)
  qed
qed

lemma effective_priority_bounds:
  assumes "wf_vcpu vp"
  shows "0 \<le> effective_priority vp" "effective_priority vp < 80"
proof -
  let ?b = "base_priority vp"
  obtain x where "effective_priority vp = (if ?b = 0 \<or> ?b \<ge> 64 then ?b else max 1 (min 63 x))"
    unfolding effective_priority_def Let_def by blast
  moreover have "0 \<le> ?b" "?b < 80" using assms by (simp_all add: wf_vcpu_def)
  ultimately show "0 \<le> effective_priority vp" "effective_priority vp < 80"
    using clamp_range [of x] by (cases "?b = 0 \<or> ?b \<ge> 64"; simp)+
qed

lemma wf_param_changed:
  assumes "wf_vcpu vp"
  shows "wf_vcpu (vcpu_on_sched_param_changed_np w vp)"
  using assms effective_priority_bounds [OF assms]
  unfolding wf_vcpu_def by (simp add: cur_priority_param_changed(1) [OF assms])

lemma validate_vcpu_policy_EOK:
  "validate_vcpu_policy p = EOK \<longleftrightarrow>
     version p = policy_size \<and> 1 \<le> grade p \<and> grade p \<le> 5 \<and> -8 \<le> qpriority p \<and> qpriority p \<le> 7
     \<and> \<not> (grade p = 1 \<and> qpriority p = -8) \<and> \<not> (grade p = 5 \<and> qpriority p = 7)"
  by (auto simp add: validate_vcpu_policy_def pri_consts)

lemma qos_roundtrip:
  assumes "-8 \<le> p" "p \<le> 7"
  shows "SCHED_QOS_GRADE (SCHED_PRI_FROM_QOS g p) = g" and "SCHED_QOS_PRI (SCHED_PRI_FROM_QOS g p) = p"
proof -
  have "SCHED_PRI_FROM_QOS g p = (p + 8) + 16 * (g - 1)" by (simp add: SCHED_PRI_FROM_QOS_eq)
  moreover have "((p + 8) + 16 * (g - 1)) div 16 = g - 1" "((p + 8) + 16 * (g - 1)) mod 16 = p + 8"
    using assms by (simp_all only: div_mult_self2 mod_mult_self2) simp_all
  ultimately show "SCHED_QOS_GRADE (SCHED_PRI_FROM_QOS g p) = g" "SCHED_QOS_PRI (SCHED_PRI_FROM_QOS g p) = p"
    by (simp_all add: SCHED_QOS_GRADE_eq SCHED_QOS_PRI_eq)
qed

lemma set_base_priority_valid:
  assumes "validate_vcpu_policy p = EOK"
  shows "base_priority (vcpu_set_base_priority_np vp p) = SCHED_PRI_FROM_QOS (grade p) (qpriority p)"
    and "0 < base_priority (vcpu_set_base_priority_np vp p)" and "base_priority (vcpu_set_base_priority_np vp p) < 79"
proof -
  have "0 < SCHED_PRI_FROM_QOS (grade p) (qpriority p)" "SCHED_PRI_FROM_QOS (grade p) (qpriority p) < 79"
    using assms unfolding validate_vcpu_policy_EOK SCHED_PRI_FROM_QOS_eq by (simp_all) linarith+
  then show "base_priority (vcpu_set_base_priority_np vp p) = SCHED_PRI_FROM_QOS (grade p) (qpriority p)"
    "0 < base_priority (vcpu_set_base_priority_np vp p)" "base_priority (vcpu_set_base_priority_np vp p) < 79"
    by (simp_all add: vcpu_set_base_priority_np_def wrap8_id)
qed

lemma wf_set_policy:
  assumes "wf_vcpu vp" "validate_vcpu_policy p = EOK"
  shows "wf_vcpu (vcpu_on_sched_param_changed_np w (vcpu_set_base_priority_np vp p))"
proof (rule wf_param_changed)
  show "wf_vcpu (vcpu_set_base_priority_np vp p)"
    using assms(1) set_base_priority_valid [OF assms(2), of vp]
    by (auto simp: wf_vcpu_def vcpu_set_base_priority_np_def)
qed

text \<open>
  C21. Effective priorities. For every well-formed vcpu the recomputation of the scheduling parameters yields the priority of the rules:
  the reserved lowest priority and the realtime priorities are fixed, every other vcpu gets its base priority, raised by its boost at most
  to the top of its own quality-of-service class and lowered by penalty and nice value, always within 1..63. So no boost lifts a
  dynamic vcpu into another class or to a realtime priority, and the 8 bit stores never wrap around.
\<close>
theorem effective_priority_rules:
  assumes "wf_vcpu vp"
  shows "cur_priority (vcpu_on_sched_param_changed_np w vp) = effective_priority vp
    \<and> (fixed_pri (vcpu_on_sched_param_changed_np w vp) \<longleftrightarrow> base_priority vp = 0 \<or> base_priority vp \<ge> 64)
    \<and> (\<not> fixed_pri (vcpu_on_sched_param_changed_np w vp) \<longrightarrow>
         1 \<le> effective_priority vp \<and> effective_priority vp \<le> 63
         \<and> SCHED_QOS_GRADE (effective_priority vp) \<le> SCHED_QOS_GRADE (base_priority vp))
    \<and> wf_vcpu (vcpu_on_sched_param_changed_np w vp)"
proof -
  have grade: "SCHED_QOS_GRADE (effective_priority vp) \<le> SCHED_QOS_GRADE (base_priority vp)"
    if "\<not> (base_priority vp = 0 \<or> base_priority vp \<ge> 64)"
  proof -
    let ?b = "base_priority vp"
    have "effective_priority vp \<le> max 1 (?b - ?b mod 16 + 15)" "?b \<ge> 1"
      using that assms pos_mod_bound [of 16 ?b] unfolding effective_priority_def wf_vcpu_def Let_def by auto
    then have "effective_priority vp \<le> ?b div 16 * 16 + 15"
      unfolding qos_split using pos_mod_bound [of 16 ?b] by linarith
    then show ?thesis by (simp add: SCHED_QOS_GRADE_eq)
  qed
  have range: "1 \<le> effective_priority vp \<and> effective_priority vp \<le> 63"
    if "\<not> (base_priority vp = 0 \<or> base_priority vp \<ge> 64)"
    using that unfolding effective_priority_def Let_def by auto
  show ?thesis
    using grade range by (simp add: cur_priority_param_changed [OF assms] wf_param_changed [OF assms])
qed

theorem effective_priority_rules_witness:
  "\<forall>w. \<exists>vp :: vcpu. base_priority vp = 24 \<and> priority_penalty vp = 3 \<and> cur_priority (vcpu_on_sched_param_changed_np w vp) = 19"
proof
  fix w
  let ?vp = "\<lparr>run_state = VCPU_STATE_READY, base_priority = 24, cur_priority = 0, priority_penalty = 3, priority_boost = 9, quantum_boost = 0,
      sched_nice = 2, quantum_countdown = 0, suspension_count = 0, did_wait = False, fixed_pri = False, vtag = 0, vproc = None, pending_sigs = 0,
      wait_sigs = 0, waiting_on = None, wakeup_reason = 0, is_armed = False, t_deadline = 0, v_usr_ticks = 0, v_sys_ticks = 0,
      v_wait_ticks = 0, stack_ok = True\<rparr> :: vcpu"
  have "wf_vcpu ?vp" by (simp add: wf_vcpu_def)
  from effective_priority_rules [OF this, of w]
  show "\<exists>vp :: vcpu. base_priority vp = 24 \<and> priority_penalty vp = 3 \<and> cur_priority (vcpu_on_sched_param_changed_np w vp) = 19"
    by (intro exI [of _ ?vp]) (simp add: effective_priority_def)
qed

subsection \<open>The invariant of the queues\<close>

definition pop_bit :: "u32 list \<Rightarrow> nat \<Rightarrow> bool" where
  "pop_bit pop p \<longleftrightarrow> bit (pop ! (p div 32)) (p mod 32)"

text \<open>The bitmap marks exactly the populated lists.\<close>

definition rq_ok :: "world \<Rightarrow> bool" where
  "rq_ok w \<longleftrightarrow> length (prioq w) = 80 \<and> length (populated w) = 3
     \<and> (\<forall>p < 96. pop_bit (populated w) p \<longleftrightarrow> p < 80 \<and> prioq w ! p \<noteq> [])"

text \<open>
  Every vcpu outside of \<open>D\<close> is on the queue that its state names, once, and on no other; the vcpus of \<open>D\<close> (those that an
  operation has taken off their queue) are on none.
\<close>

definition queues_ok :: "world \<Rightarrow> vid set \<Rightarrow> bool" where
  "queues_ok w D \<longleftrightarrow>
     (\<forall>p < 80. distinct (prioq w ! p) \<and>
        (\<forall>v. v \<in> set (prioq w ! p) \<longleftrightarrow> v \<notin> D \<and> run_state (vcpus w v) = VCPU_STATE_READY \<and> cur_priority (vcpus w v) = int p))
   \<and> (\<forall>q < length (waitqs w). distinct (waitqs w ! q) \<and>
        (\<forall>v. v \<in> set (waitqs w ! q) \<longleftrightarrow> v \<notin> D \<and> run_state (vcpus w v) = VCPU_STATE_WAITING \<and> waiting_on (vcpus w v) = Some q))
   \<and> (\<forall>v. v \<notin> D \<and> run_state (vcpus w v) = VCPU_STATE_WAITING \<longrightarrow> (\<exists>q < length (waitqs w). waiting_on (vcpus w v) = Some q))"

definition all_wf :: "world \<Rightarrow> bool" where
  "all_wf w \<longleftrightarrow> (\<forall>v. wf_vcpu (vcpus w v))"

definition q_inv :: "world \<Rightarrow> vid set \<Rightarrow> bool" where
  "q_inv w D \<longleftrightarrow> rq_ok w \<and> queues_ok w D \<and> all_wf w"

lemma pop_bit_set:
  assumes "length pop = 3" "p < 96" "i < 96"
  shows "pop_bit (pop[i div 32 := pop ! (i div 32) OR 2 ^ (i mod 32)]) p \<longleftrightarrow> p = i \<or> pop_bit pop p"
    and "pop_bit (pop[i div 32 := pop ! (i div 32) AND NOT (2 ^ (i mod 32))]) p \<longleftrightarrow> p \<noteq> i \<and> pop_bit pop p"
proof -
  have "i div 32 < 3" using assms(3) by simp
  moreover have "p = i \<longleftrightarrow> p div 32 = i div 32 \<and> p mod 32 = i mod 32"
    using div_mult_mod_eq [of p 32] div_mult_mod_eq [of i 32] by metis
  ultimately show "pop_bit (pop[i div 32 := pop ! (i div 32) OR 2 ^ (i mod 32)]) p \<longleftrightarrow> p = i \<or> pop_bit pop p"
    "pop_bit (pop[i div 32 := pop ! (i div 32) AND NOT (2 ^ (i mod 32))]) p \<longleftrightarrow> p \<noteq> i \<and> pop_bit pop p"
    using assms(1)
    by (auto simp: pop_bit_def nth_list_update bit_or_iff bit_and_iff bit_not_iff bit_pow2_u32 possible_bit_word)
qed

lemma not_queued:
  assumes "q_inv w D" "v \<in> D"
  shows "\<not> rewa_queued w v"
proof
  assume "rewa_queued w v"
  then obtain q where "q \<in> set (prioq w) \<or> q \<in> set (waitqs w)" "v \<in> set q" by (auto simp: rewa_queued_def)
  moreover have "length (prioq w) = 80" using assms(1) by (simp add: q_inv_def rq_ok_def)
  ultimately show False
    using assms unfolding q_inv_def queues_ok_def in_set_conv_nth [of q] by metis
qed

lemma q_inv_facts:
  assumes "q_inv w D"
  shows "nat (cur_priority (vcpus w v)) < 80" "int (nat (cur_priority (vcpus w v))) = cur_priority (vcpus w v)"
    "0 \<le> cur_priority (vcpus w v)" "cur_priority (vcpus w v) < 80"
    "length (prioq w) = 80" "length (populated w) = 3"
    "\<forall>p < 96. pop_bit (populated w) p \<longleftrightarrow> p < 80 \<and> prioq w ! p \<noteq> []" "queues_ok w D"
proof -
  have "wf_vcpu (vcpus w v)" using assms by (simp add: q_inv_def all_wf_def)
  then show "0 \<le> cur_priority (vcpus w v)" "cur_priority (vcpus w v) < 80" by (simp_all add: wf_vcpu_def)
  then show "nat (cur_priority (vcpus w v)) < 80" "int (nat (cur_priority (vcpus w v))) = cur_priority (vcpus w v)"
    by (simp_all add: nat_less_iff)
qed (use assms in \<open>auto simp: q_inv_def rq_ok_def\<close>)

lemma sched_set_ready_ok:
  assumes inv: "q_inv w D" and "v \<in> D"
  shows "\<exists>pq pop. sched_set_ready w v tail = Some (upd_vcpu w v (\<lambda>vp. vp\<lparr>run_state := VCPU_STATE_READY\<rparr>)\<lparr>prioq := pq, populated := pop\<rparr>)
    \<and> q_inv (upd_vcpu w v (\<lambda>vp. vp\<lparr>run_state := VCPU_STATE_READY\<rparr>)\<lparr>prioq := pq, populated := pop\<rparr>) (D - {v})
    \<and> pq = (prioq w)[nat (cur_priority (vcpus w v)) :=
              (let q = prioq w ! nat (cur_priority (vcpus w v)) in if tail then q @ [v] else v # q)]"
proof -
  let ?c = "cur_priority (vcpus w v)"
  define i where "i = nat ?c"
  define q where "q = (if tail then prioq w ! i @ [v] else v # prioq w ! i)"
  define pq where "pq = (prioq w)[i := q]"
  define pop where "pop = (populated w)[i div 32 := populated w ! (i div 32) OR 2 ^ (i mod 32)]"
  let ?w = "upd_vcpu w v (\<lambda>vp. vp\<lparr>run_state := VCPU_STATE_READY\<rparr>)\<lparr>prioq := pq, populated := pop\<rparr>"
  note c = q_inv_facts(1-4) [OF inv, of v, folded i_def]
    and len = q_inv_facts(5,6) [OF inv] and bits = q_inv_facts(7) [OF inv] and Q = q_inv_facts(8) [OF inv]
  have "i div 32 < 3" using c(1) by simp
  then have "sched_set_ready w v tail = Some ?w"
    using c len not_queued [OF inv \<open>v \<in> D\<close>]
    by (simp add: sched_set_ready_def upd_vcpu_def iarr_get_def iarr_set_def arr_get_def arr_set_def sched_rq_mark_populated_def
        i_def [symmetric] pq_def pop_def q_def Let_def)
  moreover have "rq_ok ?w"
    using c len bits by (auto simp: rq_ok_def pop_def pq_def q_def upd_vcpu_def pop_bit_set nth_list_update)
  moreover have "queues_ok ?w (D - {v})"
    using Q c len \<open>v \<in> D\<close> unfolding queues_ok_def
    by (auto simp: upd_vcpu_def pq_def q_def nth_list_update)
  moreover have "all_wf ?w"
    using inv by (auto simp: q_inv_def all_wf_def upd_vcpu_def wf_vcpu_def)
  ultimately show ?thesis by (auto simp: q_inv_def pq_def q_def i_def Let_def)
qed

lemma sched_set_unready_ok:
  assumes inv: "q_inv w D" and "v \<notin> D" "run_state (vcpus w v) = VCPU_STATE_READY"
    and run: "run \<Longrightarrow> stack_ok (vcpus w v)"
  shows "\<exists>pq pop. sched_set_unready w v run =
      Some ((if run then upd_vcpu w v (\<lambda>vp. vp\<lparr>run_state := VCPU_STATE_RUNNING\<rparr>) else w)\<lparr>prioq := pq, populated := pop\<rparr>)
    \<and> q_inv ((if run then upd_vcpu w v (\<lambda>vp. vp\<lparr>run_state := VCPU_STATE_RUNNING\<rparr>) else w)\<lparr>prioq := pq, populated := pop\<rparr>) (insert v D)
    \<and> pq = (prioq w)[nat (cur_priority (vcpus w v)) := remove1 v (prioq w ! nat (cur_priority (vcpus w v)))]"
proof -
  let ?c = "cur_priority (vcpus w v)"
  define i where "i = nat ?c"
  define q where "q = remove1 v (prioq w ! i)"
  define pq where "pq = (prioq w)[i := q]"
  define pop where "pop = (if q = [] then (populated w)[i div 32 := populated w ! (i div 32) AND NOT (2 ^ (i mod 32))] else populated w)"
  let ?u = "if run then upd_vcpu w v (\<lambda>vp. vp\<lparr>run_state := VCPU_STATE_RUNNING\<rparr>) else w"
  let ?w = "?u\<lparr>prioq := pq, populated := pop\<rparr>"
  note c = q_inv_facts(1-4) [OF inv, of v, folded i_def]
    and len = q_inv_facts(5,6) [OF inv] and bits = q_inv_facts(7) [OF inv] and Q = q_inv_facts(8) [OF inv]
  have i3: "i div 32 < 3" using c(1) by simp
  have vq: "v \<in> set (prioq w ! i)" using Q c assms(2,3) unfolding queues_ok_def by simp
  have u: "prioq ?u = prioq w" "populated ?u = populated w" "vcpus ?u v = (if run then vcpus w v\<lparr>run_state := VCPU_STATE_RUNNING\<rparr> else vcpus w v)"
    by (simp_all add: upd_vcpu_def)
  have "sched_set_unready w v run = Some ?w"
    using c len i3 vq run
    by (cases run) (simp_all add: sched_set_unready_def upd_vcpu_def iarr_get_def iarr_set_def arr_get_def arr_set_def
        sched_rq_clear_populated_def i_def [symmetric] pq_def pop_def q_def Let_def)
  moreover have "rq_ok ?w"
    using c len bits vq by (auto simp: rq_ok_def pop_def pq_def q_def upd_vcpu_def pop_bit_set nth_list_update)
  moreover have "queues_ok ?w (insert v D)"
  proof -
    have "distinct q" "set q = set (prioq w ! i) - {v}"
      using Q c unfolding queues_ok_def q_def by (simp_all add: set_remove1_eq)
    then show ?thesis
      using Q c len assms(2,3) unfolding queues_ok_def
      by (auto simp: upd_vcpu_def pq_def nth_list_update)
  qed
  moreover have "all_wf ?w"
    using inv by (auto simp: q_inv_def all_wf_def upd_vcpu_def wf_vcpu_def)
  ultimately show ?thesis by (auto simp: q_inv_def pq_def q_def i_def)
qed

lemma q_inv_insert:
  assumes "q_inv w D" "run_state (vcpus w v) \<noteq> VCPU_STATE_READY" "run_state (vcpus w v) \<noteq> VCPU_STATE_WAITING"
  shows "q_inv w (insert v D)"
  using assms unfolding q_inv_def queues_ok_def by blast

lemma q_inv_remove:
  assumes "q_inv w D" "run_state (vcpus w v) \<noteq> VCPU_STATE_READY" "run_state (vcpus w v) \<noteq> VCPU_STATE_WAITING"
  shows "q_inv w (D - {v})"
proof -
  have "u \<notin> D - {v} \<longleftrightarrow> u \<notin> D \<or> u = v" for u by auto
  then show ?thesis using assms unfolding q_inv_def queues_ok_def by (smt (verit))
qed

lemma q_inv_upd:
  assumes "q_inv w D" "v \<in> D" "wf_vcpu (f (vcpus w v))"
  shows "q_inv (upd_vcpu w v f) D"
  using assms unfolding q_inv_def queues_ok_def rq_ok_def all_wf_def upd_vcpu_def by auto

lemma q_inv_other_fields [simp]:
  "q_inv (w\<lparr>running := x0\<rparr>) D \<longleftrightarrow> q_inv w D"
  "q_inv (w\<lparr>scheduled := x1\<rparr>) D \<longleftrightarrow> q_inv w D"
  "q_inv (w\<lparr>csw_switch := x2\<rparr>) D \<longleftrightarrow> q_inv w D"
  "q_inv (w\<lparr>csw_preempted := x3\<rparr>) D \<longleftrightarrow> q_inv w D"
  "q_inv (w\<lparr>irq_nest_count := x4\<rparr>) D \<longleftrightarrow> q_inv w D"
  "q_inv (w\<lparr>tick_count := x5\<rparr>) D \<longleftrightarrow> q_inv w D"
  "q_inv (w\<lparr>deadline_queue := x6\<rparr>) D \<longleftrightarrow> q_inv w D"
  "q_inv (w\<lparr>s_usr_ticks := x7\<rparr>) D \<longleftrightarrow> q_inv w D"
  "q_inv (w\<lparr>s_sys_ticks := x8\<rparr>) D \<longleftrightarrow> q_inv w D"
  "q_inv (w\<lparr>s_idle_ticks := x9\<rparr>) D \<longleftrightarrow> q_inv w D"
  "q_inv (w\<lparr>p_usr_ticks := x10\<rparr>) D \<longleftrightarrow> q_inv w D"
  "q_inv (w\<lparr>p_sys_ticks := x11\<rparr>) D \<longleftrightarrow> q_inv w D"
  "q_inv (w\<lparr>p_wait_ticks := x12\<rparr>) D \<longleftrightarrow> q_inv w D"
  "q_inv (w\<lparr>p_waiting_count := x13\<rparr>) D \<longleftrightarrow> q_inv w D"
  "q_inv (w\<lparr>idle_vp := x14\<rparr>) D \<longleftrightarrow> q_inv w D"
  "q_inv (w\<lparr>boot_vp := x15\<rparr>) D \<longleftrightarrow> q_inv w D"
  by (simp_all add: q_inv_def queues_ok_def rq_ok_def all_wf_def)

text \<open>Updates that leave the fields alone on which the queues depend.\<close>

lemma q_inv_upd_same:
  assumes "q_inv w D" "wf_vcpu (f (vcpus w v))"
    "run_state (f (vcpus w v)) = run_state (vcpus w v)" "cur_priority (f (vcpus w v)) = cur_priority (vcpus w v)"
    "waiting_on (f (vcpus w v)) = waiting_on (vcpus w v)"
  shows "q_inv (upd_vcpu w v f) D"
proof -
  have "run_state (vcpus (upd_vcpu w v f) u) = run_state (vcpus w u)" "cur_priority (vcpus (upd_vcpu w v f) u) = cur_priority (vcpus w u)"
    "waiting_on (vcpus (upd_vcpu w v f) u) = waiting_on (vcpus w u)" for u
    using assms(3-5) by (simp_all add: upd_vcpu_def)
  moreover have "prioq (upd_vcpu w v f) = prioq w" "waitqs (upd_vcpu w v f) = waitqs w" "populated (upd_vcpu w v f) = populated w"
    by (simp_all add: upd_vcpu_def)
  ultimately show ?thesis
    using assms(1,2) unfolding q_inv_def queues_ok_def rq_ok_def all_wf_def by (auto simp: upd_vcpu_def)
qed

subsection \<open>The best ready vcpu\<close>

text \<open>The first vcpu of the highest populated list.\<close>

definition top_ready :: "world \<Rightarrow> vid option" where
  "top_ready w = (case filter (\<lambda>p. prioq w ! p \<noteq> []) (rev [0..<80]) of [] \<Rightarrow> None | p # _ \<Rightarrow> Some (hd (prioq w ! p)))"

lemma top_ready_eqI:
  assumes "p < 80" "prioq w ! p \<noteq> []" "\<And>r. p < r \<Longrightarrow> r < 80 \<Longrightarrow> prioq w ! r = []"
  shows "top_ready w = Some (hd (prioq w ! p))"
proof -
  have "[0..<80] = [0..<p] @ p # [Suc p..<80]" using assms(1) 
    using upt_add_eq_append [of 0 p "80 - p"] upt_conv_Cons [of p 80] by simp
  then have "filter (\<lambda>p. prioq w ! p \<noteq> []) (rev [0..<80]) =
      filter (\<lambda>p. prioq w ! p \<noteq> []) (rev [Suc p..<80]) @ p # filter (\<lambda>p. prioq w ! p \<noteq> []) (rev [0..<p])"
    using assms(2) by simp
  moreover have "filter (\<lambda>p. prioq w ! p \<noteq> []) (rev [Suc p..<80]) = []"
    using assms(3) by (auto simp: filter_empty_conv)
  ultimately show ?thesis by (simp add: top_ready_def)
qed

lemma top_ready_None: "top_ready w = None \<longleftrightarrow> (\<forall>p < 80. prioq w ! p = [])"
proof -
  have "top_ready w = None \<longleftrightarrow> filter (\<lambda>p. prioq w ! p \<noteq> []) (rev [0..<80]) = []"
    by (simp add: top_ready_def split: list.splits)
  then show ?thesis by (auto simp: filter_empty_conv)
qed

lemma top_ready_Some:
  assumes "top_ready w = Some v"
  shows "\<exists>p < 80. prioq w ! p \<noteq> [] \<and> v = hd (prioq w ! p) \<and> (\<forall>r. p < r \<and> r < 80 \<longrightarrow> prioq w ! r = [])"
proof -
  have "{p. p < 80 \<and> prioq w ! p \<noteq> []} \<noteq> {}" using assms top_ready_None [of w] by auto
  moreover have "finite {p. p < 80 \<and> prioq w ! p \<noteq> []}" by simp
  ultimately obtain p where p: "p < 80" "prioq w ! p \<noteq> []" "\<And>r. r < 80 \<Longrightarrow> prioq w ! r \<noteq> [] \<Longrightarrow> r \<le> p"
    using Max_in Max_ge by (metis (mono_tags, lifting) mem_Collect_eq)
  then have "top_ready w = Some (hd (prioq w ! p))" by (intro top_ready_eqI) force+
  with p assms show ?thesis by (intro exI [of _ p]) force
qed

lemma populated_word:
  assumes "rq_ok w" "i < 3" "populated w ! i \<noteq> 0"
  defines "p \<equiv> 31 - clz (populated w ! i) + 32 * i"
  shows "clz (populated w ! i) < 32" "p < 80" "prioq w ! p \<noteq> []" "\<And>r. p < r \<Longrightarrow> r < 32 * i + 32 \<Longrightarrow> r < 80 \<Longrightarrow> prioq w ! r = []"
proof -
  let ?c = "clz (populated w ! i)"
  note clz = clz_bounds [OF assms(3)]
  show c: "?c < 32" using clz(1) by simp
  have bits: "pop_bit (populated w) k \<longleftrightarrow> k < 80 \<and> prioq w ! k \<noteq> []" if "k < 96" for k
    using assms(1) that by (simp add: rq_ok_def)
  have "p = (31 - ?c) + i * 32" "31 - ?c < 32" using c by (auto simp: p_def)
  then have idx: "p div 32 = i" "p mod 32 = 31 - ?c" "p < 96"
    using assms(2) by (simp_all only: div_mult_self1 mod_mult_self1) (use c in auto)
  then have "pop_bit (populated w) p" using clz(2) by (simp add: pop_bit_def)
  then show "p < 80" "prioq w ! p \<noteq> []" using bits [OF idx(3)] by auto
  show "prioq w ! r = []" if "p < r" "r < 32 * i + 32" "r < 80" for r
  proof -
    have "r div 32 = i" using that(1,2) by (auto simp: p_def intro!: div_nat_eqI)
    moreover have "r mod 32 = r - 32 * (r div 32)" by (simp add: minus_mult_div_eq_mod)
    ultimately have r: "r div 32 = i" "r mod 32 = r - 32 * i" by simp_all
    have "31 - (r - 32 * i) < ?c" "31 - (31 - (r - 32 * i)) = r - 32 * i"
      using that(1,2) c by (auto simp: p_def)
    then have "\<not> pop_bit (populated w) r" using clz(3) [of "31 - (r - 32 * i)"] r by (simp add: pop_bit_def)
    then show ?thesis using bits [of r] that(3) by simp
  qed
qed

lemma unpopulated_word:
  assumes "rq_ok w" "i < 3" "populated w ! i = 0" "32 * i \<le> r" "r < 32 * i + 32" "r < 80"
  shows "prioq w ! r = []"
proof -
  have "r div 32 = i" using assms(4,5) by (auto intro: div_nat_eqI)
  then have "\<not> pop_bit (populated w) r" using assms(3) by (simp add: pop_bit_def)
  then show ?thesis using assms(1,6) by (simp add: rq_ok_def)
qed

lemma clz_zero_iff: "clz (x :: u32) < 32 \<longleftrightarrow> x \<noteq> 0"
  using clz_bounds(1) [of x] by (cases "x = 0") auto

lemma first_in_word_top:
  assumes "rq_ok w" "i < 3" "populated w ! i \<noteq> 0" "\<And>j. i < j \<Longrightarrow> j < 3 \<Longrightarrow> populated w ! j = 0"
  shows "first_in_word w i = Some (top_ready w)"
proof -
  let ?p = "31 - clz (populated w ! i) + 32 * i"
  note pw = populated_word [OF assms(1-3)]
  have len: "length (prioq w) = 80" "length (populated w) = 3" using assms(1) by (simp_all add: rq_ok_def)
  have "prioq w ! r = []" if "?p < r" "r < 80" for r
  proof (cases "r < 32 * i + 32")
    case True
    then show ?thesis using pw(4) that by blast
  next
    case False
    have "r div 32 < 3" "i < r div 32" "32 * (r div 32) \<le> r" "r < 32 * (r div 32) + 32" using that(2) False by auto
    then show ?thesis using unpopulated_word [OF assms(1)] assms(4) that(2) by blast
  qed
  then have "top_ready w = Some (hd (prioq w ! ?p))" using top_ready_eqI [OF pw(2,3)] by blast
  moreover obtain x xs where "prioq w ! ?p = x # xs" using pw(3) by (cases "prioq w ! ?p") auto
  ultimately show ?thesis
    using pw(1,2) len assms(2) by (simp add: first_in_word_def arr_get_def leading_zeros_clz)
qed

lemma sched_highest_priority_ready_top:
  assumes "rq_ok w"
  shows "sched_highest_priority_ready w = Some (top_ready w)"
proof -
  have len: "length (populated w) = 3" using assms by (simp add: rq_ok_def)
  have all: "j = 1 \<or> j = 2" if "0 < j" "j < 3" for j :: nat using that by auto
  show ?thesis
  proof (cases "populated w ! 2 = 0")
    case two: True
    show ?thesis
    proof (cases "populated w ! 1 = 0")
      case one: True
      show ?thesis
      proof (cases "populated w ! 0 = 0")
        case True
        have "prioq w ! r = []" if "r < 80" for r
        proof -
          have "r div 32 = 0 \<or> r div 32 = 1 \<or> r div 32 = 2" using that by auto
          then have "r div 32 < 3" "populated w ! (r div 32) = 0" using one two True by auto
          then show ?thesis by (rule unpopulated_word [OF assms]) (use that in auto)
        qed
        then have "top_ready w = None" by (simp add: top_ready_None)
        then show ?thesis using one two True len
          by (simp add: sched_highest_priority_ready_def first_in_word_def arr_get_def leading_zeros_clz clz_zero_iff)
      next
        case False
        then have "first_in_word w 0 = Some (top_ready w)" using all one two by (intro first_in_word_top [OF assms]) auto
        then show ?thesis using one two len
          by (simp add: sched_highest_priority_ready_def arr_get_def leading_zeros_clz clz_zero_iff)
      qed
    next
      case False
      have "first_in_word w 1 = Some (top_ready w)"
      proof (rule first_in_word_top [OF assms])
        fix j :: nat
        assume "1 < j" "j < 3"
        then have "j = 2" by simp
        then show "populated w ! j = 0" using two by simp
      qed (use False in auto)
      then show ?thesis using False two len
        by (simp add: sched_highest_priority_ready_def arr_get_def leading_zeros_clz clz_zero_iff)
    qed
  next
    case False
    then have "first_in_word w 2 = Some (top_ready w)" by (intro first_in_word_top [OF assms]) auto
    then show ?thesis using False len
      by (simp add: sched_highest_priority_ready_def arr_get_def leading_zeros_clz clz_zero_iff)
  qed
qed

lemma top_ready_READY:
  assumes "q_inv w D" "top_ready w = Some v"
  shows "v \<notin> D" "run_state (vcpus w v) = VCPU_STATE_READY"
    "u \<notin> D \<Longrightarrow> run_state (vcpus w u) = VCPU_STATE_READY \<Longrightarrow> cur_priority (vcpus w u) \<le> cur_priority (vcpus w v)"
proof -
  note Q = q_inv_facts(8) [OF assms(1)]
  obtain p where p: "p < 80" "prioq w ! p \<noteq> []" "v = hd (prioq w ! p)" "\<forall>r. p < r \<and> r < 80 \<longrightarrow> prioq w ! r = []"
    using top_ready_Some [OF assms(2)] by blast
  then have "v \<in> set (prioq w ! p)" by simp
  then have v: "v \<notin> D" "run_state (vcpus w v) = VCPU_STATE_READY" and pri: "cur_priority (vcpus w v) = int p"
    using Q p(1) unfolding queues_ok_def by blast+
  show "v \<notin> D" "run_state (vcpus w v) = VCPU_STATE_READY" by (rule v)+
  show "cur_priority (vcpus w u) \<le> cur_priority (vcpus w v)" if "u \<notin> D" "run_state (vcpus w u) = VCPU_STATE_READY"
  proof -
    note c = q_inv_facts(1,2) [OF assms(1), of u]
    then have "u \<in> set (prioq w ! nat (cur_priority (vcpus w u)))" using Q that unfolding queues_ok_def by simp
    then have "\<not> p < nat (cur_priority (vcpus w u))" using p(4) c(1) by fastforce
    then show ?thesis using c(2) pri by linarith
  qed
qed

lemma top_ready_exists:
  assumes "q_inv w D" "u \<notin> D" "run_state (vcpus w u) = VCPU_STATE_READY"
  obtains v where "top_ready w = Some v"
proof -
  note c = q_inv_facts(1,2) [OF assms(1), of u]
  have "u \<in> set (prioq w ! nat (cur_priority (vcpus w u)))"
    using q_inv_facts(8) [OF assms(1)] c assms(2,3) unfolding queues_ok_def by simp
  then have "top_ready w \<noteq> None" using c(1) top_ready_None [of w] by force
  then show ?thesis using that by blast
qed

subsection \<open>The context switch\<close>

text \<open>The vcpus after a switch from \<open>r\<close> to \<open>v\<close>.\<close>

definition switched :: "(vid \<Rightarrow> vcpu) \<Rightarrow> vid \<Rightarrow> vid \<Rightarrow> vid \<Rightarrow> vcpu" where
  "switched vs r v = (if run_state (vs r) = VCPU_STATE_RUNNING then vs(r := vs r\<lparr>run_state := VCPU_STATE_READY\<rparr>) else vs)
     (v := vs v\<lparr>run_state := VCPU_STATE_RUNNING\<rparr>)"

lemma sched_switch_context_ok:
  assumes inv: "q_inv w {}" and r: "running w = Some r" "run_state (vcpus w r) \<noteq> VCPU_STATE_READY"
    and v: "scheduled w = Some v" "run_state (vcpus w v) = VCPU_STATE_READY" "stack_ok (vcpus w v)"
  shows "\<exists>pq pop. sched_switch_context w =
      Some (w\<lparr>vcpus := switched (vcpus w) r v, prioq := pq, populated := pop, running := Some v, scheduled := None,
               csw_switch := False, csw_preempted := False\<rparr>)
    \<and> q_inv (w\<lparr>vcpus := switched (vcpus w) r v, prioq := pq, populated := pop, running := Some v, scheduled := None,
               csw_switch := False, csw_preempted := False\<rparr>) {}"
proof -
  have rv: "v \<noteq> r" using r v by auto
  obtain w1 where w1: "(if run_state (vcpus w r) = VCPU_STATE_RUNNING then sched_set_ready w r (\<not> csw_preempted w) else Some w) = Some w1"
      "q_inv w1 {}" "vcpus w1 = (if run_state (vcpus w r) = VCPU_STATE_RUNNING then (vcpus w)(r := vcpus w r\<lparr>run_state := VCPU_STATE_READY\<rparr>) else vcpus w)"
      "\<exists>pq pop. w1 = w\<lparr>vcpus := vcpus w1, prioq := pq, populated := pop\<rparr>"
  proof (cases "run_state (vcpus w r) = VCPU_STATE_RUNNING")
    case True
    then have "q_inv w {r}" using q_inv_insert [OF inv, of r] by simp
    then obtain pq pop where "sched_set_ready w r (\<not> csw_preempted w) =
        Some (upd_vcpu w r (\<lambda>vp. vp\<lparr>run_state := VCPU_STATE_READY\<rparr>)\<lparr>prioq := pq, populated := pop\<rparr>)"
        "q_inv (upd_vcpu w r (\<lambda>vp. vp\<lparr>run_state := VCPU_STATE_READY\<rparr>)\<lparr>prioq := pq, populated := pop\<rparr>) {}"
      using sched_set_ready_ok [of w "{r}" r "\<not> csw_preempted w"] by auto
    then show ?thesis using True by (intro that [of "upd_vcpu w r (\<lambda>vp. vp\<lparr>run_state := VCPU_STATE_READY\<rparr>)\<lparr>prioq := pq, populated := pop\<rparr>"])
      (auto simp: upd_vcpu_def)
  next
    case False
    then show ?thesis using inv by (intro that [of w]) (auto intro!: exI [of _ "prioq w"] exI [of _ "populated w"])
  qed
  have v1: "vcpus w1 v = vcpus w v" using w1(3) rv by simp
  obtain pq pop where "sched_set_unready w1 v True =
        Some (upd_vcpu w1 v (\<lambda>vp. vp\<lparr>run_state := VCPU_STATE_RUNNING\<rparr>)\<lparr>prioq := pq, populated := pop\<rparr>)"
      "q_inv (upd_vcpu w1 v (\<lambda>vp. vp\<lparr>run_state := VCPU_STATE_RUNNING\<rparr>)\<lparr>prioq := pq, populated := pop\<rparr>) {v}"
    using sched_set_unready_ok [OF w1(2), of v True] v v1 by auto
  then have w2: "sched_set_unready w1 v True =
        Some (w1\<lparr>vcpus := switched (vcpus w) r v, prioq := pq, populated := pop\<rparr>)"
      "q_inv (w1\<lparr>vcpus := switched (vcpus w) r v, prioq := pq, populated := pop\<rparr>) {v}"
    using v1 w1(3) rv by (auto simp: upd_vcpu_def switched_def)
  have "q_inv (w1\<lparr>vcpus := switched (vcpus w) r v, prioq := pq, populated := pop\<rparr>) {}"
    using q_inv_remove [OF w2(2), of v] by (simp add: switched_def)
  moreover obtain pq' pop' where w1_eq: "w1 = w\<lparr>vcpus := vcpus w1, prioq := pq', populated := pop'\<rparr>" using w1(4) by blast
  have "scheduled w1 = Some v" by (subst w1_eq) (simp add: v(1))
  moreover have "w1\<lparr>vcpus := switched (vcpus w) r v, prioq := pq, populated := pop\<rparr> =
      w\<lparr>vcpus := switched (vcpus w) r v, prioq := pq, populated := pop\<rparr>"
    by (subst w1_eq) simp
  ultimately show ?thesis
    using w1(1) w2(1) r(1) by (intro exI [of _ pq] exI [of _ pop])
      (simp add: sched_switch_context_def)
qed

end
