(* ===== verification/Waitq.thy ===== *)
theory Waitq
  imports Sched
begin

section \<open>Wait queues, timeouts, signals and the scheduler's interrupts\<close>

text \<open>
  \<open>sched/waitqueue.c\<close>, \<open>sched/vcpu_signal.c\<close>, \<open>sched/sched_irq.c\<close>, the deadline queue of \<open>hal/hw/m68k-amiga/clock.c\<close>, suspension from
  \<open>sched/vcpu.c\<close> and the kernel semaphore, condition variable and mutex hooks built on the wait queues.

  All these functions run with preemption disabled, so each is one atomic step; a function that blocks is split at its
  context switch: \<open>wq_wait_enter\<close> is \<open>wq_wait_np\<close> up to the switch and \<open>wq_wait_leave\<close> what the vcpu does when it runs again.
  Wait queues are numbers that index \<open>waitqs\<close>. Theory \<open>SchedInv\<close> proves the invariant of the whole scheduler.
\<close>

subsection \<open>The deadline queue of the clock\<close>

definition TICKS_MAX :: int where "TICKS_MAX = 4294967295"

definition clock_deadline :: "world \<Rightarrow> vid \<Rightarrow> world option" where
  "clock_deadline w v =
     (if is_armed (vcpus w v) then None
      else
        (let d = t_deadline (vcpus w v);
             early = (\<lambda>u. t_deadline (vcpus w u) \<le> d);
             q = takeWhile early (deadline_queue w) @ v # dropWhile early (deadline_queue w)
         in Some (upd_vcpu (w\<lparr>deadline_queue := q\<rparr>) v (\<lambda>vp. vp\<lparr>is_armed := True\<rparr>))))"

definition clock_cancel_deadline :: "world \<Rightarrow> vid \<Rightarrow> bool \<times> world" where
  "clock_cancel_deadline w v =
     (if is_armed (vcpus w v)
      then (True, upd_vcpu (w\<lparr>deadline_queue := remove1 v (deadline_queue w)\<rparr>) v (\<lambda>vp. vp\<lparr>is_armed := False\<rparr>))
      else (False, w))"

text \<open>
  The deadline of a wait. \<open>unbounded\<close> is the outcome of the comparison of the wait time with \<open>NANOTIME_INF\<close> and \<open>deadline_ticks\<close> the conversion
  of the wait time to ticks, rounded up.
\<close>

definition wq_calc_deadline :: "world \<Rightarrow> bool \<Rightarrow> bool \<Rightarrow> int \<Rightarrow> int" where
  "wq_calc_deadline w abstime unbounded deadline_ticks =
     (if \<not> unbounded then
        if abstime then deadline_ticks
        else
          (let now = tick_count w;
               abs_deadline = (now + deadline_ticks) mod 4294967296
           in if abs_deadline > now \<and> abs_deadline > deadline_ticks then abs_deadline else TICKS_MAX)
      else TICKS_MAX)"

subsection \<open>Wait and wakeup\<close>

definition WRES_WAKEUP :: int where "WRES_WAKEUP = 1"
definition WRES_TIMEOUT :: int where "WRES_TIMEOUT = 2"
definition WAKEUP_ONE :: u32 where "WAKEUP_ONE = 1"
definition WAKEUP_TIMEOUT :: u32 where "WAKEUP_TIMEOUT = 2"
definition WAKEUP_NO_IMMED_CSW :: u32 where "WAKEUP_NO_IMMED_CSW = 4"
definition SIGWAIT_NOABORT :: u32 where "SIGWAIT_NOABORT = 4"
definition SCHED_QUANTUM_SCALE :: int where "SCHED_QUANTUM_SCALE = 3"
definition SCHED_QUANTUM_NUDGE :: int where "SCHED_QUANTUM_NUDGE = 1"

lemmas flag_consts = WAKEUP_ONE_def WAKEUP_TIMEOUT_def WAKEUP_NO_IMMED_CSW_def SIGWAIT_NOABORT_def

definition wq_deinit :: "world \<Rightarrow> nat \<Rightarrow> errno option" where
  "wq_deinit w q = do { qs \<leftarrow> arr_get (waitqs w) q; Some (if qs \<noteq> [] then EBUSY else EOK) }"

text \<open>The first half. \<open>Some err\<close> in the result: the function returned \<open>err\<close> without switching away.\<close>

definition wq_wait_enter :: "world \<Rightarrow> nat \<Rightarrow> int \<Rightarrow> (errno option \<times> world) option" where
  "wq_wait_enter w q deadline =
     do { v \<leftarrow> running w;
          let start_ticks = tick_count w;
          qs \<leftarrow> (if rewa_queued w v then None else arr_get (waitqs w) q);
          wqs \<leftarrow> arr_set (waitqs w) q (qs @ [v]);
          let w = upd_vcpu (w\<lparr>waitqs := wqs\<rparr>) v
            (\<lambda>vp. vp\<lparr>run_state := VCPU_STATE_WAITING, waiting_on := Some q, wakeup_reason := 0, did_wait := True,
                     quantum_countdown := (if quantum_countdown vp > 0 then quantum_countdown vp - SCHED_QUANTUM_NUDGE
                                           else quantum_countdown vp)\<rparr>);
          if deadline < TICKS_MAX \<and> deadline \<le> start_ticks then Some (Some ETIMEDOUT, w)
          else
            do { w \<leftarrow> (if deadline < TICKS_MAX
                          then clock_deadline (upd_vcpu w v (\<lambda>vp. vp\<lparr>t_deadline := deadline\<rparr>)) v
                          else Some w);
                 pr \<leftarrow> vproc (vcpus w v);
                 let w = w\<lparr>p_waiting_count := (p_waiting_count w)(pr := p_waiting_count w pr + 1)\<rparr>;
                 best \<leftarrow> sched_highest_priority_ready w;
                 w \<leftarrow> sched_switch_to w best;
                 Some (None, w) } }"

text \<open>The second half, when \<open>v\<close> runs again; \<open>start_ticks\<close> and \<open>bTimeout\<close> are the local variables of the first half.\<close>

definition wq_wait_leave :: "world \<Rightarrow> vid \<Rightarrow> int \<Rightarrow> bool \<Rightarrow> (errno \<times> world) option" where
  "wq_wait_leave w v start_ticks bTimeout =
     do { pr \<leftarrow> vproc (vcpus w v);
          let w = w\<lparr>p_waiting_count := (p_waiting_count w)(pr := p_waiting_count w pr - 1)\<rparr>;
          let w = (if bTimeout then snd (clock_cancel_deadline w v) else w);
          let wait_ticks = (tick_count w - start_ticks) mod 4294967296;
          let w = upd_vcpu w v (\<lambda>vp. vp\<lparr>v_wait_ticks := v_wait_ticks vp + wait_ticks\<rparr>);
          let w = w\<lparr>p_wait_ticks := (p_wait_ticks w)(pr := p_wait_ticks w pr + wait_ticks)\<rparr>;
          Some (if wakeup_reason (vcpus w v) = WRES_TIMEOUT then ETIMEDOUT else EOK, w) }"

definition vcpu_effective_qos_class :: "vcpu \<Rightarrow> int" where
  "vcpu_effective_qos_class vp = SCHED_QOS_GRADE (cur_priority vp)"

text \<open>What the wakeup does to the record of the vcpu before it becomes ready.\<close>

definition wakeup_params :: "world \<Rightarrow> u32 \<Rightarrow> int \<Rightarrow> vcpu \<Rightarrow> vcpu" where
  "wakeup_params w flags pri_boost vp =
     (let vp = vp\<lparr>waiting_on := None, wakeup_reason := (if flags AND WAKEUP_TIMEOUT = WAKEUP_TIMEOUT then WRES_TIMEOUT else WRES_WAKEUP)\<rparr>;
          vp = (if \<not> fixed_pri vp then
                  (let vp' = (if priority_penalty vp > 0 then vp\<lparr>priority_penalty := 0\<rparr> else vp);
                       vp' = (if pri_boost > 0 then vp'\<lparr>priority_boost := min pri_boost (VCPU_PRI_COUNT - 1)\<rparr> else vp')
                   in if priority_penalty vp > 0 \<or> pri_boost > 0 then vcpu_on_sched_param_changed_np w vp' else vp')
                else vp)
      in if vcpu_effective_qos_class vp = VCPU_QOS_REALTIME then vcpu_reset_quantum_np w vp else vp)"

definition wq_wakeup_vcpu_np :: "world \<Rightarrow> nat option \<Rightarrow> vid \<Rightarrow> u32 \<Rightarrow> int \<Rightarrow> world option" where
  "wq_wakeup_vcpu_np w self v flags pri_boost =
     (if run_state (vcpus w v) \<noteq> VCPU_STATE_WAITING then Some w
      else
        do { q \<leftarrow> self;
             qs \<leftarrow> arr_get (waitqs w) q;
             wqs \<leftarrow> (if v \<in> set qs then arr_set (waitqs w) q (remove1 v qs) else None);
             let w = snd (clock_cancel_deadline (w\<lparr>waitqs := wqs\<rparr>) v);
             w \<leftarrow> sched_set_ready (upd_vcpu w v (wakeup_params w flags pri_boost)) v True;
             if flags AND WAKEUP_NO_IMMED_CSW = 0 \<and> \<not> sched_is_irq_ctx w
                \<and> vcpu_effective_qos_class (vcpus w v) \<ge> VCPU_QOS_INTERACTIVE then
               do { best \<leftarrow> sched_highest_priority_ready w;
                    r \<leftarrow> running w;
                    if best = Some v \<and> cur_priority (vcpus w v) \<ge> cur_priority (vcpus w r)
                    then sched_switch_to w (Some v) else Some w }
             else Some w })"

fun wakeup_each :: "world \<Rightarrow> nat \<Rightarrow> vid list \<Rightarrow> int \<Rightarrow> world option" where
  "wakeup_each w q [] pri_boost = Some w"
| "wakeup_each w q (v # vs) pri_boost =
     do { w \<leftarrow> wq_wakeup_vcpu_np w (Some q) v WAKEUP_NO_IMMED_CSW pri_boost; wakeup_each w q vs pri_boost }"

text \<open>\<open>WAKEUP_ONE\<close> on an empty queue passes the null pointer on, which is dereferenced: a fault.\<close>

definition wq_wakeup_np :: "world \<Rightarrow> nat \<Rightarrow> u32 \<Rightarrow> int \<Rightarrow> world option" where
  "wq_wakeup_np w q flags pri_boost =
     do { qs \<leftarrow> arr_get (waitqs w) q;
          if flags AND WAKEUP_ONE = 0 then wakeup_each w q qs pri_boost
          else (case qs of [] \<Rightarrow> None | v # _ \<Rightarrow> wq_wakeup_vcpu_np w (Some q) v (flags AND NOT WAKEUP_ONE) pri_boost) }"

subsection \<open>Semaphores, condition variables and mutexes\<close>

text \<open>
  The slow paths that the assembly fast paths call with preemption disabled. \<open>mtx_unlock_then_wait\<close> ends in \<open>mtx_wake_then_wait\<close>.
\<close>

definition sem_on_wait :: "world \<Rightarrow> nat \<Rightarrow> (bool \<times> int) option \<Rightarrow> (errno option \<times> world) option" where
  "sem_on_wait w q wtp =
     wq_wait_enter w q (case wtp of Some (unbounded, ticks) \<Rightarrow> wq_calc_deadline w True unbounded ticks | None \<Rightarrow> TICKS_MAX)"

definition sem_wakeup :: "world \<Rightarrow> nat \<Rightarrow> world option" where
  "sem_wakeup w q = wq_wakeup_np w q WAKEUP_ONE 0"

definition cnd_wake :: "world \<Rightarrow> nat \<Rightarrow> bool \<Rightarrow> int \<Rightarrow> world option" where
  "cnd_wake w q broadcast pri_boost =
     (let flags = (if broadcast then 0 else WAKEUP_ONE) in wq_wakeup_np w q (flags OR WAKEUP_NO_IMMED_CSW) pri_boost)"

definition mtx_onwait :: "world \<Rightarrow> nat \<Rightarrow> (errno option \<times> world) option" where
  "mtx_onwait w q = wq_wait_enter w q TICKS_MAX"

definition mtx_wake :: "world \<Rightarrow> nat \<Rightarrow> world option" where
  "mtx_wake w q = wq_wakeup_np w q 0 0"

definition mtx_wake_then_wait :: "world \<Rightarrow> nat \<Rightarrow> nat \<Rightarrow> int \<Rightarrow> (errno option \<times> world) option" where
  "mtx_wake_then_wait w mq wq deadline =
     do { w \<leftarrow> wq_wakeup_np w mq WAKEUP_NO_IMMED_CSW 0; (_, w) \<leftarrow> wq_wait_enter w wq deadline; Some (Some EOK, w) }"

subsection \<open>Signals\<close>

definition SIG_FORCE_QUIT :: int where "SIG_FORCE_QUIT = 1"
definition SIG_URGENT :: int where "SIG_URGENT = 2"
definition SIGSET_URGENTS :: u32 where "SIGSET_URGENTS = sig_bit SIG_FORCE_QUIT OR sig_bit SIG_URGENT"
definition SIGSET_ABORTS :: u32 where "SIGSET_ABORTS = sig_bit SIG_FORCE_QUIT"
definition SIGSET_STICKY :: u32 where "SIGSET_STICKY = sig_bit SIG_FORCE_QUIT OR sig_bit SIG_URGENT"

definition vcpu_pending_signals :: "world \<Rightarrow> u32 option" where
  "vcpu_pending_signals w = do { v \<leftarrow> running w; Some (pending_sigs (vcpus w v)) }"

definition vcpu_testabort_np :: "world \<Rightarrow> errno option" where
  "vcpu_testabort_np w = do { v \<leftarrow> running w; Some (if pending_sigs (vcpus w v) AND SIGSET_ABORTS \<noteq> 0 then EABORTED else EOK) }"

definition vcpu_send_signal_boost :: "world \<Rightarrow> vid \<Rightarrow> int \<Rightarrow> int \<Rightarrow> (errno \<times> world) option" where
  "vcpu_send_signal_boost w self signo pri_boost =
     (if signo < SIG_MIN \<or> signo > SIG_MAX then Some (EINVAL, w)
      else
        do { let sigbit = sig_bit signo;
             let w = upd_vcpu w self (\<lambda>vp. vp\<lparr>pending_sigs := pending_sigs vp OR sigbit\<rparr>);
             w \<leftarrow> (if signo = SIG_FORCE_QUIT then vcpu_resume w self True else Some w);
             w \<leftarrow> (if wait_sigs (vcpus w self) AND sigbit \<noteq> 0
                    then wq_wakeup_vcpu_np w (waiting_on (vcpus w self)) self 0 pri_boost
                    else Some w);
             Some (EOK, w) })"

definition get_highest_pri_sig :: "u32 \<Rightarrow> int" where
  "get_highest_pri_sig sigs =
     (case filter (\<lambda>i. sigs AND push_bit i 1 \<noteq> 0) [nat (SIG_MIN - 1)..<nat SIG_MAX] of [] \<Rightarrow> 0 | i # _ \<Rightarrow> int i + 1)"

text \<open>One pass of the loop of \<open>vcpu_sigwait\<close>: it returns an error or a signal, or the vcpu has switched away to wait.\<close>

datatype sig_outcome = SigError errno | SigReceived int | SigBlocked

definition vcpu_sigwait_pass :: "world \<Rightarrow> nat \<Rightarrow> u32 \<Rightarrow> u32 \<Rightarrow> int \<Rightarrow> (sig_outcome \<times> world) option" where
  "vcpu_sigwait_pass w wq sigs flags deadline =
     (let doAbort = (flags AND SIGWAIT_NOABORT = 0);
          consumable_sigs = sigs AND NOT SIGSET_ABORTS AND NOT SIGSET_URGENTS;
          awaiting_sigs = (if doAbort then consumable_sigs OR SIGSET_ABORTS else consumable_sigs)
      in do { v \<leftarrow> running w;
              if pending_sigs (vcpus w v) AND awaiting_sigs \<noteq> 0 then
                do { ab \<leftarrow> vcpu_testabort_np w;
                     if doAbort \<and> ab = EABORTED then Some (SigError EABORTED, w)
                     else
                       (let hp_sig = get_highest_pri_sig (pending_sigs (vcpus w v) AND consumable_sigs)
                        in Some (SigReceived hp_sig, upd_vcpu w v (\<lambda>vp. vp\<lparr>pending_sigs := pending_sigs vp AND NOT (sig_bit hp_sig)\<rparr>))) }
              else
                do { (r, w) \<leftarrow> wq_wait_enter (upd_vcpu w v (\<lambda>vp. vp\<lparr>wait_sigs := awaiting_sigs\<rparr>)) wq deadline;
                     Some (case r of Some err \<Rightarrow> SigError err | None \<Rightarrow> SigBlocked, w) } })"

text \<open>
  \<open>vcpu_syscall_epilog\<close> when no abort signal is pending; with one the vcpu is relinquished and does not return. A deferred suspend
  switches to another vcpu: then the rest of the function, \<open>vcpu_syscall_epilog_leave\<close>, is run when the vcpu has been resumed and scheduled again.
\<close>

definition vcpu_syscall_epilog_leave :: "world \<Rightarrow> vid \<Rightarrow> world" where
  "vcpu_syscall_epilog_leave w self = upd_vcpu w self (\<lambda>vp. vp\<lparr>pending_sigs := pending_sigs vp AND NOT SIGSET_STICKY\<rparr>)"

definition vcpu_syscall_epilog :: "world \<Rightarrow> vid \<Rightarrow> world option" where
  "vcpu_syscall_epilog w self =
     (if pending_sigs (vcpus w self) AND SIGSET_ABORTS \<noteq> 0 then None
      else if pending_sigs (vcpus w self) AND SIGSET_URGENTS \<noteq> 0 then
        do { w \<leftarrow> vcpu_do_deferred_suspend_np w self;
             Some (if running w = Some self then vcpu_syscall_epilog_leave w self else w) }
      else Some (vcpu_syscall_epilog_leave w self))"

definition VP_TAG_SYS :: int where "VP_TAG_SYS = 1"
definition VP_TAG_USER :: int where "VP_TAG_USER = 2"
definition INT16_MAX :: int where "INT16_MAX = 32767"

definition vcpu_suspend :: "world \<Rightarrow> vid \<Rightarrow> (errno \<times> world) option" where
  "vcpu_suspend w self =
     do { cur_vp \<leftarrow> running w;
          if self = idle_vp w \<or> self = boot_vp w then Some (EINVAL, w)
          else if vtag (vcpus w self) \<noteq> VP_TAG_USER \<and> self \<noteq> cur_vp then Some (EPERM, w)
          else if suspension_count (vcpus w self) = INT16_MAX then Some (EINVAL, w)
          else
            do { let w = upd_vcpu w self (\<lambda>vp. vp\<lparr>suspension_count := suspension_count vp + 1\<rparr>);
                 if cur_vp = self then
                   do { let w = upd_vcpu w self (\<lambda>vp. vp\<lparr>run_state := VCPU_STATE_SUSPENDED\<rparr>);
                        best \<leftarrow> sched_highest_priority_ready w;
                        w \<leftarrow> sched_switch_to w best;
                        Some (EOK, w) }
                 else if suspension_count (vcpus w self) = 1 \<and> run_state (vcpus w self) \<noteq> VCPU_STATE_SUSPENDED then
                   do { (_, w) \<leftarrow> vcpu_send_signal_boost w self SIG_URGENT 0; Some (EOK, w) }
                 else Some (EOK, w) } }"

subsection \<open>Interrupts\<close>

definition sched_wait_timeout_irq :: "world \<Rightarrow> vid \<Rightarrow> world option" where
  "sched_wait_timeout_irq w v = wq_wakeup_vcpu_np w (waiting_on (vcpus w v)) v (WAKEUP_TIMEOUT OR WAKEUP_ONE) 0"

text \<open>
  The loop of \<open>clock_irq\<close> over the deadline queue. The second argument bounds the number of passes: every pass takes one deadline off
  the queue, so the length of the queue is enough, and running out of passes is a fault.
\<close>

fun fire_deadlines :: "world \<Rightarrow> nat \<Rightarrow> world option" where
  "fire_deadlines w 0 = (case deadline_queue w of [] \<Rightarrow> Some w | v # _ \<Rightarrow> if t_deadline (vcpus w v) > tick_count w then Some w else None)"
| "fire_deadlines w (Suc n) =
     (case deadline_queue w of
        [] \<Rightarrow> Some w
      | v # vs \<Rightarrow>
          if t_deadline (vcpus w v) > tick_count w then Some w
          else
            do { w \<leftarrow> sched_wait_timeout_irq (upd_vcpu (w\<lparr>deadline_queue := vs\<rparr>) v (\<lambda>vp. vp\<lparr>is_armed := False\<rparr>)) v;
                 fire_deadlines w n })"

definition sched_on_tick_irq :: "world \<Rightarrow> bool \<Rightarrow> world option" where
  "sched_on_tick_irq w isuser =
     do { run \<leftarrow> running w;
          let w = upd_vcpu w run (\<lambda>vp. if quantum_countdown vp > 0
                                       then vp\<lparr>quantum_countdown := quantum_countdown vp - SCHED_QUANTUM_SCALE\<rparr> else vp);
          if isuser then
            do { let w = upd_vcpu w run (\<lambda>vp. vp\<lparr>v_usr_ticks := v_usr_ticks vp + 1\<rparr>);
                 pr \<leftarrow> vproc (vcpus w run);
                 Some (w\<lparr>p_usr_ticks := (p_usr_ticks w)(pr := p_usr_ticks w pr + 1), s_usr_ticks := s_usr_ticks w + 1\<rparr>) }
          else
            (let w = upd_vcpu w run (\<lambda>vp. vp\<lparr>v_sys_ticks := v_sys_ticks vp + 1\<rparr>);
                 w = (case vproc (vcpus w run) of
                        Some pr \<Rightarrow> w\<lparr>p_sys_ticks := (p_sys_ticks w)(pr := p_sys_ticks w pr + 1)\<rparr> | None \<Rightarrow> w)
             in Some (if vtag (vcpus w run) = VP_TAG_SYS then w\<lparr>s_sys_ticks := s_sys_ticks w + 1\<rparr>
                      else w\<lparr>s_idle_ticks := s_idle_ticks w + 1\<rparr>)) }"

text \<open>What the end of a quantum does to the running vcpu.\<close>

definition quantum_finished :: "world \<Rightarrow> vcpu \<Rightarrow> vcpu" where
  "quantum_finished w run =
     (let run1 =
        (if \<not> fixed_pri run then
           (let never_blocked = \<not> did_wait run;
                r = (if never_blocked then
                       run\<lparr>priority_boost := 0, quantum_boost := 0,
                           priority_penalty := (if priority_penalty run < SCHED_PRI_HIGHEST then priority_penalty run + 1 else priority_penalty run)\<rparr>
                     else run);
                decay = (priority_boost r > 0);
                r = (if decay then r\<lparr>priority_boost := priority_boost r - 1\<rparr> else r)
            in if never_blocked \<or> decay then vcpu_on_sched_param_changed_np w r else r)
         else run)
      in vcpu_reset_quantum_np w (run1\<lparr>did_wait := False\<rparr>))"

text \<open>
  The injection of \<open>sig_urgent()\<close> into the interrupted user code changes only the exception frame and is not part of the model.
\<close>

definition sched_on_any_irq :: "world \<Rightarrow> world option" where
  "sched_on_any_irq w =
     do { run \<leftarrow> running w;
          rdy \<leftarrow> sched_highest_priority_ready w;
          if quantum_countdown (vcpus w run) > 0 then
            Some (case rdy of
                    Some v \<Rightarrow> if cur_priority (vcpus w v) > cur_priority (vcpus w run) then sched_set_running_as_preemptor w v else w
                  | None \<Rightarrow> w)
          else
            (let w = (case rdy of
                        Some v \<Rightarrow> if cur_priority (vcpus w v) \<ge> cur_priority (vcpus w run) then sched_set_running w v else w
                      | None \<Rightarrow> w)
             in Some (upd_vcpu w run (quantum_finished w))) }"

text \<open>
  An interrupt from its entry to its end: the nesting count, the handlers, \<open>sched_on_any_irq\<close> and the context switch if one is requested
  (\<open>irq_asm.s\<close>). The clock interrupt's handler is \<open>clock_irq\<close>; the handlers of devices may send signals.
\<close>

definition irq_done :: "world \<Rightarrow> world option" where
  "irq_done w =
     do { w \<leftarrow> sched_on_any_irq (w\<lparr>irq_nest_count := irq_nest_count w - 1\<rparr>);
          if csw_switch w then sched_switch_context w else Some w }"

definition clock_irq :: "world \<Rightarrow> bool \<Rightarrow> world option" where
  "clock_irq w isuser =
     do { let w = w\<lparr>tick_count := (tick_count w + 1) mod 4294967296\<rparr>;
          w \<leftarrow> fire_deadlines w (length (deadline_queue w));
          sched_on_tick_irq w isuser }"

definition clock_interrupt :: "world \<Rightarrow> bool \<Rightarrow> world option" where
  "clock_interrupt w isuser =
     do { w \<leftarrow> clock_irq (w\<lparr>irq_nest_count := irq_nest_count w + 1\<rparr>) isuser; irq_done w }"

definition device_interrupt :: "world \<Rightarrow> vid \<Rightarrow> int \<Rightarrow> int \<Rightarrow> world option" where
  "device_interrupt w v signo pri_boost =
     do { (_, w) \<leftarrow> vcpu_send_signal_boost (w\<lparr>irq_nest_count := irq_nest_count w + 1\<rparr>) v signo pri_boost; irq_done w }"

subsection \<open>Boot\<close>

text \<open>
  \<open>sched_create\<close> on cleared memory: the boot and the idle vcpu are initialized, given their policies and resumed. The remaining vcpus of the
  model do not exist yet; they are records of suspended vcpus. \<open>nwq\<close> is the number of wait queues.
\<close>

definition blank_world :: "int \<Rightarrow> int \<Rightarrow> nat \<Rightarrow> world" where
  "blank_world oobb oobm nwq =
     (let w = \<lparr>vcpus = undefined, running = None, scheduled = None, csw_switch = False, csw_preempted = False, irq_nest_count = 0,
               idle_vp = 0, boot_vp = 0, prioq = replicate 80 [], populated = replicate 3 0, waitqs = replicate nwq [],
               tick_count = 0, deadline_queue = [], s_usr_ticks = 0, s_sys_ticks = 0, s_idle_ticks = 0,
               p_usr_ticks = (\<lambda>_. 0), p_sys_ticks = (\<lambda>_. 0), p_wait_ticks = (\<lambda>_. 0), p_waiting_count = (\<lambda>_. 0),
               oob_base = oobb, oob_max = oobm\<rparr>
      in w\<lparr>vcpus := (\<lambda>_. vcpu_init w True)\<rparr>)"

definition VP_TAG_IDLE :: int where "VP_TAG_IDLE = 3"

definition boot_vcpu_create :: "world \<Rightarrow> vid \<Rightarrow> world option" where
  "boot_vcpu_create w v =
     (let w = upd_vcpu w v (\<lambda>_. vcpu_init w True)
      in do { (_, w) \<leftarrow> vcpu_set_policy w v \<lparr>version = policy_size, grade = VCPU_QOS_REALTIME, qpriority = VCPU_PRI_HIGHEST\<rparr>;
              Some (upd_vcpu w v (\<lambda>vp. vp\<lparr>stack_ok := True\<rparr>)) })"

definition idle_vcpu_create :: "world \<Rightarrow> vid \<Rightarrow> world option" where
  "idle_vcpu_create w v =
     (let w = upd_vcpu w v (\<lambda>_. vcpu_init w True)
      in do { (_, w) \<leftarrow> vcpu_set_policy w v \<lparr>version = policy_size, grade = VCPU_QOS_BACKGROUND, qpriority = VCPU_PRI_LOWEST\<rparr>;
              Some (upd_vcpu w v (\<lambda>vp. vp\<lparr>stack_ok := True, vtag := VP_TAG_IDLE\<rparr>)) })"

definition sched_create :: "world \<Rightarrow> vid \<Rightarrow> vid \<Rightarrow> world option" where
  "sched_create w boot idle =
     do { w \<leftarrow> boot_vcpu_create w boot;
          w \<leftarrow> vcpu_resume (w\<lparr>boot_vp := boot\<rparr>) boot False;
          w \<leftarrow> idle_vcpu_create w idle;
          w \<leftarrow> vcpu_resume (w\<lparr>idle_vp := idle\<rparr>) idle False;
          best \<leftarrow> sched_highest_priority_ready w;
          v \<leftarrow> best;
          let w = sched_set_running (w\<lparr>running := None\<rparr>) v;
          if scheduled w = Some boot then Some w else None }"

text \<open>The first switch to the boot vcpu: the restoring half of the context switch.\<close>

definition sched_switch_to_boot_vcpu :: "world \<Rightarrow> world option" where
  "sched_switch_to_boot_vcpu w =
     do { v \<leftarrow> scheduled w;
          w \<leftarrow> sched_set_unready w v True;
          Some (w\<lparr>running := Some v, scheduled := None, csw_switch := False, csw_preempted := False\<rparr>) }"

subsection \<open>Scheduling parameters of a process\<close>

text \<open>The part of a process that holds its scheduling parameters and its vcpus.\<close>

record sched_proc =
  pr_quantum_boost :: int
  pr_sched_nice :: int
  pr_vcpu_queue :: "vid list"

definition SCHED_QUANTUM_BOOST :: int where "SCHED_QUANTUM_BOOST = 1"
definition SCHED_NICE :: int where "SCHED_NICE = 2"

text \<open>The body of the loop over the vcpus of the process.\<close>

definition apply_sched_param :: "world \<Rightarrow> sched_proc \<Rightarrow> int \<Rightarrow> vcpu \<Rightarrow> vcpu" where
  "apply_sched_param w pr ty vp =
     vcpu_on_sched_param_changed_np w
       (if ty = SCHED_QUANTUM_BOOST then vcpu_set_quantum_boost_np vp (pr_quantum_boost pr)
        else if ty = SCHED_NICE then vcpu_set_nice_np vp (pr_sched_nice pr) else vp)"

definition Process_SetSchedParam :: "world \<Rightarrow> sched_proc \<Rightarrow> int \<Rightarrow> int \<Rightarrow> errno \<times> sched_proc \<times> world" where
  "Process_SetSchedParam w self ty param =
     (let (err, hasChanged, pr) =
        (if ty = SCHED_QUANTUM_BOOST then
           (let new_boost = VCPU_CLAMPED_QUANTUM_BOOST param
            in (EOK, new_boost \<noteq> pr_quantum_boost self, self\<lparr>pr_quantum_boost := new_boost\<rparr>))
         else if ty = SCHED_NICE then
           (let new_nice = VCPU_CLAMPED_NICE_PRIORITY param
            in (EOK, new_nice \<noteq> pr_sched_nice self, self\<lparr>pr_sched_nice := new_nice\<rparr>))
         else (EINVAL, False, self))
      in if err = EOK \<and> hasChanged
         then (err, pr, fold (\<lambda>v w. upd_vcpu w v (apply_sched_param w pr ty)) (pr_vcpu_queue pr) w)
         else (err, pr, w))"

end
