(* ===== verification/SchedInv.thy ===== *)
theory SchedInv
  imports Waitq
begin

section \<open>The scheduler stays consistent\<close>

text \<open>
  The invariant of the scheduler that theories \<open>Sched\<close> and \<open>Waitq\<close> model, and the proof that every operation (policy changes, yielding,
  suspending, resuming, waiting, waking up, signalling, interrupts) succeeds without a fault and preserves it.
\<close>

subsection \<open>The invariant of the scheduler\<close>

definition timers_ok :: "world \<Rightarrow> bool" where
  "timers_ok w \<longleftrightarrow> sorted (map (\<lambda>v. t_deadline (vcpus w v)) (deadline_queue w)) \<and> distinct (deadline_queue w)
     \<and> (\<forall>v. v \<in> set (deadline_queue w) \<longleftrightarrow> is_armed (vcpus w v))
     \<and> (\<forall>v. is_armed (vcpus w v) \<longrightarrow> run_state (vcpus w v) = VCPU_STATE_WAITING)"

text \<open>
  One vcpu runs; the idle vcpu is ready or running, so that there is always a vcpu to switch to; no context switch is
  pending; saved stack pointers are valid.
\<close>

definition proc_ok :: "world \<Rightarrow> vid \<Rightarrow> bool" where
  "proc_ok w r \<longleftrightarrow> running w = Some r \<and> (\<forall>v. run_state (vcpus w v) = VCPU_STATE_RUNNING \<longleftrightarrow> v = r)
     \<and> (run_state (vcpus w (idle_vp w)) = VCPU_STATE_READY \<or> idle_vp w = r)
     \<and> scheduled w = None \<and> \<not> csw_switch w \<and> \<not> csw_preempted w \<and> (\<forall>v. stack_ok (vcpus w v))"

definition sched_inv :: "world \<Rightarrow> bool" where
  "sched_inv w \<longleftrightarrow> q_inv w {} \<and> timers_ok w \<and> (\<exists>r. proc_ok w r)"

text \<open>What no operation apart from the clock interrupt changes.\<close>

definition same_frame :: "world \<Rightarrow> world \<Rightarrow> bool" where
  "same_frame w w' \<longleftrightarrow> idle_vp w' = idle_vp w \<and> boot_vp w' = boot_vp w \<and> irq_nest_count w' = irq_nest_count w
     \<and> tick_count w' = tick_count w \<and> length (waitqs w') = length (waitqs w) \<and> (\<forall>v. vproc (vcpus w' v) = vproc (vcpus w v))"

lemma same_frame_refl [simp]: "same_frame w w"
  by (simp add: same_frame_def)

lemma same_frame_trans: "same_frame a b \<Longrightarrow> same_frame b c \<Longrightarrow> same_frame a c"
  by (simp add: same_frame_def)

lemma upd_vcpu_sel [simp]:
  "vcpus (upd_vcpu w v f) = (vcpus w)(v := f (vcpus w v))"
  "running (upd_vcpu w v f) = running w" "scheduled (upd_vcpu w v f) = scheduled w"
  "csw_switch (upd_vcpu w v f) = csw_switch w" "csw_preempted (upd_vcpu w v f) = csw_preempted w"
  "irq_nest_count (upd_vcpu w v f) = irq_nest_count w" "idle_vp (upd_vcpu w v f) = idle_vp w" "boot_vp (upd_vcpu w v f) = boot_vp w"
  "prioq (upd_vcpu w v f) = prioq w" "populated (upd_vcpu w v f) = populated w" "waitqs (upd_vcpu w v f) = waitqs w"
  "tick_count (upd_vcpu w v f) = tick_count w" "deadline_queue (upd_vcpu w v f) = deadline_queue w"
  by (simp_all add: upd_vcpu_def)

lemma timers_ok_upd:
  assumes "timers_ok w" "t_deadline (f (vcpus w v)) = t_deadline (vcpus w v)" "is_armed (f (vcpus w v)) = is_armed (vcpus w v)"
    and "is_armed (vcpus w v) \<Longrightarrow> run_state (f (vcpus w v)) = run_state (vcpus w v)"
  shows "timers_ok (upd_vcpu w v f)"
proof -
  have "map (\<lambda>u. t_deadline (vcpus (upd_vcpu w v f) u)) (deadline_queue w) = map (\<lambda>u. t_deadline (vcpus w u)) (deadline_queue w)"
    using assms(2) by simp
  then show ?thesis using assms unfolding timers_ok_def by (simp del: map_eq_conv)
qed

text \<open>An update that keeps the state, and the priority of a ready vcpu.\<close>

lemma q_inv_upd_state:
  assumes "q_inv w {}" "wf_vcpu (f (vcpus w v))" "run_state (f (vcpus w v)) = run_state (vcpus w v)"
    "waiting_on (f (vcpus w v)) = waiting_on (vcpus w v)"
    "run_state (vcpus w v) = VCPU_STATE_READY \<Longrightarrow> cur_priority (f (vcpus w v)) = cur_priority (vcpus w v)"
  shows "q_inv (upd_vcpu w v f) {}"
proof -
  have ready: "run_state (vcpus (upd_vcpu w v f) u) = VCPU_STATE_READY \<and> cur_priority (vcpus (upd_vcpu w v f) u) = i
      \<longleftrightarrow> run_state (vcpus w u) = VCPU_STATE_READY \<and> cur_priority (vcpus w u) = i" for u i
    using assms(3,5) by auto
  have "run_state (vcpus (upd_vcpu w v f) u) = run_state (vcpus w u)" "waiting_on (vcpus (upd_vcpu w v f) u) = waiting_on (vcpus w u)" for u
    using assms(3,4) by simp_all
  then show ?thesis
    using assms(1,2) ready unfolding q_inv_def queues_ok_def rq_ok_def all_wf_def by simp
qed

lemma sched_inv_upd:
  assumes "sched_inv w" "wf_vcpu (f (vcpus w v))" "run_state (f (vcpus w v)) = run_state (vcpus w v)"
    "waiting_on (f (vcpus w v)) = waiting_on (vcpus w v)"
    "run_state (vcpus w v) = VCPU_STATE_READY \<Longrightarrow> cur_priority (f (vcpus w v)) = cur_priority (vcpus w v)"
    "t_deadline (f (vcpus w v)) = t_deadline (vcpus w v)" "is_armed (f (vcpus w v)) = is_armed (vcpus w v)"
    "stack_ok (f (vcpus w v)) = stack_ok (vcpus w v)"
  shows "sched_inv (upd_vcpu w v f)"
proof -
  obtain r where "proc_ok w r" using assms(1) by (auto simp: sched_inv_def)
  then have "proc_ok (upd_vcpu w v f) r" using assms(3,8) by (auto simp: proc_ok_def)
  moreover have "q_inv (upd_vcpu w v f) {}"
    by (rule q_inv_upd_state) (use assms in \<open>auto simp: sched_inv_def\<close>)
  moreover have "timers_ok (upd_vcpu w v f)"
    by (rule timers_ok_upd) (use assms in \<open>auto simp: sched_inv_def\<close>)
  ultimately show ?thesis by (auto simp: sched_inv_def)
qed

lemma sched_inv_facts:
  assumes "sched_inv w"
  obtains r where "running w = Some r" "proc_ok w r" "q_inv w {}" "timers_ok w" "run_state (vcpus w r) = VCPU_STATE_RUNNING"
    "\<not> is_armed (vcpus w r)" "rq_ok w" "all_wf w"
proof -
  obtain r where r: "q_inv w {}" "timers_ok w" "proc_ok w r" using assms unfolding sched_inv_def by blast
  then have "running w = Some r" "run_state (vcpus w r) = VCPU_STATE_RUNNING" unfolding proc_ok_def by simp_all
  moreover from this(2) have "\<not> is_armed (vcpus w r)" using r(2) unfolding timers_ok_def by force
  moreover have "rq_ok w" "all_wf w" using r(1) unfolding q_inv_def by simp_all
  ultimately show thesis using r that by blast
qed

text \<open>The switch that ends every blocking operation; \<open>r\<close> is the vcpu that leaves the processor.\<close>

definition leaving :: "world \<Rightarrow> vid \<Rightarrow> bool" where
  "leaving w r \<longleftrightarrow> running w = Some r \<and> run_state (vcpus w r) \<noteq> VCPU_STATE_READY
     \<and> (\<forall>v. run_state (vcpus w v) = VCPU_STATE_RUNNING \<longrightarrow> v = r)
     \<and> (run_state (vcpus w (idle_vp w)) = VCPU_STATE_READY \<or> (idle_vp w = r \<and> run_state (vcpus w r) = VCPU_STATE_RUNNING))
     \<and> (\<forall>v. stack_ok (vcpus w v))"

lemma switch_context_inv:
  assumes "q_inv w {}" "timers_ok w" "leaving w r" "scheduled w = Some v" "run_state (vcpus w v) = VCPU_STATE_READY"
  shows "\<exists>w'. sched_switch_context w = Some w' \<and> sched_inv w' \<and> same_frame w w' \<and> running w' = Some v"
proof -
  obtain pq pop where w': "sched_switch_context w =
      Some (w\<lparr>vcpus := switched (vcpus w) r v, prioq := pq, populated := pop, running := Some v, scheduled := None,
               csw_switch := False, csw_preempted := False\<rparr>)"
      "q_inv (w\<lparr>vcpus := switched (vcpus w) r v, prioq := pq, populated := pop, running := Some v, scheduled := None,
               csw_switch := False, csw_preempted := False\<rparr>) {}" (is "q_inv ?w {}")
    using sched_switch_context_ok [of w r v] assms by (auto simp: leaving_def)
  have sw: "t_deadline (switched (vcpus w) r v u) = t_deadline (vcpus w u)" "is_armed (switched (vcpus w) r v u) = is_armed (vcpus w u)"
    "vproc (switched (vcpus w) r v u) = vproc (vcpus w u)" "stack_ok (switched (vcpus w) r v u) = stack_ok (vcpus w u)" for u
    by (auto simp: switched_def)
  have vr: "v \<noteq> r" using assms(3,5) unfolding leaving_def by metis
  have st: "run_state (switched (vcpus w) r v u) =
      (if u = v then VCPU_STATE_RUNNING else if u = r \<and> run_state (vcpus w r) = VCPU_STATE_RUNNING then VCPU_STATE_READY
       else run_state (vcpus w u))" for u
    by (simp add: switched_def)
  have "timers_ok ?w"
    using assms(2,5) unfolding timers_ok_def by (simp add: sw st) force
  moreover have "proc_ok ?w v"
  proof -
    have only: "u = r" if "run_state (vcpus w u) = VCPU_STATE_RUNNING" for u using assms(3) that unfolding leaving_def by blast
    have idle: "run_state (vcpus w (idle_vp w)) = VCPU_STATE_READY \<or> idle_vp w = r \<and> run_state (vcpus w r) = VCPU_STATE_RUNNING"
      using assms(3) unfolding leaving_def by blast
    show ?thesis
      using assms(3) idle only vr unfolding proc_ok_def leaving_def by (simp add: sw st) metis
  qed
  moreover have "same_frame w ?w" by (simp add: same_frame_def sw)
  ultimately show ?thesis using w' by (auto simp: sched_inv_def)
qed

lemma switch_away_inv:
  assumes "q_inv w {}" "timers_ok w" "leaving w r" "idle_vp w \<noteq> r"
  shows "\<exists>best w'. sched_highest_priority_ready w = Some best \<and> sched_switch_to w best = Some w' \<and> sched_inv w' \<and> same_frame w w'"
proof -
  have "run_state (vcpus w (idle_vp w)) = VCPU_STATE_READY" using assms(3,4) by (auto simp: leaving_def)
  then obtain v where v: "top_ready w = Some v" using top_ready_exists [OF assms(1)] by auto
  have best: "sched_highest_priority_ready w = Some (Some v)"
    using assms(1) v by (simp add: sched_highest_priority_ready_top q_inv_def)
  let ?w = "sched_set_running w v"
  have "leaving ?w r" "timers_ok ?w" "q_inv ?w {}"
    using assms(1-3) by (simp_all add: leaving_def timers_ok_def sched_set_running_def)
  moreover have "run_state (vcpus ?w v) = VCPU_STATE_READY" "scheduled ?w = Some v"
    using top_ready_READY(2) [OF assms(1) v] by (simp_all add: sched_set_running_def)
  ultimately obtain w' where "sched_switch_context ?w = Some w'" "sched_inv w'" "same_frame ?w w'"
    using switch_context_inv [of ?w r v] by blast
  moreover have "same_frame w ?w" by (simp add: same_frame_def sched_set_running_def)
  ultimately have "sched_switch_to w (Some v) = Some w'" "sched_inv w'" "same_frame w w'"
    using same_frame_trans [of w ?w w'] by (simp_all add: sched_switch_to_def)
  then show ?thesis using best by blast
qed

lemma wf_vcpu_other_fields [simp]:
  "wf_vcpu (vp\<lparr>did_wait := b\<rparr>) \<longleftrightarrow> wf_vcpu vp" "wf_vcpu (vp\<lparr>run_state := st\<rparr>) \<longleftrightarrow> wf_vcpu vp"
  "wf_vcpu (vp\<lparr>suspension_count := n\<rparr>) \<longleftrightarrow> wf_vcpu vp" "wf_vcpu (vp\<lparr>waiting_on := q\<rparr>) \<longleftrightarrow> wf_vcpu vp"
  "wf_vcpu (vp\<lparr>wakeup_reason := n\<rparr>) \<longleftrightarrow> wf_vcpu vp" "wf_vcpu (vp\<lparr>quantum_countdown := n\<rparr>) \<longleftrightarrow> wf_vcpu vp"
  "wf_vcpu (vp\<lparr>pending_sigs := s\<rparr>) \<longleftrightarrow> wf_vcpu vp" "wf_vcpu (vp\<lparr>wait_sigs := s\<rparr>) \<longleftrightarrow> wf_vcpu vp"
  "wf_vcpu (vp\<lparr>is_armed := b\<rparr>) \<longleftrightarrow> wf_vcpu vp" "wf_vcpu (vp\<lparr>t_deadline := n\<rparr>) \<longleftrightarrow> wf_vcpu vp"
  "wf_vcpu (vp\<lparr>v_usr_ticks := n\<rparr>) \<longleftrightarrow> wf_vcpu vp" "wf_vcpu (vp\<lparr>v_sys_ticks := n\<rparr>) \<longleftrightarrow> wf_vcpu vp"
  "wf_vcpu (vp\<lparr>v_wait_ticks := n\<rparr>) \<longleftrightarrow> wf_vcpu vp"
  by (simp_all add: wf_vcpu_def)

lemma queues_okD:
  assumes "queues_ok w D"
  shows "p < 80 \<Longrightarrow> distinct (prioq w ! p)"
    "p < 80 \<Longrightarrow> v \<in> set (prioq w ! p) \<longleftrightarrow> v \<notin> D \<and> run_state (vcpus w v) = VCPU_STATE_READY \<and> cur_priority (vcpus w v) = int p"
    "q < length (waitqs w) \<Longrightarrow> distinct (waitqs w ! q)"
    "q < length (waitqs w) \<Longrightarrow>
       v \<in> set (waitqs w ! q) \<longleftrightarrow> v \<notin> D \<and> run_state (vcpus w v) = VCPU_STATE_WAITING \<and> waiting_on (vcpus w v) = Some q"
    "v \<notin> D \<Longrightarrow> run_state (vcpus w v) = VCPU_STATE_WAITING \<Longrightarrow> \<exists>q < length (waitqs w). waiting_on (vcpus w v) = Some q"
  using assms unfolding queues_ok_def by blast+

lemma queues_okI:
  assumes "\<And>p. p < 80 \<Longrightarrow> distinct (prioq w ! p)"
    "\<And>p v. p < 80 \<Longrightarrow> v \<in> set (prioq w ! p) \<longleftrightarrow> v \<notin> D \<and> run_state (vcpus w v) = VCPU_STATE_READY \<and> cur_priority (vcpus w v) = int p"
    "\<And>q. q < length (waitqs w) \<Longrightarrow> distinct (waitqs w ! q)"
    "\<And>q v. q < length (waitqs w) \<Longrightarrow>
       v \<in> set (waitqs w ! q) \<longleftrightarrow> v \<notin> D \<and> run_state (vcpus w v) = VCPU_STATE_WAITING \<and> waiting_on (vcpus w v) = Some q"
    "\<And>v. v \<notin> D \<Longrightarrow> run_state (vcpus w v) = VCPU_STATE_WAITING \<Longrightarrow> \<exists>q < length (waitqs w). waiting_on (vcpus w v) = Some q"
  shows "queues_ok w D"
  using assms unfolding queues_ok_def by blast

lemma proc_okD: "proc_ok w r \<Longrightarrow> run_state (vcpus w v) = VCPU_STATE_RUNNING \<longleftrightarrow> v = r"
  by (simp add: proc_ok_def)

lemma timers_okD: "timers_ok w \<Longrightarrow> is_armed (vcpus w v) \<Longrightarrow> run_state (vcpus w v) = VCPU_STATE_WAITING"
  by (simp add: timers_ok_def)

lemma proc_ok_upd:
  assumes "proc_ok w r" "v \<noteq> r" "stack_ok (f (vcpus w v)) = stack_ok (vcpus w v)" "run_state (f (vcpus w v)) \<noteq> VCPU_STATE_RUNNING"
    "v = idle_vp w \<Longrightarrow> run_state (f (vcpus w v)) = VCPU_STATE_READY"
  shows "proc_ok (upd_vcpu w v f) r"
proof -
  have "run_state (vcpus (upd_vcpu w v f) u) = VCPU_STATE_RUNNING \<longleftrightarrow> u = r" for u
    using assms(1,2,4) unfolding proc_ok_def by simp
  moreover have "run_state (vcpus (upd_vcpu w v f) (idle_vp w)) = VCPU_STATE_READY \<or> idle_vp w = r"
    using assms(1,5) unfolding proc_ok_def by (cases "idle_vp w = v") simp_all
  moreover have "stack_ok (vcpus (upd_vcpu w v f) u)" for u
    using assms(1,3) unfolding proc_ok_def by simp
  ultimately show ?thesis using assms(1) unfolding proc_ok_def by simp
qed

lemma proc_ok_other_fields [simp]:
  "proc_ok (w\<lparr>prioq := a\<rparr>) r \<longleftrightarrow> proc_ok w r" "proc_ok (w\<lparr>populated := b\<rparr>) r \<longleftrightarrow> proc_ok w r"
  "proc_ok (w\<lparr>waitqs := c\<rparr>) r \<longleftrightarrow> proc_ok w r" "proc_ok (w\<lparr>irq_nest_count := d\<rparr>) r \<longleftrightarrow> proc_ok w r"
  "proc_ok (w\<lparr>tick_count := e\<rparr>) r \<longleftrightarrow> proc_ok w r" "proc_ok (w\<lparr>deadline_queue := f\<rparr>) r \<longleftrightarrow> proc_ok w r"
  "proc_ok (w\<lparr>s_usr_ticks := g\<rparr>) r \<longleftrightarrow> proc_ok w r" "proc_ok (w\<lparr>s_sys_ticks := g\<rparr>) r \<longleftrightarrow> proc_ok w r"
  "proc_ok (w\<lparr>s_idle_ticks := g\<rparr>) r \<longleftrightarrow> proc_ok w r" "proc_ok (w\<lparr>p_usr_ticks := h\<rparr>) r \<longleftrightarrow> proc_ok w r"
  "proc_ok (w\<lparr>p_sys_ticks := h\<rparr>) r \<longleftrightarrow> proc_ok w r" "proc_ok (w\<lparr>p_wait_ticks := h\<rparr>) r \<longleftrightarrow> proc_ok w r"
  "proc_ok (w\<lparr>p_waiting_count := h\<rparr>) r \<longleftrightarrow> proc_ok w r"
  by (simp_all add: proc_ok_def)

lemma timers_ok_other_fields [simp]:
  "timers_ok (w\<lparr>prioq := a\<rparr>) \<longleftrightarrow> timers_ok w" "timers_ok (w\<lparr>populated := b\<rparr>) \<longleftrightarrow> timers_ok w"
  "timers_ok (w\<lparr>waitqs := c\<rparr>) \<longleftrightarrow> timers_ok w" "timers_ok (w\<lparr>irq_nest_count := d\<rparr>) \<longleftrightarrow> timers_ok w"
  "timers_ok (w\<lparr>tick_count := e\<rparr>) \<longleftrightarrow> timers_ok w"
  "timers_ok (w\<lparr>s_usr_ticks := g\<rparr>) \<longleftrightarrow> timers_ok w" "timers_ok (w\<lparr>s_sys_ticks := g\<rparr>) \<longleftrightarrow> timers_ok w"
  "timers_ok (w\<lparr>s_idle_ticks := g\<rparr>) \<longleftrightarrow> timers_ok w" "timers_ok (w\<lparr>p_usr_ticks := h\<rparr>) \<longleftrightarrow> timers_ok w"
  "timers_ok (w\<lparr>p_sys_ticks := h\<rparr>) \<longleftrightarrow> timers_ok w" "timers_ok (w\<lparr>p_wait_ticks := h\<rparr>) \<longleftrightarrow> timers_ok w"
  "timers_ok (w\<lparr>p_waiting_count := h\<rparr>) \<longleftrightarrow> timers_ok w" "timers_ok (w\<lparr>running := i\<rparr>) \<longleftrightarrow> timers_ok w"
  "timers_ok (w\<lparr>scheduled := i\<rparr>) \<longleftrightarrow> timers_ok w" "timers_ok (w\<lparr>csw_switch := j\<rparr>) \<longleftrightarrow> timers_ok w"
  "timers_ok (w\<lparr>csw_preempted := j\<rparr>) \<longleftrightarrow> timers_ok w"
  by (simp_all add: timers_ok_def)

lemma sched_inv_other_fields [simp]:
  "sched_inv (w\<lparr>irq_nest_count := d\<rparr>) \<longleftrightarrow> sched_inv w" "sched_inv (w\<lparr>tick_count := e\<rparr>) \<longleftrightarrow> sched_inv w"
  "sched_inv (w\<lparr>s_usr_ticks := g\<rparr>) \<longleftrightarrow> sched_inv w" "sched_inv (w\<lparr>s_sys_ticks := g\<rparr>) \<longleftrightarrow> sched_inv w"
  "sched_inv (w\<lparr>s_idle_ticks := g\<rparr>) \<longleftrightarrow> sched_inv w" "sched_inv (w\<lparr>p_usr_ticks := h\<rparr>) \<longleftrightarrow> sched_inv w"
  "sched_inv (w\<lparr>p_sys_ticks := h\<rparr>) \<longleftrightarrow> sched_inv w" "sched_inv (w\<lparr>p_wait_ticks := h\<rparr>) \<longleftrightarrow> sched_inv w"
  "sched_inv (w\<lparr>p_waiting_count := h\<rparr>) \<longleftrightarrow> sched_inv w"
  by (simp_all add: sched_inv_def)

lemma set_ready_inv:
  assumes "q_inv w {v}" "timers_ok w" "proc_ok w r" "v \<noteq> r" "\<not> is_armed (vcpus w v)"
  shows "\<exists>w'. sched_set_ready w v tail = Some w' \<and> sched_inv w' \<and> same_frame w w' \<and> running w' = running w
    \<and> vcpus w' = (vcpus w)(v := vcpus w v\<lparr>run_state := VCPU_STATE_READY\<rparr>)"
proof -
  let ?u = "upd_vcpu w v (\<lambda>vp. vp\<lparr>run_state := VCPU_STATE_READY\<rparr>)"
  obtain pq pop where w': "sched_set_ready w v tail = Some (?u\<lparr>prioq := pq, populated := pop\<rparr>)"
      "q_inv (?u\<lparr>prioq := pq, populated := pop\<rparr>) {}"
    using sched_set_ready_ok [OF assms(1), of v tail] by auto
  have "timers_ok ?u" by (rule timers_ok_upd) (use assms(2,5) in auto)
  moreover have "proc_ok ?u r" by (rule proc_ok_upd [OF assms(3,4)]) simp_all
  ultimately have "sched_inv (?u\<lparr>prioq := pq, populated := pop\<rparr>)" using w'(2) unfolding sched_inv_def by auto
  moreover have "same_frame w (?u\<lparr>prioq := pq, populated := pop\<rparr>)" by (simp add: same_frame_def)
  ultimately show ?thesis using w'(1) by (intro exI [of _ "?u\<lparr>prioq := pq, populated := pop\<rparr>"]) simp
qed

subsection \<open>Each operation preserves the invariant\<close>

lemma vcpu_set_policy_inv:
  assumes "sched_inv w"
  shows "\<exists>e w'. vcpu_set_policy w v p = Some (e, w') \<and> e = validate_vcpu_policy p \<and> sched_inv w' \<and> same_frame w w'
    \<and> (e = EOK \<longrightarrow> base_priority (vcpus w' v) = SCHED_PRI_FROM_QOS (grade p) (qpriority p))"
proof (cases "validate_vcpu_policy p = EOK")
  case False
  then show ?thesis using assms by (simp add: vcpu_set_policy_def)
next
  case True
  let ?f = "\<lambda>vp. vcpu_on_sched_param_changed_np w (vcpu_set_base_priority_np vp p)"
  obtain r where r: "proc_ok w r" "q_inv w {}" "timers_ok w" "all_wf w" using sched_inv_facts [OF assms] by metis
  have wf: "wf_vcpu (?f (vcpus w v))" by (rule wf_set_policy) (use r True in \<open>simp_all add: all_wf_def\<close>)
  have same: "run_state (?f vp) = run_state vp" "waiting_on (?f vp) = waiting_on vp" "t_deadline (?f vp) = t_deadline vp"
    "is_armed (?f vp) = is_armed vp" "stack_ok (?f vp) = stack_ok vp" "vproc (?f vp) = vproc vp" for vp
    by simp_all
  have base: "base_priority (?f vp) = SCHED_PRI_FROM_QOS (grade p) (qpriority p)" for vp
    using set_base_priority_valid(1) [OF True] by simp
  show ?thesis
  proof (cases "run_state (vcpus w v) = VCPU_STATE_READY")
    case ready: True
    then obtain pq pop where un: "sched_set_unready w v False = Some (w\<lparr>prioq := pq, populated := pop\<rparr>)"
        "q_inv (w\<lparr>prioq := pq, populated := pop\<rparr>) {v}"
      using sched_set_unready_ok [OF r(2), of v False] by auto
    let ?w = "upd_vcpu (w\<lparr>prioq := pq, populated := pop\<rparr>) v ?f"
    have "v \<noteq> r" "\<not> is_armed (vcpus w v)" using proc_okD [OF r(1), of v] timers_okD [OF r(3), of v] ready by auto
    moreover have "q_inv ?w {v}" by (rule q_inv_upd [OF un(2)]) (use wf in simp_all)
    moreover have "timers_ok ?w" by (rule timers_ok_upd) (use r same in simp_all)
    moreover have "proc_ok ?w r"
      by (rule proc_ok_upd) (use r ready same \<open>v \<noteq> r\<close> in simp_all)
    ultimately obtain w' where w': "sched_set_ready ?w v True = Some w'" "sched_inv w'" "same_frame ?w w'"
        "vcpus w' = (vcpus ?w)(v := vcpus ?w v\<lparr>run_state := VCPU_STATE_READY\<rparr>)"
      using set_ready_inv [of ?w v r True] same by auto
    have "same_frame w ?w" by (simp add: same_frame_def)
    then show ?thesis
      using True ready un(1) w' base [of "vcpus w v"] same_frame_trans [of w ?w w']
      by (simp add: vcpu_set_policy_def)
  next
    case False
    then have "vcpu_set_policy w v p = Some (EOK, upd_vcpu w v ?f)"
      using True by (simp add: vcpu_set_policy_def Let_def split: run_state.splits)
    moreover have "sched_inv (upd_vcpu w v ?f)"
      by (rule sched_inv_upd) (use assms wf False in simp_all)
    moreover have "same_frame w (upd_vcpu w v ?f)" by (simp add: same_frame_def)
    ultimately show ?thesis using True base by simp
  qed
qed

lemma leavingI:
  assumes "proc_ok w r"
  shows "leaving w r"
proof -
  have "run_state (vcpus w r) = VCPU_STATE_RUNNING" using proc_okD [OF assms, of r] by simp
  moreover from this have "run_state (vcpus w r) \<noteq> VCPU_STATE_READY" by simp
  ultimately show ?thesis using assms unfolding proc_ok_def leaving_def by blast
qed

lemma proc_ok_running: "proc_ok w r \<Longrightarrow> running w = Some r"
  by (simp add: proc_ok_def)

lemma leaving_upd:
  assumes "proc_ok w r" "idle_vp w \<noteq> r" "run_state (f (vcpus w r)) \<noteq> VCPU_STATE_READY" "stack_ok (f (vcpus w r)) = stack_ok (vcpus w r)"
  shows "leaving (upd_vcpu w r f) r"
  using assms unfolding proc_ok_def leaving_def by simp

lemma leaving_upd_same:
  assumes "leaving w r" "run_state (f (vcpus w v)) = run_state (vcpus w v)" "stack_ok (f (vcpus w v)) = stack_ok (vcpus w v)"
  shows "leaving (upd_vcpu w v f) r"
proof -
  have "run_state (vcpus (upd_vcpu w v f) u) = run_state (vcpus w u)" "stack_ok (vcpus (upd_vcpu w v f) u) = stack_ok (vcpus w u)" for u
    using assms(2,3) by simp_all
  then show ?thesis using assms(1) unfolding leaving_def upd_vcpu_sel(2,7) by metis
qed

lemma leaving_other_fields [simp]:
  "leaving (w\<lparr>deadline_queue := q\<rparr>) r \<longleftrightarrow> leaving w r" "leaving (w\<lparr>p_waiting_count := c\<rparr>) r \<longleftrightarrow> leaving w r"
  by (simp_all add: leaving_def)

lemma timers_ok_upd_unarmed:
  assumes "timers_ok w" "\<not> is_armed (vcpus w v)" "\<not> is_armed (f (vcpus w v))"
  shows "timers_ok (upd_vcpu w v f)"
proof -
  have "v \<notin> set (deadline_queue w)" using assms(1,2) unfolding timers_ok_def by blast
  then have "map (\<lambda>u. t_deadline (vcpus (upd_vcpu w v f) u)) (deadline_queue w) = map (\<lambda>u. t_deadline (vcpus w u)) (deadline_queue w)"
    by (auto simp: map_eq_conv)
  then show ?thesis using assms unfolding timers_ok_def by (simp del: map_eq_conv)
qed

lemma q_inv_suspend:
  assumes "q_inv w {}" "run_state (vcpus w v) = VCPU_STATE_RUNNING" "run_state (f (vcpus w v)) = VCPU_STATE_SUSPENDED"
    "wf_vcpu (f (vcpus w v))"
  shows "q_inv (upd_vcpu w v f) {}"
proof -
  have "q_inv (upd_vcpu w v f) {v}" by (rule q_inv_upd [OF q_inv_insert [OF assms(1)]]) (use assms in simp_all)
  then have "q_inv (upd_vcpu w v f) ({v} - {v})" by (rule q_inv_remove) (use assms in simp_all)
  then show ?thesis by simp
qed

lemma vcpu_yield_inv:
  assumes "sched_inv w" "running w \<noteq> Some (idle_vp w)"
  shows "\<exists>w'. vcpu_yield w = Some w' \<and> sched_inv w' \<and> same_frame w w'"
proof -
  obtain r where r: "running w = Some r" "proc_ok w r" "run_state (vcpus w r) = VCPU_STATE_RUNNING" "all_wf w"
    using sched_inv_facts [OF assms(1)] by metis
  let ?f = "\<lambda>vp. (if \<not> fixed_pri vp \<and> priority_penalty vp > 0
      then vcpu_on_sched_param_changed_np w (vp\<lparr>priority_penalty := priority_penalty vp div 2\<rparr>) else vp)\<lparr>did_wait := True\<rparr>"
  have half: "x div 2 < 80" if "x < 80" for x :: int using that by presburger
  have wf: "wf_vcpu (vcpus w r)" using r(4) unfolding all_wf_def by blast
  then have "wf_vcpu (vcpus w r\<lparr>priority_penalty := priority_penalty (vcpus w r) div 2\<rparr>)"
    using half unfolding wf_vcpu_def by simp
  then have "wf_vcpu (?f (vcpus w r))"
    using wf wf_param_changed [of "vcpus w r\<lparr>priority_penalty := priority_penalty (vcpus w r) div 2\<rparr>" w] by simp
  then have inv: "sched_inv (upd_vcpu w r ?f)" by (intro sched_inv_upd) (use assms(1) r(3) in simp_all)
  then obtain r' where r': "q_inv (upd_vcpu w r ?f) {}" "timers_ok (upd_vcpu w r ?f)" "proc_ok (upd_vcpu w r ?f) r'"
    unfolding sched_inv_def by blast
  then have "r' = r" using r(1) proc_ok_running [OF r'(3)] by simp
  with r' obtain best w' where "sched_highest_priority_ready (upd_vcpu w r ?f) = Some best" "sched_switch_to (upd_vcpu w r ?f) best = Some w'"
      "sched_inv w'" "same_frame (upd_vcpu w r ?f) w'"
    using switch_away_inv [OF r'(1,2) leavingI [OF r'(3)]] assms(2) r(1) by (auto simp del: fun_upd_apply)
  moreover have "same_frame w (upd_vcpu w r ?f)" by (simp add: same_frame_def)
  ultimately show ?thesis
    using r same_frame_trans [of w "upd_vcpu w r ?f" w'] by (simp add: vcpu_yield_def vcpu_yield_np_def)
qed

text \<open>The running vcpu suspends itself: the common part of \<open>vcpu_suspend\<close> and of the deferred suspension.\<close>

lemma suspend_running_inv:
  assumes "sched_inv w" "running w = Some r" "r \<noteq> idle_vp w"
  shows "\<exists>best w'. sched_highest_priority_ready (upd_vcpu w r (\<lambda>vp. vp\<lparr>run_state := VCPU_STATE_SUSPENDED\<rparr>)) = Some best
    \<and> sched_switch_to (upd_vcpu w r (\<lambda>vp. vp\<lparr>run_state := VCPU_STATE_SUSPENDED\<rparr>)) best = Some w' \<and> sched_inv w' \<and> same_frame w w'"
proof -
  let ?w = "upd_vcpu w r (\<lambda>vp. vp\<lparr>run_state := VCPU_STATE_SUSPENDED\<rparr>)"
  obtain r' where r': "running w = Some r'" "proc_ok w r'" "q_inv w {}" "timers_ok w" "run_state (vcpus w r') = VCPU_STATE_RUNNING"
    "\<not> is_armed (vcpus w r')" "all_wf w"
    using sched_inv_facts [OF assms(1)] by metis
  have rr: "r' = r" using r'(1) assms(2) by simp
  note r = r' [unfolded rr]
  have "wf_vcpu (vcpus w r\<lparr>run_state := VCPU_STATE_SUSPENDED\<rparr>)" using r(7) by (simp add: all_wf_def)
  then have "q_inv ?w {}" by (intro q_inv_suspend) (use r in simp_all)
  moreover have "timers_ok ?w" by (rule timers_ok_upd_unarmed) (use r in simp_all)
  moreover have "leaving ?w r" by (rule leaving_upd) (use r assms(3) in auto)
  ultimately have "\<exists>best w'. sched_highest_priority_ready ?w = Some best \<and> sched_switch_to ?w best = Some w' \<and> sched_inv w' \<and> same_frame ?w w'"
    using assms(3) by (intro switch_away_inv [of _ r]) simp_all
  moreover have "same_frame w ?w" by (simp add: same_frame_def)
  ultimately show ?thesis using same_frame_trans by blast
qed

lemma vcpu_resume_inv:
  assumes "sched_inv w" "v \<noteq> idle_vp w"
  shows "\<exists>w'. vcpu_resume w v force = Some w' \<and> sched_inv w' \<and> same_frame w w' \<and> running w' = running w
    \<and> (\<forall>u. (run_state (vcpus w' u) = VCPU_STATE_WAITING \<longleftrightarrow> run_state (vcpus w u) = VCPU_STATE_WAITING) \<and> waiting_on (vcpus w' u) = waiting_on (vcpus w u)
          \<and> wait_sigs (vcpus w' u) = wait_sigs (vcpus w u))"
proof (cases "suspension_count (vcpus w v) > 0")
  case False
  then show ?thesis using assms by (simp add: vcpu_resume_def)
next
  case True
  let ?f = "\<lambda>vp. vp\<lparr>suspension_count := (if force then 0 else suspension_count vp - 1)\<rparr>"
  let ?w = "upd_vcpu w v ?f"
  obtain r where r: "proc_ok w r" "all_wf w" using sched_inv_facts [OF assms(1)] by metis
  have "wf_vcpu (?f (vcpus w v))" using r(2) by (simp add: all_wf_def)
  then have inv: "sched_inv ?w" by (intro sched_inv_upd) (use assms(1) in simp_all)
  have frame: "same_frame w ?w" by (simp add: same_frame_def)
  show ?thesis
  proof (cases "suspension_count (vcpus ?w v) = 0 \<and> run_state (vcpus w v) = VCPU_STATE_SUSPENDED")
    case False
    then show ?thesis using True inv frame by (auto simp: vcpu_resume_def)
  next
    case susp: True
    obtain r' where r': "proc_ok ?w r'" "q_inv ?w {}" "timers_ok ?w" using sched_inv_facts [OF inv] by metis
    have "q_inv ?w {v}" by (rule q_inv_insert [OF r'(2)]) (use susp in simp_all)
    moreover have "v \<noteq> r'" "\<not> is_armed (vcpus ?w v)"
      using proc_okD [OF r'(1), of v] timers_okD [OF r'(3), of v] susp by auto
    ultimately obtain w' where "sched_set_ready ?w v True = Some w'" "sched_inv w'" "same_frame ?w w'" "running w' = running ?w"
        "vcpus w' = (vcpus ?w)(v := vcpus ?w v\<lparr>run_state := VCPU_STATE_READY\<rparr>)"
      using set_ready_inv [of ?w v r' True] r' by auto
    then show ?thesis using True susp frame same_frame_trans [of w ?w w'] by (simp add: vcpu_resume_def)
  qed
qed

end
 
