(* ===== verification/SchedOps.thy ===== *)
theory SchedOps
  imports SchedInv
begin

section \<open>Waiting, waking up, signals and interrupts keep the scheduler consistent\<close>

text \<open>
  The operations of theory \<open>Waitq\<close> that block, wake up or interrupt vcpus preserve the invariant of theory \<open>SchedInv\<close>; the calls are then
  combined into one transition system, and the theorems of the component are stated about all its runs.
\<close>

subsection \<open>Waiting\<close>

lemma q_inv_enqueue:
  assumes inv: "q_inv w {v}" and q: "q < length (waitqs w)"
    and f: "run_state (f (vcpus w v)) = VCPU_STATE_WAITING" "waiting_on (f (vcpus w v)) = Some q" "wf_vcpu (f (vcpus w v))"
  shows "q_inv (upd_vcpu (w\<lparr>waitqs := (waitqs w)[q := waitqs w ! q @ [v]]\<rparr>) v f) {}" (is "q_inv ?w {}")
proof -
  have "queues_ok w {v}" using inv by (simp add: q_inv_def)
  note Q = queues_okD [OF this]
  have "queues_ok ?w {}"
  proof (rule queues_okI)
    fix p u assume p: "p < (80 :: nat)"
    show "distinct (prioq ?w ! p)" using Q(1) [OF p] by simp
    show "u \<in> set (prioq ?w ! p) \<longleftrightarrow> u \<notin> {} \<and> run_state (vcpus ?w u) = VCPU_STATE_READY \<and> cur_priority (vcpus ?w u) = int p"
      using Q(2) [OF p, of u] f by (cases "u = v") simp_all
  next
    fix k u assume "k < length (waitqs ?w)"
    then have k: "k < length (waitqs w)" by simp
    show "distinct (waitqs ?w ! k)" using Q(3) [OF k] Q(4) [OF k, of v] q by (simp add: nth_list_update)
    show "u \<in> set (waitqs ?w ! k) \<longleftrightarrow> u \<notin> {} \<and> run_state (vcpus ?w u) = VCPU_STATE_WAITING \<and> waiting_on (vcpus ?w u) = Some k"
      using Q(4) [OF k, of u] f q by (cases "u = v"; cases "k = q") simp_all
  next
    fix u assume "run_state (vcpus ?w u) = VCPU_STATE_WAITING"
    then show "\<exists>k < length (waitqs ?w). waiting_on (vcpus ?w u) = Some k"
      using Q(5) [of u] f q by (cases "u = v") simp_all
  qed
  moreover have "rq_ok ?w" "all_wf ?w" using inv f(3) by (simp_all add: q_inv_def rq_ok_def all_wf_def)
  ultimately show ?thesis by (simp add: q_inv_def)
qed

lemma sorted_insert_after:
  fixes f :: "'a \<Rightarrow> 'b::linorder"
  assumes "sorted (map f xs)"
  shows "sorted (map f (takeWhile (\<lambda>u. f u \<le> f v) xs @ v # dropWhile (\<lambda>u. f u \<le> f v) xs))"
  using assms
proof (induction xs)
  case (Cons x xs)
  show ?case
  proof (cases "f x \<le> f v")
    case True
    moreover have "set (takeWhile (\<lambda>u. f u \<le> f v) xs) \<union> set (dropWhile (\<lambda>u. f u \<le> f v) xs) = set xs"
      by (metis set_append takeWhile_dropWhile_id)
    ultimately show ?thesis using Cons by auto
  next
    case False
    then show ?thesis using Cons by auto
  qed
qed simp

lemma timers_okI:
  assumes "\<And>u. t_deadline (vcpus w u) = d u" "sorted (map d (deadline_queue w))" "distinct (deadline_queue w)"
    "\<And>u. u \<in> set (deadline_queue w) \<longleftrightarrow> is_armed (vcpus w u)"
    "\<And>u. is_armed (vcpus w u) \<Longrightarrow> run_state (vcpus w u) = VCPU_STATE_WAITING"
  shows "timers_ok w"
  using assms unfolding timers_ok_def by simp

lemma clock_deadline_ok:
  assumes "timers_ok w" "\<not> is_armed (vcpus w v)" "run_state (vcpus w v) = VCPU_STATE_WAITING"
  shows "\<exists>dq. clock_deadline w v = Some (upd_vcpu (w\<lparr>deadline_queue := dq\<rparr>) v (\<lambda>vp. vp\<lparr>is_armed := True\<rparr>))
    \<and> timers_ok (upd_vcpu (w\<lparr>deadline_queue := dq\<rparr>) v (\<lambda>vp. vp\<lparr>is_armed := True\<rparr>))"
proof -
  let ?d = "\<lambda>u. t_deadline (vcpus w u)" and ?q = "deadline_queue w"
  define dq where "dq = takeWhile (\<lambda>u. ?d u \<le> ?d v) ?q @ v # dropWhile (\<lambda>u. ?d u \<le> ?d v) ?q"
  have T: "sorted (map ?d ?q)" "distinct ?q" "\<And>u. u \<in> set ?q \<longleftrightarrow> is_armed (vcpus w u)"
    "\<And>u. is_armed (vcpus w u) \<Longrightarrow> run_state (vcpus w u) = VCPU_STATE_WAITING"
    using assms(1) unfolding timers_ok_def by blast+
  let ?w = "upd_vcpu (w\<lparr>deadline_queue := dq\<rparr>) v (\<lambda>vp. vp\<lparr>is_armed := True\<rparr>)"
  have set_dq: "set dq = insert v (set ?q)"
    unfolding dq_def by simp (metis set_append takeWhile_dropWhile_id)
  have "distinct dq"
  proof -
    have "distinct (takeWhile (\<lambda>u. ?d u \<le> ?d v) ?q @ dropWhile (\<lambda>u. ?d u \<le> ?d v) ?q)" "v \<notin> set ?q"
      using T(2,3) assms(2) by simp_all
    then have "distinct (takeWhile (\<lambda>u. ?d u \<le> ?d v) ?q)" "distinct (dropWhile (\<lambda>u. ?d u \<le> ?d v) ?q)"
      "set (takeWhile (\<lambda>u. ?d u \<le> ?d v) ?q) \<inter> set (dropWhile (\<lambda>u. ?d u \<le> ?d v) ?q) = {}"
      unfolding distinct_append by blast+
    with \<open>v \<notin> set ?q\<close> show ?thesis unfolding dq_def by (auto dest: set_takeWhileD set_dropWhileD)
  qed
  moreover have "sorted (map ?d dq)" unfolding dq_def by (rule sorted_insert_after [OF T(1)])
  moreover have "t_deadline (vcpus ?w u) = ?d u" for u by simp
  moreover have "u \<in> set dq \<longleftrightarrow> is_armed (vcpus ?w u)" for u using set_dq T(3) [of u] by simp
  moreover have "run_state (vcpus ?w u) = VCPU_STATE_WAITING" if "is_armed (vcpus ?w u)" for u
    using T(4) [of u] assms(3) that by (cases "u = v") simp_all
  ultimately have "timers_ok ?w" by (intro timers_okI [of ?w ?d]) simp_all
  moreover have "clock_deadline w v = Some ?w" using assms(2) by (simp add: clock_deadline_def Let_def dq_def)
  ultimately show ?thesis by blast
qed

lemma clock_cancel_ok:
  assumes "timers_ok w"
  shows "timers_ok (snd (clock_cancel_deadline w v)) \<and> \<not> is_armed (vcpus (snd (clock_cancel_deadline w v)) v)"
proof (cases "is_armed (vcpus w v)")
  case True
  let ?d = "\<lambda>u. t_deadline (vcpus w u)" and ?q = "deadline_queue w"
  let ?w = "upd_vcpu (w\<lparr>deadline_queue := remove1 v ?q\<rparr>) v (\<lambda>vp. vp\<lparr>is_armed := False\<rparr>)"
  have T: "sorted (map ?d ?q)" "distinct ?q" "\<And>u. u \<in> set ?q \<longleftrightarrow> is_armed (vcpus w u)"
    "\<And>u. is_armed (vcpus w u) \<Longrightarrow> run_state (vcpus w u) = VCPU_STATE_WAITING"
    using assms unfolding timers_ok_def by blast+
  have "remove1 v ?q = filter (\<lambda>u. u \<noteq> v) ?q" using distinct_remove1_removeAll [OF T(2)] by (simp add: removeAll_filter_not_eq eq_commute)
  then have "sorted (map ?d (remove1 v ?q))" using T(1) by (simp add: sorted_filter)
  moreover have "distinct (remove1 v ?q)" "set (remove1 v ?q) = set ?q - {v}" using T(2) by (simp_all add: set_remove1_eq)
  moreover have "run_state (vcpus ?w u) = VCPU_STATE_WAITING" if "is_armed (vcpus ?w u)" for u
    using T(4) [of u] that by (cases "u = v") simp_all
  ultimately have "timers_ok ?w" using T(3) by (intro timers_okI [of ?w ?d]) simp_all
  then show ?thesis using True by (simp add: clock_cancel_deadline_def)
next
  case False
  then show ?thesis using assms by (simp add: clock_cancel_deadline_def)
qed

text \<open>The state of a vcpu that enters a wait.\<close>

lemma wq_wait_enter_inv:
  assumes "sched_inv w" "running w = Some r" "r \<noteq> idle_vp w" "vproc (vcpus w r) = Some pr" "q < length (waitqs w)"
    "deadline < TICKS_MAX \<Longrightarrow> tick_count w < deadline"
  shows "\<exists>w'. wq_wait_enter w q deadline = Some (None, w') \<and> sched_inv w' \<and> same_frame w w'"
proof -
  obtain r' where r': "q_inv w {}" "timers_ok w" "proc_ok w r'" using assms(1) unfolding sched_inv_def by blast
  have "r' = r" using proc_ok_running [OF r'(3)] assms(2) by simp
  note r = r' [unfolded this]
  have run: "run_state (vcpus w r) = VCPU_STATE_RUNNING" using proc_okD [OF r(3), of r] by simp
  have unarmed: "\<not> is_armed (vcpus w r)" using timers_okD [OF r(2), of r] run by auto
  have wf: "wf_vcpu (vcpus w r)" using r(1) by (simp add: q_inv_def all_wf_def)
  have det: "q_inv w {r}" by (rule q_inv_insert [OF r(1)]) (use run in simp_all)
  let ?f = "\<lambda>vp. vp\<lparr>run_state := VCPU_STATE_WAITING, waiting_on := Some q, wakeup_reason := 0, did_wait := True,
      quantum_countdown := (if quantum_countdown vp > 0 then quantum_countdown vp - SCHED_QUANTUM_NUDGE else quantum_countdown vp)\<rparr>"
  let ?w1 = "upd_vcpu (w\<lparr>waitqs := (waitqs w)[q := waitqs w ! q @ [r]]\<rparr>) r ?f"
  have q1: "q_inv ?w1 {}" by (rule q_inv_enqueue [OF det assms(5)]) (use wf in simp_all)
  have t1: "timers_ok ?w1" by (rule timers_ok_upd_unarmed) (use r(2) unarmed in simp_all)
  have l1: "leaving ?w1 r" by (rule leaving_upd) (use r(3) assms(3) in auto)
  have f1: "same_frame w ?w1" by (simp add: same_frame_def)
  obtain w2 where w2: "(if deadline < TICKS_MAX then clock_deadline (upd_vcpu ?w1 r (\<lambda>vp. vp\<lparr>t_deadline := deadline\<rparr>)) r else Some ?w1) = Some w2"
    "q_inv w2 {}" "timers_ok w2" "leaving w2 r" "same_frame ?w1 w2" "idle_vp w2 = idle_vp w"
  proof (cases "deadline < TICKS_MAX")
    case True
    let ?w2 = "upd_vcpu ?w1 r (\<lambda>vp. vp\<lparr>t_deadline := deadline\<rparr>)"
    have q2: "q_inv ?w2 {}" by (rule q_inv_upd_same [OF q1]) (use wf in simp_all)
    have t2: "timers_ok ?w2" by (rule timers_ok_upd_unarmed [OF t1]) (use unarmed in simp_all)
    obtain dq where dq: "clock_deadline ?w2 r = Some (upd_vcpu (?w2\<lparr>deadline_queue := dq\<rparr>) r (\<lambda>vp. vp\<lparr>is_armed := True\<rparr>))"
        "timers_ok (upd_vcpu (?w2\<lparr>deadline_queue := dq\<rparr>) r (\<lambda>vp. vp\<lparr>is_armed := True\<rparr>))" (is "timers_ok ?w3")
    proof -
      have "\<not> is_armed (vcpus ?w2 r)" "run_state (vcpus ?w2 r) = VCPU_STATE_WAITING" using unarmed by simp_all
      then show ?thesis using clock_deadline_ok [OF t2, of r] that by blast
    qed
    have "q_inv (?w2\<lparr>deadline_queue := dq\<rparr>) {}" using q2 by simp
    then have "q_inv ?w3 {}" by (rule q_inv_upd_same) (use wf in simp_all)
    moreover have "leaving ?w2 r" by (rule leaving_upd_same [OF l1]) simp_all
    then have "leaving (?w2\<lparr>deadline_queue := dq\<rparr>) r" by simp
    then have "leaving ?w3 r" by (rule leaving_upd_same) simp_all
    moreover have "same_frame ?w1 ?w3" by (simp add: same_frame_def)
    moreover have "idle_vp ?w3 = idle_vp w" by simp
    ultimately show ?thesis using that [of ?w3] dq by (simp only: True if_True)
  next
    case False
    then show ?thesis using that [of ?w1] q1 t1 l1 by simp
  qed
  let ?w3 = "w2\<lparr>p_waiting_count := (p_waiting_count w2)(pr := p_waiting_count w2 pr + 1)\<rparr>"
  have "leaving ?w3 r" using w2(4) by simp
  obtain best w' where sw: "sched_highest_priority_ready ?w3 = Some best" "sched_switch_to ?w3 best = Some w'" "sched_inv w'" "same_frame ?w3 w'"
  proof -
    have "q_inv ?w3 {}" "timers_ok ?w3" "idle_vp ?w3 \<noteq> r" using w2(2,3,6) assms(3) by simp_all
    then show ?thesis using switch_away_inv [of ?w3 r] \<open>leaving ?w3 r\<close> that by blast
  qed
  have "same_frame w w2" using same_frame_trans [OF f1 w2(5)] .
  then have "same_frame w ?w3" "vproc (vcpus w2 r) = Some pr" using assms(4) by (simp_all add: same_frame_def)
  then have fr: "same_frame w w'" using same_frame_trans [OF _ sw(4)] by blast
  have "\<not> (deadline < TICKS_MAX \<and> deadline \<le> tick_count w)" using assms(6) by linarith
  then have "wq_wait_enter w q deadline = Some (None, w')"
    using not_queued [OF det, of r] assms(2,4,5) w2(1) sw(1,2) \<open>vproc (vcpus w2 r) = Some pr\<close>
    by (cases "deadline < TICKS_MAX") (simp_all add: wq_wait_enter_def arr_get_def arr_set_def Let_def)
  then show ?thesis using sw(3) fr by blast
qed

lemma wq_wait_leave_inv:
  assumes "sched_inv w" "vproc (vcpus w v) = Some pr" "running w = Some v"
  shows "\<exists>w'. wq_wait_leave w v start bTimeout = Some (if wakeup_reason (vcpus w v) = WRES_TIMEOUT then ETIMEDOUT else EOK, w')
    \<and> sched_inv w' \<and> same_frame w w'"
proof -
  let ?w1 = "w\<lparr>p_waiting_count := (p_waiting_count w)(pr := p_waiting_count w pr - 1)\<rparr>"
  let ?t = "(tick_count w - start) mod 4294967296"
  let ?w2 = "upd_vcpu ?w1 v (\<lambda>vp. vp\<lparr>v_wait_ticks := v_wait_ticks vp + ?t\<rparr>)"
  have inv1: "sched_inv ?w1" using assms(1) by simp
  obtain r where r: "q_inv w {}" "timers_ok w" "proc_ok w r" using assms(1) unfolding sched_inv_def by blast
  have "run_state (vcpus w v) = VCPU_STATE_RUNNING" using proc_okD [OF r(3), of v] proc_ok_running [OF r(3)] assms(3) by simp
  then have "\<not> is_armed (vcpus w v)" using timers_okD [OF r(2), of v] by auto
  then have "(if bTimeout then snd (clock_cancel_deadline ?w1 v) else ?w1) = ?w1" by (simp add: clock_cancel_deadline_def)
  moreover have "wf_vcpu (vcpus w v)" using r(1) by (simp add: q_inv_def all_wf_def)
  then have "sched_inv ?w2" using inv1 by (intro sched_inv_upd) simp_all
  ultimately have "wq_wait_leave w v start bTimeout =
      Some (if wakeup_reason (vcpus w v) = WRES_TIMEOUT then ETIMEDOUT else EOK,
            ?w2\<lparr>p_wait_ticks := (p_wait_ticks ?w2)(pr := p_wait_ticks ?w2 pr + ?t)\<rparr>)"
    "sched_inv (?w2\<lparr>p_wait_ticks := (p_wait_ticks ?w2)(pr := p_wait_ticks ?w2 pr + ?t)\<rparr>)"
    using assms(2) by (simp_all add: wq_wait_leave_def Let_def)
  moreover have "same_frame w (?w2\<lparr>p_wait_ticks := (p_wait_ticks ?w2)(pr := p_wait_ticks ?w2 pr + ?t)\<rparr>)"
    by (simp add: same_frame_def)
  ultimately show ?thesis by blast
qed

subsection \<open>Waking up\<close>

lemma wakeup_params_fields [simp]:
  "run_state (wakeup_params w fl b vp) = run_state vp" "is_armed (wakeup_params w fl b vp) = is_armed vp"
  "t_deadline (wakeup_params w fl b vp) = t_deadline vp" "stack_ok (wakeup_params w fl b vp) = stack_ok vp"
  "vproc (wakeup_params w fl b vp) = vproc vp"
  "wakeup_reason (wakeup_params w fl b vp) = (if fl AND WAKEUP_TIMEOUT = WAKEUP_TIMEOUT then WRES_TIMEOUT else WRES_WAKEUP)"
  by (simp_all add: wakeup_params_def Let_def vcpu_reset_quantum_np_def)

lemma wf_if: "wf_vcpu a \<Longrightarrow> wf_vcpu b \<Longrightarrow> wf_vcpu (if c then a else b)"
  by simp

lemma wf_reset_quantum [simp]: "wf_vcpu (vcpu_reset_quantum_np w vp) \<longleftrightarrow> wf_vcpu vp"
  by (simp add: vcpu_reset_quantum_np_def)

lemma wf_set_penalty: "wf_vcpu vp \<Longrightarrow> 0 \<le> p \<Longrightarrow> p < 80 \<Longrightarrow> wf_vcpu (vp\<lparr>priority_penalty := p\<rparr>)"
  by (simp add: wf_vcpu_def)

lemma wf_set_boost: "wf_vcpu vp \<Longrightarrow> 0 \<le> b \<Longrightarrow> b < 16 \<Longrightarrow> wf_vcpu (vp\<lparr>priority_boost := b\<rparr>)"
  by (simp add: wf_vcpu_def)

lemma wf_wakeup_params:
  assumes "wf_vcpu vp"
  shows "wf_vcpu (wakeup_params w fl b vp)"
proof -
  have pen: "wf_vcpu (if priority_penalty x > 0 then x\<lparr>priority_penalty := 0\<rparr> else x)" if "wf_vcpu x" for x
    by (intro wf_if wf_set_penalty that) simp_all
  have boost: "wf_vcpu (if b > 0 then x\<lparr>priority_boost := min b (VCPU_PRI_COUNT - 1)\<rparr> else x)" if "wf_vcpu x" for x
    using that wf_set_boost [OF that, of "min b 15"] by (simp add: VCPU_PRI_COUNT_def)
  have "wf_vcpu (vp\<lparr>waiting_on := q, wakeup_reason := n\<rparr>)" for q n using assms by simp
  then show ?thesis
    unfolding wakeup_params_def Let_def
    by (intro wf_if pen boost wf_param_changed wf_reset_quantum [THEN iffD2])
qed

lemma q_inv_dequeue:
  assumes inv: "q_inv w {}" and v: "run_state (vcpus w v) = VCPU_STATE_WAITING" "waiting_on (vcpus w v) = Some q"
  shows "q < length (waitqs w)" "v \<in> set (waitqs w ! q)" "q_inv (w\<lparr>waitqs := (waitqs w)[q := remove1 v (waitqs w ! q)]\<rparr>) {v}"
proof -
  have "queues_ok w {}" using inv by (simp add: q_inv_def)
  note Q = queues_okD [OF this]
  show q: "q < length (waitqs w)" using Q(5) [of v] v by force
  show "v \<in> set (waitqs w ! q)" using Q(4) [OF q, of v] v by simp
  have rm: "distinct (remove1 v (waitqs w ! q))" "set (remove1 v (waitqs w ! q)) = set (waitqs w ! q) - {v}"
    using Q(3) [OF q] by (simp_all add: set_remove1_eq)
  let ?w = "w\<lparr>waitqs := (waitqs w)[q := remove1 v (waitqs w ! q)]\<rparr>"
  have "queues_ok ?w {v}"
  proof (rule queues_okI)
    fix p u assume p: "p < (80 :: nat)"
    show "distinct (prioq ?w ! p)" using Q(1) [OF p] by simp
    show "u \<in> set (prioq ?w ! p) \<longleftrightarrow> u \<notin> {v} \<and> run_state (vcpus ?w u) = VCPU_STATE_READY \<and> cur_priority (vcpus ?w u) = int p"
      using Q(2) [OF p, of u] v(1) by (cases "u = v") simp_all
  next
    fix k u assume "k < length (waitqs ?w)"
    then have k: "k < length (waitqs w)" by simp
    show "distinct (waitqs ?w ! k)" using Q(3) [OF k] rm(1) q by (simp add: nth_list_update)
    show "u \<in> set (waitqs ?w ! k) \<longleftrightarrow> u \<notin> {v} \<and> run_state (vcpus ?w u) = VCPU_STATE_WAITING \<and> waiting_on (vcpus ?w u) = Some k"
      using Q(4) [OF k, of u] rm(2) q v by (cases "u = v"; cases "k = q") simp_all
  next
    fix u assume "u \<notin> {v}" "run_state (vcpus ?w u) = VCPU_STATE_WAITING"
    then show "\<exists>k < length (waitqs ?w). waiting_on (vcpus ?w u) = Some k"
      using Q(5) [of u] by simp
  qed
  moreover have "rq_ok ?w" "all_wf ?w" using inv by (simp_all add: q_inv_def rq_ok_def all_wf_def)
  ultimately show "q_inv ?w {v}" by (simp add: q_inv_def)
qed

text \<open>The part of the wakeup before a possible context switch.\<close>

lemma wakeup_ready_inv:
  assumes inv: "sched_inv w" and v: "run_state (vcpus w v) = VCPU_STATE_WAITING" "waiting_on (vcpus w v) = Some q"
  defines "w1 \<equiv> snd (clock_cancel_deadline (w\<lparr>waitqs := (waitqs w)[q := remove1 v (waitqs w ! q)]\<rparr>) v)"
  shows "\<exists>w'. sched_set_ready (upd_vcpu w1 v (wakeup_params w1 fl b)) v True = Some w' \<and> sched_inv w' \<and> same_frame w w' \<and> running w' = running w
    \<and> vcpus w' = (vcpus w)(v := (wakeup_params w1 fl b (vcpus w1 v))\<lparr>run_state := VCPU_STATE_READY\<rparr>)"
proof -
  obtain r where r: "q_inv w {}" "timers_ok w" "proc_ok w r" using inv unfolding sched_inv_def by blast
  let ?w0 = "w\<lparr>waitqs := (waitqs w)[q := remove1 v (waitqs w ! q)]\<rparr>"
  note dq = q_inv_dequeue [OF r(1) v]
  have vr: "v \<noteq> r" "v \<noteq> idle_vp w"
    using proc_okD [OF r(3), of v] v(1) r(3) by (auto simp: proc_ok_def)
  have t0: "timers_ok ?w0" using r(2) by simp
  have cancel: "timers_ok w1" "\<not> is_armed (vcpus w1 v)" using clock_cancel_ok [OF t0, of v] unfolding w1_def by simp_all
  have w1: "vcpus w1 = (vcpus w)(v := vcpus w v\<lparr>is_armed := False\<rparr>)" "running w1 = running w" "idle_vp w1 = idle_vp w"
    "same_frame w w1"
    unfolding w1_def by (auto simp: clock_cancel_deadline_def same_frame_def)
  have wf: "wf_vcpu (vcpus w v)" using r(1) by (simp add: q_inv_def all_wf_def)
  have q1: "q_inv w1 {v}"
  proof (cases "is_armed (vcpus w v)")
    case True
    have "q_inv (?w0\<lparr>deadline_queue := remove1 v (deadline_queue ?w0)\<rparr>) {v}" using dq(3) by simp
    then have "q_inv (upd_vcpu (?w0\<lparr>deadline_queue := remove1 v (deadline_queue ?w0)\<rparr>) v (\<lambda>vp. vp\<lparr>is_armed := False\<rparr>)) {v}"
      by (rule q_inv_upd) (use wf in simp_all)
    then show ?thesis using True by (simp add: w1_def clock_cancel_deadline_def)
  next
    case False
    then show ?thesis using dq(3) by (simp add: w1_def clock_cancel_deadline_def)
  qed
  have p1: "proc_ok w1 r"
  proof (cases "is_armed (vcpus w v)")
    case True
    have "proc_ok (?w0\<lparr>deadline_queue := remove1 v (deadline_queue ?w0)\<rparr>) r" using r(3) by simp
    then have "proc_ok (upd_vcpu (?w0\<lparr>deadline_queue := remove1 v (deadline_queue ?w0)\<rparr>) v (\<lambda>vp. vp\<lparr>is_armed := False\<rparr>)) r"
      by (rule proc_ok_upd) (use vr v(1) in simp_all)
    then show ?thesis using True by (simp add: w1_def clock_cancel_deadline_def)
  next
    case False
    then show ?thesis using r(3) by (simp add: w1_def clock_cancel_deadline_def)
  qed
  let ?w2 = "upd_vcpu w1 v (wakeup_params w1 fl b)"
  have "wf_vcpu (vcpus w1 v)" using wf w1(1) by simp
  then have "q_inv ?w2 {v}" by (intro q_inv_upd [OF q1] wf_wakeup_params) simp_all
  moreover have "timers_ok ?w2" by (rule timers_ok_upd_unarmed [OF cancel]) (use cancel in simp)
  moreover have "proc_ok ?w2 r" by (rule proc_ok_upd [OF p1 vr(1)]) (use v(1) vr(2) w1 in simp_all)
  moreover have "\<not> is_armed (vcpus ?w2 v)" using cancel(2) by simp
  ultimately obtain w' where w': "sched_set_ready ?w2 v True = Some w'" "sched_inv w'" "same_frame ?w2 w'" "running w' = running ?w2"
      "vcpus w' = (vcpus ?w2)(v := vcpus ?w2 v\<lparr>run_state := VCPU_STATE_READY\<rparr>)"
    using set_ready_inv [of ?w2 v r True] vr(1) by blast
  have "same_frame w1 ?w2" by (simp add: same_frame_def)
  then have "same_frame w w'" using same_frame_trans w1(4) w'(3) by blast
  moreover have "vcpus w' = (vcpus w)(v := (wakeup_params w1 fl b (vcpus w1 v))\<lparr>run_state := VCPU_STATE_READY\<rparr>)"
    unfolding w'(5) by (simp add: w1(1))
  ultimately show ?thesis using w'(1,2,4) w1(2) by auto
qed

text \<open>A switch to a chosen ready vcpu.\<close>

lemma switch_to_inv:
  assumes "sched_inv w" "run_state (vcpus w v) = VCPU_STATE_READY"
  shows "\<exists>w'. sched_switch_to w (Some v) = Some w' \<and> sched_inv w' \<and> same_frame w w' \<and> running w' = Some v"
proof -
  obtain r where r: "q_inv w {}" "timers_ok w" "proc_ok w r" using assms(1) unfolding sched_inv_def by blast
  let ?w = "sched_set_running w v"
  have "q_inv ?w {}" "timers_ok ?w" "scheduled ?w = Some v" "run_state (vcpus ?w v) = VCPU_STATE_READY"
    using r assms(2) by (simp_all add: sched_set_running_def)
  moreover have "leaving ?w r" using leavingI [OF r(3)] by (simp add: leaving_def sched_set_running_def)
  ultimately obtain w' where "sched_switch_context ?w = Some w'" "sched_inv w'" "same_frame ?w w'" "running w' = Some v"
    using switch_context_inv by blast
  moreover have "same_frame w ?w" by (simp add: same_frame_def sched_set_running_def)
  ultimately have "sched_switch_to w (Some v) = Some w'" "sched_inv w'" "same_frame w w'" "running w' = Some v"
    using same_frame_trans [of w ?w w'] by (simp_all add: sched_switch_to_def)
  then show ?thesis by blast
qed

lemma wq_wakeup_vcpu_inv:
  assumes inv: "sched_inv w" and q: "run_state (vcpus w v) = VCPU_STATE_WAITING \<Longrightarrow> self = waiting_on (vcpus w v)"
  shows "\<exists>w'. wq_wakeup_vcpu_np w self v flags b = Some w' \<and> sched_inv w' \<and> same_frame w w'
    \<and> (flags AND WAKEUP_NO_IMMED_CSW \<noteq> 0 \<or> sched_is_irq_ctx w \<longrightarrow>
         running w' = running w \<and> (\<forall>u. u \<noteq> v \<longrightarrow> vcpus w' u = vcpus w u)
         \<and> (run_state (vcpus w v) = VCPU_STATE_WAITING \<longrightarrow> run_state (vcpus w' v) = VCPU_STATE_READY
              \<and> wakeup_reason (vcpus w' v) = (if flags AND WAKEUP_TIMEOUT = WAKEUP_TIMEOUT then WRES_TIMEOUT else WRES_WAKEUP)))"
proof (cases "run_state (vcpus w v) = VCPU_STATE_WAITING")
  case False
  then show ?thesis using inv by (simp add: wq_wakeup_vcpu_np_def)
next
  case True
  obtain r where r: "q_inv w {}" "timers_ok w" "proc_ok w r" using inv unfolding sched_inv_def by blast
  then have "\<exists>k < length (waitqs w). waiting_on (vcpus w v) = Some k"
    using queues_okD(5) [of w "{}" v] True by (simp add: q_inv_def)
  then obtain k where k: "waiting_on (vcpus w v) = Some k" by blast
  note dq = q_inv_dequeue [OF r(1) True k]
  define w1 where "w1 = snd (clock_cancel_deadline (w\<lparr>waitqs := (waitqs w)[k := remove1 v (waitqs w ! k)]\<rparr>) v)"
  obtain w2 where w2: "sched_set_ready (upd_vcpu w1 v (wakeup_params w1 flags b)) v True = Some w2" "sched_inv w2" "same_frame w w2"
      "running w2 = running w" "vcpus w2 = (vcpus w)(v := (wakeup_params w1 flags b (vcpus w1 v))\<lparr>run_state := VCPU_STATE_READY\<rparr>)"
    using wakeup_ready_inv [OF inv True k, of flags b] unfolding w1_def by blast
  have ready: "run_state (vcpus w2 v) = VCPU_STATE_READY"
    "wakeup_reason (vcpus w2 v) = (if flags AND WAKEUP_TIMEOUT = WAKEUP_TIMEOUT then WRES_TIMEOUT else WRES_WAKEUP)"
    using w2(5) by simp_all
  have irq: "sched_is_irq_ctx w2 = sched_is_irq_ctx w" using w2(3) by (simp add: same_frame_def sched_is_irq_ctx_def)
  have top: "sched_highest_priority_ready w2 = Some (top_ready w2)"
    using w2(2) by (simp add: sched_inv_def q_inv_def sched_highest_priority_ready_top)
  have rest: "running w2 = Some r" using w2(4) proc_ok_running [OF r(3)] by simp
  let ?sw = "flags AND WAKEUP_NO_IMMED_CSW = 0 \<and> \<not> sched_is_irq_ctx w2 \<and> vcpu_effective_qos_class (vcpus w2 v) \<ge> VCPU_QOS_INTERACTIVE
      \<and> top_ready w2 = Some v \<and> cur_priority (vcpus w2 v) \<ge> cur_priority (vcpus w2 r)"
  have eq: "wq_wakeup_vcpu_np w self v flags b = (if ?sw then sched_switch_to w2 (Some v) else Some w2)"
    using True q k dq(1,2) w2(1) top rest
    by (simp add: wq_wakeup_vcpu_np_def arr_get_def arr_set_def w1_def [symmetric] Let_def)
  show ?thesis
  proof (cases ?sw)
    case sw: True
    then obtain w' where "sched_switch_to w2 (Some v) = Some w'" "sched_inv w'" "same_frame w2 w'"
      using switch_to_inv [OF w2(2) ready(1)] by blast
    then show ?thesis using eq sw same_frame_trans [OF w2(3)] irq by auto
  next
    case False
    then have "wq_wakeup_vcpu_np w self v flags b = Some w2" unfolding eq by (simp only: if_False)
    then show ?thesis using w2(2-5) ready by simp
  qed
qed

lemma wakeup_each_inv:
  assumes "sched_inv w" "distinct vs" "\<And>v. v \<in> set vs \<Longrightarrow> run_state (vcpus w v) = VCPU_STATE_WAITING \<and> waiting_on (vcpus w v) = Some q"
  shows "\<exists>w'. wakeup_each w q vs b = Some w' \<and> sched_inv w' \<and> same_frame w w' \<and> running w' = running w
    \<and> (\<forall>v \<in> set vs. run_state (vcpus w' v) = VCPU_STATE_READY) \<and> (\<forall>v. v \<notin> set vs \<longrightarrow> vcpus w' v = vcpus w v)"
  using assms
proof (induction vs arbitrary: w)
  case (Cons v vs)
  have "run_state (vcpus w v) = VCPU_STATE_WAITING" "waiting_on (vcpus w v) = Some q" using Cons.prems(3) by simp_all
  then obtain w1 where w1: "wq_wakeup_vcpu_np w (Some q) v WAKEUP_NO_IMMED_CSW b = Some w1" "sched_inv w1" "same_frame w w1"
      "running w1 = running w" "\<And>u. u \<noteq> v \<Longrightarrow> vcpus w1 u = vcpus w u" "run_state (vcpus w1 v) = VCPU_STATE_READY"
    using wq_wakeup_vcpu_inv [OF Cons.prems(1), of v "Some q" WAKEUP_NO_IMMED_CSW b] by (auto simp: WAKEUP_NO_IMMED_CSW_def)
  have "run_state (vcpus w1 u) = VCPU_STATE_WAITING \<and> waiting_on (vcpus w1 u) = Some q" if "u \<in> set vs" for u
  proof -
    have "u \<noteq> v" "u \<in> set (v # vs)" using that Cons.prems(2) by auto
    then show ?thesis using Cons.prems(3) [of u] w1(5) [of u] by simp
  qed
  then obtain w' where w': "wakeup_each w1 q vs b = Some w'" "sched_inv w'" "same_frame w1 w'" "running w' = running w1"
      "\<forall>v \<in> set vs. run_state (vcpus w' v) = VCPU_STATE_READY" "\<forall>v. v \<notin> set vs \<longrightarrow> vcpus w' v = vcpus w1 v"
    using Cons.IH [OF w1(2)] Cons.prems(2) by auto
  have "v \<notin> set vs" using Cons.prems(2) by simp
  with w' w1 show ?case using same_frame_trans [OF w1(3) w'(3)] by simp
qed simp

lemma wq_wakeup_inv:
  assumes "sched_inv w" "q < length (waitqs w)" "flags AND WAKEUP_ONE = 0 \<or> waitqs w ! q \<noteq> []"
  shows "\<exists>w'. wq_wakeup_np w q flags b = Some w' \<and> sched_inv w' \<and> same_frame w w'"
proof -
  have "queues_ok w {}" using assms(1) by (simp add: sched_inv_def q_inv_def)
  note Q = queues_okD(3,4) [OF this assms(2)]
  show ?thesis
  proof (cases "flags AND WAKEUP_ONE = 0")
    case True
    then show ?thesis using wakeup_each_inv [OF assms(1) Q(1), of q b] Q(2) assms(2) by (auto simp: wq_wakeup_np_def arr_get_def)
  next
    case False
    then obtain v vs where vs: "waitqs w ! q = v # vs" using assms(3) by (cases "waitqs w ! q") auto
    then have "waiting_on (vcpus w v) = Some q" using Q(2) [of v] by simp
    then show ?thesis
      using wq_wakeup_vcpu_inv [OF assms(1), of v "Some q" "flags AND NOT WAKEUP_ONE" b] False vs assms(2)
      by (auto simp: wq_wakeup_np_def arr_get_def)
  qed
qed

subsection \<open>Signals\<close>

lemma vcpu_send_signal_inv:
  assumes "sched_inv w" "v \<noteq> idle_vp w"
  shows "\<exists>e w'. vcpu_send_signal_boost w v signo b = Some (e, w') \<and> sched_inv w' \<and> same_frame w w'
    \<and> (sched_is_irq_ctx w \<longrightarrow> running w' = running w)"
proof (cases "signo < SIG_MIN \<or> signo > SIG_MAX")
  case True
  then show ?thesis using assms by (simp add: vcpu_send_signal_boost_def)
next
  case False
  let ?w = "upd_vcpu w v (\<lambda>vp. vp\<lparr>pending_sigs := pending_sigs vp OR sig_bit signo\<rparr>)"
  have "all_wf w" using assms(1) by (simp add: sched_inv_def q_inv_def)
  then have inv: "sched_inv ?w" by (intro sched_inv_upd) (use assms(1) in \<open>simp_all add: all_wf_def\<close>)
  have frame: "same_frame w ?w" by (simp add: same_frame_def)
  obtain w1 where w1: "(if signo = SIG_FORCE_QUIT then vcpu_resume ?w v True else Some ?w) = Some w1" "sched_inv w1" "same_frame ?w w1"
      "running w1 = running ?w"
  proof (cases "signo = SIG_FORCE_QUIT")
    case True
    obtain w1 where "vcpu_resume ?w v True = Some w1" "sched_inv w1" "same_frame ?w w1" "running w1 = running ?w"
      using vcpu_resume_inv [OF inv, of v True] assms(2) by auto
    then show ?thesis using that True by simp
  next
    case False
    then show ?thesis using that inv by simp
  qed
  have irq: "sched_is_irq_ctx w1 = sched_is_irq_ctx w" using w1(3) frame by (simp add: same_frame_def sched_is_irq_ctx_def)
  obtain w2 where w2: "(if wait_sigs (vcpus w1 v) AND sig_bit signo \<noteq> 0
        then wq_wakeup_vcpu_np w1 (waiting_on (vcpus w1 v)) v 0 b else Some w1) = Some w2" "sched_inv w2" "same_frame w1 w2"
      "sched_is_irq_ctx w1 \<longrightarrow> running w2 = running w1"
  proof (cases "wait_sigs (vcpus w1 v) AND sig_bit signo \<noteq> 0")
    case True
    obtain w2 where "wq_wakeup_vcpu_np w1 (waiting_on (vcpus w1 v)) v 0 b = Some w2" "sched_inv w2" "same_frame w1 w2"
        "sched_is_irq_ctx w1 \<longrightarrow> running w2 = running w1"
      using wq_wakeup_vcpu_inv [OF w1(2), of v "waiting_on (vcpus w1 v)" 0 b] by blast
    then show ?thesis using that [of w2] True by simp
  next
    case False
    then show ?thesis using that [of w1] w1(2) by simp
  qed
  have "vcpu_send_signal_boost w v signo b = Some (EOK, w2)"
    using False w1(1) w2(1) by (simp add: vcpu_send_signal_boost_def Let_def del: not_less)
  moreover have "same_frame w w2" using same_frame_trans [OF frame] same_frame_trans [OF w1(3) w2(3)] by blast
  ultimately show ?thesis using w2(2,4) w1(4) irq by simp
qed

lemma vcpu_sigwait_pass_inv:
  assumes "sched_inv w" "running w = Some r" "r \<noteq> idle_vp w" "vproc (vcpus w r) = Some pr" "q < length (waitqs w)"
    "deadline < TICKS_MAX \<Longrightarrow> tick_count w < deadline"
  shows "\<exists>out w'. vcpu_sigwait_pass w q sigs flags deadline = Some (out, w') \<and> sched_inv w' \<and> same_frame w w'"
proof -
  have wf: "wf_vcpu (vcpus w r)" using assms(1) by (simp add: sched_inv_def q_inv_def all_wf_def)
  define await where "await = (if flags AND SIGWAIT_NOABORT = 0 then (sigs AND NOT SIGSET_ABORTS AND NOT SIGSET_URGENTS) OR SIGSET_ABORTS
    else sigs AND NOT SIGSET_ABORTS AND NOT SIGSET_URGENTS)"
  show ?thesis
  proof (cases "pending_sigs (vcpus w r) AND await \<noteq> 0")
    case True
    let ?hp = "get_highest_pri_sig (pending_sigs (vcpus w r) AND (sigs AND NOT SIGSET_ABORTS AND NOT SIGSET_URGENTS))"
    let ?w = "upd_vcpu w r (\<lambda>vp. vp\<lparr>pending_sigs := pending_sigs vp AND NOT (sig_bit ?hp)\<rparr>)"
    have "sched_inv ?w" by (rule sched_inv_upd) (use assms(1) wf in simp_all)
    moreover have "same_frame w ?w" by (simp add: same_frame_def)
    moreover have "vcpu_sigwait_pass w q sigs flags deadline =
        Some (if flags AND SIGWAIT_NOABORT = 0 \<and> pending_sigs (vcpus w r) AND SIGSET_ABORTS \<noteq> 0 then (SigError EABORTED, w)
              else (SigReceived ?hp, ?w))"
      using True assms(2) by (simp add: vcpu_sigwait_pass_def vcpu_testabort_np_def Let_def await_def [symmetric])
    ultimately show ?thesis using assms(1) by auto
  next
    case False
    let ?w = "upd_vcpu w r (\<lambda>vp. vp\<lparr>wait_sigs := await\<rparr>)"
    have "sched_inv ?w" by (rule sched_inv_upd) (use assms(1) wf in simp_all)
    then obtain w' where "wq_wait_enter ?w q deadline = Some (None, w')" "sched_inv w'" "same_frame ?w w'"
      using wq_wait_enter_inv [of ?w r pr q deadline] assms(2-6) by auto
    moreover have "same_frame w ?w" by (simp add: same_frame_def)
    ultimately show ?thesis
      using False assms(2) same_frame_trans [of w ?w w'] by (simp add: vcpu_sigwait_pass_def Let_def await_def [symmetric])
  qed
qed

lemma vcpu_suspend_inv:
  assumes "sched_inv w"
  shows "\<exists>e w'. vcpu_suspend w v = Some (e, w') \<and> sched_inv w' \<and> same_frame w w'"
proof -
  obtain r where r: "q_inv w {}" "timers_ok w" "proc_ok w r" using assms unfolding sched_inv_def by blast
  note run = proc_ok_running [OF r(3)]
  have wf: "wf_vcpu (vcpus w v)" using r(1) by (simp add: q_inv_def all_wf_def)
  let ?w = "upd_vcpu w v (\<lambda>vp. vp\<lparr>suspension_count := suspension_count vp + 1\<rparr>)"
  have inv: "sched_inv ?w" by (rule sched_inv_upd) (use assms wf in simp_all)
  have frame: "same_frame w ?w" by (simp add: same_frame_def)
  consider (refused) e where "vcpu_suspend w v = Some (e, w)" | (go) "v \<noteq> idle_vp w" "v \<noteq> boot_vp w"
      "\<not> (vtag (vcpus w v) \<noteq> VP_TAG_USER \<and> v \<noteq> r)" "suspension_count (vcpus w v) \<noteq> INT16_MAX"
  proof (cases "v = idle_vp w \<or> v = boot_vp w \<or> (vtag (vcpus w v) \<noteq> VP_TAG_USER \<and> v \<noteq> r) \<or> suspension_count (vcpus w v) = INT16_MAX")
    case True
    then have "\<exists>e. vcpu_suspend w v = Some (e, w)" using run by (auto simp: vcpu_suspend_def)
    then show ?thesis using refused by blast
  next
    case False
    then show ?thesis using go by blast
  qed
  then show ?thesis
  proof cases
    case refused
    then show ?thesis using assms by simp
  next
    case go
    show ?thesis
    proof (cases "v = r")
      case True
      obtain best w' where "sched_highest_priority_ready (upd_vcpu ?w v (\<lambda>vp. vp\<lparr>run_state := VCPU_STATE_SUSPENDED\<rparr>)) = Some best"
          "sched_switch_to (upd_vcpu ?w v (\<lambda>vp. vp\<lparr>run_state := VCPU_STATE_SUSPENDED\<rparr>)) best = Some w'" "sched_inv w'" "same_frame ?w w'"
        using suspend_running_inv [OF inv, of v] run True go(1) by auto
      then show ?thesis using True go run same_frame_trans [OF frame] by (auto simp: vcpu_suspend_def Let_def)
    next
      case False
      obtain e w' where "vcpu_send_signal_boost ?w v SIG_URGENT 0 = Some (e, w')" "sched_inv w'" "same_frame ?w w'"
        using vcpu_send_signal_inv [OF inv, of v SIG_URGENT 0] go(1) by auto
      then show ?thesis using False go run same_frame_trans [OF frame] inv frame by (auto simp: vcpu_suspend_def Let_def)
    qed
  qed
qed

lemma vcpu_syscall_epilog_leave_inv:
  assumes "sched_inv w"
  shows "sched_inv (vcpu_syscall_epilog_leave w r)" "same_frame w (vcpu_syscall_epilog_leave w r)"
proof -
  have "wf_vcpu (vcpus w r)" using assms by (simp add: sched_inv_def q_inv_def all_wf_def)
  then show "sched_inv (vcpu_syscall_epilog_leave w r)"
    unfolding vcpu_syscall_epilog_leave_def by (intro sched_inv_upd) (use assms in simp_all)
qed (simp add: vcpu_syscall_epilog_leave_def same_frame_def)

lemma vcpu_syscall_epilog_inv:
  assumes "sched_inv w" "running w = Some r" "r \<noteq> idle_vp w" "pending_sigs (vcpus w r) AND SIGSET_ABORTS = 0"
  shows "\<exists>w'. vcpu_syscall_epilog w r = Some w' \<and> sched_inv w' \<and> same_frame w w'"
proof -
  obtain r' where r': "q_inv w {}" "timers_ok w" "proc_ok w r'" using assms(1) unfolding sched_inv_def by blast
  then have run: "run_state (vcpus w r) = VCPU_STATE_RUNNING" using proc_okD [OF r'(3), of r] proc_ok_running [OF r'(3)] assms(2) by simp
  obtain w1 where w1: "vcpu_do_deferred_suspend_np w r = Some w1" "sched_inv w1" "same_frame w w1"
  proof (cases "suspension_count (vcpus w r) > 0")
    case True
    then show ?thesis using that suspend_running_inv [OF assms(1-3)] run by (auto simp: vcpu_do_deferred_suspend_np_def Let_def)
  next
    case False
    then show ?thesis using that [of w] assms(1) by (simp add: vcpu_do_deferred_suspend_np_def)
  qed
  then show ?thesis
    using assms(1,4) vcpu_syscall_epilog_leave_inv [OF assms(1)] vcpu_syscall_epilog_leave_inv [OF w1(2)] same_frame_trans [OF w1(3)]
    by (cases "pending_sigs (vcpus w r) AND SIGSET_URGENTS \<noteq> 0") (auto simp: vcpu_syscall_epilog_def Let_def)
qed

subsection \<open>Interrupts\<close>

lemma timers_ok_pop:
  assumes "timers_ok w" "deadline_queue w = v # vs"
  shows "timers_ok (upd_vcpu (w\<lparr>deadline_queue := vs\<rparr>) v (\<lambda>vp. vp\<lparr>is_armed := False\<rparr>))"
    "run_state (vcpus w v) = VCPU_STATE_WAITING"
proof -
  have armed: "is_armed (vcpus w v)" using assms unfolding timers_ok_def by (metis list.set_intros(1))
  then show "run_state (vcpus w v) = VCPU_STATE_WAITING" using timers_okD [OF assms(1)] by simp
  have "upd_vcpu (w\<lparr>deadline_queue := vs\<rparr>) v (\<lambda>vp. vp\<lparr>is_armed := False\<rparr>) = snd (clock_cancel_deadline w v)"
    using armed assms(2) by (simp add: clock_cancel_deadline_def)
  then show "timers_ok (upd_vcpu (w\<lparr>deadline_queue := vs\<rparr>) v (\<lambda>vp. vp\<lparr>is_armed := False\<rparr>))"
    using clock_cancel_ok [OF assms(1)] by simp
qed

lemma sched_inv_pop:
  assumes "sched_inv w" "deadline_queue w = v # vs"
  shows "sched_inv (upd_vcpu (w\<lparr>deadline_queue := vs\<rparr>) v (\<lambda>vp. vp\<lparr>is_armed := False\<rparr>))" (is "sched_inv ?w")
proof -
  obtain r where r: "q_inv w {}" "timers_ok w" "proc_ok w r" using assms(1) unfolding sched_inv_def by blast
  note pop = timers_ok_pop [OF r(2) assms(2)]
  have "wf_vcpu (vcpus w v)" using r(1) by (simp add: q_inv_def all_wf_def)
  then have "q_inv ?w {}" by (intro q_inv_upd_same) (use r(1) in simp_all)
  moreover have "v \<noteq> r" using proc_okD [OF r(3), of v] pop(2) by auto
  then have "proc_ok ?w r"
    by (intro proc_ok_upd) (use r(3) pop(2) in \<open>auto simp: proc_ok_def\<close>)
  ultimately show ?thesis using pop(1) unfolding sched_inv_def by blast
qed

lemma length_deadline_queue:
  assumes "timers_ok w" "timers_ok w'" "\<And>u. is_armed (vcpus w' u) = is_armed (vcpus w u)"
  shows "length (deadline_queue w') = length (deadline_queue w)"
proof -
  have "set (deadline_queue w') = set (deadline_queue w)" "distinct (deadline_queue w)" "distinct (deadline_queue w')"
    using assms unfolding timers_ok_def by auto
  then show ?thesis by (metis distinct_card)
qed

lemma fire_deadlines_inv:
  assumes "sched_inv w" "irq_nest_count w > 0" "length (deadline_queue w) \<le> n"
  shows "\<exists>w'. fire_deadlines w n = Some w' \<and> sched_inv w' \<and> same_frame w w' \<and> running w' = running w
    \<and> (\<forall>v. is_armed (vcpus w' v) \<longrightarrow> t_deadline (vcpus w' v) > tick_count w)
    \<and> (\<forall>v. if is_armed (vcpus w v) \<and> t_deadline (vcpus w v) \<le> tick_count w
           then run_state (vcpus w' v) = VCPU_STATE_READY \<and> wakeup_reason (vcpus w' v) = WRES_TIMEOUT \<and> \<not> is_armed (vcpus w' v)
           else vcpus w' v = vcpus w v)"
  using assms
proof (induction n arbitrary: w)
  case 0
  then have "deadline_queue w = []" "timers_ok w" by (simp_all add: sched_inv_def)
  then have "\<not> is_armed (vcpus w v)" for v unfolding timers_ok_def by (metis empty_iff empty_set)
  then show ?case using 0 \<open>deadline_queue w = []\<close> by simp
next
  case (Suc n)
  have t: "timers_ok w" using Suc.prems(1) by (simp add: sched_inv_def)
  show ?case
  proof (cases "deadline_queue w")
    case Nil
    then have "\<not> is_armed (vcpus w v)" for v using t unfolding timers_ok_def by (metis empty_iff empty_set)
    then show ?thesis using Nil Suc.prems by simp
  next
    case (Cons v vs)
    show ?thesis
    proof (cases "t_deadline (vcpus w v) > tick_count w")
      case True
      have "t_deadline (vcpus w v) \<le> t_deadline (vcpus w u)" if "is_armed (vcpus w u)" for u
      proof -
        have "sorted (map (\<lambda>v. t_deadline (vcpus w v)) (v # vs))" "u \<in> set (v # vs)"
          using t that unfolding timers_ok_def Cons by simp_all
        then show ?thesis by auto
      qed
      then have "\<forall>u. is_armed (vcpus w u) \<longrightarrow> t_deadline (vcpus w u) > tick_count w"
        using True by (meson less_le_trans)
      then show ?thesis using True Cons Suc.prems(1) by (auto simp: not_le)
    next
      case False
      let ?w = "upd_vcpu (w\<lparr>deadline_queue := vs\<rparr>) v (\<lambda>vp. vp\<lparr>is_armed := False\<rparr>)"
      note inv = sched_inv_pop [OF Suc.prems(1) Cons]
      have wait: "run_state (vcpus ?w v) = VCPU_STATE_WAITING" using timers_ok_pop(2) [OF t Cons] by simp
      have irq: "sched_is_irq_ctx ?w" using Suc.prems(2) by (simp add: sched_is_irq_ctx_def)
      obtain w1 where w1: "sched_wait_timeout_irq ?w v = Some w1" "sched_inv w1" "same_frame ?w w1" "running w1 = running ?w"
          "\<And>u. u \<noteq> v \<Longrightarrow> vcpus w1 u = vcpus ?w u" "run_state (vcpus w1 v) = VCPU_STATE_READY"
          "wakeup_reason (vcpus w1 v) = (if (WAKEUP_TIMEOUT OR WAKEUP_ONE) AND WAKEUP_TIMEOUT = WAKEUP_TIMEOUT then WRES_TIMEOUT else WRES_WAKEUP)"
        using wq_wakeup_vcpu_inv [OF inv, of v "waiting_on (vcpus ?w v)" "WAKEUP_TIMEOUT OR WAKEUP_ONE" 0] irq wait
        unfolding sched_wait_timeout_irq_def by blast
      have reason: "wakeup_reason (vcpus w1 v) = WRES_TIMEOUT" using w1(7) by (simp add: WAKEUP_TIMEOUT_def WAKEUP_ONE_def)
      have t1: "timers_ok w1" "timers_ok ?w" using w1(2) inv unfolding sched_inv_def by blast+
      have unarmed: "\<not> is_armed (vcpus w1 v)" using timers_okD [OF t1(1), of v] w1(6) by auto
      have "is_armed (vcpus w1 u) = is_armed (vcpus ?w u)" for u
        using w1(5) [of u] unarmed by (cases "u = v") auto
      then have "length (deadline_queue w1) = length vs" using length_deadline_queue [OF t1(2,1)] by simp
      then have len: "length (deadline_queue w1) \<le> n" using Suc.prems(3) Cons by simp
      have f1: "same_frame w ?w" by (simp add: same_frame_def)
      then have fr: "same_frame w w1" using same_frame_trans w1(3) by blast
      then have "irq_nest_count w1 > 0" "tick_count w1 = tick_count w" using Suc.prems(2) by (simp_all add: same_frame_def)
      then obtain w' where w': "fire_deadlines w1 n = Some w'" "sched_inv w'" "same_frame w1 w'" "running w' = running w1"
          "\<forall>v. is_armed (vcpus w' v) \<longrightarrow> t_deadline (vcpus w' v) > tick_count w"
          "\<And>u. if is_armed (vcpus w1 u) \<and> t_deadline (vcpus w1 u) \<le> tick_count w
             then run_state (vcpus w' u) = VCPU_STATE_READY \<and> wakeup_reason (vcpus w' u) = WRES_TIMEOUT \<and> \<not> is_armed (vcpus w' u)
             else vcpus w' u = vcpus w1 u"
        using Suc.IH [OF w1(2) _ len] by metis
      have "if is_armed (vcpus w u) \<and> t_deadline (vcpus w u) \<le> tick_count w
             then run_state (vcpus w' u) = VCPU_STATE_READY \<and> wakeup_reason (vcpus w' u) = WRES_TIMEOUT \<and> \<not> is_armed (vcpus w' u)
             else vcpus w' u = vcpus w u" for u
      proof (cases "u = v")
        case True
        have "is_armed (vcpus w v)" using t Cons unfolding timers_ok_def by (metis list.set_intros(1))
        then show ?thesis using True False w'(6) [of v] unarmed reason w1(6) by simp
      next
        case False
        then show ?thesis using w'(6) [of u] w1(5) [of u] by simp
      qed
      moreover have "fire_deadlines w (Suc n) = Some w'" using Cons False w1(1) w'(1) by simp
      ultimately show ?thesis using w' w1(4) same_frame_trans [OF fr w'(3)] by simp
    qed
  qed
qed

lemma quantum_finished_fields [simp]:
  "run_state (quantum_finished w vp) = run_state vp" "waiting_on (quantum_finished w vp) = waiting_on vp"
  "is_armed (quantum_finished w vp) = is_armed vp" "t_deadline (quantum_finished w vp) = t_deadline vp"
  "stack_ok (quantum_finished w vp) = stack_ok vp" "vproc (quantum_finished w vp) = vproc vp"
  by (simp_all add: quantum_finished_def Let_def vcpu_reset_quantum_np_def)

lemma wf_decay:
  assumes "wf_vcpu x"
  shows "wf_vcpu (if priority_boost x > 0 then x\<lparr>priority_boost := priority_boost x - 1\<rparr> else x)"
  using assms by (simp add: wf_vcpu_def)

lemma wf_quantum_finished:
  assumes "wf_vcpu vp"
  shows "wf_vcpu (quantum_finished w vp)"
proof -
  let ?r = "if \<not> did_wait vp then vp\<lparr>priority_boost := 0, quantum_boost := 0,
      priority_penalty := (if priority_penalty vp < SCHED_PRI_HIGHEST then priority_penalty vp + 1 else priority_penalty vp)\<rparr> else vp"
  have r: "wf_vcpu ?r" using assms by (intro wf_if assms) (simp add: wf_vcpu_def pri_consts)
  note d = wf_decay [OF r]
  show ?thesis
    unfolding quantum_finished_def Let_def wf_reset_quantum wf_vcpu_other_fields
    by (intro wf_if wf_param_changed d assms)
qed

lemma sched_on_tick_irq_inv:
  assumes "sched_inv w" "\<And>r. running w = Some r \<Longrightarrow> isuser \<Longrightarrow> vproc (vcpus w r) \<noteq> None"
  shows "\<exists>w'. sched_on_tick_irq w isuser = Some w' \<and> sched_inv w' \<and> same_frame w w'"
proof -
  obtain r where r: "proc_ok w r" "all_wf w" using sched_inv_facts [OF assms(1)] by metis
  note run = proc_ok_running [OF r(1)]
  have step: "sched_inv (upd_vcpu x r f) \<and> same_frame x (upd_vcpu x r f)"
    if "sched_inv x" "\<And>vp. wf_vcpu vp \<Longrightarrow> wf_vcpu (f vp)" "\<And>vp. run_state (f vp) = run_state vp" "\<And>vp. waiting_on (f vp) = waiting_on vp"
      "\<And>vp. cur_priority (f vp) = cur_priority vp" "\<And>vp. t_deadline (f vp) = t_deadline vp" "\<And>vp. is_armed (f vp) = is_armed vp"
      "\<And>vp. stack_ok (f vp) = stack_ok vp" "\<And>vp. vproc (f vp) = vproc vp" for x f
  proof -
    have "wf_vcpu (vcpus x r)" using that(1) by (simp add: sched_inv_def q_inv_def all_wf_def)
    then show ?thesis by (intro conjI sched_inv_upd) (simp_all add: that same_frame_def)
  qed
  let ?f = "\<lambda>vp. if quantum_countdown vp > 0 then vp\<lparr>quantum_countdown := quantum_countdown vp - SCHED_QUANTUM_SCALE\<rparr> else vp"
  let ?w = "upd_vcpu w r ?f"
  let ?u = "upd_vcpu ?w r (\<lambda>vp. vp\<lparr>v_usr_ticks := v_usr_ticks vp + 1\<rparr>)" and ?s = "upd_vcpu ?w r (\<lambda>vp. vp\<lparr>v_sys_ticks := v_sys_ticks vp + 1\<rparr>)"
  have w: "sched_inv ?w" "same_frame w ?w" using step [of w ?f] assms(1) by simp_all
  have u: "sched_inv ?u" "same_frame w ?u" using step [of ?w "\<lambda>vp. vp\<lparr>v_usr_ticks := v_usr_ticks vp + 1\<rparr>"] w same_frame_trans by auto
  have s: "sched_inv ?s" "same_frame w ?s" using step [of ?w "\<lambda>vp. vp\<lparr>v_sys_ticks := v_sys_ticks vp + 1\<rparr>"] w same_frame_trans by auto
  have frames: "same_frame w (x\<lparr>p_usr_ticks := a\<rparr>) = same_frame w x" "same_frame w (x\<lparr>s_usr_ticks := b\<rparr>) = same_frame w x"
    "same_frame w (x\<lparr>p_sys_ticks := a\<rparr>) = same_frame w x" "same_frame w (x\<lparr>s_sys_ticks := b\<rparr>) = same_frame w x"
    "same_frame w (x\<lparr>s_idle_ticks := b\<rparr>) = same_frame w x" for x a b by (simp_all add: same_frame_def)
  show ?thesis
  proof (cases isuser)
    case True
    then obtain pr where "vproc (vcpus w r) = Some pr" using assms(2) run by blast
    moreover have "vproc (vcpus ?u r) = vproc (vcpus w r)" using u(2) by (simp add: same_frame_def)
    ultimately have "sched_on_tick_irq w isuser =
        Some (?u\<lparr>p_usr_ticks := (p_usr_ticks ?u)(pr := p_usr_ticks ?u pr + 1), s_usr_ticks := s_usr_ticks ?u + 1\<rparr>)"
      using True run by (simp add: sched_on_tick_irq_def Let_def del: upd_vcpu_sel(1))
    then show ?thesis using u by (simp add: frames)
  next
    case False
    define x where "x = (case vproc (vcpus ?s r) of Some pr \<Rightarrow> ?s\<lparr>p_sys_ticks := (p_sys_ticks ?s)(pr := p_sys_ticks ?s pr + 1)\<rparr> | None \<Rightarrow> ?s)"
    have x: "sched_inv x" "same_frame w x" unfolding x_def using s by (simp_all add: frames split: option.splits)
    have "sched_on_tick_irq w isuser =
        Some (if vtag (vcpus x r) = VP_TAG_SYS then x\<lparr>s_sys_ticks := s_sys_ticks x + 1\<rparr> else x\<lparr>s_idle_ticks := s_idle_ticks x + 1\<rparr>)"
      using False run unfolding x_def by (simp add: sched_on_tick_irq_def Let_def del: upd_vcpu_sel(1))
    then show ?thesis using x by (simp add: frames)
  qed
qed

text \<open>A requested switch to the ready vcpu \<open>v\<close>, after the running vcpu's parameters have been changed by \<open>f\<close>.\<close>

lemma requested_switch_inv:
  assumes inv: "sched_inv w" and r: "running w = Some r" and v: "run_state (vcpus w v) = VCPU_STATE_READY"
    and f: "wf_vcpu (f (vcpus w r))" "run_state (f (vcpus w r)) = run_state (vcpus w r)" "waiting_on (f (vcpus w r)) = waiting_on (vcpus w r)"
      "t_deadline (f (vcpus w r)) = t_deadline (vcpus w r)" "is_armed (f (vcpus w r)) = is_armed (vcpus w r)"
      "stack_ok (f (vcpus w r)) = stack_ok (vcpus w r)" "vproc (f (vcpus w r)) = vproc (vcpus w r)"
  shows "\<exists>w'. sched_switch_context (upd_vcpu (w\<lparr>scheduled := Some v, csw_switch := True, csw_preempted := pre\<rparr>) r f) = Some w'
    \<and> sched_inv w' \<and> same_frame w w'"
proof -
  let ?w = "upd_vcpu (w\<lparr>scheduled := Some v, csw_switch := True, csw_preempted := pre\<rparr>) r f"
  obtain r' where r': "q_inv w {}" "timers_ok w" "proc_ok w r'" using inv unfolding sched_inv_def by blast
  have "r' = r" using proc_ok_running [OF r'(3)] r by simp
  note i = r' [unfolded this]
  have run: "run_state (vcpus w r) = VCPU_STATE_RUNNING" using proc_okD [OF i(3), of r] by simp
  have "v \<noteq> r" using v run by auto
  have "q_inv ?w {}" by (rule q_inv_upd_state) (use i(1) f run in simp_all)
  moreover have "timers_ok ?w" by (rule timers_ok_upd) (use i(2) f in simp_all)
  moreover have "leaving (w\<lparr>scheduled := Some v, csw_switch := True, csw_preempted := pre\<rparr>) r"
    using leavingI [OF i(3)] by (simp add: leaving_def)
  then have "leaving ?w r" by (rule leaving_upd_same) (use f in simp_all)
  moreover have "scheduled ?w = Some v" "run_state (vcpus ?w v) = VCPU_STATE_READY" using v \<open>v \<noteq> r\<close> by simp_all
  ultimately obtain w' where "sched_switch_context ?w = Some w'" "sched_inv w'" "same_frame ?w w'"
    using switch_context_inv by blast
  moreover have "same_frame w ?w" using f by (simp add: same_frame_def)
  ultimately show ?thesis using same_frame_trans by blast
qed

lemma upd_vcpu_id: "upd_vcpu w v (\<lambda>vp. vp) = w"
  by (simp add: upd_vcpu_def)

lemma irq_done_inv:
  assumes "sched_inv w"
  shows "\<exists>w'. irq_done w = Some w' \<and> sched_inv w' \<and> same_frame (w\<lparr>irq_nest_count := irq_nest_count w - 1\<rparr>) w'"
proof -
  let ?w = "w\<lparr>irq_nest_count := irq_nest_count w - 1\<rparr>"
  have inv: "sched_inv ?w" using assms by simp
  obtain r where r: "q_inv ?w {}" "timers_ok ?w" "proc_ok ?w r" using inv unfolding sched_inv_def by blast
  note run = proc_ok_running [OF r(3)]
  have csw: "\<not> csw_switch ?w" "\<not> csw_preempted ?w" using r(3) by (simp_all add: proc_ok_def)
  have wf: "wf_vcpu (vcpus ?w r)" using r(1) by (simp add: q_inv_def all_wf_def)
  have top: "sched_highest_priority_ready ?w = Some (top_ready ?w)" using r(1) by (simp add: q_inv_def sched_highest_priority_ready_top)
  have ready: "run_state (vcpus ?w v) = VCPU_STATE_READY" if "top_ready ?w = Some v" for v using top_ready_READY(2) [OF r(1) that] .
  define f where "f = (\<lambda>w :: world. if quantum_countdown (vcpus ?w r) > 0 then (\<lambda>vp. vp) else quantum_finished w)"
  have f: "wf_vcpu (f x (vcpus ?w r))" "run_state (f x vp) = run_state vp" "waiting_on (f x vp) = waiting_on vp"
    "t_deadline (f x vp) = t_deadline vp" "is_armed (f x vp) = is_armed vp" "stack_ok (f x vp) = stack_ok vp" "vproc (f x vp) = vproc vp" for x vp
    using wf wf_quantum_finished [OF wf] unfolding f_def by simp_all
  define pre where "pre = (quantum_countdown (vcpus ?w r) > 0)"
  define go where "go = (\<lambda>v. if pre then cur_priority (vcpus ?w v) > cur_priority (vcpus ?w r) else cur_priority (vcpus ?w v) \<ge> cur_priority (vcpus ?w r))"
  show ?thesis
  proof (cases "\<exists>v. top_ready ?w = Some v \<and> go v")
    case True
    then obtain v where v: "top_ready ?w = Some v" "go v" by blast
    let ?s = "?w\<lparr>scheduled := Some v, csw_switch := True, csw_preempted := pre\<rparr>"
    have s: "(if pre then sched_set_running_as_preemptor ?w v else sched_set_running ?w v) = ?s"
      using csw(2) by (simp add: sched_set_running_as_preemptor_def sched_set_running_def)
    have "sched_on_any_irq ?w = Some (upd_vcpu ?s r (f ?s))"
      using run top v s unfolding sched_on_any_irq_def f_def go_def pre_def by (simp add: Let_def upd_vcpu_id split: if_splits)
    moreover obtain w' where "sched_switch_context (upd_vcpu ?s r (f ?s)) = Some w'" "sched_inv w'" "same_frame ?w w'"
      using requested_switch_inv [OF inv run ready [OF v(1)], of "f ?s" pre] f by blast
    ultimately show ?thesis by (simp add: irq_done_def)
  next
    case False
    have "sched_on_any_irq ?w = Some (upd_vcpu ?w r (f ?w))"
    proof (cases "top_ready ?w")
      case None
      then show ?thesis using run top unfolding sched_on_any_irq_def f_def by (simp add: Let_def upd_vcpu_id)
    next
      case (Some v)
      then have "\<not> go v" using False by blast
      then show ?thesis
        using run top Some unfolding sched_on_any_irq_def f_def go_def pre_def
        by (cases "quantum_countdown (vcpus ?w r) > 0") (simp_all add: Let_def upd_vcpu_id)
    qed
    moreover have "sched_inv (upd_vcpu ?w r (f ?w))" 
      by (rule sched_inv_upd) (use inv f proc_okD [OF r(3), of r] in simp_all)
    moreover have "same_frame ?w (upd_vcpu ?w r (f ?w))" using f by (simp add: same_frame_def)
    ultimately show ?thesis using csw(1) by (simp add: irq_done_def)
  qed
qed

lemma clock_interrupt_inv:
  assumes "sched_inv w" "irq_nest_count w = 0" "\<And>r. running w = Some r \<Longrightarrow> isuser \<Longrightarrow> vproc (vcpus w r) \<noteq> None"
  shows "\<exists>w'. clock_interrupt w isuser = Some w' \<and> sched_inv w' \<and> same_frame (w\<lparr>tick_count := (tick_count w + 1) mod 4294967296\<rparr>) w'"
proof -
  let ?w = "w\<lparr>irq_nest_count := 1, tick_count := (tick_count w + 1) mod 4294967296\<rparr>"
  have inv: "sched_inv ?w" "irq_nest_count ?w > 0" using assms(1) by simp_all
  obtain w1 where w1: "fire_deadlines ?w (length (deadline_queue ?w)) = Some w1" "sched_inv w1" "same_frame ?w w1" "running w1 = running ?w"
    using fire_deadlines_inv [OF inv, of "length (deadline_queue ?w)"] by blast
  have "vproc (vcpus w1 r) \<noteq> None" if "running w1 = Some r" "isuser" for r
    using assms(3) that w1(3,4) by (simp add: same_frame_def)
  then obtain w2 where w2: "sched_on_tick_irq w1 isuser = Some w2" "sched_inv w2" "same_frame w1 w2"
    using sched_on_tick_irq_inv [OF w1(2)] by blast
  obtain w3 where w3: "irq_done w2 = Some w3" "sched_inv w3" "same_frame (w2\<lparr>irq_nest_count := irq_nest_count w2 - 1\<rparr>) w3"
    using irq_done_inv [OF w2(2)] by blast
  have "clock_interrupt w isuser = Some w3"
    using w1(1) w2(1) w3(1) assms(2) by (simp add: clock_interrupt_def clock_irq_def Let_def)
  moreover have "same_frame (w\<lparr>tick_count := (tick_count w + 1) mod 4294967296\<rparr>) w3"
    using w1(3) w2(3) w3(3) assms(2) by (simp add: same_frame_def)
  ultimately show ?thesis using w3(2) by blast
qed

lemma device_interrupt_inv:
  assumes "sched_inv w" "v \<noteq> idle_vp w"
  shows "\<exists>w'. device_interrupt w v signo b = Some w' \<and> sched_inv w' \<and> same_frame w w'"
proof -
  let ?w = "w\<lparr>irq_nest_count := irq_nest_count w + 1\<rparr>"
  obtain e w1 where w1: "vcpu_send_signal_boost ?w v signo b = Some (e, w1)" "sched_inv w1" "same_frame ?w w1"
    using vcpu_send_signal_inv [of ?w v signo b] assms by auto
  obtain w2 where w2: "irq_done w1 = Some w2" "sched_inv w2" "same_frame (w1\<lparr>irq_nest_count := irq_nest_count w1 - 1\<rparr>) w2"
    using irq_done_inv [OF w1(2)] by blast
  have "same_frame w w2" using w1(3) w2(3) by (simp add: same_frame_def)
  then show ?thesis using w1(1) w2(1,2) by (simp add: device_interrupt_def)
qed

subsection \<open>The scheduler as a transition system\<close>

text \<open>
  The calls into the scheduler, and the interrupts. \<open>CWait\<close> and \<open>CWaitDone\<close> are the two halves of a wait, \<open>CEpilog\<close> and \<open>CEpilogDone\<close> those of
  the end of a system call. \<open>CSetSchedParam\<close> changes a scheduling parameter of all vcpus of a process.
\<close>

datatype sched_call =
    CSetPolicy vid vcpu_policy | CYield | CSuspend vid | CResume vid bool | CWait nat int | CWaitDone int bool
  | CWakeup nat u32 int | CSignal vid int int | CSigwait nat u32 u32 int | CEpilog | CEpilogDone
  | CSetSchedParam sched_proc int int | CClockIrq bool | CDeviceIrq vid int int

fun sched_exec :: "sched_call \<Rightarrow> world \<Rightarrow> world option" where
  "sched_exec (CSetPolicy v p) w = map_option snd (vcpu_set_policy w v p)"
| "sched_exec CYield w = vcpu_yield w"
| "sched_exec (CSuspend v) w = map_option snd (vcpu_suspend w v)"
| "sched_exec (CResume v force) w = vcpu_resume w v force"
| "sched_exec (CWait q deadline) w = map_option snd (wq_wait_enter w q deadline)"
| "sched_exec (CWaitDone start bTimeout) w = do { r \<leftarrow> running w; map_option snd (wq_wait_leave w r start bTimeout) }"
| "sched_exec (CWakeup q flags b) w = wq_wakeup_np w q flags b"
| "sched_exec (CSignal v signo b) w = map_option snd (vcpu_send_signal_boost w v signo b)"
| "sched_exec (CSigwait q sigs flags deadline) w = map_option snd (vcpu_sigwait_pass w q sigs flags deadline)"
| "sched_exec CEpilog w = do { r \<leftarrow> running w; vcpu_syscall_epilog w r }"
| "sched_exec CEpilogDone w = do { r \<leftarrow> running w; Some (vcpu_syscall_epilog_leave w r) }"
| "sched_exec (CSetSchedParam pr ty param) w = Some (snd (snd (Process_SetSchedParam w pr ty param)))"
| "sched_exec (CClockIrq isuser) w = clock_interrupt w isuser"
| "sched_exec (CDeviceIrq v signo b) w = device_interrupt w v signo b"

text \<open>
  The calls after which the code gives no guarantee. The running vcpu blocks although it is the idle vcpu or belongs to no process, waits for a deadline
  that has already passed, or yields as the idle vcpu; one waiter of an empty queue is woken up; the idle vcpu is resumed, signalled or at the end of a
  system call; a system call ends with an abort pending, which terminates the vcpu; the clock interrupts user code of a vcpu that belongs to no process;
  the parameters of a process are changed while one of its vcpus is ready. The wait queue has to be one of the system.
\<close>

definition may_block :: "world \<Rightarrow> bool" where
  "may_block w \<longleftrightarrow> (case running w of Some r \<Rightarrow> r \<noteq> idle_vp w \<and> vproc (vcpus w r) \<noteq> None | None \<Rightarrow> False)"

definition waits_badly :: "nat \<Rightarrow> int \<Rightarrow> world \<Rightarrow> bool" where
  "waits_badly q deadline w \<longleftrightarrow> \<not> may_block w \<or> length (waitqs w) \<le> q \<or> (deadline < TICKS_MAX \<and> deadline \<le> tick_count w)"

fun sched_hazard :: "sched_call \<Rightarrow> world \<Rightarrow> bool" where
  "sched_hazard (CSetPolicy v p) w \<longleftrightarrow> False"
| "sched_hazard CYield w \<longleftrightarrow> running w = Some (idle_vp w)"
| "sched_hazard (CSuspend v) w \<longleftrightarrow> False"
| "sched_hazard (CResume v force) w \<longleftrightarrow> v = idle_vp w"
| "sched_hazard (CWait q deadline) w \<longleftrightarrow> waits_badly q deadline w"
| "sched_hazard (CWaitDone start bTimeout) w \<longleftrightarrow> \<not> may_block w"
| "sched_hazard (CWakeup q flags b) w \<longleftrightarrow> length (waitqs w) \<le> q \<or> (flags AND WAKEUP_ONE \<noteq> 0 \<and> waitqs w ! q = [])"
| "sched_hazard (CSignal v signo b) w \<longleftrightarrow> v = idle_vp w"
| "sched_hazard (CSigwait q sigs flags deadline) w \<longleftrightarrow> waits_badly q deadline w"
| "sched_hazard CEpilog w \<longleftrightarrow>
     (case running w of Some r \<Rightarrow> r = idle_vp w \<or> pending_sigs (vcpus w r) AND SIGSET_ABORTS \<noteq> 0 | None \<Rightarrow> True)"
| "sched_hazard CEpilogDone w \<longleftrightarrow> False"
| "sched_hazard (CSetSchedParam pr ty param) w \<longleftrightarrow> (\<exists>v \<in> set (pr_vcpu_queue pr). run_state (vcpus w v) = VCPU_STATE_READY)"
| "sched_hazard (CClockIrq isuser) w \<longleftrightarrow>
     (case running w of Some r \<Rightarrow> isuser \<and> vproc (vcpus w r) = None | None \<Rightarrow> True)"
| "sched_hazard (CDeviceIrq v signo b) w \<longleftrightarrow> v = idle_vp w"

definition sched_ok :: "world \<Rightarrow> bool" where
  "sched_ok w \<longleftrightarrow> sched_inv w \<and> irq_nest_count w = 0"

lemma sched_okI: "sched_ok w \<Longrightarrow> sched_inv w' \<Longrightarrow> same_frame w w' \<Longrightarrow> sched_ok w'"
  by (simp add: sched_ok_def same_frame_def)

lemma may_blockE:
  assumes "may_block w"
  obtains r pr where "running w = Some r" "r \<noteq> idle_vp w" "vproc (vcpus w r) = Some pr"
  using assms unfolding may_block_def by (auto split: option.splits)

lemma clamp_wf:
  assumes "wf_vcpu vp"
  shows "wf_vcpu (vcpu_set_quantum_boost_np vp b)" "wf_vcpu (vcpu_set_nice_np vp n)"
proof -
  have "0 \<le> VCPU_CLAMPED_QUANTUM_BOOST b" "VCPU_CLAMPED_QUANTUM_BOOST b < 128"
    "0 \<le> VCPU_CLAMPED_NICE_PRIORITY n" "VCPU_CLAMPED_NICE_PRIORITY n \<le> 64"
    by (simp_all add: VCPU_CLAMPED_QUANTUM_BOOST_def VCPU_CLAMPED_NICE_PRIORITY_def pri_consts)
  then show "wf_vcpu (vcpu_set_quantum_boost_np vp b)" "wf_vcpu (vcpu_set_nice_np vp n)"
    using assms by (simp_all add: vcpu_set_quantum_boost_np_def vcpu_set_nice_np_def Let_def wrap8_id wf_vcpu_def)
qed

lemma apply_sched_param_wf: "wf_vcpu vp \<Longrightarrow> wf_vcpu (apply_sched_param w pr ty vp)"
  unfolding apply_sched_param_def by (intro wf_param_changed wf_if clamp_wf)

lemma apply_sched_param_fields [simp]:
  "run_state (apply_sched_param w pr ty vp) = run_state vp" "waiting_on (apply_sched_param w pr ty vp) = waiting_on vp"
  "t_deadline (apply_sched_param w pr ty vp) = t_deadline vp" "is_armed (apply_sched_param w pr ty vp) = is_armed vp"
  "stack_ok (apply_sched_param w pr ty vp) = stack_ok vp" "vproc (apply_sched_param w pr ty vp) = vproc vp"
  by (simp_all add: apply_sched_param_def vcpu_set_quantum_boost_np_def vcpu_set_nice_np_def Let_def)

lemma apply_sched_params_inv:
  fixes pr :: sched_proc and ty :: int
  assumes "sched_inv w" "\<And>v. v \<in> set vs \<Longrightarrow> run_state (vcpus w v) \<noteq> VCPU_STATE_READY"
  defines "w' \<equiv> fold (\<lambda>v w. upd_vcpu w v (apply_sched_param w pr ty)) vs w"
  shows "sched_inv w' \<and> same_frame w w'"
  using assms(1,2) unfolding w'_def
proof (induction vs arbitrary: w)
  case (Cons v vs)
  let ?w = "upd_vcpu w v (apply_sched_param w pr ty)"
  have "wf_vcpu (vcpus w v)" using Cons.prems(1) by (simp add: sched_inv_def q_inv_def all_wf_def)
  then have wf: "wf_vcpu (apply_sched_param w pr ty (vcpus w v))" by (rule apply_sched_param_wf)
  have inv: "sched_inv ?w" by (rule sched_inv_upd) (use Cons.prems wf in simp_all)
  have frame: "same_frame w ?w" by (simp add: same_frame_def)
  have "run_state (vcpus ?w u) \<noteq> VCPU_STATE_READY" if "u \<in> set vs" for u
    using Cons.prems(2) [of u] Cons.prems(2) [of v] that by simp
  then show ?case using Cons.IH [OF inv] same_frame_trans [OF frame] by simp
qed (simp add: same_frame_def)

lemma Process_SetSchedParam_inv:
  fixes ty param :: int
  assumes "sched_inv w" "\<And>v. v \<in> set (pr_vcpu_queue pr) \<Longrightarrow> run_state (vcpus w v) \<noteq> VCPU_STATE_READY"
  defines "w' \<equiv> snd (snd (Process_SetSchedParam w pr ty param))"
  shows "sched_inv w' \<and> same_frame w w'"
proof -
  have "w' = w \<or> (\<exists>pr'. w' = fold (\<lambda>v w. upd_vcpu w v (apply_sched_param w pr' ty)) (pr_vcpu_queue pr) w)"
    by (auto simp: w'_def Process_SetSchedParam_def Let_def)
  then show ?thesis
    using assms(1) apply_sched_params_inv [OF assms(1,2)] by (auto simp: same_frame_def)
qed

lemma sched_step_ok:
  assumes ok: "sched_ok w" and hazard: "\<not> sched_hazard c w"
  shows "\<exists>w'. sched_exec c w = Some w' \<and> sched_ok w'"
proof -
  have inv: "sched_inv w" and nest: "irq_nest_count w = 0" using ok by (simp_all add: sched_ok_def)
  show ?thesis
  proof (cases c)
    case (CSetPolicy v p)
    then show ?thesis using vcpu_set_policy_inv [OF inv, of v p] sched_okI [OF ok] by auto
  next
    case CYield
    then show ?thesis using vcpu_yield_inv [OF inv] hazard sched_okI [OF ok] by auto
  next
    case (CSuspend v)
    then show ?thesis using vcpu_suspend_inv [OF inv, of v] sched_okI [OF ok] by auto
  next
    case (CResume v force)
    then show ?thesis using vcpu_resume_inv [OF inv, of v force] hazard sched_okI [OF ok] by auto
  next
    case (CWait q d)
    then obtain r pr where "running w = Some r" "r \<noteq> idle_vp w" "vproc (vcpus w r) = Some pr" using hazard by (auto simp: waits_badly_def elim: may_blockE)
    then show ?thesis using wq_wait_enter_inv [OF inv, of r pr q d] hazard CWait sched_okI [OF ok] by (auto simp: waits_badly_def)
  next
    case (CWaitDone start b)
    then obtain r pr where "running w = Some r" "vproc (vcpus w r) = Some pr" using hazard by (auto simp: waits_badly_def elim: may_blockE)
    then show ?thesis using wq_wait_leave_inv [OF inv, of r pr start b] CWaitDone sched_okI [OF ok] by auto
  next
    case (CWakeup q fl b)
    then show ?thesis using wq_wakeup_inv [OF inv, of q fl b] hazard sched_okI [OF ok] by auto
  next
    case (CSignal v s b)
    then show ?thesis using vcpu_send_signal_inv [OF inv, of v s b] hazard sched_okI [OF ok] by auto
  next
    case (CSigwait q s fl d)
    then obtain r pr where "running w = Some r" "r \<noteq> idle_vp w" "vproc (vcpus w r) = Some pr" using hazard by (auto simp: waits_badly_def elim: may_blockE)
    then show ?thesis using vcpu_sigwait_pass_inv [OF inv, of r pr q d s fl] hazard CSigwait sched_okI [OF ok] by (auto simp: waits_badly_def)
  next
    case CEpilog
    then show ?thesis using vcpu_syscall_epilog_inv [OF inv] hazard sched_okI [OF ok] by (auto split: option.splits)
  next
    case CEpilogDone
    obtain r where "running w = Some r" using inv proc_ok_running unfolding sched_inv_def by blast
    then show ?thesis using CEpilogDone vcpu_syscall_epilog_leave_inv [OF inv, of r] sched_okI [OF ok] by auto
  next
    case (CSetSchedParam pr ty param)
    then show ?thesis using Process_SetSchedParam_inv [OF inv, of pr ty param] hazard sched_okI [OF ok] by auto
  next
    case (CClockIrq isuser)
    then have "vproc (vcpus w r) \<noteq> None" if "running w = Some r" "isuser" for r using hazard that by simp
    then obtain w' where "clock_interrupt w isuser = Some w'" "sched_inv w'" "same_frame (w\<lparr>tick_count := (tick_count w + 1) mod 4294967296\<rparr>) w'"
      using clock_interrupt_inv [OF inv nest, of isuser] by blast
    then show ?thesis using CClockIrq nest by (simp add: sched_ok_def same_frame_def)
  next
    case (CDeviceIrq v s b)
    then show ?thesis using device_interrupt_inv [OF inv, of v s b] hazard sched_okI [OF ok] by auto
  qed
qed

interpretation schedsys: guarded_system sched_ok sched_exec "\<lambda>c w. \<not> sched_hazard c w"
  by unfold_locales (rule sched_step_ok)

end
