(* ===== verification/SchedProps.thy ===== *)
theory SchedProps
  imports SchedOps
begin

section \<open>Properties of the scheduler\<close>

text \<open>
  The boot of the scheduler establishes its invariant, every run keeps it, the best ready vcpu is the one that runs next, wakeups and timeouts reach
  their vcpus, signals are consumed in order; and the places where the code leaves the invariant.
\<close>

subsection \<open>Boot\<close>

lemma vcpu_init_facts [simp]:
  "run_state (vcpu_init w b) = VCPU_STATE_SUSPENDED" "suspension_count (vcpu_init w b) = 1"
  "is_armed (vcpu_init w b) = False" "stack_ok (vcpu_init w b) = b" "cur_priority (vcpu_init w b) = 1" "wf_vcpu (vcpu_init w b)"
proof -
  let ?vp = "\<lparr>run_state = VCPU_STATE_SUSPENDED,
        base_priority = SCHED_PRI_FROM_QOS VCPU_QOS_BACKGROUND (VCPU_PRI_LOWEST + 1), cur_priority = 0,
        priority_penalty = 0, priority_boost = 0, quantum_boost = 0, sched_nice = 0, quantum_countdown = 0,
        suspension_count = 1, did_wait = False, fixed_pri = False, vtag = 0, vproc = None, pending_sigs = 0, wait_sigs = 0,
        waiting_on = None, wakeup_reason = 0, is_armed = False, t_deadline = 0, v_usr_ticks = 0, v_sys_ticks = 0, v_wait_ticks = 0,
        stack_ok = b\<rparr>"
  have base: "SCHED_PRI_FROM_QOS VCPU_QOS_BACKGROUND (VCPU_PRI_LOWEST + 1) = 1" by (simp add: SCHED_PRI_FROM_QOS_eq pri_consts)
  have wf: "wf_vcpu ?vp" unfolding base by (simp add: wf_vcpu_def)
  show "wf_vcpu (vcpu_init w b)" unfolding vcpu_init_def by (rule wf_param_changed [OF wf])
  show "cur_priority (vcpu_init w b) = 1"
    unfolding vcpu_init_def cur_priority_param_changed(1) [OF wf] unfolding base by (simp add: effective_priority_def)
qed (simp_all add: vcpu_init_def)

lemma blank_world_inv: "q_inv (blank_world a b n) {}"
proof -
  let ?w = "blank_world a b n"
  have v: "vcpus ?w v = vcpu_init (blank_world a b n\<lparr>vcpus := undefined\<rparr>) True" for v by (simp add: blank_world_def Let_def)
  have "pop_bit (populated ?w) p \<longleftrightarrow> p < 80 \<and> prioq ?w ! p \<noteq> []" if "p < 96" for p
  proof -
    have "p div 32 < 3" using that by simp
    then show ?thesis by (simp add: blank_world_def Let_def pop_bit_def)
  qed
  then have "rq_ok ?w" by (simp add: rq_ok_def) (simp add: blank_world_def Let_def)
  moreover have "queues_ok ?w {}"
    by (rule queues_okI) (simp_all add: v, simp_all add: blank_world_def Let_def)
  ultimately show ?thesis by (simp add: q_inv_def all_wf_def v)
qed

text \<open>Before the first switch: nothing runs, no deadline is armed.\<close>

definition booting :: "world \<Rightarrow> bool" where
  "booting w \<longleftrightarrow> q_inv w {} \<and> deadline_queue w = [] \<and> scheduled w = None \<and> \<not> csw_switch w \<and> \<not> csw_preempted w \<and> irq_nest_count w = 0
     \<and> (\<forall>v. stack_ok (vcpus w v) \<and> \<not> is_armed (vcpus w v) \<and> run_state (vcpus w v) \<noteq> VCPU_STATE_RUNNING)"

lemma booting_blank: "booting (blank_world a b n)"
  using blank_world_inv by (simp add: booting_def) (simp add: blank_world_def Let_def)

lemma q_inv_upd_suspended:
  assumes "q_inv w {}" "run_state (vcpus w v) = VCPU_STATE_SUSPENDED" "run_state (f (vcpus w v)) = VCPU_STATE_SUSPENDED" "wf_vcpu (f (vcpus w v))"
  shows "q_inv (upd_vcpu w v f) {}"
proof -
  have "q_inv (upd_vcpu w v f) {v}" by (rule q_inv_upd [OF q_inv_insert [OF assms(1)]]) (use assms in simp_all)
  then have "q_inv (upd_vcpu w v f) ({v} - {v})" by (rule q_inv_remove) (use assms in simp_all)
  then show ?thesis by simp
qed

text \<open>A vcpu is created and resumed: it becomes the last vcpu of list 1.\<close>

lemma boot_one:
  assumes "booting w" "run_state (vcpus w v) = VCPU_STATE_SUSPENDED"
    and p: "validate_vcpu_policy p \<noteq> EOK"
    and f: "\<And>vp. wf_vcpu (f vp) \<longleftrightarrow> wf_vcpu vp" "\<And>vp. run_state (f vp) = run_state vp" "\<And>vp. suspension_count (f vp) = suspension_count vp"
      "\<And>vp. is_armed (f vp) = is_armed vp" "\<And>vp. stack_ok (f vp)" "\<And>vp. cur_priority (f vp) = cur_priority vp"
    and g: "\<And>x. vcpus (g x) = vcpus x" "\<And>x. q_inv (g x) {} = q_inv x {}" "\<And>x. booting (g x) = booting x" "\<And>x. prioq (g x) = prioq x"
      "\<And>x. populated (g x) = populated x" "\<And>x. running (g x) = running x"
  shows "\<exists>e w1 w2. vcpu_set_policy (upd_vcpu w v (\<lambda>_. vcpu_init w True)) v p = Some (e, w1)
    \<and> vcpu_resume (g (upd_vcpu w1 v f)) v False = Some w2 \<and> booting w2
    \<and> prioq w2 = (prioq w)[1 := prioq w ! 1 @ [v]] \<and> running w2 = running w \<and> idle_vp w2 = idle_vp (g (upd_vcpu w1 v f))
    \<and> boot_vp w2 = boot_vp (g (upd_vcpu w1 v f))
    \<and> cur_priority (vcpus w2 v) = 1 \<and> run_state (vcpus w2 v) = VCPU_STATE_READY \<and> (\<forall>u. u \<noteq> v \<longrightarrow> vcpus w2 u = vcpus w u)"
proof -
  let ?w1 = "upd_vcpu w v (\<lambda>_. vcpu_init w True)"
  have pol: "vcpu_set_policy ?w1 v p = Some (validate_vcpu_policy p, ?w1)" using p by (simp add: vcpu_set_policy_def)
  have b: "q_inv w {}" using assms(1) by (simp add: booting_def)
  let ?w2 = "upd_vcpu ?w1 v f"
  let ?h = "\<lambda>vp. vp\<lparr>suspension_count := (if False then 0 else suspension_count vp - 1)\<rparr>"
  have q1: "q_inv ?w1 {}" by (rule q_inv_upd_suspended [OF b]) (use assms(2) in simp_all)
  have q2: "q_inv ?w2 {}" by (rule q_inv_upd_suspended [OF q1]) (use f in simp_all)
  have b2: "booting ?w2" using assms(1) q2 f by (simp add: booting_def)
  then have bg: "booting (g ?w2)" "q_inv (g ?w2) {}" using g q2 by simp_all
  let ?w3 = "upd_vcpu (g ?w2) v ?h"
  have v3: "vcpus ?w3 v = ?h (f (vcpu_init w True))" by (simp add: g)
  have q3: "q_inv ?w3 {}" by (rule q_inv_upd_suspended [OF bg(2)]) (use f g in simp_all)
  have "q_inv ?w3 {v}" by (rule q_inv_insert [OF q3]) (simp_all add: f g)
  then obtain pq pop where rd: "sched_set_ready ?w3 v True = Some (upd_vcpu ?w3 v (\<lambda>vp. vp\<lparr>run_state := VCPU_STATE_READY\<rparr>)\<lparr>prioq := pq, populated := pop\<rparr>)"
      "q_inv (upd_vcpu ?w3 v (\<lambda>vp. vp\<lparr>run_state := VCPU_STATE_READY\<rparr>)\<lparr>prioq := pq, populated := pop\<rparr>) {}"
      "pq = (prioq w)[1 := prioq w ! 1 @ [v]]"
    using sched_set_ready_ok [of ?w3 "{v}" v True] by (auto simp: g f Let_def)
  let ?w4 = "upd_vcpu ?w3 v (\<lambda>vp. vp\<lparr>run_state := VCPU_STATE_READY\<rparr>)\<lparr>prioq := pq, populated := pop\<rparr>"
  have res: "vcpu_resume (g ?w2) v False = Some ?w4" using rd(1) by (simp add: vcpu_resume_def g f Let_def)
  have "booting ?w4" using bg(1) rd(2) assms(1) unfolding booting_def by (simp add: f g(1))
  moreover have "\<forall>u. u \<noteq> v \<longrightarrow> vcpus ?w4 u = vcpus w u" by (simp add: g)
  ultimately show ?thesis using pol res rd(3)
    by (intro exI [of _ "validate_vcpu_policy p"] exI [of _ ?w1] exI [of _ ?w4]) (simp add: g f)
qed

lemma boot_create:
  assumes "booting w" "run_state (vcpus w v) = VCPU_STATE_SUSPENDED"
  shows "\<exists>w1 w2. boot_vcpu_create w v = Some w1 \<and> vcpu_resume (w1\<lparr>boot_vp := v\<rparr>) v False = Some w2 \<and> booting w2
    \<and> prioq w2 = (prioq w)[1 := prioq w ! 1 @ [v]] \<and> running w2 = running w
    \<and> cur_priority (vcpus w2 v) = 1 \<and> run_state (vcpus w2 v) = VCPU_STATE_READY \<and> (\<forall>u. u \<noteq> v \<longrightarrow> vcpus w2 u = vcpus w u)"
proof -
  let ?p = "\<lparr>version = policy_size, grade = VCPU_QOS_REALTIME, qpriority = VCPU_PRI_HIGHEST\<rparr>"
  have "validate_vcpu_policy ?p \<noteq> EOK" by (simp add: validate_vcpu_policy_def pri_consts)
  from boot_one [OF assms this, of "\<lambda>vp. vp\<lparr>stack_ok := True\<rparr>" "\<lambda>x. x\<lparr>boot_vp := v\<rparr>"]
  have "\<exists>e w1 w2. vcpu_set_policy (upd_vcpu w v (\<lambda>_. vcpu_init w True)) v ?p = Some (e, w1)
    \<and> vcpu_resume ((upd_vcpu w1 v (\<lambda>vp. vp\<lparr>stack_ok := True\<rparr>))\<lparr>boot_vp := v\<rparr>) v False = Some w2 \<and> booting w2
    \<and> prioq w2 = (prioq w)[1 := prioq w ! 1 @ [v]] \<and> running w2 = running w
    \<and> cur_priority (vcpus w2 v) = 1 \<and> run_state (vcpus w2 v) = VCPU_STATE_READY \<and> (\<forall>u. u \<noteq> v \<longrightarrow> vcpus w2 u = vcpus w u)"
    by (simp add: booting_def wf_vcpu_def) blast
  then show ?thesis by (auto simp: boot_vcpu_create_def Let_def)
qed

lemma idle_create:
  assumes "booting w" "run_state (vcpus w v) = VCPU_STATE_SUSPENDED"
  shows "\<exists>w1 w2. idle_vcpu_create w v = Some w1 \<and> vcpu_resume (w1\<lparr>idle_vp := v\<rparr>) v False = Some w2 \<and> booting w2
    \<and> prioq w2 = (prioq w)[1 := prioq w ! 1 @ [v]] \<and> running w2 = running w \<and> idle_vp w2 = v
    \<and> cur_priority (vcpus w2 v) = 1 \<and> run_state (vcpus w2 v) = VCPU_STATE_READY \<and> (\<forall>u. u \<noteq> v \<longrightarrow> vcpus w2 u = vcpus w u)"
proof -
  let ?p = "\<lparr>version = policy_size, grade = VCPU_QOS_BACKGROUND, qpriority = VCPU_PRI_LOWEST\<rparr>"
  have "validate_vcpu_policy ?p \<noteq> EOK" by (simp add: validate_vcpu_policy_def pri_consts)
  from boot_one [OF assms this, of "\<lambda>vp. vp\<lparr>stack_ok := True, vtag := VP_TAG_IDLE\<rparr>" "\<lambda>x. x\<lparr>idle_vp := v\<rparr>"]
  have "\<exists>e w1 w2. vcpu_set_policy (upd_vcpu w v (\<lambda>_. vcpu_init w True)) v ?p = Some (e, w1)
    \<and> vcpu_resume ((upd_vcpu w1 v (\<lambda>vp. vp\<lparr>stack_ok := True, vtag := VP_TAG_IDLE\<rparr>))\<lparr>idle_vp := v\<rparr>) v False = Some w2 \<and> booting w2
    \<and> prioq w2 = (prioq w)[1 := prioq w ! 1 @ [v]] \<and> running w2 = running w \<and> idle_vp w2 = v
    \<and> cur_priority (vcpus w2 v) = 1 \<and> run_state (vcpus w2 v) = VCPU_STATE_READY \<and> (\<forall>u. u \<noteq> v \<longrightarrow> vcpus w2 u = vcpus w u)"
    by (simp add: booting_def wf_vcpu_def) blast
  then show ?thesis by (auto simp: idle_vcpu_create_def Let_def)
qed

text \<open>The booted scheduler.\<close>

lemma boot_ok:
  assumes "boot \<noteq> idle"
  shows "\<exists>w w'. sched_create (blank_world a b n) boot idle = Some w \<and> sched_switch_to_boot_vcpu w = Some w' \<and> sched_ok w'
    \<and> running w' = Some boot \<and> idle_vp w' = idle \<and> run_state (vcpus w' idle) = VCPU_STATE_READY
    \<and> cur_priority (vcpus w' boot) = 1 \<and> cur_priority (vcpus w' idle) = 1"
proof -
  let ?w = "blank_world a b n"
  have blank: "run_state (vcpus ?w v) = VCPU_STATE_SUSPENDED" "prioq ?w = replicate 80 []" for v
    by (simp_all add: blank_world_def Let_def)
  obtain x1 w1 where w1: "boot_vcpu_create ?w boot = Some x1" "vcpu_resume (x1\<lparr>boot_vp := boot\<rparr>) boot False = Some w1" "booting w1"
      "prioq w1 = (prioq ?w)[1 := prioq ?w ! 1 @ [boot]]" "cur_priority (vcpus w1 boot) = 1"
      "run_state (vcpus w1 boot) = VCPU_STATE_READY" "\<forall>u. u \<noteq> boot \<longrightarrow> vcpus w1 u = vcpus ?w u"
    using boot_create [OF booting_blank blank(1)] by blast
  have "run_state (vcpus w1 idle) = VCPU_STATE_SUSPENDED" using w1(7) assms blank(1) by simp
  then obtain x2 w2 where w2: "idle_vcpu_create w1 idle = Some x2" "vcpu_resume (x2\<lparr>idle_vp := idle\<rparr>) idle False = Some w2" "booting w2"
      "prioq w2 = (prioq w1)[1 := prioq w1 ! 1 @ [idle]]" "idle_vp w2 = idle" "cur_priority (vcpus w2 idle) = 1"
      "run_state (vcpus w2 idle) = VCPU_STATE_READY" "\<forall>u. u \<noteq> idle \<longrightarrow> vcpus w2 u = vcpus w1 u"
    using idle_create [OF w1(3)] by blast
  have q1: "prioq w2 ! 1 = [boot, idle]" "prioq w2 ! p = []" if "p \<noteq> 1" "p < 80" for p
    using that by (simp_all add: w2(4) w1(4) blank(2))
  have inv2: "q_inv w2 {}" using w2(3) by (simp add: booting_def)
  have "top_ready w2 = Some boot" using top_ready_eqI [of 1 w2] q1(1) [of 0] q1(2) by simp
  then have best: "sched_highest_priority_ready w2 = Some (Some boot)" using inv2 by (simp add: q_inv_def sched_highest_priority_ready_top)
  let ?w3 = "sched_set_running (w2\<lparr>running := None\<rparr>) boot"
  have "sched_create ?w boot idle = Some ?w3"
    using w1(1,2) w2(1,2) best by (simp add: sched_create_def Let_def sched_set_running_def)
  have boot2: "run_state (vcpus w2 boot) = VCPU_STATE_READY" "cur_priority (vcpus w2 boot) = 1"
    using w2(8) w1(5,6) assms by simp_all
  have inv3: "q_inv ?w3 {}" using inv2 by (simp add: sched_set_running_def)
  obtain pq pop where un: "sched_set_unready ?w3 boot True =
        Some (upd_vcpu ?w3 boot (\<lambda>vp. vp\<lparr>run_state := VCPU_STATE_RUNNING\<rparr>)\<lparr>prioq := pq, populated := pop\<rparr>)"
      "q_inv (upd_vcpu ?w3 boot (\<lambda>vp. vp\<lparr>run_state := VCPU_STATE_RUNNING\<rparr>)\<lparr>prioq := pq, populated := pop\<rparr>) {boot}"
    using sched_set_unready_ok [OF inv3, of boot True] boot2 w2(3) by (auto simp: sched_set_running_def booting_def)
  let ?w4 = "upd_vcpu ?w3 boot (\<lambda>vp. vp\<lparr>run_state := VCPU_STATE_RUNNING\<rparr>)\<lparr>prioq := pq, populated := pop\<rparr>"
  let ?w5 = "?w4\<lparr>running := Some boot, scheduled := None, csw_switch := False, csw_preempted := False\<rparr>"
  have "q_inv ?w4 ({boot} - {boot})" by (rule q_inv_remove [OF un(2)]) simp_all
  then have "q_inv ?w5 {}" by simp
  moreover have b2: "deadline_queue w2 = []" "irq_nest_count w2 = 0" "\<not> is_armed (vcpus w2 v)" "stack_ok (vcpus w2 v)"
    "run_state (vcpus w2 v) \<noteq> VCPU_STATE_RUNNING" for v using w2(3) unfolding booting_def by blast+
  then have "timers_ok ?w5" unfolding timers_ok_def by (simp add: sched_set_running_def)
  moreover have "proc_ok ?w5 boot" using b2 w2(5,7) assms unfolding proc_ok_def by (simp add: sched_set_running_def)
  ultimately have "sched_ok ?w5" using b2(2) unfolding sched_ok_def sched_inv_def by (auto simp: sched_set_running_def)
  moreover have "sched_switch_to_boot_vcpu ?w3 = Some ?w5"
    using un(1) by (simp add: sched_switch_to_boot_vcpu_def) (simp add: sched_set_running_def)
  ultimately show ?thesis
    using \<open>sched_create ?w boot idle = Some ?w3\<close> boot2 w2(5-7) assms
    by (intro exI [of _ ?w3] exI [of _ ?w5]) (simp add: sched_set_running_def)
qed

subsection \<open>A small running system\<close>

text \<open>
  An example on which the theorems below are evaluated: the idle vcpu 0, the running vcpu 1, the ready vcpu 2 and the vcpu 3, which waits on queue 0
  with the deadline 10. The clock is at 9.
\<close>

definition demo_vcpu :: "run_state \<Rightarrow> int \<Rightarrow> vcpu" where
  "demo_vcpu st pri =
     \<lparr>run_state = st, base_priority = pri, cur_priority = pri, priority_penalty = 0, priority_boost = 0, quantum_boost = 0, sched_nice = 0,
      quantum_countdown = 6, suspension_count = (if st = VCPU_STATE_SUSPENDED then 1 else 0), did_wait = False, fixed_pri = False,
      vtag = VP_TAG_USER, vproc = Some 0, pending_sigs = 0, wait_sigs = 0,
      waiting_on = (if st = VCPU_STATE_WAITING then Some 0 else None), wakeup_reason = 0, is_armed = (st = VCPU_STATE_WAITING),
      t_deadline = 10, v_usr_ticks = 0, v_sys_ticks = 0, v_wait_ticks = 0, stack_ok = True\<rparr>"

definition demo_world :: world where
  "demo_world =
     (blank_world 0 0 1)\<lparr>
       vcpus := (\<lambda>_. demo_vcpu VCPU_STATE_SUSPENDED 1)(0 := demo_vcpu VCPU_STATE_READY 1, 1 := demo_vcpu VCPU_STATE_RUNNING 24,
                 2 := demo_vcpu VCPU_STATE_READY 24, 3 := demo_vcpu VCPU_STATE_WAITING 40),
       running := Some 1, idle_vp := 0, boot_vp := 4,
       prioq := (replicate 80 [])[1 := [0], 24 := [2]], populated := [2 ^ 1 OR 2 ^ 24, 0, 0], waitqs := [[3]],
       deadline_queue := [3], tick_count := 9\<rparr>"

lemma demo_sel:
  "vcpus demo_world 0 = demo_vcpu VCPU_STATE_READY 1" "vcpus demo_world (Suc 0) = demo_vcpu VCPU_STATE_RUNNING 24"
  "vcpus demo_world 2 = demo_vcpu VCPU_STATE_READY 24" "vcpus demo_world 3 = demo_vcpu VCPU_STATE_WAITING 40"
  "running demo_world = Some 1" "idle_vp demo_world = 0" "prioq demo_world = (replicate 80 [])[1 := [0], 24 := [2]]"
  "waitqs demo_world = [[3]]" "deadline_queue demo_world = [3]" "tick_count demo_world = 9" "irq_nest_count demo_world = 0"
  "populated demo_world = [2 ^ 1 OR 2 ^ 24, 0, 0]"
  by (simp_all add: demo_world_def blank_world_def Let_def)

lemma demo_state:
  "run_state (vcpus demo_world v) =
     (if v = 0 \<or> v = 2 then VCPU_STATE_READY else if v = 1 then VCPU_STATE_RUNNING else if v = 3 then VCPU_STATE_WAITING else VCPU_STATE_SUSPENDED)"
  "cur_priority (vcpus demo_world v) = (if v = 1 \<or> v = 2 then 24 else if v = 3 then 40 else 1)"
  "waiting_on (vcpus demo_world v) = (if v = 3 then Some 0 else None)" "is_armed (vcpus demo_world v) \<longleftrightarrow> v = 3"
  "wf_vcpu (vcpus demo_world v)" "stack_ok (vcpus demo_world v)"
  by (simp_all add: demo_world_def demo_vcpu_def wf_vcpu_def)

lemma demo_ok: "sched_ok demo_world"
proof -
  have "rq_ok demo_world"
  proof -
    have "pop_bit (populated demo_world) p \<longleftrightarrow> p = 1 \<or> p = 24" if "p < 96" for p
    proof -
      consider "p < 32" | "p \<ge> 32" "p div 32 = 1 \<or> p div 32 = 2" using \<open>p < 96\<close> by linarith
      then show ?thesis
      proof cases
        case 1
        have "bit ((2 :: u32) ^ 1 OR 2 ^ 24) p \<longleftrightarrow> p = 1 \<or> p = 24"
          by (auto simp only: bit_or_iff bit_pow2_u32)
        then show ?thesis using 1 by (simp only: pop_bit_def demo_sel(12)) simp
      next
        case 2
        then show ?thesis by (auto simp: pop_bit_def demo_sel(12))
      qed
    qed
    then show ?thesis by (auto simp: rq_ok_def demo_sel nth_list_update)
  qed
  moreover have "queues_ok demo_world {}"
    by (rule queues_okI) (auto simp: demo_sel demo_state nth_list_update split: if_splits)
  ultimately have "q_inv demo_world {}" by (simp add: q_inv_def all_wf_def demo_state)
  moreover have "timers_ok demo_world" by (simp add: timers_ok_def demo_sel(5-12) demo_state)
  moreover have "proc_ok demo_world 1"
    unfolding proc_ok_def by (simp add: demo_sel(5-12) demo_state) (simp add: demo_world_def blank_world_def Let_def)
  ultimately show ?thesis by (auto simp: sched_ok_def sched_inv_def demo_sel)
qed

subsection \<open>Runs of the scheduler\<close>

text \<open>
  C34. The scheduler starts consistent. \<open>sched_create\<close> on cleared memory and the first switch succeed without a failed assertion: the boot
  vcpu runs, the idle vcpu is ready, and the invariant of the scheduler holds. Both vcpus have priority 1: the policies that the boot code
  asks for are the ones that \<open>validate_vcpu_policy\<close> reserves and rejects.
\<close>
theorem sched_boots:
  assumes "boot \<noteq> idle"
  shows "\<exists>w w'. sched_create (blank_world oobb oobm nwq) boot idle = Some w \<and> sched_switch_to_boot_vcpu w = Some w' \<and> sched_ok w'
    \<and> running w' = Some boot \<and> idle_vp w' = idle \<and> run_state (vcpus w' idle) = VCPU_STATE_READY
    \<and> cur_priority (vcpus w' boot) = 1 \<and> cur_priority (vcpus w' idle) = 1"
  using boot_ok [OF assms] .

theorem sched_boots_witness:
  "\<exists>w w'. sched_create (blank_world 0 0 2) 7 8 = Some w \<and> sched_switch_to_boot_vcpu w = Some w' \<and> sched_ok w' \<and> running w' = Some 7"
  using sched_boots [of 7 8 0 0 2] by auto

text \<open>
  What the lists of the scheduler say: exactly one vcpu is running, the ready vcpus are exactly those on the ready list of their priority, and the
  waiting vcpus exactly those on the wait queue that they wait on.
\<close>

definition lists_consistent :: "world \<Rightarrow> bool" where
  "lists_consistent w \<longleftrightarrow>
     (\<exists>r. running w = Some r \<and> (\<forall>v. run_state (vcpus w v) = VCPU_STATE_RUNNING \<longleftrightarrow> v = r))
     \<and> (\<forall>v p. p < 80 \<longrightarrow> (v \<in> set (prioq w ! p) \<longleftrightarrow> run_state (vcpus w v) = VCPU_STATE_READY \<and> cur_priority (vcpus w v) = int p))
     \<and> (\<forall>v q. q < length (waitqs w) \<longrightarrow>
           (v \<in> set (waitqs w ! q) \<longleftrightarrow> run_state (vcpus w v) = VCPU_STATE_WAITING \<and> waiting_on (vcpus w v) = Some q))"

lemma sched_ok_consistent:
  assumes "sched_ok w"
  shows "lists_consistent w"
proof -
  obtain r where r: "proc_ok w r" "queues_ok w {}" using assms unfolding sched_ok_def sched_inv_def q_inv_def by blast
  then show ?thesis
    using proc_ok_running [OF r(1)] proc_okD [OF r(1)] queues_okD(2,4) [OF r(2)] unfolding lists_consistent_def by auto
qed

lemma wakeup_hazard_faults: "sched_hazard (CWakeup q flags b) w \<Longrightarrow> sched_exec (CWakeup q flags b) w = None"
  by (auto simp: wq_wakeup_np_def arr_get_def)

text \<open>
  C4. The scheduler stays consistent, up to the calls that break it. From a consistent state every sequence of calls and interrupts, none left out,
  either runs to its end without a failed assertion, a null pointer or a vcpu taken from a queue that it is not on, and the lists of the scheduler are
  consistent afterwards; or it gets, in a consistent state, to a first call of \<open>sched_hazard\<close>, for which nothing is promised. These are: waking one
  waiter of an empty queue (\<open>WAKEUP_ONE\<close>; \<open>sem_post\<close> and \<open>cnd_signal\<close> do it without asking whether there is a waiter), which reads a vcpu at the null
  pointer and counts as a fault; a wait with a deadline that has passed, which returns with the vcpu still queued; changing the nice value
  or quantum boost of a process that has a ready vcpu, which does not move the vcpu to the list of its new priority; ending a system call with
  an abort pending, which ends the vcpu; blocking, yielding, resuming or signalling the idle vcpu; blocking or charging time to a vcpu that belongs to no
  process; a wait queue that does not exist. The quanta of realtime vcpus are read from the byte behind the table: that read is out of bounds in C
  and its value is a parameter here (\<open>oob_base\<close> and \<open>oob_max\<close>), so that the theorem holds whatever is read but does not say that the read is allowed.
\<close>
theorem sched_runs_safely:
  assumes "sched_ok w"
  shows "(\<exists>w'. run_all sched_exec calls w = Some w' \<and> sched_ok w' \<and> lists_consistent w')
    \<or> (\<exists>before c after w'. calls = before @ c # after \<and> run_all sched_exec before w = Some w' \<and> sched_ok w' \<and> lists_consistent w'
         \<and> sched_hazard c w' \<and> (\<forall>q flags b. c = CWakeup q flags b \<longrightarrow> run_all sched_exec calls w = None))"
  using schedsys.run_stops [OF assms, of calls]
proof
  assume "\<exists>ys c zs w'. calls = ys @ c # zs \<and> run_all sched_exec ys w = Some w' \<and> sched_ok w' \<and> \<not> \<not> sched_hazard c w'"
  then obtain ys c zs w' where stop: "calls = ys @ c # zs" "run_all sched_exec ys w = Some w'" "sched_ok w'" "sched_hazard c w'" by blast
  have "run_all sched_exec calls w = None" if "c = CWakeup q flags b" for q flags b
    using stop that wakeup_hazard_faults run_all_stuck by metis
  then show ?thesis using stop sched_ok_consistent by blast
qed (use sched_ok_consistent in blast)

theorem sched_runs_safely_witness:
  "\<exists>w'. run_all sched_exec [CClockIrq True, CSetPolicy 2 \<lparr>version = 12, grade = 3, qpriority = 0\<rparr>, CSuspend 1, CEpilogDone] demo_world = Some w'
     \<and> lists_consistent w'"
proof -
  let ?calls = "[CClockIrq True, CSetPolicy 2 \<lparr>version = 12, grade = 3, qpriority = 0\<rparr>, CSuspend 1, CEpilogDone]"
  have "\<not> sched_hazard c w" if "?calls = before @ c # after" "run_all sched_exec before demo_world = Some w" for before c after w
  proof (cases before)
    case Nil
    then show ?thesis using that by (auto simp: demo_sel demo_vcpu_def)
  next
    case (Cons b bs)
    then have "c \<in> set (tl ?calls)" using that(1) by auto
    then show ?thesis by auto
  qed
  then show ?thesis using sched_runs_safely [OF demo_ok, of ?calls] by blast
qed

text \<open>
  C15. The best ready vcpu. In a consistent state the bitmap search finds the first vcpu of the highest populated list: a ready vcpu with
  the highest priority of all ready ones, and the head of its list. (A vcpu is added at the tail of its list, but a preempted one at the head.)
  It finds none exactly if no vcpu is ready.
\<close>
theorem highest_priority_ready_spec:
  assumes "sched_ok w"
  shows "\<exists>best. sched_highest_priority_ready w = Some best
    \<and> (best = None \<longleftrightarrow> (\<forall>v. run_state (vcpus w v) \<noteq> VCPU_STATE_READY))
    \<and> (\<forall>v. best = Some v \<longrightarrow> run_state (vcpus w v) = VCPU_STATE_READY \<and> hd (prioq w ! nat (cur_priority (vcpus w v))) = v
          \<and> (\<forall>u. run_state (vcpus w u) = VCPU_STATE_READY \<longrightarrow> cur_priority (vcpus w u) \<le> cur_priority (vcpus w v)))"
proof -
  have inv: "q_inv w {}" using assms by (simp add: sched_ok_def sched_inv_def)
  have "sched_highest_priority_ready w = Some (top_ready w)" using inv by (simp add: q_inv_def sched_highest_priority_ready_top)
  moreover have "top_ready w = None \<longleftrightarrow> (\<forall>v. run_state (vcpus w v) \<noteq> VCPU_STATE_READY)"
    using top_ready_exists [OF inv] top_ready_READY(2) [OF inv] by (metis empty_iff not_None_eq)
  moreover have "hd (prioq w ! nat (cur_priority (vcpus w v))) = v" if top: "top_ready w = Some v" for v
  proof -
    obtain p where p: "p < 80" "prioq w ! p \<noteq> []" "v = hd (prioq w ! p)" using top_ready_Some [OF top] by blast
    then have "v \<in> set (prioq w ! p)" by simp
    then have "cur_priority (vcpus w v) = int p" using queues_okD(2) [OF q_inv_facts(8) [OF inv] p(1)] by blast
    then show ?thesis using p(3) by simp
  qed
  ultimately show ?thesis using top_ready_READY(2,3) [OF inv] by (intro exI [of _ "top_ready w"]) auto
qed

theorem highest_priority_ready_spec_witness:
  "\<exists>v. sched_highest_priority_ready demo_world = Some (Some v) \<and> (\<forall>u. run_state (vcpus demo_world u) = VCPU_STATE_READY \<longrightarrow> cur_priority (vcpus demo_world u) \<le> cur_priority (vcpus demo_world v))"
proof -
  obtain best where best: "sched_highest_priority_ready demo_world = Some best"
    "best = None \<longleftrightarrow> (\<forall>v. run_state (vcpus demo_world v) \<noteq> VCPU_STATE_READY)"
    "\<forall>v. best = Some v \<longrightarrow> (\<forall>u. run_state (vcpus demo_world u) = VCPU_STATE_READY \<longrightarrow> cur_priority (vcpus demo_world u) \<le> cur_priority (vcpus demo_world v))"
    using highest_priority_ready_spec [OF demo_ok] by blast
  moreover have "run_state (vcpus demo_world 0) = VCPU_STATE_READY" by (simp add: demo_state)
  ultimately show ?thesis by (metis not_None_eq)
qed

text \<open>
  C16. Preemption. At the end of every interrupt that does not end the quantum of the running vcpu, the vcpu that runs afterwards has the highest priority
  of all vcpus that could run: no ready vcpu has a higher one.
\<close>
theorem irq_runs_best:
  assumes "sched_inv w" "running w = Some r" "quantum_countdown (vcpus w r) > 0"
  shows "\<exists>w' r'. irq_done w = Some w' \<and> running w' = Some r' \<and> sched_inv w'
    \<and> (\<forall>u. run_state (vcpus w' u) = VCPU_STATE_READY \<longrightarrow> cur_priority (vcpus w' u) \<le> cur_priority (vcpus w' r'))"
proof -
  let ?w = "w\<lparr>irq_nest_count := irq_nest_count w - 1\<rparr>"
  have "sched_inv ?w" using assms(1) by simp
  then obtain r0 where r0: "q_inv ?w {}" "timers_ok ?w" "proc_ok ?w r0" unfolding sched_inv_def by blast
  have "r0 = r" using proc_ok_running [OF r0(3)] assms(2) by simp
  note r = r0 [unfolded this]
  have run: "run_state (vcpus ?w r) = VCPU_STATE_RUNNING" using proc_okD [OF r(3), of r] by simp
  have top: "sched_highest_priority_ready ?w = Some (top_ready ?w)" using r(1) by (simp add: q_inv_def sched_highest_priority_ready_top)
  obtain w' where w': "irq_done w = Some w'" "sched_inv w'" using irq_done_inv [OF assms(1)] by blast
  show ?thesis
  proof (cases "\<exists>v. top_ready ?w = Some v \<and> cur_priority (vcpus ?w v) > cur_priority (vcpus ?w r)")
    case True
    then obtain v where v: "top_ready ?w = Some v" "cur_priority (vcpus ?w v) > cur_priority (vcpus ?w r)" by blast
    note ready = top_ready_READY(2,3) [OF r(1) v(1)]
    let ?s = "sched_set_running_as_preemptor ?w v"
    have any: "sched_on_any_irq ?w = Some ?s" using assms(2,3) top v by (simp add: sched_on_any_irq_def)
    have "q_inv ?s {}" "running ?s = Some r" "scheduled ?s = Some v" "vcpus ?s = vcpus w" "csw_switch ?s"
      using r(1) assms(2) by (simp_all add: sched_set_running_as_preemptor_def)
    moreover have "stack_ok (vcpus w v)" using r(3) by (simp add: proc_ok_def)
    ultimately obtain pq pop where sw: "sched_switch_context ?s = Some (?s\<lparr>vcpus := switched (vcpus w) r v, prioq := pq, populated := pop,
        running := Some v, scheduled := None, csw_switch := False, csw_preempted := False\<rparr>)"
      using sched_switch_context_ok [of ?s r v] run ready(1) by auto
    then have "w' = ?s\<lparr>vcpus := switched (vcpus w) r v, prioq := pq, populated := pop,
        running := Some v, scheduled := None, csw_switch := False, csw_preempted := False\<rparr>"
      using w'(1) any \<open>csw_switch ?s\<close> by (simp add: irq_done_def)
    then have vs: "running w' = Some v" "vcpus w' = switched (vcpus w) r v" by simp_all
    have "cur_priority (vcpus w' u) \<le> cur_priority (vcpus w' v)" if "run_state (vcpus w' u) = VCPU_STATE_READY" for u
    proof -
      have "u \<noteq> v" using that vs by (auto simp: switched_def)
      then have "u = r \<or> run_state (vcpus w u) = VCPU_STATE_READY" using that vs(2) by (auto simp: switched_def split: if_splits)
      then show ?thesis using v(2) ready(2) [of u] run \<open>u \<noteq> v\<close> unfolding vs(2) by (auto simp: switched_def)
    qed
    then show ?thesis using w' vs(1) by blast
  next
    case False
    have any: "sched_on_any_irq ?w = Some ?w"
      using assms(2,3) top False by (auto simp: sched_on_any_irq_def split: option.splits)
    moreover have "\<not> csw_switch ?w" using r(3) by (simp add: proc_ok_def)
    ultimately have "w' = ?w" using w'(1) by (simp add: irq_done_def)
    moreover have "cur_priority (vcpus ?w u) \<le> cur_priority (vcpus ?w r)" if u: "run_state (vcpus ?w u) = VCPU_STATE_READY" for u
    proof -
      obtain v where v: "top_ready ?w = Some v" using top_ready_exists [OF r(1) _ u] by auto
      have "cur_priority (vcpus ?w u) \<le> cur_priority (vcpus ?w v)" using top_ready_READY(3) [OF r(1) v _ u] by simp
      moreover have "\<not> cur_priority (vcpus ?w v) > cur_priority (vcpus ?w r)" using False v by blast
      ultimately show ?thesis by linarith
    qed
    ultimately show ?thesis using w' assms(2) by auto
  qed
qed

theorem irq_runs_best_witness:
  "\<exists>w' r'. irq_done demo_world = Some w' \<and> running w' = Some r' \<and> sched_inv w'"
proof -
  have "sched_inv demo_world" using demo_ok by (simp add: sched_ok_def)
  then show ?thesis using irq_runs_best [of demo_world 1] by (simp add: demo_sel demo_vcpu_def) blast
qed

text \<open>
  C17. No waiter is lost. Waking up all waiters of a queue makes exactly the vcpus that wait on it ready, empties the queue and leaves all other
  vcpus as they were.
\<close>
theorem wakeup_all_readies:
  assumes "sched_ok w" "q < length (waitqs w)"
  shows "\<exists>w'. wq_wakeup_np w q 0 pri_boost = Some w' \<and> sched_ok w' \<and> waitqs w' ! q = [] \<and> running w' = running w
    \<and> (\<forall>v. run_state (vcpus w v) = VCPU_STATE_WAITING \<and> waiting_on (vcpus w v) = Some q \<longrightarrow> run_state (vcpus w' v) = VCPU_STATE_READY)
    \<and> (\<forall>v. \<not> (run_state (vcpus w v) = VCPU_STATE_WAITING \<and> waiting_on (vcpus w v) = Some q) \<longrightarrow> vcpus w' v = vcpus w v)"
proof -
  have inv: "sched_inv w" using assms(1) by (simp add: sched_ok_def)
  then have Q: "queues_ok w {}" by (simp add: sched_inv_def q_inv_def)
  note mem = queues_okD(4) [OF Q assms(2), simplified]
  obtain w' where w': "wakeup_each w q (waitqs w ! q) pri_boost = Some w'" "sched_inv w'" "same_frame w w'" "running w' = running w"
      "\<forall>v \<in> set (waitqs w ! q). run_state (vcpus w' v) = VCPU_STATE_READY" "\<forall>v. v \<notin> set (waitqs w ! q) \<longrightarrow> vcpus w' v = vcpus w v"
    using wakeup_each_inv [OF inv queues_okD(3) [OF Q assms(2)], of q pri_boost] mem by auto
  have "q < length (waitqs w')" using w'(3) assms(2) by (simp add: same_frame_def)
  moreover have "queues_ok w' {}" using w'(2) by (simp add: sched_inv_def q_inv_def)
  ultimately have mem': "v \<in> set (waitqs w' ! q) \<longleftrightarrow> run_state (vcpus w' v) = VCPU_STATE_WAITING \<and> waiting_on (vcpus w' v) = Some q" for v
    using queues_okD(4) [of w' "{}" q v] by simp
  have "v \<notin> set (waitqs w' ! q)" for v
  proof (cases "v \<in> set (waitqs w ! q)")
    case True
    then show ?thesis using w'(5) mem' [of v] by auto
  next
    case False
    then show ?thesis using w'(6) mem' [of v] mem [of v] by auto
  qed
  then have "waitqs w' ! q = []" by (metis list.set_intros(1) neq_Nil_conv)
  moreover have "wq_wakeup_np w q 0 pri_boost = Some w'" using w'(1) assms(2) by (simp add: wq_wakeup_np_def arr_get_def)
  ultimately show ?thesis using w'(2-6) sched_okI [OF assms(1)] mem by (intro exI [of _ w']) auto
qed

theorem wakeup_all_readies_witness:
  "\<exists>w'. wq_wakeup_np demo_world 0 0 4 = Some w' \<and> run_state (vcpus w' 3) = VCPU_STATE_READY \<and> waitqs w' ! 0 = []"
  using wakeup_all_readies [OF demo_ok, of 0 4] by (auto simp: demo_sel demo_vcpu_def)

text \<open>
  C18. Timeouts. A clock interrupt wakes exactly the vcpus whose deadline has been reached: when \<open>clock_irq\<close> has run the expired timers, every vcpu that
  was armed with a deadline at or before the new time is ready, disarmed and told that it timed out, every other vcpu is as it was, and the deadlines that
  are still armed lie in the future and belong to waiting vcpus. The rest of the interrupt, which continues from there, completes without a fault. The
  number of timers that it runs is bounded by the length of the queue.
\<close>
theorem timeouts_fire:
  assumes "sched_ok w" "running w = Some r" "isuser \<longrightarrow> vproc (vcpus w r) \<noteq> None"
  defines "w0 \<equiv> w\<lparr>irq_nest_count := irq_nest_count w + 1, tick_count := (tick_count w + 1) mod 4294967296\<rparr>"
  shows "\<exists>w1 w2. fire_deadlines w0 (length (deadline_queue w0)) = Some w1
    \<and> (\<forall>v. if is_armed (vcpus w v) \<and> t_deadline (vcpus w v) \<le> tick_count w0
           then run_state (vcpus w1 v) = VCPU_STATE_READY \<and> wakeup_reason (vcpus w1 v) = WRES_TIMEOUT \<and> \<not> is_armed (vcpus w1 v)
           else vcpus w1 v = vcpus w v)
    \<and> (\<forall>v. is_armed (vcpus w1 v) \<longrightarrow> t_deadline (vcpus w1 v) > tick_count w0)
    \<and> (\<forall>v. is_armed (vcpus w1 v) \<longrightarrow> run_state (vcpus w1 v) = VCPU_STATE_WAITING)
    \<and> clock_interrupt w isuser = Option.bind (sched_on_tick_irq w1 isuser) irq_done
    \<and> clock_interrupt w isuser = Some w2 \<and> sched_ok w2"
proof -
  have inv: "sched_inv w" and nest: "irq_nest_count w = 0" using assms(1) by (simp_all add: sched_ok_def)
  have w0: "sched_inv w0" "irq_nest_count w0 > 0" "vcpus w0 = vcpus w" using inv nest by (simp_all add: w0_def)
  obtain w1 where w1: "fire_deadlines w0 (length (deadline_queue w0)) = Some w1" "sched_inv w1"
      "\<forall>v. is_armed (vcpus w1 v) \<longrightarrow> t_deadline (vcpus w1 v) > tick_count w0"
      "\<forall>v. if is_armed (vcpus w v) \<and> t_deadline (vcpus w v) \<le> tick_count w0
           then run_state (vcpus w1 v) = VCPU_STATE_READY \<and> wakeup_reason (vcpus w1 v) = WRES_TIMEOUT \<and> \<not> is_armed (vcpus w1 v)
           else vcpus w1 v = vcpus w v"
    using fire_deadlines_inv [OF w0(1,2) order_refl] unfolding w0(3) by blast
  moreover have "run_state (vcpus w1 v) = VCPU_STATE_WAITING" if "is_armed (vcpus w1 v)" for v
    using timers_okD [OF _ that] w1(2) by (simp add: sched_inv_def)
  moreover have "clock_interrupt w isuser = Option.bind (sched_on_tick_irq w1 isuser) irq_done"
    using w1(1) by (simp add: clock_interrupt_def clock_irq_def w0_def Let_def)
  moreover have "vproc (vcpus w x) \<noteq> None" if "running w = Some x" "isuser" for x using assms(2,3) that by simp
  then obtain w2 where "clock_interrupt w isuser = Some w2" "sched_inv w2" "same_frame (w\<lparr>tick_count := (tick_count w + 1) mod 4294967296\<rparr>) w2"
    using clock_interrupt_inv [OF inv nest, of isuser] by blast
  moreover from this have "sched_ok w2" using nest by (simp add: sched_ok_def same_frame_def)
  ultimately show ?thesis by blast
qed

theorem timeouts_fire_witness:
  "\<exists>w1 w2. run_state (vcpus w1 3) = VCPU_STATE_READY \<and> wakeup_reason (vcpus w1 3) = WRES_TIMEOUT
     \<and> Option.bind (sched_on_tick_irq w1 True) irq_done = Some w2 \<and> clock_interrupt demo_world True = Some w2 \<and> sched_ok w2"
proof -
  have "running demo_world = Some 1" "True \<longrightarrow> vproc (vcpus demo_world 1) \<noteq> None" by (simp_all add: demo_sel demo_vcpu_def)
  note fire = timeouts_fire [OF demo_ok this]
  have "is_armed (vcpus demo_world 3)" "t_deadline (vcpus demo_world 3) \<le> 10" "tick_count demo_world = 9" by (simp_all add: demo_sel demo_vcpu_def)
  with fire show ?thesis by (simp only:) (simp, metis)
qed

subsection \<open>Signals\<close>

lemma signals_and: "signals (s AND t) = signals s \<inter> signals t"
  by (auto simp: signals_def bit_and_iff)

lemma signals_or: "signals (s OR t) = signals s \<union> signals t"
  by (auto simp: signals_def bit_or_iff)

lemma signals_not: "signals (NOT t) = {1..32} - signals t"
proof -
  have "nat (k - 1) < 32" if "1 \<le> k" "k \<le> 32" for k using that by linarith
  then show ?thesis by (auto simp: signals_def bit_not_iff possible_bit_word)
qed

lemma signals_subset: "signals s \<subseteq> {1..32}"
  by (auto simp: signals_def)

lemma signals_sig_bit: "1 \<le> k \<Longrightarrow> k \<le> 32 \<Longrightarrow> signals (sig_bit k) = {k}"
  by (auto simp: signals_def bit_sig_bit)

lemma signals_empty: "signals s = {} \<longleftrightarrow> s = 0"
proof -
  have "signals (0 :: u32) = {}" by (auto simp: signals_def)
  then show ?thesis using signals_eq_iff [of s 0] by simp
qed

lemma sigset_consts:
  "signals SIGSET_ABORTS = {1}" "signals SIGSET_URGENTS = {1, 2}" "signals SIGSET_STICKY = {1, 2}"
  by (auto simp: SIGSET_ABORTS_def SIGSET_URGENTS_def SIGSET_STICKY_def signals_or signals_sig_bit SIG_FORCE_QUIT_def SIG_URGENT_def)

lemma filter_upt_first:
  assumes "filter P [a..<b] = x # xs"
  shows "P x" "a \<le> x" "x < b" "\<And>y. a \<le> y \<Longrightarrow> y < b \<Longrightarrow> P y \<Longrightarrow> x \<le> y"
proof -
  have "x \<in> set (filter P [a..<b])" using assms by simp
  then show "P x" "a \<le> x" "x < b" by auto
  fix y assume "a \<le> y" "y < b" "P y"
  then have "y \<in> set (x # xs)" unfolding assms [symmetric] by simp
  moreover have "sorted (x # xs)" using assms sorted_upt sorted_wrt_filter by metis
  ultimately show "x \<le> y" by auto
qed

lemma get_highest_pri_sig_signals:
  assumes "signals s \<noteq> {}"
  shows "get_highest_pri_sig s \<in> signals s" "\<And>n. n \<in> signals s \<Longrightarrow> get_highest_pri_sig s \<le> n"
proof -
  let ?P = "\<lambda>i. s AND push_bit i 1 \<noteq> 0"
  have P: "?P i \<longleftrightarrow> int i + 1 \<in> signals s" if "i < 32" for i
    using sigset_contains_signals [of s "int i + 1"] that by (simp add: sigset_contains_def sig_bit_def SIG_MIN_def SIG_MAX_def)
  have idx: "\<exists>i < 32. n = int i + 1" if "n \<in> signals s" for n
    using that by (intro exI [of _ "nat (n - 1)"]) (auto simp: signals_def)
  have range: "[nat (SIG_MIN - 1)..<nat SIG_MAX] = [0..<32]" by (simp add: SIG_MIN_def SIG_MAX_def)
  obtain n where "n \<in> signals s" using assms by blast
  then obtain i where "i < 32" "?P i" using idx P by metis
  then have "filter ?P [0..<32] \<noteq> []" by (auto simp: filter_empty_conv)
  then obtain x xs where f: "filter ?P [0..<32] = x # xs" by (meson neq_Nil_conv)
  note first = filter_upt_first [OF f]
  have val: "get_highest_pri_sig s = int x + 1" unfolding get_highest_pri_sig_def range f by simp
  show "get_highest_pri_sig s \<in> signals s" using P [of x] first(1,3) val by simp
  show "get_highest_pri_sig s \<le> n" if n: "n \<in> signals s" for n
  proof -
    obtain j where j: "j < 32" "n = int j + 1" using idx [OF n] by blast
    then have "?P j" using P n by simp
    then show ?thesis using first(4) [of j] j val by simp
  qed
qed

text \<open>
  C20. Receiving signals. If one of the awaited signals is pending, and no abort that the caller has not masked, \<open>vcpu_sigwait\<close> returns at once with the
  lowest-numbered pending signal of the set and consumes exactly that one; \<open>SIG_FORCE_QUIT\<close> and \<open>SIG_URGENT\<close> are never consumed. A pending abort has
  priority and stays pending: the call returns \<open>EABORTED\<close>, where the comment at the top of the file promises \<open>ECANCELED\<close>.
\<close>
theorem sigwait_receives:
  assumes "running w = Some r"
    and "signals (pending_sigs (vcpus w r)) \<inter> (signals sigs - {1, 2}) \<noteq> {}"
  defines "got \<equiv> signals (pending_sigs (vcpus w r)) \<inter> (signals sigs - {1, 2})"
  shows "if flags AND SIGWAIT_NOABORT = 0 \<and> 1 \<in> signals (pending_sigs (vcpus w r))
    then vcpu_sigwait_pass w q sigs flags deadline = Some (SigError EABORTED, w)
    else \<exists>k w'. vcpu_sigwait_pass w q sigs flags deadline = Some (SigReceived k, w')
       \<and> k \<in> got \<and> (\<forall>n \<in> got. k \<le> n) \<and> signals (pending_sigs (vcpus w' r)) = signals (pending_sigs (vcpus w r)) - {k}
       \<and> (\<forall>v. v \<noteq> r \<longrightarrow> vcpus w' v = vcpus w v)"
proof -
  let ?p = "pending_sigs (vcpus w r)"
  let ?c = "sigs AND NOT SIGSET_ABORTS AND NOT SIGSET_URGENTS"
  have c: "signals (?p AND ?c) = got" 
    unfolding got_def using signals_subset [of ?p] by (auto simp: signals_and signals_not sigset_consts)
  have abort: "?p AND SIGSET_ABORTS \<noteq> 0 \<longleftrightarrow> 1 \<in> signals ?p"
    unfolding signals_empty [symmetric] by (auto simp: signals_and sigset_consts)
  have c0: "?p AND ?c \<noteq> 0" using c assms(2) unfolding signals_empty [symmetric] got_def by simp
  have c1: "?p AND (?c OR SIGSET_ABORTS) \<noteq> 0"
    using c assms(2) unfolding signals_empty [symmetric] signals_and signals_or got_def by auto
  have hp: "get_highest_pri_sig (?p AND ?c) \<in> got" "\<And>n. n \<in> got \<Longrightarrow> get_highest_pri_sig (?p AND ?c) \<le> n"
    using get_highest_pri_sig_signals [of "?p AND ?c"] c assms(2) by (simp_all add: got_def)
  let ?k = "get_highest_pri_sig (?p AND ?c)"
  have "1 \<le> ?k" "?k \<le> 32" using hp(1) by (simp_all add: got_def signals_def)
  then have pend: "signals (?p AND NOT (sig_bit ?k)) = signals ?p - {?k}" 
    using signals_subset [of ?p] by (auto simp: signals_and signals_not signals_sig_bit)
  show ?thesis
  proof (cases "flags AND SIGWAIT_NOABORT = 0 \<and> 1 \<in> signals ?p")
    case True
    then show ?thesis using assms(1) c1 abort by (simp add: vcpu_sigwait_pass_def vcpu_testabort_np_def)
  next
    case False
    let ?w = "upd_vcpu w r (\<lambda>vp. vp\<lparr>pending_sigs := pending_sigs vp AND NOT (sig_bit ?k)\<rparr>)"
    have "vcpu_sigwait_pass w q sigs flags deadline = Some (SigReceived ?k, ?w)"
      using assms(1) c0 c1 abort False by (auto simp: vcpu_sigwait_pass_def vcpu_testabort_np_def Let_def)
    then show ?thesis using False hp pend by (auto intro!: exI [of _ ?k] exI [of _ ?w])
  qed
qed

theorem sigwait_receives_witness:
  "\<exists>k w'. vcpu_sigwait_pass (upd_vcpu demo_world 1 (\<lambda>vp. vp\<lparr>pending_sigs := 0x14\<rparr>)) 0 0xFF 0 TICKS_MAX = Some (SigReceived k, w')
     \<and> signals (pending_sigs (vcpus w' 1)) = signals 0x14 - {k}"
proof -
  let ?w = "upd_vcpu demo_world 1 (\<lambda>vp. vp\<lparr>pending_sigs := 0x14\<rparr>)"
  have "signals (0x14 :: u32) = {3, 5}"
  proof -
    have "(0x14 :: u32) = sig_bit 3 OR sig_bit 5" by (simp add: sig_bit_def push_bit_eq_mult)
    moreover have "signals (sig_bit 3 OR sig_bit 5) = {3, 5}" by (auto simp: signals_or signals_sig_bit)
    ultimately show ?thesis by (simp only:)
  qed
  moreover have "3 \<in> signals (0xFF :: u32)"
    unfolding sigset_contains_signals [symmetric] by (simp add: sigset_contains_def sig_bit_def SIG_MIN_def SIG_MAX_def push_bit_eq_mult)
  moreover have "running ?w = Some 1" "pending_sigs (vcpus ?w 1) = 0x14" by (simp_all add: demo_sel)
  ultimately show ?thesis using sigwait_receives [of ?w 1 "0xFF" 0 0 TICKS_MAX] by auto
qed

subsection \<open>Policies\<close>

text \<open>
  C33. Policies round-trip. A policy with a wrong version, class or priority is rejected with \<open>EINVAL\<close>, the lowest background and the highest realtime
  priority, which are reserved for the scheduler, are rejected with \<open>EPERM\<close>, and neither changes anything. Every other policy is set, in every
  state of the target vcpu, with the scheduler consistent afterwards, and reading the policy back gives the same class and priority.
\<close>
theorem policy_roundtrip:
  assumes "sched_ok w"
  shows "\<exists>e w'. vcpu_set_policy w v p = Some (e, w') \<and> sched_ok w' \<and>
    (if version p \<noteq> policy_size \<or> grade p \<notin> {1..5} \<or> qpriority p \<notin> {-8..7} then e = EINVAL \<and> w' = w
     else if (grade p = 1 \<and> qpriority p = -8) \<or> (grade p = 5 \<and> qpriority p = 7) then e = EPERM \<and> w' = w
     else e = EOK \<and> vcpu_policy (vcpus w' v) policy_size = (EOK, Some p))"
proof -
  have inv: "sched_inv w" using assms by (simp add: sched_ok_def)
  have e: "validate_vcpu_policy p =
    (if version p \<noteq> policy_size \<or> grade p \<notin> {1..5} \<or> qpriority p \<notin> {-8..7} then EINVAL
     else if (grade p = 1 \<and> qpriority p = -8) \<or> (grade p = 5 \<and> qpriority p = 7) then EPERM else EOK)"
    by (auto simp: validate_vcpu_policy_def pri_consts)
  obtain w' where w': "vcpu_set_policy w v p = Some (validate_vcpu_policy p, w')" "sched_inv w'" "same_frame w w'"
      "validate_vcpu_policy p = EOK \<longrightarrow> base_priority (vcpus w' v) = SCHED_PRI_FROM_QOS (grade p) (qpriority p)"
    using vcpu_set_policy_inv [OF inv, of v p] by blast
  have "vcpu_policy (vcpus w' v) policy_size = (EOK, Some p)" if ok: "validate_vcpu_policy p = EOK"
  proof -
    have b: "-8 \<le> qpriority p" "qpriority p \<le> 7" "version p = policy_size" using ok by (simp_all add: validate_vcpu_policy_EOK)
    then show ?thesis using w'(4) ok qos_roundtrip [OF b(1,2), of "grade p"] by (simp add: vcpu_policy_def)
  qed
  moreover have "w' = w" if "validate_vcpu_policy p \<noteq> EOK" using w'(1) that by (simp add: vcpu_set_policy_def)
  moreover have "sched_ok w'" using w'(2,3) sched_okI [OF assms] by blast
  ultimately show ?thesis using w'(1) unfolding e by (auto split: if_splits)
qed

theorem policy_roundtrip_witness:
  "\<exists>w'. vcpu_set_policy demo_world 2 \<lparr>version = 12, grade = 3, qpriority = -5\<rparr> = Some (EOK, w')
     \<and> vcpu_policy (vcpus w' 2) 12 = (EOK, Some \<lparr>version = 12, grade = 3, qpriority = -5\<rparr>)"
  using policy_roundtrip [OF demo_ok, of 2 "\<lparr>version = 12, grade = 3, qpriority = -5\<rparr>"] by (auto simp: policy_size_def)

subsection \<open>Where the code leaves the invariant\<close>

text \<open>
  Changing the nice value of a process. \<open>Process_SetSchedParam\<close> recomputes the priority of a ready vcpu without moving it to the
  list of its new priority. If the priority changes, the vcpu is no longer on the list that the scheduler looks for it on: taking it off the ready queue,
  which the next switch to it does, removes a node from a list that it is not on.
\<close>
theorem set_nice_corrupts_ready_queue:
  assumes "sched_ok w" "run_state (vcpus w v) = VCPU_STATE_READY"
    and "VCPU_CLAMPED_NICE_PRIORITY nice \<noteq> pr_sched_nice pr" "pr_vcpu_queue pr = [v]"
    and "effective_priority (vcpu_set_nice_np (vcpus w v) (VCPU_CLAMPED_NICE_PRIORITY nice)) \<noteq> cur_priority (vcpus w v)"
  shows "\<exists>pr' w'. Process_SetSchedParam w pr SCHED_NICE nice = (EOK, pr', w')
    \<and> v \<in> set (prioq w' ! nat (cur_priority (vcpus w v))) \<and> cur_priority (vcpus w' v) \<noteq> cur_priority (vcpus w v)
    \<and> \<not> sched_ok w' \<and> sched_set_unready w' v True = None"
proof -
  let ?n = "VCPU_CLAMPED_NICE_PRIORITY nice"
  have n: "0 \<le> ?n" "?n \<le> 64" by (simp_all add: VCPU_CLAMPED_NICE_PRIORITY_def pri_consts)
  have inv: "q_inv w {}" using assms(1) by (simp add: sched_ok_def sched_inv_def)
  have wf: "wf_vcpu (vcpus w v)" using inv by (simp add: q_inv_def all_wf_def)
  have "VCPU_CLAMPED_NICE_PRIORITY ?n = ?n" using n by (simp add: VCPU_CLAMPED_NICE_PRIORITY_def pri_consts)
  then have wfn: "wf_vcpu (vcpu_set_nice_np (vcpus w v) ?n)"
    using wf n wf_set_penalty by (simp add: vcpu_set_nice_np_def Let_def wrap8_id wf_vcpu_def)
  define f where "f = apply_sched_param w (pr\<lparr>pr_sched_nice := ?n\<rparr>) SCHED_NICE"
  let ?w = "upd_vcpu w v f"
  have call: "Process_SetSchedParam w pr SCHED_NICE nice = (EOK, pr\<lparr>pr_sched_nice := ?n\<rparr>, ?w)"
    using assms(3,4) by (simp add: Process_SetSchedParam_def f_def SCHED_NICE_def SCHED_QUANTUM_BOOST_def Let_def)
  have fv: "f (vcpus w v) = vcpu_on_sched_param_changed_np w (vcpu_set_nice_np (vcpus w v) ?n)"
    by (simp add: f_def apply_sched_param_def SCHED_NICE_def SCHED_QUANTUM_BOOST_def)
  have pri: "cur_priority (vcpus ?w v) \<noteq> cur_priority (vcpus w v)"
    using cur_priority_param_changed(1) [OF wfn, of w] assms(5) by (simp add: fv)
  have rs: "run_state (vcpus ?w v) = VCPU_STATE_READY"
    using assms(2) by (simp add: fv vcpu_set_nice_np_def Let_def)
  note old = q_inv_facts(1-4) [OF inv, of v]
  have on: "v \<in> set (prioq w ! nat (cur_priority (vcpus w v)))"
    using queues_okD(2) [OF q_inv_facts(8) [OF inv] old(1), of v] assms(2) old(2) by simp
  have new: "0 \<le> cur_priority (vcpus ?w v)" "cur_priority (vcpus ?w v) < 80"
    using wf_param_changed [OF wfn, of w] by (simp_all add: fv wf_vcpu_def)
  then have i: "nat (cur_priority (vcpus ?w v)) < 80" by (simp add: nat_less_iff)
  have off: "v \<notin> set (prioq w ! nat (cur_priority (vcpus ?w v)))"
    using queues_okD(2) [OF q_inv_facts(8) [OF inv] i, of v] pri new by simp
  have "\<not> sched_ok ?w"
  proof
    assume "sched_ok ?w"
    then have "queues_ok ?w {}" by (simp add: sched_ok_def sched_inv_def q_inv_def)
    then show False using queues_okD(2) [OF _ i, of ?w "{}" v] off rs new by simp
  qed
  moreover have "sched_set_unready ?w v True = None"
    using off new q_inv_facts(5) [OF inv] by (simp add: sched_set_unready_def iarr_get_def arr_get_def Let_def)
  ultimately show ?thesis using call on pri by simp
qed

theorem set_nice_corrupts_ready_queue_witness:
  "\<exists>pr' w'. Process_SetSchedParam demo_world \<lparr>pr_quantum_boost = 0, pr_sched_nice = 0, pr_vcpu_queue = [2]\<rparr> SCHED_NICE 5 = (EOK, pr', w')
     \<and> \<not> sched_ok w'"
proof -
  have "effective_priority (vcpu_set_nice_np (vcpus demo_world 2) (VCPU_CLAMPED_NICE_PRIORITY 5)) \<noteq> cur_priority (vcpus demo_world 2)"
    by (simp add: demo_sel demo_vcpu_def effective_priority_def vcpu_set_nice_np_def VCPU_CLAMPED_NICE_PRIORITY_def pri_consts wrap8_def Let_def)
  then show ?thesis
    using set_nice_corrupts_ready_queue [OF demo_ok, of 2 5 "\<lparr>pr_quantum_boost = 0, pr_sched_nice = 0, pr_vcpu_queue = [2]\<rparr>"]
    by (auto simp: demo_state VCPU_CLAMPED_NICE_PRIORITY_def pri_consts)
qed

text \<open>
  A wait whose deadline has passed returns \<open>ETIMEDOUT\<close> to a vcpu that still runs but is marked as waiting and is still on the wait queue.
\<close>

lemma wait_past_deadline:
  assumes "sched_ok w" "running w = Some r" "q < length (waitqs w)" "deadline \<le> tick_count w" "deadline < TICKS_MAX"
  shows "\<exists>w'. wq_wait_enter w q deadline = Some (Some ETIMEDOUT, w') \<and> running w' = Some r
    \<and> run_state (vcpus w' r) = VCPU_STATE_WAITING \<and> r \<in> set (waitqs w' ! q) \<and> \<not> sched_ok w'"
proof -
  obtain r' where r': "q_inv w {}" "proc_ok w r'" using assms(1) unfolding sched_ok_def sched_inv_def by blast
  have "r' = r" using proc_ok_running [OF r'(2)] assms(2) by simp
  then have run: "run_state (vcpus w r) = VCPU_STATE_RUNNING" using proc_okD [OF r'(2), of r] by simp
  have "q_inv w {r}" by (rule q_inv_insert [OF r'(1)]) (use run in simp_all)
  then have nq: "\<not> rewa_queued w r" using not_queued by blast
  let ?f = "\<lambda>vp. vp\<lparr>run_state := VCPU_STATE_WAITING, waiting_on := Some q, wakeup_reason := 0, did_wait := True,
      quantum_countdown := (if quantum_countdown vp > 0 then quantum_countdown vp - SCHED_QUANTUM_NUDGE else quantum_countdown vp)\<rparr>"
  let ?w = "upd_vcpu (w\<lparr>waitqs := (waitqs w)[q := waitqs w ! q @ [r]]\<rparr>) r ?f"
  have "wq_wait_enter w q deadline = Some (Some ETIMEDOUT, ?w)"
    using assms(2-5) nq by (simp add: wq_wait_enter_def arr_get_def arr_set_def Let_def)
  moreover have "\<not> sched_ok ?w"
  proof
    assume "sched_ok ?w"
    then obtain x where x: "proc_ok ?w x" unfolding sched_ok_def sched_inv_def by blast
    have "x = r" using proc_ok_running [OF x] assms(2) by simp
    then show False using proc_okD [OF x, of r] by simp
  qed
  ultimately show ?thesis using assms(2,3) by simp
qed

text \<open>Waking one waiter of an empty queue dereferences the null pointer.\<close>

lemma wakeup_one_empty: "q < length (waitqs w) \<Longrightarrow> waitqs w ! q = [] \<Longrightarrow> wq_wakeup_np w q WAKEUP_ONE b = None"
  by (simp add: wq_wakeup_np_def arr_get_def WAKEUP_ONE_def)

text \<open>A relative wait of zero ticks, and any relative wait at time zero, has no deadline at all.\<close>

lemma calc_deadline_zero:
  "0 \<le> tick_count w \<Longrightarrow> tick_count w < 4294967296 \<Longrightarrow> wq_calc_deadline w False False 0 = TICKS_MAX"
  "tick_count w = 0 \<Longrightarrow> 0 \<le> t \<Longrightarrow> t < 4294967296 \<Longrightarrow> wq_calc_deadline w False False t = TICKS_MAX"
  by (simp_all add: wq_calc_deadline_def)

text \<open>
  The table of quantum lengths is indexed with the grade, which starts at 1: every grade gets the length of the next one, and a realtime vcpu
  the byte behind the table.
\<close>

lemma quantum_off_by_one:
  assumes "1 \<le> g" "g \<le> 5"
  shows "quantum_entry g_quantum_base_length oob g = (if g = 5 then oob else g_quantum_base_length ! nat g)"
  using assms by (auto simp: quantum_entry_def g_quantum_base_length_def)

end
