(* ===== verification/FsBlocks.thy ===== *)
theory FsBlocks
  imports Prelude
begin

section \<open>Block containers and the on-disk byte order\<close>

text \<open>
  What a filesystem sees of the disk: the \<open>FSContainer\<close> interface
  (\<open>kern/src/filesystem/FSContainer.h\<close>, \<open>FSBlock.h\<close>), through which a block is mapped, read or
  changed in place and unmapped again. Behind it is the disk cache of the \<open>DiskContainer\<close>.

  Block numbers (\<open>blkno_t\<close>, 32 bits) are of type \<open>nat\<close>; where the code narrows a wider
  number to 32 bits the model writes the remainder. A \<open>FSBlock\<close> carries the token of the mapping (\<open>None\<close> is the token 0)
  and the bytes of the block as the client has changed them so far. A block that is mapped is locked: mapping it a second time would wait for ever
  and unmapping a block that is not mapped aborts, so that both are \<open>None\<close>. The container fails a mapping when
  the next entry of \<open>c_faults\<close>, a schedule of the errors that the cache and the driver report, says so.

  What a later mapping shows depends on how a block is unmapped. A deferred write marks the cached block as dirty, so that it is written before it is given
  up. A block that is unmapped without a write stays clean: the cache may give it up, and then the block is read again from the disk and shows what was
  last written to it, \<open>c_kept\<close>. \<open>c_evicts\<close> is a schedule that says for each clean block whether it is given up before its next mapping;
  the empty schedule never does.
  That a deferred write fails when the cache carries it out later, which no caller learns of, is not modelled.
\<close>

named_theorems fs_simps \<open>rewrite rules of the filesystem components\<close>

datatype MapBlock = kMapBlock_ReadOnly | kMapBlock_Update | kMapBlock_Replace | kMapBlock_Cleared

datatype WriteBlock = kWriteBlock_None | kWriteBlock_Sync | kWriteBlock_Deferred

record FSBlock =
  b_token :: "nat option"
  b_data :: "u8 list"

record fscont =
  c_blockCount :: nat
  c_blockSize :: nat
  c_readOnly :: bool
  c_data :: "nat \<Rightarrow> u8 list"
  c_stale :: "nat \<Rightarrow> u8 list"
  c_locked :: "nat set"
  c_faults :: "errno list"
  c_kept :: "nat \<Rightarrow> u8 list"
  c_evicts :: "bool list"

definition no_block :: FSBlock where
  "no_block = \<lparr>b_token = None, b_data = []\<rparr>"

definition next_fault :: "fscont \<Rightarrow> errno" where
  "next_fault c = (case c_faults c of [] \<Rightarrow> EOK | e # _ \<Rightarrow> e)"

definition next_evict :: "fscont \<Rightarrow> bool" where
  "next_evict c = (case c_evicts c of [] \<Rightarrow> False | b # _ \<Rightarrow> b)"

definition zeros :: "nat \<Rightarrow> u8 list" where
  "zeros n = replicate n 0"

text \<open>The bytes that a mapping shows: a replaced block shows whatever the buffer holds.\<close>

definition mapped_bytes :: "fscont \<Rightarrow> nat \<Rightarrow> MapBlock \<Rightarrow> u8 list" where
  "mapped_bytes c lba mode =
     (case mode of
        kMapBlock_ReadOnly \<Rightarrow> c_data c lba
      | kMapBlock_Update \<Rightarrow> c_data c lba
      | kMapBlock_Replace \<Rightarrow> c_stale c lba
      | kMapBlock_Cleared \<Rightarrow> zeros (c_blockSize c))"

definition FSContainer_MapBlock :: "fscont \<Rightarrow> nat \<Rightarrow> MapBlock \<Rightarrow> (errno \<times> FSBlock \<times> fscont) option" where
  "FSContainer_MapBlock c lba mode =
     (let e = next_fault c; c1 = c\<lparr>c_faults := tl (c_faults c)\<rparr> in
      if lba \<in> c_locked c then None
      else if e \<noteq> EOK then Some (e, no_block, c1)
      else Some (EOK, \<lparr>b_token = Some lba, b_data = mapped_bytes c lba mode\<rparr>,
                 c1\<lparr>c_locked := insert lba (c_locked c)\<rparr>))"

text \<open>The container after the block \<open>lba\<close>, which now has the bytes \<open>d\<close>, has been unmapped. Only a synchronous write can fail.\<close>

definition unmapped :: "fscont \<Rightarrow> nat \<Rightarrow> WriteBlock \<Rightarrow> u8 list \<Rightarrow> fscont" where
  "unmapped c lba mode d =
     (let c1 = c\<lparr>c_locked := c_locked c - {lba}\<rparr> in
      case mode of
        kWriteBlock_None \<Rightarrow> c1\<lparr>c_data := (c_data c)(lba := if next_evict c then c_kept c lba else d), c_evicts := tl (c_evicts c)\<rparr>
      | kWriteBlock_Sync \<Rightarrow> c1\<lparr>c_data := (c_data c)(lba := d), c_kept := (if next_fault c = EOK then (c_kept c)(lba := d) else c_kept c),
                                c_faults := tl (c_faults c)\<rparr>
      | kWriteBlock_Deferred \<Rightarrow> c1\<lparr>c_data := (c_data c)(lba := d), c_kept := (c_kept c)(lba := d)\<rparr>)"

definition FSContainer_UnmapBlock :: "fscont \<Rightarrow> FSBlock \<Rightarrow> WriteBlock \<Rightarrow> (errno \<times> fscont) option" where
  "FSContainer_UnmapBlock c blk mode =
     (case b_token blk of
        None \<Rightarrow> Some (EOK, c)
      | Some lba \<Rightarrow>
          (if lba \<in> c_locked c
           then Some (if mode = kWriteBlock_Sync then next_fault c else EOK, unmapped c lba mode (b_data blk))
           else None))"

text \<open>All blocks have the size of a block, and a cache that gives up clean blocks holds no change that is not going to be written.\<close>

definition cont_ok :: "fscont \<Rightarrow> bool" where
  "cont_ok c \<longleftrightarrow> (\<forall>l. length (c_data c l) = c_blockSize c) \<and> (\<forall>l. length (c_stale c l) = c_blockSize c)
     \<and> (c_evicts c = [] \<or> c_kept c = c_data c)"

lemma cont_okD: "cont_ok c \<Longrightarrow> length (c_data c l) = c_blockSize c"
  "cont_ok c \<Longrightarrow> length (c_stale c l) = c_blockSize c"
  by (simp_all add: cont_ok_def)

lemma length_zeros [simp]: "length (zeros n) = n"
  by (simp add: zeros_def)

lemma length_mapped: "cont_ok c \<Longrightarrow> length (mapped_bytes c lba mode) = c_blockSize c"
  by (cases mode) (simp_all add: mapped_bytes_def cont_okD)

text \<open>What mapping and unmapping leave alone; a container whose schedule is empty does not fail.\<close>

definition cont_geom :: "fscont \<Rightarrow> fscont \<Rightarrow> bool" where
  "cont_geom c c' \<longleftrightarrow> c_blockCount c' = c_blockCount c \<and> c_blockSize c' = c_blockSize c
     \<and> c_readOnly c' = c_readOnly c \<and> c_stale c' = c_stale c \<and> (c_faults c = [] \<longrightarrow> c_faults c' = [])
     \<and> (c_evicts c = [] \<longrightarrow> c_evicts c' = [])"

lemma cont_geom_refl [simp]: "cont_geom c c"
  by (simp add: cont_geom_def)

lemma cont_geom_trans [trans]: "cont_geom a b \<Longrightarrow> cont_geom b c \<Longrightarrow> cont_geom a c"
  by (simp add: cont_geom_def)

lemma cont_geomD: "cont_geom c c' \<Longrightarrow> c_blockSize c' = c_blockSize c"
  "cont_geom c c' \<Longrightarrow> c_faults c = [] \<Longrightarrow> c_faults c' = []" "cont_geom c c' \<Longrightarrow> c_evicts c = [] \<Longrightarrow> c_evicts c' = []"
  by (simp_all add: cont_geom_def)

lemma cont_ok_geom: "cont_ok c \<Longrightarrow> cont_geom c c' \<Longrightarrow> c_data c' = c_data c \<Longrightarrow> c_kept c' = c_kept c \<Longrightarrow> cont_ok c'"
  by (auto simp: cont_ok_def cont_geom_def)

lemma map_block_cases:
  assumes "lba \<notin> c_locked c"
  obtains (err) e c' where "FSContainer_MapBlock c lba mode = Some (e, no_block, c')" "e \<noteq> EOK" "c_faults c \<noteq> []"
      "c_data c' = c_data c" "c_locked c' = c_locked c" "cont_geom c c'" "c_kept c' = c_kept c"
  | (ok) c' where "FSContainer_MapBlock c lba mode = Some (EOK, \<lparr>b_token = Some lba, b_data = mapped_bytes c lba mode\<rparr>, c')"
      "c_data c' = c_data c" "c_locked c' = insert lba (c_locked c)" "cont_geom c c'" "c_kept c' = c_kept c"
proof (cases "next_fault c = EOK")
  case True
  then show ?thesis using ok assms by (simp add: FSContainer_MapBlock_def cont_geom_def Let_def)
next
  case False
  then have "c_faults c \<noteq> []" by (auto simp: next_fault_def)
  then show ?thesis using err False assms by (simp add: FSContainer_MapBlock_def cont_geom_def Let_def)
qed

lemma unmap_block_ok:
  assumes "lba \<in> c_locked c" "mode \<noteq> kWriteBlock_Sync"
  shows "FSContainer_UnmapBlock c \<lparr>b_token = Some lba, b_data = d\<rparr> mode = Some (EOK, unmapped c lba mode d)"
  using assms by (simp add: FSContainer_UnmapBlock_def)

lemma unmapped_fields [simp]:
  "c_blockCount (unmapped c lba mode d) = c_blockCount c" "c_blockSize (unmapped c lba mode d) = c_blockSize c"
  "c_readOnly (unmapped c lba mode d) = c_readOnly c" "c_stale (unmapped c lba mode d) = c_stale c"
  "c_locked (unmapped c lba mode d) = c_locked c - {lba}"
  "c_data (unmapped c lba kWriteBlock_Deferred d) = (c_data c)(lba := d)"
  by (cases mode; simp add: unmapped_def Let_def)+

lemma cont_geom_unmapped [simp]: "cont_geom c0 c \<Longrightarrow> cont_geom c0 (unmapped c lba mode d)"
  by (cases mode) (auto simp: cont_geom_def unmapped_def Let_def)

text \<open>A block whose unmapping keeps what the client sees: it is going to be written, or it has not been changed, or the cache keeps it.\<close>

definition steady :: "fscont \<Rightarrow> nat \<Rightarrow> WriteBlock \<Rightarrow> u8 list \<Rightarrow> bool" where
  "steady c lba mode d \<longleftrightarrow> mode = kWriteBlock_Deferred \<or> mode = kWriteBlock_None \<and> (c_evicts c = [] \<or> d = c_data c lba)"

lemma steady_deferred [simp]: "steady c lba kWriteBlock_Deferred d"
  by (simp add: steady_def)

lemma steady_same [simp]: "steady c lba kWriteBlock_None (c_data c lba)"
  by (simp add: steady_def)

lemma unmapped_steady:
  assumes "cont_ok c" "steady c lba mode d"
  shows "c_data (unmapped c lba mode d) = (c_data c)(lba := d)" "length d = c_blockSize c \<Longrightarrow> cont_ok (unmapped c lba mode d)"
  using assms by (auto simp: unmapped_def steady_def cont_ok_def next_evict_def Let_def split: list.splits)

lemma steady_mode: "steady c lba mode d \<Longrightarrow> mode \<noteq> kWriteBlock_Sync"
  by (auto simp: steady_def)

lemma unmap_steady:
  assumes "lba \<in> c_locked c" "steady c lba mode d"
  shows "FSContainer_UnmapBlock c \<lparr>b_token = Some lba, b_data = d\<rparr> mode = Some (EOK, unmapped c lba mode d)"
  using unmap_block_ok [OF assms(1) steady_mode [OF assms(2)]] .

text \<open>Reading a block leaves no trace.\<close>

lemma read_unmapped:
  assumes "cont_ok c" "lba \<notin> c_locked c"
  shows "unmapped (c\<lparr>c_faults := f, c_locked := insert lba (c_locked c)\<rparr>) lba kWriteBlock_None (c_data c lba)
    = c\<lparr>c_faults := f, c_evicts := tl (c_evicts c)\<rparr>"
  using assms by (auto simp: unmapped_def cont_ok_def next_evict_def Let_def split: list.splits)

lemma unmap_no_block [simp]: "FSContainer_UnmapBlock c no_block mode = Some (EOK, c)"
  by (simp add: FSContainer_UnmapBlock_def no_block_def)

subsection \<open>Bytes in a block\<close>

text \<open>\<open>memcpy\<close> from and to an offset of a block; running over its end is a fault.\<close>

definition get_bytes :: "u8 list \<Rightarrow> nat \<Rightarrow> nat \<Rightarrow> u8 list option" where
  "get_bytes xs off n = (if off + n \<le> length xs then Some (take n (drop off xs)) else None)"

definition put_bytes :: "u8 list \<Rightarrow> nat \<Rightarrow> u8 list \<Rightarrow> u8 list option" where
  "put_bytes xs off bs =
     (if off + length bs \<le> length xs then Some (take off xs @ bs @ drop (off + length bs) xs) else None)"

lemma get_bytes_in [fs_simps]: "off + n \<le> length xs \<Longrightarrow> get_bytes xs off n = Some (take n (drop off xs))"
  by (simp add: get_bytes_def)

lemma put_bytes_in [fs_simps]:
  "off + length bs \<le> length xs \<Longrightarrow> put_bytes xs off bs = Some (take off xs @ bs @ drop (off + length bs) xs)"
  by (simp add: put_bytes_def)

lemma put_bytes_Some_iff:
  "put_bytes xs off bs = Some ys \<longleftrightarrow>
     off + length bs \<le> length xs \<and> ys = take off xs @ bs @ drop (off + length bs) xs"
  by (auto simp: put_bytes_def)

lemma length_put: "put_bytes xs off bs = Some ys \<Longrightarrow> length ys = length xs"
  by (auto simp: put_bytes_Some_iff)

lemma get_put_same: "put_bytes xs off bs = Some ys \<Longrightarrow> get_bytes ys off (length bs) = Some bs"
  by (auto simp: put_bytes_Some_iff get_bytes_def)

lemma nth_put:
  assumes "put_bytes xs off bs = Some ys" "i < length xs"
  shows "ys ! i = (if off \<le> i \<and> i < off + length bs then bs ! (i - off) else xs ! i)"
proof -
  have *: "off + length bs \<le> length xs" "ys = take off xs @ bs @ drop (off + length bs) xs"
    using assms(1) by (auto simp: put_bytes_Some_iff)
  then show ?thesis using assms(2) by (auto simp: nth_append)
qed

lemma get_put_other:
  assumes p: "put_bytes xs off bs = Some ys" and d: "k + n \<le> off \<or> off + length bs \<le> k"
  shows "get_bytes ys k n = get_bytes xs k n"
proof -
  have l: "length ys = length xs" using length_put [OF p] .
  have "take n (drop k ys) = take n (drop k xs)" if "k + n \<le> length xs"
  proof (rule nth_equalityI)
    fix i assume "i < length (take n (drop k ys))"
    then have i: "i < n" "k + i < length xs" using that l by auto
    then have "ys ! (k + i) = xs ! (k + i)" using nth_put [OF p i(2)] d by auto
    then show "take n (drop k ys) ! i = take n (drop k xs) ! i" using i that l by simp
  qed (use that l in simp)
  then show ?thesis by (simp add: get_bytes_def l)
qed

subsection \<open>Big endian integers\<close>

definition be16_put :: "nat \<Rightarrow> u8 list" where
  "be16_put n = [of_nat (n div 256), of_nat n]"

definition be32_put :: "nat \<Rightarrow> u8 list" where
  "be32_put n = [of_nat (n div 16777216), of_nat (n div 65536), of_nat (n div 256), of_nat n]"

definition be64_put :: "nat \<Rightarrow> u8 list" where
  "be64_put n = be32_put (n div 4294967296) @ be32_put n"

fun be_val :: "u8 list \<Rightarrow> nat" where
  "be_val [] = 0"
| "be_val (b # bs) = unat b * 256 ^ length bs + be_val bs"

definition be_at :: "u8 list \<Rightarrow> nat \<Rightarrow> nat \<Rightarrow> nat option" where
  "be_at xs off n = map_option be_val (get_bytes xs off n)"

lemma unat_of_nat_u8: "unat (of_nat n :: u8) = n mod 256"
  by (simp add: unat_of_nat)

lemma be_val_less: "be_val bs < 256 ^ length bs"
proof (induction bs)
  case (Cons b bs)
  have "unat b < 256" using unsigned_less [of b] by simp
  then have "unat b * 256 ^ length bs + be_val bs < (unat b + 1) * 256 ^ length bs"
    using Cons by simp
  also have "\<dots> \<le> 256 * 256 ^ length bs"
    using \<open>unat b < 256\<close> by (intro mult_right_mono) simp_all
  finally show ?case by simp
qed simp

lemma be_val_append: "be_val (xs @ ys) = be_val xs * 256 ^ length ys + be_val ys"
  by (induction xs) (simp_all add: power_add algebra_simps)

lemma length_be_put [simp]: "length (be16_put n) = 2" "length (be32_put n) = 4" "length (be64_put n) = 8"
  by (simp_all add: be16_put_def be32_put_def be64_put_def)

lemma mod_split: "(n :: nat) mod (256 * k) = 256 * ((n div 256) mod k) + n mod 256"
  by (simp only: mod_mult2_eq)

lemma div_256: "(n :: nat) div 65536 = n div 256 div 256" "n div 16777216 = n div 256 div 256 div 256"
  by (simp_all add: div_mult2_eq [symmetric])

lemma be16_roundtrip: "be_val (be16_put n) = n mod 65536"
  using mod_split [of n 256] by (simp add: be16_put_def unat_of_nat_u8)

lemma be32_roundtrip: "be_val (be32_put n) = n mod 4294967296"
proof -
  have "be_val (be32_put n) =
      256 * (256 * (256 * (n div 256 div 256 div 256 mod 256) + n div 256 div 256 mod 256) + n div 256 mod 256) + n mod 256"
    by (simp add: be32_put_def unat_of_nat_u8 div_256)
  then show ?thesis
    using mod_split [of n 16777216] mod_split [of "n div 256" 65536] mod_split [of "n div 256 div 256" 256]
    by simp
qed

lemma be64_roundtrip: "be_val (be64_put n) = n mod 18446744073709551616"
proof -
  have "be_val (be64_put n) = 4294967296 * ((n div 4294967296) mod 4294967296) + n mod 4294967296"
    by (simp add: be64_put_def be_val_append be32_roundtrip)
  also have "\<dots> = n mod (4294967296 * 4294967296)"
    by (simp only: mod_mult2_eq)
  finally show ?thesis by simp
qed

lemma be_at_put_same:
  "put_bytes xs off bs = Some ys \<Longrightarrow> be_at ys off (length bs) = Some (be_val bs)"
  by (simp add: be_at_def get_put_same)

lemma be_at_put_other:
  "put_bytes xs off bs = Some ys \<Longrightarrow> k + n \<le> off \<or> off + length bs \<le> k \<Longrightarrow> be_at ys k n = be_at xs k n"
  by (simp add: be_at_def get_put_other)

lemma be_at_in: "off + n \<le> length xs \<Longrightarrow> be_at xs off n = Some (be_val (take n (drop off xs)))"
  by (simp add: be_at_def get_bytes_in)

lemma be_val_zeros: "be_val (zeros n) = 0"
  by (induction n) (simp_all add: zeros_def)

lemma be_at_zeros: "off + n \<le> k \<Longrightarrow> be_at (zeros k) off n = Some 0"
proof -
  assume "off + n \<le> k"
  then have "take n (drop off (zeros k)) = zeros n" by (simp add: zeros_def)
  then show ?thesis using \<open>off + n \<le> k\<close> by (simp add: be_at_in be_val_zeros)
qed

end
