(* ===== verification/SfsAlloc.thy ===== *)
theory SfsAlloc
  imports FsBlocks
begin

section \<open>The block allocator of SerenaFS\<close>

text \<open>
  \<open>kern/src/filesystem/serenafs/SfsAllocator.c\<close> and the volume header of
  \<open>kern/h/kpi/sefs_format.h\<close>: the allocation bitmap that is cached in RAM, the bitmap of its dirty
  blocks, allocation, deallocation and writing the bitmap back. Every operation runs with the
  allocator's mutex held, so that the model has it as one step. \<open>kalloc\<close>
  is a parameter of the operations that reserve memory: the error that a request of a size gets.
\<close>

record SfsAllocator =
  a_bitmap :: "u8 list"
  a_bitmapByteSize :: nat
  a_bitmapLba :: nat
  a_bitmapBlockCount :: nat
  a_dirty :: "u8 list"
  a_blockSize :: nat
  a_volumeBlockCount :: nat

record sfs_vol_header =
  v_signature :: nat
  v_version :: nat
  v_attributes :: nat
  v_volBlockSize :: nat
  v_volBlockCount :: nat
  v_allocBitmapByteSize :: nat
  v_lbaRootDir :: nat
  v_lbaAllocBitmap :: nat
  v_labelLength :: nat
  v_label :: "u8 list"

abbreviation kSFSVolume_MinBlockCount :: nat where "kSFSVolume_MinBlockCount \<equiv> 4"

definition SfsAllocator_Init :: SfsAllocator where
  "SfsAllocator_Init = \<lparr>a_bitmap = [], a_bitmapByteSize = 0, a_bitmapLba = 0, a_bitmapBlockCount = 0,
     a_dirty = [], a_blockSize = 0, a_volumeBlockCount = 0\<rparr>"

subsection \<open>Bitmaps\<close>

definition AllocationBitmap_IsBlockInUse :: "u8 list \<Rightarrow> nat \<Rightarrow> bool option" where
  "AllocationBitmap_IsBlockInUse bitmap lba =
     do { b \<leftarrow> arr_get bitmap (lba div 8);
          Some (b AND push_bit (7 - lba mod 8) 1 \<noteq> 0) }"

definition AllocationBitmap_SetBlockInUse :: "u8 list \<Rightarrow> nat \<Rightarrow> bool \<Rightarrow> u8 list option" where
  "AllocationBitmap_SetBlockInUse bitmap lba inUse =
     do { b \<leftarrow> arr_get bitmap (lba div 8);
          let bitNo = 7 - lba mod 8;
          arr_set bitmap (lba div 8)
            (if inUse then b OR push_bit bitNo 1 else b AND NOT (push_bit bitNo 1)) }"

subsection \<open>Operations\<close>

fun start_loop :: "fscont \<Rightarrow> nat \<Rightarrow> nat \<Rightarrow> nat \<Rightarrow> nat \<Rightarrow> nat \<Rightarrow> u8 list \<Rightarrow> (errno \<times> u8 list \<times> fscont) option" where
  "start_loop c bitmapLba blockSize lba 0 left acc = Some (EOK, acc, c)"
| "start_loop c bitmapLba blockSize lba (Suc n) left acc =
     do { let nBytesToCopy = min blockSize left;
          (e, blk, c1) \<leftarrow> FSContainer_MapBlock c (bitmapLba + lba) kMapBlock_ReadOnly;
          if e \<noteq> EOK then Some (e, acc, c1)
          else do {
            bs \<leftarrow> get_bytes (b_data blk) 0 nBytesToCopy;
            (_, c2) \<leftarrow> FSContainer_UnmapBlock c1 blk kWriteBlock_None;
            start_loop c2 bitmapLba blockSize (Suc lba) n (left - nBytesToCopy) (acc @ bs) } }"

definition SfsAllocator_Start ::
  "(nat \<Rightarrow> errno) \<Rightarrow> SfsAllocator \<Rightarrow> fscont \<Rightarrow> sfs_vol_header \<Rightarrow> nat \<Rightarrow> (errno \<times> SfsAllocator \<times> fscont) option" where
  "SfsAllocator_Start kalloc self c vhp blockSize =
     (let size = v_allocBitmapByteSize vhp; count = v_volBlockCount vhp in
      if size < 1 \<or> count < kSFSVolume_MinBlockCount then Some (EIO, self, c)
      else if blockSize = 0 then None
      else
        let blocks = (size + (blockSize - 1)) div blockSize;
            self1 = self\<lparr>a_bitmapLba := v_lbaAllocBitmap vhp, a_bitmapBlockCount := blocks,
                         a_bitmapByteSize := size, a_blockSize := blockSize, a_volumeBlockCount := count\<rparr>;
            dirtySize = (blocks + 7) div 8 in
        if kalloc dirtySize \<noteq> EOK then Some (kalloc dirtySize, self1, c)
        else
          let self2 = self1\<lparr>a_dirty := zeros dirtySize\<rparr> in
          if kalloc size \<noteq> EOK then Some (kalloc size, self2, c)
          else do {
            (e, bm, c1) \<leftarrow> start_loop c (a_bitmapLba self2) blockSize 0 blocks size [];
            Some (e, self2\<lparr>a_bitmap := bm\<rparr>, c1) })"

definition SfsAllocator_Stop :: "SfsAllocator \<Rightarrow> SfsAllocator" where
  "SfsAllocator_Stop self =
     self\<lparr>a_dirty := [], a_bitmap := [], a_bitmapBlockCount := 0, a_bitmapByteSize := 0,
          a_bitmapLba := 0, a_volumeBlockCount := 0\<rparr>"

fun alloc_scan :: "u8 list \<Rightarrow> nat \<Rightarrow> nat \<Rightarrow> nat option" where
  "alloc_scan bitmap i 0 = Some 0"
| "alloc_scan bitmap i (Suc n) =
     do { used \<leftarrow> AllocationBitmap_IsBlockInUse bitmap i;
          if \<not> used then Some i else alloc_scan bitmap (Suc i) n }"

text \<open>The division by the block size faults when it is 0.\<close>

definition mark_dirty :: "SfsAllocator \<Rightarrow> nat \<Rightarrow> u8 list option" where
  "mark_dirty self lba =
     (if a_blockSize self = 0 then None
      else AllocationBitmap_SetBlockInUse (a_dirty self) (lba div 8 div a_blockSize self) True)"

definition SfsAllocator_Allocate :: "SfsAllocator \<Rightarrow> (errno \<times> nat \<times> SfsAllocator) option" where
  "SfsAllocator_Allocate self =
     do { lba \<leftarrow> alloc_scan (a_bitmap self) 1 (a_volumeBlockCount self - 1);
          if lba = 0 then Some (ENOSPC, 0, self)
          else do {
            bm \<leftarrow> AllocationBitmap_SetBlockInUse (a_bitmap self) lba True;
            dm \<leftarrow> mark_dirty self lba;
            Some (EOK, lba, self\<lparr>a_bitmap := bm, a_dirty := dm\<rparr>) } }"

definition SfsAllocator_Deallocate :: "SfsAllocator \<Rightarrow> nat \<Rightarrow> SfsAllocator option" where
  "SfsAllocator_Deallocate self lba =
     (if lba = 0 then Some self
      else do {
        bm \<leftarrow> AllocationBitmap_SetBlockInUse (a_bitmap self) lba False;
        dm \<leftarrow> mark_dirty self lba;
        Some (self\<lparr>a_bitmap := bm, a_dirty := dm\<rparr>) })"

fun count_loop :: "u8 list \<Rightarrow> nat \<Rightarrow> nat \<Rightarrow> nat \<Rightarrow> nat option" where
  "count_loop bitmap i 0 cnt = Some cnt"
| "count_loop bitmap i (Suc n) cnt =
     do { used \<leftarrow> AllocationBitmap_IsBlockInUse bitmap i;
          count_loop bitmap (Suc i) n (if used then Suc cnt else cnt) }"

definition SfsAllocator_GetAllocatedBlockCount :: "SfsAllocator \<Rightarrow> nat option" where
  "SfsAllocator_GetAllocatedBlockCount self = count_loop (a_bitmap self) 0 (a_volumeBlockCount self) 0"

text \<open>The loop over the blocks of the bitmap copies the whole bitmap, starting at the dirty block.\<close>

fun commit_loop :: "SfsAllocator \<Rightarrow> fscont \<Rightarrow> nat \<Rightarrow> nat \<Rightarrow> (errno \<times> SfsAllocator \<times> fscont) option" where
  "commit_loop self c i 0 = Some (EOK, self, c)"
| "commit_loop self c i (Suc n) =
     do { isDirty \<leftarrow> AllocationBitmap_IsBlockInUse (a_dirty self) i;
          if isDirty then do {
            (e, blk, c1) \<leftarrow> FSContainer_MapBlock c (a_bitmapLba self + i) kMapBlock_Cleared;
            if e \<noteq> EOK then Some (e, self, c1)
            else do {
              bs \<leftarrow> get_bytes (a_bitmap self) (i * a_blockSize self) (a_bitmapByteSize self);
              d \<leftarrow> put_bytes (b_data blk) 0 bs;
              (_, c2) \<leftarrow> FSContainer_UnmapBlock c1 (blk\<lparr>b_data := d\<rparr>) kWriteBlock_Deferred;
              dm \<leftarrow> AllocationBitmap_SetBlockInUse (a_dirty self) i False;
              commit_loop (self\<lparr>a_dirty := dm\<rparr>) c2 (Suc i) n } }
          else commit_loop self c (Suc i) n }"

definition SfsAllocator_CommitToDisk :: "SfsAllocator \<Rightarrow> fscont \<Rightarrow> (errno \<times> SfsAllocator \<times> fscont) option" where
  "SfsAllocator_CommitToDisk self c = commit_loop self c 0 (a_bitmapBlockCount self)"

subsection \<open>Bits of a bitmap\<close>

definition bm_bit :: "u8 list \<Rightarrow> nat \<Rightarrow> bool" where
  "bm_bit bm k = bit (bm ! (k div 8)) (7 - k mod 8)"

lemma bm_index: "k < 8 * length bm \<Longrightarrow> k div 8 < length bm"
  by (simp add: less_mult_imp_div_less mult.commute)

lemma in_use_eq [fs_simps]: "k < 8 * length bm \<Longrightarrow> AllocationBitmap_IsBlockInUse bm k = Some (bm_bit bm k)"
  by (simp add: AllocationBitmap_IsBlockInUse_def bm_index bm_bit_def push_bit_of_1 and_exp_eq_0_iff_not_bit)

definition bm_upd :: "u8 list \<Rightarrow> nat \<Rightarrow> bool \<Rightarrow> u8 list" where
  "bm_upd bm k v = bm[k div 8 := (let b = bm ! (k div 8); n = 7 - k mod 8 in
     if v then b OR push_bit n 1 else b AND NOT (push_bit n 1))]"

lemma set_in_use_eq [fs_simps]:
  "k < 8 * length bm \<Longrightarrow> AllocationBitmap_SetBlockInUse bm k v = Some (bm_upd bm k v)"
  by (simp add: AllocationBitmap_SetBlockInUse_def bm_index bm_upd_def Let_def)

lemma length_bm_upd [simp]: "length (bm_upd bm k v) = length bm"
  by (simp add: bm_upd_def)

lemma bit_upd:
  assumes "n < 8" "m < 8"
  shows "bit (if v then (b :: u8) OR push_bit n 1 else b AND NOT (push_bit n 1)) m = (if m = n then v else bit b m)"
  using assms by (auto simp: bit_simps)

lemma bm_bit_upd:
  assumes "k < 8 * length bm" "j < 8 * length bm"
  shows "bm_bit (bm_upd bm k v) j = (if j = k then v else bm_bit bm j)"
proof (cases "j div 8 = k div 8")
  case True
  have "bm_bit (bm_upd bm k v) j = (if 7 - j mod 8 = 7 - k mod 8 then v else bit (bm ! (k div 8)) (7 - j mod 8))"
    using True bm_index [OF assms(1)] bit_upd [of "7 - k mod 8" "7 - j mod 8" v "bm ! (k div 8)"]
    by (simp add: bm_bit_def bm_upd_def Let_def)
  moreover have "7 - j mod 8 = 7 - k mod 8 \<longleftrightarrow> j = k"
  proof -
    have "j mod 8 < 8" "k mod 8 < 8" by simp_all
    then have "7 - j mod 8 = 7 - k mod 8 \<longleftrightarrow> j mod 8 = k mod 8" by linarith
    also have "\<dots> \<longleftrightarrow> j = k" using True div_mult_mod_eq [of j 8] div_mult_mod_eq [of k 8] by metis
    finally show ?thesis .
  qed
  ultimately show ?thesis using True by (simp add: bm_bit_def)
qed (auto simp: bm_bit_def bm_upd_def)

subsection \<open>The allocator as a set of blocks\<close>

definition used :: "SfsAllocator \<Rightarrow> nat set" where
  "used a = {k. k < a_volumeBlockCount a \<and> bm_bit (a_bitmap a) k}"

definition alloc_ok :: "SfsAllocator \<Rightarrow> bool" where
  "alloc_ok a \<longleftrightarrow>
     0 < a_blockSize a \<and> 0 < a_volumeBlockCount a \<and> a_volumeBlockCount a < 4294967296
   \<and> length (a_bitmap a) = a_bitmapByteSize a \<and> a_volumeBlockCount a \<le> 8 * a_bitmapByteSize a
   \<and> a_bitmapBlockCount a = (a_bitmapByteSize a + (a_blockSize a - 1)) div a_blockSize a
   \<and> length (a_dirty a) = (a_bitmapBlockCount a + 7) div 8"

text \<open>What no operation changes once the allocator has been started.\<close>

definition same_geom :: "SfsAllocator \<Rightarrow> SfsAllocator \<Rightarrow> bool" where
  "same_geom a b \<longleftrightarrow> a_bitmapByteSize b = a_bitmapByteSize a \<and> a_bitmapLba b = a_bitmapLba a
     \<and> a_bitmapBlockCount b = a_bitmapBlockCount a \<and> a_blockSize b = a_blockSize a
     \<and> a_volumeBlockCount b = a_volumeBlockCount a"

lemma same_geom_refl [simp]: "same_geom a a"
  by (simp add: same_geom_def)

lemma same_geom_trans [trans]: "same_geom a b \<Longrightarrow> same_geom b c \<Longrightarrow> same_geom a c"
  by (simp add: same_geom_def)

lemma used_bounds: "alloc_ok a \<Longrightarrow> k < a_volumeBlockCount a \<Longrightarrow> k < 8 * length (a_bitmap a)"
  by (simp add: alloc_ok_def)

lemma dirty_bounds:
  assumes "alloc_ok a" "k < 8 * length (a_bitmap a)"
  shows "k div 8 div a_blockSize a < a_bitmapBlockCount a" "k div 8 div a_blockSize a < 8 * length (a_dirty a)"
proof -
  define bs where "bs = a_blockSize a"
  have bs: "0 < bs" using assms(1) by (simp add: alloc_ok_def bs_def)
  have "k div 8 < length (a_bitmap a)" using bm_index assms(2) .
  then have "k div 8 + 1 \<le> a_bitmapByteSize a" using assms(1) by (simp add: alloc_ok_def)
  then have "(k div 8 + bs) div bs \<le> (a_bitmapByteSize a + (bs - 1)) div bs"
    using bs by (intro div_le_mono) simp
  moreover have "(k div 8 + bs) div bs = Suc (k div 8 div bs)" using bs by (simp add: div_add_self2)
  ultimately show *: "k div 8 div a_blockSize a < a_bitmapBlockCount a"
    using assms(1) by (simp add: alloc_ok_def bs_def)
  have "length (a_dirty a) = (a_bitmapBlockCount a + 7) div 8" using assms(1) by (simp add: alloc_ok_def)
  then show "k div 8 div a_blockSize a < 8 * length (a_dirty a)" using * by linarith
qed

lemma mark_dirty_ok:
  assumes "alloc_ok a" "k < 8 * length (a_bitmap a)"
  obtains dm where "mark_dirty a k = Some dm" "dm = bm_upd (a_dirty a) (k div 8 div a_blockSize a) True"
    "length dm = length (a_dirty a)"
  using that dirty_bounds [OF assms] assms(1) by (simp add: mark_dirty_def set_in_use_eq alloc_ok_def)

lemma alloc_scan_spec:
  "i + n \<le> 8 * length bm \<Longrightarrow> 0 < i \<Longrightarrow>
   \<exists>r. alloc_scan bm i n = Some r \<and>
     (if r = 0 then \<forall>k. i \<le> k \<longrightarrow> k < i + n \<longrightarrow> bm_bit bm k
      else i \<le> r \<and> r < i + n \<and> \<not> bm_bit bm r \<and> (\<forall>k. i \<le> k \<longrightarrow> k < r \<longrightarrow> bm_bit bm k))"
proof (induction n arbitrary: i)
  case (Suc n)
  show ?case
  proof (cases "bm_bit bm i")
    case True
    obtain r where r: "alloc_scan bm (Suc i) n = Some r"
      "if r = 0 then \<forall>k. Suc i \<le> k \<longrightarrow> k < Suc i + n \<longrightarrow> bm_bit bm k
       else Suc i \<le> r \<and> r < Suc i + n \<and> \<not> bm_bit bm r \<and> (\<forall>k. Suc i \<le> k \<longrightarrow> k < r \<longrightarrow> bm_bit bm k)"
      using Suc.IH [of "Suc i"] Suc.prems by auto
    have "bm_bit bm k" if "i \<le> k" "\<And>j. Suc i \<le> j \<Longrightarrow> j = k \<Longrightarrow> bm_bit bm j" for k
      using that True by (cases "k = i") auto
    then show ?thesis using r True Suc.prems
      by (auto simp: in_use_eq split: if_splits)
  qed (use Suc.prems in \<open>auto simp: in_use_eq\<close>)
qed simp

lemma alloc_ok_upd:
  "alloc_ok a \<Longrightarrow> length bm = length (a_bitmap a) \<Longrightarrow> length dm = length (a_dirty a) \<Longrightarrow>
   alloc_ok (a\<lparr>a_bitmap := bm, a_dirty := dm\<rparr>)"
  by (simp add: alloc_ok_def)

lemma used_upd:
  assumes "alloc_ok a" "k < a_volumeBlockCount a"
  shows "used (a\<lparr>a_bitmap := bm_upd (a_bitmap a) k v, a_dirty := dm\<rparr>) = (if v then insert k (used a) else used a - {k})"
  using used_bounds [OF assms(1)] assms(2) by (auto simp: used_def bm_bit_upd split: if_splits)

lemma used_less: "k \<in> used a \<Longrightarrow> k < a_volumeBlockCount a"
  by (simp add: used_def)

lemma allocate_spec:
  assumes ok: "alloc_ok a"
  obtains (full) "SfsAllocator_Allocate a = Some (ENOSPC, 0, a)" "{1..<a_volumeBlockCount a} \<subseteq> used a"
  | (found) lba a' where "SfsAllocator_Allocate a = Some (EOK, lba, a')" "0 < lba" "lba < a_volumeBlockCount a"
      "lba \<notin> used a" "{1..<lba} \<subseteq> used a" "used a' = insert lba (used a)" "alloc_ok a'" "same_geom a a'"
proof -
  define N where "N = a_volumeBlockCount a"
  have N: "0 < N" "N \<le> 8 * length (a_bitmap a)" using ok by (simp_all add: alloc_ok_def N_def)
  obtain r where r: "alloc_scan (a_bitmap a) 1 (N - 1) = Some r"
    "if r = 0 then \<forall>k. 1 \<le> k \<longrightarrow> k < 1 + (N - 1) \<longrightarrow> bm_bit (a_bitmap a) k
     else 1 \<le> r \<and> r < 1 + (N - 1) \<and> \<not> bm_bit (a_bitmap a) r \<and> (\<forall>k. 1 \<le> k \<longrightarrow> k < r \<longrightarrow> bm_bit (a_bitmap a) k)"
    using alloc_scan_spec [of 1 "N - 1" "a_bitmap a"] N by auto
  show ?thesis
  proof (cases "r = 0")
    case True
    then have "\<forall>k. 1 \<le> k \<longrightarrow> k < N \<longrightarrow> bm_bit (a_bitmap a) k" using r(2) N by simp
    then have "{1..<a_volumeBlockCount a} \<subseteq> used a" by (auto simp: used_def N_def)
    then show ?thesis using full r(1) True by (simp add: SfsAllocator_Allocate_def N_def)
  next
    case False
    then have r0: "1 \<le> r" "r < N" "\<not> bm_bit (a_bitmap a) r" "\<forall>k. 1 \<le> k \<longrightarrow> k < r \<longrightarrow> bm_bit (a_bitmap a) k"
      using r(2) N by auto
    then have rb: "r < 8 * length (a_bitmap a)" using N by simp
    obtain dm where dm: "mark_dirty a r = Some dm" "length dm = length (a_dirty a)"
      using mark_dirty_ok [OF ok rb] by metis
    let ?a = "a\<lparr>a_bitmap := bm_upd (a_bitmap a) r True, a_dirty := dm\<rparr>"
    show ?thesis
    proof (rule found)
      show "SfsAllocator_Allocate a = Some (EOK, r, ?a)"
        using r(1) False rb dm(1) by (simp add: SfsAllocator_Allocate_def N_def set_in_use_eq)
      show "0 < r" "r < a_volumeBlockCount a" "r \<notin> used a" using r0 by (simp_all add: N_def used_def)
      show "{1..<r} \<subseteq> used a" using r0 by (auto simp: used_def N_def)
      show "used ?a = insert r (used a)" using used_upd [OF ok, of r dm True] r0 by (simp add: N_def)
      show "alloc_ok ?a" using alloc_ok_upd [OF ok] dm(2) by simp
      show "same_geom a ?a" by (simp add: same_geom_def)
    qed
  qed
qed

lemma deallocate_spec:
  assumes ok: "alloc_ok a" and k: "lba < a_volumeBlockCount a"
  obtains a' where "SfsAllocator_Deallocate a lba = Some a'" "alloc_ok a'" "same_geom a a'"
    "used a' = (if lba = 0 then used a else used a - {lba})"
proof (cases "lba = 0")
  case True
  then show ?thesis using that ok by (simp add: SfsAllocator_Deallocate_def)
next
  case False
  have kb: "lba < 8 * length (a_bitmap a)" using used_bounds ok k .
  obtain dm where dm: "mark_dirty a lba = Some dm" "length dm = length (a_dirty a)"
    using mark_dirty_ok [OF ok kb] by metis
  let ?a = "a\<lparr>a_bitmap := bm_upd (a_bitmap a) lba False, a_dirty := dm\<rparr>"
  show ?thesis
  proof (rule that)
    show "SfsAllocator_Deallocate a lba = Some ?a"
      using False kb dm(1) by (simp add: SfsAllocator_Deallocate_def set_in_use_eq)
    show "alloc_ok ?a" using alloc_ok_upd [OF ok] dm(2) by simp
    show "same_geom a ?a" by (simp add: same_geom_def)
    show "used ?a = (if lba = 0 then used a else used a - {lba})"
      using used_upd [OF ok k, of dm False] False by simp
  qed
qed

lemma count_loop_spec:
  "i + n \<le> 8 * length bm \<Longrightarrow> count_loop bm i n cnt = Some (cnt + card {k. i \<le> k \<and> k < i + n \<and> bm_bit bm k})"
proof (induction n arbitrary: i cnt)
  case (Suc n)
  let ?S = "{k. Suc i \<le> k \<and> k < Suc i + n \<and> bm_bit bm k}"
  have "{k. i \<le> k \<and> k < i + Suc n \<and> bm_bit bm k} = (if bm_bit bm i then insert i ?S else ?S)"
    by (auto simp: Suc_le_eq le_less)
  moreover have "finite ?S" by simp
  ultimately have "card {k. i \<le> k \<and> k < i + Suc n \<and> bm_bit bm k} = (if bm_bit bm i then Suc (card ?S) else card ?S)"
    by simp
  then show ?case using Suc by (simp add: in_use_eq)
qed simp

lemma block_count_spec:
  assumes "alloc_ok a"
  shows "SfsAllocator_GetAllocatedBlockCount a = Some (card (used a))"
proof -
  have "a_volumeBlockCount a \<le> 8 * length (a_bitmap a)" using assms by (simp add: alloc_ok_def)
  then show ?thesis
    using count_loop_spec [of 0 "a_volumeBlockCount a" "a_bitmap a" 0]
    by (simp add: SfsAllocator_GetAllocatedBlockCount_def used_def)
qed

text \<open>
  The contract of the allocator: over a volume of a fixed number of blocks it is a set of blocks in use. An
  allocation takes the smallest free block after the volume header.
\<close>

datatype alloc_op = OpAllocate | OpDeallocate nat | OpCount

datatype alloc_res = Allocated errno nat | Deallocated | Counted nat

fun alloc_step :: "alloc_op \<Rightarrow> SfsAllocator \<Rightarrow> (alloc_res \<times> SfsAllocator) option" where
  "alloc_step OpAllocate a = map_option (\<lambda>(e, lba, a'). (Allocated e lba, a')) (SfsAllocator_Allocate a)"
| "alloc_step (OpDeallocate lba) a = map_option (\<lambda>a'. (Deallocated, a')) (SfsAllocator_Deallocate a lba)"
| "alloc_step OpCount a = map_option (\<lambda>n. (Counted n, a)) (SfsAllocator_GetAllocatedBlockCount a)"

fun alloc_spec :: "alloc_op \<Rightarrow> nat \<times> nat set \<Rightarrow> alloc_res \<times> nat \<times> nat set" where
  "alloc_spec OpAllocate (n, S) =
     (if {1..<n} \<subseteq> S then (Allocated ENOSPC 0, n, S)
      else let k = Min ({1..<n} - S) in (Allocated EOK k, n, insert k S))"
| "alloc_spec (OpDeallocate lba) (n, S) = (Deallocated, n, if lba = 0 then S else S - {lba})"
| "alloc_spec OpCount (n, S) = (Counted (card S), n, S)"

fun alloc_pre :: "alloc_op \<Rightarrow> nat \<times> nat set \<Rightarrow> bool" where
  "alloc_pre (OpDeallocate lba) (n, S) \<longleftrightarrow> lba < n"
| "alloc_pre x s \<longleftrightarrow> True"

definition alloc_rep :: "SfsAllocator \<Rightarrow> nat \<times> nat set \<Rightarrow> bool" where
  "alloc_rep a s \<longleftrightarrow> alloc_ok a \<and> s = (a_volumeBlockCount a, used a)"

lemma Min_free:
  assumes "0 < (k :: nat)" "k < n" "k \<notin> S" "{1..<k} \<subseteq> S"
  shows "Min ({1..<n} - S) = k"
proof (rule Min_eqI)
  show "k \<le> y" if "y \<in> {1..<n} - S" for y
    using that assms(4) by (cases "y < k") auto
qed (use assms in auto)

lemma alloc_simulates:
  assumes rep: "alloc_rep a s" and pre: "alloc_pre x s"
  shows "\<exists>a'. alloc_step x a = Some (fst (alloc_spec x s), a') \<and> alloc_rep a' (snd (alloc_spec x s))"
proof -
  have ok: "alloc_ok a" and s: "s = (a_volumeBlockCount a, used a)" using rep by (simp_all add: alloc_rep_def)
  show ?thesis
  proof (cases x)
    case OpAllocate
    show ?thesis
      using ok
    proof (cases rule: allocate_spec)
      case full
      then show ?thesis using OpAllocate s ok by (simp add: alloc_rep_def)
    next
      case (found lba a')
      have "lba \<in> {1..<a_volumeBlockCount a}" using found(2,3) by simp
      then have "\<not> {1..<a_volumeBlockCount a} \<subseteq> used a" using found(4) by blast
      then show ?thesis using OpAllocate s found Min_free [OF found(2-5)]
        by (simp add: alloc_rep_def same_geom_def Let_def)
    qed
  next
    case (OpDeallocate lba)
    then have "lba < a_volumeBlockCount a" using pre s by simp
    from deallocate_spec [OF ok this] obtain a' where
      "SfsAllocator_Deallocate a lba = Some a'" "alloc_ok a'" "same_geom a a'"
      "used a' = (if lba = 0 then used a else used a - {lba})" by metis
    then show ?thesis using OpDeallocate s by (simp add: alloc_rep_def same_geom_def)
  next
    case OpCount
    then show ?thesis using s ok by (simp add: block_count_spec alloc_rep_def)
  qed
qed

interpretation allocset: data_refinement alloc_rep alloc_step alloc_pre alloc_spec
  by unfold_locales (rule alloc_simulates)

subsection \<open>Writing the bitmap back and reading it\<close>

definition one_bitmap_block :: "SfsAllocator \<Rightarrow> bool" where
  "one_bitmap_block a \<longleftrightarrow> 0 < a_bitmapByteSize a \<and> a_bitmapByteSize a \<le> a_blockSize a"

definition bitmap_image :: "SfsAllocator \<Rightarrow> u8 list" where
  "bitmap_image a = a_bitmap a @ zeros (a_blockSize a - a_bitmapByteSize a)"

lemma ceil_one:
  assumes "0 < s" "s \<le> (x :: nat)"
  shows "(s + (x - 1)) div x = 1"
proof -
  obtain t where t: "s = Suc t" using assms(1) gr0_implies_Suc by blast
  then have "s + (x - 1) = t + x" using assms(2) by simp
  moreover have "(t + x) div x = t div x + 1" using assms by (intro div_add_self2) simp
  ultimately show ?thesis using t assms(2) by simp
qed

lemma one_block_count:
  assumes "alloc_ok a" "one_bitmap_block a"
  shows "a_bitmapBlockCount a = 1" "length (a_dirty a) = 1"
proof -
  show "a_bitmapBlockCount a = 1"
    using assms ceil_one by (simp add: alloc_ok_def one_bitmap_block_def)
  then show "length (a_dirty a) = 1" using assms(1) by (simp add: alloc_ok_def)
qed

lemma commit_spec:
  assumes ok: "alloc_ok a" and one: "one_bitmap_block a" and c: "cont_ok c" "c_blockSize c = a_blockSize a"
    and l: "a_bitmapLba a \<notin> c_locked c"
  obtains e a' c' where "SfsAllocator_CommitToDisk a c = Some (e, a', c')" "alloc_ok a'" "same_geom a a'"
    "a_bitmap a' = a_bitmap a" "cont_ok c'" "cont_geom c c'" "c_locked c' = c_locked c"
    "e \<noteq> EOK \<longrightarrow> c_data c' = c_data c \<and> a_dirty a' = a_dirty a" "c_faults c = [] \<longrightarrow> e = EOK"
    "bm_bit (a_dirty a) 0 \<longrightarrow> e = EOK \<longrightarrow> c_data c' = (c_data c)(a_bitmapLba a := bitmap_image a)"
    "\<not> bm_bit (a_dirty a) 0 \<longrightarrow> c_data c' = c_data c"
    "e = EOK \<longrightarrow> \<not> bm_bit (a_dirty a') 0"
proof -
  have cnt: "a_bitmapBlockCount a = 1" and ld: "length (a_dirty a) = 1" using one_block_count ok one by auto
  have dz: "AllocationBitmap_IsBlockInUse (a_dirty a) 0 = Some (bm_bit (a_dirty a) 0)"
    using ld by (simp add: in_use_eq)
  show ?thesis
  proof (cases "bm_bit (a_dirty a) 0")
    case False
    then show ?thesis using that [of EOK a c] ok c dz cnt by (simp add: SfsAllocator_CommitToDisk_def)
  next
    case True
    from l show ?thesis
    proof (cases rule: map_block_cases [where mode = kMapBlock_Cleared])
      case (err e c')
      then show ?thesis using that [of e a c'] ok c cont_ok_geom [OF c(1) err(6,4,7)] dz cnt True
        by (simp add: SfsAllocator_CommitToDisk_def)
    next
      case (ok c1)
      let ?img = "bitmap_image a"
      let ?c = "unmapped c1 (a_bitmapLba a) kWriteBlock_Deferred ?img"
      let ?a = "a\<lparr>a_dirty := bm_upd (a_dirty a) 0 False\<rparr>"
      have sz: "length (a_bitmap a) = a_bitmapByteSize a" "a_bitmapByteSize a \<le> a_blockSize a"
        using \<open>alloc_ok a\<close> one by (simp_all add: alloc_ok_def one_bitmap_block_def)
      have get: "get_bytes (a_bitmap a) 0 (a_bitmapByteSize a) = Some (a_bitmap a)"
        using sz by (simp add: get_bytes_def)
      have put: "put_bytes (mapped_bytes c (a_bitmapLba a) kMapBlock_Cleared) 0 (a_bitmap a) = Some ?img"
        using sz c(2) by (simp add: put_bytes_def mapped_bytes_def bitmap_image_def zeros_def)
      have unmap: "FSContainer_UnmapBlock c1 \<lparr>b_token = Some (a_bitmapLba a), b_data = ?img\<rparr> kWriteBlock_Deferred = Some (EOK, ?c)"
        using unmap_block_ok [of "a_bitmapLba a" c1 kWriteBlock_Deferred ?img] ok(3) by simp
      have set: "AllocationBitmap_SetBlockInUse (a_dirty a) 0 False = Some (bm_upd (a_dirty a) 0 False)"
        using ld by (simp add: set_in_use_eq)
      have len: "length ?img = c_blockSize c" using sz c(2) by (simp add: bitmap_image_def)
      have geom: "cont_geom c ?c" using ok(4) by simp
      show ?thesis
      proof (rule that [of EOK ?a ?c])
        show "SfsAllocator_CommitToDisk a c = Some (EOK, ?a, ?c)"
          using cnt dz True ok(1) get put unmap set by (simp add: SfsAllocator_CommitToDisk_def)
        show "alloc_ok ?a" using \<open>alloc_ok a\<close> by (simp add: alloc_ok_def)
        show "cont_ok ?c"
          by (rule unmapped_steady(2) [OF cont_ok_geom [OF c(1) ok(4,2,5)]]) (use len cont_geomD(1) [OF ok(4)] in simp_all)
        show "cont_geom c ?c" by (rule geom)
        show "EOK = EOK \<longrightarrow> \<not> bm_bit (a_dirty ?a) 0" using bm_bit_upd [of 0 "a_dirty a" 0 False] ld by simp
      qed (use ok(2,3) l in \<open>simp_all add: same_geom_def True\<close>)
    qed
  qed
qed

text \<open>
  With more than one bitmap block the copy runs over the end of the mapped block: a commit that finds the
  first block of the bitmap dirty faults.
\<close>

lemma commit_overflow:
  assumes "alloc_ok a" "a_blockSize a < a_bitmapByteSize a" "cont_ok c" "c_blockSize c = a_blockSize a"
    and "a_bitmapLba a \<notin> c_locked c" "c_faults c = []" "bm_bit (a_dirty a) 0"
  shows "SfsAllocator_CommitToDisk a c = None"
proof -
  have "0 < 8 * length (a_bitmap a)" using assms(1,2) by (simp add: alloc_ok_def)
  then have pos: "0 < a_bitmapBlockCount a" using dirty_bounds(1) [OF assms(1), of 0] by simp
  then obtain n where n: "a_bitmapBlockCount a = Suc n" using gr0_implies_Suc by blast
  have "0 < length (a_dirty a)" using assms(1) pos by (simp add: alloc_ok_def)
  then have dz: "AllocationBitmap_IsBlockInUse (a_dirty a) 0 = Some True" using assms(7) by (simp add: in_use_eq)
  have get: "get_bytes (a_bitmap a) 0 (a_bitmapByteSize a) = Some (a_bitmap a)"
    using assms(1) by (simp add: get_bytes_def alloc_ok_def)
  have put: "put_bytes (mapped_bytes c (a_bitmapLba a) kMapBlock_Cleared) 0 (a_bitmap a) = None"
    using assms by (simp add: put_bytes_def mapped_bytes_def alloc_ok_def)
  from assms(5) show ?thesis
    by (cases rule: map_block_cases [where mode = kMapBlock_Cleared])
      (use assms(6) n dz get put in \<open>simp_all add: SfsAllocator_CommitToDisk_def\<close>)
qed

text \<open>Starting the allocator on a volume whose bitmap fits into one block reads the bitmap.\<close>

lemma start_spec:
  assumes c: "cont_ok c" "c_blockSize c = bs" and f: "c_faults c = []" "v_lbaAllocBitmap vh \<notin> c_locked c"
    and k: "\<And>n. kalloc n = EOK" and v: "0 < v_allocBitmapByteSize vh" "v_allocBitmapByteSize vh \<le> bs"
    "4 \<le> v_volBlockCount vh" "v_volBlockCount vh \<le> 8 * v_allocBitmapByteSize vh" "v_volBlockCount vh < 4294967296"
  obtains a' where "SfsAllocator_Start kalloc a c vh bs = Some (EOK, a', c\<lparr>c_evicts := tl (c_evicts c)\<rparr>)" "alloc_ok a'" "one_bitmap_block a'"
    "a_bitmap a' = take (v_allocBitmapByteSize vh) (c_data c (v_lbaAllocBitmap vh))"
    "a_bitmapLba a' = v_lbaAllocBitmap vh" "a_blockSize a' = bs" "a_volumeBlockCount a' = v_volBlockCount vh"
    "\<not> bm_bit (a_dirty a') 0"
proof -
  define s where "s = v_allocBitmapByteSize vh"
  have one: "(s + (bs - 1)) div bs = 1" using v ceil_one by (simp add: s_def)
  let ?bm = "take s (c_data c (v_lbaAllocBitmap vh))"
  let ?c1 = "c\<lparr>c_faults := tl (c_faults c), c_locked := insert (v_lbaAllocBitmap vh) (c_locked c)\<rparr>"
  have map: "FSContainer_MapBlock c (v_lbaAllocBitmap vh) kMapBlock_ReadOnly =
      Some (EOK, \<lparr>b_token = Some (v_lbaAllocBitmap vh), b_data = c_data c (v_lbaAllocBitmap vh)\<rparr>, ?c1)"
    using f by (simp add: FSContainer_MapBlock_def next_fault_def mapped_bytes_def Let_def)
  let ?c2 = "c\<lparr>c_evicts := tl (c_evicts c)\<rparr>"
  have unmap: "FSContainer_UnmapBlock ?c1 \<lparr>b_token = Some (v_lbaAllocBitmap vh), b_data = c_data c (v_lbaAllocBitmap vh)\<rparr> kWriteBlock_None
      = Some (EOK, ?c2)"
    using f read_unmapped [OF c(1)] by (simp add: FSContainer_UnmapBlock_def)
  have get: "get_bytes (c_data c (v_lbaAllocBitmap vh)) 0 (min bs s) = Some ?bm"
    using v(2) cont_okD(1) [OF c(1)] c(2) by (simp add: get_bytes_def s_def min_absorb2)
  have loop: "start_loop c (v_lbaAllocBitmap vh) bs 0 1 s [] = Some (EOK, ?bm, ?c2)"
    using map get unmap by (simp add: Let_def)
  let ?a = "a\<lparr>a_bitmapLba := v_lbaAllocBitmap vh, a_bitmapBlockCount := 1, a_bitmapByteSize := s, a_blockSize := bs,
      a_volumeBlockCount := v_volBlockCount vh, a_dirty := zeros 1, a_bitmap := ?bm\<rparr>"
  show ?thesis
  proof (rule that [of ?a])
    show "SfsAllocator_Start kalloc a c vh bs = Some (EOK, ?a, ?c2)"
      using v one k loop by (simp add: SfsAllocator_Start_def Let_def s_def)
    show "alloc_ok ?a" using v one cont_okD(1) [OF c(1)] c(2) by (simp add: alloc_ok_def s_def)
    show "one_bitmap_block ?a" using v by (simp add: one_bitmap_block_def s_def)
    show "\<not> bm_bit (a_dirty ?a) 0" by (simp add: bm_bit_def zeros_def)
  qed (simp_all add: s_def)
qed

end
