(* ===== verification/SfsFile.thy ===== *)
theory SfsFile
  imports SfsAlloc
begin

section \<open>Files of SerenaFS\<close>

text \<open>
  The file layer of SerenaFS: \<open>SfsFile.c\<close>, \<open>SfsRegularFile.c\<close>, the write back and acquisition of inodes of
  \<open>SerenaFS_Inode.c\<close> and the parts of \<open>Inode.c\<close> and \<open>Inode.h\<close> they use. A file is an inode in memory with a
  block map of 110 direct block pointers and one indirect block; every operation runs with the inode locked, so that the
  model takes the inode and the state of the filesystem and returns both. Block pointers are stored big endian, which is
  the byte order of the target, so that the in-memory block map holds plain numbers. The value that
  \<open>FSGetCurrentTime\<close> returns is the field \<open>fs_now\<close>.
\<close>

abbreviation kSFSDirectBlockPointersCount :: nat where "kSFSDirectBlockPointersCount \<equiv> 110"
abbreviation kSFSSignature_Inode :: nat where "kSFSSignature_Inode \<equiv> 1852793957"
abbreviation kSFSInode_RegularFile :: nat where "kSFSInode_RegularFile \<equiv> 82"
abbreviation kSFSInode_Directory :: nat where "kSFSInode_Directory \<equiv> 68"
abbreviation SSIZE_MAX :: int where "SSIZE_MAX \<equiv> 2147483647"
abbreviation MAX_FILE_SIZE :: int where "MAX_FILE_SIZE \<equiv> 9223372036854775807"

subsection \<open>Inodes\<close>

datatype fs_ftype = FS_FTYPE_REG | FS_FTYPE_DIR | FS_FTYPE_DEV | FS_FTYPE_LNK | FS_FTYPE_FIFO

type_synonym nanotime = "nat \<times> nat"

record Inode =
  i_accessTime :: nanotime
  i_modificationTime :: nanotime
  i_statusChangeTime :: nanotime
  i_size :: int
  i_inid :: nat
  i_pnid :: nat
  i_linkCount :: int
  i_fileType :: fs_ftype
  i_permissions :: nat
  i_uid :: nat
  i_gid :: nat
  i_flags :: u32
  i_indirect :: nat
  i_direct :: "nat list"

abbreviation kInodeFlag_Updated :: u32 where "kInodeFlag_Updated \<equiv> 2"
abbreviation kInodeFlag_Accessed :: u32 where "kInodeFlag_Accessed \<equiv> 4"
abbreviation kInodeFlag_StatusChanged :: u32 where "kInodeFlag_StatusChanged \<equiv> 8"

definition Inode_SetModified :: "Inode \<Rightarrow> u32 \<Rightarrow> Inode" where
  "Inode_SetModified self mflags =
     self\<lparr>i_flags := i_flags self OR
       (mflags AND (kInodeFlag_Accessed OR kInodeFlag_Updated OR kInodeFlag_StatusChanged))\<rparr>"

definition Inode_IsAccessed :: "Inode \<Rightarrow> bool" where
  "Inode_IsAccessed self \<longleftrightarrow> i_flags self AND kInodeFlag_Accessed \<noteq> 0"

definition Inode_IsUpdated :: "Inode \<Rightarrow> bool" where
  "Inode_IsUpdated self \<longleftrightarrow> i_flags self AND kInodeFlag_Updated \<noteq> 0"

definition Inode_IsStatusChanged :: "Inode \<Rightarrow> bool" where
  "Inode_IsStatusChanged self \<longleftrightarrow> i_flags self AND kInodeFlag_StatusChanged \<noteq> 0"

definition Inode_Unlink :: "Inode \<Rightarrow> Inode" where
  "Inode_Unlink self = (if 0 < i_linkCount self then self\<lparr>i_linkCount := i_linkCount self - 1\<rparr> else self)"

definition Inode_Link :: "Inode \<Rightarrow> Inode" where
  "Inode_Link self = self\<lparr>i_linkCount := i_linkCount self + 1\<rparr>"

definition Inode_IsDirectory :: "Inode \<Rightarrow> bool" where
  "Inode_IsDirectory self \<longleftrightarrow> i_fileType self = FS_FTYPE_DIR"

subsection \<open>The on-disk inode\<close>

record sfs_inode =
  d_size :: nat
  d_accessTime :: nanotime
  d_modificationTime :: nanotime
  d_statusChangeTime :: nanotime
  d_id :: nat
  d_pnid :: nat
  d_signature :: nat
  d_linkCount :: nat
  d_type :: nat
  d_permissions :: nat
  d_uid :: nat
  d_gid :: nat
  d_indirect :: nat
  d_direct :: "nat list"

definition time_put :: "nanotime \<Rightarrow> u8 list" where
  "time_put t = be32_put (fst t) @ be32_put (snd t)"

definition inode_put :: "sfs_inode \<Rightarrow> u8 list" where
  "inode_put ip =
     be64_put (d_size ip) @ time_put (d_accessTime ip) @ time_put (d_modificationTime ip)
   @ time_put (d_statusChangeTime ip) @ be32_put (d_id ip) @ be32_put (d_pnid ip) @ be32_put (d_signature ip)
   @ be32_put (d_linkCount ip) @ be16_put (d_type ip) @ be16_put (d_permissions ip) @ be32_put (d_uid ip)
   @ be32_put (d_gid ip) @ be32_put (d_indirect ip) @ concat (map be32_put (d_direct ip))"

definition time_at :: "u8 list \<Rightarrow> nat \<Rightarrow> nanotime option" where
  "time_at xs off = do { s \<leftarrow> be_at xs off 4; n \<leftarrow> be_at xs (off + 4) 4; Some (s, n) }"

definition inode_at :: "u8 list \<Rightarrow> sfs_inode option" where
  "inode_at xs =
     do { sz \<leftarrow> be_at xs 0 8;
          at \<leftarrow> time_at xs 8; mt \<leftarrow> time_at xs 16; st \<leftarrow> time_at xs 24;
          id \<leftarrow> be_at xs 32 4; pnid \<leftarrow> be_at xs 36 4; sig \<leftarrow> be_at xs 40 4; lc \<leftarrow> be_at xs 44 4;
          ty \<leftarrow> be_at xs 48 2; pe \<leftarrow> be_at xs 50 2; uid \<leftarrow> be_at xs 52 4; gid \<leftarrow> be_at xs 56 4;
          ind \<leftarrow> be_at xs 60 4;
          dir \<leftarrow> those (map (\<lambda>i. be_at xs (64 + 4 * i) 4) [0..<kSFSDirectBlockPointersCount]);
          Some \<lparr>d_size = sz, d_accessTime = at, d_modificationTime = mt, d_statusChangeTime = st, d_id = id,
                d_pnid = pnid, d_signature = sig, d_linkCount = lc, d_type = ty, d_permissions = pe, d_uid = uid,
                d_gid = gid, d_indirect = ind, d_direct = dir\<rparr> }"

fun SfsITypeFromFileType :: "fs_ftype \<Rightarrow> nat" where
  "SfsITypeFromFileType FS_FTYPE_DIR = kSFSInode_Directory"
| "SfsITypeFromFileType FS_FTYPE_REG = kSFSInode_RegularFile"
| "SfsITypeFromFileType _ = 0"

definition SfsFileTypeFromIType :: "nat \<Rightarrow> fs_ftype option" where
  "SfsFileTypeFromIType itype =
     (if itype = kSFSInode_Directory then Some FS_FTYPE_DIR
      else if itype = kSFSInode_RegularFile then Some FS_FTYPE_REG
      else None)"

definition SfsPermissionsFromFsPerms :: "nat \<Rightarrow> nat" where
  "SfsPermissionsFromFsPerms perms = perms mod 512"

text \<open>The conversions of \<open>be32toh(linkCount)\<close> to \<open>int\<close> and of \<open>be64toh(size)\<close> to \<open>off_t\<close>.\<close>

definition to_int32 :: "nat \<Rightarrow> int" where
  "to_int32 n = (if n < 2147483648 then int n else int n - 4294967296)"

definition to_int64 :: "nat \<Rightarrow> int" where
  "to_int64 n = (if n < 9223372036854775808 then int n else int n - 18446744073709551616)"

definition SfsFile_Create :: "nat \<Rightarrow> sfs_inode \<Rightarrow> Inode option" where
  "SfsFile_Create inid ip =
     do { ft \<leftarrow> SfsFileTypeFromIType (d_type ip);
          Some \<lparr>i_accessTime = d_accessTime ip, i_modificationTime = d_modificationTime ip,
                i_statusChangeTime = d_statusChangeTime ip, i_size = to_int64 (d_size ip), i_inid = inid,
                i_pnid = d_pnid ip, i_linkCount = to_int32 (d_linkCount ip), i_fileType = ft,
                i_permissions = d_permissions ip, i_uid = d_uid ip, i_gid = d_gid ip, i_flags = 0,
                i_indirect = d_indirect ip, i_direct = d_direct ip\<rparr> }"

definition SfsFile_Serialize :: "nanotime \<Rightarrow> Inode \<Rightarrow> sfs_inode" where
  "SfsFile_Serialize now self =
     \<lparr>d_size = nat (i_size self mod 18446744073709551616),
      d_accessTime = (if Inode_IsAccessed self then now else i_accessTime self),
      d_modificationTime = (if Inode_IsUpdated self then now else i_modificationTime self),
      d_statusChangeTime = (if Inode_IsStatusChanged self then now else i_statusChangeTime self),
      d_id = i_inid self, d_pnid = i_pnid self, d_signature = kSFSSignature_Inode,
      d_linkCount = nat (i_linkCount self mod 4294967296),
      d_type = SfsITypeFromFileType (i_fileType self),
      d_permissions = SfsPermissionsFromFsPerms (i_permissions self),
      d_uid = i_uid self, d_gid = i_gid self, d_indirect = i_indirect self, d_direct = i_direct self\<rparr>"

subsection \<open>The filesystem and its blocks\<close>

record SerenaFS =
  fs_cont :: fscont
  fs_alloc :: SfsAllocator
  fs_blockSize :: nat
  fs_blockShift :: nat
  fs_blockMask :: nat
  fs_indirectBlockEntryCount :: nat
  fs_isAccessUpdateOnReadEnabled :: bool
  fs_now :: nanotime

record SfsFileBlock =
  f_b :: FSBlock
  f_lba :: nat
  f_wasAlloced :: bool
  f_isZeroFill :: bool

definition SfsFile_ConvertOffset :: "SerenaFS \<Rightarrow> int \<Rightarrow> nat \<times> nat" where
  "SfsFile_ConvertOffset fs offset =
     (nat (drop_bit (fs_blockShift fs) offset mod 4294967296), nat (offset AND int (fs_blockMask fs)))"

text \<open>The third component is the value that the block pointer receives, if it is assigned.\<close>

definition map_disk_block :: "SerenaFS \<Rightarrow> nat \<Rightarrow> MapBlock \<Rightarrow> (errno \<times> SfsFileBlock \<times> nat option \<times> SerenaFS) option" where
  "map_disk_block fs lba mode =
     (let blk = \<lparr>f_b = no_block, f_lba = lba, f_wasAlloced = False, f_isZeroFill = False\<rparr> in
      if 0 < lba then do {
        (e, b, c) \<leftarrow> FSContainer_MapBlock (fs_cont fs) lba mode;
        Some (e, blk\<lparr>f_b := b\<rparr>, None, fs\<lparr>fs_cont := c\<rparr>) }
      else if mode = kMapBlock_ReadOnly then
        Some (EOK, blk\<lparr>f_b := \<lparr>b_token = None, b_data = zeros (fs_blockSize fs)\<rparr>, f_isZeroFill := True\<rparr>, None, fs)
      else do {
        (e, new_lba, al) \<leftarrow> SfsAllocator_Allocate (fs_alloc fs);
        if e \<noteq> EOK then Some (e, blk, None, fs\<lparr>fs_alloc := al\<rparr>)
        else do {
          (e1, b, c) \<leftarrow> FSContainer_MapBlock (fs_cont fs) new_lba kMapBlock_Cleared;
          if e1 = EOK then
            Some (EOK, blk\<lparr>f_b := b, f_lba := new_lba, f_wasAlloced := True\<rparr>, Some new_lba,
                  fs\<lparr>fs_alloc := al, fs_cont := c\<rparr>)
          else do {
            al2 \<leftarrow> SfsAllocator_Deallocate al new_lba;
            Some (e1, blk\<lparr>f_b := b\<rparr>, None, fs\<lparr>fs_alloc := al2, fs_cont := c\<rparr>) } } })"

definition assigned :: "nat \<Rightarrow> nat option \<Rightarrow> nat" where
  "assigned old new = (case new of None \<Rightarrow> old | Some v \<Rightarrow> v)"

definition SfsFile_MapBlock ::
  "SerenaFS \<Rightarrow> Inode \<Rightarrow> nat \<Rightarrow> MapBlock \<Rightarrow> (errno \<times> SfsFileBlock \<times> Inode \<times> SerenaFS) option" where
  "SfsFile_MapBlock fs self fba mode =
     (if fba < kSFSDirectBlockPointersCount then do {
        dat_lba \<leftarrow> arr_get (i_direct self) fba;
        (e, blk, slot, fs1) \<leftarrow> map_disk_block fs dat_lba mode;
        Some (e, blk, self\<lparr>i_direct := (i_direct self)[fba := assigned dat_lba slot]\<rparr>, fs1) }
      else
        let fba1 = fba - kSFSDirectBlockPointersCount;
            blk0 = \<lparr>f_b = no_block, f_lba = 0, f_wasAlloced = False, f_isZeroFill = False\<rparr> in
        if fba1 < fs_indirectBlockEntryCount fs then do {
          (e, i0_block, slot, fs1) \<leftarrow> map_disk_block fs (i_indirect self) kMapBlock_Update;
          let self1 = self\<lparr>i_indirect := assigned (i_indirect self) slot\<rparr>;
          if e \<noteq> EOK then Some (e, blk0, self1, fs1)
          else do {
            dat_lba \<leftarrow> be_at (b_data (f_b i0_block)) (4 * fba1) 4;
            (e1, blk, slot1, fs2) \<leftarrow> map_disk_block fs1 dat_lba mode;
            i0_data \<leftarrow> (case slot1 of None \<Rightarrow> Some (b_data (f_b i0_block))
                         | Some v \<Rightarrow> put_bytes (b_data (f_b i0_block)) (4 * fba1) (be32_put v));
            (_, c) \<leftarrow> FSContainer_UnmapBlock (fs_cont fs2) ((f_b i0_block)\<lparr>b_data := i0_data\<rparr>)
                       (if f_wasAlloced blk then kWriteBlock_Deferred else kWriteBlock_None);
            Some (e1, blk, self1, fs2\<lparr>fs_cont := c\<rparr>) } }
        else Some (EFBIG, blk0, self, fs))"

definition SfsFile_UnmapBlock :: "SerenaFS \<Rightarrow> SfsFileBlock \<Rightarrow> WriteBlock \<Rightarrow> (errno \<times> SerenaFS) option" where
  "SfsFile_UnmapBlock fs blk mode =
     (if mode = kWriteBlock_None \<and> f_isZeroFill blk then Some (EOK, fs)
      else if mode \<noteq> kWriteBlock_None \<and> f_isZeroFill blk then None
      else do {
        (e, c) \<leftarrow> FSContainer_UnmapBlock (fs_cont fs) (f_b blk) mode;
        Some (e, fs\<lparr>fs_cont := c\<rparr>) })"

subsection \<open>Trimming\<close>

fun trim_direct :: "SfsAllocator \<Rightarrow> nat list \<Rightarrow> nat \<Rightarrow> nat \<Rightarrow> bool \<Rightarrow> (bool \<times> nat list \<times> SfsAllocator) option" where
  "trim_direct al direct bn 0 didTrim = Some (didTrim, direct, al)"
| "trim_direct al direct bn (Suc n) didTrim =
     do { p \<leftarrow> arr_get direct bn;
          if 0 < p then do {
            al1 \<leftarrow> SfsAllocator_Deallocate al p;
            trim_direct al1 (direct[bn := 0]) (Suc bn) n True }
          else trim_direct al direct (Suc bn) n didTrim }"

fun trim_i0 :: "bool \<Rightarrow> SfsAllocator \<Rightarrow> u8 list \<Rightarrow> nat \<Rightarrow> nat \<Rightarrow> bool \<Rightarrow> (bool \<times> u8 list \<times> SfsAllocator) option" where
  "trim_i0 is_update al bmap bn 0 didTrim = Some (didTrim, bmap, al)"
| "trim_i0 is_update al bmap bn (Suc n) didTrim =
     do { p \<leftarrow> be_at bmap (4 * bn) 4;
          if 0 < p then do {
            al1 \<leftarrow> SfsAllocator_Deallocate al p;
            bmap1 \<leftarrow> (if is_update then put_bytes bmap (4 * bn) (be32_put 0) else Some bmap);
            trim_i0 is_update al1 bmap1 (Suc bn) n True }
          else trim_i0 is_update al bmap (Suc bn) n didTrim }"

definition SfsFile_Trim :: "SerenaFS \<Rightarrow> Inode \<Rightarrow> int \<Rightarrow> (bool \<times> Inode \<times> SerenaFS) option" where
  "SfsFile_Trim fs self newLength =
     do { let (bn_nlen, boff_nlen) = SfsFile_ConvertOffset fs newLength;
          let first = (if 0 < boff_nlen then (bn_nlen + 1) mod 4294967296 else bn_nlen);
          (t1, direct, al) \<leftarrow> trim_direct (fs_alloc fs) (i_direct self) first (kSFSDirectBlockPointersCount - first) False;
          let self1 = self\<lparr>i_direct := direct\<rparr>;
          let fs1 = fs\<lparr>fs_alloc := al\<rparr>;
          let first_i0 = first - kSFSDirectBlockPointersCount;
          let is_i0_update = (0 < first_i0);
          if 0 < i_indirect self then do {
            (e, blk, c) \<leftarrow> FSContainer_MapBlock (fs_cont fs1) (i_indirect self)
                            (if is_i0_update then kMapBlock_Update else kMapBlock_ReadOnly);
            if e = EOK then do {
              (t2, bmap, al2) \<leftarrow> trim_i0 is_i0_update (fs_alloc fs1) (b_data blk) first_i0
                                   (fs_indirectBlockEntryCount fs1 - first_i0) t1;
              (_, c1) \<leftarrow> FSContainer_UnmapBlock c (blk\<lparr>b_data := bmap\<rparr>)
                          (if is_i0_update then kWriteBlock_Deferred else kWriteBlock_None);
              Some (if is_i0_update then t2 else True,
                    (if is_i0_update then self1 else self1\<lparr>i_indirect := 0\<rparr>)\<lparr>i_size := newLength\<rparr>,
                    fs1\<lparr>fs_alloc := al2, fs_cont := c1\<rparr>) }
            else Some (t1, self1\<lparr>i_size := newLength\<rparr>, fs1\<lparr>fs_cont := c\<rparr>) }
          else Some (t1, self1\<lparr>i_size := newLength\<rparr>, fs1) }"

subsection \<open>Inodes on the disk\<close>

definition commit :: "SerenaFS \<Rightarrow> (errno \<times> SerenaFS) option" where
  "commit fs =
     do { (e, al, c) \<leftarrow> SfsAllocator_CommitToDisk (fs_alloc fs) (fs_cont fs);
          Some (e, fs\<lparr>fs_alloc := al, fs_cont := c\<rparr>) }"

definition SerenaFS_onAcquireNode :: "SerenaFS \<Rightarrow> nat \<Rightarrow> (errno \<times> Inode option \<times> SerenaFS) option" where
  "SerenaFS_onAcquireNode fs inid =
     do { (e, blk, c) \<leftarrow> FSContainer_MapBlock (fs_cont fs) inid kMapBlock_ReadOnly;
          if e \<noteq> EOK then Some (e, None, fs\<lparr>fs_cont := c\<rparr>)
          else do {
            ip \<leftarrow> inode_at (b_data blk);
            (_, c1) \<leftarrow> FSContainer_UnmapBlock c blk kWriteBlock_None;
            let fs1 = fs\<lparr>fs_cont := c1\<rparr>;
            if d_signature ip \<noteq> kSFSSignature_Inode \<or> d_id ip \<noteq> inid then Some (EIO, None, fs1)
            else if d_type ip = kSFSInode_Directory \<or> d_type ip = kSFSInode_RegularFile
            then do { node \<leftarrow> SfsFile_Create inid ip; Some (EOK, Some node, fs1) }
            else Some (EIO, None, fs1) } }"

definition SerenaFS_onWritebackNode :: "SerenaFS \<Rightarrow> Inode \<Rightarrow> (errno \<times> Inode \<times> SerenaFS) option" where
  "SerenaFS_onWritebackNode fs node =
     do { let lba = i_inid node;
          let doDelete = (i_linkCount node = 0);
          (node1, fs1) \<leftarrow>
            (if doDelete then do {
               (_, n, f) \<leftarrow> SfsFile_Trim fs node 0;
               Some (Inode_SetModified n (kInodeFlag_Updated OR kInodeFlag_StatusChanged), f) }
             else Some (node, fs));
          (e, blk, c) \<leftarrow> FSContainer_MapBlock (fs_cont fs1) lba kMapBlock_Replace;
          c1 \<leftarrow>
            (if e = EOK then do {
               d \<leftarrow> put_bytes (b_data blk) 0 (inode_put (SfsFile_Serialize (fs_now fs1) node1));
               (_, c2) \<leftarrow> FSContainer_UnmapBlock c (blk\<lparr>b_data := d\<rparr>) kWriteBlock_Deferred;
               Some c2 }
             else Some c);
          let fs2 = fs1\<lparr>fs_cont := c1\<rparr>;
          if doDelete then do {
            al \<leftarrow> SfsAllocator_Deallocate (fs_alloc fs2) lba;
            (_, fs3) \<leftarrow> commit (fs2\<lparr>fs_alloc := al\<rparr>);
            Some (e, node1, fs3) }
          else Some (e, node1, fs2) }"

definition Inode_Writeback :: "SerenaFS \<Rightarrow> Inode \<Rightarrow> (errno \<times> Inode \<times> SerenaFS) option" where
  "Inode_Writeback fs self =
     do { (e, n, fs1) \<leftarrow> SerenaFS_onWritebackNode fs self;
          Some (e, n\<lparr>i_flags := i_flags n AND
                  NOT (kInodeFlag_Accessed OR kInodeFlag_Updated OR kInodeFlag_StatusChanged)\<rparr>, fs1) }"

subsection \<open>Regular files\<close>

text \<open>
  The loops of \<open>read\<close> and \<open>write\<close> over the blocks of the file. The first argument is the fuel: every
  iteration handles at least one byte when the offset into the block is less than the block size, so that
  one more than the number of bytes is enough. The second component of the result is the data that has been read, or the number of bytes that
  have been written.
\<close>

fun read_loop ::
  "nat \<Rightarrow> SerenaFS \<Rightarrow> Inode \<Rightarrow> nat \<Rightarrow> nat \<Rightarrow> nat \<Rightarrow> u8 list \<Rightarrow> (errno \<times> u8 list \<times> Inode \<times> SerenaFS) option" where
  "read_loop 0 fs self blockIdx blockOffset nBytesToRead dp = None"
| "read_loop (Suc fuel) fs self blockIdx blockOffset nBytesToRead dp =
     (if nBytesToRead = 0 then Some (EOK, dp, self, fs)
      else do {
        let rest = a_blockSize (fs_alloc fs) - blockOffset;
        let n = (if nBytesToRead > rest then rest else nBytesToRead);
        (e1, blk, self1, fs1) \<leftarrow> SfsFile_MapBlock fs self blockIdx kMapBlock_ReadOnly;
        if e1 \<noteq> EOK then Some (if dp = [] then e1 else EOK, dp, self1, fs1)
        else do {
          bs \<leftarrow> get_bytes (b_data (f_b blk)) blockOffset n;
          (_, fs2) \<leftarrow> SfsFile_UnmapBlock fs1 blk kWriteBlock_None;
          read_loop fuel fs2 self1 ((blockIdx + 1) mod 4294967296) 0 (nBytesToRead - n) (dp @ bs) } })"

text \<open>The limits that the size of the file and the largest file size put on a transfer.\<close>

definition read_limit :: "int \<Rightarrow> int \<Rightarrow> int \<Rightarrow> int" where
  "read_limit fileSize offset nBytesToRead =
     (let nAvailBytes = fileSize - offset in
      if 0 < nAvailBytes
      then (if nAvailBytes \<le> SSIZE_MAX \<and> nAvailBytes < nBytesToRead then nAvailBytes else nBytesToRead)
      else 0)"

definition write_limit :: "int \<Rightarrow> int \<Rightarrow> int" where
  "write_limit offset nBytesToWrite =
     (let nAvailBytes = MAX_FILE_SIZE - offset in
      if 0 < nBytesToWrite \<and> nAvailBytes \<le> SSIZE_MAX \<and> nAvailBytes < nBytesToWrite
      then nAvailBytes else nBytesToWrite)"

definition SfsRegularFile_read ::
  "SerenaFS \<Rightarrow> Inode \<Rightarrow> int \<Rightarrow> int \<Rightarrow> (errno \<times> u8 list \<times> int \<times> Inode \<times> SerenaFS) option" where
  "SfsRegularFile_read fs self offset nBytesToRead =
     (if nBytesToRead < 0 then Some (EINVAL, [], offset, self, fs)
      else if 0 < nBytesToRead \<and> offset < 0 then Some (EOVERFLOW, [], offset, self, fs)
      else do {
        let n = read_limit (i_size self) offset nBytesToRead;
        let (blockIdx, blockOffset) = SfsFile_ConvertOffset fs offset;
        (e, bs, self1, fs1) \<leftarrow> read_loop (Suc (nat n)) fs self blockIdx blockOffset (nat n) [];
        if bs \<noteq> [] then
          Some (e, bs, offset + int (length bs),
                if fs_isAccessUpdateOnReadEnabled fs1 then Inode_SetModified self1 kInodeFlag_Accessed else self1, fs1)
        else Some (e, bs, offset, self1, fs1) })"

fun write_loop ::
  "nat \<Rightarrow> SerenaFS \<Rightarrow> Inode \<Rightarrow> nat \<Rightarrow> nat \<Rightarrow> nat \<Rightarrow> u8 list \<Rightarrow> nat \<Rightarrow> (errno \<times> nat \<times> Inode \<times> SerenaFS) option" where
  "write_loop 0 fs self blockIdx blockOffset nBytesToWrite sp done = None"
| "write_loop (Suc fuel) fs self blockIdx blockOffset nBytesToWrite sp done =
     (if nBytesToWrite = 0 then Some (EOK, done, self, fs)
      else do {
        let bsize = a_blockSize (fs_alloc fs);
        let rest = bsize - blockOffset;
        let n = (if nBytesToWrite > rest then rest else nBytesToWrite);
        let mmode = (if n = bsize then kMapBlock_Replace else kMapBlock_Update);
        (e1, blk, self1, fs1) \<leftarrow> SfsFile_MapBlock fs self blockIdx mmode;
        (e2, fs2) \<leftarrow>
          (if e1 = EOK then do {
             bs \<leftarrow> get_bytes sp 0 n;
             d \<leftarrow> put_bytes (b_data (f_b blk)) blockOffset bs;
             SfsFile_UnmapBlock fs1 (blk\<lparr>f_b := (f_b blk)\<lparr>b_data := d\<rparr>\<rparr>) kWriteBlock_Deferred }
           else Some (e1, fs1));
        if e2 \<noteq> EOK then Some (if done = 0 then e2 else EOK, done, self1, fs2)
        else write_loop fuel fs2 self1 ((blockIdx + 1) mod 4294967296) 0 (nBytesToWrite - n) (drop n sp) (done + n) })"

definition SfsRegularFile_write ::
  "SerenaFS \<Rightarrow> Inode \<Rightarrow> int \<Rightarrow> u8 list \<Rightarrow> int \<Rightarrow> (errno \<times> nat \<times> int \<times> Inode \<times> SerenaFS) option" where
  "SfsRegularFile_write fs self offset buf nBytesToWrite =
     (if nBytesToWrite < 0 then Some (EINVAL, 0, offset, self, fs)
      else if 0 < nBytesToWrite \<and> offset < 0 then Some (EOVERFLOW, 0, offset, self, fs)
      else if 0 < nBytesToWrite \<and> MAX_FILE_SIZE \<le> offset then Some (EFBIG, 0, offset, self, fs)
      else do {
        let n = write_limit offset nBytesToWrite;
        let (blockIdx, blockOffset) = SfsFile_ConvertOffset fs offset;
        (e, w, self1, fs1) \<leftarrow> write_loop (Suc (nat n)) fs self blockIdx blockOffset (nat n) buf 0;
        (e2, fs2) \<leftarrow> commit fs1;
        let err = (if e = EOK then e2 else e);
        if 0 < w then do {
          let endOffset = offset + int w;
          let self2 = (if endOffset > i_size self1 then self1\<lparr>i_size := endOffset\<rparr> else self1);
          (_, self3, fs3) \<leftarrow> Inode_Writeback fs2
             (Inode_SetModified self2 (kInodeFlag_Updated OR kInodeFlag_StatusChanged));
          Some (err, w, endOffset, self3, fs3) }
        else Some (err, w, offset, self1, fs2) })"

definition SfsRegularFile_truncate :: "SerenaFS \<Rightarrow> Inode \<Rightarrow> int \<Rightarrow> (errno \<times> Inode \<times> SerenaFS) option" where
  "SfsRegularFile_truncate fs self len =
     do { let oldLength = i_size self;
          (self1, fs1) \<leftarrow>
            (if oldLength < len then
               Some (Inode_SetModified (self\<lparr>i_size := len\<rparr>) (kInodeFlag_Updated OR kInodeFlag_StatusChanged), fs)
             else if len < oldLength then do {
               (_, self2, fs2) \<leftarrow> SfsFile_Trim fs self len;
               (_, fs3) \<leftarrow> commit fs2;
               Some (Inode_SetModified self2 (kInodeFlag_Updated OR kInodeFlag_StatusChanged), fs3) }
             else Some (self, fs));
          (_, self4, fs4) \<leftarrow> Inode_Writeback fs1 self1;
          Some (EOK, self4, fs4) }"

end
