(* ===== verification/SfsFileInv.thy ===== *)
theory SfsFileInv
  imports SfsFile
begin

section \<open>The blocks of a file\<close>

text \<open>
  The block map of a file as a function from file blocks to disk blocks, the invariant of a filesystem and of an open
  file, and what mapping a block of the file does to it: nothing but at most two fresh blocks (a data block and the indirect block)
  are added to the file, and no other block of the volume changes.
\<close>

definition n_blocks :: "SerenaFS \<Rightarrow> nat" where
  "n_blocks fs = kSFSDirectBlockPointersCount + fs_indirectBlockEntryCount fs"

definition fptr :: "SerenaFS \<Rightarrow> Inode \<Rightarrow> nat \<Rightarrow> nat" where
  "fptr fs f b =
     (if b < kSFSDirectBlockPointersCount then i_direct f ! b
      else if i_indirect f = 0 then 0
      else be_val (take 4 (drop (4 * (b - kSFSDirectBlockPointersCount)) (c_data (fs_cont fs) (i_indirect f)))))"

definition fblock :: "SerenaFS \<Rightarrow> Inode \<Rightarrow> nat \<Rightarrow> u8 list" where
  "fblock fs f b = (if fptr fs f b = 0 then zeros (fs_blockSize fs) else c_data (fs_cont fs) (fptr fs f b))"

definition fs_used :: "SerenaFS \<Rightarrow> nat set" where
  "fs_used fs = used (fs_alloc fs)"

definition fs_ok :: "SerenaFS \<Rightarrow> bool" where
  "fs_ok fs \<longleftrightarrow> alloc_ok (fs_alloc fs) \<and> one_bitmap_block (fs_alloc fs) \<and> cont_ok (fs_cont fs)
   \<and> c_blockSize (fs_cont fs) = fs_blockSize fs \<and> a_blockSize (fs_alloc fs) = fs_blockSize fs
   \<and> fs_blockSize fs = 2 ^ fs_blockShift fs \<and> fs_blockMask fs = fs_blockSize fs - 1
   \<and> fs_indirectBlockEntryCount fs = fs_blockSize fs div 4 \<and> 512 \<le> fs_blockSize fs \<and> fs_blockSize fs \<le> 65535
   \<and> a_bitmapLba (fs_alloc fs) \<noteq> 0 \<and> a_bitmapLba (fs_alloc fs) \<in> fs_used fs \<and> c_locked (fs_cont fs) \<subseteq> fs_used fs"

definition file_ok :: "SerenaFS \<Rightarrow> Inode \<Rightarrow> bool" where
  "file_ok fs f \<longleftrightarrow> length (i_direct f) = kSFSDirectBlockPointersCount
   \<and> inj_on (fptr fs f) {b. b < n_blocks fs \<and> fptr fs f b \<noteq> 0}
   \<and> (\<forall>b. b < n_blocks fs \<longrightarrow> fptr fs f b \<noteq> 0 \<longrightarrow>
          fptr fs f b \<in> fs_used fs \<and> fptr fs f b \<notin> {i_indirect f, i_inid f, a_bitmapLba (fs_alloc fs)})
   \<and> (i_indirect f \<noteq> 0 \<longrightarrow> i_indirect f \<in> fs_used fs \<and> i_indirect f \<notin> {i_inid f, a_bitmapLba (fs_alloc fs)})
   \<and> i_inid f \<in> fs_used fs \<and> i_inid f \<noteq> a_bitmapLba (fs_alloc fs) \<and> i_inid f \<noteq> 0"

text \<open>The blocks that belong to a file, apart from the block of its inode.\<close>

definition own :: "SerenaFS \<Rightarrow> Inode \<Rightarrow> nat set" where
  "own fs f = (insert (i_indirect f) (fptr fs f ` {b. b < n_blocks fs})) - {0}"

definition fs_geom :: "SerenaFS \<Rightarrow> SerenaFS \<Rightarrow> bool" where
  "fs_geom fs fs' \<longleftrightarrow> cont_geom (fs_cont fs) (fs_cont fs') \<and> same_geom (fs_alloc fs) (fs_alloc fs')
   \<and> fs_blockSize fs' = fs_blockSize fs \<and> fs_blockShift fs' = fs_blockShift fs \<and> fs_blockMask fs' = fs_blockMask fs
   \<and> fs_indirectBlockEntryCount fs' = fs_indirectBlockEntryCount fs
   \<and> fs_isAccessUpdateOnReadEnabled fs' = fs_isAccessUpdateOnReadEnabled fs \<and> fs_now fs' = fs_now fs"

definition same_meta :: "Inode \<Rightarrow> Inode \<Rightarrow> bool" where
  "same_meta f f' \<longleftrightarrow> f'\<lparr>i_direct := [], i_indirect := 0\<rparr> = f\<lparr>i_direct := [], i_indirect := 0\<rparr>"

text \<open>A step on the file leaves the blocks in use by others as they are, and takes only free blocks.\<close>

definition frame :: "SerenaFS \<Rightarrow> Inode \<Rightarrow> SerenaFS \<Rightarrow> Inode \<Rightarrow> bool" where
  "frame fs f fs' f' \<longleftrightarrow> fs_geom fs fs' \<and> same_meta f f' \<and> fs_used fs \<subseteq> fs_used fs'
   \<and> (\<forall>l. l \<in> fs_used fs \<longrightarrow> l \<notin> own fs f \<longrightarrow> c_data (fs_cont fs') l = c_data (fs_cont fs) l)
   \<and> own fs' f' \<subseteq> own fs f \<union> - fs_used fs \<and> (i_indirect f \<noteq> 0 \<longrightarrow> i_indirect f' \<noteq> 0)"

lemma fs_geom_refl [simp]: "fs_geom fs fs"
  by (simp add: fs_geom_def)

lemma fs_geom_trans: "fs_geom a b \<Longrightarrow> fs_geom b c \<Longrightarrow> fs_geom a c"
  by (auto simp: fs_geom_def intro: cont_geom_trans same_geom_trans)

lemma fs_geomD: "fs_geom fs fs' \<Longrightarrow> n_blocks fs' = n_blocks fs" "fs_geom fs fs' \<Longrightarrow> fs_blockSize fs' = fs_blockSize fs"
  "fs_geom fs fs' \<Longrightarrow> a_bitmapLba (fs_alloc fs') = a_bitmapLba (fs_alloc fs)"
  "fs_geom fs fs' \<Longrightarrow> c_faults (fs_cont fs) = [] \<Longrightarrow> c_faults (fs_cont fs') = []"
  "fs_geom fs fs' \<Longrightarrow> c_evicts (fs_cont fs) = [] \<Longrightarrow> c_evicts (fs_cont fs') = []"
  by (simp_all add: fs_geom_def n_blocks_def same_geom_def cont_geom_def)

lemma same_meta_refl [simp]: "same_meta f f"
  by (simp add: same_meta_def)

lemma same_meta_trans: "same_meta a b \<Longrightarrow> same_meta b c \<Longrightarrow> same_meta a c"
  by (simp add: same_meta_def)

lemma same_metaD: "same_meta f f' \<Longrightarrow> i_size f' = i_size f" "same_meta f f' \<Longrightarrow> i_inid f' = i_inid f"
  "same_meta f f' \<Longrightarrow> i_linkCount f' = i_linkCount f" "same_meta f f' \<Longrightarrow> i_flags f' = i_flags f"
  by (auto simp: same_meta_def dest: arg_cong [of _ _ i_size] arg_cong [of _ _ i_inid]
      arg_cong [of _ _ i_linkCount] arg_cong [of _ _ i_flags])

lemma frame_refl [simp]: "frame fs f fs f"
  by (simp add: frame_def)

lemma frame_trans:
  assumes "frame a f b g" "frame b g c h"
  shows "frame a f c h"
proof -
  have "c_data (fs_cont c) l = c_data (fs_cont a) l" if "l \<in> fs_used a" "l \<notin> own a f" for l
  proof -
    have "l \<in> fs_used b" "l \<notin> own b g" "c_data (fs_cont b) l = c_data (fs_cont a) l"
      using assms(1) that by (auto simp: frame_def)
    then show ?thesis using assms(2) by (simp add: frame_def)
  qed
  moreover have "own c h \<subseteq> own a f \<union> - fs_used a"
    using assms by (auto simp: frame_def)
  ultimately show ?thesis
    using assms fs_geom_trans same_meta_trans unfolding frame_def by blast
qed

subsection \<open>Mapping a disk block\<close>

lemma fs_okD:
  assumes "fs_ok fs"
  shows "alloc_ok (fs_alloc fs)" "one_bitmap_block (fs_alloc fs)" "cont_ok (fs_cont fs)"
    "c_blockSize (fs_cont fs) = fs_blockSize fs" "a_blockSize (fs_alloc fs) = fs_blockSize fs"
    "c_locked (fs_cont fs) \<subseteq> fs_used fs" "a_bitmapLba (fs_alloc fs) \<in> fs_used fs" "512 \<le> fs_blockSize fs"
    "fs_indirectBlockEntryCount fs = fs_blockSize fs div 4" "a_bitmapLba (fs_alloc fs) \<noteq> 0"
  using assms by (simp_all add: fs_ok_def)

lemma fs_ok_step:
  assumes "fs_ok fs" "fs_geom fs fs'" "alloc_ok (fs_alloc fs')" "cont_ok (fs_cont fs')"
    "c_locked (fs_cont fs') \<subseteq> fs_used fs'" "a_bitmapLba (fs_alloc fs) \<in> fs_used fs'"
  shows "fs_ok fs'"
  using assms by (simp add: fs_ok_def fs_geom_def same_geom_def cont_geom_def one_bitmap_block_def)

lemma map_disk_block_cases:
  assumes ok: "fs_ok fs" and lba: "lba \<noteq> 0 \<longrightarrow> lba \<in> fs_used fs \<and> lba \<notin> c_locked (fs_cont fs)"
  obtains (err) e fs' where "map_disk_block fs lba mode =
        Some (e, \<lparr>f_b = no_block, f_lba = lba, f_wasAlloced = False, f_isZeroFill = False\<rparr>, None, fs')" "e \<noteq> EOK"
      "fs_ok fs'" "fs_geom fs fs'" "fs_used fs' = fs_used fs"
      "c_data (fs_cont fs') = c_data (fs_cont fs)" "c_locked (fs_cont fs') = c_locked (fs_cont fs)"
      "c_faults (fs_cont fs) = [] \<Longrightarrow> e = ENOSPC \<and> lba = 0 \<and> mode \<noteq> kMapBlock_ReadOnly \<and> {1..<a_volumeBlockCount (fs_alloc fs)} \<subseteq> fs_used fs"
  | (hit) fs' where "lba \<noteq> 0" "map_disk_block fs lba mode =
        Some (EOK, \<lparr>f_b = \<lparr>b_token = Some lba, b_data = mapped_bytes (fs_cont fs) lba mode\<rparr>, f_lba = lba,
          f_wasAlloced = False, f_isZeroFill = False\<rparr>, None, fs')"
      "fs_ok fs'" "fs_geom fs fs'" "fs_used fs' = fs_used fs"
      "c_data (fs_cont fs') = c_data (fs_cont fs)" "c_locked (fs_cont fs') = insert lba (c_locked (fs_cont fs))"
  | (zero) "lba = 0" "mode = kMapBlock_ReadOnly" "map_disk_block fs lba mode =
        Some (EOK, \<lparr>f_b = \<lparr>b_token = None, b_data = zeros (fs_blockSize fs)\<rparr>, f_lba = 0,
          f_wasAlloced = False, f_isZeroFill = True\<rparr>, None, fs)"
  | (new) k fs' where "lba = 0" "mode \<noteq> kMapBlock_ReadOnly" "map_disk_block fs lba mode =
        Some (EOK, \<lparr>f_b = \<lparr>b_token = Some k, b_data = zeros (fs_blockSize fs)\<rparr>, f_lba = k,
          f_wasAlloced = True, f_isZeroFill = False\<rparr>, Some k, fs')"
      "k \<noteq> 0" "k \<notin> fs_used fs" "k < 4294967296" "fs_used fs' = insert k (fs_used fs)" "fs_ok fs'" "fs_geom fs fs'"
      "c_data (fs_cont fs') = c_data (fs_cont fs)" "c_locked (fs_cont fs') = insert k (c_locked (fs_cont fs))"
proof -
  note okD = fs_okD [OF ok]
  consider "lba \<noteq> 0" | "lba = 0" "mode = kMapBlock_ReadOnly" | "lba = 0" "mode \<noteq> kMapBlock_ReadOnly" by blast
  then show ?thesis
  proof cases
    case 1
    then have "lba \<notin> c_locked (fs_cont fs)" using lba by simp
    then show ?thesis
    proof (cases rule: map_block_cases [where mode = mode])
      case (err e c)
      have "fs_ok (fs\<lparr>fs_cont := c\<rparr>)"
        by (rule fs_ok_step [OF ok])
          (use okD err cont_ok_geom [OF okD(3) err(6,4,7)] in \<open>simp_all add: fs_geom_def fs_used_def\<close>)
      then show ?thesis
        by (rule that(1) [rotated 2]) (use 1 err in \<open>simp_all add: map_disk_block_def fs_geom_def fs_used_def Let_def\<close>)
    next
      case (ok c)
      have "fs_ok (fs\<lparr>fs_cont := c\<rparr>)"
        by (rule fs_ok_step [OF \<open>fs_ok fs\<close>])
          (use okD ok 1 lba cont_ok_geom [OF okD(3) ok(4,2,5)] in \<open>simp_all add: fs_geom_def fs_used_def\<close>)
      then show ?thesis
        by (rule that(2) [rotated 2]) (use 1 ok in \<open>simp_all add: map_disk_block_def fs_geom_def fs_used_def Let_def\<close>)
    qed
  next
    case 2
    then show ?thesis using that(3) by (simp add: map_disk_block_def Let_def)
  next
    case 3
    from okD(1) show ?thesis
    proof (cases rule: allocate_spec)
      case full
      show ?thesis
        by (rule that(1) [of ENOSPC "fs\<lparr>fs_alloc := fs_alloc fs\<rparr>"]) (use 3 full ok in \<open>simp_all add: map_disk_block_def Let_def fs_used_def\<close>)
    next
      case (found k al)
      have kl: "k \<notin> c_locked (fs_cont fs)" using found(4) okD(6) by (auto simp: fs_used_def)
      have kb: "k < 4294967296" using found(3) okD(1) by (simp add: alloc_ok_def)
      from kl show ?thesis
      proof (cases rule: map_block_cases [where mode = kMapBlock_Cleared])
        case (err e c)
        have "k < a_volumeBlockCount al" using found(3,8) by (simp add: same_geom_def)
        from deallocate_spec [OF found(7) this] obtain al2 where al2: "SfsAllocator_Deallocate al k = Some al2"
          "alloc_ok al2" "same_geom al al2" "used al2 = used al - {k}" using found(2) by (metis less_numeral_extra(3))
        have u: "used al2 = used (fs_alloc fs)" using al2(4) found(4,6) by simp
        have g: "same_geom (fs_alloc fs) al2" using same_geom_trans found(8) al2(3) .
        let ?fs = "fs\<lparr>fs_alloc := al2, fs_cont := c\<rparr>"
        have ok': "fs_ok ?fs"
          by (rule fs_ok_step [OF ok])
            (use okD err cont_ok_geom [OF okD(3) err(6,4,7)] al2(2) u g in \<open>simp_all add: fs_geom_def fs_used_def\<close>)
        show ?thesis
          by (rule that(1) [OF _ _ ok'])
            (use 3 found(1) al2(1) err u g in \<open>simp_all add: map_disk_block_def Let_def fs_used_def fs_geom_def\<close>)
      next
        case (ok c)
        let ?fs = "fs\<lparr>fs_alloc := al, fs_cont := c\<rparr>"
        have ok': "fs_ok ?fs"
          by (rule fs_ok_step [OF \<open>fs_ok fs\<close>])
            (use okD ok cont_ok_geom [OF okD(3) ok(4,2,5)] found(6-8) in \<open>auto simp: fs_geom_def fs_used_def\<close>)
        show ?thesis
          by (rule that(4) [OF _ _ _ _ _ kb _ ok'])
            (use 3 found ok okD(4) in \<open>simp_all add: map_disk_block_def Let_def fs_used_def fs_geom_def mapped_bytes_def\<close>)
      qed
    qed
  qed
qed

subsection \<open>Mapping a block of a file\<close>

text \<open>The file after its block \<open>b\<close> has been mapped: only the pointer of \<open>b\<close> may have changed.\<close>

definition ext :: "SerenaFS \<Rightarrow> Inode \<Rightarrow> nat \<Rightarrow> SerenaFS \<Rightarrow> Inode \<Rightarrow> bool" where
  "ext fs f b fs' f' \<longleftrightarrow> fs_ok fs' \<and> file_ok fs' f' \<and> frame fs f fs' f'
   \<and> (\<forall>b'. b' < n_blocks fs \<longrightarrow> b' \<noteq> b \<longrightarrow> fptr fs' f' b' = fptr fs f b'
        \<and> (fptr fs f b' \<noteq> 0 \<longrightarrow> c_data (fs_cont fs') (fptr fs f b') = c_data (fs_cont fs) (fptr fs f b')))"

lemma extD:
  assumes "ext fs f b fs' f'"
  shows "fs_ok fs'" "file_ok fs' f'" "frame fs f fs' f'" "fs_geom fs fs'"
    "b' < n_blocks fs \<Longrightarrow> b' \<noteq> b \<Longrightarrow> fptr fs' f' b' = fptr fs f b'"
    "b' < n_blocks fs \<Longrightarrow> b' \<noteq> b \<Longrightarrow> fptr fs f b' \<noteq> 0 \<Longrightarrow>
       c_data (fs_cont fs') (fptr fs f b') = c_data (fs_cont fs) (fptr fs f b')"
  using assms by (simp_all add: ext_def frame_def)

lemma file_okD:
  assumes "file_ok fs f"
  shows "length (i_direct f) = kSFSDirectBlockPointersCount"
    "b < n_blocks fs \<Longrightarrow> fptr fs f b \<noteq> 0 \<Longrightarrow> fptr fs f b \<in> fs_used fs"
    "b < n_blocks fs \<Longrightarrow> fptr fs f b \<noteq> 0 \<Longrightarrow> fptr fs f b \<noteq> i_indirect f"
    "b < n_blocks fs \<Longrightarrow> fptr fs f b \<noteq> 0 \<Longrightarrow> fptr fs f b \<noteq> i_inid f"
    "b < n_blocks fs \<Longrightarrow> fptr fs f b \<noteq> 0 \<Longrightarrow> fptr fs f b \<noteq> a_bitmapLba (fs_alloc fs)"
    "i_indirect f \<noteq> 0 \<Longrightarrow> i_indirect f \<in> fs_used fs" "i_indirect f \<noteq> 0 \<Longrightarrow> i_indirect f \<noteq> i_inid f"
    "i_indirect f \<noteq> 0 \<Longrightarrow> i_indirect f \<noteq> a_bitmapLba (fs_alloc fs)"
    "i_inid f \<in> fs_used fs" "i_inid f \<noteq> a_bitmapLba (fs_alloc fs)" "i_inid f \<noteq> 0"
    "b1 < n_blocks fs \<Longrightarrow> b2 < n_blocks fs \<Longrightarrow> fptr fs f b1 \<noteq> 0 \<Longrightarrow> fptr fs f b1 = fptr fs f b2 \<Longrightarrow> b1 = b2"
  using assms by (simp_all add: file_ok_def inj_on_def)

lemma file_okI:
  assumes "length (i_direct f) = kSFSDirectBlockPointersCount"
    "\<And>b1 b2. b1 < n_blocks fs \<Longrightarrow> b2 < n_blocks fs \<Longrightarrow> fptr fs f b1 \<noteq> 0 \<Longrightarrow> fptr fs f b1 = fptr fs f b2 \<Longrightarrow> b1 = b2"
    "\<And>b. b < n_blocks fs \<Longrightarrow> fptr fs f b \<noteq> 0 \<Longrightarrow> fptr fs f b \<in> fs_used fs \<and> fptr fs f b \<noteq> i_indirect f \<and>
        fptr fs f b \<noteq> i_inid f \<and> fptr fs f b \<noteq> a_bitmapLba (fs_alloc fs)"
    "i_indirect f \<noteq> 0 \<Longrightarrow> i_indirect f \<in> fs_used fs \<and> i_indirect f \<noteq> i_inid f \<and> i_indirect f \<noteq> a_bitmapLba (fs_alloc fs)"
    "i_inid f \<in> fs_used fs" "i_inid f \<noteq> a_bitmapLba (fs_alloc fs)" "i_inid f \<noteq> 0"
  shows "file_ok fs f"
  using assms by (simp add: file_ok_def inj_on_def)

lemma extI:
  assumes ok: "fs_ok fs" and fok: "file_ok fs f" and ok': "fs_ok fs'" and g: "fs_geom fs fs'" and m: "same_meta f f'"
    and len: "length (i_direct f') = kSFSDirectBlockPointersCount" and u: "fs_used fs \<subseteq> fs_used fs'"
    and P1: "\<And>b'. b' < n_blocks fs \<Longrightarrow> b' \<noteq> b \<Longrightarrow> fptr fs' f' b' = fptr fs f b'"
    and P2: "b < n_blocks fs \<Longrightarrow> fptr fs' f' b = fptr fs f b \<or> fptr fs' f' b \<notin> fs_used fs \<and> fptr fs' f' b \<in> fs_used fs'"
    and P3: "i_indirect f' = i_indirect f \<or> i_indirect f' \<notin> fs_used fs \<and> i_indirect f' \<in> fs_used fs'"
    and P4: "b < n_blocks fs \<Longrightarrow> fptr fs' f' b \<noteq> 0 \<Longrightarrow> fptr fs' f' b \<noteq> i_indirect f'"
    and P5: "\<And>l. l \<in> fs_used fs \<Longrightarrow> (i_indirect f \<noteq> 0 \<Longrightarrow> l \<noteq> i_indirect f) \<Longrightarrow> c_data (fs_cont fs') l = c_data (fs_cont fs) l"
    and P6: "i_indirect f \<noteq> 0 \<Longrightarrow> i_indirect f' \<noteq> 0"
  shows "ext fs f b fs' f'"
proof -
  note D = file_okD [OF fok]
  have n: "n_blocks fs' = n_blocks fs" and bl: "a_bitmapLba (fs_alloc fs') = a_bitmapLba (fs_alloc fs)"
    using fs_geomD g by auto
  have id: "i_inid f' = i_inid f" using same_metaD m by blast
  have bu: "a_bitmapLba (fs_alloc fs) \<in> fs_used fs" using fs_okD(7) [OF ok] .
  have fresh: "fptr fs' f' b' = fptr fs f b' \<or> b' = b \<and> fptr fs' f' b' \<notin> fs_used fs \<and> fptr fs' f' b' \<in> fs_used fs'"
    if "b' < n_blocks fs" for b'
    using P1 P2 that by (cases "b' = b") auto
  have "file_ok fs' f'"
  proof (rule file_okI)
    fix b1 b2 assume a: "b1 < n_blocks fs'" "b2 < n_blocks fs'" "fptr fs' f' b1 \<noteq> 0" "fptr fs' f' b1 = fptr fs' f' b2"
    show "b1 = b2"
      using fresh [of b1] fresh [of b2] a n D(12) [of b1 b2] D(2) [of b1] D(2) [of b2] by metis
  next
    fix b' assume a: "b' < n_blocks fs'" "fptr fs' f' b' \<noteq> 0"
    have b': "b' < n_blocks fs" using a n by simp
    have "fptr fs' f' b' \<noteq> i_indirect f'"
      using P4 P3 fresh [OF b'] D(2,3) [OF b'] a b' by metis
    then show "fptr fs' f' b' \<in> fs_used fs' \<and> fptr fs' f' b' \<noteq> i_indirect f' \<and> fptr fs' f' b' \<noteq> i_inid f' \<and>
        fptr fs' f' b' \<noteq> a_bitmapLba (fs_alloc fs')"
      using fresh [OF b'] D(2,4,5) [OF b'] D(9) a(2) id bl bu u by (metis subsetD)
  next
    assume "i_indirect f' \<noteq> 0"
    then show "i_indirect f' \<in> fs_used fs' \<and> i_indirect f' \<noteq> i_inid f' \<and> i_indirect f' \<noteq> a_bitmapLba (fs_alloc fs')"
      using P3 D(6-9) id bl bu u by (metis subsetD)
  qed (use len D(9-11) id bl u in auto)
  moreover have "frame fs f fs' f'"
  proof -
    have "own fs' f' \<subseteq> own fs f \<union> - fs_used fs"
    proof
      fix l assume "l \<in> own fs' f'"
      then have "l \<noteq> 0" "l = i_indirect f' \<or> (\<exists>b'<n_blocks fs. l = fptr fs' f' b')" by (auto simp: own_def n)
      then show "l \<in> own fs f \<union> - fs_used fs" using P3 fresh by (auto simp: own_def)
    qed
    moreover have "c_data (fs_cont fs') l = c_data (fs_cont fs) l" if "l \<in> fs_used fs" "l \<notin> own fs f" for l
      by (rule P5) (use that in \<open>auto simp: own_def\<close>)
    ultimately show ?thesis using g m u P6 by (simp add: frame_def)
  qed
  moreover have "c_data (fs_cont fs') (fptr fs f b') = c_data (fs_cont fs) (fptr fs f b')"
    if "b' < n_blocks fs" "fptr fs f b' \<noteq> 0" for b'
    by (rule P5) (use that D(2,3) in auto)
  ultimately show ?thesis using ok' P1 by (simp add: ext_def)
qed

text \<open>The outcomes of mapping block \<open>b\<close>: an error, the shared page of zeros, or the page of the block.\<close>

definition map_fails :: "SerenaFS \<Rightarrow> Inode \<Rightarrow> nat \<Rightarrow> MapBlock \<Rightarrow> errno \<Rightarrow> SerenaFS \<Rightarrow> Inode \<Rightarrow> bool" where
  "map_fails fs f b mode e fs' f' \<longleftrightarrow> e \<noteq> EOK \<and> ext fs f b fs' f' \<and> fptr fs' f' b = fptr fs f b
   \<and> (fptr fs f b \<noteq> 0 \<longrightarrow> c_data (fs_cont fs') (fptr fs f b) = c_data (fs_cont fs) (fptr fs f b))
   \<and> c_locked (fs_cont fs') = {}
   \<and> (c_faults (fs_cont fs) = [] \<longrightarrow> e = ENOSPC \<and> {1..<a_volumeBlockCount (fs_alloc fs)} \<subseteq> fs_used fs'
        \<and> (mode = kMapBlock_ReadOnly \<longrightarrow> i_indirect f = 0 \<and> kSFSDirectBlockPointersCount \<le> b))"

definition map_zero :: "SerenaFS \<Rightarrow> Inode \<Rightarrow> nat \<Rightarrow> MapBlock \<Rightarrow> SfsFileBlock \<Rightarrow> SerenaFS \<Rightarrow> Inode \<Rightarrow> bool" where
  "map_zero fs f b mode blk fs' f' \<longleftrightarrow> mode = kMapBlock_ReadOnly \<and> ext fs f b fs' f' \<and> fptr fs f b = 0
   \<and> fptr fs' f' b = 0 \<and> f_isZeroFill blk \<and> b_data (f_b blk) = zeros (fs_blockSize fs) \<and> c_locked (fs_cont fs') = {}"

definition map_page :: "SerenaFS \<Rightarrow> Inode \<Rightarrow> nat \<Rightarrow> MapBlock \<Rightarrow> SfsFileBlock \<Rightarrow> SerenaFS \<Rightarrow> Inode \<Rightarrow> bool" where
  "map_page fs f b mode blk fs' f' \<longleftrightarrow> ext fs f b fs' f' \<and> \<not> f_isZeroFill blk \<and> fptr fs' f' b \<noteq> 0
   \<and> f_lba blk = fptr fs' f' b \<and> b_token (f_b blk) = Some (fptr fs' f' b)
   \<and> (if fptr fs f b = 0 then mode \<noteq> kMapBlock_ReadOnly \<and> b_data (f_b blk) = zeros (fs_blockSize fs) \<and> fptr fs' f' b \<notin> fs_used fs
      else fptr fs' f' b = fptr fs f b \<and> b_data (f_b blk) = mapped_bytes (fs_cont fs) (fptr fs f b) mode
        \<and> c_data (fs_cont fs') (fptr fs f b) = c_data (fs_cont fs) (fptr fs f b))
   \<and> c_locked (fs_cont fs') = {fptr fs' f' b}"

definition map_result :: "SerenaFS \<Rightarrow> Inode \<Rightarrow> nat \<Rightarrow> MapBlock \<Rightarrow> errno \<Rightarrow> SfsFileBlock \<Rightarrow> SerenaFS \<Rightarrow> Inode \<Rightarrow> bool" where
  "map_result fs f b mode e blk fs' f' \<longleftrightarrow> map_fails fs f b mode e fs' f' \<or>
     e = EOK \<and> (map_zero fs f b mode blk fs' f' \<or> map_page fs f b mode blk fs' f')"

lemma fptr_direct: "b < kSFSDirectBlockPointersCount \<Longrightarrow> fptr fs f b = i_direct f ! b"
  by (simp add: fptr_def)

lemma fptr_cong:
  "i_direct f' = i_direct f \<Longrightarrow> i_indirect f' = i_indirect f \<Longrightarrow> c_data (fs_cont fs') = c_data (fs_cont fs) \<Longrightarrow>
   fptr fs' f' b = fptr fs f b"
  by (simp add: fptr_def)

lemma ext_same:
  assumes "fs_ok fs" "file_ok fs f" "fs_ok fs'" "fs_geom fs fs'" "fs_used fs' = fs_used fs"
    "c_data (fs_cont fs') = c_data (fs_cont fs)"
  shows "ext fs f b fs' f"
proof -
  have p: "fptr fs' f b' = fptr fs f b'" for b' using fptr_cong assms(6) by blast
  show ?thesis
    by (rule extI [OF assms(1,2,3,4)]) (use assms(5,6) p file_okD(1,3) [OF assms(2)] in simp_all)
qed

lemma MapBlock_direct:
  assumes ok: "fs_ok fs" and fok: "file_ok fs f" and l: "c_locked (fs_cont fs) = {}" and b: "b < kSFSDirectBlockPointersCount"
  shows "\<exists>e blk f' fs'. SfsFile_MapBlock fs f b mode = Some (e, blk, f', fs') \<and> map_result fs f b mode e blk fs' f'"
proof -
  define q where "q = i_direct f ! b"
  have len: "length (i_direct f) = kSFSDirectBlockPointersCount" using file_okD(1) fok .
  have bn: "b < n_blocks fs" using b by (simp add: n_blocks_def)
  have q: "fptr fs f b = q" using b by (simp add: fptr_direct q_def)
  have upd: "f\<lparr>i_direct := (i_direct f)[b := q]\<rparr> = f" using b len by (simp add: q_def)
  have get: "arr_get (i_direct f) b = Some q" using b len by (simp add: q_def)
  have qu: "q \<noteq> 0 \<longrightarrow> q \<in> fs_used fs \<and> q \<notin> c_locked (fs_cont fs)" using file_okD(2) [OF fok bn] q l by auto
  from ok qu show ?thesis
  proof (cases rule: map_disk_block_cases [where mode = mode])
    case (err e fs')
    have x: "ext fs f b fs' f" using ext_same [OF ok fok err(3-6)] .
    have "map_fails fs f b mode e fs' f"
      unfolding map_fails_def using x fptr_cong [OF refl refl err(6)] err l by simp
    then show ?thesis using err(1) get b upd by (auto simp: SfsFile_MapBlock_def assigned_def map_result_def)
  next
    case (hit fs')
    have x: "ext fs f b fs' f" using ext_same [OF ok fok hit(3-6)] .
    have p: "fptr fs' f b = q" using fptr_cong [OF refl refl hit(6), of f b] q by simp
    have "map_page fs f b mode \<lparr>f_b = \<lparr>b_token = Some q, b_data = mapped_bytes (fs_cont fs) q mode\<rparr>, f_lba = q,
        f_wasAlloced = False, f_isZeroFill = False\<rparr> fs' f"
      unfolding map_page_def using x p q hit l by simp
    then show ?thesis using hit(2) get b upd by (auto simp: SfsFile_MapBlock_def assigned_def map_result_def)
  next
    case zero
    have x: "ext fs f b fs f" using ext_same [OF ok fok ok] by simp
    have "map_zero fs f b mode \<lparr>f_b = \<lparr>b_token = None, b_data = zeros (fs_blockSize fs)\<rparr>, f_lba = 0,
        f_wasAlloced = False, f_isZeroFill = True\<rparr> fs f"
      unfolding map_zero_def using x q zero l by simp
    then show ?thesis using zero get b upd by (auto simp: SfsFile_MapBlock_def assigned_def map_result_def)
  next
    case (new k fs')
    let ?f = "f\<lparr>i_direct := (i_direct f)[b := k]\<rparr>"
    have p: "fptr fs' ?f b' = (if b' = b then k else fptr fs f b')" for b'
      using b len new(10) by (simp add: fptr_def nth_list_update)
    have x: "ext fs f b fs' ?f"
      by (rule extI [OF ok fok new(8,9)])
        (use p new len file_okD(6) [OF fok] in \<open>auto simp: same_meta_def\<close>)
    have "map_page fs f b mode \<lparr>f_b = \<lparr>b_token = Some k, b_data = zeros (fs_blockSize fs)\<rparr>, f_lba = k,
        f_wasAlloced = True, f_isZeroFill = False\<rparr> fs' ?f"
      unfolding map_page_def using x p q new l by simp
    then show ?thesis using new get b by (auto simp: SfsFile_MapBlock_def assigned_def map_result_def)
  qed
qed

text \<open>Block pointers in an indirect block.\<close>

definition entry :: "u8 list \<Rightarrow> nat \<Rightarrow> nat" where
  "entry d k = be_val (take 4 (drop (4 * k) d))"

lemma entry_at: "k < length d div 4 \<Longrightarrow> be_at d (4 * k) 4 = Some (entry d k)"
  by (simp add: be_at_in entry_def)

lemma fptr_indirect:
  "fptr fs f (kSFSDirectBlockPointersCount + k) =
     (if i_indirect f = 0 then 0 else entry (c_data (fs_cont fs) (i_indirect f)) k)"
  by (simp add: fptr_def entry_def)

lemma entry_zeros: "k < n div 4 \<Longrightarrow> entry (zeros n) k = 0"
  using be_at_zeros [of "4 * k" 4 n] entry_at [of k "zeros n"] by simp

lemma entry_put:
  assumes "k < length d div 4"
  obtains d' where "put_bytes d (4 * k) (be32_put v) = Some d'" "length d' = length d"
    "\<And>j. j < length d div 4 \<Longrightarrow> entry d' j = (if j = k then v mod 4294967296 else entry d j)"
proof -
  have "4 * k + length (be32_put v) \<le> length d" using assms by simp
  then obtain d' where p: "put_bytes d (4 * k) (be32_put v) = Some d'" by (simp add: put_bytes_in)
  have l: "length d' = length d" using length_put p .
  have "entry d' j = (if j = k then v mod 4294967296 else entry d j)" if j: "j < length d div 4" for j
  proof (cases "j = k")
    case True
    then show ?thesis using be_at_put_same [OF p] entry_at [of k d'] assms l by (simp add: be32_roundtrip)
  next
    case False
    then have "4 * j + 4 \<le> 4 * k \<or> 4 * k + length (be32_put v) \<le> 4 * j" by (cases "j < k") simp_all
    then have "be_at d' (4 * j) 4 = be_at d (4 * j) 4" using be_at_put_other [OF p] by blast
    then show ?thesis using entry_at [of j d'] entry_at [of j d] j l False by simp
  qed
  with p l that show ?thesis by blast
qed

text \<open>The indirect block while it is mapped: \<open>d\<close> are its bytes and \<open>i0\<close> is its address.\<close>

definition i0_open :: "SerenaFS \<Rightarrow> Inode \<Rightarrow> SerenaFS \<Rightarrow> nat \<Rightarrow> u8 list \<Rightarrow> bool" where
  "i0_open fs f fs1 i0 d \<longleftrightarrow> fs_ok fs1 \<and> fs_geom fs fs1 \<and> fs_used fs \<subseteq> fs_used fs1 \<and> i0 \<in> fs_used fs1 \<and> i0 \<noteq> 0
   \<and> c_data (fs_cont fs1) = c_data (fs_cont fs) \<and> c_locked (fs_cont fs1) = {i0} \<and> length d = fs_blockSize fs
   \<and> (if i_indirect f = 0 then i0 \<notin> fs_used fs else i0 = i_indirect f \<and> d = c_data (fs_cont fs) i0)
   \<and> (\<forall>k < fs_indirectBlockEntryCount fs. entry d k = fptr fs f (kSFSDirectBlockPointersCount + k))"

lemma map_i0:
  assumes ok: "fs_ok fs" and fok: "file_ok fs f" and l: "c_locked (fs_cont fs) = {}"
  obtains (err) e blk fs1 where "map_disk_block fs (i_indirect f) kMapBlock_Update = Some (e, blk, None, fs1)" "e \<noteq> EOK"
      "ext fs f b fs1 f" "c_data (fs_cont fs1) = c_data (fs_cont fs)" "c_locked (fs_cont fs1) = {}"
      "c_faults (fs_cont fs) = [] \<Longrightarrow> e = ENOSPC \<and> i_indirect f = 0 \<and> {1..<a_volumeBlockCount (fs_alloc fs)} \<subseteq> fs_used fs1"
  | (i0) i0 d blk slot fs1 where "map_disk_block fs (i_indirect f) kMapBlock_Update = Some (EOK, blk, slot, fs1)"
      "f_b blk = \<lparr>b_token = Some i0, b_data = d\<rparr>" "assigned (i_indirect f) slot = i0" "i0_open fs f fs1 i0 d"
proof -
  have u: "i_indirect f \<noteq> 0 \<longrightarrow> i_indirect f \<in> fs_used fs \<and> i_indirect f \<notin> c_locked (fs_cont fs)"
    using file_okD(6) [OF fok] l by simp
  note E = fs_okD(9) [OF ok]
  from ok u show ?thesis
  proof (cases rule: map_disk_block_cases [where mode = kMapBlock_Update])
    case (err e fs')
    show ?thesis
      by (rule that(1) [OF err(1,2)]) (use err ext_same [OF ok fok err(3-6)] l in auto)
  next
    case (hit fs')
    show ?thesis
      by (rule that(2) [OF hit(2)])
        (use hit u l cont_okD(1) [OF fs_okD(3) [OF ok]] fs_okD(4) [OF ok] in
          \<open>auto simp: assigned_def i0_open_def mapped_bytes_def fptr_indirect\<close>)
  next
    case zero
    then show ?thesis by simp
  next
    case (new k fs')
    show ?thesis
      by (rule that(2) [OF new(3)])
        (use new l E in \<open>auto simp: assigned_def i0_open_def fptr_indirect entry_zeros\<close>)
  qed
qed

text \<open>Unmapping the indirect block after its pointer \<open>k\<close> has become \<open>v\<close>.\<close>

lemma close_i0:
  assumes ok: "fs_ok fs" and op: "i0_open fs f fs1 i0 d" and k: "k < fs_indirectBlockEntryCount fs"
    and fs2: "fs_ok fs2" "fs_geom fs fs2" "c_data (fs_cont fs2) = c_data (fs_cont fs)" "i0 \<in> c_locked (fs_cont fs2)"
    and d': "length d' = fs_blockSize fs" "\<And>j. j < fs_indirectBlockEntryCount fs \<Longrightarrow> entry d' j = (if j = k then v else entry d j)"
    and st: "steady (fs_cont fs2) i0 mode d'"
  obtains c where "FSContainer_UnmapBlock (fs_cont fs2) \<lparr>b_token = Some i0, b_data = d'\<rparr> mode = Some (EOK, c)"
    "fs_ok (fs2\<lparr>fs_cont := c\<rparr>)" "fs_geom fs (fs2\<lparr>fs_cont := c\<rparr>)" "c_locked c = c_locked (fs_cont fs2) - {i0}"
    "\<And>l. l \<noteq> i0 \<Longrightarrow> c_data c l = c_data (fs_cont fs) l"
    "\<And>b. b < n_blocks fs \<Longrightarrow> fptr (fs2\<lparr>fs_cont := c\<rparr>) (f\<lparr>i_indirect := i0\<rparr>) b =
       (if b = kSFSDirectBlockPointersCount + k then v else fptr fs f b)"
proof -
  note D = fs_okD [OF fs2(1)]
  let ?c = "unmapped (fs_cont fs2) i0 mode d'"
  let ?fs = "fs2\<lparr>fs_cont := ?c\<rparr>"
  have sz: "c_blockSize (fs_cont fs2) = fs_blockSize fs" using D(4) fs_geomD(2) [OF fs2(2)] by simp
  note cd = unmapped_steady [OF D(3) st]
  show ?thesis
  proof (rule that)
    show "FSContainer_UnmapBlock (fs_cont fs2) \<lparr>b_token = Some i0, b_data = d'\<rparr> mode = Some (EOK, ?c)"
      using unmap_steady [OF fs2(4) st] .
    have g2: "fs_geom fs2 ?fs" by (simp add: fs_geom_def)
    then show "fs_geom fs ?fs" using fs_geom_trans fs2(2) by blast
    show "fs_ok ?fs"
      by (rule fs_ok_step [OF fs2(1) g2])
        (use D cd(2) d'(1) sz in \<open>auto simp: fs_used_def\<close>)
    show "c_locked ?c = c_locked (fs_cont fs2) - {i0}" by simp
    show "c_data ?c l = c_data (fs_cont fs) l" if "l \<noteq> i0" for l using that fs2(3) cd(1) by simp
    have i0: "i0 \<noteq> 0" using op by (simp add: i0_open_def)
    show "fptr ?fs (f\<lparr>i_indirect := i0\<rparr>) b = (if b = kSFSDirectBlockPointersCount + k then v else fptr fs f b)"
      if b: "b < n_blocks fs" for b
    proof (cases "b < kSFSDirectBlockPointersCount")
      case False
      then obtain j where j: "b = kSFSDirectBlockPointersCount + j" by (metis le_iff_add not_less)
      then have jn: "j < fs_indirectBlockEntryCount fs" using b by (simp add: n_blocks_def)
      then have "fptr ?fs (f\<lparr>i_indirect := i0\<rparr>) b = entry d' j" using i0 j cd(1) by (simp add: fptr_indirect)
      also have "\<dots> = (if j = k then v else fptr fs f b)" using d'(2) [OF jn] op j jn by (simp add: i0_open_def)
      finally show ?thesis using j by simp
    qed (simp add: fptr_direct)
  qed
qed

lemma ext_i0:
  assumes ok: "fs_ok fs" and fok: "file_ok fs f" and op: "i0_open fs f fs1 i0 d" and b: "b < n_blocks fs"
    and fs': "fs_ok fs'" "fs_geom fs fs'" "fs_used fs1 \<subseteq> fs_used fs'"
    and data: "\<And>l. l \<noteq> i0 \<Longrightarrow> c_data (fs_cont fs') l = c_data (fs_cont fs) l"
    and ptr: "\<And>b'. b' < n_blocks fs \<Longrightarrow> fptr fs' (f\<lparr>i_indirect := i0\<rparr>) b' = (if b' = b then v else fptr fs f b')"
    and v: "v = fptr fs f b \<or> v \<notin> fs_used fs1 \<and> v \<in> fs_used fs'"
  shows "ext fs f b fs' (f\<lparr>i_indirect := i0\<rparr>)"
proof -
  have u: "fs_used fs \<subseteq> fs_used fs1" "i0 \<in> fs_used fs1" "if i_indirect f = 0 then i0 \<notin> fs_used fs else i0 = i_indirect f" "i0 \<noteq> 0"
    using op by (simp_all add: i0_open_def split: if_splits)
  have vi: "v \<noteq> i0" if "v \<noteq> 0"
    using v u file_okD(2,3) [OF fok b] that by (auto split: if_splits)
  have P5: "c_data (fs_cont fs') l = c_data (fs_cont fs) l"
    if "l \<in> fs_used fs" "i_indirect f \<noteq> 0 \<Longrightarrow> l \<noteq> i_indirect f" for l
    by (rule data) (use that u in \<open>auto split: if_splits\<close>)
  show ?thesis
    by (rule extI [OF ok fok fs'(1,2)])
      (use u v vi b ptr P5 fs'(3) file_okD(1) [OF fok] in \<open>auto simp: same_meta_def split: if_splits\<close>)
qed

lemma finish_i0:
  assumes ok: "fs_ok fs" and fok: "file_ok fs f" and op: "i0_open fs f fs1 i0 d" and k: "k < fs_indirectBlockEntryCount fs"
    and b: "b = kSFSDirectBlockPointersCount + k"
    and fs2: "fs_ok fs2" "fs_geom fs1 fs2" "c_data (fs_cont fs2) = c_data (fs_cont fs1)" "i0 \<in> c_locked (fs_cont fs2)"
      "fs_used fs1 \<subseteq> fs_used fs2"
    and d': "length d' = fs_blockSize fs" "\<And>j. j < fs_indirectBlockEntryCount fs \<Longrightarrow> entry d' j = (if j = k then v else entry d j)"
    and v: "v = fptr fs f b \<or> v \<notin> fs_used fs1 \<and> v \<in> fs_used fs2"
    and st: "steady (fs_cont fs2) i0 mode d'"
  obtains c where "FSContainer_UnmapBlock (fs_cont fs2) \<lparr>b_token = Some i0, b_data = d'\<rparr> mode = Some (EOK, c)"
    "ext fs f b (fs2\<lparr>fs_cont := c\<rparr>) (f\<lparr>i_indirect := i0\<rparr>)" "c_locked c = c_locked (fs_cont fs2) - {i0}"
    "fptr (fs2\<lparr>fs_cont := c\<rparr>) (f\<lparr>i_indirect := i0\<rparr>) b = v"
    "fptr fs f b \<noteq> 0 \<Longrightarrow> c_data c (fptr fs f b) = c_data (fs_cont fs) (fptr fs f b)"
proof -
  have op': "fs_geom fs fs1" "c_data (fs_cont fs1) = c_data (fs_cont fs)" using op by (simp_all add: i0_open_def)
  have g: "fs_geom fs fs2" using fs_geom_trans op'(1) fs2(2) .
  have bn: "b < n_blocks fs" using b k by (simp add: n_blocks_def)
  have c0: "c_data (fs_cont fs2) = c_data (fs_cont fs)" using fs2(3) op'(2) by simp
  from close_i0 [OF ok op k fs2(1) g c0 fs2(4) d' st] obtain c where
    c: "FSContainer_UnmapBlock (fs_cont fs2) \<lparr>b_token = Some i0, b_data = d'\<rparr> mode = Some (EOK, c)"
    and okc: "fs_ok (fs2\<lparr>fs_cont := c\<rparr>)" and gc: "fs_geom fs (fs2\<lparr>fs_cont := c\<rparr>)"
    and lc: "c_locked c = c_locked (fs_cont fs2) - {i0}"
    and dc: "\<And>l. l \<noteq> i0 \<Longrightarrow> c_data c l = c_data (fs_cont fs) l"
    and pc: "\<And>b'. b' < n_blocks fs \<Longrightarrow> fptr (fs2\<lparr>fs_cont := c\<rparr>) (f\<lparr>i_indirect := i0\<rparr>) b' =
       (if b' = kSFSDirectBlockPointersCount + k then v else fptr fs f b')" by blast
  have x: "ext fs f b (fs2\<lparr>fs_cont := c\<rparr>) (f\<lparr>i_indirect := i0\<rparr>)"
    by (rule ext_i0 [OF ok fok op bn okc gc]) (use fs2(5) dc pc v b in \<open>auto simp: fs_used_def\<close>)
  have "fptr fs f b \<noteq> i0" if "fptr fs f b \<noteq> 0"
    using op file_okD(2,3) [OF fok bn] that by (auto simp: i0_open_def split: if_splits)
  with c x lc dc pc [OF bn] b that show ?thesis by simp
qed

lemma MapBlock_indirect_eq:
  assumes "map_disk_block fs (i_indirect f) kMapBlock_Update = Some (EOK, blk0, slot0, fs1)"
    "f_b blk0 = \<lparr>b_token = Some i0, b_data = d\<rparr>" "assigned (i_indirect f) slot0 = i0"
    "b = kSFSDirectBlockPointersCount + k" "k < fs_indirectBlockEntryCount fs" "be_at d (4 * k) 4 = Some q"
    "map_disk_block fs1 q mode = Some (e1, blk, slot1, fs2)"
    "slot1 = None \<and> d' = d \<or> (\<exists>v. slot1 = Some v \<and> put_bytes d (4 * k) (be32_put v) = Some d')"
    "FSContainer_UnmapBlock (fs_cont fs2) \<lparr>b_token = Some i0, b_data = d'\<rparr>
       (if f_wasAlloced blk then kWriteBlock_Deferred else kWriteBlock_None) = Some (EOK, c)"
  shows "SfsFile_MapBlock fs f b mode = Some (e1, blk, f\<lparr>i_indirect := i0\<rparr>, fs2\<lparr>fs_cont := c\<rparr>)"
  using assms(8)
proof (elim disjE exE conjE)
  assume "slot1 = None" "d' = d"
  with assms(1-7,9) show ?thesis by (simp add: SfsFile_MapBlock_def Let_def)
next
  fix v assume "slot1 = Some v" "put_bytes d (4 * k) (be32_put v) = Some d'"
  with assms(1-7,9) show ?thesis by (simp add: SfsFile_MapBlock_def Let_def)
qed

lemma MapBlock_indirect:
  assumes ok: "fs_ok fs" and fok: "file_ok fs f" and l: "c_locked (fs_cont fs) = {}"
    and b: "kSFSDirectBlockPointersCount \<le> b" "b < n_blocks fs" and calm: "c_evicts (fs_cont fs) = [] \<or> i_indirect f \<noteq> 0"
  shows "\<exists>e blk f' fs'. SfsFile_MapBlock fs f b mode = Some (e, blk, f', fs') \<and> map_result fs f b mode e blk fs' f'"
proof -
  obtain k where k: "b = kSFSDirectBlockPointersCount + k" using b(1) le_iff_add by blast
  then have kn: "k < fs_indirectBlockEntryCount fs" using b(2) by (simp add: n_blocks_def)
  note E = fs_okD(9) [OF ok]
  from ok fok l show ?thesis
  proof (cases rule: map_i0 [where b = b])
    case (err e blk fs1)
    have "map_fails fs f b mode e fs1 f"
      unfolding map_fails_def using err fptr_cong [OF refl refl err(4)] b(1) by simp
    then show ?thesis using err(1,2) k kn by (auto simp: SfsFile_MapBlock_def assigned_def map_result_def Let_def)
  next
    case (i0 i0 d blk0 slot0 fs1)
    define q where "q = fptr fs f b"
    have op: "fs_ok fs1" "fs_geom fs fs1" "fs_used fs \<subseteq> fs_used fs1" "c_data (fs_cont fs1) = c_data (fs_cont fs)"
      "c_locked (fs_cont fs1) = {i0}" "length d = fs_blockSize fs" "entry d k = q" "i0 \<in> fs_used fs1"
      using i0(4) kn k by (simp_all add: i0_open_def q_def)
    have st: "steady (fs_cont fs2) i0 kWriteBlock_None d"
      if "fs_geom fs1 fs2" "c_data (fs_cont fs2) = c_data (fs_cont fs1)" for fs2
    proof -
      have "c_evicts (fs_cont fs2) = []" if "c_evicts (fs_cont fs) = []"
        using that fs_geomD(5) [OF op(2)] fs_geomD(5) [OF \<open>fs_geom fs1 fs2\<close>] by simp
      then show ?thesis using calm i0(4) that(2) op(4) by (auto simp: steady_def i0_open_def)
    qed
    have at: "be_at d (4 * k) 4 = Some q" using entry_at [of k d] kn E op(6,7) by simp
    have qu: "q \<noteq> 0 \<longrightarrow> q \<in> fs_used fs1 \<and> q \<notin> c_locked (fs_cont fs1)"
      using file_okD(2,3) [OF fok b(2)] i0(4) op(3,5) by (auto simp: i0_open_def q_def split: if_splits)
    have dd: "entry d j = (if j = k then q else entry d j)" for j using op(7) by simp
    have qv: "q = fptr fs f b \<or> X" for X by (simp add: q_def)
    note eq = MapBlock_indirect_eq [OF i0(1-3) k kn at]
    note fin = finish_i0 [OF ok fok i0(4) kn k]
    from op(1) qu show ?thesis
    proof (cases rule: map_disk_block_cases [where mode = mode])
      case (err e fs2)
      have lk: "i0 \<in> c_locked (fs_cont fs2)" using err(7) op(5) by simp
      from fin [OF err(3,4,6) lk equalityD2 [OF err(5)] op(6) dd qv st [OF err(4,6)]] obtain c where
        c: "FSContainer_UnmapBlock (fs_cont fs2) \<lparr>b_token = Some i0, b_data = d\<rparr> kWriteBlock_None = Some (EOK, c)"
        "ext fs f b (fs2\<lparr>fs_cont := c\<rparr>) (f\<lparr>i_indirect := i0\<rparr>)" "c_locked c = c_locked (fs_cont fs2) - {i0}"
        "fptr (fs2\<lparr>fs_cont := c\<rparr>) (f\<lparr>i_indirect := i0\<rparr>) b = q"
        "q \<noteq> 0 \<Longrightarrow> c_data c q = c_data (fs_cont fs) q" unfolding q_def by blast
      have "a_volumeBlockCount (fs_alloc fs1) = a_volumeBlockCount (fs_alloc fs)"
        using op(2) by (simp add: fs_geom_def same_geom_def)
      then have "c_faults (fs_cont fs) = [] \<Longrightarrow> e = ENOSPC \<and> mode \<noteq> kMapBlock_ReadOnly \<and>
          {1..<a_volumeBlockCount (fs_alloc fs)} \<subseteq> fs_used (fs2\<lparr>fs_cont := c\<rparr>)"
        using err(5,8) fs_geomD(4) [OF op(2)] by (simp add: fs_used_def)
      then have "map_fails fs f b mode e (fs2\<lparr>fs_cont := c\<rparr>) (f\<lparr>i_indirect := i0\<rparr>)"
        unfolding map_fails_def using c(2-5) err(2,7) op(5) by (simp add: q_def)
      then show ?thesis using eq [OF err(1), of d c] c(1) by (auto simp: map_result_def)
    next
      case (hit fs2)
      have lk: "i0 \<in> c_locked (fs_cont fs2)" using hit(7) op(5) by simp
      from fin [OF hit(3,4,6) lk equalityD2 [OF hit(5)] op(6) dd qv st [OF hit(4,6)]] obtain c where
        c: "FSContainer_UnmapBlock (fs_cont fs2) \<lparr>b_token = Some i0, b_data = d\<rparr> kWriteBlock_None = Some (EOK, c)"
        "ext fs f b (fs2\<lparr>fs_cont := c\<rparr>) (f\<lparr>i_indirect := i0\<rparr>)" "c_locked c = c_locked (fs_cont fs2) - {i0}"
        "fptr (fs2\<lparr>fs_cont := c\<rparr>) (f\<lparr>i_indirect := i0\<rparr>) b = q"
        "q \<noteq> 0 \<Longrightarrow> c_data c q = c_data (fs_cont fs) q" unfolding q_def by blast
      have mb: "mapped_bytes (fs_cont fs1) q mode = mapped_bytes (fs_cont fs) q mode"
        using op(2,4) by (cases mode) (simp_all add: mapped_bytes_def fs_geom_def cont_geom_def)
      have lc: "c_locked c = {q}" using c(3) hit(7) op(5) qu hit(1) by auto
      have "map_page fs f b mode \<lparr>f_b = \<lparr>b_token = Some q, b_data = mapped_bytes (fs_cont fs1) q mode\<rparr>, f_lba = q,
          f_wasAlloced = False, f_isZeroFill = False\<rparr> (fs2\<lparr>fs_cont := c\<rparr>) (f\<lparr>i_indirect := i0\<rparr>)"
        unfolding map_page_def using c(2,4,5) lc mb hit(1) by (simp add: q_def)
      then show ?thesis using eq [OF hit(2), of d c] c(1) by (auto simp: map_result_def)
    next
      case zero
      have lk: "i0 \<in> c_locked (fs_cont fs1)" using op(5) by simp
      from fin [OF op(1) fs_geom_refl refl lk order_refl op(6) dd qv st [OF fs_geom_refl refl]] obtain c where
        c: "FSContainer_UnmapBlock (fs_cont fs1) \<lparr>b_token = Some i0, b_data = d\<rparr> kWriteBlock_None = Some (EOK, c)"
        "ext fs f b (fs1\<lparr>fs_cont := c\<rparr>) (f\<lparr>i_indirect := i0\<rparr>)" "c_locked c = c_locked (fs_cont fs1) - {i0}"
        "fptr (fs1\<lparr>fs_cont := c\<rparr>) (f\<lparr>i_indirect := i0\<rparr>) b = q" by blast
      have "map_zero fs f b mode \<lparr>f_b = \<lparr>b_token = None, b_data = zeros (fs_blockSize fs1)\<rparr>, f_lba = 0,
          f_wasAlloced = False, f_isZeroFill = True\<rparr> (fs1\<lparr>fs_cont := c\<rparr>) (f\<lparr>i_indirect := i0\<rparr>)"
        unfolding map_zero_def using c(2-4) zero(1,2) op(5) fs_geomD(2) [OF op(2)] by (simp add: q_def)
      then show ?thesis using eq [OF zero(3), of d c] c(1) by (auto simp: map_result_def)
    next
      case (new p fs2)
      have "k < length d div 4" using kn E op(6) by simp
      from entry_put [OF this, of p] obtain d' where d': "put_bytes d (4 * k) (be32_put p) = Some d'" "length d' = length d"
        "\<And>j. j < length d div 4 \<Longrightarrow> entry d' j = (if j = k then p mod 4294967296 else entry d j)" by blast
      have ld: "length d' = fs_blockSize fs" using d'(2) op(6) by simp
      have ed: "entry d' j = (if j = k then p else entry d j)" if "j < fs_indirectBlockEntryCount fs" for j
        using d'(3) that E op(6) new(6) by simp
      have lk: "i0 \<in> c_locked (fs_cont fs2)" using new(11) op(5) by simp
      have us: "fs_used fs1 \<subseteq> fs_used fs2" "p \<in> fs_used fs2" using new(7) by auto
      have pv: "p = fptr fs f b \<or> p \<notin> fs_used fs1 \<and> p \<in> fs_used fs2" using new(5) us(2) by simp
      from fin [OF new(8,9,10) lk us(1) ld ed pv steady_deferred] obtain c where
        c: "FSContainer_UnmapBlock (fs_cont fs2) \<lparr>b_token = Some i0, b_data = d'\<rparr> kWriteBlock_Deferred = Some (EOK, c)"
        "ext fs f b (fs2\<lparr>fs_cont := c\<rparr>) (f\<lparr>i_indirect := i0\<rparr>)" "c_locked c = c_locked (fs_cont fs2) - {i0}"
        "fptr (fs2\<lparr>fs_cont := c\<rparr>) (f\<lparr>i_indirect := i0\<rparr>) b = p" by blast
      have "p \<noteq> i0" using new(5) op(8) by auto
      then have lc: "c_locked c = {p}" using c(3) new(11) op(5) by auto
      have "p \<notin> fs_used fs" using new(5) op(3) by auto
      then have "map_page fs f b mode \<lparr>f_b = \<lparr>b_token = Some p, b_data = zeros (fs_blockSize fs1)\<rparr>, f_lba = p,
          f_wasAlloced = True, f_isZeroFill = False\<rparr> (fs2\<lparr>fs_cont := c\<rparr>) (f\<lparr>i_indirect := i0\<rparr>)"
        unfolding map_page_def using c(2,4) lc new(1,2,4) fs_geomD(2) [OF op(2)] by (simp add: q_def)
      then show ?thesis using eq [OF new(3), of d' c] c(1) d'(1) by (auto simp: map_result_def)
    qed
  qed
qed

text \<open>
  \<open>SfsFile_MapBlock\<close> unmaps a new indirect block without a write if the data block is not new as well. The cache may then give the block up,
  and the file points to a block with old content. This does not happen if the cache keeps clean blocks or the file has an indirect block already
  (\<open>calm\<close>), and it does not happen to direct blocks.
\<close>

definition calm :: "SerenaFS \<Rightarrow> Inode \<Rightarrow> bool" where
  "calm fs f \<longleftrightarrow> c_evicts (fs_cont fs) = [] \<or> i_indirect f \<noteq> 0"

lemma calm_frame: "calm fs f \<Longrightarrow> frame fs f fs' f' \<Longrightarrow> calm fs' f'"
  using fs_geomD(5) unfolding calm_def frame_def by blast

lemma MapBlock_spec:
  assumes "fs_ok fs" "file_ok fs f" "c_locked (fs_cont fs) = {}" "b < n_blocks fs" "calm fs f \<or> b < kSFSDirectBlockPointersCount"
  obtains e blk f' fs' where "SfsFile_MapBlock fs f b mode = Some (e, blk, f', fs')" "map_result fs f b mode e blk fs' f'"
  using MapBlock_direct [OF assms(1-3)] MapBlock_indirect [OF assms(1-3) _ assms(4)] assms(5)
  unfolding calm_def by (metis not_less)

lemma MapBlock_too_big: "n_blocks fs \<le> b \<Longrightarrow>
  SfsFile_MapBlock fs f b mode =
    Some (EFBIG, \<lparr>f_b = no_block, f_lba = 0, f_wasAlloced = False, f_isZeroFill = False\<rparr>, f, fs)"
proof -
  assume "n_blocks fs \<le> b"
  then have "\<not> b < kSFSDirectBlockPointersCount" "\<not> b - kSFSDirectBlockPointersCount < fs_indirectBlockEntryCount fs"
    by (auto simp: n_blocks_def)
  then show ?thesis unfolding SfsFile_MapBlock_def Let_def by (simp only: if_False)
qed

end
