(* ===== verification/SfsFileRW.thy ===== *)
theory SfsFileRW
  imports SfsFileInv
begin

section \<open>Reading and writing files\<close>

text \<open>
  The bytes of a file as a function of the offset, and what the loops of \<open>SfsRegularFile_read\<close> and
  \<open>SfsRegularFile_write\<close> do to them, whatever errors the container reports on the way.
\<close>

definition fbyte :: "SerenaFS \<Rightarrow> Inode \<Rightarrow> nat \<Rightarrow> u8" where
  "fbyte fs f k = fblock fs f (k div fs_blockSize fs) ! (k mod fs_blockSize fs)"

definition fbytes :: "SerenaFS \<Rightarrow> Inode \<Rightarrow> nat \<Rightarrow> nat \<Rightarrow> u8 list" where
  "fbytes fs f off n = map (fbyte fs f) [off..<off + n]"

definition capacity :: "SerenaFS \<Rightarrow> nat" where
  "capacity fs = n_blocks fs * fs_blockSize fs"

text \<open>A valid state between two operations: no block is mapped.\<close>

definition idle :: "SerenaFS \<Rightarrow> Inode \<Rightarrow> bool" where
  "idle fs f \<longleftrightarrow> fs_ok fs \<and> file_ok fs f \<and> c_locked (fs_cont fs) = {}"

lemma idleD: "idle fs f \<Longrightarrow> fs_ok fs" "idle fs f \<Longrightarrow> file_ok fs f" "idle fs f \<Longrightarrow> c_locked (fs_cont fs) = {}"
  by (simp_all add: idle_def)

lemma length_fblock: "fs_ok fs \<Longrightarrow> length (fblock fs f b) = fs_blockSize fs"
  using fs_okD(3,4) [of fs] by (simp add: fblock_def cont_okD)

lemma frameD: "frame fs f fs' f' \<Longrightarrow> fs_geom fs fs'" "frame fs f fs' f' \<Longrightarrow> same_meta f f'"
  by (simp_all add: frame_def)

lemma ext_fblock:
  assumes "ext fs f b fs' f'" "b' < n_blocks fs" "b' \<noteq> b"
  shows "fblock fs' f' b' = fblock fs f b'"
  using extD [OF assms(1)] assms(2,3) by (simp add: fblock_def fs_geomD)

lemma map_fails_idle:
  assumes "map_fails fs f b mode e fs' f'"
  shows "idle fs' f'" "frame fs f fs' f'" "b' < n_blocks fs \<Longrightarrow> fblock fs' f' b' = fblock fs f b'"
    "b' < n_blocks fs \<Longrightarrow> fptr fs' f' b' = fptr fs f b'"
proof -
  have x: "ext fs f b fs' f'" and l: "c_locked (fs_cont fs') = {}" and p: "fptr fs' f' b = fptr fs f b"
    "fptr fs f b \<noteq> 0 \<Longrightarrow> c_data (fs_cont fs') (fptr fs f b) = c_data (fs_cont fs) (fptr fs f b)"
    using assms by (simp_all add: map_fails_def)
  show "idle fs' f'" "frame fs f fs' f'" using extD [OF x] l by (simp_all add: idle_def)
  have "fblock fs' f' b = fblock fs f b" using p fs_geomD(2) [OF extD(4) [OF x]] by (auto simp: fblock_def)
  then show "b' < n_blocks fs \<Longrightarrow> fblock fs' f' b' = fblock fs f b'" using ext_fblock [OF x] by (cases "b' = b") auto
  show "b' < n_blocks fs \<Longrightarrow> fptr fs' f' b' = fptr fs f b'" using extD(5) [OF x] p by (cases "b' = b") auto
qed

lemma map_zero_idle:
  assumes "map_zero fs f b mode blk fs' f'"
  shows "idle fs' f'" "frame fs f fs' f'" "b' < n_blocks fs \<Longrightarrow> fblock fs' f' b' = fblock fs f b'"
    "b' < n_blocks fs \<Longrightarrow> fptr fs' f' b' = fptr fs f b'" "b_data (f_b blk) = fblock fs f b"
    "SfsFile_UnmapBlock fs' blk kWriteBlock_None = Some (EOK, fs')"
proof -
  have x: "ext fs f b fs' f'" and l: "c_locked (fs_cont fs') = {}" and p: "fptr fs' f' b = 0" "fptr fs f b = 0"
    using assms by (simp_all add: map_zero_def)
  show "idle fs' f'" "frame fs f fs' f'" using extD [OF x] l by (simp_all add: idle_def)
  have "fblock fs' f' b = fblock fs f b" using p fs_geomD(2) [OF extD(4) [OF x]] by (simp add: fblock_def)
  then show "b' < n_blocks fs \<Longrightarrow> fblock fs' f' b' = fblock fs f b'" using ext_fblock [OF x] by (cases "b' = b") auto
  show "b' < n_blocks fs \<Longrightarrow> fptr fs' f' b' = fptr fs f b'" using extD(5) [OF x] p by (cases "b' = b") auto
  show "b_data (f_b blk) = fblock fs f b" using assms p by (simp add: map_zero_def fblock_def)
  show "SfsFile_UnmapBlock fs' blk kWriteBlock_None = Some (EOK, fs')" using assms by (simp add: map_zero_def SfsFile_UnmapBlock_def)
qed

lemma file_ok_cong:
  assumes "file_ok fs f" "\<And>b. fptr fs' f b = fptr fs f b" "fs_used fs' = fs_used fs" "fs_geom fs fs'"
  shows "file_ok fs' f"
proof -
  have "fptr fs' f = fptr fs f" using assms(2) by blast
  then show ?thesis using assms(1) by (simp add: file_ok_def assms(3) fs_geomD(1,3) [OF assms(4)])
qed

text \<open>Unmapping the page of block \<open>b\<close> after its bytes have become \<open>d\<close>.\<close>

lemma unmap_page:
  assumes pg: "map_page fs f b mode blk fs' f'" and b: "b < n_blocks fs" and d: "length d = fs_blockSize fs"
    and st: "steady (fs_cont fs') (fptr fs' f' b) m d"
  obtains fs'' where "SfsFile_UnmapBlock fs' (blk\<lparr>f_b := (f_b blk)\<lparr>b_data := d\<rparr>\<rparr>) m = Some (EOK, fs'')"
    "idle fs'' f'" "frame fs f fs'' f'" "\<And>b'. b' < n_blocks fs \<Longrightarrow> fblock fs'' f' b' = (if b' = b then d else fblock fs f b')"
    "\<And>b'. b' < n_blocks fs \<Longrightarrow> fptr fs'' f' b' = (if b' = b then fptr fs' f' b else fptr fs f b')"
proof -
  define p where "p = fptr fs' f' b"
  have x: "ext fs f b fs' f'" and p0: "p \<noteq> 0" and tok: "b_token (f_b blk) = Some p" and nz: "\<not> f_isZeroFill blk"
    and l: "c_locked (fs_cont fs') = {p}"
    using pg by (simp_all add: map_page_def p_def)
  note X = extD [OF x]
  have n: "n_blocks fs' = n_blocks fs" and bs: "fs_blockSize fs' = fs_blockSize fs" using fs_geomD X(4) by auto
  have pi: "p \<noteq> i_indirect f'" using file_okD(3) [OF X(2), of b] b n p0 by (simp add: p_def)
  let ?c = "unmapped (fs_cont fs') p m d"
  let ?fs = "fs'\<lparr>fs_cont := ?c\<rparr>"
  have stp: "steady (fs_cont fs') p m d" using st by (simp add: p_def)
  note cd = unmapped_steady [OF fs_okD(3) [OF X(1)] stp]
  have ptr: "fptr ?fs f' b' = fptr fs' f' b'" for b' using pi cd(1) by (simp add: fptr_def)
  have g: "fs_geom fs' ?fs" by (simp add: fs_geom_def)
  have u: "fs_used ?fs = fs_used fs'" by (simp add: fs_used_def)
  have sz: "c_blockSize (fs_cont fs') = fs_blockSize fs" using fs_okD(4) [OF X(1)] bs by simp
  have ok: "fs_ok ?fs"
    by (rule fs_ok_step [OF X(1) g])
      (use fs_okD [OF X(1)] cd(2) d sz l in \<open>auto simp: fs_used_def\<close>)
  have fok: "file_ok ?fs f'" using file_ok_cong [OF X(2) ptr u g] .
  have "p \<in> own fs' f'" using b n p0 by (auto simp: own_def p_def)
  moreover have "own ?fs f' = own fs' f'" using ptr fs_geomD(1) [OF g] by (simp add: own_def)
  ultimately have "frame fs' f' ?fs f'" using g u cd(1) by (auto simp: frame_def)
  then have fr: "frame fs f ?fs f'" using frame_trans X(3) by blast
  show ?thesis
  proof (rule that)
    show "SfsFile_UnmapBlock fs' (blk\<lparr>f_b := (f_b blk)\<lparr>b_data := d\<rparr>\<rparr>) m = Some (EOK, ?fs)"
      using nz tok l steady_mode [OF stp] by (simp add: SfsFile_UnmapBlock_def FSContainer_UnmapBlock_def)
    show "idle ?fs f'" using ok fok l by (simp add: idle_def)
    show "frame fs f ?fs f'" by (rule fr)
    show "fptr ?fs f' b' = (if b' = b then fptr fs' f' b else fptr fs f b')" if "b' < n_blocks fs" for b'
      using ptr X(5) that by simp
    show "fblock ?fs f' b' = (if b' = b then d else fblock fs f b')" if b': "b' < n_blocks fs" for b'
    proof (cases "b' = b")
      case True
      then show ?thesis using ptr p0 cd(1) by (simp add: fblock_def p_def)
    next
      case False
      have "fptr fs' f' b' \<noteq> p" if "fptr fs' f' b' \<noteq> 0"
        using file_okD(12) [OF X(2), of b' b] b b' n that False by (auto simp: p_def)
      then have "fblock ?fs f' b' = fblock fs' f' b'" using ptr cd(1) by (simp add: fblock_def)
      then show ?thesis using ext_fblock [OF x b' False] False by simp
    qed
  qed
qed

subsection \<open>The loop of read\<close>

definition keeps :: "SerenaFS \<Rightarrow> Inode \<Rightarrow> SerenaFS \<Rightarrow> Inode \<Rightarrow> bool" where
  "keeps fs f fs' f' \<longleftrightarrow> idle fs' f' \<and> frame fs f fs' f'
   \<and> (\<forall>b < n_blocks fs. fblock fs' f' b = fblock fs f b \<and> fptr fs' f' b = fptr fs f b)"

lemma keepsD:
  assumes "keeps fs f fs' f'"
  shows "idle fs' f'" "frame fs f fs' f'" "fs_geom fs fs'" "fs_blockSize fs' = fs_blockSize fs" "n_blocks fs' = n_blocks fs"
    "b < n_blocks fs \<Longrightarrow> fblock fs' f' b = fblock fs f b" "b < n_blocks fs \<Longrightarrow> fptr fs' f' b = fptr fs f b"
  using assms fs_geomD(1,2) [of fs fs'] by (simp_all add: keeps_def frame_def)

lemma keeps_refl: "idle fs f \<Longrightarrow> keeps fs f fs f"
  by (simp add: keeps_def)

lemma keeps_trans: "keeps fs f fs1 f1 \<Longrightarrow> keeps fs1 f1 fs2 f2 \<Longrightarrow> keeps fs f fs2 f2"
proof -
  assume 1: "keeps fs f fs1 f1" and 2: "keeps fs1 f1 fs2 f2"
  have "frame fs f fs2 f2" using frame_trans keepsD(2) [OF 1] keepsD(2) [OF 2] .
  moreover have "fblock fs2 f2 b = fblock fs f b \<and> fptr fs2 f2 b = fptr fs f b" if "b < n_blocks fs" for b
    using keepsD(5) [OF 1] keepsD(6,7) [OF 1, of b] keepsD(6,7) [OF 2, of b] that by simp
  ultimately show ?thesis using keepsD(1) [OF 2] by (simp add: keeps_def)
qed

lemma read_map:
  assumes i: "idle fs f" and b: "b < n_blocks fs" and cb: "calm fs f \<or> b < kSFSDirectBlockPointersCount"
  obtains (err) e blk f' fs' where "SfsFile_MapBlock fs f b kMapBlock_ReadOnly = Some (e, blk, f', fs')" "e \<noteq> EOK"
      "keeps fs f fs' f'" "c_faults (fs_cont fs) = [] \<Longrightarrow> e = ENOSPC \<and> i_indirect f = 0 \<and> kSFSDirectBlockPointersCount \<le> b"
  | (got) blk f' fs' fs'' where "SfsFile_MapBlock fs f b kMapBlock_ReadOnly = Some (EOK, blk, f', fs')"
      "b_data (f_b blk) = fblock fs f b" "SfsFile_UnmapBlock fs' blk kWriteBlock_None = Some (EOK, fs'')" "keeps fs f fs'' f'"
      "fptr fs f b \<noteq> 0 \<Longrightarrow> f_lba blk = fptr fs f b"
proof -
  from MapBlock_spec [OF idleD [OF i] b cb, of kMapBlock_ReadOnly] obtain e blk f' fs' where
    m: "SfsFile_MapBlock fs f b kMapBlock_ReadOnly = Some (e, blk, f', fs')"
    and r: "map_result fs f b kMapBlock_ReadOnly e blk fs' f'" by blast
  consider "map_fails fs f b kMapBlock_ReadOnly e fs' f'" | "e = EOK" "map_zero fs f b kMapBlock_ReadOnly blk fs' f'"
    | "e = EOK" "map_page fs f b kMapBlock_ReadOnly blk fs' f'" using r by (auto simp: map_result_def)
  then show ?thesis
  proof cases
    case 1
    show ?thesis
      by (rule err [OF m]) (use 1 map_fails_idle [OF 1] in \<open>simp_all add: keeps_def map_fails_def\<close>)
  next
    case 2
    show ?thesis
      by (rule got [OF m [unfolded 2(1)] _ map_zero_idle(6) [OF 2(2)]]) (use map_zero_idle [OF 2(2)] 2(2) in \<open>simp_all add: keeps_def map_zero_def\<close>)
  next
    case 3
    have p0: "fptr fs f b \<noteq> 0" "fptr fs' f' b = fptr fs f b" using 3(2) by (auto simp: map_page_def split: if_splits)
    then have d: "b_data (f_b blk) = fblock fs f b" using 3(2) by (simp add: map_page_def fblock_def mapped_bytes_def)
    have len: "length (b_data (f_b blk)) = fs_blockSize fs" using d length_fblock idleD(1) [OF i] by simp
    have same: "blk\<lparr>f_b := (f_b blk)\<lparr>b_data := b_data (f_b blk)\<rparr>\<rparr> = blk" by simp
    have "c_data (fs_cont fs') (fptr fs' f' b) = b_data (f_b blk)" using 3(2) p0 by (simp add: map_page_def mapped_bytes_def)
    then have "steady (fs_cont fs') (fptr fs' f' b) kWriteBlock_None (b_data (f_b blk))" by (simp add: steady_def)
    from unmap_page [OF 3(2) b len this, unfolded same] obtain fs'' where
      u: "SfsFile_UnmapBlock fs' blk kWriteBlock_None = Some (EOK, fs'')" "idle fs'' f'" "frame fs f fs'' f'"
      "\<And>b'. b' < n_blocks fs \<Longrightarrow> fblock fs'' f' b' = (if b' = b then b_data (f_b blk) else fblock fs f b')"
      "\<And>b'. b' < n_blocks fs \<Longrightarrow> fptr fs'' f' b' = (if b' = b then fptr fs' f' b else fptr fs f b')"
      by blast
    show ?thesis
      by (rule got [OF m [unfolded 3(1)] d u(1)]) (use u d p0 3(2) in \<open>simp_all add: keeps_def map_page_def\<close>)
  qed
qed

lemma fbytes_block:
  assumes "fs_ok fs" "r + n \<le> fs_blockSize fs"
  shows "fbytes fs f (b * fs_blockSize fs + r) n = take n (drop r (fblock fs f b))"
proof (rule nth_equalityI)
  let ?B = "fs_blockSize fs"
  show "length (fbytes fs f (b * ?B + r) n) = length (take n (drop r (fblock fs f b)))"
    using assms length_fblock [OF assms(1), of f b] by (simp add: fbytes_def)
  fix i assume "i < length (fbytes fs f (b * ?B + r) n)"
  then have i: "i < n" by (simp add: fbytes_def)
  then have "r + i < ?B" using assms(2) by simp
  then have "(b * ?B + (r + i)) div ?B = b" "(b * ?B + (r + i)) mod ?B = r + i" by simp_all
  then have "fbyte fs f (b * ?B + r + i) = fblock fs f b ! (r + i)"
    by (simp add: fbyte_def add.assoc)
  then show "fbytes fs f (b * ?B + r) n ! i = take n (drop r (fblock fs f b)) ! i"
    using i assms length_fblock [OF assms(1), of f b] by (simp add: fbytes_def)
qed

lemma length_fbytes [simp]: "length (fbytes fs f k n) = n"
  by (simp add: fbytes_def)

lemma fbytes_Nil_iff [simp]: "fbytes fs f k n = [] \<longleftrightarrow> n = 0"
  by (auto simp: fbytes_def)

lemma fbytes_append: "fbytes fs f k (m + n) = fbytes fs f k m @ fbytes fs f (k + m) n"
  using upt_add_eq_append [of k "k + m" n] by (simp add: fbytes_def add.assoc)

lemma keeps_fbyte:
  assumes "keeps fs f fs' f'" "k < capacity fs"
  shows "fbyte fs' f' k = fbyte fs f k"
proof -
  have "k div fs_blockSize fs < n_blocks fs" using assms(2) by (simp add: capacity_def less_mult_imp_div_less)
  then show ?thesis using keepsD [OF assms(1)] by (simp add: fbyte_def)
qed

lemma keeps_fbytes:
  "keeps fs f fs' f' \<Longrightarrow> k + n \<le> capacity fs \<Longrightarrow> fbytes fs' f' k n = fbytes fs f k n"
  by (simp add: fbytes_def keeps_fbyte)

text \<open>
  A range of the file whose blocks beyond the direct ones exist: reading it allocates nothing.
\<close>

definition backed :: "SerenaFS \<Rightarrow> Inode \<Rightarrow> nat \<Rightarrow> nat \<Rightarrow> bool" where
  "backed fs f lo hi \<longleftrightarrow> (\<forall>b < n_blocks fs. lo < (b + 1) * fs_blockSize fs \<longrightarrow> b * fs_blockSize fs < hi \<longrightarrow>
     b < kSFSDirectBlockPointersCount \<or> fptr fs f b \<noteq> 0)"

lemma n_blocks_small: "fs_ok fs \<Longrightarrow> n_blocks fs < 65536"
proof -
  assume "fs_ok fs"
  then have "fs_indirectBlockEntryCount fs = fs_blockSize fs div 4" "fs_blockSize fs \<le> 65535" unfolding fs_ok_def by blast+
  then show ?thesis unfolding n_blocks_def by linarith
qed

lemma keeps_backed: "keeps fs f fs' f' \<Longrightarrow> backed fs f lo hi \<Longrightarrow> lo \<le> lo' \<Longrightarrow> backed fs' f' lo' hi"
  using keepsD(4,5,7) [of fs f fs' f'] by (auto simp: backed_def)

text \<open>A range of the file that can be read and written: the file is calm, or the range lies within the direct blocks.\<close>

definition reachable :: "SerenaFS \<Rightarrow> Inode \<Rightarrow> nat \<Rightarrow> nat \<Rightarrow> bool" where
  "reachable fs f base n \<longleftrightarrow> n = 0 \<or> calm fs f \<or> base + n \<le> kSFSDirectBlockPointersCount * fs_blockSize fs"

lemma reachable_first:
  assumes "reachable fs f (idx * fs_blockSize fs + bo) n" "n \<noteq> 0"
  shows "calm fs f \<or> idx < kSFSDirectBlockPointersCount"
proof (cases "calm fs f")
  case False
  then have "idx * fs_blockSize fs + bo + n \<le> kSFSDirectBlockPointersCount * fs_blockSize fs" using assms by (simp add: reachable_def)
  then have "idx * fs_blockSize fs < kSFSDirectBlockPointersCount * fs_blockSize fs" using assms(2) by linarith
  then show ?thesis by (metis mult_less_cancel2)
qed simp

lemma reachable_next:
  assumes "reachable fs f (idx * fs_blockSize fs + bo) n" "frame fs f fs' f'" "m \<le> n" "m \<noteq> n \<longrightarrow> bo + m = fs_blockSize fs"
  shows "reachable fs' f' ((idx + 1) * fs_blockSize fs') (n - m)"
proof (cases "m = n \<or> calm fs f")
  case True
  then show ?thesis using calm_frame [OF _ assms(2)] by (auto simp: reachable_def)
next
  case False
  have "fs_blockSize fs' = fs_blockSize fs" using fs_geomD(2) frameD(1) [OF assms(2)] by blast
  then show ?thesis using False assms(1,3,4) by (auto simp: reachable_def)
qed

definition read_post :: "SerenaFS \<Rightarrow> Inode \<Rightarrow> nat \<Rightarrow> nat \<Rightarrow> bool \<Rightarrow> errno \<Rightarrow> u8 list \<Rightarrow> SerenaFS \<Rightarrow> Inode \<Rightarrow> bool" where
  "read_post fs f base n some e out fs' f' \<longleftrightarrow> keeps fs f fs' f' \<and> length out \<le> n
   \<and> out = fbytes fs f base (length out) \<and> (out \<noteq> [] \<longrightarrow> base + length out \<le> capacity fs)
   \<and> (e = EOK \<longleftrightarrow> length out = n \<or> some \<or> out \<noteq> [])
   \<and> (c_faults (fs_cont fs) = [] \<and> base + n \<le> capacity fs \<and> backed fs f base (base + n) \<longrightarrow> length out = n)"

lemma block_range:
  assumes "fs_ok fs" "b < n_blocks fs" "r + n \<le> fs_blockSize fs"
  shows "b * fs_blockSize fs + r + n \<le> capacity fs"
proof -
  have "b * fs_blockSize fs + fs_blockSize fs \<le> n_blocks fs * fs_blockSize fs"
    using assms(2) mult_le_mono1 [of "Suc b" "n_blocks fs" "fs_blockSize fs"] by simp
  then show ?thesis using assms(3) by (simp add: capacity_def)
qed

lemma beyond_capacity:
  assumes "fs_ok fs" "n_blocks fs \<le> b"
  shows "capacity fs \<le> b * fs_blockSize fs + r"
  unfolding capacity_def using mult_le_mono1 [OF assms(2), of "fs_blockSize fs"] by (rule trans_le_add1)

lemma read_post_step:
  fixes fs :: SerenaFS
  defines "B \<equiv> fs_blockSize fs"
  assumes ok: "fs_ok fs" and idx: "idx < n_blocks fs" and m: "0 < m" "m \<le> n" "bo + m \<le> B" "m \<noteq> n \<longrightarrow> bo + m = B"
    and k: "keeps fs f fs2 f1" and post: "read_post fs2 f1 ((idx + 1) * B) (n - m) True e out fs' f'"
  shows "read_post fs f (idx * B + bo) n some e (fbytes fs f (idx * B + bo) m @ out) fs' f'"
proof -
  define base where "base = idx * B + bo"
  note K = keepsD [OF k]
  let ?bs = "fbytes fs f base m"
  have out: "out = fbytes fs2 f1 ((idx + 1) * B) (length out)" "length out \<le> n - m" "keeps fs2 f1 fs' f'"
    "e = EOK" "out \<noteq> [] \<longrightarrow> (idx + 1) * B + length out \<le> capacity fs2"
    "c_faults (fs_cont fs2) = [] \<and> (idx + 1) * B + (n - m) \<le> capacity fs2 \<and> backed fs2 f1 ((idx + 1) * B) ((idx + 1) * B + (n - m))
       \<longrightarrow> length out = n - m"
    using post by (simp_all add: read_post_def)
  have cap: "capacity fs2 = capacity fs" using K(4,5) by (simp add: capacity_def)
  have next_base: "(idx + 1) * B = base + m" if "m \<noteq> n" using that m(4) by (simp add: base_def)
  have out_eq: "out = fbytes fs f (base + m) (length out)"
  proof (cases "out = []")
    case False
    then have nm: "m \<noteq> n" using out(2) by auto
    have "base + m + length out \<le> capacity fs" using False out(5) cap next_base [OF nm] by simp
    then show ?thesis using out(1) next_base [OF nm] keeps_fbytes [OF k] by simp
  qed (simp add: fbytes_def)
  have full: "length out = n - m"
    if a: "c_faults (fs_cont fs) = []" "base + n \<le> capacity fs" "backed fs f base (base + n)"
  proof (cases "m = n")
    case False
    have "backed fs2 f1 (base + m) (base + n)" using keeps_backed [OF k a(3)] by simp
    then show ?thesis using out(6) a fs_geomD(4) [OF K(3)] cap next_base [OF False] m(2) by simp
  qed (use out(2) in simp)
  have room: "base + (m + length out) \<le> capacity fs"
  proof (cases "out = []")
    case True
    then show ?thesis using block_range [OF ok idx, of bo m] m(3) by (simp add: base_def B_def)
  next
    case False
    then have "m \<noteq> n" using out(2) by auto
    then show ?thesis using False out(5) cap next_base by simp
  qed
  have "keeps fs f fs' f'" using keeps_trans k out(3) .
  moreover have "?bs @ out = fbytes fs f base (length (?bs @ out))"
    using fbytes_append [of fs f base m "length out"] out_eq by simp
  ultimately show ?thesis
    using out(2,4) m(1,2) room full by (simp add: read_post_def base_def [symmetric])
qed

lemma read_loop_spec:
  assumes "idle fs f" "bo < fs_blockSize fs" "n < fuel" "idx < 4294967296" "reachable fs f (idx * fs_blockSize fs + bo) n"
  shows "\<exists>e out f' fs'. read_loop fuel fs f idx bo n dp = Some (e, dp @ out, f', fs') \<and>
    read_post fs f (idx * fs_blockSize fs + bo) n (dp \<noteq> []) e out fs' f'"
  using assms
proof (induction fuel arbitrary: fs f idx bo n dp)
  case (Suc fuel)
  define B where "B = fs_blockSize fs"
  define base where "base = idx * B + bo"
  have ok: "fs_ok fs" using idleD(1) Suc.prems(1) .
  have aB: "a_blockSize (fs_alloc fs) = B" using fs_okD(5) [OF ok] by (simp add: B_def)
  show ?case
  proof (cases "n = 0")
    case True
    then show ?thesis using Suc.prems(1)
      by (auto simp: read_post_def keeps_refl fbytes_def intro!: exI [of _ "[]"])
  next
    case n0: False
    define m where "m = (if n > B - bo then B - bo else n)"
    have m: "0 < m" "m \<le> n" "bo + m \<le> B" using n0 Suc.prems(2) by (auto simp: m_def B_def)
    have m_full: "bo + m = B" if "m \<noteq> n" using that Suc.prems(2) by (auto simp: m_def B_def split: if_splits)
    show ?thesis
    proof (cases "idx < n_blocks fs")
      case False
      then have "SfsFile_MapBlock fs f idx kMapBlock_ReadOnly =
          Some (EFBIG, \<lparr>f_b = no_block, f_lba = 0, f_wasAlloced = False, f_isZeroFill = False\<rparr>, f, fs)"
        using MapBlock_too_big by simp
      moreover have "\<not> base + n \<le> capacity fs"
        using beyond_capacity [OF ok, of idx bo] False n0 by (simp add: base_def B_def)
      ultimately have "read_loop (Suc fuel) fs f idx bo n dp = Some (if dp = [] then EFBIG else EOK, dp @ [], f, fs)"
        "read_post fs f base n (dp \<noteq> []) (if dp = [] then EFBIG else EOK) [] fs f"
        using n0 keeps_refl [OF Suc.prems(1)] by (simp_all add: read_post_def fbytes_def)
      then show ?thesis unfolding base_def B_def by blast
    next
      case True
      have lo: "base < (idx + 1) * B" "idx * B < base + n" using Suc.prems(2) n0 by (simp_all add: base_def B_def)
      from Suc.prems(1) True reachable_first [OF Suc.prems(5) n0] show ?thesis
      proof (cases rule: read_map)
        case (err e1 blk f1 fs1)
        have "\<not> (c_faults (fs_cont fs) = [] \<and> backed fs f base (base + n))"
        proof
          assume a: "c_faults (fs_cont fs) = [] \<and> backed fs f base (base + n)"
          then have "idx < kSFSDirectBlockPointersCount \<or> fptr fs f idx \<noteq> 0" using True lo by (auto simp: backed_def B_def)
          with err(4) a show False by (auto simp: fptr_def)
        qed
        then have "read_post fs f base n (dp \<noteq> []) (if dp = [] then e1 else EOK) [] fs1 f1"
          using err(2,3) n0 by (auto simp: read_post_def fbytes_def)
        moreover have "read_loop (Suc fuel) fs f idx bo n dp = Some (if dp = [] then e1 else EOK, dp @ [], f1, fs1)"
          using err(1,2) n0 by simp
        ultimately show ?thesis unfolding base_def B_def by blast
      next
        case (got blk f1 fs1 fs2)
        note K = keepsD [OF got(4)]
        let ?bs = "fbytes fs f base m"
        have "get_bytes (fblock fs f idx) bo m = Some (take m (drop bo (fblock fs f idx)))"
          using m(3) length_fblock [OF ok] by (simp add: get_bytes_def B_def)
        then have gb: "get_bytes (b_data (f_b blk)) bo m = Some ?bs"
          using fbytes_block [OF ok, of bo m f idx] m(3) got(2) by (simp add: base_def B_def)
        have step: "read_loop (Suc fuel) fs f idx bo n dp = read_loop fuel fs2 f1 ((idx + 1) mod 4294967296) 0 (n - m) (dp @ ?bs)"
          using n0 got(1,3) gb by (simp add: aB m_def [symmetric] Let_def)
        have idx1: "(idx + 1) mod 4294967296 = idx + 1" using True n_blocks_small [OF ok] by simp
        have B2: "fs_blockSize fs2 = B" using K(4) by (simp add: B_def)
        have "reachable fs2 f1 ((idx + 1) * fs_blockSize fs2) (n - m)"
          by (rule reachable_next [OF Suc.prems(5) K(2) m(2)]) (use m_full in \<open>simp add: B_def\<close>)
        then have "0 < fs_blockSize fs2" "n - m < fuel" "idx + 1 < 4294967296" "reachable fs2 f1 ((idx + 1) * fs_blockSize fs2 + 0) (n - m)"
          using Suc.prems m True n_blocks_small [OF ok] B2 by (simp_all add: B_def)
        from Suc.IH [OF K(1) this, of "dp @ ?bs"] obtain e out f' fs' where
          IH: "read_loop fuel fs2 f1 (idx + 1) 0 (n - m) (dp @ ?bs) = Some (e, (dp @ ?bs) @ out, f', fs')"
          "read_post fs2 f1 ((idx + 1) * B) (n - m) (dp @ ?bs \<noteq> []) e out fs' f'" using B2 by auto
        have "read_post fs2 f1 ((idx + 1) * B) (n - m) True e out fs' f'" using IH(2) m(1) by simp
        then have "read_post fs f base n (dp \<noteq> []) e (?bs @ out) fs' f'"
          unfolding base_def B_def by (intro read_post_step [OF ok True _ _ _ _ got(4)])
            (use m m_full in \<open>simp_all add: B_def\<close>)
        moreover have "read_loop (Suc fuel) fs f idx bo n dp = Some (e, dp @ (?bs @ out), f', fs')"
          using step idx1 IH(1) by simp
        ultimately show ?thesis unfolding base_def B_def by blast
      qed
    qed
  qed
qed simp

subsection \<open>The loop of write\<close>

lemma write_map:
  assumes i: "idle fs f" and b: "b < n_blocks fs" and cb: "calm fs f \<or> b < kSFSDirectBlockPointersCount" and md: "mode = kMapBlock_Update \<or> mode = kMapBlock_Replace"
  obtains (err) e blk f' fs' where "SfsFile_MapBlock fs f b mode = Some (e, blk, f', fs')" "e \<noteq> EOK" "keeps fs f fs' f'"
      "c_faults (fs_cont fs) = [] \<Longrightarrow> e = ENOSPC \<and> {1..<a_volumeBlockCount (fs_alloc fs)} \<subseteq> fs_used fs'"
  | (got) blk f' fs' where "SfsFile_MapBlock fs f b mode = Some (EOK, blk, f', fs')"
      "length (b_data (f_b blk)) = fs_blockSize fs" "mode = kMapBlock_Update \<Longrightarrow> b_data (f_b blk) = fblock fs f b"
      "map_page fs f b mode blk fs' f'"
proof -
  note ok = idleD(1) [OF i]
  from MapBlock_spec [OF idleD [OF i] b cb, of mode] obtain e blk f' fs' where
    m: "SfsFile_MapBlock fs f b mode = Some (e, blk, f', fs')" and r: "map_result fs f b mode e blk fs' f'" by blast
  consider "map_fails fs f b mode e fs' f'" | "e = EOK" "map_page fs f b mode blk fs' f'"
    using r md by (auto simp: map_result_def map_zero_def)
  then show ?thesis
  proof cases
    case 1
    show ?thesis
      by (rule err [OF m]) (use 1 map_fails_idle [OF 1] in \<open>simp_all add: keeps_def map_fails_def\<close>)
  next
    case 2
    have "length (mapped_bytes (fs_cont fs) (fptr fs f b) mode) = fs_blockSize fs"
      using length_mapped fs_okD(3,4) [OF ok] by simp
    then have "length (b_data (f_b blk)) = fs_blockSize fs" using 2(2) by (auto simp: map_page_def split: if_splits)
    moreover have "b_data (f_b blk) = fblock fs f b" if "mode = kMapBlock_Update"
      using 2(2) that by (auto simp: map_page_def fblock_def mapped_bytes_def split: if_splits)
    ultimately show ?thesis using got m 2 by blast
  qed
qed

text \<open>A step that replaces \<open>m\<close> bytes from offset \<open>base\<close> by those of \<open>sp\<close>.\<close>

definition overwrites :: "SerenaFS \<Rightarrow> Inode \<Rightarrow> nat \<Rightarrow> nat \<Rightarrow> u8 list \<Rightarrow> SerenaFS \<Rightarrow> Inode \<Rightarrow> bool" where
  "overwrites fs f base m sp fs' f' \<longleftrightarrow> idle fs' f' \<and> frame fs f fs' f' \<and> (m \<noteq> 0 \<longrightarrow> base + m \<le> capacity fs)
   \<and> (\<forall>k < capacity fs. fbyte fs' f' k = (if base \<le> k \<and> k < base + m then sp ! (k - base) else fbyte fs f k))
   \<and> (\<forall>b < n_blocks fs. fptr fs f b \<noteq> 0 \<or> m \<noteq> 0 \<and> base < (b + 1) * fs_blockSize fs \<and> b * fs_blockSize fs < base + m
        \<longrightarrow> fptr fs' f' b \<noteq> 0)"

lemma overwritesD:
  assumes "overwrites fs f base m sp fs' f'"
  shows "idle fs' f'" "frame fs f fs' f'" "m \<noteq> 0 \<Longrightarrow> base + m \<le> capacity fs"
    "k < capacity fs \<Longrightarrow> fbyte fs' f' k = (if base \<le> k \<and> k < base + m then sp ! (k - base) else fbyte fs f k)"
    "b < n_blocks fs \<Longrightarrow> fptr fs f b \<noteq> 0 \<Longrightarrow> fptr fs' f' b \<noteq> 0"
    "b < n_blocks fs \<Longrightarrow> m \<noteq> 0 \<Longrightarrow> base < (b + 1) * fs_blockSize fs \<Longrightarrow> b * fs_blockSize fs < base + m \<Longrightarrow> fptr fs' f' b \<noteq> 0"
    "fs_blockSize fs' = fs_blockSize fs" "n_blocks fs' = n_blocks fs" "capacity fs' = capacity fs" "fs_geom fs fs'"
  using assms fs_geomD(1,2) [of fs fs'] by (simp_all add: overwrites_def frame_def capacity_def)

lemma keeps_overwrites: "keeps fs f fs' f' \<Longrightarrow> overwrites fs f base 0 sp fs' f'"
  using keeps_fbyte [of fs f fs' f'] keepsD(1,2,7) [of fs f fs' f'] by (auto simp: overwrites_def)

lemma overwrites_trans:
  assumes 1: "overwrites fs f base m sp fs1 f1" and 2: "overwrites fs1 f1 (base + m) n (drop m sp) fs2 f2" and m: "m \<le> length sp"
  shows "overwrites fs f base (m + n) sp fs2 f2"
proof -
  note O1 = overwritesD [OF 1] note O2 = overwritesD [OF 2]
  have "fbyte fs2 f2 k = (if base \<le> k \<and> k < base + (m + n) then sp ! (k - base) else fbyte fs f k)" if k: "k < capacity fs" for k
    using O1(4) [OF k] O2(4) [of k] k O1(9) m by (auto simp: add.assoc)
  moreover have "fptr fs2 f2 b \<noteq> 0"
    if b: "b < n_blocks fs" "fptr fs f b \<noteq> 0 \<or> m + n \<noteq> 0 \<and> base < (b + 1) * fs_blockSize fs \<and> b * fs_blockSize fs < base + (m + n)" for b
  proof -
    have b1: "b < n_blocks fs1" using b(1) O1(8) by simp
    have "fptr fs1 f1 b \<noteq> 0 \<or> n \<noteq> 0 \<and> base + m < (b + 1) * fs_blockSize fs1 \<and> b * fs_blockSize fs1 < base + m + n"
      using b(2) O1(5) [OF b(1)] O1(6) [OF b(1)] O1(7) fs_okD(8) [OF idleD(1) [OF O1(1)]]
      by (cases "m = 0"; cases "b * fs_blockSize fs < base + m") auto
    then show ?thesis using O2(5) [OF b1] O2(6) [OF b1] by blast
  qed
  moreover have "base + (m + n) \<le> capacity fs" if "m + n \<noteq> 0" using O1(3,9) O2(3) that by (cases "n = 0") auto
  ultimately show ?thesis using frame_trans [OF O1(2) O2(2)] O2(1) unfolding overwrites_def by blast
qed

lemma write_page:
  assumes i: "idle fs f" and idx: "idx < n_blocks fs" and m: "0 < m" "m \<le> length sp" "bo + m \<le> fs_blockSize fs"
    and pg: "map_page fs f idx mode blk fs1 f1" and d: "length (b_data (f_b blk)) = fs_blockSize fs"
      "m \<noteq> fs_blockSize fs \<longrightarrow> b_data (f_b blk) = fblock fs f idx"
  obtains fs2 d' where "put_bytes (b_data (f_b blk)) bo (take m sp) = Some d'"
    "SfsFile_UnmapBlock fs1 (blk\<lparr>f_b := (f_b blk)\<lparr>b_data := d'\<rparr>\<rparr>) kWriteBlock_Deferred = Some (EOK, fs2)"
    "overwrites fs f (idx * fs_blockSize fs + bo) m sp fs2 f1"
proof -
  let ?B = "fs_blockSize fs" and ?base = "idx * fs_blockSize fs + bo"
  have tk: "length (take m sp) = m" using m(2) by simp
  obtain d' where p: "put_bytes (b_data (f_b blk)) bo (take m sp) = Some d'" using m(3) d(1) tk by (simp add: put_bytes_def)
  have ld: "length d' = ?B" using length_put [OF p] d(1) by simp
  from unmap_page [OF pg idx ld steady_deferred] obtain fs2 where
    u: "SfsFile_UnmapBlock fs1 (blk\<lparr>f_b := (f_b blk)\<lparr>b_data := d'\<rparr>\<rparr>) kWriteBlock_Deferred = Some (EOK, fs2)"
    and i2: "idle fs2 f1" and fr: "frame fs f fs2 f1"
    and fb: "\<And>b'. b' < n_blocks fs \<Longrightarrow> fblock fs2 f1 b' = (if b' = idx then d' else fblock fs f b')"
    and fp: "\<And>b'. b' < n_blocks fs \<Longrightarrow> fptr fs2 f1 b' = (if b' = idx then fptr fs1 f1 idx else fptr fs f b')" by blast
  have B2: "fs_blockSize fs2 = ?B" using fs_geomD(2) frameD(1) [OF fr] by blast
  have "fbyte fs2 f1 k = (if ?base \<le> k \<and> k < ?base + m then sp ! (k - ?base) else fbyte fs f k)" if k: "k < capacity fs" for k
  proof -
    have kb: "k div ?B < n_blocks fs" using k by (simp add: capacity_def less_mult_imp_div_less)
    have B0: "0 < ?B" using m by simp
    have k_eq: "k = (k div ?B) * ?B + k mod ?B" "k mod ?B < ?B" using B0 by simp_all
    show ?thesis
    proof (cases "k div ?B = idx")
      case True
      then have ke: "k = idx * ?B + k mod ?B" using k_eq(1) by simp
      have "d' ! (k mod ?B) = (if bo \<le> k mod ?B \<and> k mod ?B < bo + m then sp ! (k mod ?B - bo) else b_data (f_b blk) ! (k mod ?B))"
        using nth_put [OF p, of "k mod ?B"] d(1) k_eq(2) tk by auto
      moreover have "b_data (f_b blk) ! (k mod ?B) = fbyte fs f k \<or> bo \<le> k mod ?B \<and> k mod ?B < bo + m"
        using d(2) True m(3) k_eq(2) by (cases "m = ?B") (auto simp: fbyte_def)
      moreover have "bo \<le> k mod ?B \<longleftrightarrow> ?base \<le> k" "k mod ?B < bo + m \<longleftrightarrow> k < ?base + m" "k mod ?B - bo = k - ?base"
        using ke by linarith+
      ultimately show ?thesis using fb [OF kb] True B2 by (auto simp: fbyte_def)
    next
      case False
      have "\<not> (?base \<le> k \<and> k < ?base + m)"
      proof
        assume a: "?base \<le> k \<and> k < ?base + m"
        then have "idx * ?B \<le> k" "k < (idx + 1) * ?B" using m(3) by (simp_all add: add_mult_distrib)
        then have "k div ?B = idx" using B0 by (simp add: div_nat_eqI mult.commute)
        with False show False by simp
      qed
      then show ?thesis using fb [OF kb] False B2 by (auto simp: fbyte_def)
    qed
  qed
  moreover have "?base + m \<le> capacity fs" using block_range [OF idleD(1) [OF i] idx m(3)] .
  moreover have "fptr fs2 f1 b \<noteq> 0" if "b < n_blocks fs" "fptr fs f b \<noteq> 0 \<or> ?base < (b + 1) * ?B \<and> b * ?B < ?base + m" for b
  proof (cases "b = idx")
    case True
    then show ?thesis using fp [OF idx] pg by (simp add: map_page_def)
  next
    case False
    then have "fptr fs f b \<noteq> 0"
    proof (cases "b < idx")
      case True
      then have "(b + 1) * ?B \<le> idx * ?B" by (intro mult_le_mono1) simp
      then show ?thesis using that(2) by auto
    next
      case False
      then have "(idx + 1) * ?B \<le> b * ?B" using \<open>b \<noteq> idx\<close> by (intro mult_le_mono1) simp
      then show ?thesis using that(2) m(3) by (auto simp: add_mult_distrib)
    qed
    then show ?thesis using fp [OF that(1)] False by simp
  qed
  ultimately have "overwrites fs f ?base m sp fs2 f1" using i2 fr unfolding overwrites_def by blast
  with p u that show ?thesis by blast
qed

definition write_post :: "SerenaFS \<Rightarrow> Inode \<Rightarrow> nat \<Rightarrow> nat \<Rightarrow> u8 list \<Rightarrow> bool \<Rightarrow> errno \<Rightarrow> nat \<Rightarrow> SerenaFS \<Rightarrow> Inode \<Rightarrow> bool" where
  "write_post fs f base n sp some e w fs' f' \<longleftrightarrow> overwrites fs f base w sp fs' f' \<and> w \<le> n
   \<and> (e = EOK \<longleftrightarrow> w = n \<or> some \<or> 0 < w)
   \<and> (c_faults (fs_cont fs) = [] \<and> base + n \<le> capacity fs \<and> w < n \<longrightarrow>
        {1..<a_volumeBlockCount (fs_alloc fs)} \<subseteq> fs_used fs')"

lemma write_post_step:
  fixes fs :: SerenaFS
  defines "B \<equiv> fs_blockSize fs"
  assumes m: "0 < m" "m \<le> n" "m \<le> length sp" "m \<noteq> n \<longrightarrow> bo + m = B"
    and k: "overwrites fs f (idx * B + bo) m sp fs2 f1"
    and post: "write_post fs2 f1 ((idx + 1) * B) (n - m) (drop m sp) True e w fs' f'"
  shows "write_post fs f (idx * B + bo) n sp some e (m + w) fs' f'"
proof -
  define base where "base = idx * B + bo"
  note O = overwritesD [OF k]
  have p: "overwrites fs2 f1 ((idx + 1) * B) w (drop m sp) fs' f'" "w \<le> n - m" "e = EOK"
    "c_faults (fs_cont fs2) = [] \<and> (idx + 1) * B + (n - m) \<le> capacity fs2 \<and> w < n - m \<longrightarrow>
        {1..<a_volumeBlockCount (fs_alloc fs2)} \<subseteq> fs_used fs'"
    using post by (simp_all add: write_post_def)
  have next_base: "(idx + 1) * B = base + m" if "m \<noteq> n" using that m(4) by (simp add: base_def)
  have "overwrites fs2 f1 (base + m) w (drop m sp) fs' f'"
  proof (cases "m = n")
    case True
    then have "w = 0" using p(2) by simp
    then show ?thesis using p(1) by (auto simp: overwrites_def)
  qed (use p(1) next_base in simp)
  then have "overwrites fs f base (m + w) sp fs' f'" using overwrites_trans k m(3) unfolding base_def by blast
  moreover have "{1..<a_volumeBlockCount (fs_alloc fs)} \<subseteq> fs_used fs'"
    if a: "c_faults (fs_cont fs) = []" "base + n \<le> capacity fs" "m + w < n"
  proof -
    have "m \<noteq> n" using a(3) by simp
    then show ?thesis using p(4) a O(9) fs_geomD(4) [OF O(10)] next_base O(10) m(2)
      by (simp add: fs_geom_def same_geom_def)
  qed
  ultimately show ?thesis using p(2,3) m(1,2) by (auto simp: write_post_def base_def [symmetric])
qed

lemma write_loop_spec:
  assumes "idle fs f" "bo < fs_blockSize fs" "n < fuel" "idx < 4294967296" "n \<le> length sp" "reachable fs f (idx * fs_blockSize fs + bo) n"
  shows "\<exists>e w f' fs'. write_loop fuel fs f idx bo n sp cnt = Some (e, cnt + w, f', fs') \<and>
    write_post fs f (idx * fs_blockSize fs + bo) n sp (0 < cnt) e w fs' f'"
  using assms
proof (induction fuel arbitrary: fs f idx bo n sp cnt)
  case (Suc fuel)
  define B where "B = fs_blockSize fs"
  define base where "base = idx * B + bo"
  have ok: "fs_ok fs" using idleD(1) Suc.prems(1) .
  have aB: "a_blockSize (fs_alloc fs) = B" using fs_okD(5) [OF ok] by (simp add: B_def)
  have same: "overwrites fs f base 0 sp fs f" using keeps_overwrites keeps_refl Suc.prems(1) by blast
  show ?case
  proof (cases "n = 0")
    case True
    then have "write_loop (Suc fuel) fs f idx bo n sp cnt = Some (EOK, cnt + 0, f, fs)"
      "write_post fs f base n sp (0 < cnt) EOK 0 fs f" using same by (simp_all add: write_post_def)
    then show ?thesis unfolding base_def B_def by blast
  next
    case n0: False
    define m where "m = (if n > B - bo then B - bo else n)"
    have m: "0 < m" "m \<le> n" "bo + m \<le> B" using n0 Suc.prems(2) by (auto simp: m_def B_def)
    have m_full: "bo + m = B" if "m \<noteq> n" using that Suc.prems(2) by (auto simp: m_def B_def split: if_splits)
    have msp: "m \<le> length sp" using m(2) Suc.prems(5) by simp
    define mode where "mode = (if m = B then kMapBlock_Replace else kMapBlock_Update)"
    have md: "mode = kMapBlock_Update \<or> mode = kMapBlock_Replace" by (simp add: mode_def)
    have gb: "get_bytes sp 0 m = Some (take m sp)" using msp by (simp add: get_bytes_def)
    show ?thesis
    proof (cases "idx < n_blocks fs")
      case False
      then have "SfsFile_MapBlock fs f idx mode =
          Some (EFBIG, \<lparr>f_b = no_block, f_lba = 0, f_wasAlloced = False, f_isZeroFill = False\<rparr>, f, fs)"
        using MapBlock_too_big by simp
      moreover have "\<not> base + n \<le> capacity fs"
        using beyond_capacity [OF ok, of idx bo] False n0 by (simp add: base_def B_def)
      ultimately have "write_loop (Suc fuel) fs f idx bo n sp cnt = Some (if cnt = 0 then EFBIG else EOK, cnt + 0, f, fs)"
        "write_post fs f base n sp (0 < cnt) (if cnt = 0 then EFBIG else EOK) 0 fs f"
        using n0 same by (simp_all add: write_post_def aB m_def [symmetric] mode_def [symmetric] Let_def)
      then show ?thesis unfolding base_def B_def by blast
    next
      case True
      from Suc.prems(1) True reachable_first [OF Suc.prems(6) n0] md show ?thesis
      proof (cases rule: write_map)
        case (err e1 blk f1 fs1)
        have "write_post fs f base n sp (0 < cnt) (if cnt = 0 then e1 else EOK) 0 fs1 f1"
          using err(2,4) keeps_overwrites [OF err(3)] n0 by (auto simp: write_post_def)
        moreover have "write_loop (Suc fuel) fs f idx bo n sp cnt = Some (if cnt = 0 then e1 else EOK, cnt + 0, f1, fs1)"
          using err(1,2) n0 by (simp add: aB m_def [symmetric] mode_def [symmetric] Let_def)
        ultimately show ?thesis unfolding base_def B_def by blast
      next
        case (got blk f1 fs1)
        have dd: "m \<noteq> fs_blockSize fs \<longrightarrow> b_data (f_b blk) = fblock fs f idx" using got(3) by (simp add: mode_def B_def)
        from write_page [OF Suc.prems(1) True m(1) msp _ got(4) got(2) dd, of bo] m(3) obtain fs2 d' where
          w: "put_bytes (b_data (f_b blk)) bo (take m sp) = Some d'"
          "SfsFile_UnmapBlock fs1 (blk\<lparr>f_b := (f_b blk)\<lparr>b_data := d'\<rparr>\<rparr>) kWriteBlock_Deferred = Some (EOK, fs2)"
          "overwrites fs f (idx * fs_blockSize fs + bo) m sp fs2 f1" unfolding B_def by blast
        note O = overwritesD [OF w(3)]
        have step: "write_loop (Suc fuel) fs f idx bo n sp cnt =
            write_loop fuel fs2 f1 ((idx + 1) mod 4294967296) 0 (n - m) (drop m sp) (cnt + m)"
          using n0 got(1) gb w(1,2) by (simp add: aB m_def [symmetric] mode_def [symmetric] Let_def)
        have idx1: "(idx + 1) mod 4294967296 = idx + 1" using True n_blocks_small [OF ok] by simp
        have "reachable fs2 f1 ((idx + 1) * fs_blockSize fs2) (n - m)"
          by (rule reachable_next [OF Suc.prems(6) O(2) m(2)]) (use m_full in \<open>simp add: B_def\<close>)
        then have "0 < fs_blockSize fs2" "n - m < fuel" "idx + 1 < 4294967296" "n - m \<le> length (drop m sp)"
            "reachable fs2 f1 ((idx + 1) * fs_blockSize fs2 + 0) (n - m)"
          using Suc.prems m True n_blocks_small [OF ok] O(7) by simp_all
        from Suc.IH [OF O(1) this, of "cnt + m"] obtain e w f' fs' where
          IH: "write_loop fuel fs2 f1 (idx + 1) 0 (n - m) (drop m sp) (cnt + m) = Some (e, cnt + m + w, f', fs')"
          "write_post fs2 f1 ((idx + 1) * B) (n - m) (drop m sp) True e w fs' f'" using O(7) m(1) by (auto simp: B_def)
        have "write_post fs f base n sp (0 < cnt) e (m + w) fs' f'"
          unfolding base_def B_def by (rule write_post_step) (use m m_full msp w(3) IH(2) in \<open>simp_all add: B_def\<close>)
        moreover have "write_loop (Suc fuel) fs f idx bo n sp cnt = Some (e, cnt + (m + w), f', fs')"
          using step idx1 IH(1) by (simp add: add.assoc)
        ultimately show ?thesis unfolding base_def B_def by blast
      qed
    qed
  qed
qed simp

end
