(* ===== verification/SfsFileOps.thy ===== *)
theory SfsFileOps
  imports SfsFileRW
begin

section \<open>The operations on regular files\<close>

text \<open>
  The specifications of \<open>SfsRegularFile_read\<close>, \<open>SfsRegularFile_write\<close>, \<open>SfsRegularFile_truncate\<close>, \<open>SfsFile_Trim\<close> and of the write back of
  inodes, over the bytes of the file and the set of blocks in use.
\<close>

subsection \<open>Metadata blocks\<close>

text \<open>
  Writing a block that does not belong to the file, such as the allocation bitmap or the inode, changes nothing of the content of the file.
\<close>

definition apart :: "SerenaFS \<Rightarrow> Inode \<Rightarrow> nat set \<Rightarrow> SerenaFS \<Rightarrow> bool" where
  "apart fs f S fs' \<longleftrightarrow> fs_geom fs fs' \<and> fs_used fs' = fs_used fs \<and> idle fs' f
   \<and> (\<forall>l. l \<notin> S \<longrightarrow> c_data (fs_cont fs') l = c_data (fs_cont fs) l)
   \<and> (\<forall>b < n_blocks fs. fptr fs' f b = fptr fs f b \<and> fblock fs' f b = fblock fs f b)"

lemma apartD:
  assumes "apart fs f S fs'"
  shows "fs_geom fs fs'" "fs_used fs' = fs_used fs" "idle fs' f"
    "l \<notin> S \<Longrightarrow> c_data (fs_cont fs') l = c_data (fs_cont fs) l"
    "b < n_blocks fs \<Longrightarrow> fptr fs' f b = fptr fs f b" "b < n_blocks fs \<Longrightarrow> fblock fs' f b = fblock fs f b"
  using assms by (simp_all add: apart_def)

lemma apart_refl: "idle fs f \<Longrightarrow> apart fs f S fs"
  by (simp add: apart_def)

lemma apart_trans: "apart fs f S fs1 \<Longrightarrow> apart fs1 f T fs2 \<Longrightarrow> apart fs f (S \<union> T) fs2"
proof -
  assume 1: "apart fs f S fs1" and 2: "apart fs1 f T fs2"
  have "n_blocks fs1 = n_blocks fs" using fs_geomD(1) apartD(1) [OF 1] .
  then have "fptr fs2 f b = fptr fs f b \<and> fblock fs2 f b = fblock fs f b" if "b < n_blocks fs" for b
    using apartD(5,6) [OF 1, of b] apartD(5,6) [OF 2, of b] that by simp
  moreover have "fs_geom fs fs2" using fs_geom_trans apartD(1) [OF 1] apartD(1) [OF 2] .
  ultimately show ?thesis using apartD(2,4) [OF 1] apartD(2-4) [OF 2] by (simp add: apart_def)
qed

lemma apart_fbyte: "apart fs f S fs' \<Longrightarrow> k < capacity fs \<Longrightarrow> fbyte fs' f k = fbyte fs f k"
  using apartD(6) [of fs f S fs' "k div fs_blockSize fs"] fs_geomD(2) [OF apartD(1)]
  by (simp add: fbyte_def capacity_def less_mult_imp_div_less)

lemma own_indirect: "i_indirect f \<noteq> 0 \<Longrightarrow> i_indirect f \<in> own fs f"
  by (simp add: own_def)

lemma own_fptr: "b < n_blocks fs \<Longrightarrow> fptr fs f b \<noteq> 0 \<Longrightarrow> fptr fs f b \<in> own fs f"
  by (simp add: own_def)

lemma apart_intro:
  assumes i: "idle fs f" and ok: "fs_ok fs'" and g: "fs_geom fs fs'" and u: "fs_used fs' = fs_used fs"
    and l: "c_locked (fs_cont fs') = {}" and S: "\<And>l. l \<in> S \<Longrightarrow> l \<notin> own fs f" "0 \<notin> S"
    and d: "\<And>l. l \<notin> S \<Longrightarrow> c_data (fs_cont fs') l = c_data (fs_cont fs) l"
  shows "apart fs f S fs'"
proof -
  have "i_indirect f \<notin> S" using S own_indirect by metis
  then have p: "fptr fs' f b = fptr fs f b" for b using d by (simp add: fptr_def)
  have "fblock fs' f b = fblock fs f b" if "b < n_blocks fs" for b
  proof -
    have "fptr fs f b \<notin> S \<or> fptr fs f b = 0" using S(1) own_fptr [OF that] by metis
    then have "fptr fs f b = 0 \<or> c_data (fs_cont fs') (fptr fs f b) = c_data (fs_cont fs) (fptr fs f b)" using d by blast
    then show ?thesis unfolding fblock_def p fs_geomD(2) [OF g] by (elim disjE) simp_all
  qed
  moreover have "file_ok fs' f" using file_ok_cong [OF idleD(2) [OF i] p u g] .
  ultimately show ?thesis using ok g u l p d by (simp add: apart_def idle_def)
qed

lemma own_disjoint:
  assumes "file_ok fs f"
  shows "a_bitmapLba (fs_alloc fs) \<notin> own fs f" "i_inid f \<notin> own fs f"
proof -
  have "l \<noteq> a_bitmapLba (fs_alloc fs) \<and> l \<noteq> i_inid f" if "l \<in> own fs f" for l
  proof -
    have l0: "l \<noteq> 0" using that by (simp add: own_def)
    from that consider "l = i_indirect f" | b where "b < n_blocks fs" "l = fptr fs f b" by (auto simp: own_def)
    then show ?thesis
    proof cases
      case 1
      then show ?thesis using file_okD(7,8) [OF assms] l0 by simp
    next
      case 2
      then show ?thesis using file_okD(4,5) [OF assms, of b] l0 by simp
    qed
  qed
  then show "a_bitmapLba (fs_alloc fs) \<notin> own fs f" "i_inid f \<notin> own fs f" by blast+
qed

lemma commit_ok:
  assumes ok: "fs_ok fs" and l: "c_locked (fs_cont fs) = {}"
  obtains e fs' where "commit fs = Some (e, fs')" "fs_ok fs'" "fs_geom fs fs'" "fs_used fs' = fs_used fs"
    "c_locked (fs_cont fs') = {}" "c_faults (fs_cont fs) = [] \<longrightarrow> e = EOK"
    "\<forall>l. l \<noteq> a_bitmapLba (fs_alloc fs) \<longrightarrow> c_data (fs_cont fs') l = c_data (fs_cont fs) l"
proof -
  note D = fs_okD [OF ok]
  have bl: "a_bitmapLba (fs_alloc fs) \<notin> c_locked (fs_cont fs)" using l by simp
  have sz: "c_blockSize (fs_cont fs) = a_blockSize (fs_alloc fs)" using D(4,5) by simp
  obtain e a' c' where
    c: "SfsAllocator_CommitToDisk (fs_alloc fs) (fs_cont fs) = Some (e, a', c')" "alloc_ok a'" "same_geom (fs_alloc fs) a'"
    "a_bitmap a' = a_bitmap (fs_alloc fs)" "cont_ok c'" "cont_geom (fs_cont fs) c'" "c_locked c' = c_locked (fs_cont fs)"
    and d: "e \<noteq> EOK \<longrightarrow> c_data c' = c_data (fs_cont fs) \<and> a_dirty a' = a_dirty (fs_alloc fs)"
      "c_faults (fs_cont fs) = [] \<longrightarrow> e = EOK"
      "bm_bit (a_dirty (fs_alloc fs)) 0 \<longrightarrow> e = EOK \<longrightarrow>
         c_data c' = (c_data (fs_cont fs))(a_bitmapLba (fs_alloc fs) := bitmap_image (fs_alloc fs))"
      "\<not> bm_bit (a_dirty (fs_alloc fs)) 0 \<longrightarrow> c_data c' = c_data (fs_cont fs)"
      "e = EOK \<longrightarrow> \<not> bm_bit (a_dirty a') 0"
    by (rule commit_spec [OF D(1-3) sz bl])
  let ?fs = "fs\<lparr>fs_alloc := a', fs_cont := c'\<rparr>"
  have g: "fs_geom fs ?fs" using c(3,6) by (simp add: fs_geom_def)
  have u: "fs_used ?fs = fs_used fs" using c(3,4) by (simp add: fs_used_def used_def same_geom_def)
  have ok': "fs_ok ?fs" by (rule fs_ok_step [OF ok g]) (use c D u in simp_all)
  have dd: "\<forall>l. l \<noteq> a_bitmapLba (fs_alloc fs) \<longrightarrow> c_data c' l = c_data (fs_cont fs) l"
    using d by (cases "e = EOK"; cases "bm_bit (a_dirty (fs_alloc fs)) 0") simp_all
  show ?thesis
    by (rule that [of e ?fs]) (use c l d(2) dd g u ok' in \<open>simp_all add: commit_def\<close>)
qed

lemma commit_apart:
  assumes i: "idle fs f"
  obtains e fs' where "commit fs = Some (e, fs')" "apart fs f {a_bitmapLba (fs_alloc fs)} fs'"
    "c_faults (fs_cont fs) = [] \<longrightarrow> e = EOK"
proof -
  from commit_ok [OF idleD(1,3) [OF i]] obtain e fs' where
    c: "commit fs = Some (e, fs')" "fs_ok fs'" "fs_geom fs fs'" "fs_used fs' = fs_used fs"
    "c_locked (fs_cont fs') = {}" "c_faults (fs_cont fs) = [] \<longrightarrow> e = EOK"
    "\<forall>l. l \<noteq> a_bitmapLba (fs_alloc fs) \<longrightarrow> c_data (fs_cont fs') l = c_data (fs_cont fs) l" by blast
  have "apart fs f {a_bitmapLba (fs_alloc fs)} fs'"
    by (rule apart_intro [OF i c(2-5)])
      (use own_disjoint(1) [OF idleD(2) [OF i]] fs_okD(10) [OF idleD(1) [OF i]] c(7) in simp_all)
  with c(1,6) that show ?thesis by blast
qed

subsection \<open>Writing an inode back\<close>

lemma length_inode_put:
  assumes "length (i_direct f) = kSFSDirectBlockPointersCount"
  shows "length (inode_put (SfsFile_Serialize now f)) = 504"
proof -
  have "length (concat (map be32_put xs)) = 4 * length xs" for xs by (induction xs) simp_all
  then show ?thesis using assms by (simp add: inode_put_def SfsFile_Serialize_def time_put_def)
qed

definition clear_flags :: "Inode \<Rightarrow> Inode" where
  "clear_flags f = f\<lparr>i_flags := i_flags f AND
     NOT (kInodeFlag_Accessed OR kInodeFlag_Updated OR kInodeFlag_StatusChanged)\<rparr>"

text \<open>Changing fields of the inode other than its id and its block map leaves the blocks of the file as they are.\<close>

definition same_blocks :: "Inode \<Rightarrow> Inode \<Rightarrow> bool" where
  "same_blocks f f' \<longleftrightarrow> i_direct f' = i_direct f \<and> i_indirect f' = i_indirect f \<and> i_inid f' = i_inid f"

lemma same_blocks_fptr: "same_blocks f f' \<Longrightarrow> fptr fs f' b = fptr fs f b"
  by (simp add: same_blocks_def fptr_def)

lemma same_blocks_fblock: "same_blocks f f' \<Longrightarrow> fblock fs f' b = fblock fs f b"
  using same_blocks_fptr by (simp add: fblock_def)

lemma same_blocks_fbyte: "same_blocks f f' \<Longrightarrow> fbyte fs f' k = fbyte fs f k"
  using same_blocks_fblock by (simp add: fbyte_def)

lemma same_blocks_idle:
  assumes "same_blocks f f'" "idle fs f"
  shows "idle fs f'"
proof -
  have "fptr fs f' = fptr fs f" using same_blocks_fptr [OF assms(1)] by blast
  then have "file_ok fs f'" using idleD(2) [OF assms(2)] assms(1) by (simp add: file_ok_def same_blocks_def)
  then show ?thesis using assms(2) by (simp add: idle_def)
qed

lemma same_blocks_own: "same_blocks f f' \<Longrightarrow> own fs f' = own fs f"
  using same_blocks_fptr [of f f' fs] by (simp add: own_def same_blocks_def)

lemma same_blocks_simps [simp]:
  "same_blocks f (f\<lparr>i_flags := x\<rparr>)" "same_blocks f (f\<lparr>i_size := n\<rparr>)" "same_blocks f (Inode_SetModified f m)"
  "same_blocks f (clear_flags f)" "same_blocks f f"
  by (simp_all add: same_blocks_def Inode_SetModified_def clear_flags_def)

lemma same_blocks_sym: "same_blocks f g \<Longrightarrow> same_blocks g f"
  by (simp add: same_blocks_def)

lemma same_blocks_apart:
  assumes "same_blocks f g" "apart fs g S fs'"
  shows "apart fs f S fs'"
  using apartD [OF assms(2)] same_blocks_idle [OF same_blocks_sym [OF assms(1)]]
    same_blocks_fptr [OF assms(1)] same_blocks_fblock [OF assms(1)] by (simp add: apart_def)

lemma same_blocks_trans: "same_blocks f g \<Longrightarrow> same_blocks g h \<Longrightarrow> same_blocks f h"
  by (simp add: same_blocks_def)

definition inode_image :: "SerenaFS \<Rightarrow> Inode \<Rightarrow> u8 list" where
  "inode_image fs f = inode_put (SfsFile_Serialize (fs_now fs) f) @ drop 504 (c_stale (fs_cont fs) (i_inid f))"

text \<open>The block of the inode of a file that is linked receives the serialized inode.\<close>

lemma writeback_linked:
  assumes i: "idle fs f" and lc: "i_linkCount f \<noteq> 0"
  obtains e fs' where "Inode_Writeback fs f = Some (e, clear_flags f, fs')" "apart fs f {i_inid f} fs'"
    "c_faults (fs_cont fs) = [] \<longrightarrow> e = EOK" "e = EOK \<longrightarrow> c_data (fs_cont fs') (i_inid f) = inode_image fs f"
    "fs_alloc fs' = fs_alloc fs"
proof -
  note ok = idleD(1) [OF i] note D = fs_okD [OF ok] note F = file_okD [OF idleD(2) [OF i]]
  have ni: "i_inid f \<notin> c_locked (fs_cont fs)" using idleD(3) [OF i] by simp
  have no: "i_inid f \<notin> own fs f" using own_disjoint(2) idleD(2) [OF i] .
  have ap: "apart fs f {i_inid f} (fs\<lparr>fs_cont := c\<rparr>)"
    if g: "cont_geom (fs_cont fs) c" and cok: "cont_ok c" and l: "c_locked c = {}"
      and d: "\<And>l. l \<noteq> i_inid f \<Longrightarrow> c_data c l = c_data (fs_cont fs) l" for c
  proof (rule apart_intro [OF i])
    show "fs_geom fs (fs\<lparr>fs_cont := c\<rparr>)" using g by (simp add: fs_geom_def)
    then show "fs_ok (fs\<lparr>fs_cont := c\<rparr>)" by (rule fs_ok_step [OF ok]) (use D cok l in \<open>simp_all add: fs_used_def\<close>)
  qed (use l d no F(11) in \<open>simp_all add: fs_used_def\<close>)
  from ni show ?thesis
  proof (cases rule: map_block_cases [where mode = kMapBlock_Replace])
    case (err e c)
    have "apart fs f {i_inid f} (fs\<lparr>fs_cont := c\<rparr>)"
      by (rule ap [OF err(6) cont_ok_geom [OF D(3) err(6,4,7)]]) (use err idleD(3) [OF i] in simp_all)
    then show ?thesis
      by (rule that [rotated 1]) (use err lc in \<open>simp_all add: Inode_Writeback_def SerenaFS_onWritebackNode_def clear_flags_def\<close>)
  next
    case (ok c)
    let ?img = "inode_image fs f"
    let ?c = "unmapped c (i_inid f) kWriteBlock_Deferred ?img"
    have len: "length (inode_put (SfsFile_Serialize (fs_now fs) f)) = 504" using length_inode_put F(1) .
    have st: "length (c_stale (fs_cont fs) (i_inid f)) = fs_blockSize fs" using cont_okD(2) [OF D(3)] D(4) by simp
    have put: "put_bytes (mapped_bytes (fs_cont fs) (i_inid f) kMapBlock_Replace) 0
        (inode_put (SfsFile_Serialize (fs_now fs) f)) = Some ?img"
      using len st D(8) by (simp add: put_bytes_def mapped_bytes_def inode_image_def)
    have unmap: "FSContainer_UnmapBlock c \<lparr>b_token = Some (i_inid f), b_data = ?img\<rparr> kWriteBlock_Deferred = Some (EOK, ?c)"
      using unmap_block_ok [of "i_inid f" c] ok(3) by simp
    have li: "length ?img = c_blockSize (fs_cont fs)" using len st D(4,8) by (simp add: inode_image_def)
    have cok: "cont_ok ?c"
      by (rule unmapped_steady(2) [OF cont_ok_geom [OF D(3) ok(4,2,5)]]) (use li cont_geomD(1) [OF ok(4)] in simp_all)
    have "apart fs f {i_inid f} (fs\<lparr>fs_cont := ?c\<rparr>)"
      by (rule ap [OF _ cok]) (use ok idleD(3) [OF i] in simp_all)
    then show ?thesis
      by (rule that [rotated 1])
        (use ok(1) put unmap lc in \<open>simp_all add: Inode_Writeback_def SerenaFS_onWritebackNode_def clear_flags_def\<close>)
  qed
qed

subsection \<open>Confined steps\<close>

text \<open>
  What a step on a file may do to the rest of the volume: it writes to its own blocks, to its inode, to the allocation bitmap
  and to blocks that were free; it takes over only free blocks and frees only its own.
\<close>

definition confined :: "SerenaFS \<Rightarrow> Inode \<Rightarrow> SerenaFS \<Rightarrow> Inode \<Rightarrow> bool" where
  "confined fs f fs' f' \<longleftrightarrow> fs_geom fs fs' \<and> i_inid f' = i_inid f \<and> fs_used fs \<subseteq> fs_used fs' \<union> own fs f
   \<and> own fs' f' \<subseteq> own fs f \<union> - fs_used fs
   \<and> (\<forall>l. l \<in> fs_used fs \<longrightarrow> l \<notin> own fs f \<longrightarrow> l \<noteq> i_inid f \<longrightarrow> l \<noteq> a_bitmapLba (fs_alloc fs) \<longrightarrow> l \<noteq> 0 \<longrightarrow>
        c_data (fs_cont fs') l = c_data (fs_cont fs) l)"

lemma confinedD:
  assumes "confined fs f fs' f'"
  shows "fs_geom fs fs'" "i_inid f' = i_inid f" "l \<in> fs_used fs \<Longrightarrow> l \<notin> own fs f \<Longrightarrow> l \<in> fs_used fs'"
    "l \<in> own fs' f' \<Longrightarrow> l \<in> fs_used fs \<Longrightarrow> l \<in> own fs f"
    "l \<in> fs_used fs \<Longrightarrow> l \<notin> own fs f \<Longrightarrow> l \<noteq> i_inid f \<Longrightarrow> l \<noteq> a_bitmapLba (fs_alloc fs) \<Longrightarrow> l \<noteq> 0 \<Longrightarrow>
        c_data (fs_cont fs') l = c_data (fs_cont fs) l"
  using assms unfolding confined_def by blast+

lemma confinedI:
  assumes "fs_geom fs fs'" "i_inid f' = i_inid f" "\<And>l. l \<in> fs_used fs \<Longrightarrow> l \<notin> own fs f \<Longrightarrow> l \<in> fs_used fs'"
    "\<And>l. l \<in> own fs' f' \<Longrightarrow> l \<in> fs_used fs \<Longrightarrow> l \<in> own fs f"
    "\<And>l. l \<in> fs_used fs \<Longrightarrow> l \<notin> own fs f \<Longrightarrow> l \<noteq> i_inid f \<Longrightarrow> l \<noteq> a_bitmapLba (fs_alloc fs) \<Longrightarrow> l \<noteq> 0 \<Longrightarrow>
        c_data (fs_cont fs') l = c_data (fs_cont fs) l"
  shows "confined fs f fs' f'"
  using assms unfolding confined_def by blast

lemma confined_trans:
  assumes a: "confined fs f fs1 f1" and b: "confined fs1 f1 fs2 f2"
  shows "confined fs f fs2 f2"
proof (rule confinedI)
  note A = confinedD [OF a] note B = confinedD [OF b]
  have bl: "a_bitmapLba (fs_alloc fs1) = a_bitmapLba (fs_alloc fs)" using fs_geomD(3) [OF A(1)] .
  show "fs_geom fs fs2" using fs_geom_trans A(1) B(1) .
  show "i_inid f2 = i_inid f" using A(2) B(2) by simp
  show "l \<in> fs_used fs2" if "l \<in> fs_used fs" "l \<notin> own fs f" for l
    using A(3) [OF that] A(4) [of l] that B(3) [of l] by blast
  show "l \<in> own fs f" if "l \<in> own fs2 f2" "l \<in> fs_used fs" for l
    using A(3) [of l] A(4) [of l] that B(4) [of l] by blast
  show "c_data (fs_cont fs2) l = c_data (fs_cont fs) l"
    if l: "l \<in> fs_used fs" "l \<notin> own fs f" "l \<noteq> i_inid f" "l \<noteq> a_bitmapLba (fs_alloc fs)" "l \<noteq> 0" for l
  proof -
    have "l \<in> fs_used fs1" "l \<notin> own fs1 f1" using A(3) [OF l(1,2)] A(4) [of l] l(1,2) by blast+
    then show ?thesis using B(5) [of l] A(2) A(5) [OF l] l bl by simp
  qed
qed

lemma confined_frame: "frame fs f fs' f' \<Longrightarrow> confined fs f fs' f'"
  unfolding frame_def by (rule confinedI) (use same_metaD(2) [of f f'] in blast)+

lemma confined_same_blocks: "same_blocks f f' \<Longrightarrow> confined fs f fs f'"
  by (rule confinedI) (use same_blocks_fptr [of f f'] in \<open>simp_all add: same_blocks_def own_def\<close>)

lemma confined_apart:
  assumes "apart fs f S fs'" "S \<subseteq> {i_inid f, a_bitmapLba (fs_alloc fs)}"
  shows "confined fs f fs' f"
proof (rule confinedI)
  note A = apartD [OF assms(1)]
  have "own fs' f = own fs f" using A(5) fs_geomD(1) [OF A(1)] by (simp add: own_def)
  then show "l \<in> own fs f" if "l \<in> own fs' f" for l using that by simp
  show "c_data (fs_cont fs') l = c_data (fs_cont fs) l"
    if "l \<noteq> i_inid f" "l \<noteq> a_bitmapLba (fs_alloc fs)" for l
    by (rule A(4)) (use that assms(2) in blast)
qed (use apartD(1,2) [OF assms(1)] in simp_all)

subsection \<open>Read\<close>

lemma convert_offset:
  assumes "fs_ok fs" "0 \<le> off"
  shows "SfsFile_ConvertOffset fs off = ((nat off div fs_blockSize fs) mod 4294967296, nat off mod fs_blockSize fs)"
proof -
  define s where "s = fs_blockShift fs"
  have B: "fs_blockSize fs = 2 ^ s" "fs_blockMask fs = 2 ^ s - 1" using assms(1) by (simp_all add: fs_ok_def s_def)
  have "int (fs_blockMask fs) = mask s" using B(2) by (simp add: mask_eq_exp_minus_1 of_nat_diff)
  then have "off AND int (fs_blockMask fs) = off mod 2 ^ s" by (simp add: take_bit_eq_mask [symmetric] take_bit_eq_mod)
  moreover have "drop_bit (fs_blockShift fs) off = off div 2 ^ s" by (simp add: drop_bit_eq_div s_def)
  ultimately show ?thesis
    using assms(2) B(1)
    by (simp add: SfsFile_ConvertOffset_def nat_mod_distrib nat_div_distrib nat_power_eq pos_imp_zdiv_nonneg_iff)
qed

text \<open>The offsets whose block number fits into 32 bits.\<close>

definition addressable :: "SerenaFS \<Rightarrow> int \<Rightarrow> bool" where
  "addressable fs off \<longleftrightarrow> 0 \<le> off \<and> off < 4294967296 * int (fs_blockSize fs)"

lemma addressable_split:
  assumes "fs_ok fs" "addressable fs off"
  shows "SfsFile_ConvertOffset fs off = (nat off div fs_blockSize fs, nat off mod fs_blockSize fs)"
    "nat off div fs_blockSize fs < 4294967296" "nat off mod fs_blockSize fs < fs_blockSize fs"
    "nat off div fs_blockSize fs * fs_blockSize fs + nat off mod fs_blockSize fs = nat off"
proof -
  have B: "0 < fs_blockSize fs" using fs_okD(8) [OF assms(1)] by simp
  have "nat off < 4294967296 * fs_blockSize fs" using assms(2) by (simp add: addressable_def nat_less_iff)
  then show "nat off div fs_blockSize fs < 4294967296" by (simp add: less_mult_imp_div_less)
  then show "SfsFile_ConvertOffset fs off = (nat off div fs_blockSize fs, nat off mod fs_blockSize fs)"
    using convert_offset [OF assms(1)] assms(2) by (simp add: addressable_def)
qed (use fs_okD(8) [OF assms(1)] in simp_all)

text \<open>The byte that an offset reaches, whatever the offset: its block number is cut to 32 bits.\<close>

definition spot :: "SerenaFS \<Rightarrow> int \<Rightarrow> nat" where
  "spot fs off = (case SfsFile_ConvertOffset fs off of (bn, bo) \<Rightarrow> bn * fs_blockSize fs + bo)"

lemma spot_split:
  assumes "fs_ok fs"
  obtains bn bo where "SfsFile_ConvertOffset fs off = (bn, bo)" "bn < 4294967296" "bo < fs_blockSize fs"
    "bn * fs_blockSize fs + bo = spot fs off"
proof -
  obtain bn bo where c: "SfsFile_ConvertOffset fs off = (bn, bo)" by force
  have B: "fs_blockSize fs = 2 ^ fs_blockShift fs" "fs_blockMask fs = 2 ^ fs_blockShift fs - 1"
    using assms by (simp_all add: fs_ok_def)
  have "int (fs_blockMask fs) = mask (fs_blockShift fs)" using B(2) by (simp add: mask_eq_exp_minus_1 of_nat_diff)
  then have "off AND int (fs_blockMask fs) < 2 ^ fs_blockShift fs"
    by (simp add: take_bit_eq_mask [symmetric] take_bit_int_less_exp)
  then have "bo < fs_blockSize fs" "bn < 4294967296"
    using c B(1) by (auto simp: SfsFile_ConvertOffset_def nat_less_iff)
  with that c show ?thesis by (simp add: spot_def)
qed

lemma spot_addressable: "fs_ok fs \<Longrightarrow> addressable fs off \<Longrightarrow> spot fs off = nat off"
  by (simp add: spot_def addressable_split(1,4))

definition read_count :: "Inode \<Rightarrow> int \<Rightarrow> int \<Rightarrow> nat" where
  "read_count f off n = nat (min n (i_size f - off))"

lemma read_any:
  fixes off n :: int and f :: Inode
  defines "cnt \<equiv> nat (read_limit (i_size f) off n)"
  assumes i: "idle fs f" and n: "0 \<le> n" "0 < n \<longrightarrow> 0 \<le> off" and r: "reachable fs f (spot fs off) cnt"
  obtains e out f' fs' where "SfsRegularFile_read fs f off n = Some (e, out, off + int (length out), f', fs')"
    "idle fs' f'" "fs_geom fs fs'" "fs_used fs \<subseteq> fs_used fs'" "length out \<le> cnt" "out = fbytes fs f (spot fs off) (length out)"
    "e = EOK \<longleftrightarrow> length out = cnt \<or> out \<noteq> []" "\<And>k. k < capacity fs \<Longrightarrow> fbyte fs' f' k = fbyte fs f k"
    "i_size f' = i_size f" "i_linkCount f' = i_linkCount f" "confined fs f fs' f'"
    "c_faults (fs_cont fs) = [] \<Longrightarrow> spot fs off + cnt \<le> capacity fs \<Longrightarrow>
       backed fs f (spot fs off) (spot fs off + cnt) \<Longrightarrow> e = EOK \<and> length out = cnt"
proof -
  obtain bn bo where A: "SfsFile_ConvertOffset fs off = (bn, bo)" "bn < 4294967296" "bo < fs_blockSize fs"
    "bn * fs_blockSize fs + bo = spot fs off" by (rule spot_split [OF idleD(1) [OF i]])
  from read_loop_spec [OF i A(3) lessI A(2), of cnt "[]"] A(4) r obtain e out f1 fs1 where
    l: "read_loop (Suc cnt) fs f bn bo cnt [] = Some (e, out, f1, fs1)" and p: "read_post fs f (spot fs off) cnt False e out fs1 f1" by auto
  have k: "keeps fs f fs1 f1" using p by (simp add: read_post_def)
  note K = keepsD [OF k]
  define f2 where "f2 = (if out \<noteq> [] \<and> fs_isAccessUpdateOnReadEnabled fs1 then Inode_SetModified f1 kInodeFlag_Accessed else f1)"
  have eq: "SfsRegularFile_read fs f off n = Some (e, out, off + int (length out), f2, fs1)"
    using n A(1) l by (auto simp: SfsRegularFile_read_def cnt_def f2_def Let_def simp del: read_loop.simps)
  have sb: "same_blocks f1 f2" by (simp add: f2_def)
  show ?thesis
  proof (rule that [OF eq same_blocks_idle [OF sb K(1)] K(3)])
    show "fs_used fs \<subseteq> fs_used fs1" using K(2) by (simp add: frame_def)
    show "confined fs f fs1 f2" using confined_trans confined_frame [OF K(2)] confined_same_blocks [OF sb] .
    show "fbyte fs1 f2 j = fbyte fs f j" if "j < capacity fs" for j
      using same_blocks_fbyte [OF sb] keeps_fbyte [OF k that] by simp
    have sm: "same_meta f f1" using frameD(2) [OF K(2)] .
    show "i_size f2 = i_size f" "i_linkCount f2 = i_linkCount f"
      using same_metaD(1,3) [OF sm] by (simp_all add: f2_def Inode_SetModified_def)
  qed (use p in \<open>simp_all add: read_post_def\<close>)
qed

lemma read_spec:
  assumes i: "idle fs f" and off: "addressable fs off" and n: "0 \<le> n" "n \<le> SSIZE_MAX"
    and r: "reachable fs f (nat off) (read_count f off n)"
  obtains e out f' fs' where "SfsRegularFile_read fs f off n = Some (e, out, off + int (length out), f', fs')"
    "idle fs' f'" "fs_geom fs fs'" "fs_used fs \<subseteq> fs_used fs'"
    "length out \<le> read_count f off n" "out = fbytes fs f (nat off) (length out)"
    "e = EOK \<longleftrightarrow> length out = read_count f off n \<or> out \<noteq> []"
    "\<And>k. k < capacity fs \<Longrightarrow> fbyte fs' f' k = fbyte fs f k"
    "i_size f' = i_size f" "i_linkCount f' = i_linkCount f" "confined fs f fs' f'"
    "c_faults (fs_cont fs) = [] \<Longrightarrow> nat off + read_count f off n \<le> capacity fs \<Longrightarrow>
       backed fs f (nat off) (nat off + read_count f off n) \<Longrightarrow> e = EOK \<and> length out = read_count f off n"
proof -
  have c: "nat (read_limit (i_size f) off n) = read_count f off n"
    using n by (auto simp: read_limit_def read_count_def min_def Let_def)
  have o: "0 < n \<longrightarrow> 0 \<le> off" using off by (simp add: addressable_def)
  note s = spot_addressable [OF idleD(1) [OF i] off]
  show ?thesis by (rule read_any [OF i n(1) o, unfolded s c, OF r that])
qed

subsection \<open>Write\<close>

text \<open>
  What a write does to the volume: \<open>w\<close> bytes of the file from offset \<open>off\<close> are those of the buffer, all other bytes of the
  file and all blocks that are in use by others keep their content.
\<close>

definition wrote :: "SerenaFS \<Rightarrow> Inode \<Rightarrow> nat \<Rightarrow> nat \<Rightarrow> u8 list \<Rightarrow> SerenaFS \<Rightarrow> Inode \<Rightarrow> bool" where
  "wrote fs f off w buf fs' f' \<longleftrightarrow> idle fs' f' \<and> fs_geom fs fs' \<and> fs_used fs \<subseteq> fs_used fs'
   \<and> (w \<noteq> 0 \<longrightarrow> off + w \<le> capacity fs)
   \<and> (\<forall>k < capacity fs. fbyte fs' f' k = (if off \<le> k \<and> k < off + w then buf ! (k - off) else fbyte fs f k))
   \<and> (w \<noteq> 0 \<longrightarrow> backed fs' f' off (off + w)) \<and> confined fs f fs' f'"

lemma overwrites_backed:
  assumes "overwrites fs f off w sp fs' f'" "w \<noteq> 0"
  shows "backed fs' f' off (off + w)"
  using overwritesD(6-8) [OF assms(1)] assms(2) by (auto simp: backed_def)

lemma wrote_meta:
  assumes o: "overwrites fs f off w sp fs1 f1" and a: "apart fs1 f1 S fs2" and S: "S \<subseteq> {i_inid f, a_bitmapLba (fs_alloc fs)}"
    and sb: "same_blocks f1 f2"
  shows "wrote fs f off w sp fs2 f2"
proof -
  note O = overwritesD [OF o] note A = apartD [OF a]
  have cap: "capacity fs1 = capacity fs" "n_blocks fs2 = n_blocks fs" "fs_blockSize fs2 = fs_blockSize fs"
    using O(7-9) fs_geomD(1,2) [OF A(1)] by simp_all
  have "backed fs2 f2 off (off + w)" if "w \<noteq> 0"
    using overwrites_backed [OF o that] A(5) cap same_blocks_fptr [OF sb] O(7,8) by (simp add: backed_def)
  moreover have "fbyte fs2 f2 k = (if off \<le> k \<and> k < off + w then sp ! (k - off) else fbyte fs f k)" if "k < capacity fs" for k
    using O(4) [OF that] apart_fbyte [OF a] cap(1) that same_blocks_fbyte [OF sb] by simp
  moreover have "S \<subseteq> {i_inid f1, a_bitmapLba (fs_alloc fs1)}"
    using S fs_geomD(3) [OF O(10)] same_metaD(2) [OF frameD(2) [OF O(2)]] by simp
  then have "confined fs f fs2 f2"
    using confined_trans confined_trans [OF confined_frame [OF O(2)] confined_apart [OF a]] confined_same_blocks [OF sb] by blast
  moreover have "fs_used fs \<subseteq> fs_used fs2" using O(2) A(2) by (simp add: frame_def)
  moreover have "fs_geom fs fs2" using fs_geom_trans O(10) A(1) .
  ultimately show ?thesis using same_blocks_idle [OF sb A(3)] O(3) by (simp add: wrote_def)
qed

definition grown :: "Inode \<Rightarrow> int \<Rightarrow> Inode" where
  "grown f endOffset = Inode_SetModified (if endOffset > i_size f then f\<lparr>i_size := endOffset\<rparr> else f)
     (kInodeFlag_Updated OR kInodeFlag_StatusChanged)"

lemma grown_simps [simp]: "same_blocks f (grown f x)" "i_linkCount (grown f x) = i_linkCount f"
  "i_size (grown f x) = max (i_size f) x" "i_inid (grown f x) = i_inid f"
  by (auto simp: grown_def same_blocks_def Inode_SetModified_def)

lemma write_eq:
  assumes "0 \<le> n" "0 < n \<longrightarrow> 0 \<le> off \<and> off < MAX_FILE_SIZE" "SfsFile_ConvertOffset fs off = (bi, bo)" "m = nat (write_limit off n)"
    "write_loop (Suc m) fs f bi bo m buf 0 = Some (e, w, f1, fs1)" "commit fs1 = Some (e2, fs2)"
    "0 < w \<Longrightarrow> Inode_Writeback fs2 (grown f1 (off + int w)) = Some (e3, f3, fs3)"
  shows "SfsRegularFile_write fs f off buf n =
    (if 0 < w then Some (if e = EOK then e2 else e, w, off + int w, f3, fs3)
     else Some (if e = EOK then e2 else e, w, off, f1, fs2))"
proof (cases "0 < n")
  case True
  then have "\<not> off < 0" "\<not> MAX_FILE_SIZE \<le> off" using assms(2) by linarith+
  then show ?thesis using assms True by (simp add: SfsRegularFile_write_def grown_def Let_def del: write_loop.simps)
next
  case False
  then show ?thesis using assms by (simp add: SfsRegularFile_write_def grown_def Let_def del: write_loop.simps)
qed

lemma write_any:
  fixes off n :: int
  defines "m \<equiv> nat (write_limit off n)"
  assumes i: "idle fs f" and lc: "i_linkCount f \<noteq> 0" and n: "0 \<le> n" "0 < n \<longrightarrow> 0 \<le> off \<and> off < MAX_FILE_SIZE"
    and b: "m \<le> length buf" and r: "reachable fs f (spot fs off) m"
  obtains e w f' fs' where "SfsRegularFile_write fs f off buf n = Some (e, w, off + int w, f', fs')" "w \<le> m"
    "wrote fs f (spot fs off) w buf fs' f'" "i_size f' = (if w = 0 then i_size f else max (i_size f) (off + int w))"
    "i_linkCount f' = i_linkCount f"
    "c_faults (fs_cont fs) = [] \<longrightarrow> (e = EOK \<longleftrightarrow> w = m \<or> 0 < w)"
    "c_faults (fs_cont fs) = [] \<and> spot fs off + m \<le> capacity fs \<and> w < m \<longrightarrow> {1..<a_volumeBlockCount (fs_alloc fs)} \<subseteq> fs_used fs'"
proof -
  obtain bn bo where A: "SfsFile_ConvertOffset fs off = (bn, bo)" "bn < 4294967296" "bo < fs_blockSize fs"
    "bn * fs_blockSize fs + bo = spot fs off" by (rule spot_split [OF idleD(1) [OF i]])
  from write_loop_spec [OF i A(3) lessI A(2) b, of 0] A(4) r obtain e w f1 fs1 where
    l: "write_loop (Suc m) fs f bn bo m buf 0 = Some (e, w, f1, fs1)"
    and p: "write_post fs f (spot fs off) m buf False e w fs1 f1" by auto
  have o: "overwrites fs f (spot fs off) w buf fs1 f1" and wn: "w \<le> m" and ee: "e = EOK \<longleftrightarrow> w = m \<or> 0 < w"
    and full: "c_faults (fs_cont fs) = [] \<and> spot fs off + m \<le> capacity fs \<and> w < m \<longrightarrow>
       {1..<a_volumeBlockCount (fs_alloc fs)} \<subseteq> fs_used fs1" using p by (simp_all add: write_post_def)
  note O = overwritesD [OF o]
  have meta: "same_meta f f1" using frameD(2) [OF O(2)] .
  obtain e2 fs2 where c: "commit fs1 = Some (e2, fs2)" "apart fs1 f1 {a_bitmapLba (fs_alloc fs1)} fs2"
    and ce: "c_faults (fs_cont fs1) = [] \<longrightarrow> e2 = EOK" using commit_apart [OF O(1)] by blast
  have bl: "a_bitmapLba (fs_alloc fs1) = a_bitmapLba (fs_alloc fs)" using fs_geomD(3) [OF O(10)] .
  have e2: "e2 = EOK" if "c_faults (fs_cont fs) = []" using ce fs_geomD(4) [OF O(10) that] by simp
  have u2: "fs_used fs2 = fs_used fs1" using apartD(2) [OF c(2)] .
  note eq0 = write_eq [OF n A(1) m_def [THEN meta_eq_to_obj_eq] l c(1)]
  show ?thesis
  proof (cases "0 < w")
    case False
    have "SfsRegularFile_write fs f off buf n = Some (if e = EOK then e2 else e, w, off, f1, fs2)"
      using eq0 False by simp
    moreover have "wrote fs f (spot fs off) w buf fs2 f1"
      by (rule wrote_meta [OF o c(2)]) (use bl in simp_all)
    ultimately show ?thesis
      using that False wn ee e2 full u2 same_metaD(1,3) [OF meta] by simp
  next
    case True
    let ?g = "grown f1 (off + int w)"
    have ig: "idle fs2 ?g" by (rule same_blocks_idle [OF _ apartD(3) [OF c(2)]]) simp
    have "i_linkCount ?g \<noteq> 0" using lc same_metaD(3) [OF meta] by simp
    from writeback_linked [OF ig this] obtain e3 fs3 where
      wb: "Inode_Writeback fs2 ?g = Some (e3, clear_flags ?g, fs3)" "apart fs2 ?g {i_inid ?g} fs3" by metis
    have a3: "apart fs2 f1 {i_inid f1} fs3"
      using same_blocks_apart [OF grown_simps(1) wb(2)] by simp
    have a: "apart fs1 f1 ({a_bitmapLba (fs_alloc fs1)} \<union> {i_inid f1}) fs3" using apart_trans c(2) a3 .
    have eq: "SfsRegularFile_write fs f off buf n = Some (if e = EOK then e2 else e, w, off + int w, clear_flags ?g, fs3)"
      using eq0 [OF wb(1)] True by simp
    have wr: "wrote fs f (spot fs off) w buf fs3 (clear_flags ?g)"
      by (rule wrote_meta [OF o a])
        (use bl same_metaD(2) [OF meta] same_blocks_trans [of f1 ?g "clear_flags ?g"] in simp_all)
    show ?thesis
      by (rule that [OF eq wn wr])
        (use True ee e2 full u2 apartD(2) [OF a] same_metaD(1,3) [OF meta] in \<open>simp_all add: clear_flags_def\<close>)
  qed
qed

lemma write_spec:
  assumes i: "idle fs f" and lc: "i_linkCount f \<noteq> 0" and off: "addressable fs off"
    and n: "0 \<le> n" "off + n \<le> MAX_FILE_SIZE" "nat n \<le> length buf" and r: "reachable fs f (nat off) (nat n)"
  obtains e w f' fs' where "SfsRegularFile_write fs f off buf n = Some (e, w, off + int w, f', fs')" "w \<le> nat n"
    "wrote fs f (nat off) w buf fs' f'" "i_size f' = (if w = 0 then i_size f else max (i_size f) (off + int w))"
    "i_linkCount f' = i_linkCount f"
    "c_faults (fs_cont fs) = [] \<longrightarrow> (e = EOK \<longleftrightarrow> w = nat n \<or> 0 < w)"
    "c_faults (fs_cont fs) = [] \<and> nat off + nat n \<le> capacity fs \<and> w < nat n \<longrightarrow> {1..<a_volumeBlockCount (fs_alloc fs)} \<subseteq> fs_used fs'"
proof -
  have l: "write_limit off n = n" using n by (auto simp: write_limit_def Let_def)
  have o: "0 < n \<longrightarrow> 0 \<le> off \<and> off < MAX_FILE_SIZE" using off n(2) by (simp add: addressable_def)
  note s = spot_addressable [OF idleD(1) [OF i] off]
  show ?thesis by (rule write_any [OF i lc n(1) o, unfolded s l, OF n(3) r that])
qed

end
