(* ===== verification/SfsTrim.thy ===== *)
theory SfsTrim
  imports SfsFileOps
begin

section \<open>Trimming, truncating and deleting files\<close>

text \<open>
  \<open>SfsFile_Trim\<close> frees the blocks behind the new end of a file; \<open>SfsRegularFile_truncate\<close> and the
  write back of an inode that is not linked any more are built on it.
\<close>

subsection \<open>The loops of trim\<close>

lemma trim_direct_spec:
  assumes "alloc_ok al" "bn + n \<le> length direct" "\<forall>p \<in> set direct. p < a_volumeBlockCount al"
  shows "\<exists>t al'. trim_direct al direct bn n t0 = Some (t, take bn direct @ replicate n 0 @ drop (bn + n) direct, al') \<and>
    alloc_ok al' \<and> same_geom al al' \<and> used al' = used al - (set (take n (drop bn direct)) - {0})"
  using assms
proof (induction n arbitrary: al direct bn t0)
  case (Suc n)
  have bn: "bn < length direct" using Suc.prems(2) by simp
  define p where "p = direct ! bn"
  have tk: "take (Suc n) (drop bn direct) = p # take n (drop (Suc bn) direct)"
    using bn by (simp add: p_def Cons_nth_drop_Suc [symmetric])
  have list: "take (Suc bn) (direct[bn := 0]) @ replicate n 0 @ drop (Suc bn + n) direct =
      take bn direct @ replicate (Suc n) 0 @ drop (bn + Suc n) direct"
    using bn by (simp add: take_Suc_conv_app_nth)
  show ?case
  proof (cases "p = 0")
    case True
    have d0: "direct[bn := 0] = direct" using True p_def by (metis list_update_id)
    from Suc.IH [OF Suc.prems(1) _ Suc.prems(3), of "Suc bn" t0] Suc.prems(2) obtain t al' where
      IH: "trim_direct al direct (Suc bn) n t0 = Some (t, take (Suc bn) direct @ replicate n 0 @ drop (Suc bn + n) direct, al')"
      "alloc_ok al'" "same_geom al al'" "used al' = used al - (set (take n (drop (Suc bn) direct)) - {0})" by auto
    show ?thesis
      using IH bn True tk list [unfolded d0] by (simp add: p_def)
  next
    case False
    have "p < a_volumeBlockCount al" using Suc.prems(3) bn by (simp add: p_def)
    from deallocate_spec [OF Suc.prems(1) this] obtain al1 where
      a1: "SfsAllocator_Deallocate al p = Some al1" "alloc_ok al1" "same_geom al al1" "used al1 = used al - {p}"
      using False by metis
    have len: "Suc bn + n \<le> length (direct[bn := 0])" using Suc.prems(2) by simp
    have pos: "0 < a_volumeBlockCount al" using Suc.prems(1) by (simp add: alloc_ok_def)
    have "set (direct[bn := 0]) \<subseteq> insert 0 (set direct)" by (rule set_update_subset_insert)
    then have rng: "\<forall>q \<in> set (direct[bn := 0]). q < a_volumeBlockCount al1"
      using Suc.prems(3) a1(3) pos by (auto simp: same_geom_def)
    from Suc.IH [OF a1(2) len rng, of True] obtain t al' where
      IH: "trim_direct al1 (direct[bn := 0]) (Suc bn) n True =
         Some (t, take (Suc bn) (direct[bn := 0]) @ replicate n 0 @ drop (Suc bn + n) (direct[bn := 0]), al')"
      "alloc_ok al'" "same_geom al1 al'" "used al' = used al1 - (set (take n (drop (Suc bn) (direct[bn := 0]))) - {0})" by blast
    have dr: "drop (Suc bn) (direct[bn := 0]) = drop (Suc bn) direct" "drop (Suc bn + n) (direct[bn := 0]) = drop (Suc bn + n) direct"
      by simp_all
    have "trim_direct al direct bn (Suc n) t0 = Some (t, take bn direct @ replicate (Suc n) 0 @ drop (bn + Suc n) direct, al')"
      using bn False a1(1) IH(1) list dr by (simp add: p_def)
    moreover have "used al' = used al - (set (take (Suc n) (drop bn direct)) - {0})"
      using IH(4) a1(4) tk False dr(1) by auto
    ultimately show ?thesis using IH(2,3) a1(3) same_geom_trans by blast
  qed
qed (simp add: exI)

definition i0_trimmed :: "bool \<Rightarrow> u8 list \<Rightarrow> nat \<Rightarrow> nat \<Rightarrow> u8 list \<Rightarrow> bool" where
  "i0_trimmed upd d bn n d' \<longleftrightarrow> length d' = length d \<and> (\<not> upd \<longrightarrow> d' = d)
   \<and> (\<forall>j < length d div 4. entry d' j = (if upd \<and> bn \<le> j \<and> j < bn + n then 0 else entry d j))"

lemma trim_i0_spec:
  assumes "alloc_ok al" "bn + n \<le> length d div 4" "\<forall>j < length d div 4. entry d j < a_volumeBlockCount al"
  shows "\<exists>t d' al'. trim_i0 upd al d bn n t0 = Some (t, d', al') \<and> alloc_ok al' \<and> same_geom al al' \<and>
    i0_trimmed upd d bn n d' \<and> used al' = used al - (entry d ` {bn..<bn + n} - {0})"
  using assms
proof (induction n arbitrary: al d bn t0)
  case (Suc n)
  define p where "p = entry d bn"
  have bn: "bn < length d div 4" using Suc.prems(2) by simp
  have at: "be_at d (4 * bn) 4 = Some p" using entry_at bn by (simp add: p_def)
  have img: "entry d ` {bn..<bn + Suc n} = insert p (entry d ` {Suc bn..<Suc bn + n})"
  proof -
    have "{bn..<bn + Suc n} = insert bn {Suc bn..<Suc bn + n}" by auto
    then show ?thesis by (simp add: p_def)
  qed
  show ?case
  proof (cases "p = 0")
    case True
    from Suc.IH [OF Suc.prems(1) _ Suc.prems(3), of "Suc bn" t0] Suc.prems(2) obtain t d' al' where
      IH: "trim_i0 upd al d (Suc bn) n t0 = Some (t, d', al')" "alloc_ok al'" "same_geom al al'"
      "i0_trimmed upd d (Suc bn) n d'" "used al' = used al - (entry d ` {Suc bn..<Suc bn + n} - {0})" by auto
    have "i0_trimmed upd d bn (Suc n) d'"
      using IH(4) True by (auto simp: i0_trimmed_def p_def Suc_le_eq le_less)
    moreover have "used al' = used al - (entry d ` {bn..<bn + Suc n} - {0})" using IH(5) img True by simp
    moreover have "trim_i0 upd al d bn (Suc n) t0 = Some (t, d', al')" using IH(1) at True by simp
    ultimately show ?thesis using IH(2,3) by blast
  next
    case False
    have "p < a_volumeBlockCount al" using Suc.prems(3) bn by (simp add: p_def)
    from deallocate_spec [OF Suc.prems(1) this] obtain al1 where
      a1: "SfsAllocator_Deallocate al p = Some al1" "alloc_ok al1" "same_geom al al1" "used al1 = used al - {p}"
      using False by metis
    obtain d1 where d1: "(if upd then put_bytes d (4 * bn) (be32_put 0) else Some d) = Some d1" "length d1 = length d"
      "\<not> upd \<longrightarrow> d1 = d" "\<forall>j < length d div 4. entry d1 j = (if upd \<and> j = bn then 0 else entry d j)"
    proof (cases upd)
      case True
      from entry_put [OF bn, of 0] obtain d1 where "put_bytes d (4 * bn) (be32_put 0) = Some d1" "length d1 = length d"
        "\<And>j. j < length d div 4 \<Longrightarrow> entry d1 j = (if j = bn then 0 mod 4294967296 else entry d j)" by blast
      then show ?thesis using that True by simp
    qed (use that in simp)
    have pos: "0 < a_volumeBlockCount al" using Suc.prems(1) by (simp add: alloc_ok_def)
    have rng: "\<forall>j < length d1 div 4. entry d1 j < a_volumeBlockCount al1"
      using d1(2,4) Suc.prems(3) a1(3) pos by (simp add: same_geom_def)
    have le: "Suc bn + n \<le> length d1 div 4" using d1(2) Suc.prems(2) by simp
    from Suc.IH [OF a1(2) le rng, of True] obtain t d' al' where
      IH: "trim_i0 upd al1 d1 (Suc bn) n True = Some (t, d', al')" "alloc_ok al'" "same_geom al1 al'"
      "i0_trimmed upd d1 (Suc bn) n d'" "used al' = used al1 - (entry d1 ` {Suc bn..<Suc bn + n} - {0})" by blast
    have same: "entry d1 ` {Suc bn..<Suc bn + n} = entry d ` {Suc bn..<Suc bn + n}"
      by (rule image_cong) (use d1(4) Suc.prems(2) in simp_all)
    have "i0_trimmed upd d bn (Suc n) d'"
      using IH(4) d1(2-4) unfolding i0_trimmed_def by (auto simp: Suc_le_eq le_less)
    moreover have "used al' = used al - (entry d ` {bn..<bn + Suc n} - {0})" using IH(5) same a1(4) img False by auto
    moreover have "trim_i0 upd al d bn (Suc n) t0 = Some (t, d', al')" using IH(1) at False a1(1) d1(1) by simp
    ultimately show ?thesis using IH(2,3) a1(3) same_geom_trans by blast
  qed
qed (simp add: exI i0_trimmed_def)

subsection \<open>Trim\<close>

text \<open>
  The file after its blocks from \<open>lo\<close> up to \<open>hi\<close> have been discarded: these are free, all other blocks keep their
  place and content.
\<close>

definition discards :: "SerenaFS \<Rightarrow> Inode \<Rightarrow> nat \<Rightarrow> nat \<Rightarrow> SerenaFS \<Rightarrow> Inode \<Rightarrow> bool" where
  "discards fs f lo hi fs' f' \<longleftrightarrow> idle fs' f' \<and> fs_geom fs fs'
   \<and> (\<forall>b < n_blocks fs. fptr fs' f' b = (if lo \<le> b \<and> b < hi then 0 else fptr fs f b)
        \<and> (\<not> (lo \<le> b \<and> b < hi) \<longrightarrow> fblock fs' f' b = fblock fs f b))
   \<and> fs_used fs' = fs_used fs - (fptr fs f ` {b. lo \<le> b \<and> b < hi \<and> b < n_blocks fs} - {0})
   \<and> (\<forall>l. l \<noteq> i_indirect f \<longrightarrow> c_data (fs_cont fs') l = c_data (fs_cont fs) l)
   \<and> (i_indirect f' = i_indirect f \<or> i_indirect f' = 0)"

lemma discardsD:
  assumes "discards fs f lo hi fs' f'"
  shows "idle fs' f'" "fs_geom fs fs'" "b < n_blocks fs \<Longrightarrow> fptr fs' f' b = (if lo \<le> b \<and> b < hi then 0 else fptr fs f b)"
    "b < n_blocks fs \<Longrightarrow> \<not> (lo \<le> b \<and> b < hi) \<Longrightarrow> fblock fs' f' b = fblock fs f b"
    "fs_used fs' = fs_used fs - (fptr fs f ` {b. lo \<le> b \<and> b < hi \<and> b < n_blocks fs} - {0})"
    "l \<noteq> i_indirect f \<Longrightarrow> c_data (fs_cont fs') l = c_data (fs_cont fs) l"
  using assms by (simp_all add: discards_def)

lemma discards_intro:
  assumes i: "idle fs f" and ok: "fs_ok fs'" and l: "c_locked (fs_cont fs') = {}" and g: "fs_geom fs fs'"
    and ptr: "\<And>b. b < n_blocks fs \<Longrightarrow> fptr fs' f' b = (if lo \<le> b \<and> b < hi then 0 else fptr fs f b)"
    and u: "fs_used fs' = fs_used fs - (fptr fs f ` {b. lo \<le> b \<and> b < hi \<and> b < n_blocks fs} - {0})"
    and d: "\<And>l. l \<noteq> i_indirect f \<Longrightarrow> c_data (fs_cont fs') l = c_data (fs_cont fs) l"
    and f': "length (i_direct f') = kSFSDirectBlockPointersCount" "i_inid f' = i_inid f" "i_indirect f' = i_indirect f \<or> i_indirect f' = 0"
  shows "discards fs f lo hi fs' f'"
proof -
  note F = file_okD [OF idleD(2) [OF i]]
  have n: "n_blocks fs' = n_blocks fs" and bl: "a_bitmapLba (fs_alloc fs') = a_bitmapLba (fs_alloc fs)"
    and B: "fs_blockSize fs' = fs_blockSize fs" using fs_geomD g by auto
  have keep: "p \<in> fs_used fs'" if "p \<in> fs_used fs" "\<And>b. b < n_blocks fs \<Longrightarrow> lo \<le> b \<Longrightarrow> b < hi \<Longrightarrow> p \<noteq> fptr fs f b" for p
    using that u by auto
  have live: "fptr fs f b \<in> fs_used fs'" if "b < n_blocks fs" "\<not> (lo \<le> b \<and> b < hi)" "fptr fs f b \<noteq> 0" for b
    by (rule keep [OF F(2) [OF that(1,3)]]) (use F(12) [OF that(1) _ that(3)] that in auto)
  have "file_ok fs' f'"
  proof (rule file_okI)
    fix b1 b2 assume "b1 < n_blocks fs'" "b2 < n_blocks fs'" "fptr fs' f' b1 \<noteq> 0" "fptr fs' f' b1 = fptr fs' f' b2"
    then show "b1 = b2" using ptr [of b1] ptr [of b2] F(12) [of b1 b2] n by (auto split: if_splits)
  next
    fix b assume a: "b < n_blocks fs'" "fptr fs' f' b \<noteq> 0"
    then have b: "b < n_blocks fs" "\<not> (lo \<le> b \<and> b < hi)" "fptr fs' f' b = fptr fs f b" "fptr fs f b \<noteq> 0"
      using ptr [of b] n by (auto split: if_splits)
    then show "fptr fs' f' b \<in> fs_used fs' \<and> fptr fs' f' b \<noteq> i_indirect f' \<and> fptr fs' f' b \<noteq> i_inid f' \<and>
        fptr fs' f' b \<noteq> a_bitmapLba (fs_alloc fs')"
      using live [OF b(1,2,4)] F(3-5) [OF b(1,4)] f'(2,3) bl by auto
  next
    assume a: "i_indirect f' \<noteq> 0"
    then have e: "i_indirect f' = i_indirect f" using f'(3) by simp
    have "i_indirect f \<in> fs_used fs'"
      by (rule keep [OF F(6)]) (use a e in simp, use a e F(3) in metis)
    then show "i_indirect f' \<in> fs_used fs' \<and> i_indirect f' \<noteq> i_inid f' \<and> i_indirect f' \<noteq> a_bitmapLba (fs_alloc fs')"
      using a e F(7,8) f'(2) bl by simp
  next
    show "i_inid f' \<in> fs_used fs'" unfolding f'(2) by (rule keep [OF F(9)]) (use F(4,11) in metis)
  qed (use f' F(10,11) bl in auto)
  moreover have "fblock fs' f' b = fblock fs f b" if "b < n_blocks fs" "\<not> (lo \<le> b \<and> b < hi)" for b
    using ptr [OF that(1)] that d [of "fptr fs f b"] F(3) [OF that(1)] B by (auto simp: fblock_def)
  ultimately show ?thesis using ok l g ptr u d f'(3) by (auto simp: discards_def idle_def)
qed

definition first_free :: "SerenaFS \<Rightarrow> int \<Rightarrow> nat" where
  "first_free fs len = nat len div fs_blockSize fs + (if 0 < nat len mod fs_blockSize fs then 1 else 0)"

lemma trim_first:
  assumes "fs_ok fs" "0 \<le> len" "len < 4294967295 * int (fs_blockSize fs)"
  shows "SfsFile_ConvertOffset fs len = (bn, bo) \<Longrightarrow> (if 0 < bo then (bn + 1) mod 4294967296 else bn) = first_free fs len"
proof -
  assume c: "SfsFile_ConvertOffset fs len = (bn, bo)"
  have "nat len < 4294967295 * fs_blockSize fs" using assms(2,3) by (simp add: nat_less_iff)
  then have q: "nat len div fs_blockSize fs < 4294967295" by (simp add: less_mult_imp_div_less)
  then have "bn = nat len div fs_blockSize fs" "bo = nat len mod fs_blockSize fs"
    using c convert_offset [OF assms(1,2)] by simp_all
  then show ?thesis using q by (simp add: first_free_def)
qed

lemma direct_range:
  assumes "idle fs f"
  shows "\<forall>p \<in> set (i_direct f). p < a_volumeBlockCount (fs_alloc fs)"
proof
  fix p assume "p \<in> set (i_direct f)"
  then obtain b where b: "b < length (i_direct f)" "p = i_direct f ! b" by (auto simp: in_set_conv_nth)
  note F = file_okD [OF idleD(2) [OF assms]]
  have pos: "0 < a_volumeBlockCount (fs_alloc fs)" using fs_okD(1) [OF idleD(1) [OF assms]] by (simp add: alloc_ok_def)
  have "fptr fs f b = p" "b < n_blocks fs" using b F(1) by (simp_all add: fptr_def n_blocks_def)
  then show "p < a_volumeBlockCount (fs_alloc fs)"
    using F(2) [of b] used_less pos by (cases "p = 0") (auto simp: fs_used_def)
qed

lemma entries_range:
  assumes i: "idle fs f" and nz: "i_indirect f \<noteq> 0"
  shows "\<forall>j < length (c_data (fs_cont fs) (i_indirect f)) div 4. entry (c_data (fs_cont fs) (i_indirect f)) j < a_volumeBlockCount (fs_alloc fs)"
proof (intro allI impI)
  fix j assume j: "j < length (c_data (fs_cont fs) (i_indirect f)) div 4"
  note ok = idleD(1) [OF i] note D = fs_okD [OF ok]
  have jn: "j < fs_indirectBlockEntryCount fs" using j cont_okD(1) [OF D(3)] D(4,9) by simp
  have pos: "0 < a_volumeBlockCount (fs_alloc fs)" using D(1) by (simp add: alloc_ok_def)
  let ?p = "entry (c_data (fs_cont fs) (i_indirect f)) j"
  have "fptr fs f (kSFSDirectBlockPointersCount + j) = ?p" "kSFSDirectBlockPointersCount + j < n_blocks fs"
    using fptr_indirect nz jn by (simp_all add: n_blocks_def)
  then show "?p < a_volumeBlockCount (fs_alloc fs)"
    using file_okD(2) [OF idleD(2) [OF i], of "kSFSDirectBlockPointersCount + j"] used_less pos
    by (cases "?p = 0") (auto simp: fs_used_def)
qed

text \<open>The direct part: the allocator and the direct pointers after the first loop.\<close>

lemma trim_direct_part:
  assumes i: "idle fs f"
  obtains t d al where "trim_direct (fs_alloc fs) (i_direct f) lo (kSFSDirectBlockPointersCount - lo) t0 = Some (t, d, al)"
    "length d = kSFSDirectBlockPointersCount" "\<forall>b < kSFSDirectBlockPointersCount. d ! b = (if lo \<le> b then 0 else i_direct f ! b)"
    "alloc_ok al" "same_geom (fs_alloc fs) al"
    "used al = fs_used fs - (fptr fs f ` {b. lo \<le> b \<and> b < kSFSDirectBlockPointersCount} - {0})"
proof -
  note ok = idleD(1) [OF i] note D = fs_okD [OF ok] note F = file_okD [OF idleD(2) [OF i]]
  define n where "n = kSFSDirectBlockPointersCount - lo"
  show ?thesis
  proof (cases "lo \<le> kSFSDirectBlockPointersCount")
    case True
    then have le: "lo + n \<le> length (i_direct f)" using F(1) by (simp add: n_def)
    from trim_direct_spec [OF D(1) le direct_range [OF i], of t0] obtain t al where
      t: "trim_direct (fs_alloc fs) (i_direct f) lo n t0 =
         Some (t, take lo (i_direct f) @ replicate n 0 @ drop (lo + n) (i_direct f), al)" "alloc_ok al"
      "same_geom (fs_alloc fs) al" "used al = used (fs_alloc fs) - (set (take n (drop lo (i_direct f))) - {0})" by blast
    have "set (take n (drop lo (i_direct f))) = fptr fs f ` {b. lo \<le> b \<and> b < kSFSDirectBlockPointersCount}"
    proof -
      have "set (take n (drop lo (i_direct f))) = (\<lambda>j. drop lo (i_direct f) ! j) ` {0..<n}"
        using le by (subst nth_image [symmetric]) simp_all
      also have "\<dots> = (\<lambda>j. i_direct f ! (lo + j)) ` {0..<n}" using le by (intro image_cong) simp_all
      also have "\<dots> = fptr fs f ` ((\<lambda>j. lo + j) ` {0..<n})"
        unfolding image_image by (intro image_cong) (use True in \<open>simp_all add: fptr_direct n_def less_diff_conv add.commute\<close>)
      also have "(\<lambda>j. lo + j) ` {0..<n} = {b. lo \<le> b \<and> b < kSFSDirectBlockPointersCount}"
        using True by (auto simp: n_def image_iff intro: bexI [of _ "x - lo" for x])
      finally show ?thesis .
    qed
    then show ?thesis
      using that [OF t(1) [unfolded n_def] _ _ t(2,3)] t(4) F(1) True
      by (auto simp: n_def nth_append fs_used_def)
  next
    case False
    then have "used (fs_alloc fs) = fs_used fs - (fptr fs f ` {b. lo \<le> b \<and> b < kSFSDirectBlockPointersCount} - {0})"
      by (auto simp: fs_used_def)
    with False show ?thesis using F(1) D(1) by (intro that [of t0 "i_direct f" "fs_alloc fs"]) simp_all
  qed
qed

text \<open>The state between the two loops of trim.\<close>

lemma after_direct:
  assumes i: "idle fs f" and d: "length d = kSFSDirectBlockPointersCount"
    "\<forall>b < kSFSDirectBlockPointersCount. d ! b = (if lo \<le> b then 0 else i_direct f ! b)"
    and al: "alloc_ok al" "same_geom (fs_alloc fs) al"
      "used al = fs_used fs - (fptr fs f ` {b. lo \<le> b \<and> b < kSFSDirectBlockPointersCount} - {0})"
  shows "discards fs f lo kSFSDirectBlockPointersCount (fs\<lparr>fs_alloc := al\<rparr>) (f\<lparr>i_direct := d\<rparr>)"
proof -
  note ok = idleD(1) [OF i] note D = fs_okD [OF ok] note F = file_okD [OF idleD(2) [OF i]]
  have g: "fs_geom fs (fs\<lparr>fs_alloc := al\<rparr>)" using al(2) by (simp add: fs_geom_def)
  have set: "{b. lo \<le> b \<and> b < kSFSDirectBlockPointersCount \<and> b < n_blocks fs} = {b. lo \<le> b \<and> b < kSFSDirectBlockPointersCount}"
    by (auto simp: n_blocks_def)
  have "a_bitmapLba (fs_alloc fs) \<notin> fptr fs f ` {b. lo \<le> b \<and> b < kSFSDirectBlockPointersCount} - {0}"
    using own_disjoint(1) [OF idleD(2) [OF i]] by (auto simp: own_def n_blocks_def)
  then have bu: "a_bitmapLba (fs_alloc fs) \<in> fs_used (fs\<lparr>fs_alloc := al\<rparr>)" using al(3) D(7) by (simp add: fs_used_def)
  show ?thesis
  proof (rule discards_intro [OF i])
    show "fs_ok (fs\<lparr>fs_alloc := al\<rparr>)"
      by (rule fs_ok_step [OF ok g]) (use D al bu idleD(3) [OF i] in simp_all)
  qed (use g idleD(3) [OF i] d al(3) set in \<open>simp_all add: fs_used_def fptr_def\<close>)
qed

lemma discards_trans:
  assumes 1: "discards fs f lo m fs1 f1" and 2: "discards fs1 f1 (max lo m) hi fs2 f2"
    and m: "m \<le> hi" and ind: "i_indirect f1 = i_indirect f"
  shows "discards fs f lo hi fs2 f2"
proof -
  note A = discardsD [OF 1] note B = discardsD [OF 2]
  have n: "n_blocks fs1 = n_blocks fs" using fs_geomD(1) [OF A(2)] .
  have g: "fs_geom fs fs2" using fs_geom_trans A(2) B(2) .
  let ?X = "{b. lo \<le> b \<and> b < m \<and> b < n_blocks fs}" and ?Y = "{b. max lo m \<le> b \<and> b < hi \<and> b < n_blocks fs}"
  have Y: "fptr fs1 f1 ` ?Y = fptr fs f ` ?Y" by (rule image_cong) (use A(3) in auto)
  have XY: "{b. lo \<le> b \<and> b < hi \<and> b < n_blocks fs} = ?X \<union> ?Y" using m by auto
  have u: "fs_used fs2 = fs_used fs - (fptr fs f ` {b. lo \<le> b \<and> b < hi \<and> b < n_blocks fs} - {0})"
    unfolding B(5) A(5) n Y XY by blast
  have "fptr fs2 f2 b = (if lo \<le> b \<and> b < hi then 0 else fptr fs f b) \<and>
      (\<not> (lo \<le> b \<and> b < hi) \<longrightarrow> fblock fs2 f2 b = fblock fs f b)" if b: "b < n_blocks fs" for b
    using A(3,4) [OF b] B(3,4) [of b] b n m by auto
  moreover have "c_data (fs_cont fs2) l = c_data (fs_cont fs) l" if "l \<noteq> i_indirect f" for l
    using A(6) B(6) that ind by simp
  moreover have "i_indirect f2 = i_indirect f \<or> i_indirect f2 = 0" using 2 ind by (simp add: discards_def)
  ultimately show ?thesis using B(1) g u by (simp add: discards_def)
qed

text \<open>The indirect part, for a file whose direct blocks have been trimmed already.\<close>

lemma i0_image:
  assumes "i_indirect f \<noteq> 0" "lo0 = lo - kSFSDirectBlockPointersCount"
  shows "entry (c_data (fs_cont fs) (i_indirect f)) ` {lo0..<lo0 + (fs_indirectBlockEntryCount fs - lo0)} =
    fptr fs f ` {b. max lo kSFSDirectBlockPointersCount \<le> b \<and> b < n_blocks fs}"
proof -
  have eq: "{b. max lo kSFSDirectBlockPointersCount \<le> b \<and> b < n_blocks fs} =
      (\<lambda>j. kSFSDirectBlockPointersCount + j) ` {lo0..<lo0 + (fs_indirectBlockEntryCount fs - lo0)}"
  proof (intro set_eqI iffI)
    fix b assume "b \<in> {b. max lo kSFSDirectBlockPointersCount \<le> b \<and> b < n_blocks fs}"
    then have "b = kSFSDirectBlockPointersCount + (b - kSFSDirectBlockPointersCount)"
      "b - kSFSDirectBlockPointersCount \<in> {lo0..<lo0 + (fs_indirectBlockEntryCount fs - lo0)}"
      using assms(2) by (auto simp: n_blocks_def)
    then show "b \<in> (\<lambda>j. kSFSDirectBlockPointersCount + j) ` {lo0..<lo0 + (fs_indirectBlockEntryCount fs - lo0)}" by blast
  qed (use assms(2) in \<open>auto simp: n_blocks_def\<close>)
  show ?thesis unfolding eq image_image fptr_indirect using assms(1) by simp
qed

lemma after_i0:
  assumes i: "idle fs f" and nz: "i_indirect f \<noteq> 0" and lo0: "lo0 = lo - kSFSDirectBlockPointersCount"
    and al: "alloc_ok al" "same_geom (fs_alloc fs) al"
      "used al = fs_used fs - (fptr fs f ` {b. max lo kSFSDirectBlockPointersCount \<le> b \<and> b < n_blocks fs} - {0})"
    and d: "i0_trimmed (0 < lo0) (c_data (fs_cont fs) (i_indirect f)) lo0 (fs_indirectBlockEntryCount fs - lo0) d"
    and c: "cont_geom (fs_cont fs) c" "c_locked c = {}" "c_data c = (c_data (fs_cont fs))(i_indirect f := d)"
      "cont_ok c"
  shows "discards fs f (max lo kSFSDirectBlockPointersCount) (n_blocks fs) (fs\<lparr>fs_alloc := al, fs_cont := c\<rparr>)
    (if 0 < lo0 then f else f\<lparr>i_indirect := 0\<rparr>)"
proof -
  note ok = idleD(1) [OF i] note D = fs_okD [OF ok] note F = file_okD [OF idleD(2) [OF i]]
  let ?fs = "fs\<lparr>fs_alloc := al, fs_cont := c\<rparr>" and ?f = "if 0 < lo0 then f else f\<lparr>i_indirect := 0\<rparr>"
  have g: "fs_geom fs ?fs" using al(2) c(1) by (simp add: fs_geom_def)
  have len: "length (c_data (fs_cont fs) (i_indirect f)) = fs_blockSize fs" using cont_okD(1) [OF D(3)] D(4) by simp
  have "a_bitmapLba (fs_alloc fs) \<notin> fptr fs f ` {b. max lo kSFSDirectBlockPointersCount \<le> b \<and> b < n_blocks fs} - {0}"
    using own_disjoint(1) [OF idleD(2) [OF i]] by (auto simp: own_def)
  then have bu: "a_bitmapLba (fs_alloc fs) \<in> fs_used ?fs" using al(3) D(7) by (simp add: fs_used_def)
  have fok: "fs_ok ?fs" by (rule fs_ok_step [OF ok g]) (use al c bu in simp_all)
  have ent: "entry d j = (if 0 < lo0 \<and> lo0 \<le> j then 0 else entry (c_data (fs_cont fs) (i_indirect f)) j)"
    if "j < fs_indirectBlockEntryCount fs" for j
    using d that len D(9) by (auto simp: i0_trimmed_def)
  have ptr: "fptr ?fs ?f b = (if max lo kSFSDirectBlockPointersCount \<le> b \<and> b < n_blocks fs then 0 else fptr fs f b)"
    if b: "b < n_blocks fs" for b
  proof (cases "b < kSFSDirectBlockPointersCount")
    case True
    then show ?thesis by (simp add: fptr_direct)
  next
    case False
    then obtain j where j: "b = kSFSDirectBlockPointersCount + j" by (metis le_iff_add not_less)
    then have jn: "j < fs_indirectBlockEntryCount fs" using b by (simp add: n_blocks_def)
    have "lo \<le> b \<longleftrightarrow> lo0 \<le> j" using lo0 j by auto
    then show ?thesis using j b nz c(3) ent [OF jn] by (auto simp: fptr_indirect)
  qed
  show ?thesis
    by (rule discards_intro [OF i fok _ g ptr])
      (use c al(3) F(1) in \<open>auto simp: fs_used_def\<close>)
qed

lemma discards_apart:
  assumes "discards fs f lo hi fs1 f1" "apart fs1 f1 {} fs2"
  shows "discards fs f lo hi fs2 f1"
proof -
  note A = discardsD [OF assms(1)] note P = apartD [OF assms(2)]
  have n: "n_blocks fs1 = n_blocks fs" using fs_geomD(1) [OF A(2)] .
  have "fs_geom fs fs2" using fs_geom_trans A(2) P(1) .
  then show ?thesis using assms(1) P(2-6) n by (simp add: discards_def)
qed

lemma trim_eq_i0:
  assumes "SfsFile_ConvertOffset fs f_len = (bn, bo)" "(if 0 < bo then (bn + 1) mod 4294967296 else bn) = lo"
    "trim_direct (fs_alloc fs) (i_direct f) lo (kSFSDirectBlockPointersCount - lo) False = Some (t1, d, al)"
    "i_indirect f \<noteq> 0" "lo0 = lo - kSFSDirectBlockPointersCount"
    "FSContainer_MapBlock (fs_cont fs) (i_indirect f) (if 0 < lo0 then kMapBlock_Update else kMapBlock_ReadOnly) = Some (e, blk, c)"
    "e = EOK \<Longrightarrow> trim_i0 (0 < lo0) al (b_data blk) lo0 (fs_indirectBlockEntryCount fs - lo0) t1 = Some (t2, d2, al2)"
    "e = EOK \<Longrightarrow> FSContainer_UnmapBlock c (blk\<lparr>b_data := d2\<rparr>)
       (if 0 < lo0 then kWriteBlock_Deferred else kWriteBlock_None) = Some (EOK, c1)"
  shows "SfsFile_Trim fs f f_len =
    (if e = EOK then Some (if 0 < lo0 then t2 else True,
        (if 0 < lo0 then f\<lparr>i_direct := d\<rparr> else f\<lparr>i_direct := d, i_indirect := 0\<rparr>)\<lparr>i_size := f_len\<rparr>,
        fs\<lparr>fs_alloc := al2, fs_cont := c1\<rparr>)
     else Some (t1, f\<lparr>i_direct := d, i_size := f_len\<rparr>, fs\<lparr>fs_alloc := al, fs_cont := c\<rparr>))"
  using assms(1-4,6-8) unfolding assms(5) by (simp add: SfsFile_Trim_def Let_def split: if_splits)

lemma trim_i0_part:
  assumes "alloc_ok al" "\<forall>j < length d div 4. entry d j < a_volumeBlockCount al"
  obtains t d' al' where "trim_i0 upd al d lo0 (length d div 4 - lo0) t0 = Some (t, d', al')" "alloc_ok al'" "same_geom al al'"
    "i0_trimmed upd d lo0 (length d div 4 - lo0) d'"
    "used al' = used al - (entry d ` {lo0..<lo0 + (length d div 4 - lo0)} - {0})"
proof (cases "lo0 \<le> length d div 4")
  case True
  then show ?thesis using trim_i0_spec [OF assms(1) _ assms(2), of lo0 "length d div 4 - lo0" upd t0] that by auto
next
  case False
  then show ?thesis using that [of t0 d al] assms(1) by (simp add: i0_trimmed_def)
qed

text \<open>The first block that a new length gives up, as the code computes it for any length.\<close>

definition trim_from :: "SerenaFS \<Rightarrow> int \<Rightarrow> nat" where
  "trim_from fs len = (case SfsFile_ConvertOffset fs len of (bn, bo) \<Rightarrow> if 0 < bo then (bn + 1) mod 4294967296 else bn)"

lemma trim_any:
  assumes i: "idle fs f"
  obtains t hi f' fs' where "SfsFile_Trim fs f len = Some (t, f', fs')"
    "discards fs f (trim_from fs len) hi fs' f'" "hi = kSFSDirectBlockPointersCount \<or> hi = n_blocks fs"
    "c_faults (fs_cont fs) = [] \<or> i_indirect f = 0 \<longrightarrow> hi = n_blocks fs"
    "i_size f' = len" "i_linkCount f' = i_linkCount f" "i_flags f' = i_flags f" "i_inid f' = i_inid f"
    "c_faults (fs_cont fs) = [] \<longrightarrow> i_indirect f' = (if trim_from fs len \<le> kSFSDirectBlockPointersCount then 0 else i_indirect f)"
proof -
  define lo where "lo = trim_from fs len"
  define lo0 where "lo0 = lo - kSFSDirectBlockPointersCount"
  obtain bn bo where cv: "SfsFile_ConvertOffset fs len = (bn, bo)" by force
  have first: "(if 0 < bo then (bn + 1) mod 4294967296 else bn) = lo" using cv by (simp add: lo_def trim_from_def)
  obtain t1 d al where td: "trim_direct (fs_alloc fs) (i_direct f) lo (kSFSDirectBlockPointersCount - lo) False = Some (t1, d, al)"
    and p1: "length d = kSFSDirectBlockPointersCount" "\<forall>b < kSFSDirectBlockPointersCount. d ! b = (if lo \<le> b then 0 else i_direct f ! b)"
    "alloc_ok al" "same_geom (fs_alloc fs) al"
    "used al = fs_used fs - (fptr fs f ` {b. lo \<le> b \<and> b < kSFSDirectBlockPointersCount} - {0})"
    by (rule trim_direct_part [OF i, of lo False])
  let ?fs1 = "fs\<lparr>fs_alloc := al\<rparr>" and ?f1 = "f\<lparr>i_direct := d\<rparr>"
  have s1: "discards fs f lo kSFSDirectBlockPointersCount ?fs1 ?f1" using after_direct [OF i p1] .
  note i1 = discardsD(1) [OF s1] note D1 = fs_okD [OF idleD(1) [OF i1]]
  have n1: "n_blocks ?fs1 = n_blocks fs" by (simp add: n_blocks_def)
  have sized: "discards fs f lo hi fs' (g\<lparr>i_size := len\<rparr>)" if "discards fs f lo hi fs' g" for hi fs' g
    using that same_blocks_idle [of g "g\<lparr>i_size := len\<rparr>" fs'] same_blocks_fptr [of g "g\<lparr>i_size := len\<rparr>"]
      same_blocks_fblock [of g "g\<lparr>i_size := len\<rparr>"] by (simp add: discards_def)
  show ?thesis
  proof (cases "i_indirect f = 0")
    case True
    have z: "fptr fs f b = 0" if "kSFSDirectBlockPointersCount \<le> b" for b using True that by (simp add: fptr_def)
    have s2: "discards ?fs1 ?f1 (max lo kSFSDirectBlockPointersCount) (n_blocks fs) ?fs1 ?f1"
      by (rule discards_intro [OF i1 idleD(1) [OF i1] idleD(3) [OF i1]]) (use True n1 p1(1) in \<open>auto simp: fptr_def\<close>)
    have "discards fs f lo (n_blocks fs) ?fs1 ?f1"
      by (rule discards_trans [OF s1 s2]) (simp_all add: n_blocks_def)
    from sized [OF this] show ?thesis
      by (rule that [rotated 1, folded lo_def]) (use td cv first True in \<open>simp_all add: SfsFile_Trim_def Let_def\<close>)
  next
    case nz: False
    have ind: "i_indirect f \<notin> c_locked (fs_cont fs)" using idleD(3) [OF i] by simp
    let ?mode = "if 0 < lo0 then kMapBlock_Update else kMapBlock_ReadOnly"
    from ind show ?thesis
    proof (cases rule: map_block_cases [where mode = ?mode])
      case (err e c)
      let ?fs2 = "?fs1\<lparr>fs_cont := c\<rparr>"
      have g: "fs_geom ?fs1 ?fs2" using err(6) by (simp add: fs_geom_def)
      have "fs_ok ?fs2"
        by (rule fs_ok_step [OF idleD(1) [OF i1] g])
          (use D1 err cont_ok_geom [OF D1(3), of c] idleD(3) [OF i] in \<open>simp_all add: fs_used_def\<close>)
      then have "apart ?fs1 ?f1 {} ?fs2"
        by (rule apart_intro [OF i1 _ g]) (use err idleD(3) [OF i] in \<open>simp_all add: fs_used_def\<close>)
      from sized [OF discards_apart [OF s1 this]] show ?thesis
        by (rule that [rotated 1, folded lo_def])
          (use trim_eq_i0 [OF cv first td nz lo0_def err(1)] nz err in simp_all)
    next
      case (ok c)
      let ?D = "c_data (fs_cont fs) (i_indirect f)"
      have mb: "mapped_bytes (fs_cont fs) (i_indirect f) ?mode = ?D" by (simp add: mapped_bytes_def)
      have lenD: "length ?D = fs_blockSize fs" using cont_okD(1) [OF D1(3)] D1(4) by simp
      have nz1: "i_indirect ?f1 \<noteq> 0" using nz by simp
      have E: "fs_indirectBlockEntryCount fs = length ?D div 4" using D1(9) lenD by simp
      have rng: "\<forall>j < length ?D div 4. entry ?D j < a_volumeBlockCount al" using entries_range [OF i1 nz1] by simp
      obtain t2 d2 al2 where
        t2: "trim_i0 (0 < lo0) al ?D lo0 (length ?D div 4 - lo0) t1 = Some (t2, d2, al2)" "alloc_ok al2" "same_geom al al2"
        "i0_trimmed (0 < lo0) ?D lo0 (length ?D div 4 - lo0) d2"
        "used al2 = used al - (entry ?D ` {lo0..<lo0 + (length ?D div 4 - lo0)} - {0})"
        by (rule trim_i0_part [OF p1(3) rng])
      let ?m = "if 0 < lo0 then kWriteBlock_Deferred else kWriteBlock_None"
      let ?c = "unmapped c (i_indirect f) ?m d2"
      have st: "steady c (i_indirect f) ?m d2" using t2(4) ok(2) by (auto simp: i0_trimmed_def steady_def)
      have un: "FSContainer_UnmapBlock c (\<lparr>b_token = Some (i_indirect f), b_data = ?D\<rparr>\<lparr>b_data := d2\<rparr>) ?m = Some (EOK, ?c)"
        using unmap_steady [OF _ st] ok(3) by simp
      have ck: "cont_ok c" using cont_ok_geom [OF D1(3)] ok(4,2,5) by simp
      have l2: "length d2 = c_blockSize c" using t2(4) lenD D1(4) cont_geomD(1) [OF ok(4)] by (simp add: i0_trimmed_def)
      note uc = unmapped_steady(1) [OF ck st] unmapped_steady(2) [OF ck st l2]
      have u2: "used al2 = fs_used ?fs1 - (fptr ?fs1 ?f1 ` {b. max lo kSFSDirectBlockPointersCount \<le> b \<and> b < n_blocks ?fs1} - {0})"
        using t2(5) i0_image [OF nz1 lo0_def, of ?fs1] E by (simp add: fs_used_def)
      have tr: "i0_trimmed (0 < lo0) (c_data (fs_cont ?fs1) (i_indirect ?f1)) lo0 (fs_indirectBlockEntryCount ?fs1 - lo0) d2"
        using t2(4) E by simp
      have s2: "discards ?fs1 ?f1 (max lo kSFSDirectBlockPointersCount) (n_blocks ?fs1) (?fs1\<lparr>fs_alloc := al2, fs_cont := ?c\<rparr>)
          (if 0 < lo0 then ?f1 else ?f1\<lparr>i_indirect := 0\<rparr>)"
        by (rule after_i0 [OF i1 nz1 lo0_def t2(2) _ u2 tr]) (use t2(3) ok idleD(3) [OF i] uc in simp_all)
      have "discards fs f lo (n_blocks fs) (?fs1\<lparr>fs_alloc := al2, fs_cont := ?c\<rparr>) (if 0 < lo0 then ?f1 else ?f1\<lparr>i_indirect := 0\<rparr>)"
        by (rule discards_trans [OF s1 s2 [unfolded n1]]) (simp_all add: n_blocks_def)
      note s3 = sized [OF this]
      have eq: "SfsFile_Trim fs f len = Some (if 0 < lo0 then t2 else True,
          (if 0 < lo0 then ?f1 else ?f1\<lparr>i_indirect := 0\<rparr>)\<lparr>i_size := len\<rparr>, fs\<lparr>fs_alloc := al2, fs_cont := ?c\<rparr>)"
        using trim_eq_i0 [OF cv first td nz lo0_def ok(1), of t2 d2 al2 ?c] t2(1) un mb E by simp
      show ?thesis
        by (rule that [OF eq, folded lo_def]) (use s3 lo0_def in auto)
    qed
  qed
qed

lemma trim_spec:
  assumes i: "idle fs f" and len: "0 \<le> len" "len < 4294967295 * int (fs_blockSize fs)"
  obtains t hi f' fs' where "SfsFile_Trim fs f len = Some (t, f', fs')"
    "discards fs f (first_free fs len) hi fs' f'" "hi = kSFSDirectBlockPointersCount \<or> hi = n_blocks fs"
    "c_faults (fs_cont fs) = [] \<or> i_indirect f = 0 \<longrightarrow> hi = n_blocks fs"
    "i_size f' = len" "i_linkCount f' = i_linkCount f" "i_flags f' = i_flags f" "i_inid f' = i_inid f"
    "c_faults (fs_cont fs) = [] \<longrightarrow> i_indirect f' = (if first_free fs len \<le> kSFSDirectBlockPointersCount then 0 else i_indirect f)"
proof -
  obtain bn bo where cv: "SfsFile_ConvertOffset fs len = (bn, bo)" by force
  have "trim_from fs len = first_free fs len" using trim_first [OF idleD(1) [OF i] len cv] cv by (simp add: trim_from_def)
  then show ?thesis using trim_any [OF i, of len thesis] that by simp
qed

subsection \<open>Truncate\<close>

lemma discards_fbyte:
  assumes "discards fs f lo hi fs' f'" "k < capacity fs" "k < lo * fs_blockSize fs"
  shows "fbyte fs' f' k = fbyte fs f k"
proof -
  note A = discardsD [OF assms(1)]
  have "k div fs_blockSize fs < n_blocks fs" "k div fs_blockSize fs < lo"
    using assms(2,3) by (simp_all add: capacity_def less_mult_imp_div_less)
  then show ?thesis using A(4) [of "k div fs_blockSize fs"] fs_geomD(2) [OF A(2)] by (simp add: fbyte_def)
qed

lemma below_first_free:
  assumes "fs_ok fs" "0 \<le> len" "k < nat len"
  shows "k < first_free fs len * fs_blockSize fs"
proof -
  let ?B = "fs_blockSize fs"
  have B: "0 < ?B" using fs_okD(8) [OF assms(1)] by simp
  define q r where "q = nat len div ?B" and "r = nat len mod ?B"
  have d: "nat len = q * ?B + r" "r < ?B" using B by (simp_all add: q_def r_def)
  have "first_free fs len = q + (if 0 < r then 1 else 0)" by (simp add: first_free_def q_def r_def)
  then have "nat len \<le> first_free fs len * ?B" using d by (auto simp: add_mult_distrib)
  then show ?thesis using assms(3) by simp
qed

lemma discards_confined:
  assumes d: "discards fs f lo hi fs' f'" and id: "i_inid f' = i_inid f"
  shows "confined fs f fs' f'"
proof (rule confinedI [OF discardsD(2) [OF d] id])
  note A = discardsD [OF d]
  have n: "n_blocks fs' = n_blocks fs" using fs_geomD(1) [OF A(2)] .
  have ind: "i_indirect f' = i_indirect f \<or> i_indirect f' = 0" using d by (simp add: discards_def)
  show "l \<in> fs_used fs'" if "l \<in> fs_used fs" "l \<notin> own fs f" for l
    using that A(5) by (auto simp: own_def)
  show "l \<in> own fs f" if "l \<in> own fs' f'" for l
  proof -
    from that have "l \<noteq> 0" "l = i_indirect f' \<or> (\<exists>b < n_blocks fs. l = fptr fs' f' b)" by (auto simp: own_def n)
    then show ?thesis using ind A(3) by (auto simp: own_def split: if_splits)
  qed
  show "c_data (fs_cont fs') l = c_data (fs_cont fs) l" if "l \<notin> own fs f" "l \<noteq> 0" for l
    by (rule A(6)) (use that in \<open>auto simp: own_def\<close>)
qed

definition modified :: "Inode \<Rightarrow> Inode" where
  "modified f = Inode_SetModified f (kInodeFlag_Updated OR kInodeFlag_StatusChanged)"

lemma modified_simps [simp]: "same_blocks f (modified f)" "i_linkCount (modified f) = i_linkCount f" "i_size (modified f) = i_size f"
  by (simp_all add: modified_def) (simp_all add: Inode_SetModified_def)

text \<open>
  The file after its length has been set: the bytes of the blocks before block \<open>lo\<close> are those it had, and the blocks from there on
  are gone.
\<close>

definition cut :: "nat \<Rightarrow> SerenaFS \<Rightarrow> Inode \<Rightarrow> int \<Rightarrow> SerenaFS \<Rightarrow> Inode \<Rightarrow> bool" where
  "cut lo fs f len fs' f' \<longleftrightarrow> idle fs' f' \<and> fs_geom fs fs' \<and> i_size f' = len \<and> i_linkCount f' = i_linkCount f
   \<and> fs_used fs' \<subseteq> fs_used fs \<and> confined fs f fs' f'
   \<and> (\<forall>k < capacity fs. k < lo * fs_blockSize fs \<or> i_size f \<le> len \<longrightarrow> fbyte fs' f' k = fbyte fs f k)
   \<and> (\<forall>b < n_blocks fs. c_faults (fs_cont fs) = [] \<and> len < i_size f \<and> lo \<le> b \<longrightarrow> fptr fs' f' b = 0)"

lemma cut_apart:
  assumes t: "cut lo fs f len fs1 g" and a: "apart fs1 g S fs2"
    and S: "S \<subseteq> {i_inid g, a_bitmapLba (fs_alloc fs1)}" and sb: "same_blocks g h" "i_size h = i_size g" "i_linkCount h = i_linkCount g"
  shows "cut lo fs f len fs2 h"
proof -
  note A = apartD [OF a]
  have gm: "fs_geom fs fs1" using t by (simp add: cut_def)
  have cap: "capacity fs1 = capacity fs" "n_blocks fs1 = n_blocks fs" using fs_geomD(1,2) [OF gm] by (simp_all add: capacity_def)
  have "fbyte fs2 h k = fbyte fs1 g k" if "k < capacity fs" for k
    using apart_fbyte [OF a, of k] that cap same_blocks_fbyte [OF sb(1)] by simp
  moreover have "fptr fs2 h b = fptr fs1 g b" if "b < n_blocks fs" for b
    using A(5) [of b] that cap same_blocks_fptr [OF sb(1)] by simp
  moreover have "fs_geom fs fs2" using fs_geom_trans gm A(1) .
  moreover have "confined fs f fs1 g" using t by (simp add: cut_def)
  then have "confined fs f fs2 h"
    using confined_trans [OF _ confined_trans [OF confined_apart [OF a S] confined_same_blocks [OF sb(1)]]] by blast
  ultimately show ?thesis
    using t A(2) same_blocks_idle [OF sb(1) A(3)] sb(2,3) by (simp add: cut_def)
qed

lemma cut_writeback:
  assumes t: "cut lo fs f len fs1 g" and lc: "i_linkCount f \<noteq> 0"
  shows "\<exists>e g' fs'. Inode_Writeback fs1 g = Some (e, g', fs') \<and> cut lo fs f len fs' g'"
proof -
  have "idle fs1 g" "i_linkCount g \<noteq> 0" using t lc by (simp_all add: cut_def)
  from writeback_linked [OF this] obtain e fs3 where
    wb: "Inode_Writeback fs1 g = Some (e, clear_flags g, fs3)" "apart fs1 g {i_inid g} fs3" by blast
  have "cut lo fs f len fs3 (clear_flags g)"
    by (rule cut_apart [OF t wb(2)]) (simp_all add: clear_flags_def same_blocks_def)
  with wb(1) show ?thesis by blast
qed

lemma truncate_any:
  assumes i: "idle fs f" and lc: "i_linkCount f \<noteq> 0"
  obtains f' fs' where "SfsRegularFile_truncate fs f len = Some (EOK, f', fs')" "cut (trim_from fs len) fs f len fs' f'"
proof (cases "i_size f \<le> len")
  case True
  define g where "g = (if i_size f < len then modified (f\<lparr>i_size := len\<rparr>) else f)"
  have sb: "same_blocks f g" by (simp add: g_def modified_def same_blocks_def Inode_SetModified_def)
  have "cut (trim_from fs len) fs f len fs g"
    using confined_same_blocks [OF sb] same_blocks_idle [OF sb i] same_blocks_fbyte [OF sb] True by (auto simp: cut_def g_def)
  from cut_writeback [OF this lc] obtain e g' fs' where
    "Inode_Writeback fs g = Some (e, g', fs')" "cut (trim_from fs len) fs f len fs' g'" by blast
  moreover from this(1) have "SfsRegularFile_truncate fs f len = Some (EOK, g', fs')"
    using True by (cases "i_size f < len") (simp_all add: SfsRegularFile_truncate_def g_def modified_def Let_def)
  ultimately show ?thesis using that by blast
next
  case False
  from trim_any [OF i] obtain t hi f1 fs1 where
    t: "SfsFile_Trim fs f len = Some (t, f1, fs1)" "discards fs f (trim_from fs len) hi fs1 f1"
    "c_faults (fs_cont fs) = [] \<or> i_indirect f = 0 \<longrightarrow> hi = n_blocks fs" "i_size f1 = len" "i_linkCount f1 = i_linkCount f"
    "i_inid f1 = i_inid f" by metis
  note A = discardsD [OF t(2)]
  have "cut (trim_from fs len) fs f len fs1 f1"
    unfolding cut_def using A discards_confined [OF t(2) t(6)] t(3-5) discards_fbyte [OF t(2)] False by auto
  note t1 = this
  from commit_apart [OF A(1)] obtain e2 fs2 where
    c: "commit fs1 = Some (e2, fs2)" "apart fs1 f1 {a_bitmapLba (fs_alloc fs1)} fs2" by blast
  have "cut (trim_from fs len) fs f len fs2 (modified f1)" by (rule cut_apart [OF t1 c(2)]) simp_all
  from cut_writeback [OF this lc] obtain e g' fs' where
    "Inode_Writeback fs2 (modified f1) = Some (e, g', fs')" "cut (trim_from fs len) fs f len fs' g'" by blast
  moreover from this(1) have "SfsRegularFile_truncate fs f len = Some (EOK, g', fs')"
    using False t(1) c(1) by (simp add: SfsRegularFile_truncate_def modified_def Let_def)
  ultimately show ?thesis using that by blast
qed

abbreviation truncated :: "SerenaFS \<Rightarrow> Inode \<Rightarrow> int \<Rightarrow> SerenaFS \<Rightarrow> Inode \<Rightarrow> bool" where
  "truncated fs f len fs' f' \<equiv> cut (first_free fs len) fs f len fs' f'"

lemmas truncated_def = cut_def

lemma truncate_spec:
  assumes i: "idle fs f" and lc: "i_linkCount f \<noteq> 0" and len: "0 \<le> len" "len < 4294967295 * int (fs_blockSize fs)"
  obtains f' fs' where "SfsRegularFile_truncate fs f len = Some (EOK, f', fs')" "truncated fs f len fs' f'"
proof -
  obtain bn bo where cv: "SfsFile_ConvertOffset fs len = (bn, bo)" by force
  have "trim_from fs len = first_free fs len" using trim_first [OF idleD(1) [OF i] len cv] cv by (simp add: trim_from_def)
  then show ?thesis using truncate_any [OF i lc, of len] that by metis
qed

subsection \<open>Deleting a file\<close>

text \<open>The blocks that hold the data of a file.\<close>

definition data_blocks :: "SerenaFS \<Rightarrow> Inode \<Rightarrow> nat set" where
  "data_blocks fs f = fptr fs f ` {b. b < n_blocks fs} - {0}"

lemma writeback_block:
  assumes i: "idle fs f" and fl: "c_faults (fs_cont fs) = []"
  obtains c d where "FSContainer_MapBlock (fs_cont fs) (i_inid f) kMapBlock_Replace =
      Some (EOK, \<lparr>b_token = Some (i_inid f), b_data = c_stale (fs_cont fs) (i_inid f)\<rparr>, c)"
    "put_bytes (c_stale (fs_cont fs) (i_inid f)) 0 (inode_put (SfsFile_Serialize (fs_now fs) f)) = Some d"
    "FSContainer_UnmapBlock c \<lparr>b_token = Some (i_inid f), b_data = d\<rparr> kWriteBlock_Deferred =
      Some (EOK, unmapped c (i_inid f) kWriteBlock_Deferred d)"
    "fs_ok (fs\<lparr>fs_cont := unmapped c (i_inid f) kWriteBlock_Deferred d\<rparr>)"
    "fs_geom fs (fs\<lparr>fs_cont := unmapped c (i_inid f) kWriteBlock_Deferred d\<rparr>)" "c_locked c = {i_inid f}"
proof -
  note ok = idleD(1) [OF i] note D = fs_okD [OF ok] note F = file_okD [OF idleD(2) [OF i]]
  have len: "length (inode_put (SfsFile_Serialize (fs_now fs) f)) = 504" using length_inode_put F(1) .
  have st: "length (c_stale (fs_cont fs) (i_inid f)) = fs_blockSize fs" using cont_okD(2) [OF D(3)] D(4) by simp
  obtain d where put: "put_bytes (c_stale (fs_cont fs) (i_inid f)) 0 (inode_put (SfsFile_Serialize (fs_now fs) f)) = Some d"
    using len st D(8) by (simp add: put_bytes_def)
  have ld: "length d = c_blockSize (fs_cont fs)" using length_put [OF put] st D(4) by simp
  have ni: "i_inid f \<notin> c_locked (fs_cont fs)" using idleD(3) [OF i] by simp
  then show ?thesis
  proof (cases rule: map_block_cases [where mode = kMapBlock_Replace])
    case (ok c)
    let ?c = "unmapped c (i_inid f) kWriteBlock_Deferred d"
    have g: "fs_geom fs (fs\<lparr>fs_cont := ?c\<rparr>)" using ok(4) by (simp add: fs_geom_def)
    have "cont_ok ?c"
      by (rule unmapped_steady(2) [OF cont_ok_geom [OF D(3) ok(4,2,5)]]) (use ld cont_geomD(1) [OF ok(4)] in simp_all)
    then have fok: "fs_ok (fs\<lparr>fs_cont := ?c\<rparr>)"
      by (intro fs_ok_step [OF \<open>fs_ok fs\<close> g]) (use D ok(3) idleD(3) [OF i] in \<open>simp_all add: fs_used_def\<close>)
    have "FSContainer_UnmapBlock c \<lparr>b_token = Some (i_inid f), b_data = d\<rparr> kWriteBlock_Deferred = Some (EOK, ?c)"
      using unmap_block_ok [of "i_inid f" c] ok(3) by simp
    with that [OF _ put] ok(1,3) idleD(3) [OF i] fok g show ?thesis by (simp add: mapped_bytes_def)
  qed (use fl in simp)
qed

lemma writeback_unlinked:
  assumes i: "idle fs f" and lc: "i_linkCount f = 0" and fl: "c_faults (fs_cont fs) = []"
  obtains f' fs' where "Inode_Writeback fs f = Some (EOK, f', fs')" "fs_ok fs'" "i_size f' = 0"
    "fs_used fs' = fs_used fs - data_blocks fs f - {i_inid f}"
    "\<forall>b < n_blocks fs. fptr fs' f' b = 0" "i_indirect f' = 0" "i_inid f' = i_inid f" "i_linkCount f' = 0"
proof -
  have B: "512 \<le> fs_blockSize fs" using fs_okD(8) [OF idleD(1) [OF i]] .
  then have l0: "(0 :: int) < 4294967295 * int (fs_blockSize fs)" by simp
  have ff: "first_free fs 0 = 0" by (simp add: first_free_def)
  from trim_spec [OF i order_refl l0] obtain t f1 fs1 where
    t: "SfsFile_Trim fs f 0 = Some (t, f1, fs1)" "discards fs f 0 (n_blocks fs) fs1 f1" "i_size f1 = 0"
    "i_linkCount f1 = 0" "i_inid f1 = i_inid f" "i_indirect f1 = 0"
    using fl lc ff by (metis le0)
  note A = discardsD [OF t(2)]
  have n: "n_blocks fs1 = n_blocks fs" using fs_geomD(1) [OF A(2)] .
  let ?g = "modified f1"
  have gs: "i_inid ?g = i_inid f" "i_indirect ?g = 0" "i_direct ?g = i_direct f1"
    using t(5,6) by (simp_all add: modified_def Inode_SetModified_def)
  have ig: "idle fs1 ?g" using same_blocks_idle [OF _ A(1)] by simp
  have fl1: "c_faults (fs_cont fs1) = []" using fs_geomD(4) [OF A(2) fl] .
  obtain c d where w: "FSContainer_MapBlock (fs_cont fs1) (i_inid ?g) kMapBlock_Replace =
      Some (EOK, \<lparr>b_token = Some (i_inid ?g), b_data = c_stale (fs_cont fs1) (i_inid ?g)\<rparr>, c)"
    "put_bytes (c_stale (fs_cont fs1) (i_inid ?g)) 0 (inode_put (SfsFile_Serialize (fs_now fs1) ?g)) = Some d"
    "FSContainer_UnmapBlock c \<lparr>b_token = Some (i_inid ?g), b_data = d\<rparr> kWriteBlock_Deferred =
      Some (EOK, unmapped c (i_inid ?g) kWriteBlock_Deferred d)"
    "fs_ok (fs1\<lparr>fs_cont := unmapped c (i_inid ?g) kWriteBlock_Deferred d\<rparr>)"
    "fs_geom fs1 (fs1\<lparr>fs_cont := unmapped c (i_inid ?g) kWriteBlock_Deferred d\<rparr>)" "c_locked c = {i_inid ?g}"
    by (rule writeback_block [OF ig fl1])
  let ?fs2 = "fs1\<lparr>fs_cont := unmapped c (i_inid ?g) kWriteBlock_Deferred d\<rparr>"
  note D2 = fs_okD [OF w(4)]
  have iu: "i_inid ?g \<in> fs_used fs1" "i_inid ?g \<noteq> a_bitmapLba (fs_alloc fs1)" "i_inid ?g \<noteq> 0"
    using file_okD(9-11) [OF idleD(2) [OF ig]] by simp_all
  then have "i_inid ?g < a_volumeBlockCount (fs_alloc ?fs2)" using used_less by (simp add: fs_used_def)
  from deallocate_spec [OF D2(1) this] obtain al where
    al: "SfsAllocator_Deallocate (fs_alloc ?fs2) (i_inid ?g) = Some al" "alloc_ok al" "same_geom (fs_alloc ?fs2) al"
    "used al = used (fs_alloc ?fs2) - {i_inid ?g}" using iu(3) by metis
  let ?fs3 = "?fs2\<lparr>fs_alloc := al\<rparr>"
  have g3: "fs_geom ?fs2 ?fs3" using al(3) by (simp add: fs_geom_def)
  have ok3: "fs_ok ?fs3"
    by (rule fs_ok_step [OF w(4) g3]) (use D2 al iu w(6) in \<open>simp_all add: fs_used_def\<close>)
  obtain e fs4 where c4: "commit ?fs3 = Some (e, fs4)" "fs_ok fs4" "fs_used fs4 = fs_used ?fs3"
    by (rule commit_ok [OF ok3]) (simp add: w(6), metis)
  have ptr: "fptr fs4 (clear_flags ?g) b = 0" if "b < n_blocks fs" for b
  proof -
    have "fptr fs1 f1 b = 0" using A(3) [OF that] that by simp
    then show ?thesis using gs(2,3) t(6) by (auto simp: fptr_def clear_flags_def split: if_splits)
  qed
  show ?thesis
  proof (rule that [of "clear_flags ?g" fs4])
    show "Inode_Writeback fs f = Some (EOK, clear_flags ?g, fs4)"
      using lc t(1) w(1-3) al(1) c4(1) gs(1) unfolding modified_def
      by (simp add: Inode_Writeback_def SerenaFS_onWritebackNode_def clear_flags_def)
    have "fs_used fs1 = fs_used fs - data_blocks fs f" using A(5) by (simp add: data_blocks_def)
    then show "fs_used fs4 = fs_used fs - data_blocks fs f - {i_inid f}"
      using c4(3) al(4) gs(1) by (simp add: fs_used_def)
  qed (use c4(2) ptr gs t in \<open>simp_all add: clear_flags_def\<close>)
qed

text \<open>The indirect block of a deleted file stays allocated.\<close>

lemma indirect_not_data: "file_ok fs f \<Longrightarrow> i_indirect f \<noteq> 0 \<Longrightarrow> i_indirect f \<notin> data_blocks fs f"
  using file_okD(3) [of fs f] by (fastforce simp: data_blocks_def)

end
