(* ===== verification/SfsInode.thy ===== *)
theory SfsInode
  imports SfsTrim
begin

section \<open>Inodes on the disk\<close>

text \<open>
  The on-disk format of an inode can be read back: \<open>inode_at\<close> inverts \<open>inode_put\<close>, \<open>SfsFile_Create\<close> inverts
  \<open>SfsFile_Serialize\<close>, and an inode that is written back and acquired again is the inode that was written.
\<close>

subsection \<open>The codec\<close>

lemma be_at_here: "length xs = n \<Longrightarrow> be_at (xs @ ys) 0 n = Some (be_val xs)"
  by (simp add: be_at_in)

lemma be_at_skip: "length xs \<le> off \<Longrightarrow> be_at (xs @ ys) off n = be_at ys (off - length xs) n"
  by (auto simp: be_at_def get_bytes_def)

lemma length_time_put: "length (time_put t) = 8"
  by (simp add: time_put_def)

lemma time_at_skip: "length xs \<le> off \<Longrightarrow> time_at (xs @ ys) off = time_at ys (off - length xs)"
  by (simp add: time_at_def be_at_skip)

lemma time_at_here:
  assumes "fst t < 4294967296" "snd t < 4294967296"
  shows "time_at (time_put t @ ys) 0 = Some t"
proof -
  have "be_at (time_put t @ ys) 0 4 = Some (fst t)"
    using assms(1) by (simp add: time_put_def be_at_here be32_roundtrip)
  moreover have "be_at (time_put t @ ys) 4 4 = Some (snd t)"
    using assms(2) by (simp add: time_put_def be_at_skip be_at_here be32_roundtrip)
  ultimately show ?thesis by (simp add: time_at_def)
qed

lemma be_at_table:
  assumes "i < length ps" "\<forall>p \<in> set ps. p < 4294967296"
  shows "be_at (concat (map be32_put ps) @ ys) (4 * i) 4 = Some (ps ! i)"
  using assms
proof (induction ps arbitrary: i)
  case (Cons p ps)
  then show ?case by (cases i) (simp_all add: be_at_here be_at_skip be32_roundtrip)
qed simp

lemma those_map_Some: "(\<And>x. x \<in> set xs \<Longrightarrow> f x = Some (g x)) \<Longrightarrow> those (map f xs) = Some (map g xs)"
  by (induction xs) simp_all

text \<open>The values that fit into the fields of the on-disk inode.\<close>

definition wf_time :: "nanotime \<Rightarrow> bool" where
  "wf_time t \<longleftrightarrow> fst t < 4294967296 \<and> snd t < 4294967296"

definition wf_disk_inode :: "sfs_inode \<Rightarrow> bool" where
  "wf_disk_inode ip \<longleftrightarrow> d_size ip < 18446744073709551616 \<and> wf_time (d_accessTime ip) \<and> wf_time (d_modificationTime ip)
     \<and> wf_time (d_statusChangeTime ip) \<and> d_id ip < 4294967296 \<and> d_pnid ip < 4294967296 \<and> d_signature ip < 4294967296
     \<and> d_linkCount ip < 4294967296 \<and> d_type ip < 65536 \<and> d_permissions ip < 65536 \<and> d_uid ip < 4294967296
     \<and> d_gid ip < 4294967296 \<and> d_indirect ip < 4294967296 \<and> length (d_direct ip) = kSFSDirectBlockPointersCount
     \<and> (\<forall>p \<in> set (d_direct ip). p < 4294967296)"

lemma inode_at_put:
  assumes "wf_disk_inode ip"
  shows "inode_at (inode_put ip @ rest) = Some ip"
proof -
  let ?xs = "inode_put ip @ rest"
  note W = assms [unfolded wf_disk_inode_def wf_time_def]
  note S = inode_put_def be_at_here be_at_skip time_at_here time_at_skip length_time_put be16_roundtrip be32_roundtrip
    be64_roundtrip
  have dir: "be_at ?xs (64 + 4 * i) 4 = Some (d_direct ip ! i)" if "i < kSFSDirectBlockPointersCount" for i
    using be_at_table [of i "d_direct ip"] that W by (simp add: inode_put_def be_at_skip length_time_put)
  have "those (map (\<lambda>i. be_at ?xs (64 + 4 * i) 4) [0..<kSFSDirectBlockPointersCount]) =
      Some (map ((!) (d_direct ip)) [0..<kSFSDirectBlockPointersCount])"
    by (rule those_map_Some) (simp add: dir)
  also have "map ((!) (d_direct ip)) [0..<kSFSDirectBlockPointersCount] = d_direct ip"
    using W map_nth [of "d_direct ip"] by simp
  finally have dirs: "those (map (\<lambda>i. be_at ?xs (64 + 4 * i) 4) [0..<kSFSDirectBlockPointersCount]) = Some (d_direct ip)" .
  have "be_at ?xs 0 8 = Some (d_size ip)" "time_at ?xs 8 = Some (d_accessTime ip)"
    "time_at ?xs 16 = Some (d_modificationTime ip)" "time_at ?xs 24 = Some (d_statusChangeTime ip)"
    "be_at ?xs 32 4 = Some (d_id ip)" "be_at ?xs 36 4 = Some (d_pnid ip)" "be_at ?xs 40 4 = Some (d_signature ip)"
    "be_at ?xs 44 4 = Some (d_linkCount ip)" "be_at ?xs 48 2 = Some (d_type ip)" "be_at ?xs 50 2 = Some (d_permissions ip)"
    "be_at ?xs 52 4 = Some (d_uid ip)" "be_at ?xs 56 4 = Some (d_gid ip)" "be_at ?xs 60 4 = Some (d_indirect ip)"
    using W by (simp_all add: S)
  with dirs show ?thesis by (simp add: inode_at_def)
qed

subsection \<open>Serialization\<close>

text \<open>The inodes that the disk format can represent, and what \<open>SfsFile_Serialize\<close> keeps of one.\<close>

definition wf_inode :: "Inode \<Rightarrow> bool" where
  "wf_inode f \<longleftrightarrow> 0 \<le> i_size f \<and> i_size f \<le> MAX_FILE_SIZE \<and> 0 \<le> i_linkCount f \<and> i_linkCount f < 2147483648
     \<and> wf_time (i_accessTime f) \<and> wf_time (i_modificationTime f) \<and> wf_time (i_statusChangeTime f)
     \<and> i_inid f < 4294967296 \<and> i_pnid f < 4294967296 \<and> i_fileType f \<in> {FS_FTYPE_REG, FS_FTYPE_DIR}
     \<and> i_permissions f < 512 \<and> i_uid f < 4294967296 \<and> i_gid f < 4294967296 \<and> i_indirect f < 4294967296
     \<and> length (i_direct f) = kSFSDirectBlockPointersCount \<and> (\<forall>p \<in> set (i_direct f). p < 4294967296)"

definition saved :: "nanotime \<Rightarrow> Inode \<Rightarrow> Inode" where
  "saved now f = f\<lparr>i_accessTime := if Inode_IsAccessed f then now else i_accessTime f,
     i_modificationTime := if Inode_IsUpdated f then now else i_modificationTime f,
     i_statusChangeTime := if Inode_IsStatusChanged f then now else i_statusChangeTime f, i_flags := 0\<rparr>"

lemma wf_serialize: "wf_inode f \<Longrightarrow> wf_time now \<Longrightarrow> wf_disk_inode (SfsFile_Serialize now f)"
  by (auto simp: wf_inode_def wf_disk_inode_def SfsFile_Serialize_def SfsPermissionsFromFsPerms_def)

lemma to_int64_nat: "0 \<le> x \<Longrightarrow> x \<le> MAX_FILE_SIZE \<Longrightarrow> to_int64 (nat (x mod 18446744073709551616)) = x"
  by (simp add: to_int64_def nat_less_iff)

lemma to_int32_nat: "0 \<le> x \<Longrightarrow> x < 2147483648 \<Longrightarrow> to_int32 (nat (x mod 4294967296)) = x"
  by (simp add: to_int32_def nat_less_iff)

lemma file_type_roundtrip: "t \<in> {FS_FTYPE_REG, FS_FTYPE_DIR} \<Longrightarrow> SfsFileTypeFromIType (SfsITypeFromFileType t) = Some t"
  by (auto simp: SfsFileTypeFromIType_def)

lemma create_serialize:
  assumes "wf_inode f"
  shows "SfsFile_Create (i_inid f) (SfsFile_Serialize now f) = Some (saved now f)"
proof -
  note W = assms [unfolded wf_inode_def]
  have p: "SfsPermissionsFromFsPerms (i_permissions f) = i_permissions f"
    using W by (simp add: SfsPermissionsFromFsPerms_def)
  have s: "to_int64 (nat (i_size f mod 18446744073709551616)) = i_size f" by (rule to_int64_nat) (use W in simp_all)
  have l: "to_int32 (nat (i_linkCount f mod 4294967296)) = i_linkCount f" by (rule to_int32_nat) (use W in simp_all)
  have t: "SfsFileTypeFromIType (SfsITypeFromFileType (i_fileType f)) = Some (i_fileType f)"
    by (rule file_type_roundtrip) (use W in blast)
  show ?thesis by (simp add: SfsFile_Create_def SfsFile_Serialize_def saved_def p s l t)
qed

lemma acquire_spec:
  assumes i: "idle fs f" and w: "wf_disk_inode ip" and t: "d_type ip \<in> {kSFSInode_RegularFile, kSFSInode_Directory}"
    and sig: "d_signature ip = kSFSSignature_Inode" and id: "d_id ip = inid"
    and d: "c_data (fs_cont fs) inid = inode_put ip @ rest" and fl: "c_faults (fs_cont fs) = []"
  obtains fs' where "SerenaFS_onAcquireNode fs inid = Some (EOK, SfsFile_Create inid ip, fs')" "fs_alloc fs' = fs_alloc fs"
    "c_data (fs_cont fs') = c_data (fs_cont fs)" "c_locked (fs_cont fs') = {}"
proof -
  have ft: "SfsFileTypeFromIType (d_type ip) \<noteq> None" using t by (auto simp: SfsFileTypeFromIType_def)
  have ni: "inid \<notin> c_locked (fs_cont fs)" using idleD(3) [OF i] by simp
  then show ?thesis
  proof (cases rule: map_block_cases [where mode = kMapBlock_ReadOnly])
    case (ok c)
    have st: "steady c inid kWriteBlock_None (inode_put ip @ rest)" using steady_same [of c inid] ok(2) d by simp
    let ?c = "unmapped c inid kWriteBlock_None (inode_put ip @ rest)"
    have u: "FSContainer_UnmapBlock c \<lparr>b_token = Some inid, b_data = inode_put ip @ rest\<rparr> kWriteBlock_None = Some (EOK, ?c)"
      using unmap_steady [OF _ st] ok(3) by simp
    have dc: "c_data ?c = c_data (fs_cont fs)"
      using unmapped_steady(1) [OF cont_ok_geom [OF fs_okD(3) [OF idleD(1) [OF i]] ok(4,2,5)] st] ok(2) d by auto
    show ?thesis
      by (rule that [of "fs\<lparr>fs_cont := ?c\<rparr>"])
        (use ok u d dc ft sig id t idleD(3) [OF i] inode_at_put [OF w] in
          \<open>auto simp: SerenaFS_onAcquireNode_def mapped_bytes_def SfsFile_Create_def\<close>)
  qed (use fl in simp)
qed

lemma writeback_acquire:
  assumes i: "idle fs f" and lc: "i_linkCount f \<noteq> 0" and w: "wf_inode f" "wf_time (fs_now fs)"
    and fl: "c_faults (fs_cont fs) = []"
  obtains fs1 fs2 where "Inode_Writeback fs f = Some (EOK, clear_flags f, fs1)"
    "SerenaFS_onAcquireNode fs1 (i_inid f) = Some (EOK, Some (saved (fs_now fs) f), fs2)"
proof -
  obtain e fs1 where wb: "Inode_Writeback fs f = Some (e, clear_flags f, fs1)" "apart fs f {i_inid f} fs1"
    "c_faults (fs_cont fs) = [] \<longrightarrow> e = EOK" "e = EOK \<longrightarrow> c_data (fs_cont fs1) (i_inid f) = inode_image fs f"
    by (rule writeback_linked [OF i lc])
  let ?ip = "SfsFile_Serialize (fs_now fs) f"
  have i1: "idle fs1 f" using apartD(3) [OF wb(2)] .
  have fl1: "c_faults (fs_cont fs1) = []" using fs_geomD(4) [OF apartD(1) [OF wb(2)] fl] .
  have ty: "d_type ?ip \<in> {kSFSInode_RegularFile, kSFSInode_Directory}"
    using w(1) by (auto simp: wf_inode_def SfsFile_Serialize_def)
  have d: "c_data (fs_cont fs1) (i_inid f) = inode_put ?ip @ drop 504 (c_stale (fs_cont fs) (i_inid f))"
    using wb(3,4) fl by (simp add: inode_image_def)
  obtain fs2 where "SerenaFS_onAcquireNode fs1 (i_inid f) = Some (EOK, SfsFile_Create (i_inid f) ?ip, fs2)"
    by (rule acquire_spec [OF i1 wf_serialize [OF w] ty _ _ d fl1]) (simp_all add: SfsFile_Serialize_def)
  with that wb(1,3) fl create_serialize [OF w(1)] show ?thesis by simp
qed

end
