(* ===== verification/SfsProps.thy ===== *)
theory SfsProps
  imports SfsInode
begin

section \<open>Properties of SerenaFS\<close>

text \<open>
  The operations on one file as a system of calls, the files that share the volume with it, a small volume on which the
  properties are applied, and the properties of the file layer.
\<close>

subsection \<open>Sequences of calls on a file\<close>

datatype file_op = FRead int int | FWrite int "u8 list" | FTruncate int | FWriteback

fun file_exec :: "file_op \<Rightarrow> SerenaFS \<times> Inode \<Rightarrow> (SerenaFS \<times> Inode) option" where
  "file_exec (FRead off n) (fs, f) = map_option (\<lambda>(e, out, off', f', fs'). (fs', f')) (SfsRegularFile_read fs f off n)"
| "file_exec (FWrite off buf) (fs, f) =
     map_option (\<lambda>(e, w, off', f', fs'). (fs', f')) (SfsRegularFile_write fs f off buf (int (length buf)))"
| "file_exec (FTruncate len) (fs, f) = map_option (\<lambda>(e, f', fs'). (fs', f')) (SfsRegularFile_truncate fs f len)"
| "file_exec FWriteback (fs, f) = map_option (\<lambda>(e, f', fs'). (fs', f')) (Inode_Writeback fs f)"

text \<open>
  The calls after which the pointers of a file can be lost: the file has no indirect block, the cache may give up a block that has
  been mapped and not been marked for writing, and the call goes behind the blocks that the inode points to.
\<close>

fun loses_map :: "file_op \<Rightarrow> SerenaFS \<times> Inode \<Rightarrow> bool" where
  "loses_map (FRead off n) (fs, f) \<longleftrightarrow> 0 \<le> off \<and> \<not> reachable fs f (spot fs off) (nat (read_limit (i_size f) off n))"
| "loses_map (FWrite off buf) (fs, f) \<longleftrightarrow> 0 \<le> off \<and> \<not> reachable fs f (spot fs off) (nat (write_limit off (int (length buf))))"
| "loses_map (FTruncate len) (fs, f) \<longleftrightarrow> False"
| "loses_map FWriteback (fs, f) \<longleftrightarrow> False"

lemma loses_map_evicts: "loses_map x (fs, f) \<Longrightarrow> c_evicts (fs_cont fs) \<noteq> [] \<and> i_indirect f = 0"
  by (cases x) (auto simp: reachable_def calm_def)

fun file_inv :: "SerenaFS \<times> Inode \<Rightarrow> bool" where
  "file_inv (fs, f) \<longleftrightarrow> idle fs f \<and> 0 < i_linkCount f"

lemma confined_writeback:
  assumes "idle fs f" "i_linkCount f \<noteq> 0"
  shows "\<exists>e fs'. Inode_Writeback fs f = Some (e, clear_flags f, fs') \<and> idle fs' (clear_flags f) \<and> confined fs f fs' (clear_flags f)"
proof -
  obtain e fs' where wb: "Inode_Writeback fs f = Some (e, clear_flags f, fs')" "apart fs f {i_inid f} fs'"
    by (rule writeback_linked [OF assms])
  have sb: "same_blocks f (clear_flags f)" by (simp add: clear_flags_def same_blocks_def)
  have "confined fs f fs' (clear_flags f)"
    using confined_trans [OF confined_apart [OF wb(2)] confined_same_blocks [OF sb]] by simp
  then show ?thesis using wb same_blocks_idle [OF sb apartD(3) [OF wb(2)]] by blast
qed

lemma read_exec_ok:
  assumes i: "idle fs f" and h: "\<not> loses_map (FRead off n) (fs, f)"
  shows "\<exists>e out off' f' fs'. SfsRegularFile_read fs f off n = Some (e, out, off', f', fs') \<and> idle fs' f' \<and>
    i_linkCount f' = i_linkCount f \<and> confined fs f fs' f'"
proof (cases "n < 0 \<or> 0 < n \<and> off < 0")
  case True
  then show ?thesis using i confined_same_blocks [of f f fs] by (auto simp: SfsRegularFile_read_def)
next
  case False
  then have n: "0 \<le> n" "0 < n \<longrightarrow> 0 \<le> off" by auto
  have "reachable fs f (spot fs off) (nat (read_limit (i_size f) off n))"
  proof (cases "0 \<le> off")
    case True
    then show ?thesis using h by simp
  next
    case neg: False
    then have "n = 0" using n by auto
    then show ?thesis by (simp add: reachable_def read_limit_def Let_def)
  qed
  from read_any [OF i n this] show ?thesis by metis
qed

lemma write_exec_ok:
  assumes i: "idle fs f" "i_linkCount f \<noteq> 0" and h: "\<not> loses_map (FWrite off buf) (fs, f)"
  shows "\<exists>e w off' f' fs'. SfsRegularFile_write fs f off buf (int (length buf)) = Some (e, w, off', f', fs') \<and> idle fs' f' \<and>
    i_linkCount f' = i_linkCount f \<and> confined fs f fs' f'"
proof -
  let ?n = "int (length buf)"
  show ?thesis
  proof (cases "0 < ?n \<and> (off < 0 \<or> MAX_FILE_SIZE \<le> off)")
    case True
    then show ?thesis using i confined_same_blocks [of f f fs] by (auto simp: SfsRegularFile_write_def)
  next
    case False
    then have n: "0 < ?n \<longrightarrow> 0 \<le> off \<and> off < MAX_FILE_SIZE" by auto
    have len: "nat (write_limit off ?n) \<le> length buf" by (auto simp: write_limit_def Let_def)
    have r: "reachable fs f (spot fs off) (nat (write_limit off ?n))"
    proof (cases "buf = []")
      case True
      then show ?thesis by (simp add: reachable_def write_limit_def Let_def)
    qed (use n h in simp)
    show ?thesis by (rule write_any [OF i of_nat_0_le_iff n len r]) (auto simp: wrote_def)
  qed
qed

lemma file_exec_ok:
  assumes inv: "file_inv (fs, f)" and g: "\<not> loses_map x (fs, f)"
  shows "\<exists>fs' f'. file_exec x (fs, f) = Some (fs', f') \<and> file_inv (fs', f') \<and> confined fs f fs' f'"
proof -
  have i: "idle fs f" and lc: "i_linkCount f \<noteq> 0" "0 < i_linkCount f" using inv by simp_all
  show ?thesis
  proof (cases x)
    case (FRead off n)
    then show ?thesis using read_exec_ok [OF i] g lc by fastforce
  next
    case (FWrite off buf)
    then show ?thesis using write_exec_ok [OF i lc(1)] g lc by fastforce
  next
    case (FTruncate len)
    obtain f' fs' where "SfsRegularFile_truncate fs f len = Some (EOK, f', fs')" "cut (trim_from fs len) fs f len fs' f'"
      by (rule truncate_any [OF i lc(1)])
    then show ?thesis using FTruncate lc by (simp add: cut_def)
  next
    case FWriteback
    then show ?thesis using confined_writeback [OF i lc(1)] lc by (auto simp: clear_flags_def)
  qed
qed

text \<open>The volume, and that a cache which keeps all blocks goes on to keep them.\<close>

definition kept_inv :: "bool \<Rightarrow> SerenaFS \<times> Inode \<Rightarrow> bool" where
  "kept_inv k c \<longleftrightarrow> file_inv c \<and> (k \<longrightarrow> c_evicts (fs_cont (fst c)) = [])"

lemma confined_evicts: "confined fs f fs' f' \<Longrightarrow> c_evicts (fs_cont fs) = [] \<Longrightarrow> c_evicts (fs_cont fs') = []"
  using confinedD(1) fs_geomD(5) by blast

interpretation filesys: guarded_system "kept_inv k" file_exec "\<lambda>x c. \<not> loses_map x c" for k
proof
  fix c :: "SerenaFS \<times> Inode" and x
  assume c: "kept_inv k c" "\<not> loses_map x c"
  obtain fs f where p: "c = (fs, f)" by (cases c)
  with c file_exec_ok [of fs f x] obtain fs' f' where
    "file_exec x (fs, f) = Some (fs', f')" "file_inv (fs', f')" "confined fs f fs' f'" by (auto simp: kept_inv_def)
  then show "\<exists>c'. file_exec x c = Some c' \<and> kept_inv k c'"
    using c(1) p confined_evicts [of fs f fs' f'] by (auto simp: kept_inv_def)
qed

subsection \<open>Two files on one volume\<close>

definition footprint :: "SerenaFS \<Rightarrow> Inode \<Rightarrow> nat set" where
  "footprint fs f = insert (i_inid f) (own fs f)"

definition separate :: "SerenaFS \<Rightarrow> Inode \<Rightarrow> Inode \<Rightarrow> bool" where
  "separate fs f g \<longleftrightarrow> (\<forall>l \<in> footprint fs g. l \<notin> footprint fs f)"

lemma own_used: "file_ok fs g \<Longrightarrow> l \<in> footprint fs g \<Longrightarrow> l \<in> fs_used fs \<and> l \<noteq> a_bitmapLba (fs_alloc fs) \<and> l \<noteq> 0"
  using file_okD(2,5,6,8-11) [of fs g] by (auto simp: footprint_def own_def)

lemma confined_other:
  assumes c: "confined fs f fs' f'" and f: "idle fs f" and f': "idle fs' f'" and g: "idle fs g" and s: "separate fs f g"
  shows "idle fs' g" "separate fs' f' g" "\<And>k. k < capacity fs \<Longrightarrow> fbyte fs' g k = fbyte fs g k"
    "c_data (fs_cont fs') (i_inid g) = c_data (fs_cont fs) (i_inid g)"
proof -
  note C = confinedD [OF c]
  note G = file_okD [OF idleD(2) [OF g]]
  have nb: "n_blocks fs' = n_blocks fs" "fs_blockSize fs' = fs_blockSize fs" "a_bitmapLba (fs_alloc fs') = a_bitmapLba (fs_alloc fs)"
    using fs_geomD(1-3) [OF C(1)] by simp_all
  have out: "l \<notin> own fs f" "l \<noteq> i_inid f" "l \<in> fs_used fs" "l \<noteq> a_bitmapLba (fs_alloc fs)" "l \<noteq> 0"
    if "l \<in> footprint fs g" for l
    using s that own_used [OF idleD(2) [OF g] that] unfolding separate_def by (auto simp: footprint_def)
  have same: "c_data (fs_cont fs') l = c_data (fs_cont fs) l" if "l \<in> footprint fs g" for l
    using C(5) out [OF that] by blast
  have ind: "i_indirect g \<noteq> 0 \<Longrightarrow> i_indirect g \<in> footprint fs g" by (simp add: footprint_def own_def)
  have ptr: "fptr fs' g b = fptr fs g b" for b using same [OF ind] by (auto simp: fptr_def)
  have pin: "fptr fs g b \<noteq> 0 \<Longrightarrow> b < n_blocks fs \<Longrightarrow> fptr fs g b \<in> footprint fs g" for b
    by (auto simp: footprint_def own_def)
  have fp: "footprint fs' g = footprint fs g" by (simp add: footprint_def own_def ptr nb)
  have us: "l \<in> fs_used fs'" if "l \<in> footprint fs g" for l using C(3) out [OF that] by blast
  have "file_ok fs' g"
  proof (rule file_okI)
    show "length (i_direct g) = kSFSDirectBlockPointersCount" using G(1) .
    show "b1 = b2" if "b1 < n_blocks fs'" "b2 < n_blocks fs'" "fptr fs' g b1 \<noteq> 0" "fptr fs' g b1 = fptr fs' g b2" for b1 b2
      using G(12) that by (simp add: ptr nb)
    show "fptr fs' g b \<in> fs_used fs' \<and> fptr fs' g b \<noteq> i_indirect g \<and> fptr fs' g b \<noteq> i_inid g \<and>
        fptr fs' g b \<noteq> a_bitmapLba (fs_alloc fs')" if "b < n_blocks fs'" "fptr fs' g b \<noteq> 0" for b
      using us pin G(3-5) that by (simp add: ptr nb)
  qed (use us ind G(7-11) nb in \<open>auto simp: footprint_def\<close>)
  then show "idle fs' g" using idleD(1,3) [OF f'] by (simp add: idle_def)
  have "l \<notin> own fs' f'" if "l \<in> footprint fs g" for l using C(4) [of l] out [OF that] by blast
  then show "separate fs' f' g"
    unfolding separate_def fp using out(2) C(2) by (simp add: footprint_def [of fs' f'])
  have "fblock fs' g b = fblock fs g b" if "b < n_blocks fs" for b
    using same pin that by (simp add: fblock_def ptr nb)
  moreover have "k div fs_blockSize fs < n_blocks fs" if "k < capacity fs" for k
    using that by (simp add: capacity_def less_mult_imp_div_less)
  ultimately show "fbyte fs' g k = fbyte fs g k" if "k < capacity fs" for k
    using that by (simp add: fbyte_def nb)
  show "c_data (fs_cont fs') (i_inid g) = c_data (fs_cont fs) (i_inid g)" by (rule same) (simp add: footprint_def)
qed

text \<open>The invariant of a system in which the file \<open>g\<close> with the bytes \<open>d\<close> shares the volume with the file that is used.\<close>

fun shared_inv :: "bool \<Rightarrow> Inode \<Rightarrow> u8 list \<Rightarrow> u8 list \<Rightarrow> SerenaFS \<times> Inode \<Rightarrow> bool" where
  "shared_inv k g d i (fs, f) \<longleftrightarrow> kept_inv k (fs, f) \<and> idle fs g \<and> separate fs f g \<and> fbytes fs g 0 (capacity fs) = d
     \<and> c_data (fs_cont fs) (i_inid g) = i"

lemma shared_exec_ok:
  assumes inv: "shared_inv k g d i (fs, f)" and gd: "\<not> loses_map x (fs, f)"
  shows "\<exists>fs' f'. file_exec x (fs, f) = Some (fs', f') \<and> shared_inv k g d i (fs', f')"
proof -
  have fi: "file_inv (fs, f)" using inv by (simp add: kept_inv_def)
  from file_exec_ok [OF fi gd] obtain fs' f' where
    x: "file_exec x (fs, f) = Some (fs', f')" "file_inv (fs', f')" "confined fs f fs' f'" by blast
  have id: "idle fs f" "idle fs' f'" "idle fs g" "separate fs f g" using inv x(2) by (simp_all add: kept_inv_def)
  note O = confined_other [OF x(3) id]
  have "capacity fs' = capacity fs" using fs_geomD(1,2) [OF confinedD(1) [OF x(3)]] by (simp add: capacity_def)
  then have "fbytes fs' g 0 (capacity fs') = fbytes fs g 0 (capacity fs)" using O(3) by (simp add: fbytes_def)
  then show ?thesis using x O inv confined_evicts [OF x(3)] by (simp add: kept_inv_def)
qed

interpretation shared: guarded_system "shared_inv k g d i" file_exec "\<lambda>x c. \<not> loses_map x c" for k g d i
proof
  fix c :: "SerenaFS \<times> Inode" and x
  assume "shared_inv k g d i c" "\<not> loses_map x c"
  then show "\<exists>c'. file_exec x c = Some c' \<and> shared_inv k g d i c'" using shared_exec_ok by (cases c) blast
qed

subsection \<open>A small volume\<close>

text \<open>
  A volume of 16 blocks of 512 bytes: the volume header in block 0, the allocation bitmap in block 1, the inodes of two empty
  files in blocks 2 and 3.
\<close>

definition demo_alloc :: SfsAllocator where
  "demo_alloc = \<lparr>a_bitmap = [240, 0], a_bitmapByteSize = 2, a_bitmapLba = 1, a_bitmapBlockCount = 1, a_dirty = [0],
     a_blockSize = 512, a_volumeBlockCount = 16\<rparr>"

definition demo_cont :: fscont where
  "demo_cont = \<lparr>c_blockCount = 16, c_blockSize = 512, c_readOnly = False, c_data = \<lambda>_. zeros 512, c_stale = \<lambda>_. zeros 512,
     c_locked = {}, c_faults = [], c_kept = \<lambda>_. zeros 512, c_evicts = []\<rparr>"

definition demo_fs :: SerenaFS where
  "demo_fs = \<lparr>fs_cont = demo_cont, fs_alloc = demo_alloc, fs_blockSize = 512, fs_blockShift = 9, fs_blockMask = 511,
     fs_indirectBlockEntryCount = 128, fs_isAccessUpdateOnReadEnabled = True, fs_now = (77, 5)\<rparr>"

definition demo_file :: "nat \<Rightarrow> Inode" where
  "demo_file inid = \<lparr>i_accessTime = (1, 0), i_modificationTime = (2, 0), i_statusChangeTime = (3, 0), i_size = 0, i_inid = inid,
     i_pnid = 9, i_linkCount = 1, i_fileType = FS_FTYPE_REG, i_permissions = 420, i_uid = 0, i_gid = 0, i_flags = 2,
     i_indirect = 0, i_direct = replicate 110 0\<rparr>"

lemma demo_bits: "list_all (\<lambda>k. bm_bit [240, 0] k = (k < 4)) [0..<16]"
  by code_simp

lemma demo_used: "used demo_alloc = {0, 1, 2, 3}"
proof -
  have b: "bm_bit [240, 0] k \<longleftrightarrow> k < 4" if "k < 16" for k
  proof -
    have "k \<in> set [0..<16]" using that by simp
    then show ?thesis using demo_bits unfolding list_all_iff by blast
  qed
  have "a_volumeBlockCount demo_alloc = 16" "a_bitmap demo_alloc = [240, 0]" by (simp_all add: demo_alloc_def)
  then have "used demo_alloc = {k. k < 16 \<and> bm_bit [240, 0] k}" by (simp only: used_def)
  also have "\<dots> = {k. k < 4}" using b by (metis (no_types, lifting) less_trans numeral_less_iff semiring_norm(76,78,81))
  also have "\<dots> = {0, 1, 2, 3}" by (simp add: set_eq_iff) presburger
  finally show ?thesis .
qed

lemma demo_alloc_ok: "alloc_ok demo_alloc" "one_bitmap_block demo_alloc"
  by (simp_all add: alloc_ok_def one_bitmap_block_def demo_alloc_def)

lemma demo_fs_ok: "fs_ok demo_fs"
  using demo_alloc_ok demo_used
  by (simp add: fs_ok_def demo_fs_def demo_cont_def cont_ok_def fs_used_def) (simp add: demo_alloc_def)

lemma demo_ptr: "b < n_blocks demo_fs \<Longrightarrow> fptr demo_fs (demo_file n) b = 0"
  by (simp add: fptr_def demo_file_def)

lemma demo_idle: "n \<in> {2, 3} \<Longrightarrow> idle demo_fs (demo_file n)"
proof -
  assume n: "n \<in> {2, 3}"
  have u: "fs_used demo_fs = {0, 1, 2, 3}" "a_bitmapLba (fs_alloc demo_fs) = 1"
    using demo_used by (simp_all add: fs_used_def demo_fs_def) (simp add: demo_alloc_def)
  have "file_ok demo_fs (demo_file n)"
    by (rule file_okI) (use n u demo_ptr in \<open>auto simp: demo_file_def\<close>)
  then show ?thesis using demo_fs_ok by (simp add: idle_def demo_fs_def demo_cont_def)
qed

lemma demo_separate: "separate demo_fs (demo_file 2) (demo_file 3)"
proof -
  have "own demo_fs (demo_file n) = {}" for n using demo_ptr by (auto simp: own_def demo_file_def)
  then show ?thesis by (simp add: separate_def footprint_def) (simp add: demo_file_def)
qed

lemma demo_inv: "idle demo_fs (demo_file 2)" "0 < i_linkCount (demo_file 2)" "i_linkCount (demo_file 2) \<noteq> 0"
  using demo_idle [of 2] by (simp_all add: demo_file_def)

lemma demo_size: "fs_blockSize demo_fs = 512" "c_faults (fs_cont demo_fs) = []" "capacity demo_fs = 121856"
  "fs_now demo_fs = (77, 5)" "c_evicts (fs_cont demo_fs) = []"
  by (simp_all add: demo_fs_def demo_cont_def capacity_def n_blocks_def)

subsection \<open>Helpers\<close>

lemma first_free_le:
  assumes "fs_ok fs" "len \<le> int (b * fs_blockSize fs)"
  shows "first_free fs len \<le> b"
proof -
  have B: "0 < fs_blockSize fs" using fs_okD(8) [OF assms(1)] by simp
  have l: "nat len \<le> b * fs_blockSize fs" using assms(2) by (simp only: nat_le_iff)
  then have "nat len div fs_blockSize fs \<le> b" using div_le_mono [OF l, of "fs_blockSize fs"] B by simp
  moreover have "nat len mod fs_blockSize fs = 0" if "nat len div fs_blockSize fs = b"
  proof -
    have "b * fs_blockSize fs + nat len mod fs_blockSize fs = nat len" using that div_mult_mod_eq [of "nat len" "fs_blockSize fs"] by simp
    then show ?thesis using l by linarith
  qed
  ultimately show ?thesis by (cases "nat len div fs_blockSize fs = b") (simp_all add: first_free_def)
qed

lemma backed_reachable:
  assumes ok: "fs_ok fs" and b: "backed fs f base (base + n)" and cap: "base + n \<le> capacity fs"
  shows "reachable fs f base n"
proof (rule ccontr)
  assume "\<not> reachable fs f base n"
  then have n: "n \<noteq> 0" "i_indirect f = 0" "kSFSDirectBlockPointersCount * fs_blockSize fs < base + n"
    by (simp_all add: reachable_def calm_def)
  have B: "0 < fs_blockSize fs" using fs_okD(8) [OF ok] by simp
  define q where "q = (base + n - 1) div fs_blockSize fs"
  have q: "q * fs_blockSize fs \<le> base + n - 1" "base + n - 1 < (q + 1) * fs_blockSize fs"
    using B div_times_less_eq_dividend dividend_less_div_times [of "fs_blockSize fs" "base + n - 1"] by (auto simp: q_def)
  have "q * fs_blockSize fs < n_blocks fs * fs_blockSize fs" using q(1) cap n(1) unfolding capacity_def by linarith
  then have qn: "q < n_blocks fs" by simp
  have "kSFSDirectBlockPointersCount * fs_blockSize fs < (q + 1) * fs_blockSize fs" using q(2) n(3) by linarith
  then have qd: "kSFSDirectBlockPointersCount \<le> q" by simp
  have "base < (q + 1) * fs_blockSize fs" "q * fs_blockSize fs < base + n" using q n(1) by linarith+
  then have "q < kSFSDirectBlockPointersCount \<or> fptr fs f q \<noteq> 0" using b qn by (simp add: backed_def)
  then show False using qd n(2) by (simp add: fptr_def)
qed

lemma write_read:
  assumes i: "idle fs f" and lc: "i_linkCount f \<noteq> 0" and fl: "c_faults (fs_cont fs) = []" and off: "addressable fs off"
    and n: "0 \<le> n" "n \<le> SSIZE_MAX" "off + n \<le> MAX_FILE_SIZE" "nat n \<le> length buf" and cap: "nat off + nat n \<le> capacity fs"
    and r: "reachable fs f (nat off) (nat n)"
  obtains e w f1 fs1 f2 fs2 where "SfsRegularFile_write fs f off buf n = Some (e, w, off + int w, f1, fs1)" "w \<le> nat n"
    "w < nat n \<longrightarrow> {1..<a_volumeBlockCount (fs_alloc fs)} \<subseteq> fs_used fs1" "e = EOK \<longleftrightarrow> w = nat n \<or> 0 < w"
    "SfsRegularFile_read fs1 f1 off (int w) = Some (EOK, take w buf, off + int w, f2, fs2)"
proof -
  obtain e w f1 fs1 where w: "SfsRegularFile_write fs f off buf n = Some (e, w, off + int w, f1, fs1)" "w \<le> nat n"
    "wrote fs f (nat off) w buf fs1 f1" "i_size f1 = (if w = 0 then i_size f else max (i_size f) (off + int w))"
    "c_faults (fs_cont fs) = [] \<longrightarrow> (e = EOK \<longleftrightarrow> w = nat n \<or> 0 < w)"
    "c_faults (fs_cont fs) = [] \<and> nat off + nat n \<le> capacity fs \<and> w < nat n \<longrightarrow> {1..<a_volumeBlockCount (fs_alloc fs)} \<subseteq> fs_used fs1"
    by (rule write_spec [OF i lc off n(1,3,4) r])
  note W = w(3) [unfolded wrote_def]
  have i1: "idle fs1 f1" and gm: "fs_geom fs fs1" using W by simp_all
  have off1: "addressable fs1 off" using off fs_geomD(2) [OF gm] by (simp add: addressable_def)
  have wn: "0 \<le> int w" "int w \<le> SSIZE_MAX" using w(2) n by linarith+
  have cap1: "capacity fs1 = capacity fs" using fs_geomD(1,2) [OF gm] by (simp add: capacity_def)
  have fl1: "c_faults (fs_cont fs1) = []" using fs_geomD(4) [OF gm fl] .
  have cnt: "read_count f1 off (int w) = w"
    using w(4) by (auto simp: read_count_def)
  have bk: "0 < w \<Longrightarrow> backed fs1 f1 (nat off) (nat off + w)" using W by simp
  have fits: "nat off + read_count f1 off (int w) \<le> capacity fs1" using cap cap1 w(2) cnt by simp
  have r1: "reachable fs1 f1 (nat off) (read_count f1 off (int w))"
    using backed_reachable [OF idleD(1) [OF i1] bk] fits cnt by (cases "0 < w") (simp_all add: reachable_def)
  obtain e2 out f2 fs2 where
    r: "SfsRegularFile_read fs1 f1 off (int w) = Some (e2, out, off + int (length out), f2, fs2)"
    "out = fbytes fs1 f1 (nat off) (length out)" "e2 = EOK \<and> length out = w"
    by (rule read_spec [OF i1 off1 wn r1]) (use fl1 fits bk cnt in \<open>cases "0 < w"; simp\<close>)
  have "fbytes fs1 f1 (nat off) w = take w buf"
    by (rule nth_equalityI) (use W w(2) n cap in \<open>auto simp: fbytes_def\<close>)
  then have "SfsRegularFile_read fs1 f1 off (int w) = Some (EOK, take w buf, off + int w, f2, fs2)"
    using r by simp
  with that w(1,2,5,6) fl cap show ?thesis by blast
qed

text \<open>
  A file that is cut inside a block and extended again shows the bytes it had there before: the part of the last block behind
  the new end is not cleared.
\<close>

lemma truncate_extend_stale:
  assumes i: "idle fs f" and lc: "i_linkCount f \<noteq> 0" and len: "0 \<le> len" "len < 4294967295 * int (fs_blockSize fs)"
    and len2: "len \<le> len2" "len2 < 4294967295 * int (fs_blockSize fs)"
    and k: "k < capacity fs" "k < first_free fs len * fs_blockSize fs"
  shows "\<exists>f1 fs1 f2 fs2. SfsRegularFile_truncate fs f len = Some (EOK, f1, fs1) \<and>
    SfsRegularFile_truncate fs1 f1 len2 = Some (EOK, f2, fs2) \<and> i_size f2 = len2 \<and> fbyte fs2 f2 k = fbyte fs f k"
proof -
  obtain f1 fs1 where t1: "SfsRegularFile_truncate fs f len = Some (EOK, f1, fs1)" "truncated fs f len fs1 f1"
    by (rule truncate_spec [OF i lc len])
  note T = t1(2) [unfolded truncated_def]
  have g: "fs_geom fs fs1" using T by simp
  have l2: "0 \<le> len2" "len2 < 4294967295 * int (fs_blockSize fs1)" using len len2 fs_geomD(2) [OF g] by simp_all
  have i1: "idle fs1 f1" "i_linkCount f1 \<noteq> 0" using T lc by simp_all
  obtain f2 fs2 where t2: "SfsRegularFile_truncate fs1 f1 len2 = Some (EOK, f2, fs2)" "truncated fs1 f1 len2 fs2 f2"
    by (rule truncate_spec [OF i1 l2])
  have "capacity fs1 = capacity fs" using fs_geomD(1,2) [OF g] by (simp add: capacity_def)
  then have "fbyte fs2 f2 k = fbyte fs1 f1 k" "i_size f2 = len2" using t2(2) T len2 k by (auto simp: truncated_def)
  with t1(1) t2(1) T k show ?thesis by auto
qed

text \<open>
  What happens in the call that the properties leave out. A read of a block behind the direct blocks gives a file without an indirect
  block a new one, and since the data block is not new, it is unmapped without a write. If the cache gives the block up, the pointers of the
  file are from then on what the free block happened to hold before.
\<close>

lemma indirect_block_lost:
  assumes i: "idle fs f" and f: "i_indirect f = 0" and c: "c_faults (fs_cont fs) = []" "c_evicts (fs_cont fs) = True # es"
    and b: "kSFSDirectBlockPointersCount \<le> b" "b < n_blocks fs" and free: "\<not> {1..<a_volumeBlockCount (fs_alloc fs)} \<subseteq> fs_used fs"
  shows "\<exists>blk f' fs'. SfsFile_MapBlock fs f b kMapBlock_ReadOnly = Some (EOK, blk, f', fs') \<and> i_indirect f' \<noteq> 0 \<and>
    i_indirect f' \<notin> fs_used fs \<and> (\<forall>j. fptr fs' f' (kSFSDirectBlockPointersCount + j) = entry (c_data (fs_cont fs) (i_indirect f')) j)"
proof -
  note ok = idleD(1) [OF i] note D = fs_okD [OF ok]
  obtain k where k: "b = kSFSDirectBlockPointersCount + k" "k < fs_indirectBlockEntryCount fs"
    using b le_iff_add by (auto simp: n_blocks_def)
  obtain lba al where al: "SfsAllocator_Allocate (fs_alloc fs) = Some (EOK, lba, al)" "0 < lba" "lba \<notin> used (fs_alloc fs)"
    using allocate_spec [OF D(1)] free by (metis fs_used_def)
  have kd: "c_kept (fs_cont fs) = c_data (fs_cont fs)" using D(3) c(2) by (simp add: cont_ok_def)
  have z: "be_at (zeros (fs_blockSize fs)) (4 * k) 4 = Some 0" using be_at_zeros [of "4 * k" 4 "fs_blockSize fs"] k(2) D(9) by simp
  show ?thesis
    using al f c k z kd idleD(3) [OF i] D(4)
    by (simp add: SfsFile_MapBlock_def map_disk_block_def FSContainer_MapBlock_def FSContainer_UnmapBlock_def unmapped_def
        mapped_bytes_def next_fault_def next_evict_def assigned_def fptr_indirect fs_used_def Let_def)
qed

subsection \<open>The properties\<close>

text \<open>
  C11. The block allocator implements a finite set of blocks in use: every sequence of allocations, deallocations of blocks of the
  volume and counts runs without a fault and returns what the set returns, where an allocation takes the lowest free
  block and reports \<open>ENOSPC\<close> exactly when there is none.
\<close>

theorem allocator_refines_set:
  assumes "alloc_rep a s" "run_pre alloc_pre alloc_spec xs s"
  shows "\<exists>a'. run_ops alloc_step xs a = Some (fst (run_spec alloc_spec xs s), a') \<and> alloc_rep a' (snd (run_spec alloc_spec xs s))"
  using assms by (rule allocset.run_refines)

theorem allocator_refines_set_witness:
  "\<exists>a'. run_ops alloc_step [OpAllocate, OpDeallocate 2, OpAllocate, OpCount] demo_alloc =
     Some (fst (run_spec alloc_spec [OpAllocate, OpDeallocate 2, OpAllocate, OpCount] (16, {0, 1, 2, 3})), a')"
proof -
  have r: "alloc_rep demo_alloc (16, {0, 1, 2, 3})"
    using demo_alloc_ok demo_used by (simp add: alloc_rep_def) (simp add: demo_alloc_def)
  have "\<not> {1..<16} \<subseteq> {0, 1, 2, 3 :: nat}" by (simp add: subset_eq) (rule bexI [of _ 4], simp_all)
  then have "run_pre alloc_pre alloc_spec [OpAllocate, OpDeallocate 2, OpAllocate, OpCount] (16, {0, 1, 2, 3})"
    by (simp add: Let_def split: prod.split if_split)
  from allocator_refines_set [OF r this] show ?thesis by blast
qed

text \<open>
  C10. The state of a volume and of a file on it that a directory refers to is well typed: the block map of the file has its 110
  direct pointers, every pointer names a block of the volume that is in use and belongs to nothing else, no block is mapped, and the
  bitmap of the allocator fills one block. Every sequence of reads, writes, truncations and write backs of the file keeps
  it so and runs without a fault, for all offsets, sizes and lengths (negative ones and those whose block number does not
  fit into 32 bits included), for every schedule of I/O errors of the container and also on a full volume. The exception: if the cache
  may give up clean blocks, the run is followed up to the first call that goes behind the direct blocks of a file without
  an indirect block.
\<close>

theorem file_calls_well_typed:
  assumes "idle fs f" "0 < i_linkCount f"
  shows "\<exists>ys zs fs' f'. xs = ys @ zs \<and> run_all file_exec ys (fs, f) = Some (fs', f') \<and> idle fs' f' \<and> 0 < i_linkCount f' \<and>
    (zs = [] \<or> c_evicts (fs_cont fs) \<noteq> [] \<and> loses_map (hd zs) (fs', f'))"
proof -
  let ?k = "c_evicts (fs_cont fs) = []"
  have "kept_inv ?k (fs, f)" using assms by (simp add: kept_inv_def)
  from filesys.run_stops [OF this, of xs] show ?thesis
  proof (elim disjE exE conjE)
    fix c' assume c: "run_all file_exec xs (fs, f) = Some c'" "kept_inv ?k c'"
    obtain fs' f' where p: "c' = (fs', f')" by (cases c')
    show ?thesis
      by (rule exI [of _ xs], rule exI [of _ "[]"], rule exI [of _ fs'], rule exI [of _ f']) (use c p in \<open>simp add: kept_inv_def\<close>)
  next
    fix ys x zs c' assume c: "xs = ys @ x # zs" "run_all file_exec ys (fs, f) = Some c'" "kept_inv ?k c'" "\<not> \<not> loses_map x c'"
    obtain fs' f' where p: "c' = (fs', f')" by (cases c')
    show ?thesis
      by (rule exI [of _ ys], rule exI [of _ "x # zs"], rule exI [of _ fs'], rule exI [of _ f'])
        (use c p loses_map_evicts [of x fs' f'] in \<open>auto simp: kept_inv_def\<close>)
  qed
qed

theorem file_calls_well_typed_witness:
  "\<exists>fs' f'. run_all file_exec [FWrite 57000 [1, 2, 3], FTruncate 10, FRead 0 5, FRead (- 1) 5] (demo_fs, demo_file 2) = Some (fs', f') \<and>
     idle fs' f'"
  using file_calls_well_typed [OF demo_inv(1,2), of "[FWrite 57000 [1, 2, 3], FTruncate 10, FRead 0 5, FRead (- 1) 5]"] demo_size(5)
  by auto

text \<open>
  C7. Files are isolated from each other: whatever sequence of reads, writes, truncations and write backs runs on one linked file,
  another file of the volume keeps all its bytes, its blocks and the block of its inode, and the two files never come to share
  a block. If the cache may give up clean blocks, this holds up to the first call that goes behind the direct blocks of a
  file without an indirect block: such a call can leave the file with pointers that are not its own.
\<close>

theorem files_isolated:
  assumes "idle fs f" "0 < i_linkCount f" "idle fs g" "separate fs f g"
  shows "\<exists>ys zs fs' f'. xs = ys @ zs \<and> run_all file_exec ys (fs, f) = Some (fs', f') \<and> idle fs' g \<and> separate fs' f' g \<and>
    fbytes fs' g 0 (capacity fs') = fbytes fs g 0 (capacity fs) \<and> c_data (fs_cont fs') (i_inid g) = c_data (fs_cont fs) (i_inid g) \<and>
    (zs = [] \<or> c_evicts (fs_cont fs) \<noteq> [] \<and> loses_map (hd zs) (fs', f'))"
proof -
  let ?k = "c_evicts (fs_cont fs) = []" and ?d = "fbytes fs g 0 (capacity fs)" and ?i = "c_data (fs_cont fs) (i_inid g)"
  have "shared_inv ?k g ?d ?i (fs, f)" using assms by (simp add: kept_inv_def)
  from shared.run_stops [OF this, of xs] show ?thesis
  proof (elim disjE exE conjE)
    fix c' assume c: "run_all file_exec xs (fs, f) = Some c'" "shared_inv ?k g ?d ?i c'"
    obtain fs' f' where p: "c' = (fs', f')" by (cases c')
    show ?thesis
      by (rule exI [of _ xs], rule exI [of _ "[]"], rule exI [of _ fs'], rule exI [of _ f']) (use c p in simp)
  next
    fix ys x zs c'
    assume c: "xs = ys @ x # zs" "run_all file_exec ys (fs, f) = Some c'" "shared_inv ?k g ?d ?i c'" "\<not> \<not> loses_map x c'"
    obtain fs' f' where p: "c' = (fs', f')" by (cases c')
    show ?thesis
      by (rule exI [of _ ys], rule exI [of _ "x # zs"], rule exI [of _ fs'], rule exI [of _ f'])
        (use c p loses_map_evicts [of x fs' f'] in \<open>auto simp: kept_inv_def\<close>)
  qed
qed

theorem files_isolated_witness:
  "\<exists>fs' f'. run_all file_exec [FWrite 57000 [1, 2, 3], FTruncate 10] (demo_fs, demo_file 2) = Some (fs', f') \<and>
     separate fs' f' (demo_file 3) \<and> fbytes fs' (demo_file 3) 0 (capacity fs') = fbytes demo_fs (demo_file 3) 0 (capacity demo_fs)"
  using files_isolated [OF demo_inv(1,2) _ demo_separate, of "[FWrite 57000 [1, 2, 3], FTruncate 10]"] demo_idle [of 3] demo_size(5)
  by auto

text \<open>
  C24. What is written to a file is read back: a write to a file that is linked, within the blocks that a file can have and without
  I/O errors, writes all bytes or stops because no block of the volume is free, and a read of the bytes written returns them. Here the
  cache keeps clean blocks, or the file has an indirect block, or the bytes are in the direct blocks.
\<close>

theorem write_read_roundtrip:
  assumes "idle fs f" "i_linkCount f \<noteq> 0" "c_faults (fs_cont fs) = []" "addressable fs off" "0 \<le> n" "n \<le> SSIZE_MAX"
    "off + n \<le> MAX_FILE_SIZE" "nat n \<le> length buf" "nat off + nat n \<le> capacity fs" "reachable fs f (nat off) (nat n)"
  shows "\<exists>e w f1 fs1 f2 fs2. SfsRegularFile_write fs f off buf n = Some (e, w, off + int w, f1, fs1) \<and> w \<le> nat n \<and>
    (w < nat n \<longrightarrow> {1..<a_volumeBlockCount (fs_alloc fs)} \<subseteq> fs_used fs1) \<and> (e = EOK \<longleftrightarrow> w = nat n \<or> 0 < w) \<and>
    SfsRegularFile_read fs1 f1 off (int w) = Some (EOK, take w buf, off + int w, f2, fs2)"
  by (rule write_read [OF assms]) (intro exI conjI)

theorem write_read_roundtrip_witness:
  "\<exists>e w f1 fs1 f2 fs2. SfsRegularFile_write demo_fs (demo_file 2) 57000 [7, 8, 9] 3 = Some (e, w, 57000 + int w, f1, fs1) \<and>
     SfsRegularFile_read fs1 f1 57000 (int w) = Some (EOK, take w [7, 8, 9], 57000 + int w, f2, fs2)"
proof -
  have "addressable demo_fs 57000" using demo_size by (simp add: addressable_def)
  moreover have "reachable demo_fs (demo_file 2) (nat 57000) (nat 3)" by (simp add: reachable_def calm_def demo_size(5))
  ultimately show ?thesis
    using write_read_roundtrip [OF demo_inv(1,3) demo_size(2), of 57000 3 "[7, 8, 9]"] by (simp add: demo_size(3)) blast
qed

text \<open>
  C26. An inode survives its write back: after a linked inode whose fields fit the disk format has been written back without an
  I/O error, acquiring it from the disk gives an inode with the same fields, in which the times that were marked as changed
  are the current time.
\<close>

theorem inode_roundtrip:
  assumes "idle fs f" "i_linkCount f \<noteq> 0" "wf_inode f" "wf_time (fs_now fs)" "c_faults (fs_cont fs) = []"
  shows "\<exists>fs1 fs2. Inode_Writeback fs f = Some (EOK, clear_flags f, fs1) \<and>
    SerenaFS_onAcquireNode fs1 (i_inid f) = Some (EOK, Some (saved (fs_now fs) f), fs2)"
  by (rule writeback_acquire [OF assms]) blast

theorem inode_roundtrip_witness:
  "\<exists>fs1 fs2. Inode_Writeback demo_fs (demo_file 2) = Some (EOK, clear_flags (demo_file 2), fs1) \<and>
    SerenaFS_onAcquireNode fs1 2 = Some (EOK, Some (saved (77, 5) (demo_file 2)), fs2)"
proof -
  have "wf_inode (demo_file 2)" "i_inid (demo_file 2) = 2" "wf_time (77, 5)" by (simp_all add: wf_inode_def wf_time_def demo_file_def)
  then show ?thesis using inode_roundtrip [of demo_fs "demo_file 2"] demo_inv demo_size by simp
qed

text \<open>
  C27. Deleting a file: the write back of an inode that no directory refers to any more frees its data blocks and the block of the
  inode and nothing else, so that the indirect block of the file stays allocated although nothing refers to it.
\<close>

theorem delete_frees:
  assumes "idle fs f" "i_linkCount f = 0" "c_faults (fs_cont fs) = []"
  shows "\<exists>f' fs'. Inode_Writeback fs f = Some (EOK, f', fs') \<and> fs_ok fs' \<and> i_size f' = 0 \<and>
    fs_used fs' = fs_used fs - data_blocks fs f - {i_inid f} \<and> i_indirect f' = 0 \<and>
    (i_indirect f \<noteq> 0 \<longrightarrow> i_indirect f \<in> fs_used fs')"
proof -
  obtain f' fs' where w: "Inode_Writeback fs f = Some (EOK, f', fs')" "fs_ok fs'" "i_size f' = 0"
    "fs_used fs' = fs_used fs - data_blocks fs f - {i_inid f}" "i_indirect f' = 0"
    by (rule writeback_unlinked [OF assms])
  then show ?thesis
    using file_okD(6,7) [OF idleD(2) [OF assms(1)]] indirect_not_data [OF idleD(2) [OF assms(1)]] by auto
qed

theorem delete_frees_witness:
  "\<exists>f' fs'. Inode_Writeback demo_fs ((demo_file 2)\<lparr>i_linkCount := 0\<rparr>) = Some (EOK, f', fs') \<and> fs_used fs' = {0, 1, 3}"
proof -
  let ?f = "(demo_file 2)\<lparr>i_linkCount := 0\<rparr>"
  have i: "idle demo_fs ?f" by (rule same_blocks_idle [OF _ demo_idle [of 2]]) (simp_all add: same_blocks_def)
  have p: "fptr demo_fs ?f b = 0" if "b < n_blocks demo_fs" for b
    using that by (simp add: fptr_def demo_file_def)
  have d: "data_blocks demo_fs ?f = {}" using p by (auto simp: data_blocks_def)
  have n: "i_inid ?f = 2" "fs_used demo_fs = {0, 1, 2, 3}" using demo_used by (simp_all add: demo_file_def demo_fs_def fs_used_def)
  have "{0, 1, 2, 3} - {2} = {0, 1, 3 :: nat}" by auto
  then show ?thesis using delete_frees [OF i] demo_size d n by auto
qed

text \<open>
  C28. Truncating a linked file never fails: it sets the length, keeps the bytes that both the old and the new length cover, and takes
  no block. When the file gets shorter and no I/O error occurs, the blocks behind the last one that is still needed are gone. When it
  gets longer, its blocks stay as they are: the bytes between the old and the new length are not cleared, against the
  documentation of \<open>fs_truncate\<close>.
\<close>

theorem truncate_keeps_prefix:
  assumes "idle fs f" "i_linkCount f \<noteq> 0" "0 \<le> len" "len < 4294967295 * int (fs_blockSize fs)"
  shows "\<exists>f' fs'. SfsRegularFile_truncate fs f len = Some (EOK, f', fs') \<and> idle fs' f' \<and> i_size f' = len \<and> fs_used fs' \<subseteq> fs_used fs \<and>
    (\<forall>n. n \<le> capacity fs \<and> int n \<le> len \<and> int n \<le> i_size f \<longrightarrow> fbytes fs' f' 0 n = fbytes fs f 0 n) \<and>
    (c_faults (fs_cont fs) = [] \<and> len < i_size f \<longrightarrow> (\<forall>b < n_blocks fs. len \<le> int (b * fs_blockSize fs) \<longrightarrow> fptr fs' f' b = 0)) \<and>
    (i_size f \<le> len \<longrightarrow> fbytes fs' f' 0 (capacity fs) = fbytes fs f 0 (capacity fs))"
proof -
  obtain f' fs' where t: "SfsRegularFile_truncate fs f len = Some (EOK, f', fs')" "truncated fs f len fs' f'"
    by (rule truncate_spec [OF assms])
  note T = t(2) [unfolded truncated_def]
  have "k < first_free fs len * fs_blockSize fs" if "k < nat len" for k
    using below_first_free [OF idleD(1) [OF assms(1)] assms(3) that] .
  then have "fbytes fs' f' 0 n = fbytes fs f 0 n" if "n \<le> capacity fs" "int n \<le> len" for n
    using T that by (auto simp: fbytes_def)
  moreover have "fbytes fs' f' 0 (capacity fs) = fbytes fs f 0 (capacity fs)" if "i_size f \<le> len"
    using T that by (auto simp: fbytes_def)
  moreover have "first_free fs len \<le> b" if "len \<le> int (b * fs_blockSize fs)" for b
    using first_free_le [OF idleD(1) [OF assms(1)] that] .
  ultimately show ?thesis using t T by auto
qed

theorem truncate_keeps_prefix_witness:
  "\<exists>f' fs'. SfsRegularFile_truncate demo_fs ((demo_file 2)\<lparr>i_size := 2000\<rparr>) 1000 = Some (EOK, f', fs') \<and> i_size f' = 1000 \<and>
     fbytes fs' f' 0 1000 = fbytes demo_fs ((demo_file 2)\<lparr>i_size := 2000\<rparr>) 0 1000"
proof -
  let ?f = "(demo_file 2)\<lparr>i_size := 2000\<rparr>"
  have i: "idle demo_fs ?f" by (rule same_blocks_idle [OF _ demo_idle [of 2]]) (simp_all add: same_blocks_def)
  have "i_linkCount ?f \<noteq> 0" "(0 :: int) \<le> 1000" "(1000 :: int) < 4294967295 * int (fs_blockSize demo_fs)"
    using demo_inv(3) by (simp_all add: demo_size(1))
  from truncate_keeps_prefix [OF i this] obtain f' fs' where
    t: "SfsRegularFile_truncate demo_fs ?f 1000 = Some (EOK, f', fs')" "i_size f' = 1000"
      "\<forall>n. n \<le> capacity demo_fs \<and> int n \<le> 1000 \<and> int n \<le> i_size ?f \<longrightarrow> fbytes fs' f' 0 n = fbytes demo_fs ?f 0 n"
    by (elim exE conjE)
  have "fbytes fs' f' 0 1000 = fbytes demo_fs ?f 0 1000" using t(3) by (simp add: demo_size(3))
  then show ?thesis using t(1,2) by blast
qed

end
