(* ===== verification/SfsDir.thy ===== *)
theory SfsDir
  imports SfsFile
begin

section \<open>Directories of SerenaFS\<close>

text \<open>
  \<open>serenafs/SfsDirectory.c\<close>, \<open>SerenaFS_Directory.c\<close>, and the path components of \<open>filesystem/PathComponent.c\<close>. A directory is a file
  of 32 byte entries: the inode id, the length of the name and 27 bytes for the name. An id of 0 marks an entry that is not in use.
  A path component is a list of characters, whose length is the field \<open>count\<close>.
\<close>

subsection \<open>Path components\<close>

type_synonym PathComponent = "u8 list"

definition kPathComponent_Self :: PathComponent where "kPathComponent_Self = [46]"
definition kPathComponent_Parent :: PathComponent where "kPathComponent_Parent = [46, 46]"

text \<open>The comparison loop; \<open>rhs\<close> is the memory from the start of the right hand string on.\<close>

fun equals_loop :: "u8 list \<Rightarrow> u8 list \<Rightarrow> nat \<Rightarrow> bool option" where
  "equals_loop lhs rhs 0 = Some True"
| "equals_loop lhs rhs (Suc n) =
     do { a \<leftarrow> arr_get lhs 0; b \<leftarrow> arr_get rhs 0;
          if a = b then equals_loop (tl lhs) (tl rhs) n else Some False }"

definition PathComponent_EqualsString :: "PathComponent \<Rightarrow> u8 list \<Rightarrow> nat \<Rightarrow> bool option" where
  "PathComponent_EqualsString pc rhs rhsLength =
     (if length pc \<noteq> rhsLength then Some False else equals_loop pc rhs (length pc))"

record MutablePathComponent =
  m_name :: "u8 list"
  m_count :: nat
  m_capacity :: nat

definition MutablePathComponent_SetString ::
  "MutablePathComponent \<Rightarrow> u8 list \<Rightarrow> nat \<Rightarrow> (errno \<times> MutablePathComponent) option" where
  "MutablePathComponent_SetString pc str len =
     (if m_capacity pc < len then Some (ERANGE, pc\<lparr>m_count := 0\<rparr>)
      else do {
        s \<leftarrow> get_bytes str 0 len;
        nm \<leftarrow> put_bytes (m_name pc) 0 s;
        Some (EOK, pc\<lparr>m_count := len, m_name := nm\<rparr>) })"

subsection \<open>Queries\<close>

abbreviation kSFSMaxFilenameLength :: nat where "kSFSMaxFilenameLength \<equiv> 27"
abbreviation kSFSLimit_LinkMax :: int where "kSFSLimit_LinkMax \<equiv> 2147483647"

record sfs_insertion_hint =
  ih_lba :: nat
  ih_blockOffset :: nat

datatype sfs_query_key = kSFSQuery_PathComponent PathComponent | kSFSQuery_InodeId nat

record sfs_query =
  q_key :: sfs_query_key
  q_mpc :: "MutablePathComponent option"
  q_ih :: bool

record sfs_query_result =
  qr_mpc :: "MutablePathComponent option"
  qr_id :: nat
  qr_lba :: nat
  qr_blockOffset :: nat
  qr_fileOffset :: int
  qr_ih :: "sfs_insertion_hint option"

definition query_init :: "sfs_query \<Rightarrow> sfs_query_result" where
  "query_init q =
     \<lparr>qr_mpc = (case q_key q of kSFSQuery_InodeId _ \<Rightarrow> map_option (\<lambda>m. m\<lparr>m_count := 0\<rparr>) (q_mpc q)
                               | kSFSQuery_PathComponent _ \<Rightarrow> None),
      qr_id = 0, qr_lba = 0, qr_blockOffset = 0, qr_fileOffset = 0,
      qr_ih = (if q_ih q then Some \<lparr>ih_lba = 0, ih_blockOffset = 0\<rparr> else None)\<rparr>"

definition query_match :: "sfs_query_key \<Rightarrow> u8 list \<Rightarrow> nat \<Rightarrow> bool option" where
  "query_match k data sp =
     (case k of
        kSFSQuery_PathComponent pc \<Rightarrow> do {
          len \<leftarrow> be_at data (sp + 4) 1;
          PathComponent_EqualsString pc (drop (sp + 5) data) len }
      | kSFSQuery_InodeId inid \<Rightarrow> do { sid \<leftarrow> be_at data sp 4; Some (inid mod 4294967296 = sid) })"

text \<open>
  The loop over the entries of one block. It returns whether the entry was found, the position and the file offset that it has
  reached and the result, in which the insertion hint is the first free entry seen so far (\<open>hasHint\<close>).
\<close>

function query_entries ::
  "nat \<Rightarrow> sfs_query_key \<Rightarrow> u8 list \<Rightarrow> nat \<Rightarrow> int \<Rightarrow> nat \<Rightarrow> int \<Rightarrow> bool \<Rightarrow> sfs_query_result
     \<Rightarrow> (bool \<times> int \<times> bool \<times> sfs_query_result) option" where
  "query_entries bsize k data lba fileSize sp offset hasHint qr =
     (if sp < bsize \<and> offset < fileSize then do {
        inid \<leftarrow> be_at data sp 4;
        found \<leftarrow> (if 0 < inid then query_match k data sp else Some False);
        let (hasHint1, qr1) =
          (if inid = 0 \<and> qr_ih qr \<noteq> None \<and> \<not> hasHint
           then (True, qr\<lparr>qr_ih := Some \<lparr>ih_lba = lba, ih_blockOffset = sp\<rparr>\<rparr>)
           else (hasHint, qr));
        if found then do {
          mpc \<leftarrow> (case qr_mpc qr1 of None \<Rightarrow> Some None
                   | Some m \<Rightarrow> do { len \<leftarrow> be_at data (sp + 4) 1;
                                    (_, m') \<leftarrow> MutablePathComponent_SetString m (drop (sp + 5) data) len;
                                    Some (Some m') });
          Some (True, offset, hasHint1, qr1\<lparr>qr_id := inid, qr_mpc := mpc, qr_lba := lba, qr_blockOffset := sp, qr_fileOffset := offset\<rparr>) }
        else query_entries bsize k data lba fileSize (sp + 32) (offset + 32) hasHint1 qr1 }
      else Some (False, offset, hasHint, qr))"
  by pat_completeness auto
termination
  by (relation "measure (\<lambda>(bsize, k, data, lba, fileSize, sp, offset, hasHint, qr). bsize - sp)") auto

declare query_entries.simps [simp del]

text \<open>The loop over the blocks; every pass moves the offset by at least one entry.\<close>

fun query_blocks ::
  "nat \<Rightarrow> SerenaFS \<Rightarrow> Inode \<Rightarrow> sfs_query_key \<Rightarrow> nat \<Rightarrow> int \<Rightarrow> bool \<Rightarrow> sfs_query_result
     \<Rightarrow> (bool \<times> errno \<times> sfs_query_result \<times> Inode \<times> SerenaFS) option" where
  "query_blocks 0 fs self k blockIdx offset hasHint qr = None"
| "query_blocks (Suc fuel) fs self k blockIdx offset hasHint qr =
     (if offset < i_size self then do {
        (e, blk, self1, fs1) \<leftarrow> SfsFile_MapBlock fs self blockIdx kMapBlock_ReadOnly;
        if e \<noteq> EOK then Some (False, e, qr, self1, fs1)
        else do {
          (found, offset1, hasHint1, qr1) \<leftarrow>
            query_entries (fs_blockSize fs) k (b_data (f_b blk)) (f_lba blk) (i_size self) 0 offset hasHint qr;
          (_, fs2) \<leftarrow> SfsFile_UnmapBlock fs1 blk kWriteBlock_None;
          if found then Some (True, EOK, qr1, self1, fs2)
          else query_blocks fuel fs2 self1 k ((blockIdx + 1) mod 4294967296) offset1 hasHint1 qr1 } }
      else Some (False, EOK, qr, self, fs))"

definition SfsDirectory_Query ::
  "SerenaFS \<Rightarrow> Inode \<Rightarrow> sfs_query \<Rightarrow> (errno \<times> sfs_query_result \<times> Inode \<times> SerenaFS) option" where
  "SfsDirectory_Query fs self q =
     (let qr = query_init q;
          name_err = (case q_key q of
              kSFSQuery_PathComponent pc \<Rightarrow> (if length pc = 0 then ENOENT else if length pc > kSFSMaxFilenameLength then ENAMETOOLONG else EOK)
            | kSFSQuery_InodeId _ \<Rightarrow> EOK) in
      if name_err \<noteq> EOK then Some (name_err, qr, self, fs)
      else do {
        (found, e, qr1, self1, fs1) \<leftarrow> query_blocks (Suc (nat (i_size self))) fs self (q_key q) 0 0 False qr;
        Some (if found then e else ENOENT, qr1, self1, fs1) })"

subsection \<open>Changing a directory\<close>

definition SfsDirectory_IsNotEmpty :: "Inode \<Rightarrow> bool" where
  "SfsDirectory_IsNotEmpty self \<longleftrightarrow> i_linkCount self > 1 \<or> i_size self > 64"

definition SfsDirectory_CanAcceptEntry :: "Inode \<Rightarrow> PathComponent \<Rightarrow> nat \<Rightarrow> errno" where
  "SfsDirectory_CanAcceptEntry self name itype =
     (if length name > kSFSMaxFilenameLength then ENAMETOOLONG
      else if itype = kSFSInode_Directory \<and> i_linkCount self \<ge> kSFSLimit_LinkMax then EMLINK
      else EOK)"

text \<open>Setting the fields of a directory entry at an offset of a block.\<close>

definition dirent_set :: "u8 list \<Rightarrow> nat \<Rightarrow> PathComponent \<Rightarrow> nat \<Rightarrow> u8 list option" where
  "dirent_set data off name inid =
     do { d1 \<leftarrow> put_bytes data (off + 5) (zeros kSFSMaxFilenameLength);
          d2 \<leftarrow> put_bytes d1 (off + 5) name;
          d3 \<leftarrow> put_bytes d2 (off + 4) [of_nat (length name)];
          put_bytes d3 off (be32_put inid) }"

text \<open>
  Where a new entry goes: the entry of the insertion hint, or a new one at the end of the file. With an insertion hint the code does not
  initialize the field \<open>isZeroFill\<close> of the block, which \<open>SfsFile_UnmapBlock\<close> reads: its value is the argument \<open>uninit\<close>.
\<close>

definition map_new_entry ::
  "bool \<Rightarrow> SerenaFS \<Rightarrow> Inode \<Rightarrow> sfs_insertion_hint option \<Rightarrow> (errno \<times> SfsFileBlock \<times> nat \<times> Inode \<times> SerenaFS) option" where
  "map_new_entry uninit fs self ih =
     (let lba = (case ih of Some h \<Rightarrow> ih_lba h | None \<Rightarrow> 0);
          hint_off = (case ih of Some h \<Rightarrow> ih_blockOffset h | None \<Rightarrow> 0) in
      if 0 < lba then do {
        (e, b, c) \<leftarrow> FSContainer_MapBlock (fs_cont fs) lba kMapBlock_Update;
        Some (e, \<lparr>f_b = b, f_lba = lba, f_wasAlloced = False, f_isZeroFill = uninit\<rparr>, hint_off, self, fs\<lparr>fs_cont := c\<rparr>) }
      else do {
        let (fba, off) = SfsFile_ConvertOffset fs (i_size self);
        (e, blk, self1, fs1) \<leftarrow> SfsFile_MapBlock fs self fba kMapBlock_Update;
        if e \<noteq> EOK then Some (e, blk, off, self1, fs1)
        else do {
          (e2, fs2) \<leftarrow> commit fs1;
          if e2 \<noteq> EOK then Some (e2, blk, off, self1, fs2)
          else Some (EOK, blk, off, self1\<lparr>i_size := i_size self1 + 32\<rparr>, fs2) } })"

definition SfsDirectory_InsertEntry ::
  "bool \<Rightarrow> SerenaFS \<Rightarrow> Inode \<Rightarrow> PathComponent \<Rightarrow> Inode \<Rightarrow> sfs_insertion_hint option \<Rightarrow> (errno \<times> Inode \<times> SerenaFS) option" where
  "SfsDirectory_InsertEntry uninit fs self name child ih =
     do { (e, blk, blockOffset, self1, fs1) \<leftarrow> map_new_entry uninit fs self ih;
          if e \<noteq> EOK then Some (e, self1, fs1)
          else do {
            d \<leftarrow> dirent_set (b_data (f_b blk)) blockOffset name (i_inid child);
            (_, fs2) \<leftarrow> SfsFile_UnmapBlock fs1 (blk\<lparr>f_b := (f_b blk)\<lparr>b_data := d\<rparr>\<rparr>) kWriteBlock_Deferred;
            let self2 = (if Inode_IsDirectory child then Inode_Link self1 else self1);
            Some (EOK, Inode_SetModified self2 (kInodeFlag_Updated OR kInodeFlag_StatusChanged), fs2) } }"

text \<open>Changing the bytes of one entry of a block that is known by its number: map for update, change, unmap.\<close>

definition update_entry ::
  "SerenaFS \<Rightarrow> nat \<Rightarrow> (u8 list \<Rightarrow> u8 list option) \<Rightarrow> (errno \<times> SerenaFS) option" where
  "update_entry fs lba f =
     do { (e, blk, c) \<leftarrow> FSContainer_MapBlock (fs_cont fs) lba kMapBlock_Update;
          if e \<noteq> EOK then Some (e, fs\<lparr>fs_cont := c\<rparr>)
          else do {
            d \<leftarrow> f (b_data blk);
            (_, c1) \<leftarrow> FSContainer_UnmapBlock c (blk\<lparr>b_data := d\<rparr>) kWriteBlock_Deferred;
            Some (EOK, fs\<lparr>fs_cont := c1\<rparr>) } }"

definition SfsDirectory_RemoveEntry :: "SerenaFS \<Rightarrow> Inode \<Rightarrow> Inode \<Rightarrow> (errno \<times> Inode \<times> SerenaFS) option" where
  "SfsDirectory_RemoveEntry fs self node =
     do { (e, qr, self1, fs1) \<leftarrow> SfsDirectory_Query fs self \<lparr>q_key = kSFSQuery_InodeId (i_inid node), q_mpc = None, q_ih = False\<rparr>;
          if e \<noteq> EOK then Some (e, self1, fs1)
          else do {
            (e1, fs2) \<leftarrow> update_entry fs1 (qr_lba qr) (\<lambda>d. put_bytes d (qr_blockOffset qr) (zeros 32));
            if e1 \<noteq> EOK then Some (e1, self1, fs2)
            else do {
              (self2, fs3) \<leftarrow>
                (if i_size self1 - 32 = qr_fileOffset qr
                 then do { (_, s, f) \<leftarrow> SfsFile_Trim fs2 self1 (qr_fileOffset qr); Some (s, f) }
                 else Some (self1, fs2));
              let self3 = (if Inode_IsDirectory node then Inode_Unlink self2 else self2);
              Some (EOK, Inode_SetModified self3 (kInodeFlag_Updated OR kInodeFlag_StatusChanged), fs3) } } }"

definition SfsDirectory_UpdateParentEntry :: "SerenaFS \<Rightarrow> Inode \<Rightarrow> nat \<Rightarrow> (errno \<times> Inode \<times> SerenaFS) option" where
  "SfsDirectory_UpdateParentEntry fs self pnid =
     do { (e, qr, self1, fs1) \<leftarrow> SfsDirectory_Query fs self \<lparr>q_key = kSFSQuery_PathComponent kPathComponent_Parent, q_mpc = None, q_ih = False\<rparr>;
          if e \<noteq> EOK then Some (e, self1, fs1)
          else do {
            (e1, fs2) \<leftarrow> update_entry fs1 (qr_lba qr) (\<lambda>d. put_bytes d (qr_blockOffset qr) (be32_put pnid));
            Some (e1, self1, fs2) } }"

subsection \<open>Reading a directory\<close>

text \<open>
  A \<open>dir_entry_t\<close> has 260 bytes: an inode id and 255 characters. The loops copy entries that are in use; the amounts are those of the C variables
  (\<open>nIn\<close> bytes left in the block, \<open>nSrc\<close> left in the directory, \<open>nDst\<close> left in the buffer).
\<close>

type_synonym dir_entry = "nat \<times> u8 list"

abbreviation sizeof_dir_entry :: int where "sizeof_dir_entry \<equiv> 260"

function read_entries ::
  "u8 list \<Rightarrow> nat \<Rightarrow> int \<Rightarrow> int \<Rightarrow> int \<Rightarrow> int \<Rightarrow> dir_entry list \<Rightarrow> (int \<times> int \<times> int \<times> dir_entry list) option" where
  "read_entries data sp nIn nSrc nDst nRead out =
     (if 0 < nIn \<and> nDst \<ge> sizeof_dir_entry then do {
        inid \<leftarrow> be_at data sp 4;
        (nDst1, out1) \<leftarrow>
          (if 0 < inid then do {
             len \<leftarrow> be_at data (sp + 4) 1;
             nm \<leftarrow> get_bytes data (sp + 5) len;
             Some (nDst - sizeof_dir_entry, out @ [(inid, nm)]) }
           else Some (nDst, out));
        read_entries data (sp + 32) (nIn - 32) (nSrc - 32) nDst1 (nRead + 32) out1 }
      else Some (nSrc, nDst, nRead, out))"
  by pat_completeness auto
termination
  by (relation "measure (\<lambda>(data, sp, nIn, nSrc, nDst, nRead, out). nat nIn)") auto

declare read_entries.simps [simp del]

fun read_blocks ::
  "nat \<Rightarrow> SerenaFS \<Rightarrow> Inode \<Rightarrow> nat \<Rightarrow> nat \<Rightarrow> int \<Rightarrow> int \<Rightarrow> int \<Rightarrow> dir_entry list
     \<Rightarrow> (errno \<times> int \<times> dir_entry list \<times> Inode \<times> SerenaFS) option" where
  "read_blocks 0 fs self blockIdx blockOffset nSrc nDst nRead out = None"
| "read_blocks (Suc fuel) fs self blockIdx blockOffset nSrc nDst nRead out =
     (if 0 < nSrc \<and> nDst \<ge> sizeof_dir_entry then do {
        let rest = int (a_blockSize (fs_alloc fs)) - int blockOffset;
        let nIn = (if nSrc > rest then rest else nSrc);
        (e, blk, self1, fs1) \<leftarrow> SfsFile_MapBlock fs self blockIdx kMapBlock_ReadOnly;
        if e \<noteq> EOK then Some (if nRead = 0 then e else EOK, nRead, out, self1, fs1)
        else do {
          (nSrc1, nDst1, nRead1, out1) \<leftarrow> read_entries (b_data (f_b blk)) blockOffset nIn nSrc nDst nRead out;
          (_, fs2) \<leftarrow> SfsFile_UnmapBlock fs1 blk kWriteBlock_None;
          read_blocks fuel fs2 self1 ((blockIdx + 1) mod 4294967296) 0 nSrc1 nDst1 nRead1 out1 } }
      else Some (EOK, nRead, out, self, fs))"

text \<open>The number of bytes behind the offset is cast to \<open>ssize_t\<close> unless it is above its maximum.\<close>

definition SfsDirectory_read ::
  "SerenaFS \<Rightarrow> Inode \<Rightarrow> int \<Rightarrow> int \<Rightarrow> (errno \<times> dir_entry list \<times> int \<times> Inode \<times> SerenaFS) option" where
  "SfsDirectory_read fs self offset nDst =
     (if nDst < 0 then Some (EINVAL, [], offset, self, fs)
      else if 0 < nDst \<and> offset < 0 then Some (EOVERFLOW, [], offset, self, fs)
      else do {
        let nAvail = i_size self - offset;
        let nSrc = (if nAvail \<le> SSIZE_MAX then to_int32 (nat (nAvail mod 4294967296)) else SSIZE_MAX);
        let (blockIdx, blockOffset) = SfsFile_ConvertOffset fs offset;
        (e, nRead, out, self1, fs1) \<leftarrow> read_blocks (Suc (nat nSrc)) fs self blockIdx blockOffset nSrc nDst 0 [];
        let self2 = (if 0 < nRead \<and> fs_isAccessUpdateOnReadEnabled fs1 then Inode_SetModified self1 kInodeFlag_Accessed else self1);
        Some (e, out, offset + nRead, self2, fs1) })"

end
