(* ===== verification/SfsDirInv.thy ===== *)
theory SfsDirInv
  imports SfsDir SfsTrim
begin

section \<open>Directories are maps\<close>

text \<open>
  The entries of a directory as a list of slots, what the queries find in them, and what inserting and removing an entry do to them.
\<close>

subsection \<open>Slots\<close>

text \<open>The 32 bytes of an entry as the inode id and the name.\<close>

definition slot_of :: "u8 list \<Rightarrow> nat \<times> u8 list" where
  "slot_of ds = (be_val (take 4 ds), take (unat (ds ! 4)) (drop 5 ds))"

definition dirent_bytes :: "nat \<Rightarrow> PathComponent \<Rightarrow> u8 list" where
  "dirent_bytes inid name = be32_put inid @ [of_nat (length name)] @ name @ zeros (kSFSMaxFilenameLength - length name)"

definition slot_wf :: "u8 list \<Rightarrow> bool" where
  "slot_wf ds \<longleftrightarrow> (be_val (take 4 ds) \<noteq> 0 \<longrightarrow> ds ! 4 \<noteq> 0 \<and> unat (ds ! 4) \<le> kSFSMaxFilenameLength)"

lemma length_dirent_bytes: "length name \<le> kSFSMaxFilenameLength \<Longrightarrow> length (dirent_bytes inid name) = 32"
  by (simp add: dirent_bytes_def)

lemma slot_dirent:
  assumes "length name \<le> kSFSMaxFilenameLength" "inid < 4294967296"
  shows "slot_of (dirent_bytes inid name) = (inid, name)"
proof -
  have "unat (of_nat (length name) :: u8) = length name" using assms(1) by (simp add: unat_of_nat_u8)
  then show ?thesis using assms(2)
    by (simp add: slot_of_def dirent_bytes_def be32_roundtrip nth_append)
qed

lemma dirent_wf:
  assumes "length name \<le> kSFSMaxFilenameLength" "name \<noteq> []"
  shows "slot_wf (dirent_bytes inid name)"
proof -
  have u: "unat (of_nat (length name) :: u8) = length name" using assms(1) by (simp add: unat_of_nat_u8)
  then have "of_nat (length name) \<noteq> (0 :: u8)" using assms(2) by (metis length_0_conv unat_0)
  then show ?thesis using assms(1) u by (simp add: slot_wf_def dirent_bytes_def nth_append)
qed

text \<open>Setting the fields of an entry one by one stores the bytes of the entry.\<close>

lemma dirent_set_eq:
  assumes "length name \<le> kSFSMaxFilenameLength" "off + 32 \<le> length data"
  shows "dirent_set data off name inid = put_bytes data off (dirent_bytes inid name)"
proof -
  let ?n = "length name"
  define a where "a = take off data"
  define r where "r = drop (off + 32) data"
  obtain m where m: "data = a @ m @ r" "length m = 32" "length a = off"
    using assms(2) by (metis (no_types, lifting) a_def r_def add.commute add_leD1 append_take_drop_id drop_drop length_take
        take_drop length_drop min.absorb2 diff_add_inverse2 le_diff_conv2)
  have "dirent_set data off name inid = Some (a @ dirent_bytes inid name @ r)"
    using m assms(1)
    by (simp add: dirent_set_def put_bytes_def dirent_bytes_def zeros_def del: append_assoc)
  moreover have "put_bytes data off (dirent_bytes inid name) = Some (a @ dirent_bytes inid name @ r)"
    using m length_dirent_bytes [OF assms(1)] by (simp add: put_bytes_def)
  ultimately show ?thesis by simp
qed

subsection \<open>Valid directories\<close>

definition dlen :: "Inode \<Rightarrow> nat" where
  "dlen d = nat (i_size d) div 32"

definition dent :: "SerenaFS \<Rightarrow> Inode \<Rightarrow> nat \<Rightarrow> u8 list" where
  "dent fs d i = fbytes fs d (32 * i) 32"

definition dslot :: "SerenaFS \<Rightarrow> Inode \<Rightarrow> nat \<Rightarrow> nat \<times> u8 list" where
  "dslot fs d i = slot_of (dent fs d i)"

definition dir_ok :: "SerenaFS \<Rightarrow> Inode \<Rightarrow> bool" where
  "dir_ok fs d \<longleftrightarrow> idle fs d \<and> 0 \<le> i_size d \<and> i_size d = int (32 * dlen d) \<and> 32 * dlen d \<le> capacity fs
   \<and> (\<forall>b. b * fs_blockSize fs < 32 * dlen d \<longrightarrow> fptr fs d b \<noteq> 0) \<and> (\<forall>i < dlen d. slot_wf (dent fs d i))"

lemma dir_okD:
  assumes "dir_ok fs d"
  shows "idle fs d" "0 \<le> i_size d" "i_size d = int (32 * dlen d)" "32 * dlen d \<le> capacity fs"
    "b * fs_blockSize fs < 32 * dlen d \<Longrightarrow> fptr fs d b \<noteq> 0" "i < dlen d \<Longrightarrow> slot_wf (dent fs d i)"
  using assms by (simp_all add: dir_ok_def)

text \<open>Entries do not cross blocks: a block of \<open>2 ^ n\<close> bytes holds a whole number of entries.\<close>

definition per_block :: "SerenaFS \<Rightarrow> nat" where
  "per_block fs = fs_blockSize fs div 32"

lemma per_block: "fs_ok fs \<Longrightarrow> fs_blockSize fs = 32 * per_block fs" "fs_ok fs \<Longrightarrow> 16 \<le> per_block fs"
proof -
  assume ok: "fs_ok fs"
  have B: "fs_blockSize fs = 2 ^ fs_blockShift fs" "512 \<le> fs_blockSize fs" using ok unfolding fs_ok_def by blast+
  have "5 \<le> fs_blockShift fs"
  proof (rule ccontr)
    assume "\<not> 5 \<le> fs_blockShift fs"
    then have "2 ^ fs_blockShift fs \<le> (2 :: nat) ^ 5" by (intro power_increasing) simp_all
    then show False using B by simp
  qed
  then have "(2 :: nat) ^ 5 dvd 2 ^ fs_blockShift fs" by (rule le_imp_power_dvd)
  then show "fs_blockSize fs = 32 * per_block fs" using B(1) by (simp add: per_block_def)
  then show "16 \<le> per_block fs" using B(2) by simp
qed

lemma dent_block:
  assumes "fs_ok fs" "j < per_block fs"
  shows "dent fs d (b * per_block fs + j) = take 32 (drop (32 * j) (fblock fs d b))"
proof -
  have B: "fs_blockSize fs = 32 * per_block fs" using per_block(1) [OF assms(1)] .
  have "32 * (b * per_block fs + j) = b * fs_blockSize fs + 32 * j" using B by simp
  moreover have "32 * j + 32 \<le> fs_blockSize fs" using B assms(2) by simp
  ultimately show ?thesis using fbytes_block [OF assms(1), of "32 * j" 32 d b] by (simp only: dent_def)
qed

subsection \<open>Searching\<close>

fun key_match :: "sfs_query_key \<Rightarrow> nat \<times> u8 list \<Rightarrow> bool" where
  "key_match (kSFSQuery_PathComponent pc) s \<longleftrightarrow> snd s = pc"
| "key_match (kSFSQuery_InodeId n) s \<longleftrightarrow> fst s = n mod 4294967296"

fun key_ok :: "sfs_query_key \<Rightarrow> bool" where
  "key_ok (kSFSQuery_PathComponent pc) \<longleftrightarrow> pc \<noteq> [] \<and> length pc \<le> kSFSMaxFilenameLength"
| "key_ok (kSFSQuery_InodeId n) \<longleftrightarrow> True"

text \<open>The first slot that matches and the first free one before it.\<close>

fun scan :: "(nat \<Rightarrow> nat \<times> u8 list) \<Rightarrow> sfs_query_key \<Rightarrow> nat list \<Rightarrow> nat option \<times> nat option" where
  "scan L k [] = (None, None)"
| "scan L k (i # is) =
     (if fst (L i) = 0 then (fst (scan L k is), Some i)
      else if key_match k (L i) then (Some i, None)
      else scan L k is)"

lemma scan_append:
  "scan L k (xs @ ys) =
     (case scan L k xs of (Some i, f) \<Rightarrow> (Some i, f) | (None, f) \<Rightarrow> (fst (scan L k ys), if f = None then snd (scan L k ys) else f))"
  by (induction xs) (auto split: prod.splits option.splits)

lemma scan_hit: "fst (scan L k is) = Some i \<Longrightarrow> i \<in> set is \<and> fst (L i) \<noteq> 0 \<and> key_match k (L i)"
  by (induction "is") (auto split: if_splits)

lemma scan_miss: "fst (scan L k is) = None \<longleftrightarrow> (\<forall>i \<in> set is. fst (L i) = 0 \<or> \<not> key_match k (L i))"
  by (induction "is") auto

lemma scan_free: "snd (scan L k is) = Some i \<Longrightarrow> i \<in> set is \<and> fst (L i) = 0"
  by (induction "is") (auto split: if_splits)

lemma scan_full: "fst (scan L k is) = None \<Longrightarrow> snd (scan L k is) = None \<Longrightarrow> i \<in> set is \<Longrightarrow> fst (L i) \<noteq> 0"
  by (induction "is") (auto split: if_splits)

lemma scan_cong: "(\<And>i. i \<in> set is \<Longrightarrow> L i = L' i) \<Longrightarrow> scan L k is = scan L' k is"
  by (induction "is") auto

lemma equals_loop_eq:
  "length lhs = n \<Longrightarrow> n \<le> length rhs \<Longrightarrow> equals_loop lhs rhs n = Some (lhs = take n rhs)"
proof (induction n arbitrary: lhs rhs)
  case (Suc n)
  then obtain a l b r where c: "lhs = a # l" "rhs = b # r" by (metis Suc_le_length_iff Suc_length_conv)
  then show ?case using Suc by (simp add: arr_get_def)
qed simp

lemma be_at_1: "off < length xs \<Longrightarrow> be_at xs off 1 = Some (unat (xs ! off))"
  by (simp add: be_at_def get_bytes_def take_Suc_conv_app_nth drop_Suc hd_drop_conv_nth take_Suc)

lemma query_match_eq:
  assumes "sp + 32 \<le> length data" "ds = take 32 (drop sp data)" "slot_wf ds" "fst (slot_of ds) \<noteq> 0" "key_ok k"
  shows "query_match k data sp = Some (key_match k (slot_of ds))"
proof (cases k)
  case (kSFSQuery_PathComponent pc)
  have len: "ds ! 4 = data ! (sp + 4)" using assms(1,2) by (simp add: add.commute)
  have u: "unat (ds ! 4) \<le> kSFSMaxFilenameLength" using assms(3,4) by (simp add: slot_wf_def slot_of_def)
  have nm: "take (unat (ds ! 4)) (drop 5 ds) = take (unat (ds ! 4)) (drop (sp + 5) data)"
    using assms(1,2) u by (simp add: drop_take min_def add.commute)
  have l: "length (take (unat (ds ! 4)) (drop (sp + 5) data)) = unat (ds ! 4)" using assms(1) u by simp
  show ?thesis
  proof (cases "length pc = unat (ds ! 4)")
    case True
    then have "equals_loop pc (drop (sp + 5) data) (length pc) = Some (pc = take (length pc) (drop (sp + 5) data))"
      by (intro equals_loop_eq) (use assms(1) u in simp_all)
    then show ?thesis
      using kSFSQuery_PathComponent True be_at_1 [of "sp + 4" data] assms(1) len nm
      by (auto simp: query_match_def PathComponent_EqualsString_def slot_of_def)
  next
    case False
    then show ?thesis
      using kSFSQuery_PathComponent be_at_1 [of "sp + 4" data] assms(1) len nm l
      by (auto simp: query_match_def PathComponent_EqualsString_def slot_of_def)
  qed
next
  case (kSFSQuery_InodeId n)
  have "be_at data sp 4 = Some (be_val (take 4 ds))" using assms(1,2) by (simp add: be_at_in min_def)
  then show ?thesis using kSFSQuery_InodeId by (auto simp: query_match_def slot_of_def)
qed

definition with_hint :: "nat \<Rightarrow> nat \<Rightarrow> bool \<Rightarrow> sfs_query_result \<Rightarrow> nat option \<Rightarrow> bool \<times> sfs_query_result" where
  "with_hint lba i0 hh qr free =
     (case free of
        Some i \<Rightarrow> if qr_ih qr \<noteq> None \<and> \<not> hh then (True, qr\<lparr>qr_ih := Some \<lparr>ih_lba = lba, ih_blockOffset = 32 * (i - i0)\<rparr>\<rparr>) else (hh, qr)
      | None \<Rightarrow> (hh, qr))"

lemma with_hint_None [simp]: "with_hint lba i0 hh qr None = (hh, qr)"
  by (simp add: with_hint_def)

lemma with_hint_mpc [simp]: "qr_mpc (snd (with_hint lba i0 hh qr f)) = qr_mpc qr"
  by (simp add: with_hint_def split: option.split)

definition entries_result :: "nat \<Rightarrow> nat \<Rightarrow> nat \<Rightarrow> (nat \<Rightarrow> nat \<times> u8 list) \<Rightarrow> bool \<Rightarrow> sfs_query_result \<Rightarrow> nat option \<times> nat option
    \<Rightarrow> bool \<times> int \<times> bool \<times> sfs_query_result" where
  "entries_result lba i0 i1 L hh qr sc =
     (case fst sc of
        Some i \<Rightarrow> (True, int (32 * i), fst (with_hint lba i0 hh qr (snd sc)),
          (snd (with_hint lba i0 hh qr (snd sc)))\<lparr>qr_id := fst (L i), qr_lba := lba, qr_blockOffset := 32 * (i - i0), qr_fileOffset := int (32 * i)\<rparr>)
      | None \<Rightarrow> (False, int (32 * i1), with_hint lba i0 hh qr (snd sc)))"

lemma entries_result_free:
  assumes "fst (L i) = 0"
  shows "entries_result lba i0 i1 L hh qr (scan L k (i # is)) =
    (case with_hint lba i0 hh qr (Some i) of (hh1, qr1) \<Rightarrow> entries_result lba i0 i1 L hh1 qr1 (scan L k is))"
  using assms by (auto simp: entries_result_def with_hint_def split: option.split)

lemma query_entries_spec:
  assumes ok: "fs_ok fs" and k: "key_ok k" and wf: "\<And>i. i < n \<Longrightarrow> slot_wf (dent fs d i)" and mpc: "qr_mpc qr = None"
    and data: "data = fblock fs d b" and i0: "i0 = b * per_block fs" and i1: "i1 = min n (i0 + per_block fs)" and j: "i0 + j \<le> i1"
  shows "query_entries (fs_blockSize fs) k data lba (int (32 * n)) (32 * j) (int (32 * (i0 + j))) hh qr =
    Some (entries_result lba i0 i1 (dslot fs d) hh qr (scan (dslot fs d) k [i0 + j..<i1]))"
  using mpc j
proof (induction "i1 - (i0 + j)" arbitrary: j hh qr)
  case 0
  then have e: "i0 + j = i1" by simp
  then have "\<not> (32 * j < fs_blockSize fs \<and> int (32 * (i0 + j)) < int (32 * n))"
    using i1 per_block(1) [OF ok] by auto
  then have "query_entries (fs_blockSize fs) k data lba (int (32 * n)) (32 * j) (int (32 * (i0 + j))) hh qr =
      Some (False, int (32 * (i0 + j)), hh, qr)"
    by (subst query_entries.simps) (simp only: if_False)
  then show ?case using e by (simp add: entries_result_def)
next
  case (Suc x)
  let ?m = "per_block fs" and ?i = "i0 + j"
  have B: "fs_blockSize fs = 32 * ?m" using per_block(1) [OF ok] .
  have j: "j < ?m" "?i < n" "?i < i1" using Suc.hyps(2) i1 by auto
  have ds: "dent fs d ?i = take 32 (drop (32 * j) data)" using dent_block [OF ok j(1), of d b] data i0 by simp
  have ld: "length data = 32 * ?m" using length_fblock [OF ok] data B by simp
  have room: "32 * j + 32 \<le> length data" using ld j(1) by simp
  have id: "be_at data (32 * j) 4 = Some (fst (dslot fs d ?i))"
    using room ds by (simp add: be_at_in dslot_def slot_of_def min_def)
  have up: "[?i..<i1] = ?i # [i0 + Suc j..<i1]" using j(3) by (simp add: upt_conv_Cons)
  have sp: "32 * j + 32 = 32 * Suc j" "int (32 * ?i) + 32 = int (32 * (i0 + Suc j))" by simp_all
  have guard: "32 * j < fs_blockSize fs \<and> int (32 * ?i) < int (32 * n)" using B j by simp
  have IH: "query_entries (fs_blockSize fs) k data lba (int (32 * n)) (32 * Suc j) (int (32 * (i0 + Suc j))) hh1 qr1 =
      Some (entries_result lba i0 i1 (dslot fs d) hh1 qr1 (scan (dslot fs d) k [i0 + Suc j..<i1]))" if "qr_mpc qr1 = None" for hh1 qr1
    by (rule Suc.hyps(1)) (use Suc.hyps(2) j(3) that in simp_all)
  show ?case
  proof (cases "fst (dslot fs d ?i) = 0")
    case True
    then show ?thesis
      unfolding up entries_result_free [of "dslot fs d" ?i, OF True]
      by (subst query_entries.simps)
        (use guard id IH [unfolded sp [symmetric]] Suc.prems(1) in \<open>simp add: with_hint_def Let_def\<close>)
  next
    case False
    have m: "query_match k data (32 * j) = Some (key_match k (dslot fs d ?i))"
      using query_match_eq [OF room ds wf [OF j(2)]] False k by (simp add: dslot_def)
    show ?thesis
    proof (cases "key_match k (dslot fs d ?i)")
      case True
      then show ?thesis
        unfolding up
        by (subst query_entries.simps)
          (use guard id m False Suc.prems(1) in \<open>simp add: entries_result_def\<close>)
    next
      case nomatch: False
      then show ?thesis
        unfolding up
        by (subst query_entries.simps)
          (use guard id m False IH [unfolded sp [symmetric]] Suc.prems(1) in \<open>simp add: Let_def\<close>)
    qed
  qed
qed

text \<open>The block of a slot and its offset in it.\<close>

definition slot_hint :: "SerenaFS \<Rightarrow> Inode \<Rightarrow> nat \<Rightarrow> sfs_insertion_hint" where
  "slot_hint fs d i = \<lparr>ih_lba = fptr fs d (i div per_block fs), ih_blockOffset = 32 * (i mod per_block fs)\<rparr>"

definition query_result :: "SerenaFS \<Rightarrow> Inode \<Rightarrow> bool \<Rightarrow> sfs_query_result \<Rightarrow> nat option \<times> nat option \<Rightarrow> sfs_query_result" where
  "query_result fs d hh qr sc =
     (let q1 = (case snd sc of Some i \<Rightarrow> if qr_ih qr \<noteq> None \<and> \<not> hh then qr\<lparr>qr_ih := Some (slot_hint fs d i)\<rparr> else qr | None \<Rightarrow> qr) in
      case fst sc of
        Some i \<Rightarrow> q1\<lparr>qr_id := fst (dslot fs d i), qr_lba := ih_lba (slot_hint fs d i), qr_blockOffset := ih_blockOffset (slot_hint fs d i),
                     qr_fileOffset := int (32 * i)\<rparr>
      | None \<Rightarrow> q1)"

lemma keeps_dent: "keeps fs d fs' d' \<Longrightarrow> 32 * i + 32 \<le> capacity fs \<Longrightarrow> dent fs' d' i = dent fs d i"
  by (simp add: dent_def keeps_fbytes)

lemma keeps_dlen: "keeps fs d fs' d' \<Longrightarrow> i_size d' = i_size d \<and> dlen d' = dlen d"
  using same_metaD(1) [OF frameD(2) [OF keepsD(2)]] by (simp add: dlen_def)

lemma slot_in_dir:
  assumes "dir_ok fs d" "i < dlen d"
  shows "32 * i + 32 \<le> capacity fs" "i div per_block fs < n_blocks fs" "fptr fs d (i div per_block fs) \<noteq> 0"
proof -
  have ok: "fs_ok fs" using idleD(1) [OF dir_okD(1) [OF assms(1)]] .
  note P = per_block [OF ok]
  show c: "32 * i + 32 \<le> capacity fs" using dir_okD(4) [OF assms(1)] assms(2) by simp
  have le: "i div per_block fs * per_block fs \<le> i" by simp
  have "i div per_block fs * fs_blockSize fs = 32 * (i div per_block fs * per_block fs)" using P(1) by simp
  also have "\<dots> \<le> 32 * i" using le by linarith
  finally have b: "i div per_block fs * fs_blockSize fs \<le> 32 * i" .
  then have "i div per_block fs * fs_blockSize fs < n_blocks fs * fs_blockSize fs" using c unfolding capacity_def by linarith
  then show "i div per_block fs < n_blocks fs" by simp
  show "fptr fs d (i div per_block fs) \<noteq> 0" by (rule dir_okD(5) [OF assms(1)]) (use b assms(2) in linarith)
qed

lemma dir_ok_keeps:
  assumes "dir_ok fs d" "keeps fs d fs' d'"
  shows "dir_ok fs' d'"
proof -
  note K = keepsD [OF assms(2)] note D = dir_okD [OF assms(1)]
  have l: "i_size d' = i_size d" "dlen d' = dlen d" using keeps_dlen [OF assms(2)] by simp_all
  have cap: "capacity fs' = capacity fs" using K(4,5) by (simp add: capacity_def)
  have "fptr fs' d' b \<noteq> 0" if "b * fs_blockSize fs < 32 * dlen d" for b
  proof -
    have "b * fs_blockSize fs < n_blocks fs * fs_blockSize fs" using that D(4) unfolding capacity_def by linarith
    then have "b < n_blocks fs" by simp
    then show ?thesis using K(7) D(5) that by simp
  qed
  moreover have "slot_wf (dent fs' d' i)" if "i < dlen d" for i
    using keeps_dent [OF assms(2) slot_in_dir(1) [OF assms(1) that]] D(6) [OF that] by simp
  ultimately show ?thesis using K(1,4) D l cap by (simp add: dir_ok_def)
qed

lemma slot_position:
  assumes "0 < (m :: nat)" "b * m \<le> i" "i < b * m + m"
  shows "i div m = b" "i mod m = i - b * m"
proof -
  show d: "i div m = b" by (rule div_nat_eqI) (use assms in \<open>simp_all add: mult.commute\<close>)
  show "i mod m = i - b * m" using minus_div_mult_eq_mod [of i m] d by simp
qed

lemma entries_query_result:
  assumes hit: "\<And>i. fst sc = Some i \<Longrightarrow> b * per_block fs \<le> i \<and> i < b * per_block fs + per_block fs"
    and free: "\<And>i. snd sc = Some i \<Longrightarrow> b * per_block fs \<le> i \<and> i < b * per_block fs + per_block fs" and m: "0 < per_block fs"
  shows "snd (snd (snd (entries_result (fptr fs d b) (b * per_block fs) i1 (dslot fs d) hh qr sc))) = query_result fs d hh qr sc"
    "fst (entries_result (fptr fs d b) (b * per_block fs) i1 (dslot fs d) hh qr sc) \<longleftrightarrow> fst sc \<noteq> None"
proof -
  have h: "slot_hint fs d i = \<lparr>ih_lba = fptr fs d b, ih_blockOffset = 32 * (i - b * per_block fs)\<rparr>" if "fst sc = Some i \<or> snd sc = Some i" for i
    using slot_position [OF m, of b i] hit [of i] free [of i] that by (auto simp: slot_hint_def)
  show "snd (snd (snd (entries_result (fptr fs d b) (b * per_block fs) i1 (dslot fs d) hh qr sc))) = query_result fs d hh qr sc"
    using h by (auto simp: entries_result_def query_result_def with_hint_def Let_def split: option.split)
  show "fst (entries_result (fptr fs d b) (b * per_block fs) i1 (dslot fs d) hh qr sc) \<longleftrightarrow> fst sc \<noteq> None"
    by (simp add: entries_result_def split: option.split)
qed

lemma query_result_cong:
  assumes k: "keeps fs d fs' d'" and m: "per_block fs' = per_block fs"
    and sc: "\<And>i. fst sc = Some i \<or> snd sc = Some i \<Longrightarrow> 32 * i + 32 \<le> capacity fs \<and> i div per_block fs < n_blocks fs"
  shows "query_result fs' d' hh qr sc = query_result fs d hh qr sc"
proof -
  have "slot_hint fs' d' i = slot_hint fs d i \<and> dslot fs' d' i = dslot fs d i" if "fst sc = Some i \<or> snd sc = Some i" for i
    using keepsD(7) [OF k] keeps_dent [OF k] sc [OF that] m by (simp add: slot_hint_def dslot_def)
  then show ?thesis by (auto simp: query_result_def Let_def split: option.split)
qed

text \<open>The result after the slots of a block in which nothing was found, continued with the result for the slots behind it.\<close>

lemma query_result_append:
  assumes "scan L k xs = (None, f)" and wh: "(hh1, qr1) = (if f \<noteq> None \<and> qr_ih qr \<noteq> None \<and> \<not> hh then (True, qr\<lparr>qr_ih := Some (slot_hint fs d (the f))\<rparr>) else (hh, qr))"
  shows "query_result fs d hh qr (scan L k (xs @ ys)) = query_result fs d hh1 qr1 (scan L k ys)"
  using assms by (cases f) (auto simp: scan_append query_result_def Let_def split: option.split if_splits prod.splits)

lemma query_blocks_spec:
  assumes "dir_ok fs d" "key_ok k" "c_faults (fs_cont fs) = []" "qr_mpc qr = None" "dlen d - b * per_block fs < fuel"
  shows "\<exists>d' fs'. query_blocks fuel fs d k b (int (32 * min (dlen d) (b * per_block fs))) hh qr =
      Some (fst (scan (dslot fs d) k [b * per_block fs..<dlen d]) \<noteq> None, EOK,
            query_result fs d hh qr (scan (dslot fs d) k [b * per_block fs..<dlen d]), d', fs') \<and> keeps fs d fs' d'"
  using assms
proof (induction fuel arbitrary: fs d b hh qr)
  case (Suc fuel)
  define m where "m = per_block fs"
  define n where "n = dlen d"
  note D = dir_okD [OF Suc.prems(1)]
  note ok = idleD(1) [OF D(1)]
  note P = per_block [OF ok, folded m_def]
  have size: "i_size d = int (32 * n)" using D(3) by (simp add: n_def)
  show ?case
  proof (cases "b * m < n")
    case False
    then have "[b * per_block fs..<dlen d] = []" "\<not> int (32 * min n (b * m)) < i_size d" using size by (simp_all add: m_def n_def)
    then show ?thesis using keeps_refl [OF D(1)] by (auto simp: m_def n_def query_result_def)
  next
    case True
    define i1 where "i1 = min n (b * m + m)"
    define L where "L = dslot fs d"
    have pos: "b * m div m = b" using P(2) by simp
    have bn: "b < n_blocks fs" "fptr fs d b \<noteq> 0"
      using slot_in_dir(2,3) [OF Suc.prems(1), of "b * m"] True pos by (simp_all add: m_def n_def)
    have cb: "calm fs d \<or> b < kSFSDirectBlockPointersCount" using bn(2) by (auto simp: fptr_def calm_def split: if_splits)
    from D(1) bn(1) cb show ?thesis
    proof (cases rule: read_map)
      case (err e blk f' fs')
      have "i_indirect d = 0" "kSFSDirectBlockPointersCount \<le> b" using err(4) Suc.prems(3) by auto
      then show ?thesis using bn(2) by (simp add: fptr_def)
    next
      case (got blk d1 fs1 fs2)
      note K = keepsD [OF got(4)]
      define sc where "sc = scan L k [b * m..<i1]"
      have lo: "int (32 * min n (b * m)) = int (32 * (b * m + 0))" using True by simp
      have ent: "query_entries (fs_blockSize fs) k (b_data (f_b blk)) (f_lba blk) (i_size d) 0 (int (32 * min n (b * m))) hh qr =
          Some (entries_result (fptr fs d b) (b * m) i1 L hh qr sc)"
        using query_entries_spec [OF ok Suc.prems(2) D(6) Suc.prems(4) got(2) refl refl, of n 0 "fptr fs d b" hh] True got(5) [OF bn(2)] size lo
        by (simp add: L_def m_def n_def sc_def i1_def)
      have range: "b * m \<le> i \<and> i < b * m + m \<and> i < n" if "fst sc = Some i \<or> snd sc = Some i" for i
        using scan_hit [of L k "[b * m..<i1]" i] scan_free [of L k "[b * m..<i1]" i] that by (auto simp: sc_def i1_def)
      have m0: "0 < per_block fs" using P(2) by (simp add: m_def)
      have R: "snd (snd (snd (entries_result (fptr fs d b) (b * m) i1 L hh qr sc))) = query_result fs d hh qr sc"
        "fst (entries_result (fptr fs d b) (b * m) i1 L hh qr sc) \<longleftrightarrow> fst sc \<noteq> None"
        unfolding m_def L_def by (rule entries_query_result; use range m0 in \<open>simp add: m_def\<close>)+
      have split: "[b * m..<n] = [b * m..<i1] @ [i1..<n]" using upt_add_eq_append [of "b * m" i1 "n - i1"] True by (simp add: i1_def)
      have lt: "int (32 * min n (b * m)) < i_size d" unfolding size of_nat_less_iff using True by simp
      show ?thesis
      proof (cases "fst sc")
        case (Some i)
        then obtain g where f: "sc = (Some i, g)" by (cases sc) simp
        then have "scan L k [b * m..<n] = sc" unfolding split scan_append sc_def [symmetric] by simp
        moreover obtain o1 h1 where "entries_result (fptr fs d b) (b * m) i1 L hh qr sc = (True, o1, h1, query_result fs d hh qr sc)"
          using R Some by (metis option.distinct(1) prod.collapse)
        then have "query_blocks (Suc fuel) fs d k b (int (32 * min n (b * m))) hh qr = Some (True, EOK, query_result fs d hh qr sc, d1, fs2)"
          using got(1,3) ent lt by simp
        ultimately show ?thesis using got(4) Some by (auto simp: m_def n_def L_def)
      next
        case None
        obtain hh1 qr1 where wh: "with_hint (fptr fs d b) (b * m) hh qr (snd sc) = (hh1, qr1)" by fastforce
        have idx: "(b + 1) mod 4294967296 = b + 1" using bn(1) n_blocks_small [OF ok] by simp
        have m2: "per_block fs2 = m" using K(4) by (simp add: per_block_def m_def)
        have n2: "dlen d1 = n" "i_size d1 = i_size d" using keeps_dlen [OF got(4)] by (simp_all add: n_def)
        have "int (32 * i1) = int (32 * min (dlen d1) ((b + 1) * per_block fs2))" using n2 m2 by (simp add: i1_def add.commute)
        then have step: "query_blocks (Suc fuel) fs d k b (int (32 * min n (b * m))) hh qr =
            query_blocks fuel fs2 d1 k (b + 1) (int (32 * min (dlen d1) ((b + 1) * per_block fs2))) hh1 qr1"
          using got(1,3) ent None lt wh idx by (simp add: entries_result_def)
        have d1: "dir_ok fs2 d1" using dir_ok_keeps [OF Suc.prems(1) got(4)] .
        have fl: "c_faults (fs_cont fs2) = []" using fs_geomD(4) [OF K(3) Suc.prems(3)] .
        have mp: "qr_mpc qr1 = None" using with_hint_mpc [of "fptr fs d b" "b * m" hh qr "snd sc"] wh Suc.prems(4) by simp
        have fu: "dlen d1 - (b + 1) * per_block fs2 < fuel" using Suc.prems(5) True n2 m2 P(2) by (simp add: m_def n_def)
        define sc2 where "sc2 = scan L k [(b + 1) * m..<n]"
        have slot: "32 * i + 32 \<le> capacity fs \<and> i div per_block fs < n_blocks fs" if "i < n" for i
          using slot_in_dir(1,2) [OF Suc.prems(1)] that by (simp add: n_def)
        have Lc: "scan (dslot fs2 d1) k [(b + 1) * m..<n] = sc2"
          unfolding sc2_def by (rule scan_cong) (use keeps_dent [OF got(4)] slot in \<open>simp add: L_def dslot_def\<close>)
        have qc: "query_result fs2 d1 hh1 qr1 sc2 = query_result fs d hh1 qr1 sc2"
          by (rule query_result_cong [OF got(4)])
            (use m2 slot scan_hit [of L k "[(b + 1) * m..<n]"] scan_free [of L k "[(b + 1) * m..<n]"] in \<open>auto simp: m_def sc2_def\<close>)
        have up: "[i1..<n] = [(b + 1) * m..<n]" by (simp add: i1_def min_def add.commute)
        have f: "scan L k [b * m..<i1] = (None, snd sc)" using None by (simp add: sc_def prod_eq_iff)
        have hint: "slot_hint fs d i = \<lparr>ih_lba = fptr fs d b, ih_blockOffset = 32 * (i - b * m)\<rparr>" if "snd sc = Some i" for i
          using slot_position [of m b i] range [of i] that P(2) by (simp add: slot_hint_def m_def)
        have wh2: "(hh1, qr1) = (if snd sc \<noteq> None \<and> qr_ih qr \<noteq> None \<and> \<not> hh then (True, qr\<lparr>qr_ih := Some (slot_hint fs d (the (snd sc)))\<rparr>) else (hh, qr))"
          using wh hint by (auto simp: with_hint_def split: option.splits if_splits)
        have app: "query_result fs d hh qr (scan L k [b * m..<n]) = query_result fs d hh1 qr1 sc2"
          unfolding split up sc2_def by (rule query_result_append [OF f wh2])
        have found: "fst (scan L k [b * m..<n]) = fst sc2" unfolding split up scan_append sc2_def f by simp
        from Suc.IH [OF d1 Suc.prems(2) fl mp fu, of hh1] obtain d' fs' where
          "query_blocks fuel fs2 d1 k (b + 1) (int (32 * min (dlen d1) ((b + 1) * per_block fs2))) hh1 qr1 =
             Some (fst sc2 \<noteq> None, EOK, query_result fs d hh1 qr1 sc2, d', fs')" "keeps fs2 d1 fs' d'"
          using n2 m2 Lc qc by auto
        then show ?thesis using step app found keeps_trans [OF got(4)] by (auto simp: m_def n_def L_def)
      qed
    qed
  qed
qed simp

lemma query_spec:
  assumes d: "dir_ok fs d" and k: "key_ok (q_key q)" and fl: "c_faults (fs_cont fs) = []" and m: "q_mpc q = None"
  obtains d' fs' where "SfsDirectory_Query fs d q =
      Some (if fst (scan (dslot fs d) (q_key q) [0..<dlen d]) = None then ENOENT else EOK,
            query_result fs d False (query_init q) (scan (dslot fs d) (q_key q) [0..<dlen d]), d', fs')" "keeps fs d fs' d'"
proof -
  let ?sc = "scan (dslot fs d) (q_key q) [0..<dlen d]"
  have mp: "qr_mpc (query_init q) = None" using m by (simp add: query_init_def split: sfs_query_key.split)
  have fu: "dlen d - 0 * per_block fs < Suc (nat (i_size d))" using dir_okD(3) [OF d] by simp
  from query_blocks_spec [OF d k fl mp fu, of False] obtain d' fs' where
    b: "query_blocks (Suc (nat (i_size d))) fs d (q_key q) 0 0 False (query_init q) =
      Some (fst ?sc \<noteq> None, EOK, query_result fs d False (query_init q) ?sc, d', fs')" "keeps fs d fs' d'" by auto
  have "(case q_key q of
      kSFSQuery_PathComponent pc \<Rightarrow> if length pc = 0 then ENOENT else if length pc > kSFSMaxFilenameLength then ENAMETOOLONG else EOK
    | kSFSQuery_InodeId _ \<Rightarrow> EOK) = EOK" using k by (cases "q_key q") auto
  then have "SfsDirectory_Query fs d q =
      Some (if fst ?sc = None then ENOENT else EOK, query_result fs d False (query_init q) ?sc, d', fs')"
    unfolding SfsDirectory_Query_def Let_def using b(1) by simp
  with that b(2) show ?thesis by blast
qed

subsection \<open>Writing an entry\<close>

text \<open>What storing the 32 bytes \<open>bs\<close> of entry \<open>i\<close> does.\<close>

definition entry_written :: "SerenaFS \<Rightarrow> Inode \<Rightarrow> nat \<Rightarrow> u8 list \<Rightarrow> SerenaFS \<Rightarrow> Inode \<Rightarrow> bool" where
  "entry_written fs d i bs fs' d' \<longleftrightarrow> idle fs' d' \<and> confined fs d fs' d'
   \<and> (\<forall>j. 32 * j + 32 \<le> capacity fs \<longrightarrow> dent fs' d' j = (if j = i then bs else dent fs d j))
   \<and> (\<forall>b < n_blocks fs. fptr fs d b \<noteq> 0 \<or> b = i div per_block fs \<longrightarrow> fptr fs' d' b \<noteq> 0)"

lemma entry_writtenD:
  assumes "entry_written fs d i bs fs' d'"
  shows "idle fs' d'" "confined fs d fs' d'" "32 * j + 32 \<le> capacity fs \<Longrightarrow> dent fs' d' j = (if j = i then bs else dent fs d j)"
    "b < n_blocks fs \<Longrightarrow> fptr fs d b \<noteq> 0 \<or> b = i div per_block fs \<Longrightarrow> fptr fs' d' b \<noteq> 0"
  using assms unfolding entry_written_def by blast+

lemma entry_written_apart:
  assumes e: "entry_written fs d i bs fs1 d1" and a: "apart fs1 d1 S fs2" and S: "S \<subseteq> {i_inid d1, a_bitmapLba (fs_alloc fs1)}"
    and sb: "same_blocks d1 d2"
  shows "entry_written fs d i bs fs2 d2"
proof -
  note E = entry_writtenD [OF e] note A = apartD [OF a]
  have g: "fs_geom fs fs1" using confinedD(1) [OF E(2)] .
  have cap: "capacity fs1 = capacity fs" "n_blocks fs1 = n_blocks fs" using fs_geomD(1,2) [OF g] by (simp_all add: capacity_def)
  have "confined fs d fs2 d2"
    using confined_trans [OF E(2) confined_trans [OF confined_apart [OF a S] confined_same_blocks [OF sb]]] .
  moreover have "dent fs2 d2 j = dent fs1 d1 j" if "32 * j + 32 \<le> capacity fs" for j
    using apart_fbyte [OF a] same_blocks_fbyte [OF sb] that cap by (simp add: dent_def fbytes_def)
  moreover have "fptr fs2 d2 b = fptr fs1 d1 b" if "b < n_blocks fs" for b
    using A(5) that cap same_blocks_fptr [OF sb] by simp
  ultimately show ?thesis using E same_blocks_idle [OF sb A(3)] by (simp add: entry_written_def)
qed

lemma overwrites_entry:
  assumes ok: "fs_ok fs" and o: "overwrites fs d (32 * i) 32 bs fs' d'" and l: "length bs = 32"
  shows "entry_written fs d i bs fs' d'"
proof -
  note O = overwritesD [OF o] note P = per_block [OF ok]
  have "dent fs' d' j = (if j = i then bs else dent fs d j)" if c: "32 * j + 32 \<le> capacity fs" for j
  proof -
    have byte: "fbyte fs' d' (32 * j + x) = (if j = i then bs ! x else fbyte fs d (32 * j + x))" if "x < 32" for x
    proof -
      have "32 * i \<le> 32 * j + x \<and> 32 * j + x < 32 * i + 32 \<longleftrightarrow> j = i" using that by auto
      then show ?thesis using O(4) [of "32 * j + x"] that c by simp
    qed
    show ?thesis
    proof (rule nth_equalityI)
      show "length (dent fs' d' j) = length (if j = i then bs else dent fs d j)" using l by (simp add: dent_def)
      fix x assume "x < length (dent fs' d' j)"
      then show "dent fs' d' j ! x = (if j = i then bs else dent fs d j) ! x" using byte by (simp add: dent_def fbytes_def)
    qed
  qed
  moreover have "fptr fs' d' b \<noteq> 0" if "b < n_blocks fs" "fptr fs d b \<noteq> 0 \<or> b = i div per_block fs" for b
  proof (cases "fptr fs d b = 0")
    case True
    then have b: "b = i div per_block fs" using that(2) by simp
    have "b * per_block fs \<le> i" "i < (b + 1) * per_block fs" using b P(2) dividend_less_div_times [of "per_block fs" i] by simp_all
    then have "32 * i < (b + 1) * fs_blockSize fs" "b * fs_blockSize fs < 32 * i + 32" using P(1) by simp_all
    then show ?thesis using O(6) [OF that(1)] by simp
  qed (use O(5) that in simp)
  ultimately show ?thesis using O(1) confined_frame [OF O(2)] by (simp add: entry_written_def)
qed

lemma slot_offset:
  assumes "fs_ok fs"
  shows "i div per_block fs * fs_blockSize fs + 32 * (i mod per_block fs) = 32 * i" "32 * (i mod per_block fs) + 32 \<le> fs_blockSize fs"
proof -
  note P = per_block [OF assms]
  have "i div per_block fs * fs_blockSize fs + 32 * (i mod per_block fs) = 32 * (i div per_block fs * per_block fs + i mod per_block fs)"
    using P(1) by (simp only: add_mult_distrib2 ac_simps)
  then show "i div per_block fs * fs_blockSize fs + 32 * (i mod per_block fs) = 32 * i" by (simp only: div_mult_mod_eq)
  have "i mod per_block fs < per_block fs" using P(2) by simp
  then show "32 * (i mod per_block fs) + 32 \<le> fs_blockSize fs" using P(1) by linarith
qed

lemma page_entry:
  assumes i: "idle fs d" and b: "i div per_block fs < n_blocks fs" and l: "length bs = 32"
    and pg: "map_page fs d (i div per_block fs) kMapBlock_Update blk fs1 d1"
    and len: "length (b_data (f_b blk)) = fs_blockSize fs" and data: "b_data (f_b blk) = fblock fs d (i div per_block fs)"
  obtains d' fs2 where "put_bytes (b_data (f_b blk)) (32 * (i mod per_block fs)) bs = Some d'" "length d' = fs_blockSize fs"
    "SfsFile_UnmapBlock fs1 (blk\<lparr>f_b := (f_b blk)\<lparr>b_data := d'\<rparr>\<rparr>) kWriteBlock_Deferred = Some (EOK, fs2)" "entry_written fs d i bs fs2 d1"
proof -
  note ok = idleD(1) [OF i] note S = slot_offset [OF ok, of i]
  obtain fs2 d' where w: "put_bytes (b_data (f_b blk)) (32 * (i mod per_block fs)) (take 32 bs) = Some d'"
    "SfsFile_UnmapBlock fs1 (blk\<lparr>f_b := (f_b blk)\<lparr>b_data := d'\<rparr>\<rparr>) kWriteBlock_Deferred = Some (EOK, fs2)"
    "overwrites fs d (i div per_block fs * fs_blockSize fs + 32 * (i mod per_block fs)) 32 bs fs2 d1"
    by (rule write_page [OF i b _ _ S(2) pg len, of bs]) (use data l in simp_all)
  have "overwrites fs d (32 * i) 32 bs fs2 d1" using w(3) unfolding S(1) .
  then have "entry_written fs d i bs fs2 d1" using overwrites_entry [OF ok _ l] by blast
  then show ?thesis using that [of d' fs2] w l length_put [OF w(1)] len by simp
qed

text \<open>Committing the allocation bitmap while another block is mapped, and unmapping that block, can be done in either order.\<close>

lemma commit_unmap_swap:
  assumes cnt: "a_bitmapBlockCount a = 1" and p: "p \<noteq> a_bitmapLba a" and c: "SfsAllocator_CommitToDisk a c = Some (e, a1, c1)"
  shows "SfsAllocator_CommitToDisk a (unmapped c p kWriteBlock_Deferred d) = Some (e, a1, unmapped c1 p kWriteBlock_Deferred d)"
proof -
  have n: "a_bitmapBlockCount a = Suc 0" using cnt by simp
  show ?thesis
    using c p unfolding SfsAllocator_CommitToDisk_def n
    by (auto simp: FSContainer_MapBlock_def FSContainer_UnmapBlock_def mapped_bytes_def next_fault_def unmapped_def Let_def fun_upd_twist
        split: option.splits if_splits list.splits Option.bind_splits)
qed

lemma slot_convert:
  assumes ok: "fs_ok fs" and c: "32 * i + 32 \<le> capacity fs"
  shows "SfsFile_ConvertOffset fs (int (32 * i)) = (i div per_block fs, 32 * (i mod per_block fs))" "i div per_block fs < n_blocks fs"
proof -
  note P = per_block [OF ok]
  have "32 * i < n_blocks fs * fs_blockSize fs" using c unfolding capacity_def by linarith
  then have lt: "32 * i < 4294967296 * fs_blockSize fs"
    using mult_le_mono1 [of "n_blocks fs" 4294967296 "fs_blockSize fs"] n_blocks_small [OF ok] by linarith
  then have "int (32 * i) < int (4294967296 * fs_blockSize fs)" by (simp only: of_nat_less_iff)
  then have "addressable fs (int (32 * i))" by (simp add: addressable_def)
  then have "SfsFile_ConvertOffset fs (int (32 * i)) = (32 * i div fs_blockSize fs, 32 * i mod fs_blockSize fs)"
    using addressable_split(1) [OF ok] by (simp only: nat_int)
  moreover have "32 * i div fs_blockSize fs = i div per_block fs" "32 * i mod fs_blockSize fs = 32 * (i mod per_block fs)"
    unfolding P(1) by simp_all
  ultimately show "SfsFile_ConvertOffset fs (int (32 * i)) = (i div per_block fs, 32 * (i mod per_block fs))" by simp
  have "i div per_block fs * fs_blockSize fs \<le> 32 * i" using slot_offset(1) [OF ok, of i] by linarith
  then have "i div per_block fs * fs_blockSize fs < n_blocks fs * fs_blockSize fs" using c unfolding capacity_def by linarith
  then show "i div per_block fs < n_blocks fs" by simp
qed

lemma slot_map:
  assumes d: "dir_ok fs d" and i: "i < dlen d" and fl: "c_faults (fs_cont fs) = []"
  obtains c where "FSContainer_MapBlock (fs_cont fs) (ih_lba (slot_hint fs d i)) kMapBlock_Update =
      Some (EOK, \<lparr>b_token = Some (ih_lba (slot_hint fs d i)), b_data = fblock fs d (i div per_block fs)\<rparr>, c)"
    "map_page fs d (i div per_block fs) kMapBlock_Update \<lparr>f_b = \<lparr>b_token = Some (ih_lba (slot_hint fs d i)), b_data = fblock fs d (i div per_block fs)\<rparr>,
       f_lba = ih_lba (slot_hint fs d i), f_wasAlloced = False, f_isZeroFill = False\<rparr> (fs\<lparr>fs_cont := c\<rparr>) d"
    "c_locked c = {ih_lba (slot_hint fs d i)}"
proof -
  let ?b = "i div per_block fs"
  define p where "p = fptr fs d ?b"
  have h: "ih_lba (slot_hint fs d i) = p" by (simp add: slot_hint_def p_def)
  note D = dir_okD [OF d] note ok = idleD(1) [OF D(1)] note O = fs_okD [OF ok]
  note sl = slot_in_dir [OF d i]
  have l: "p \<notin> c_locked (fs_cont fs)" using idleD(3) [OF D(1)] by simp
  then show ?thesis
  proof (cases rule: map_block_cases [where mode = kMapBlock_Update])
    case (ok c)
    let ?fs = "fs\<lparr>fs_cont := c\<rparr>"
    have lc: "c_locked c = {p}" using ok(3) idleD(3) [OF D(1)] by simp
    have pu: "p \<in> fs_used fs" using file_okD(2) [OF idleD(2) [OF D(1)] sl(2)] sl(3) by (simp add: p_def)
    have g: "fs_geom fs ?fs" using ok(4) by (simp add: fs_geom_def)
    have fok: "fs_ok ?fs"
      by (rule fs_ok_step [OF \<open>fs_ok fs\<close> g])
        (use O lc pu cont_ok_geom [OF O(3) ok(4,2,5)] in \<open>simp_all add: fs_used_def\<close>)
    have x: "ext fs d ?b ?fs d"
      by (rule ext_same [OF \<open>fs_ok fs\<close> idleD(2) [OF D(1)] fok g]) (simp_all add: fs_used_def ok(2))
    have ptr: "fptr ?fs d ?b = p" using ok(2) by (simp add: fptr_def p_def)
    have "map_page fs d ?b kMapBlock_Update \<lparr>f_b = \<lparr>b_token = Some p, b_data = fblock fs d ?b\<rparr>, f_lba = p, f_wasAlloced = False,
        f_isZeroFill = False\<rparr> ?fs d"
      unfolding map_page_def using x ptr sl(3) ok(2) lc by (simp add: p_def fblock_def mapped_bytes_def)
    with that [of c] ok(1) lc h sl(3) show ?thesis by (simp add: fblock_def p_def mapped_bytes_def)
  qed (use fl in simp)
qed

text \<open>The directory inode after an entry for \<open>child\<close> has been added.\<close>

definition dir_linked :: "Inode \<Rightarrow> Inode \<Rightarrow> Inode" where
  "dir_linked d child = Inode_SetModified (if Inode_IsDirectory child then Inode_Link d else d) (kInodeFlag_Updated OR kInodeFlag_StatusChanged)"

lemma dir_linked_simps [simp]: "same_blocks d (dir_linked d child)" "i_size (dir_linked d child) = i_size d"
  by (auto simp: dir_linked_def same_blocks_def Inode_SetModified_def Inode_Link_def)

lemma insert_hint:
  assumes d: "dir_ok fs d" and i: "i < dlen d" and fl: "c_faults (fs_cont fs) = []" and n: "length name \<le> kSFSMaxFilenameLength"
  obtains fs' where "SfsDirectory_InsertEntry False fs d name child (Some (slot_hint fs d i)) = Some (EOK, dir_linked d child, fs')"
    "entry_written fs d i (dirent_bytes (i_inid child) name) fs' (dir_linked d child)"
proof -
  let ?b = "i div per_block fs" and ?h = "slot_hint fs d i"
  note D = dir_okD [OF d] note ok = idleD(1) [OF D(1)] note sl = slot_in_dir [OF d i]
  obtain c where m: "FSContainer_MapBlock (fs_cont fs) (ih_lba ?h) kMapBlock_Update =
      Some (EOK, \<lparr>b_token = Some (ih_lba ?h), b_data = fblock fs d ?b\<rparr>, c)"
    "map_page fs d ?b kMapBlock_Update \<lparr>f_b = \<lparr>b_token = Some (ih_lba ?h), b_data = fblock fs d ?b\<rparr>, f_lba = ih_lba ?h,
       f_wasAlloced = False, f_isZeroFill = False\<rparr> (fs\<lparr>fs_cont := c\<rparr>) d" "c_locked c = {ih_lba ?h}"
    by (rule slot_map [OF d i fl])
  let ?blk = "\<lparr>f_b = \<lparr>b_token = Some (ih_lba ?h), b_data = fblock fs d ?b\<rparr>, f_lba = ih_lba ?h, f_wasAlloced = False, f_isZeroFill = False\<rparr>"
  let ?bs = "dirent_bytes (i_inid child) name"
  have lb: "length ?bs = 32" using length_dirent_bytes [OF n] .
  have len: "length (b_data (f_b ?blk)) = fs_blockSize fs" using length_fblock [OF ok] by simp
  obtain d' fs2 where w: "put_bytes (b_data (f_b ?blk)) (32 * (i mod per_block fs)) ?bs = Some d'" "length d' = fs_blockSize fs"
    "SfsFile_UnmapBlock (fs\<lparr>fs_cont := c\<rparr>) (?blk\<lparr>f_b := (f_b ?blk)\<lparr>b_data := d'\<rparr>\<rparr>) kWriteBlock_Deferred = Some (EOK, fs2)"
    "entry_written fs d i ?bs fs2 d"
    by (rule page_entry [OF D(1) sl(2) lb m(2) len]) simp_all
  have set: "dirent_set (fblock fs d ?b) (32 * (i mod per_block fs)) name (i_inid child) = Some d'"
    using dirent_set_eq [OF n, of "32 * (i mod per_block fs)" "fblock fs d ?b" "i_inid child"] slot_offset(2) [OF ok] len w(1) by simp
  have p0: "0 < ih_lba ?h" "ih_blockOffset ?h = 32 * (i mod per_block fs)" using sl(3) by (simp_all add: slot_hint_def)
  have new: "map_new_entry False fs d (Some ?h) = Some (EOK, ?blk, 32 * (i mod per_block fs), d, fs\<lparr>fs_cont := c\<rparr>)"
    unfolding map_new_entry_def Let_def using p0 m(1) by simp
  have "SfsDirectory_InsertEntry False fs d name child (Some ?h) = Some (EOK, dir_linked d child, fs2)"
    unfolding SfsDirectory_InsertEntry_def new using set w(3) by (simp add: dir_linked_def Let_def)
  moreover have "entry_written fs d i ?bs fs2 (dir_linked d child)"
    by (rule entry_written_apart [OF w(4) apart_refl [OF entry_writtenD(1) [OF w(4)]], of "{}"]) simp_all
  ultimately show ?thesis using that by blast
qed

lemma append_page:
  assumes i: "idle fs d" and b: "i div per_block fs < n_blocks fs" and l: "length bs = 32" and fl: "c_faults (fs_cont fs) = []"
    and pg: "map_page fs d (i div per_block fs) kMapBlock_Update blk fs1 d1"
    and len: "length (b_data (f_b blk)) = fs_blockSize fs" and data: "b_data (f_b blk) = fblock fs d (i div per_block fs)"
  obtains d' fs2 fs3 where "put_bytes (b_data (f_b blk)) (32 * (i mod per_block fs)) bs = Some d'" "commit fs1 = Some (EOK, fs2)"
    "SfsFile_UnmapBlock fs2 (blk\<lparr>f_b := (f_b blk)\<lparr>b_data := d'\<rparr>\<rparr>) kWriteBlock_Deferred = Some (EOK, fs3)" "entry_written fs d i bs fs3 d1"
proof -
  define p where "p = fptr fs1 d1 (i div per_block fs)"
  have x: "ext fs d (i div per_block fs) fs1 d1" and p0: "p \<noteq> 0" "\<not> f_isZeroFill blk" "b_token (f_b blk) = Some p" "c_locked (fs_cont fs1) = {p}"
    using pg by (simp_all add: map_page_def p_def)
  note X = extD [OF x] note O = fs_okD [OF X(1)]
  have n1: "n_blocks fs1 = n_blocks fs" using fs_geomD(1) [OF X(4)] .
  have pb: "p \<noteq> a_bitmapLba (fs_alloc fs1)" using file_okD(5) [OF X(2)] b n1 p0(1) by (simp add: p_def)
  obtain d' fsu where u: "put_bytes (b_data (f_b blk)) (32 * (i mod per_block fs)) bs = Some d'" "length d' = fs_blockSize fs"
    "SfsFile_UnmapBlock fs1 (blk\<lparr>f_b := (f_b blk)\<lparr>b_data := d'\<rparr>\<rparr>) kWriteBlock_Deferred = Some (EOK, fsu)" "entry_written fs d i bs fsu d1"
    by (rule page_entry [OF i b l pg len data])
  have fsu: "fsu = fs1\<lparr>fs_cont := unmapped (fs_cont fs1) p kWriteBlock_Deferred d'\<rparr>"
    using u(3) p0 by (simp add: SfsFile_UnmapBlock_def FSContainer_UnmapBlock_def)
  have bl: "a_bitmapLba (fs_alloc fs1) \<notin> c_locked (fs_cont fs1)" using p0(4) pb by simp
  have sz: "c_blockSize (fs_cont fs1) = a_blockSize (fs_alloc fs1)" using O(4,5) by simp
  obtain e a1 c1 where c: "SfsAllocator_CommitToDisk (fs_alloc fs1) (fs_cont fs1) = Some (e, a1, c1)" "c_locked c1 = c_locked (fs_cont fs1)"
    "c_faults (fs_cont fs1) = [] \<longrightarrow> e = EOK"
    by (rule commit_spec [OF O(1,2,3) sz bl])
  have e: "e = EOK" using c(3) fs_geomD(4) [OF X(4) fl] by simp
  have cnt: "a_bitmapBlockCount (fs_alloc fs1) = 1" using one_block_count [OF O(1,2)] by simp
  let ?fs3 = "fs1\<lparr>fs_alloc := a1, fs_cont := unmapped c1 p kWriteBlock_Deferred d'\<rparr>"
  have "commit fsu = Some (EOK, ?fs3)"
    using commit_unmap_swap [OF cnt pb c(1), of d'] e by (simp add: commit_def fsu)
  then have "apart fsu d1 {a_bitmapLba (fs_alloc fsu)} ?fs3" using commit_apart [OF entry_writtenD(1) [OF u(4)]] by fastforce
  then have "entry_written fs d i bs ?fs3 d1"
    by (rule entry_written_apart [OF u(4)]) (simp_all add: same_blocks_def)
  moreover have "commit fs1 = Some (EOK, fs1\<lparr>fs_alloc := a1, fs_cont := c1\<rparr>)" using c(1) e by (simp add: commit_def)
  moreover have "SfsFile_UnmapBlock (fs1\<lparr>fs_alloc := a1, fs_cont := c1\<rparr>) (blk\<lparr>f_b := (f_b blk)\<lparr>b_data := d'\<rparr>\<rparr>) kWriteBlock_Deferred =
      Some (EOK, ?fs3)" using p0 c(2) by (simp add: SfsFile_UnmapBlock_def FSContainer_UnmapBlock_def)
  ultimately show ?thesis using that u(1) by blast
qed

lemma insert_append:
  assumes d: "dir_ok fs d" and cap: "32 * dlen d + 32 \<le> capacity fs" and fl: "c_faults (fs_cont fs) = []"
    and n: "length name \<le> kSFSMaxFilenameLength" and ih: "\<And>h. ih = Some h \<Longrightarrow> ih_lba h = 0"
    and cm: "reachable fs d (32 * dlen d) 32"
  obtains (full) d' fs' where "SfsDirectory_InsertEntry u fs d name child ih = Some (ENOSPC, d', fs')" "keeps fs d fs' d'"
      "{1..<a_volumeBlockCount (fs_alloc fs)} \<subseteq> fs_used fs'"
  | (added) d' fs' where "SfsDirectory_InsertEntry u fs d name child ih = Some (EOK, d', fs')" "i_size d' = i_size d + 32"
      "i_linkCount d' = i_linkCount (dir_linked d child)" "entry_written fs d (dlen d) (dirent_bytes (i_inid child) name) fs' d'"
proof -
  let ?i = "dlen d" and ?bs = "dirent_bytes (i_inid child) name"
  let ?b = "?i div per_block fs"
  note D = dir_okD [OF d] note ok = idleD(1) [OF D(1)]
  note conv = slot_convert [OF ok cap]
  have lb: "length ?bs = 32" using length_dirent_bytes [OF n] .
  have ihz: "(case ih of Some h \<Rightarrow> ih_lba h | None \<Rightarrow> 0) = 0" using ih by (simp split: option.split)
  have cv: "SfsFile_ConvertOffset fs (i_size d) = (?b, 32 * (?i mod per_block fs))" using conv(1) D(3) by simp
  have md: "kMapBlock_Update = kMapBlock_Update \<or> kMapBlock_Update = kMapBlock_Replace" by simp
  have cb: "calm fs d \<or> ?b < kSFSDirectBlockPointersCount"
    by (rule reachable_first [of fs d ?b "32 * (?i mod per_block fs)" 32]) (use cm slot_offset(1) [OF ok, of ?i] in simp_all)
  from D(1) conv(2) cb md show ?thesis
  proof (cases rule: write_map)
    case (err e blk d' fs')
    have e: "e = ENOSPC" "{1..<a_volumeBlockCount (fs_alloc fs)} \<subseteq> fs_used fs'" using err(4) fl by simp_all
    have "map_new_entry u fs d ih = Some (ENOSPC, blk, 32 * (?i mod per_block fs), d', fs')"
      unfolding map_new_entry_def Let_def ihz using cv err(1) e by simp
    then have "SfsDirectory_InsertEntry u fs d name child ih = Some (ENOSPC, d', fs')" by (simp add: SfsDirectory_InsertEntry_def)
    then show ?thesis using full err(3) e(2) by blast
  next
    case (got blk d1 fs1)
    have data: "b_data (f_b blk) = fblock fs d ?b" using got(3) by simp
    obtain d' fs2 fs3 where a: "put_bytes (b_data (f_b blk)) (32 * (?i mod per_block fs)) ?bs = Some d'" "commit fs1 = Some (EOK, fs2)"
      "SfsFile_UnmapBlock fs2 (blk\<lparr>f_b := (f_b blk)\<lparr>b_data := d'\<rparr>\<rparr>) kWriteBlock_Deferred = Some (EOK, fs3)" "entry_written fs d ?i ?bs fs3 d1"
      by (rule append_page [OF D(1) conv(2) lb fl got(4) got(2) data])
    have set: "dirent_set (b_data (f_b blk)) (32 * (?i mod per_block fs)) name (i_inid child) = Some d'"
      using dirent_set_eq [OF n, of "32 * (?i mod per_block fs)" "b_data (f_b blk)"] slot_offset(2) [OF ok, of ?i] got(2) a(1) by simp
    let ?d2 = "d1\<lparr>i_size := i_size d1 + 32\<rparr>"
    have new: "map_new_entry u fs d ih = Some (EOK, blk, 32 * (?i mod per_block fs), ?d2, fs2)"
      unfolding map_new_entry_def Let_def ihz using cv got(1) a(2) by simp
    have ins: "SfsDirectory_InsertEntry u fs d name child ih = Some (EOK, dir_linked ?d2 child, fs3)"
      unfolding SfsDirectory_InsertEntry_def new using set a(3) by (simp add: dir_linked_def Let_def)
    have x: "ext fs d ?b fs1 d1" using got(4) by (simp add: map_page_def)
    have sz: "i_size d1 = i_size d" using same_metaD(1) [OF frameD(2) [OF extD(3) [OF x]]] .
    have sb: "same_blocks d1 (dir_linked ?d2 child)"
      by (rule same_blocks_trans [OF _ dir_linked_simps(1)]) (simp add: same_blocks_def)
    have "entry_written fs d ?i ?bs fs3 (dir_linked ?d2 child)"
      by (rule entry_written_apart [OF a(4) apart_refl [OF entry_writtenD(1) [OF a(4)]], of "{}"]) (use sb in simp_all)
    moreover have "i_linkCount d1 = i_linkCount d" using same_metaD(3) [OF frameD(2) [OF extD(3) [OF x]]] .
    ultimately show ?thesis
      by (intro added [OF ins]) (simp_all add: sz dir_linked_def Inode_SetModified_def Inode_Link_def)
  qed
qed

subsection \<open>Removing an entry\<close>

lemma update_entry_spec:
  assumes d: "dir_ok fs d" and i: "i < dlen d" and fl: "c_faults (fs_cont fs) = []" and l: "length bs = 32"
  obtains fs' where "update_entry fs (ih_lba (slot_hint fs d i)) (\<lambda>x. put_bytes x (ih_blockOffset (slot_hint fs d i)) bs) = Some (EOK, fs')"
    "entry_written fs d i bs fs' d"
proof -
  let ?b = "i div per_block fs" and ?h = "slot_hint fs d i"
  note D = dir_okD [OF d] note ok = idleD(1) [OF D(1)] note sl = slot_in_dir [OF d i]
  obtain c where m: "FSContainer_MapBlock (fs_cont fs) (ih_lba ?h) kMapBlock_Update =
      Some (EOK, \<lparr>b_token = Some (ih_lba ?h), b_data = fblock fs d ?b\<rparr>, c)"
    "map_page fs d ?b kMapBlock_Update \<lparr>f_b = \<lparr>b_token = Some (ih_lba ?h), b_data = fblock fs d ?b\<rparr>, f_lba = ih_lba ?h,
       f_wasAlloced = False, f_isZeroFill = False\<rparr> (fs\<lparr>fs_cont := c\<rparr>) d" "c_locked c = {ih_lba ?h}"
    by (rule slot_map [OF d i fl])
  let ?blk = "\<lparr>f_b = \<lparr>b_token = Some (ih_lba ?h), b_data = fblock fs d ?b\<rparr>, f_lba = ih_lba ?h, f_wasAlloced = False, f_isZeroFill = False\<rparr>"
  have len: "length (b_data (f_b ?blk)) = fs_blockSize fs" using length_fblock [OF ok] by simp
  obtain d' fs2 where w: "put_bytes (b_data (f_b ?blk)) (32 * (i mod per_block fs)) bs = Some d'" "length d' = fs_blockSize fs"
    "SfsFile_UnmapBlock (fs\<lparr>fs_cont := c\<rparr>) (?blk\<lparr>f_b := (f_b ?blk)\<lparr>b_data := d'\<rparr>\<rparr>) kWriteBlock_Deferred = Some (EOK, fs2)"
    "entry_written fs d i bs fs2 d"
    by (rule page_entry [OF D(1) sl(2) l m(2) len]) simp_all
  have off: "ih_blockOffset ?h = 32 * (i mod per_block fs)" by (simp add: slot_hint_def)
  have "update_entry fs (ih_lba ?h) (\<lambda>x. put_bytes x (ih_blockOffset ?h) bs) = Some (EOK, fs2)"
    using m(1,3) w(1,3) off by (simp add: update_entry_def SfsFile_UnmapBlock_def FSContainer_UnmapBlock_def)
  with that w(4) show ?thesis by blast
qed

text \<open>The directory after an entry has been written keeps to be valid, also when the entry extends it.\<close>

lemma dir_ok_written:
  assumes d: "dir_ok fs d" and e: "entry_written fs d i bs fs' d'" and n: "dlen d' = dlen d \<and> i < dlen d \<or> dlen d' = dlen d + 1 \<and> i = dlen d"
    and sz: "i_size d' = int (32 * dlen d')" "32 * dlen d' \<le> capacity fs" and wf: "slot_wf bs"
  shows "dir_ok fs' d'"
proof -
  note D = dir_okD [OF d] note E = entry_writtenD [OF e]
  have g: "fs_geom fs fs'" using confinedD(1) [OF E(2)] .
  have cap: "capacity fs' = capacity fs" "fs_blockSize fs' = fs_blockSize fs" using fs_geomD(1,2) [OF g] by (simp_all add: capacity_def)
  note P = per_block [OF idleD(1) [OF D(1)]]
  have "fptr fs' d' b \<noteq> 0" if b: "b * fs_blockSize fs < 32 * dlen d'" for b
  proof (rule E(4))
    have "b * fs_blockSize fs < n_blocks fs * fs_blockSize fs" using b sz(2) unfolding capacity_def by linarith
    then show "b < n_blocks fs" by simp
    show "fptr fs d b \<noteq> 0 \<or> b = i div per_block fs"
    proof (cases "b * fs_blockSize fs < 32 * dlen d")
      case False
      then have i: "i = dlen d" "dlen d \<le> b * per_block fs" "b * per_block fs < dlen d + 1" using n b P(1) by auto
      then have "i = b * per_block fs" by linarith
      then show ?thesis using P(2) by simp
    qed (use D(5) in simp)
  qed
  moreover have "slot_wf (dent fs' d' j)" if "j < dlen d'" for j
    using E(3) [of j] D(6) [of j] wf that sz(2) n by auto
  ultimately show ?thesis using E(1) sz cap by (simp add: dir_ok_def)
qed

text \<open>Cutting off the last entry.\<close>

lemma dir_trim:
  assumes d: "dir_ok fs d" and i: "Suc i = dlen d" and fl: "c_faults (fs_cont fs) = []"
  obtains t d' fs' where "SfsFile_Trim fs d (int (32 * i)) = Some (t, d', fs')" "dir_ok fs' d'" "dlen d' = i" "confined fs d fs' d'"
    "\<forall>j < i. dent fs' d' j = dent fs d j" "i_linkCount d' = i_linkCount d"
proof -
  note D = dir_okD [OF d] note ok = idleD(1) [OF D(1)]
  let ?len = "int (32 * i)"
  have lt: "?len < 4294967295 * int (fs_blockSize fs)"
  proof -
    have "32 * i < n_blocks fs * fs_blockSize fs" using D(4) i unfolding capacity_def by linarith
    then have "32 * i < 4294967295 * fs_blockSize fs"
      using mult_le_mono1 [of "n_blocks fs" 4294967295 "fs_blockSize fs"] n_blocks_small [OF ok] by linarith
    then have "int (32 * i) < int (4294967295 * fs_blockSize fs)" by (simp only: of_nat_less_iff)
    then show ?thesis by simp
  qed
  have len0: "0 \<le> ?len" by simp
  from trim_spec [OF D(1) len0 lt] obtain t hi d' fs' where
    t: "SfsFile_Trim fs d ?len = Some (t, d', fs')" "discards fs d (first_free fs ?len) hi fs' d'" "i_size d' = ?len"
    "i_linkCount d' = i_linkCount d" "i_inid d' = i_inid d" by metis
  note A = discardsD [OF t(2)]
  have dl: "dlen d' = i" unfolding dlen_def t(3) by simp
  have cap: "capacity fs' = capacity fs" "fs_blockSize fs' = fs_blockSize fs" using fs_geomD(1,2) [OF A(2)] by (simp_all add: capacity_def)
  have below: "k < first_free fs ?len * fs_blockSize fs" if "k < 32 * i" for k
    using below_first_free [OF ok len0, of k] that by simp
  have dents: "dent fs' d' j = dent fs d j" if "j < i" for j
    unfolding dent_def fbytes_def
    by (rule map_cong [OF refl]) (use discards_fbyte [OF t(2)] below that D(4) i in auto)
  have "fptr fs' d' b \<noteq> 0" if "b * fs_blockSize fs < 32 * i" for b
  proof -
    have b: "b * fs_blockSize fs < 32 * dlen d" using that i by simp
    then have "b * fs_blockSize fs < n_blocks fs * fs_blockSize fs" using D(4) unfolding capacity_def by linarith
    then have bn: "b < n_blocks fs" by simp
    have "b < first_free fs ?len" using below [OF that] by simp
    then show ?thesis using A(3) [OF bn] D(5) [OF b] by simp
  qed
  moreover have "slot_wf (dent fs' d' j)" if "j < i" for j using dents [OF that] D(6) [of j] that i by simp
  ultimately have "dir_ok fs' d'" using A(1) dl t(3) cap D(4) i by (simp add: dir_ok_def)
  with that t dl dents discards_confined [OF t(2,5)] show ?thesis by blast
qed

subsection \<open>The entries of a directory\<close>

definition entries :: "SerenaFS \<Rightarrow> Inode \<Rightarrow> (nat \<times> u8 list) set" where
  "entries fs d = {s. fst s \<noteq> 0 \<and> (\<exists>i < dlen d. s = dslot fs d i)}"

definition names_unique :: "SerenaFS \<Rightarrow> Inode \<Rightarrow> bool" where
  "names_unique fs d \<longleftrightarrow> (\<forall>i j. i < dlen d \<longrightarrow> j < dlen d \<longrightarrow> fst (dslot fs d i) \<noteq> 0 \<longrightarrow> fst (dslot fs d j) \<noteq> 0 \<longrightarrow>
     snd (dslot fs d i) = snd (dslot fs d j) \<longrightarrow> i = j)"

text \<open>A valid directory whose names are unique.\<close>

definition dir_inv :: "SerenaFS \<Rightarrow> Inode \<Rightarrow> bool" where
  "dir_inv fs d \<longleftrightarrow> dir_ok fs d \<and> names_unique fs d"

lemma dir_invD: "dir_inv fs d \<Longrightarrow> dir_ok fs d" "dir_inv fs d \<Longrightarrow> names_unique fs d"
  by (simp_all add: dir_inv_def)

lemma same_slots:
  assumes "dlen d' = dlen d" "\<And>i. i < dlen d \<Longrightarrow> dslot fs' d' i = dslot fs d i"
  shows "entries fs' d' = entries fs d" "names_unique fs' d' \<longleftrightarrow> names_unique fs d"
  using assms by (auto simp: entries_def names_unique_def)

lemma dir_keeps:
  assumes "dir_ok fs d" "keeps fs d fs' d'"
  shows "entries fs' d' = entries fs d" "names_unique fs' d' \<longleftrightarrow> names_unique fs d"
    "dir_inv fs d \<Longrightarrow> dir_inv fs' d'"
proof -
  have l: "dlen d' = dlen d" using keeps_dlen [OF assms(2)] by simp
  have s: "dslot fs' d' i = dslot fs d i" if "i < dlen d" for i
    using keeps_dent [OF assms(2) slot_in_dir(1) [OF assms(1) that]] by (simp add: dslot_def)
  show "entries fs' d' = entries fs d" "names_unique fs' d' \<longleftrightarrow> names_unique fs d" using same_slots [OF l s] by simp_all
  then show "dir_inv fs d \<Longrightarrow> dir_inv fs' d'" using dir_ok_keeps [OF assms] by (simp add: dir_inv_def)
qed

lemma keeps_hint:
  assumes "dir_ok fs d" "keeps fs d fs' d'" "i < dlen d"
  shows "slot_hint fs' d' i = slot_hint fs d i" "dslot fs' d' i = dslot fs d i"
  using keepsD(4,7) [OF assms(2)] slot_in_dir [OF assms(1,3)] keeps_dent [OF assms(2)]
  by (simp_all add: slot_hint_def per_block_def dslot_def)

lemma entries_iff: "(inid, name) \<in> entries fs d \<longleftrightarrow> inid \<noteq> 0 \<and> (\<exists>i < dlen d. dslot fs d i = (inid, name))"
  by (auto simp: entries_def)

lemma entries_name: "(\<exists>inid. (inid, name) \<in> entries fs d) \<longleftrightarrow> (\<exists>i < dlen d. fst (dslot fs d i) \<noteq> 0 \<and> snd (dslot fs d i) = name)"
  unfolding entries_iff by (metis fst_conv prod.collapse snd_conv)

text \<open>Looking up a name.\<close>

lemma query_result_id: "fst sc = Some i \<Longrightarrow> qr_id (query_result fs d hh qr sc) = fst (dslot fs d i)"
  by (simp add: query_result_def Let_def)

lemma query_result_hint:
  assumes "qr_ih qr = Some ih"
  shows "qr_ih (query_result fs d False qr sc) = Some (case snd sc of Some i \<Rightarrow> slot_hint fs d i | None \<Rightarrow> ih)"
  using assms by (simp add: query_result_def Let_def split: option.split)

text \<open>A slot of an entry that has been removed, which a new entry takes.\<close>

definition has_hole :: "SerenaFS \<Rightarrow> Inode \<Rightarrow> bool" where
  "has_hole fs d \<longleftrightarrow> (\<exists>i < dlen d. fst (dslot fs d i) = 0)"

lemma lookup_spec:
  assumes d: "dir_inv fs d" and n: "name \<noteq> []" "length name \<le> kSFSMaxFilenameLength" and fl: "c_faults (fs_cont fs) = []"
  obtains e qr d' fs' where
    "SfsDirectory_Query fs d \<lparr>q_key = kSFSQuery_PathComponent name, q_mpc = None, q_ih = h\<rparr> = Some (e, qr, d', fs')" "keeps fs d fs' d'"
    "e = (if \<exists>inid. (inid, name) \<in> entries fs d then EOK else ENOENT)" "e = EOK \<longrightarrow> (qr_id qr, name) \<in> entries fs d"
    "h \<longrightarrow> (\<exists>ih. qr_ih qr = Some ih \<and> (ih_lba ih = 0 \<and> (e = ENOENT \<longrightarrow> \<not> has_hole fs d) \<or>
       (\<exists>i < dlen d. fst (dslot fs d i) = 0 \<and> ih = slot_hint fs d i)))"
proof -
  let ?q = "\<lparr>q_key = kSFSQuery_PathComponent name, q_mpc = None, q_ih = h\<rparr>"
  define sc where "sc = scan (dslot fs d) (kSFSQuery_PathComponent name) [0..<dlen d]"
  note ok = dir_invD(1) [OF d]
  have kq: "q_key ?q = kSFSQuery_PathComponent name" "key_ok (q_key ?q)" "q_mpc ?q = None" using n by simp_all
  from query_spec [OF ok kq(2) fl kq(3)] obtain d' fs' where q: "SfsDirectory_Query fs d ?q =
      Some (if fst sc = None then ENOENT else EOK, query_result fs d False (query_init ?q) sc, d', fs')" "keeps fs d fs' d'"
    unfolding kq(1) sc_def by blast
  have hit: "fst sc = None \<longleftrightarrow> \<not> (\<exists>inid. (inid, name) \<in> entries fs d)"
    unfolding sc_def scan_miss entries_name by (force simp: Ball_def)
  have id: "(qr_id (query_result fs d False (query_init ?q) sc), name) \<in> entries fs d" if ne: "fst sc \<noteq> None"
  proof -
    from ne obtain i where i: "fst sc = Some i" by blast
    have "i < dlen d" "fst (dslot fs d i) \<noteq> 0" "snd (dslot fs d i) = name"
      using scan_hit [OF i [unfolded sc_def]] by simp_all
    then show ?thesis unfolding entries_iff query_result_id [OF i] by (intro conjI exI [of _ i]) (simp_all add: prod_eq_iff)
  qed
  have hint: "\<exists>ih. qr_ih (query_result fs d False (query_init ?q) sc) = Some ih \<and>
      (ih_lba ih = 0 \<and> (fst sc = None \<longrightarrow> \<not> has_hole fs d) \<or> (\<exists>i < dlen d. fst (dslot fs d i) = 0 \<and> ih = slot_hint fs d i))" if h
  proof (cases "snd sc")
    case None
    have "qr_ih (query_init ?q) = Some \<lparr>ih_lba = 0, ih_blockOffset = 0\<rparr>" using that by (simp add: query_init_def)
    moreover have "\<not> has_hole fs d" if "fst sc = None"
      using scan_full [OF that [unfolded sc_def] None [unfolded sc_def]] by (auto simp: has_hole_def)
    ultimately show ?thesis using query_result_hint [of "query_init ?q" _ fs d sc] None by simp
  next
    case (Some i)
    have "qr_ih (query_init ?q) = Some \<lparr>ih_lba = 0, ih_blockOffset = 0\<rparr>" using that by (simp add: query_init_def)
    from query_result_hint [OF this, of fs d sc] Some
    have "qr_ih (query_result fs d False (query_init ?q) sc) = Some (slot_hint fs d i)" by simp
    moreover have "i < dlen d" "fst (dslot fs d i) = 0" using scan_free [OF Some [unfolded sc_def]] by simp_all
    ultimately show ?thesis by blast
  qed
  show ?thesis
  proof (rule that [OF q])
    show "(if fst sc = None then ENOENT else EOK) = (if \<exists>inid. (inid, name) \<in> entries fs d then EOK else ENOENT)"
      unfolding hit by simp
    show "(if fst sc = None then ENOENT else EOK) = EOK \<longrightarrow> (qr_id (query_result fs d False (query_init ?q) sc), name) \<in> entries fs d"
      using id by simp
    show "h \<longrightarrow> (\<exists>ih. qr_ih (query_result fs d False (query_init ?q) sc) = Some ih \<and>
      (ih_lba ih = 0 \<and> ((if fst sc = None then ENOENT else EOK) = ENOENT \<longrightarrow> \<not> has_hole fs d) \<or>
       (\<exists>i < dlen d. fst (dslot fs d i) = 0 \<and> ih = slot_hint fs d i)))"
      using hint by auto
  qed
qed

text \<open>The slots after an entry has been written, and what that means for the entries.\<close>

lemma written_slots:
  assumes d: "dir_ok fs d" and e: "entry_written fs d i bs fs' d'" and n: "32 * dlen d' \<le> capacity fs" "j < dlen d'"
  shows "dslot fs' d' j = (if j = i then slot_of bs else dslot fs d j)"
  using entry_writtenD(3) [OF e, of j] n by (simp add: dslot_def)

definition ents :: "(nat \<Rightarrow> nat \<times> u8 list) \<Rightarrow> nat \<Rightarrow> (nat \<times> u8 list) set" where
  "ents L n = {s. fst s \<noteq> 0 \<and> (\<exists>i < n. s = L i)}"

definition uniq :: "(nat \<Rightarrow> nat \<times> u8 list) \<Rightarrow> nat \<Rightarrow> bool" where
  "uniq L n \<longleftrightarrow> (\<forall>i < n. \<forall>j < n. fst (L i) \<noteq> 0 \<longrightarrow> fst (L j) \<noteq> 0 \<longrightarrow> snd (L i) = snd (L j) \<longrightarrow> i = j)"

lemma uniqD: "uniq L n \<Longrightarrow> i < n \<Longrightarrow> j < n \<Longrightarrow> fst (L i) \<noteq> 0 \<Longrightarrow> fst (L j) \<noteq> 0 \<Longrightarrow> snd (L i) = snd (L j) \<Longrightarrow> i = j"
  unfolding uniq_def by blast

lemma ents_insert:
  assumes n: "\<And>j. j \<noteq> i \<Longrightarrow> j < n' \<longleftrightarrow> j < n" "i < n'" "i < n \<Longrightarrow> fst (L i) = 0"
    and L: "\<And>j. j \<noteq> i \<Longrightarrow> j < n' \<Longrightarrow> L' j = L j" "L' i = X" "fst X \<noteq> 0"
  shows "ents L' n' = insert X (ents L n)"
proof (intro set_eqI iffI)
  fix s assume "s \<in> ents L' n'"
  then obtain j where j: "fst s \<noteq> 0" "j < n'" "s = L' j" unfolding ents_def by blast
  show "s \<in> insert X (ents L n)"
  proof (cases "j = i")
    case False
    then show ?thesis using j n(1) L(1) unfolding ents_def by auto
  qed (use j L(2) in simp)
next
  fix s assume "s \<in> insert X (ents L n)"
  then consider "s = X" | j where "fst s \<noteq> 0" "j < n" "s = L j" unfolding ents_def by blast
  then show "s \<in> ents L' n'"
  proof cases
    case 1
    then show ?thesis using n(2) L(2,3) unfolding ents_def by blast
  next
    case 2
    then have "j \<noteq> i" using n(3) by auto
    then show ?thesis using 2 n(1) L(1) unfolding ents_def by force
  qed
qed

lemma uniq_insert:
  assumes n: "\<And>j. j \<noteq> i \<Longrightarrow> j < n' \<longleftrightarrow> j < n" and L: "\<And>j. j \<noteq> i \<Longrightarrow> j < n' \<Longrightarrow> L' j = L j"
    and u: "uniq L n" and new: "\<And>j. j < n \<Longrightarrow> fst (L j) \<noteq> 0 \<Longrightarrow> j \<noteq> i \<Longrightarrow> fst (L' i) \<noteq> 0 \<Longrightarrow> snd (L j) \<noteq> snd (L' i)"
  shows "uniq L' n'"
  unfolding uniq_def
proof (intro allI impI)
  fix a b assume ab: "a < n'" "b < n'" "fst (L' a) \<noteq> 0" "fst (L' b) \<noteq> 0" "snd (L' a) = snd (L' b)"
  consider "a = i" "b = i" | "a = i" "b \<noteq> i" | "a \<noteq> i" "b = i" | "a \<noteq> i" "b \<noteq> i" by blast
  then show "a = b"
  proof cases
    case 2
    then have "L' b = L b" "b < n" using n L ab by auto
    then show ?thesis using new [of b] ab 2 by simp
  next
    case 3
    then have "L' a = L a" "a < n" using n L ab by auto
    then show ?thesis using new [of a] ab 3 by simp
  next
    case 4
    then have "L' a = L a" "a < n" "L' b = L b" "b < n" using n L ab by auto
    then show ?thesis using uniqD [OF u, of a b] ab by simp
  qed simp
qed

lemma ents_erase:
  assumes L: "\<And>j. j \<noteq> i \<Longrightarrow> j < n \<Longrightarrow> L' j = L j" "fst (L' i) = 0" and u: "uniq L n" and i: "i < n" "fst (L i) \<noteq> 0"
  shows "ents L' n = ents L n - {L i}"
proof (intro set_eqI iffI)
  fix s assume "s \<in> ents L' n"
  then obtain j where j: "fst s \<noteq> 0" "j < n" "s = L' j" unfolding ents_def by blast
  then have ji: "j \<noteq> i" using L(2) by auto
  then have s: "s = L j" using j L(1) by simp
  then have "s \<noteq> L i" using uniqD [OF u j(2) i(1)] j(1) i(2) ji by auto
  then show "s \<in> ents L n - {L i}" using j s unfolding ents_def by blast
next
  fix s assume "s \<in> ents L n - {L i}"
  then obtain j where j: "fst s \<noteq> 0" "j < n" "s = L j" "s \<noteq> L i" unfolding ents_def by blast
  then show "s \<in> ents L' n" using L(1) [of j] unfolding ents_def by force
qed

lemma entries_ents: "entries fs d = ents (dslot fs d) (dlen d)" "names_unique fs d \<longleftrightarrow> uniq (dslot fs d) (dlen d)"
  unfolding entries_def ents_def names_unique_def uniq_def by blast+

lemma written_insert:
  assumes d: "dir_inv fs d" and e: "entry_written fs d i bs fs' d'"
    and n: "dlen d' = dlen d \<and> i < dlen d \<and> fst (dslot fs d i) = 0 \<or> dlen d' = dlen d + 1 \<and> i = dlen d"
    and cap: "32 * dlen d' \<le> capacity fs" and s: "slot_of bs = (inid, name)" "inid \<noteq> 0" and new: "\<not> (\<exists>k. (k, name) \<in> entries fs d)"
  shows "entries fs' d' = insert (inid, name) (entries fs d)" "names_unique fs' d'"
proof -
  note W = written_slots [OF dir_invD(1) [OF d] e cap]
  have i': "i < dlen d'" using n by auto
  have idx: "j < dlen d' \<longleftrightarrow> j < dlen d" if "j \<noteq> i" for j using that n by auto
  have L: "dslot fs' d' j = dslot fs d j" if "j \<noteq> i" "j < dlen d'" for j using W [OF that(2)] that(1) by simp
  have X: "dslot fs' d' i = (inid, name)" using W [OF i'] s(1) by simp
  have free: "fst (dslot fs d i) = 0" if "i < dlen d" using that n by auto
  show "entries fs' d' = insert (inid, name) (entries fs d)"
    unfolding entries_ents
  proof (rule ents_insert [where i = i])
    show "j < dlen d' \<longleftrightarrow> j < dlen d" if "j \<noteq> i" for j using idx [OF that] .
    show "dslot fs' d' j = dslot fs d j" if "j \<noteq> i" "j < dlen d'" for j using L [OF that] .
  qed (use i' free X s(2) in simp_all)
  have fresh: "snd (dslot fs d j) \<noteq> snd (dslot fs' d' i)" if "j < dlen d" "fst (dslot fs d j) \<noteq> 0" for j
    using new that unfolding entries_name X by auto
  show "names_unique fs' d'"
    unfolding entries_ents
  proof (rule uniq_insert [where i = i])
    show "j < dlen d' \<longleftrightarrow> j < dlen d" if "j \<noteq> i" for j using idx [OF that] .
    show "dslot fs' d' j = dslot fs d j" if "j \<noteq> i" "j < dlen d'" for j using L [OF that] .
    show "uniq (dslot fs d) (dlen d)" using dir_invD(2) [OF d] unfolding entries_ents .
    show "snd (dslot fs d j) \<noteq> snd (dslot fs' d' i)" if "j < dlen d" "fst (dslot fs d j) \<noteq> 0" for j using fresh [OF that] .
  qed
qed

lemma written_erase:
  assumes d: "dir_inv fs d" and e: "entry_written fs d i (zeros 32) fs' d'" and n: "dlen d' = dlen d" "i < dlen d" "fst (dslot fs d i) \<noteq> 0"
  shows "entries fs' d' = entries fs d - {dslot fs d i}" "names_unique fs' d'" "fst (dslot fs' d' i) = 0"
proof -
  note ok = dir_invD(1) [OF d] note u = dir_invD(2) [OF d, unfolded entries_ents]
  have cap: "32 * dlen d' \<le> capacity fs" using dir_okD(4) [OF ok] n(1) by simp
  note W = written_slots [OF ok e cap, unfolded n(1)]
  have "take 4 (zeros 32) = zeros 4" by (simp add: zeros_def)
  then have z: "fst (slot_of (zeros 32)) = 0" by (simp add: slot_of_def be_val_zeros)
  show z': "fst (dslot fs' d' i) = 0" using W [OF n(2)] z by simp
  have L: "dslot fs' d' j = dslot fs d j" if "j \<noteq> i" "j < dlen d" for j using W [OF that(2)] that(1) by simp
  show "entries fs' d' = entries fs d - {dslot fs d i}"
    unfolding entries_ents n(1)
  proof (rule ents_erase)
    show "dslot fs' d' j = dslot fs d j" if "j \<noteq> i" "j < dlen d" for j using L [OF that] .
  qed (use z' u n in simp_all)
  show "names_unique fs' d'"
    unfolding entries_ents n(1)
  proof (rule uniq_insert [where i = i])
    show "dslot fs' d' j = dslot fs d j" if "j \<noteq> i" "j < dlen d" for j using L [OF that] .
    show "uniq (dslot fs d) (dlen d)" by (rule u)
    show "snd (dslot fs d j) \<noteq> snd (dslot fs' d' i)" if "fst (dslot fs' d' i) \<noteq> 0" for j using that z' by (rule notE)
  qed simp
qed

end
