(* ===== verification/SfsVolume.thy ===== *)
theory SfsVolume
  imports SfsDir BitMath
begin

section \<open>Operations on a SerenaFS volume\<close>

text \<open>
  \<open>serenafs/SerenaFS.c\<close>: starting and stopping a volume, information about it, and the operations that change the entries of directories:
  link, unlink and rename. Inodes are passed as values and returned changed; the callers pass different inodes for the
  node and its directories.
\<close>

subsection \<open>Starting and stopping\<close>

abbreviation kSFSSignature_SerenaFS :: nat where "kSFSSignature_SerenaFS \<equiv> 1399146067"
abbreviation (input) kSFSVersion_v0_1 :: nat where "kSFSVersion_v0_1 \<equiv> 256"
abbreviation (input) kSFSVolume_HeaderBno :: nat where "kSFSVolume_HeaderBno \<equiv> 0"

record FSProperties =
  p_rootDirectoryId :: nat
  p_isReadOnly :: bool

text \<open>The fields of the volume header in its block.\<close>

definition vol_header_at :: "u8 list \<Rightarrow> sfs_vol_header option" where
  "vol_header_at xs =
     do { sig \<leftarrow> be_at xs 0 4; ver \<leftarrow> be_at xs 4 4; att \<leftarrow> be_at xs 8 4; bs \<leftarrow> be_at xs 28 4; bc \<leftarrow> be_at xs 32 4;
          sz \<leftarrow> be_at xs 36 4; root \<leftarrow> be_at xs 40 4; bm \<leftarrow> be_at xs 44 4;
          len \<leftarrow> be_at xs 48 1; label \<leftarrow> get_bytes xs 49 48;
          Some \<lparr>v_signature = sig, v_version = ver, v_attributes = att, v_volBlockSize = bs, v_volBlockCount = bc,
                v_allocBitmapByteSize = sz, v_lbaRootDir = root, v_lbaAllocBitmap = bm,
                v_labelLength = len, v_label = label\<rparr> }"

text \<open>What happens while the header block is mapped; the argument \<open>kalloc\<close> is the result of a memory allocation of that size.\<close>

definition start_volume ::
  "(nat \<Rightarrow> errno) \<Rightarrow> SerenaFS \<Rightarrow> FSProperties \<Rightarrow> sfs_vol_header \<Rightarrow> (errno \<times> FSProperties \<times> SerenaFS) option" where
  "start_volume kalloc self props vhp =
     (let blockSize = v_volBlockSize vhp in
      if v_signature vhp \<noteq> kSFSSignature_SerenaFS \<or> v_version vhp \<noteq> kSFSVersion_v0_1 then Some (EIO, props, self)
      else if blockSize \<noteq> c_blockSize (fs_cont self) then Some (EIO, props, self)
      else if kalloc blockSize \<noteq> EOK then Some (kalloc blockSize, props, self)
      else do {
        let props1 = props\<lparr>p_rootDirectoryId := v_lbaRootDir vhp, p_isReadOnly := False\<rparr>;
        (e, al, c) \<leftarrow> SfsAllocator_Start kalloc (fs_alloc self) (fs_cont self) vhp blockSize;
        let self1 = self\<lparr>fs_alloc := al, fs_cont := c\<rparr>;
        if e \<noteq> EOK then Some (e, props1, self1)
        else do {
          shift \<leftarrow> log2_ul (of_nat blockSize);
          Some (EOK, props1\<lparr>p_isReadOnly := c_readOnly c \<or> v_attributes vhp mod 2 = 1\<rparr>,
                self1\<lparr>fs_blockSize := blockSize, fs_blockShift := unat shift, fs_blockMask := blockSize - 1,
                      fs_indirectBlockEntryCount := blockSize div 4, fs_isAccessUpdateOnReadEnabled := False\<rparr>) } })"

definition SerenaFS_onStart ::
  "(nat \<Rightarrow> errno) \<Rightarrow> SerenaFS \<Rightarrow> FSProperties \<Rightarrow> (errno \<times> FSProperties \<times> SerenaFS) option" where
  "SerenaFS_onStart kalloc self props =
     (if c_blockCount (fs_cont self) < kSFSVolume_MinBlockCount then Some (EIO, props, self)
      else if c_blockSize (fs_cont self) > 65535 then Some (EIO, props, self)
      else do {
        (e, blk, c) \<leftarrow> FSContainer_MapBlock (fs_cont self) kSFSVolume_HeaderBno kMapBlock_ReadOnly;
        let self1 = self\<lparr>fs_isAccessUpdateOnReadEnabled := True, fs_cont := c\<rparr>;
        if e \<noteq> EOK then Some (e, props, self1)
        else do {
          vhp \<leftarrow> vol_header_at (b_data blk);
          (e1, props1, self2) \<leftarrow> start_volume kalloc self1 props vhp;
          (_, c1) \<leftarrow> FSContainer_UnmapBlock (fs_cont self2) blk kWriteBlock_None;
          Some (e1, props1, self2\<lparr>fs_cont := c1\<rparr>) } })"

definition SerenaFS_onStop :: "SerenaFS \<Rightarrow> (errno \<times> SerenaFS) option" where
  "SerenaFS_onStop self =
     do { (_, self1) \<leftarrow> commit self;
          Some (EOK, self1\<lparr>fs_alloc := SfsAllocator_Stop (fs_alloc self1)\<rparr>) }"

subsection \<open>Information\<close>

record fs_basic_info =
  fi_capacity :: nat
  fi_count :: nat
  fi_blockSize :: nat
  fi_fsid :: nat
  fi_flags :: nat
  fi_type :: string

abbreviation (input) FS_INFO_BASIC :: int where "FS_INFO_BASIC \<equiv> 1"
abbreviation (input) FS_PROP_LABEL :: int where "FS_PROP_LABEL \<equiv> 1"
abbreviation (input) FS_FLAG_READ_ONLY :: nat where "FS_FLAG_READ_ONLY \<equiv> 4"

text \<open>Other flavors are left to the container, a method of another class that is an argument here; its answer is \<open>Inr\<close>.\<close>

definition SerenaFS_getInfo ::
  "(int \<Rightarrow> errno \<times> 'i) \<Rightarrow> SerenaFS \<Rightarrow> nat \<Rightarrow> int \<Rightarrow> (errno \<times> (fs_basic_info + 'i)) option" where
  "SerenaFS_getInfo container_info self fsid flavor =
     (if flavor = FS_INFO_BASIC then do {
        n \<leftarrow> SfsAllocator_GetAllocatedBlockCount (fs_alloc self);
        Some (EOK, Inl \<lparr>fi_capacity = c_blockCount (fs_cont self), fi_count = n, fi_blockSize = c_blockSize (fs_cont self),
                        fi_fsid = fsid, fi_flags = (if c_readOnly (fs_cont self) then FS_FLAG_READ_ONLY else 0), fi_type = ''sefs''\<rparr>) }
      else (case container_info flavor of (e, i) \<Rightarrow> Some (e, Inr i)))"

text \<open>The label is a string in the header block; \<open>buf\<close> is the memory of the caller, from the buffer on.\<close>

definition copyout_label :: "SerenaFS \<Rightarrow> u8 list \<Rightarrow> nat \<Rightarrow> (errno \<times> u8 list \<times> SerenaFS) option" where
  "copyout_label self buf bufSize =
     (if bufSize < 1 then Some (EINVAL, buf, self)
      else do {
        (e, blk, c) \<leftarrow> FSContainer_MapBlock (fs_cont self) kSFSVolume_HeaderBno kMapBlock_ReadOnly;
        if e = EOK then do {
          len \<leftarrow> be_at (b_data blk) 48 1;
          (e1, buf1) \<leftarrow>
            (if bufSize \<ge> len + 1 then do {
               label \<leftarrow> get_bytes (b_data blk) 49 len;
               b1 \<leftarrow> put_bytes buf 0 label;
               b2 \<leftarrow> put_bytes b1 len [0];
               Some (EOK, b2) }
             else do { b1 \<leftarrow> put_bytes buf 0 [0]; Some (ERANGE, b1) });
          (_, c1) \<leftarrow> FSContainer_UnmapBlock c blk kWriteBlock_None;
          Some (e1, buf1, self\<lparr>fs_cont := c1\<rparr>) }
        else do {
          buf1 \<leftarrow> put_bytes buf 0 [0];
          Some (e, buf1, self\<lparr>fs_cont := c\<rparr>) } })"

definition SerenaFS_getProperty ::
  "(int \<Rightarrow> u8 list \<Rightarrow> nat \<Rightarrow> (errno \<times> u8 list) option) \<Rightarrow> SerenaFS \<Rightarrow> int \<Rightarrow> u8 list \<Rightarrow> nat \<Rightarrow> (errno \<times> u8 list \<times> SerenaFS) option" where
  "SerenaFS_getProperty container_property self flavor buf bufSize =
     (if flavor = FS_PROP_LABEL then copyout_label self buf bufSize
      else do { (e, b) \<leftarrow> container_property flavor buf bufSize; Some (e, b, self) })"

definition SerenaFS_setLabel :: "SerenaFS \<Rightarrow> u8 list \<Rightarrow> errno \<times> SerenaFS" where
  "SerenaFS_setLabel self buf = (ENOTSUP, self)"

subsection \<open>Links\<close>

definition SerenaFS_unlinkCore :: "SerenaFS \<Rightarrow> Inode \<Rightarrow> Inode \<Rightarrow> (errno \<times> Inode \<times> Inode \<times> SerenaFS) option" where
  "SerenaFS_unlinkCore self node dir =
     do { (e, dir1, fs1) \<leftarrow> SfsDirectory_RemoveEntry self dir node;
          if e \<noteq> EOK then Some (e, node, dir1, fs1)
          else do {
            (_, dir2, fs2) \<leftarrow> Inode_Writeback fs1 dir1;
            (_, fs3) \<leftarrow> commit fs2;
            Some (EOK, Inode_SetModified (Inode_Unlink node) kInodeFlag_StatusChanged, dir2, fs3) } }"

definition SerenaFS_unlink :: "SerenaFS \<Rightarrow> Inode \<Rightarrow> Inode \<Rightarrow> (errno \<times> Inode \<times> Inode \<times> SerenaFS) option" where
  "SerenaFS_unlink self target dir =
     (if Inode_IsDirectory target \<and> i_linkCount target > 1 \<and> SfsDirectory_IsNotEmpty target then Some (EBUSY, target, dir, self)
      else SerenaFS_unlinkCore self target dir)"

definition SerenaFS_link ::
  "bool \<Rightarrow> SerenaFS \<Rightarrow> Inode \<Rightarrow> Inode \<Rightarrow> PathComponent \<Rightarrow> sfs_insertion_hint \<Rightarrow> (errno \<times> Inode \<times> Inode \<times> SerenaFS) option" where
  "SerenaFS_link uninit self node dir name hint =
     (let e = SfsDirectory_CanAcceptEntry dir name (SfsITypeFromFileType (i_fileType node)) in
      if e \<noteq> EOK then Some (e, node, dir, self)
      else do {
        (e1, dir1, fs1) \<leftarrow> SfsDirectory_InsertEntry uninit self dir name node (Some hint);
        if e1 \<noteq> EOK then Some (e1, node, dir1, fs1)
        else do {
          (_, dir2, fs2) \<leftarrow> Inode_Writeback fs1 dir1;
          Some (EOK, Inode_SetModified (Inode_Link node) kInodeFlag_StatusChanged, dir2, fs2) } })"

text \<open>The new name in the entry of a directory; the inode id stays.\<close>

definition dirent_rename :: "u8 list \<Rightarrow> nat \<Rightarrow> PathComponent \<Rightarrow> u8 list option" where
  "dirent_rename data off name =
     do { d1 \<leftarrow> put_bytes data (off + 5) (zeros kSFSMaxFilenameLength);
          d2 \<leftarrow> put_bytes d1 (off + 5) name;
          put_bytes d2 (off + 4) [of_nat (length name)] }"

definition SerenaFS_rename :: "SerenaFS \<Rightarrow> Inode \<Rightarrow> Inode \<Rightarrow> PathComponent \<Rightarrow> (errno \<times> Inode \<times> SerenaFS) option" where
  "SerenaFS_rename self node dir name =
     (if length name > kSFSMaxFilenameLength then Some (ENAMETOOLONG, dir, self)
      else do {
        (e, qr, dir1, fs1) \<leftarrow> SfsDirectory_Query self dir \<lparr>q_key = kSFSQuery_InodeId (i_inid node), q_mpc = None, q_ih = False\<rparr>;
        if e \<noteq> EOK then Some (e, dir1, fs1)
        else do {
          (e1, fs2) \<leftarrow> update_entry fs1 (qr_lba qr) (\<lambda>d. dirent_rename d (qr_blockOffset qr) name);
          Some (e1, dir1, fs2) } })"

text \<open>The name of a node in its directory.\<close>

definition SerenaFS_getNameOfNode ::
  "SerenaFS \<Rightarrow> Inode \<Rightarrow> nat \<Rightarrow> MutablePathComponent \<Rightarrow> (errno \<times> MutablePathComponent option \<times> Inode \<times> SerenaFS) option" where
  "SerenaFS_getNameOfNode self dir inid name =
     do { (e, qr, dir1, fs1) \<leftarrow> SfsDirectory_Query self dir \<lparr>q_key = kSFSQuery_InodeId inid, q_mpc = Some name, q_ih = False\<rparr>;
          Some (e, qr_mpc qr, dir1, fs1) }"

end
