(* ===== verification/SfsDirProps.thy ===== *)
theory SfsDirProps
  imports SfsDirInv SfsVolume SfsProps
begin

section \<open>The operations on the entries of a directory\<close>

text \<open>
  A directory is a finite partial map from names to inode ids. Looking up, linking, unlinking, renaming and the change of the
  parent are operations on this map (interpretation \<open>dirmap\<close>).
\<close>

subsection \<open>Directories that do not change\<close>

lemma dir_inv_same:
  assumes d: "dir_inv fs d" and i: "idle fs' d'" and g: "fs_geom fs fs'" and s: "i_size d' = i_size d"
    and b: "\<And>b. b < n_blocks fs \<Longrightarrow> fptr fs' d' b = fptr fs d b" "\<And>b. b < n_blocks fs \<Longrightarrow> fblock fs' d' b = fblock fs d b"
  shows "dir_inv fs' d'" "entries fs' d' = entries fs d"
proof -
  note D = dir_okD [OF dir_invD(1) [OF d]]
  have l: "dlen d' = dlen d" using s by (simp add: dlen_def)
  have cap: "capacity fs' = capacity fs" "fs_blockSize fs' = fs_blockSize fs" using fs_geomD(1,2) [OF g] by (simp_all add: capacity_def)
  have byte: "fbyte fs' d' k = fbyte fs d k" if "k < capacity fs" for k
  proof -
    have "k div fs_blockSize fs < n_blocks fs" using that by (simp add: capacity_def less_mult_imp_div_less)
    then show ?thesis using b(2) cap(2) by (simp add: fbyte_def)
  qed
  have dent: "dent fs' d' j = dent fs d j" if "j < dlen d" for j
    unfolding dent_def fbytes_def by (rule map_cong [OF refl]) (use byte that D(4) in auto)
  have ptr: "fptr fs' d' x \<noteq> 0" if "x * fs_blockSize fs < 32 * dlen d" for x
  proof -
    have "x * fs_blockSize fs < n_blocks fs * fs_blockSize fs" using that D(4) unfolding capacity_def by linarith
    then show ?thesis using b(1) [of x] D(5) [OF that] by simp
  qed
  have "dir_ok fs' d'" unfolding dir_ok_def using i D dent ptr l s cap by simp
  moreover have sl: "dslot fs' d' j = dslot fs d j" if "j < dlen d" for j using dent [OF that] by (simp add: dslot_def)
  ultimately show "dir_inv fs' d'" using same_slots(2) [OF l sl] dir_invD(2) [OF d] by (simp add: dir_inv_def)
  show "entries fs' d' = entries fs d" using same_slots(1) [OF l sl] .
qed

lemma dir_inv_apart:
  assumes "dir_inv fs d" "apart fs d S fs'"
  shows "dir_inv fs' d" "entries fs' d = entries fs d"
  using dir_inv_same [OF assms(1) apartD(3,1) [OF assms(2)] refl] apartD(5,6) [OF assms(2)] by blast+

lemma dir_inv_node:
  assumes "dir_inv fs d" "same_blocks d d'" "i_size d' = i_size d"
  shows "dir_inv fs d'" "entries fs d' = entries fs d"
proof -
  have i: "idle fs d'" using same_blocks_idle [OF assms(2)] dir_okD(1) [OF dir_invD(1) [OF assms(1)]] .
  show "dir_inv fs d'" "entries fs d' = entries fs d"
    by (rule dir_inv_same [OF assms(1) i fs_geom_refl assms(3)]; simp add: same_blocks_fptr [OF assms(2)] same_blocks_fblock [OF assms(2)])+
qed

text \<open>Writing the inode of the directory back and committing the allocation bitmap.\<close>

lemma dir_writeback:
  assumes d: "dir_inv fs d" and lc: "i_linkCount d \<noteq> 0" and fl: "c_faults (fs_cont fs) = []"
  obtains d' fs' where "Inode_Writeback fs d = Some (EOK, d', fs')" "dir_inv fs' d'" "entries fs' d' = entries fs d"
    "i_linkCount d' = i_linkCount d" "c_faults (fs_cont fs') = []"
proof -
  from writeback_linked [OF dir_okD(1) [OF dir_invD(1) [OF d]] lc] obtain e fs' where
    w: "Inode_Writeback fs d = Some (e, clear_flags d, fs')" "apart fs d {i_inid d} fs'" "e = EOK" using fl by blast
  note A = dir_inv_apart [OF d w(2)]
  have s: "same_blocks d (clear_flags d)" "i_size (clear_flags d) = i_size d" "i_linkCount (clear_flags d) = i_linkCount d"
    by (simp_all add: clear_flags_def same_blocks_def)
  show ?thesis
    by (rule that [OF w(1) [unfolded w(3)]]) (use dir_inv_node [OF A(1) s(1,2)] A(2) s(3) fs_geomD(4) [OF apartD(1) [OF w(2)] fl] in simp_all)
qed

lemma dir_commit:
  assumes d: "dir_inv fs d" and fl: "c_faults (fs_cont fs) = []"
  obtains fs' where "commit fs = Some (EOK, fs')" "dir_inv fs' d" "entries fs' d = entries fs d" "c_faults (fs_cont fs') = []"
proof -
  from commit_apart [OF dir_okD(1) [OF dir_invD(1) [OF d]]] obtain e fs' where
    c: "commit fs = Some (e, fs')" "apart fs d {a_bitmapLba (fs_alloc fs)} fs'" "e = EOK" using fl by blast
  show ?thesis
    by (rule that [OF c(1) [unfolded c(3)]]) (use dir_inv_apart [OF d c(2)] fs_geomD(4) [OF apartD(1) [OF c(2)] fl] in simp_all)
qed

subsection \<open>Linking a node\<close>

lemma insert_too_big:
  assumes d: "dir_ok fs d" and cap: "\<not> 32 * dlen d + 32 \<le> capacity fs" and ih: "ih_lba h = 0"
  shows "SfsDirectory_InsertEntry u fs d name child (Some h) = Some (EFBIG, d, fs)"
proof -
  note D = dir_okD [OF d] note ok = idleD(1) [OF D(1)] note P = per_block [OF ok]
  have c: "capacity fs = 32 * (n_blocks fs * per_block fs)" using P(1) by (simp add: capacity_def)
  have full: "dlen d = n_blocks fs * per_block fs" using cap D(4) c by linarith
  have "i_size d = int (n_blocks fs * fs_blockSize fs)" using D(3) full P(1) by simp
  then have "nat (i_size d) = n_blocks fs * fs_blockSize fs" by (simp only: nat_int)
  then have "nat (i_size d) div fs_blockSize fs = n_blocks fs" using P by simp
  moreover have "n_blocks fs mod 4294967296 = n_blocks fs" using n_blocks_small [OF ok] by simp
  ultimately obtain off where "SfsFile_ConvertOffset fs (i_size d) = (n_blocks fs, off)"
    using convert_offset [OF ok D(2)] by simp
  then have "map_new_entry u fs d (Some h) = Some (EFBIG, \<lparr>f_b = no_block, f_lba = 0, f_wasAlloced = False, f_isZeroFill = False\<rparr>, off, d, fs)"
    using ih MapBlock_too_big [OF order_refl] by (simp add: map_new_entry_def Let_def)
  then show ?thesis by (simp add: SfsDirectory_InsertEntry_def)
qed

lemma inserted:
  assumes d: "dir_inv fs d" and e: "entry_written fs d i (dirent_bytes inid name) fs' d'"
    and n: "dlen d' = dlen d \<and> i < dlen d \<and> fst (dslot fs d i) = 0 \<or> dlen d' = dlen d + 1 \<and> i = dlen d"
    and sz: "i_size d' = int (32 * dlen d')" "32 * dlen d' \<le> capacity fs"
    and nm: "name \<noteq> []" "length name \<le> kSFSMaxFilenameLength" and k: "0 < inid" "inid < 4294967296" and new: "\<not> (\<exists>k. (k, name) \<in> entries fs d)"
  shows "dir_inv fs' d'" "entries fs' d' = insert (inid, name) (entries fs d)"
proof -
  have s: "slot_of (dirent_bytes inid name) = (inid, name)" "inid \<noteq> 0" using slot_dirent [OF nm(2) k(2)] k(1) by simp_all
  have ok: "dir_ok fs' d'"
    by (rule dir_ok_written [OF dir_invD(1) [OF d] e _ sz dirent_wf [OF nm(2,1)]]) (use n in auto)
  then show "dir_inv fs' d'" using written_insert(2) [OF d e n sz(2) s new] by (simp add: dir_inv_def)
  show "entries fs' d' = insert (inid, name) (entries fs d)" by (rule written_insert(1) [OF d e n sz(2) s new])
qed

lemma insert_outcome:
  assumes d: "dir_inv fs d" and fl: "c_faults (fs_cont fs) = []" and nm: "name \<noteq> []" "length name \<le> kSFSMaxFilenameLength"
    and k: "0 < i_inid child" "i_inid child < 4294967296" and new: "\<not> (\<exists>k. (k, name) \<in> entries fs d)"
    and ih: "ih_lba ih = 0 \<and> reachable fs d (32 * dlen d) 32 \<or> \<not> u \<and> (\<exists>i < dlen d. fst (dslot fs d i) = 0 \<and> ih = slot_hint fs d i)"
  obtains (fails) e d' fs' where "SfsDirectory_InsertEntry u fs d name child (Some ih) = Some (e, d', fs')" "e = ENOSPC \<or> e = EFBIG" "keeps fs d fs' d'"
  | (added) d' fs' where "SfsDirectory_InsertEntry u fs d name child (Some ih) = Some (EOK, d', fs')" "dir_inv fs' d'"
      "entries fs' d' = insert (i_inid child, name) (entries fs d)" "i_linkCount d' = i_linkCount (dir_linked d child)" "fs_geom fs fs'"
proof -
  note ok = dir_invD(1) [OF d] note D = dir_okD [OF ok]
  consider "ih_lba ih = 0" "\<not> 32 * dlen d + 32 \<le> capacity fs"
    | "ih_lba ih = 0" "32 * dlen d + 32 \<le> capacity fs" "reachable fs d (32 * dlen d) 32"
    | i where "i < dlen d" "fst (dslot fs d i) = 0" "ih = slot_hint fs d i" "\<not> u"
    using ih by (cases "32 * dlen d + 32 \<le> capacity fs") auto
  then show ?thesis
  proof cases
    case 1
    show ?thesis by (rule fails [OF insert_too_big [OF ok 1(2,1)] _ keeps_refl [OF D(1)]]) simp
  next
    case 2
    have ih0: "\<And>h. Some ih = Some h \<Longrightarrow> ih_lba h = 0" using 2(1) by simp
    show ?thesis
    proof (rule insert_append [OF ok 2(2) fl nm(2) ih0 2(3), where u = u and child = child])
      fix d' fs'
      assume a: "SfsDirectory_InsertEntry u fs d name child (Some ih) = Some (ENOSPC, d', fs')" "keeps fs d fs' d'"
      show ?thesis by (rule fails [OF a(1) _ a(2)]) simp
    next
      fix d' fs'
      assume a: "SfsDirectory_InsertEntry u fs d name child (Some ih) = Some (EOK, d', fs')" "i_size d' = i_size d + 32"
        "i_linkCount d' = i_linkCount (dir_linked d child)" "entry_written fs d (dlen d) (dirent_bytes (i_inid child) name) fs' d'"
      have dl: "dlen d' = dlen d + 1" using a(2) D(2) by (simp add: dlen_def nat_add_distrib)
      note I = inserted [OF d a(4) disjI2 [OF conjI [OF dl refl]] _ _ nm k new]
      have sz: "i_size d' = int (32 * dlen d')" "32 * dlen d' \<le> capacity fs" using a(2) D(3) dl 2(2) by simp_all
      show ?thesis by (rule added [OF a(1) I [OF sz] a(3) confinedD(1) [OF entry_writtenD(2) [OF a(4)]]])
    qed
  next
    case (3 i)
    obtain fs' where a: "SfsDirectory_InsertEntry False fs d name child (Some (slot_hint fs d i)) = Some (EOK, dir_linked d child, fs')"
      "entry_written fs d i (dirent_bytes (i_inid child) name) fs' (dir_linked d child)"
      by (rule insert_hint [OF ok 3(1) fl nm(2)])
    have dl: "dlen (dir_linked d child) = dlen d" by (simp add: dlen_def)
    note I = inserted [OF d a(2) disjI1 [OF conjI [OF dl conjI [OF 3(1,2)]]] _ _ nm k new]
    have sz: "i_size (dir_linked d child) = int (32 * dlen (dir_linked d child))" "32 * dlen (dir_linked d child) \<le> capacity fs" using D(3,4) dl by simp_all
    show ?thesis
      by (rule added [OF _ I [OF sz] refl confinedD(1) [OF entry_writtenD(2) [OF a(2)]]])
        (use a(1) 3(3,4) in simp)
  qed
qed

subsection \<open>Entries of a node\<close>

lemma query_result_pos:
  assumes "fst sc = Some i"
  shows "qr_lba (query_result fs d hh qr sc) = ih_lba (slot_hint fs d i)"
    "qr_blockOffset (query_result fs d hh qr sc) = ih_blockOffset (slot_hint fs d i)"
    "qr_fileOffset (query_result fs d hh qr sc) = int (32 * i)"
  using assms by (simp_all add: query_result_def Let_def)

lemma find_key:
  assumes d: "dir_inv fs d" and fl: "c_faults (fs_cont fs) = []" and k: "key_ok key"
  obtains (missing) qr d' fs' where "SfsDirectory_Query fs d \<lparr>q_key = key, q_mpc = None, q_ih = False\<rparr> = Some (ENOENT, qr, d', fs')"
      "keeps fs d fs' d'" "\<And>i. i < dlen d \<Longrightarrow> fst (dslot fs d i) \<noteq> 0 \<Longrightarrow> \<not> key_match key (dslot fs d i)"
  | (found) qr d' fs' i where "SfsDirectory_Query fs d \<lparr>q_key = key, q_mpc = None, q_ih = False\<rparr> = Some (EOK, qr, d', fs')"
      "keeps fs d fs' d'" "i < dlen d" "fst (dslot fs d i) \<noteq> 0" "key_match key (dslot fs d i)"
      "qr_lba qr = ih_lba (slot_hint fs d i)" "qr_blockOffset qr = ih_blockOffset (slot_hint fs d i)" "qr_fileOffset qr = int (32 * i)"
proof -
  let ?q = "\<lparr>q_key = key, q_mpc = None, q_ih = False\<rparr>"
  define sc where "sc = scan (dslot fs d) key [0..<dlen d]"
  have kq: "q_key ?q = key" "key_ok (q_key ?q)" "q_mpc ?q = None" using k by simp_all
  from query_spec [OF dir_invD(1) [OF d] kq(2) fl kq(3)] obtain d' fs' where q: "SfsDirectory_Query fs d ?q =
      Some (if fst sc = None then ENOENT else EOK, query_result fs d False (query_init ?q) sc, d', fs')" "keeps fs d fs' d'"
    unfolding kq(1) sc_def by blast
  show ?thesis
  proof (cases "fst sc")
    case None
    have "\<not> key_match key (dslot fs d i)" if "i < dlen d" "fst (dslot fs d i) \<noteq> 0" for i
      using None that unfolding sc_def scan_miss by (force simp: Ball_def)
    then show ?thesis using missing q None by simp
  next
    case (Some i)
    show ?thesis
      by (rule found [OF _ q(2) _ _ _ query_result_pos [OF Some]]) (use q(1) Some scan_hit [OF Some [unfolded sc_def]] in simp_all)
  qed
qed

lemma find_node:
  assumes d: "dir_inv fs d" and fl: "c_faults (fs_cont fs) = []" and k: "inid < 4294967296"
  obtains (missing) qr d' fs' where
      "SfsDirectory_Query fs d \<lparr>q_key = kSFSQuery_InodeId inid, q_mpc = None, q_ih = False\<rparr> = Some (ENOENT, qr, d', fs')"
      "keeps fs d fs' d'" "\<not> (\<exists>nm. (inid, nm) \<in> entries fs d)"
  | (found) qr d' fs' i where
      "SfsDirectory_Query fs d \<lparr>q_key = kSFSQuery_InodeId inid, q_mpc = None, q_ih = False\<rparr> = Some (EOK, qr, d', fs')"
      "keeps fs d fs' d'" "i < dlen d" "fst (dslot fs d i) = inid" "inid \<noteq> 0"
      "qr_lba qr = ih_lba (slot_hint fs d i)" "qr_blockOffset qr = ih_blockOffset (slot_hint fs d i)" "qr_fileOffset qr = int (32 * i)"
proof -
  have ko: "key_ok (kSFSQuery_InodeId inid)" by simp
  show ?thesis
  proof (rule find_key [OF d fl ko])
    fix qr d' fs'
    assume q: "SfsDirectory_Query fs d \<lparr>q_key = kSFSQuery_InodeId inid, q_mpc = None, q_ih = False\<rparr> = Some (ENOENT, qr, d', fs')" "keeps fs d fs' d'"
      and no: "\<And>i. i < dlen d \<Longrightarrow> fst (dslot fs d i) \<noteq> 0 \<Longrightarrow> \<not> key_match (kSFSQuery_InodeId inid) (dslot fs d i)"
    have "\<not> (\<exists>nm. (inid, nm) \<in> entries fs d)" using no k unfolding entries_iff by force
    then show ?thesis using missing q by blast
  next
    fix qr d' fs' i
    assume q: "SfsDirectory_Query fs d \<lparr>q_key = kSFSQuery_InodeId inid, q_mpc = None, q_ih = False\<rparr> = Some (EOK, qr, d', fs')" "keeps fs d fs' d'"
      "i < dlen d" "fst (dslot fs d i) \<noteq> 0" "key_match (kSFSQuery_InodeId inid) (dslot fs d i)" "qr_lba qr = ih_lba (slot_hint fs d i)"
      "qr_blockOffset qr = ih_blockOffset (slot_hint fs d i)" "qr_fileOffset qr = int (32 * i)"
    show ?thesis by (rule found [OF q(1-3) _ _ q(6-8)]) (use q(4,5) k in simp_all)
  qed
qed

text \<open>Removing the entry of a node; the last slot of the directory is cut off.\<close>

definition dir_unlinked :: "Inode \<Rightarrow> Inode \<Rightarrow> Inode" where
  "dir_unlinked d child = Inode_SetModified (if Inode_IsDirectory child then Inode_Unlink d else d) (kInodeFlag_Updated OR kInodeFlag_StatusChanged)"

lemma dir_unlinked_simps [simp]: "same_blocks d (dir_unlinked d child)" "i_size (dir_unlinked d child) = i_size d"
  by (auto simp: dir_unlinked_def same_blocks_def Inode_SetModified_def Inode_Unlink_def)

lemma trimmed_entries:
  assumes d: "dir_inv fs d" and i: "Suc i = dlen d" and z: "fst (dslot fs d i) = 0"
    and t: "dir_ok fs' d'" "dlen d' = i" "\<forall>j < i. dent fs' d' j = dent fs d j"
  shows "dir_inv fs' d'" "entries fs' d' = entries fs d"
proof -
  have sl: "dslot fs' d' j = dslot fs d j" if "j < i" for j using t(3) that by (simp add: dslot_def)
  show "entries fs' d' = entries fs d"
  proof (intro set_eqI iffI)
    fix x assume "x \<in> entries fs d"
    then obtain j where j: "j < dlen d" "x = dslot fs d j" "fst x \<noteq> 0" unfolding entries_def by blast
    then have "j \<noteq> i" using z by auto
    then have "j < dlen d'" "x = dslot fs' d' j" using j i t(2) sl [of j] by simp_all
    then show "x \<in> entries fs' d'" using j(3) unfolding entries_def by blast
  next
    fix x assume "x \<in> entries fs' d'"
    then obtain j where j: "j < i" "x = dslot fs' d' j" "fst x \<noteq> 0" unfolding entries_def t(2) by blast
    then have "j < dlen d" "x = dslot fs d j" using sl [of j] i by simp_all
    then show "x \<in> entries fs d" using j(3) unfolding entries_def by blast
  qed
  have "uniq (dslot fs' d') (dlen d')"
    unfolding uniq_def t(2)
  proof (intro allI impI)
    fix a b assume ab: "a < i" "b < i" "fst (dslot fs' d' a) \<noteq> 0" "fst (dslot fs' d' b) \<noteq> 0" "snd (dslot fs' d' a) = snd (dslot fs' d' b)"
    show "a = b"
      by (rule uniqD [OF dir_invD(2) [OF d, unfolded entries_ents]]) (use ab i sl in simp_all)
  qed
  then show "dir_inv fs' d'" using t(1) by (simp add: dir_inv_def entries_ents)
qed

lemma erase_slot:
  assumes d: "dir_inv fs d" and i: "i < dlen d" "fst (dslot fs d i) \<noteq> 0" and fl: "c_faults (fs_cont fs) = []"
  obtains fs' where
    "update_entry fs (ih_lba (slot_hint fs d i)) (\<lambda>x. put_bytes x (ih_blockOffset (slot_hint fs d i)) (zeros 32)) = Some (EOK, fs')"
    "dir_inv fs' d" "entries fs' d = entries fs d - {dslot fs d i}" "fst (dslot fs' d i) = 0" "c_faults (fs_cont fs') = []"
proof -
  note ok = dir_invD(1) [OF d]
  obtain fs' where u: "update_entry fs (ih_lba (slot_hint fs d i)) (\<lambda>x. put_bytes x (ih_blockOffset (slot_hint fs d i)) (zeros 32)) = Some (EOK, fs')"
    "entry_written fs d i (zeros 32) fs' d" by (rule update_entry_spec [OF ok i(1) fl, of "zeros 32"]) simp
  note E = written_erase [OF d u(2) refl i]
  have "be_val (take 4 (zeros 32)) = 0" by (simp add: zeros_def be_val_zeros [unfolded zeros_def])
  then have "slot_wf (zeros 32)" by (simp add: slot_wf_def)
  then have "dir_ok fs' d" by (intro dir_ok_written [OF ok u(2)]) (use i dir_okD(3,4) [OF ok] in simp_all)
  then show ?thesis
    by (intro that [OF u(1)]) (use E fs_geomD(4) [OF confinedD(1) [OF entry_writtenD(2) [OF u(2)]] fl] in \<open>simp_all add: dir_inv_def\<close>)
qed

lemma cut_slot:
  assumes d: "dir_inv fs d" and i: "i < dlen d" "fst (dslot fs d i) = 0" and fl: "c_faults (fs_cont fs) = []"
  obtains d' fs' where
    "(if i_size d - 32 = int (32 * i) then do { (_, s, f) \<leftarrow> SfsFile_Trim fs d (int (32 * i)); Some (s, f) } else Some (d, fs)) = Some (d', fs')"
    "dir_inv fs' d'" "entries fs' d' = entries fs d" "i_linkCount d' = i_linkCount d" "c_faults (fs_cont fs') = []"
proof (cases "Suc i = dlen d")
  case True
  note ok = dir_invD(1) [OF d]
  obtain t d' fs' where tr: "SfsFile_Trim fs d (int (32 * i)) = Some (t, d', fs')" "dir_ok fs' d'" "dlen d' = i" "confined fs d fs' d'"
    "\<forall>j < i. dent fs' d' j = dent fs d j" "i_linkCount d' = i_linkCount d" by (rule dir_trim [OF ok True fl])
  note T = trimmed_entries [OF d True i(2) tr(2,3,5)]
  have "i_size d - 32 = int (32 * i)" using dir_okD(3) [OF ok] True by simp
  then show ?thesis
    by (intro that [of d' fs']) (use tr(1,6) T fs_geomD(4) [OF confinedD(1) [OF tr(4)] fl] in simp_all)
next
  case False
  then have "i_size d - 32 \<noteq> int (32 * i)" using dir_okD(3) [OF dir_invD(1) [OF d]] i(1) by simp
  then show ?thesis by (intro that [of d fs]) (use d fl in simp_all)
qed

lemma remove_spec:
  assumes d: "dir_inv fs d" and fl: "c_faults (fs_cont fs) = []" and k: "i_inid node < 4294967296"
  obtains (missing) d' fs' where "SfsDirectory_RemoveEntry fs d node = Some (ENOENT, d', fs')" "keeps fs d fs' d'"
      "\<not> (\<exists>nm. (i_inid node, nm) \<in> entries fs d)"
  | (removed) d' fs' nm where "SfsDirectory_RemoveEntry fs d node = Some (EOK, d', fs')" "dir_inv fs' d'" "(i_inid node, nm) \<in> entries fs d"
      "entries fs' d' = entries fs d - {(i_inid node, nm)}" "i_linkCount d' = i_linkCount (dir_unlinked d node)" "c_faults (fs_cont fs') = []"
  using d fl k
proof (cases rule: find_node)
  case (missing qr d' fs')
  have "SfsDirectory_RemoveEntry fs d node = Some (ENOENT, d', fs')" using missing(1) by (simp add: SfsDirectory_RemoveEntry_def)
  then show ?thesis using that(1) missing(2,3) by blast
next
  case (found qr d1 fs1 i)
  note K = dir_keeps [OF dir_invD(1) [OF d] found(2)] note H = keeps_hint [OF dir_invD(1) [OF d] found(2,3)]
  have d1: "dir_inv fs1 d1" using K(3) d .
  have fl1: "c_faults (fs_cont fs1) = []" using fs_geomD(4) [OF keepsD(3) [OF found(2)] fl] .
  have i1: "i < dlen d1" "fst (dslot fs1 d1 i) \<noteq> 0" using found(3-5) keeps_dlen [OF found(2)] H(2) by simp_all
  obtain fs2 where u: "update_entry fs1 (ih_lba (slot_hint fs1 d1 i)) (\<lambda>x. put_bytes x (ih_blockOffset (slot_hint fs1 d1 i)) (zeros 32)) = Some (EOK, fs2)"
    "dir_inv fs2 d1" "entries fs2 d1 = entries fs1 d1 - {dslot fs1 d1 i}" "fst (dslot fs2 d1 i) = 0" "c_faults (fs_cont fs2) = []"
    by (rule erase_slot [OF d1 i1 fl1])
  obtain d3 fs3 where t: "(if i_size d1 - 32 = int (32 * i) then do { (_, s, f) \<leftarrow> SfsFile_Trim fs2 d1 (int (32 * i)); Some (s, f) } else Some (d1, fs2)) =
      Some (d3, fs3)" "dir_inv fs3 d3" "entries fs3 d3 = entries fs2 d1" "i_linkCount d3 = i_linkCount d1" "c_faults (fs_cont fs3) = []"
    by (rule cut_slot [OF u(2) i1(1) u(4,5)])
  define nm where "nm = snd (dslot fs d i)"
  have sl: "dslot fs d i = (i_inid node, nm)" using found(4) by (simp add: nm_def prod_eq_iff)
  have ent: "(i_inid node, nm) \<in> entries fs d" using found(3,5) sl unfolding entries_iff by blast
  have r: "SfsDirectory_RemoveEntry fs d node = Some (EOK, dir_unlinked d3 node, fs3)"
    using u(1) [unfolded H(1), folded found(6,7)] t(1) [folded found(8)]
    by (simp only: SfsDirectory_RemoveEntry_def found(1) Option.bind.bind_lunit prod.case simp_thms if_False Let_def dir_unlinked_def)
  have "i_linkCount d3 = i_linkCount d" using same_metaD(3) [OF frameD(2) [OF keepsD(2) [OF found(2)]]] t(4) by simp
  then have lc: "i_linkCount (dir_unlinked d3 node) = i_linkCount (dir_unlinked d node)"
    by (simp add: dir_unlinked_def Inode_SetModified_def Inode_Unlink_def)
  show ?thesis
    by (rule that(2) [OF r _ ent _ lc t(5)]) (use dir_inv_node [OF t(2), of "dir_unlinked d3 node"] t(3) u(3) K(1) H(2) sl in simp_all)
qed

subsection \<open>Changing an entry in place\<close>

lemma split_entry:
  assumes "off + 32 \<le> length data"
  obtains a m r where "data = a @ m @ r" "length a = off" "length m = 32" "m = take 32 (drop off data)"
proof -
  have "data = take off data @ take 32 (drop off data) @ drop 32 (drop off data)" by (simp only: append_take_drop_id)
  then show ?thesis by (rule that) (use assms in simp_all)
qed

lemma dirent_rename_eq:
  assumes "length name \<le> kSFSMaxFilenameLength" "off + 32 \<le> length data"
  shows "dirent_rename data off name =
    put_bytes data off (take 4 (take 32 (drop off data)) @ [of_nat (length name)] @ name @ zeros (kSFSMaxFilenameLength - length name))"
proof -
  obtain a m r where m: "data = a @ m @ r" "length a = off" "length m = 32" "m = take 32 (drop off data)" by (rule split_entry [OF assms(2)])
  have "dirent_rename data off name = Some (a @ (take 4 m @ [of_nat (length name)] @ name @ zeros (kSFSMaxFilenameLength - length name)) @ r)"
    using m(1-3) assms(1) by (simp add: dirent_rename_def put_bytes_def zeros_def)
  moreover have "put_bytes data off (take 4 m @ [of_nat (length name)] @ name @ zeros (kSFSMaxFilenameLength - length name)) =
      Some (a @ (take 4 m @ [of_nat (length name)] @ name @ zeros (kSFSMaxFilenameLength - length name)) @ r)"
    using m(1-3) assms(1) by (simp add: put_bytes_def)
  ultimately show ?thesis using m(4) by simp
qed

lemma put_id_eq:
  assumes "off + 32 \<le> length data"
  shows "put_bytes data off (be32_put k) = put_bytes data off (be32_put k @ drop 4 (take 32 (drop off data)))"
proof -
  obtain a m r where m: "data = a @ m @ r" "length a = off" "length m = 32" "m = take 32 (drop off data)" by (rule split_entry [OF assms])
  have "put_bytes data off (be32_put k) = put_bytes data off (be32_put k @ drop 4 m)"
    using m(1-3) by (simp add: put_bytes_def)
  then show ?thesis using m(4) by simp
qed

lemma ents_replace:
  assumes L: "\<And>j. j \<noteq> i \<Longrightarrow> j < n \<Longrightarrow> L' j = L j" "L' i = X" "fst X \<noteq> 0" and u: "uniq L n" and i: "i < n" "fst (L i) \<noteq> 0"
  shows "ents L' n = insert X (ents L n - {L i})"
proof -
  define L0 where "L0 = L(i := (0, []))"
  have "ents L0 n = ents L n - {L i}" by (rule ents_erase [OF _ _ u i]) (simp_all add: L0_def)
  moreover have "ents L' n = insert X (ents L0 n)" by (rule ents_insert [where i = i]) (use L i in \<open>simp_all add: L0_def\<close>)
  ultimately show ?thesis by simp
qed

lemma uniq_replace:
  assumes L: "\<And>j. j \<noteq> i \<Longrightarrow> j < n \<Longrightarrow> L' j = L j" and u: "uniq L n" and i: "i < n" "fst (L i) \<noteq> 0"
    and new: "snd (L' i) = snd (L i) \<or> \<not> (\<exists>j < n. fst (L j) \<noteq> 0 \<and> snd (L j) = snd (L' i))"
  shows "uniq L' n"
proof (rule uniq_insert [OF _ L u])
  fix j assume j: "j < n" "fst (L j) \<noteq> 0" "j \<noteq> i"
  show "snd (L j) \<noteq> snd (L' i)" using new j uniqD [OF u j(1) i(1) j(2) i(2)] by auto
qed simp_all

lemma rewrite_slot:
  assumes d: "dir_inv fs d" and i: "i < dlen d" "fst (dslot fs d i) \<noteq> 0" and fl: "c_faults (fs_cont fs) = []"
    and bs: "length bs = 32" "slot_wf bs" "slot_of bs = (k, nm)" "k \<noteq> 0"
    and f: "\<And>data. off = 32 * (i mod per_block fs) \<Longrightarrow> off + 32 \<le> length data \<Longrightarrow> take 32 (drop off data) = dent fs d i \<Longrightarrow> f data = put_bytes data off bs"
    and off: "off = ih_blockOffset (slot_hint fs d i)"
    and new: "nm = snd (dslot fs d i) \<or> \<not> (\<exists>x. (x, nm) \<in> entries fs d)"
  obtains fs' where "update_entry fs (ih_lba (slot_hint fs d i)) f = Some (EOK, fs')"
    "dir_inv fs' d" "entries fs' d = insert (k, nm) (entries fs d - {dslot fs d i})" "c_faults (fs_cont fs') = []"
proof -
  note ok = dir_invD(1) [OF d] note D = dir_okD [OF ok] note P = per_block [OF idleD(1) [OF D(1)]]
  let ?b = "i div per_block fs"
  obtain fs' where u: "update_entry fs (ih_lba (slot_hint fs d i)) (\<lambda>x. put_bytes x (ih_blockOffset (slot_hint fs d i)) bs) = Some (EOK, fs')"
    "entry_written fs d i bs fs' d" by (rule update_entry_spec [OF ok i(1) fl bs(1)])
  have o: "off = 32 * (i mod per_block fs)" using off by (simp add: slot_hint_def)
  have "dent fs d (?b * per_block fs + i mod per_block fs) = take 32 (drop off (fblock fs d ?b))"
    unfolding o by (rule dent_block [OF idleD(1) [OF D(1)]]) (use P(2) in simp)
  then have dn: "take 32 (drop off (fblock fs d ?b)) = dent fs d i" by (simp only: div_mult_mod_eq)
  have "off + 32 \<le> length (fblock fs d ?b)"
    using slot_offset(2) [OF idleD(1) [OF D(1)], of i] length_fblock [OF idleD(1) [OF D(1)]] o by simp
  from f [OF o this dn] have fb: "f (fblock fs d ?b) = put_bytes (fblock fs d ?b) (ih_blockOffset (slot_hint fs d i)) bs" using off by simp
  have "update_entry fs (ih_lba (slot_hint fs d i)) f = Some (EOK, fs')"
  proof -
    obtain c where m: "FSContainer_MapBlock (fs_cont fs) (ih_lba (slot_hint fs d i)) kMapBlock_Update =
        Some (EOK, \<lparr>b_token = Some (ih_lba (slot_hint fs d i)), b_data = fblock fs d ?b\<rparr>, c)" by (rule slot_map [OF ok i(1) fl])
    show ?thesis using u(1) fb m by (simp add: update_entry_def)
  qed
  moreover have ok': "dir_ok fs' d" by (rule dir_ok_written [OF ok u(2)]) (use i D(3,4) bs(2) in simp_all)
  note W = written_slots [OF ok u(2) D(4)]
  have L: "dslot fs' d j = dslot fs d j" if "j \<noteq> i" "j < dlen d" for j using W [OF that(2)] that(1) by simp
  have X: "dslot fs' d i = (k, nm)" using W [OF i(1)] bs(3) by simp
  have uq: "uniq (dslot fs d) (dlen d)" using dir_invD(2) [OF d] unfolding entries_ents .
  have "uniq (dslot fs' d) (dlen d)"
    by (rule uniq_replace [OF L uq i]) (use new X in \<open>auto simp: entries_name\<close>)
  then have "dir_inv fs' d" using ok' by (simp add: dir_inv_def entries_ents)
  moreover have "entries fs' d = insert (k, nm) (entries fs d - {dslot fs d i})"
    unfolding entries_ents by (rule ents_replace [OF L X _ uq i]) (use bs(4) in simp_all)
  moreover have "c_faults (fs_cont fs') = []" using fs_geomD(4) [OF confinedD(1) [OF entry_writtenD(2) [OF u(2)]] fl] .
  ultimately show ?thesis by (intro that [of fs'])
qed

lemma slot_rename:
  assumes "length name \<le> kSFSMaxFilenameLength" "name \<noteq> []" "length ds = 32"
  shows "length (take 4 ds @ [of_nat (length name)] @ name @ zeros (kSFSMaxFilenameLength - length name)) = 32"
    "slot_wf (take 4 ds @ [of_nat (length name)] @ name @ zeros (kSFSMaxFilenameLength - length name))"
    "slot_of (take 4 ds @ [of_nat (length name)] @ name @ zeros (kSFSMaxFilenameLength - length name)) = (fst (slot_of ds), name)"
proof -
  have u: "unat (of_nat (length name) :: u8) = length name" using assms(1) by (simp add: unat_of_nat_u8)
  then have z: "of_nat (length name) \<noteq> (0 :: u8)" using assms(2) by (metis length_0_conv unat_0)
  show "length (take 4 ds @ [of_nat (length name)] @ name @ zeros (kSFSMaxFilenameLength - length name)) = 32" using assms by simp
  show "slot_wf (take 4 ds @ [of_nat (length name)] @ name @ zeros (kSFSMaxFilenameLength - length name))"
    using assms u z by (simp add: slot_wf_def nth_append)
  show "slot_of (take 4 ds @ [of_nat (length name)] @ name @ zeros (kSFSMaxFilenameLength - length name)) = (fst (slot_of ds), name)"
    using assms u by (simp add: slot_of_def nth_append)
qed

lemma slot_reid:
  assumes "length ds = 32" "k < 4294967296" "slot_wf ds" "fst (slot_of ds) \<noteq> 0"
  shows "length (be32_put k @ drop 4 ds) = 32" "slot_wf (be32_put k @ drop 4 ds)" "slot_of (be32_put k @ drop 4 ds) = (k, snd (slot_of ds))"
proof -
  have l: "length (be32_put k) = 4" by simp
  show "length (be32_put k @ drop 4 ds) = 32" using assms(1) by simp
  have n: "(be32_put k @ drop 4 ds) ! 4 = ds ! 4" using assms(1) l by (simp add: nth_append)
  then show "slot_wf (be32_put k @ drop 4 ds)" using assms(3,4) by (simp add: slot_wf_def slot_of_def)
  show "slot_of (be32_put k @ drop 4 ds) = (k, snd (slot_of ds))"
    using n assms(2) by (simp add: slot_of_def be32_roundtrip)
qed

lemma rename_spec:
  assumes d: "dir_inv fs d" and fl: "c_faults (fs_cont fs) = []" and k: "i_inid node < 4294967296"
    and n: "name \<noteq> []" "length name \<le> kSFSMaxFilenameLength" and new: "\<not> (\<exists>x. (x, name) \<in> entries fs d)"
  obtains (missing) d' fs' where "SerenaFS_rename fs node d name = Some (ENOENT, d', fs')" "keeps fs d fs' d'"
      "\<not> (\<exists>nm. (i_inid node, nm) \<in> entries fs d)"
  | (renamed) d' fs' nm where "SerenaFS_rename fs node d name = Some (EOK, d', fs')" "dir_inv fs' d'" "(i_inid node, nm) \<in> entries fs d"
      "entries fs' d' = insert (i_inid node, name) (entries fs d - {(i_inid node, nm)})" "i_linkCount d' = i_linkCount d" "c_faults (fs_cont fs') = []"
  using d fl k
proof (cases rule: find_node)
  case (missing qr d' fs')
  have "SerenaFS_rename fs node d name = Some (ENOENT, d', fs')" using missing(1) n(2) by (simp add: SerenaFS_rename_def)
  then show ?thesis using that(1) missing(2,3) by blast
next
  case (found qr d1 fs1 i)
  note K = dir_keeps [OF dir_invD(1) [OF d] found(2)] note H = keeps_hint [OF dir_invD(1) [OF d] found(2,3)]
  have d1: "dir_inv fs1 d1" using K(3) d .
  have fl1: "c_faults (fs_cont fs1) = []" using fs_geomD(4) [OF keepsD(3) [OF found(2)] fl] .
  have i1: "i < dlen d1" "fst (dslot fs1 d1 i) \<noteq> 0" using found(3-5) keeps_dlen [OF found(2)] H(2) by simp_all
  have len: "length (dent fs1 d1 i) = 32" by (simp add: dent_def)
  note S = slot_rename [OF n(2,1) len]
  have id: "fst (slot_of (dent fs1 d1 i)) = i_inid node" using H(2) found(4) by (simp add: dslot_def)
  have f: "dirent_rename x (ih_blockOffset (slot_hint fs1 d1 i)) name = put_bytes x (ih_blockOffset (slot_hint fs1 d1 i))
      (take 4 (dent fs1 d1 i) @ [of_nat (length name)] @ name @ zeros (kSFSMaxFilenameLength - length name))"
    if "ih_blockOffset (slot_hint fs1 d1 i) + 32 \<le> length x" "take 32 (drop (ih_blockOffset (slot_hint fs1 d1 i)) x) = dent fs1 d1 i" for x
    using dirent_rename_eq [OF n(2) that(1)] that(2) by simp
  obtain fs2 where u: "update_entry fs1 (ih_lba (slot_hint fs1 d1 i)) (\<lambda>x. dirent_rename x (ih_blockOffset (slot_hint fs1 d1 i)) name) = Some (EOK, fs2)"
    "dir_inv fs2 d1" "entries fs2 d1 = insert (i_inid node, name) (entries fs1 d1 - {dslot fs1 d1 i})" "c_faults (fs_cont fs2) = []"
    by (rule rewrite_slot [OF d1 i1 fl1 S(1,2) S(3) [unfolded id] found(5) f refl]) (use new K(1) in simp_all)
  have sl: "dslot fs1 d1 i = (i_inid node, snd (dslot fs d i))" using H(2) found(4) by (simp add: prod_eq_iff)
  have ent: "(i_inid node, snd (dslot fs d i)) \<in> entries fs d" using found(3,5) sl H(2) unfolding entries_iff by auto
  have r: "SerenaFS_rename fs node d name = Some (EOK, d1, fs2)"
    using u(1) found(1,6,7) n(2) H(1) by (simp add: SerenaFS_rename_def)
  show ?thesis
    by (rule that(2) [OF r u(2) ent _ _ u(4)]) (use u(3) K(1) sl same_metaD(3) [OF frameD(2) [OF keepsD(2) [OF found(2)]]] in simp_all)
qed

text \<open>The parent entry gets a new id; the code stores it in the byte order of the CPU, which is that of the disk.\<close>

lemma parent_spec:
  assumes d: "dir_inv fs d" and fl: "c_faults (fs_cont fs) = []" and k: "0 < pnid" "pnid < 4294967296"
  obtains (missing) d' fs' where "SfsDirectory_UpdateParentEntry fs d pnid = Some (ENOENT, d', fs')" "keeps fs d fs' d'"
      "\<not> (\<exists>x. (x, kPathComponent_Parent) \<in> entries fs d)"
  | (changed) d' fs' x where "SfsDirectory_UpdateParentEntry fs d pnid = Some (EOK, d', fs')" "dir_inv fs' d'" "(x, kPathComponent_Parent) \<in> entries fs d"
      "entries fs' d' = insert (pnid, kPathComponent_Parent) (entries fs d - {(x, kPathComponent_Parent)})"
      "i_linkCount d' = i_linkCount d" "c_faults (fs_cont fs') = []"
proof -
  let ?k = "kSFSQuery_PathComponent kPathComponent_Parent"
  have ko: "key_ok ?k" by (simp add: kPathComponent_Parent_def)
  show ?thesis
  proof (rule find_key [OF d fl ko])
    fix qr d' fs'
    assume q: "SfsDirectory_Query fs d \<lparr>q_key = ?k, q_mpc = None, q_ih = False\<rparr> = Some (ENOENT, qr, d', fs')" "keeps fs d fs' d'"
      and no: "\<And>i. i < dlen d \<Longrightarrow> fst (dslot fs d i) \<noteq> 0 \<Longrightarrow> \<not> key_match ?k (dslot fs d i)"
    have "\<not> (\<exists>x. (x, kPathComponent_Parent) \<in> entries fs d)" using no unfolding entries_name by auto
    then show ?thesis by (intro missing [OF _ q(2)]) (simp_all add: SfsDirectory_UpdateParentEntry_def q(1))
  next
    fix qr d1 fs1 i
    assume q: "SfsDirectory_Query fs d \<lparr>q_key = ?k, q_mpc = None, q_ih = False\<rparr> = Some (EOK, qr, d1, fs1)" "keeps fs d fs1 d1"
      "i < dlen d" "fst (dslot fs d i) \<noteq> 0" "key_match ?k (dslot fs d i)" "qr_lba qr = ih_lba (slot_hint fs d i)"
      "qr_blockOffset qr = ih_blockOffset (slot_hint fs d i)"
    note K = dir_keeps [OF dir_invD(1) [OF d] q(2)] note H = keeps_hint [OF dir_invD(1) [OF d] q(2,3)]
    have d1: "dir_inv fs1 d1" using K(3) d .
    have fl1: "c_faults (fs_cont fs1) = []" using fs_geomD(4) [OF keepsD(3) [OF q(2)] fl] .
    have i1: "i < dlen d1" "fst (dslot fs1 d1 i) \<noteq> 0" using q(3,4) keeps_dlen [OF q(2)] H(2) by simp_all
    have len: "length (dent fs1 d1 i) = 32" by (simp add: dent_def)
    have nm: "snd (slot_of (dent fs1 d1 i)) = kPathComponent_Parent" using H(2) q(5) by (simp add: dslot_def)
    note S = slot_reid [OF len k(2) dir_okD(6) [OF dir_invD(1) [OF d1] i1(1)]]
    have ne: "fst (slot_of (dent fs1 d1 i)) \<noteq> 0" using i1(2) by (simp add: dslot_def)
    have f: "put_bytes x (ih_blockOffset (slot_hint fs1 d1 i)) (be32_put pnid) =
        put_bytes x (ih_blockOffset (slot_hint fs1 d1 i)) (be32_put pnid @ drop 4 (dent fs1 d1 i))"
      if "ih_blockOffset (slot_hint fs1 d1 i) + 32 \<le> length x" "take 32 (drop (ih_blockOffset (slot_hint fs1 d1 i)) x) = dent fs1 d1 i" for x
      using put_id_eq [OF that(1)] that(2) by simp
    obtain fs2 where u: "update_entry fs1 (ih_lba (slot_hint fs1 d1 i)) (\<lambda>x. put_bytes x (ih_blockOffset (slot_hint fs1 d1 i)) (be32_put pnid)) = Some (EOK, fs2)"
      "dir_inv fs2 d1" "entries fs2 d1 = insert (pnid, kPathComponent_Parent) (entries fs1 d1 - {dslot fs1 d1 i})" "c_faults (fs_cont fs2) = []"
      by (rule rewrite_slot [OF d1 i1 fl1 S(1,2) [OF ne] S(3) [OF ne, unfolded nm] _ f refl]) (use k nm in \<open>simp_all add: dslot_def\<close>)
    have sl: "dslot fs d i = (fst (dslot fs d i), kPathComponent_Parent)" using q(5) by (simp add: prod_eq_iff)
    have ent: "(fst (dslot fs d i), kPathComponent_Parent) \<in> entries fs d" using q(3,4) sl unfolding entries_iff by auto
    have r: "SfsDirectory_UpdateParentEntry fs d pnid = Some (EOK, d1, fs2)"
      using u(1) q(1,6,7) H(1) by (simp add: SfsDirectory_UpdateParentEntry_def)
    show ?thesis
      by (rule changed [OF r u(2) ent _ _ u(4)]) (use u(3) K(1) H(2) sl same_metaD(3) [OF frameD(2) [OF keepsD(2) [OF q(2)]]] in simp_all)
  qed
qed

subsection \<open>The directory as a map\<close>

text \<open>
  The calls of the file manager on one directory. To link, it looks up the name first, which gives the place for the new entry. The third
  argument of \<open>DirLink\<close> is what the field \<open>isZeroFill\<close> happens to hold that \<open>SfsDirectory_InsertEntry\<close> does not initialize.
\<close>

datatype dir_op = DirLookup PathComponent | DirLink PathComponent Inode bool | DirUnlink Inode | DirRename Inode PathComponent | DirSetParent nat

fun dir_exec :: "dir_op \<Rightarrow> SerenaFS \<times> Inode \<Rightarrow> ((errno \<times> nat) \<times> (SerenaFS \<times> Inode)) option" where
  "dir_exec (DirLookup name) (fs, d) =
     do { (e, qr, d1, fs1) \<leftarrow> SfsDirectory_Query fs d \<lparr>q_key = kSFSQuery_PathComponent name, q_mpc = None, q_ih = False\<rparr>;
          Some ((e, qr_id qr), (fs1, d1)) }"
| "dir_exec (DirLink name node uninit) (fs, d) =
     do { (e, qr, d1, fs1) \<leftarrow> SfsDirectory_Query fs d \<lparr>q_key = kSFSQuery_PathComponent name, q_mpc = None, q_ih = True\<rparr>;
          if e = EOK then Some ((EEXIST, 0), (fs1, d1))
          else if e \<noteq> ENOENT then Some ((e, 0), (fs1, d1))
          else do {
            hint \<leftarrow> qr_ih qr;
            (e1, _, d2, fs2) \<leftarrow> SerenaFS_link uninit fs1 node d1 name hint;
            Some ((e1, 0), (fs2, d2)) } }"
| "dir_exec (DirUnlink node) (fs, d) = do { (e, _, d1, fs1) \<leftarrow> SerenaFS_unlink fs node d; Some ((e, 0), (fs1, d1)) }"
| "dir_exec (DirRename node name) (fs, d) = do { (e, d1, fs1) \<leftarrow> SerenaFS_rename fs node d name; Some ((e, 0), (fs1, d1)) }"
| "dir_exec (DirSetParent pnid) (fs, d) = do { (e, d1, fs1) \<leftarrow> SfsDirectory_UpdateParentEntry fs d pnid; Some ((e, 0), (fs1, d1)) }"

text \<open>
  The calls that the specification does not cover. A link that takes the slot of a removed entry aborts in \<open>SfsFile_UnmapBlock\<close> if the
  uninitialized field is set. A link that extends a directory without an indirect block behind its direct blocks loses the
  block map if the cache gives up clean blocks.
\<close>

fun dir_hazard :: "dir_op \<Rightarrow> SerenaFS \<times> Inode \<Rightarrow> bool" where
  "dir_hazard (DirLink name node uninit) (fs, d) \<longleftrightarrow> (if has_hole fs d then uninit else \<not> reachable fs d (32 * dlen d) 32)"
| "dir_hazard _ _ \<longleftrightarrow> False"

lemma insert_hint_aborts:
  assumes d: "dir_ok fs d" and i: "i < dlen d" and fl: "c_faults (fs_cont fs) = []"
  shows "SfsDirectory_InsertEntry True fs d name child (Some (slot_hint fs d i)) = None"
proof -
  let ?h = "slot_hint fs d i"
  obtain c where m: "FSContainer_MapBlock (fs_cont fs) (ih_lba ?h) kMapBlock_Update =
      Some (EOK, \<lparr>b_token = Some (ih_lba ?h), b_data = fblock fs d (i div per_block fs)\<rparr>, c)" by (rule slot_map [OF d i fl])
  have "0 < ih_lba ?h" using slot_in_dir(3) [OF d i] by (simp add: slot_hint_def)
  then show ?thesis
    using m by (auto simp: SfsDirectory_InsertEntry_def map_new_entry_def SfsFile_UnmapBlock_def Let_def split: bind_splits)
qed

text \<open>The specification: a map from names to ids, and the link count, which counts the subdirectories.\<close>

type_synonym dir_map = "(PathComponent \<rightharpoonup> nat) \<times> int"

definition subdir :: "Inode \<Rightarrow> int" where
  "subdir node = (if Inode_IsDirectory node then 1 else 0)"

fun dir_allowed :: "dir_op \<Rightarrow> errno \<times> nat \<Rightarrow> dir_map \<Rightarrow> dir_map \<Rightarrow> bool" where
  "dir_allowed (DirLookup name) (e, k) (m, lc) a' \<longleftrightarrow> a' = (m, lc) \<and>
     (if length name > kSFSMaxFilenameLength then e = ENAMETOOLONG
      else case m name of None \<Rightarrow> e = ENOENT | Some i \<Rightarrow> e = EOK \<and> k = i)"
| "dir_allowed (DirLink name node _) (e, k) (m, lc) a' \<longleftrightarrow>
     (if length name > kSFSMaxFilenameLength then e = ENAMETOOLONG \<and> a' = (m, lc)
      else if m name \<noteq> None then e = EEXIST \<and> a' = (m, lc)
      else if Inode_IsDirectory node \<and> lc \<ge> kSFSLimit_LinkMax then e = EMLINK \<and> a' = (m, lc)
      else (e = ENOSPC \<or> e = EFBIG) \<and> a' = (m, lc) \<or> e = EOK \<and> a' = (m(name \<mapsto> i_inid node), lc + subdir node))"
| "dir_allowed (DirUnlink node) (e, k) (m, lc) a' \<longleftrightarrow>
     (if Inode_IsDirectory node \<and> i_linkCount node > 1 then e = EBUSY \<and> a' = (m, lc)
      else if i_inid node \<notin> ran m then e = ENOENT \<and> a' = (m, lc)
      else e = EOK \<and> (\<exists>nm. m nm = Some (i_inid node) \<and> a' = (m(nm := None), lc - subdir node)))"
| "dir_allowed (DirRename node name) (e, k) (m, lc) a' \<longleftrightarrow>
     (if length name > kSFSMaxFilenameLength then e = ENAMETOOLONG \<and> a' = (m, lc)
      else if i_inid node \<notin> ran m then e = ENOENT \<and> a' = (m, lc)
      else e = EOK \<and> (\<exists>nm. m nm = Some (i_inid node) \<and> a' = ((m(nm := None))(name \<mapsto> i_inid node), lc)))"
| "dir_allowed (DirSetParent pnid) (e, k) (m, lc) a' \<longleftrightarrow>
     (if m kPathComponent_Parent = None then e = ENOENT \<and> a' = (m, lc)
      else e = EOK \<and> a' = (m(kPathComponent_Parent \<mapsto> pnid), lc))"

fun dir_pre :: "dir_op \<Rightarrow> dir_map \<Rightarrow> bool" where
  "dir_pre (DirLookup name) a \<longleftrightarrow> True"
| "dir_pre (DirLink name node _) a \<longleftrightarrow> name \<noteq> [] \<and> 0 < i_inid node \<and> i_inid node < 4294967296"
| "dir_pre (DirUnlink node) a \<longleftrightarrow> i_inid node < 4294967296 \<and> (Inode_IsDirectory node \<longrightarrow> 1 < snd a)"
| "dir_pre (DirRename node name) a \<longleftrightarrow> i_inid node < 4294967296 \<and> name \<noteq> [] \<and> fst a name = None"
| "dir_pre (DirSetParent pnid) a \<longleftrightarrow> 0 < pnid \<and> pnid < 4294967296"

definition maps :: "(nat \<times> u8 list) set \<Rightarrow> (PathComponent \<rightharpoonup> nat) \<Rightarrow> bool" where
  "maps E m \<longleftrightarrow> (\<forall>k nm. (k, nm) \<in> E \<longleftrightarrow> m nm = Some k)"

definition dir_rep :: "SerenaFS \<times> Inode \<Rightarrow> dir_map \<Rightarrow> bool" where
  "dir_rep c a \<longleftrightarrow> dir_inv (fst c) (snd c) \<and> c_faults (fs_cont (fst c)) = [] \<and> i_linkCount (snd c) = snd a \<and> 0 < snd a
     \<and> maps (entries (fst c) (snd c)) (fst a)"

lemma maps_insert: "maps E m \<Longrightarrow> m nm = None \<Longrightarrow> maps (insert (k, nm) E) (m(nm \<mapsto> k))"
  by (auto simp: maps_def)

lemma maps_remove: "maps E m \<Longrightarrow> m nm = Some k \<Longrightarrow> maps (E - {(k, nm)}) (m(nm := None))"
  by (auto simp: maps_def)

lemma mapsD: "maps E m \<Longrightarrow> (\<exists>k. (k, nm) \<in> E) \<longleftrightarrow> m nm \<noteq> None" "maps E m \<Longrightarrow> (\<exists>nm. (k, nm) \<in> E) \<longleftrightarrow> k \<in> ran m"
  "maps E m \<Longrightarrow> (k, nm) \<in> E \<longleftrightarrow> m nm = Some k"
  by (auto simp: maps_def ran_def)

lemma dir_repD:
  assumes "dir_rep (fs, d) (m, lc)"
  shows "dir_inv fs d" "c_faults (fs_cont fs) = []" "i_linkCount d = lc" "0 < lc" "maps (entries fs d) m"
  using assms by (simp_all add: dir_rep_def)

lemma dir_repI:
  "dir_inv fs d \<Longrightarrow> c_faults (fs_cont fs) = [] \<Longrightarrow> i_linkCount d = lc \<Longrightarrow> 0 < lc \<Longrightarrow> maps (entries fs d) m \<Longrightarrow> dir_rep (fs, d) (m, lc)"
  by (simp add: dir_rep_def)

lemma dir_rep_keeps:
  assumes r: "dir_rep (fs, d) (m, lc)" and k: "keeps fs d fs' d'"
  shows "dir_rep (fs', d') (m, lc)"
proof -
  note R = dir_repD [OF r] note K = dir_keeps [OF dir_invD(1) [OF R(1)] k]
  have "i_linkCount d' = lc" using same_metaD(3) [OF frameD(2) [OF keepsD(2) [OF k]]] R(3) by simp
  then show ?thesis using R K fs_geomD(4) [OF keepsD(3) [OF k] R(2)] by (intro dir_repI) simp_all
qed

text \<open>Names that are too long or empty are in no entry.\<close>

lemma entry_names:
  assumes d: "dir_inv fs d" and e: "(k, nm) \<in> entries fs d"
  shows "nm \<noteq> []" "length nm \<le> kSFSMaxFilenameLength"
proof -
  obtain i where i: "i < dlen d" "dslot fs d i = (k, nm)" "k \<noteq> 0" using e unfolding entries_iff by blast
  have w: "slot_wf (dent fs d i)" using dir_okD(6) [OF dir_invD(1) [OF d] i(1)] .
  have len: "length (dent fs d i) = 32" by (simp add: dent_def)
  have s: "be_val (take 4 (dent fs d i)) = k" "nm = take (unat (dent fs d i ! 4)) (drop 5 (dent fs d i))"
    using i(2) by (simp_all add: dslot_def slot_of_def)
  have n: "dent fs d i ! 4 \<noteq> 0" "unat (dent fs d i ! 4) \<le> kSFSMaxFilenameLength" using w s(1) i(3) by (simp_all add: slot_wf_def)
  then have "length nm = unat (dent fs d i ! 4)" using s(2) len by simp
  then show "length nm \<le> kSFSMaxFilenameLength" "nm \<noteq> []" using n by (auto simp: unat_eq_zero)
qed

subsection \<open>Every operation conforms to the map\<close>

abbreviation (input) conforms_to :: "dir_op \<Rightarrow> SerenaFS \<times> Inode \<Rightarrow> dir_map \<Rightarrow> bool" where
  "conforms_to x c a \<equiv> \<exists>r c' a'. dir_exec x c = Some (r, c') \<and> dir_allowed x r a a' \<and> dir_rep c' a'"

lemma conformsI: "dir_exec x c = Some (r, c') \<Longrightarrow> dir_allowed x r a a' \<Longrightarrow> dir_rep c' a' \<Longrightarrow> conforms_to x c a"
  by blast

text \<open>Names that no entry can have are answered without looking at the directory.\<close>

lemma bad_name:
  assumes "name = [] \<or> \<not> length name \<le> kSFSMaxFilenameLength"
  shows "SfsDirectory_Query fs d \<lparr>q_key = kSFSQuery_PathComponent name, q_mpc = None, q_ih = h\<rparr> =
    Some (if name = [] then ENOENT else ENAMETOOLONG, query_init \<lparr>q_key = kSFSQuery_PathComponent name, q_mpc = None, q_ih = h\<rparr>, d, fs)"
  using assms by (auto simp: SfsDirectory_Query_def Let_def)

lemma lookup_conforms:
  assumes r: "dir_rep (fs, d) (m, lc)"
  shows "conforms_to (DirLookup name) (fs, d) (m, lc)"
proof (cases "name = [] \<or> \<not> length name \<le> kSFSMaxFilenameLength")
  case True
  note R = dir_repD [OF r]
  have "m name = None" if "name = []" using entry_names(1) [OF R(1)] mapsD(1) [OF R(5), of name] that by auto
  then show ?thesis using bad_name [OF True] r True by (intro conformsI) auto
next
  case False
  note R = dir_repD [OF r]
  have nn: "name \<noteq> []" "length name \<le> kSFSMaxFilenameLength" using False by simp_all
  obtain e qr d' fs' where q: "SfsDirectory_Query fs d \<lparr>q_key = kSFSQuery_PathComponent name, q_mpc = None, q_ih = False\<rparr> = Some (e, qr, d', fs')"
    "keeps fs d fs' d'" "e = (if \<exists>inid. (inid, name) \<in> entries fs d then EOK else ENOENT)" "e = EOK \<longrightarrow> (qr_id qr, name) \<in> entries fs d"
    by (rule lookup_spec [OF R(1) nn R(2), of False])
  have "case m name of None \<Rightarrow> e = ENOENT | Some i \<Rightarrow> e = EOK \<and> qr_id qr = i"
    using q(3,4) mapsD(1) [OF R(5), of name] mapsD(3) [OF R(5)] by (auto split: option.split)
  then show ?thesis
    using q(1) False dir_rep_keeps [OF r q(2)] by (intro conformsI [where r = "(e, qr_id qr)" and c' = "(fs', d')" and a' = "(m, lc)"]) auto
qed

lemma link_count: "i_linkCount (dir_linked d node) = i_linkCount d + subdir node"
  "1 < i_linkCount d \<or> \<not> Inode_IsDirectory node \<Longrightarrow> i_linkCount (dir_unlinked d node) = i_linkCount d - subdir node"
  by (auto simp: dir_linked_def dir_unlinked_def subdir_def Inode_SetModified_def Inode_Link_def Inode_Unlink_def)

lemma accept_entry: "length name \<le> kSFSMaxFilenameLength \<Longrightarrow>
  SfsDirectory_CanAcceptEntry d name (SfsITypeFromFileType (i_fileType node)) =
    (if Inode_IsDirectory node \<and> i_linkCount d \<ge> kSFSLimit_LinkMax then EMLINK else EOK)"
  by (cases "i_fileType node") (simp_all add: SfsDirectory_CanAcceptEntry_def Inode_IsDirectory_def)

lemma link_spec:
  assumes r: "dir_rep (fs, d) (m, lc)" and n: "name \<noteq> []" "length name \<le> kSFSMaxFilenameLength" "m name = None"
    and k: "0 < i_inid node" "i_inid node < 4294967296"
    and ih: "ih_lba ih = 0 \<and> reachable fs d (32 * dlen d) 32 \<or> \<not> u \<and> (\<exists>i < dlen d. fst (dslot fs d i) = 0 \<and> ih = slot_hint fs d i)"
  obtains e node' d' fs' a' where "SerenaFS_link u fs node d name ih = Some (e, node', d', fs')" "dir_rep (fs', d') a'"
    "dir_allowed (DirLink name node u) (e, 0) (m, lc) a'"
proof (cases "Inode_IsDirectory node \<and> lc \<ge> kSFSLimit_LinkMax")
  case True
  then show ?thesis using r dir_repD(3) [OF r] n by (intro that [of EMLINK node d fs "(m, lc)"]) (simp_all add: SerenaFS_link_def accept_entry)
next
  case False
  note R = dir_repD [OF r]
  have acc: "SfsDirectory_CanAcceptEntry d name (SfsITypeFromFileType (i_fileType node)) = EOK" using False R(3) n(2) by (simp add: accept_entry)
  have new: "\<not> (\<exists>x. (x, name) \<in> entries fs d)" using mapsD(1) [OF R(5)] n(3) by simp
  from R(1,2) n(1,2) k new ih show ?thesis
  proof (cases rule: insert_outcome)
    case (fails e d' fs')
    show ?thesis
      by (rule that [of e node d' fs' "(m, lc)"]) (use acc fails dir_rep_keeps [OF r fails(3)] n False in \<open>auto simp: SerenaFS_link_def\<close>)
  next
    case (added d1 fs1)
    have lc1: "i_linkCount d1 = lc + subdir node" using added(4) link_count(1) R(3) by simp
    have lc0: "0 < lc + subdir node" using R(4) by (simp add: subdir_def)
    obtain d2 fs2 where w: "Inode_Writeback fs1 d1 = Some (EOK, d2, fs2)" "dir_inv fs2 d2" "entries fs2 d2 = entries fs1 d1"
      "i_linkCount d2 = i_linkCount d1" "c_faults (fs_cont fs2) = []"
      by (rule dir_writeback [OF added(2) _ fs_geomD(4) [OF added(5) R(2)]]) (use lc1 lc0 in simp)
    have "dir_rep (fs2, d2) (m(name \<mapsto> i_inid node), lc + subdir node)"
      by (rule dir_repI [OF w(2,5) _ lc0]) (use w(3,4) lc1 added(3) maps_insert [OF R(5) n(3)] in simp_all)
    then show ?thesis
      by (rule that [rotated 1]) (use acc added(1) w(1) False n in \<open>simp_all add: SerenaFS_link_def\<close>)
  qed
qed

lemma reachable_keeps:
  assumes "reachable fs d base n" "keeps fs d fs' d'"
  shows "reachable fs' d' base n"
  using assms(1) calm_frame [OF _ keepsD(2) [OF assms(2)]] keepsD(4) [OF assms(2)] by (auto simp: reachable_def)

lemma link_conforms:
  assumes r: "dir_rep (fs, d) (m, lc)" and n: "name \<noteq> []" and k: "0 < i_inid node" "i_inid node < 4294967296"
    and hz: "\<not> dir_hazard (DirLink name node u) (fs, d)"
  shows "conforms_to (DirLink name node u) (fs, d) (m, lc)"
proof (cases "length name \<le> kSFSMaxFilenameLength")
  case False
  then show ?thesis using bad_name [of name fs d True] r n by (intro conformsI) auto
next
  case True
  note R = dir_repD [OF r]
  obtain e qr d1 fs1 where q: "SfsDirectory_Query fs d \<lparr>q_key = kSFSQuery_PathComponent name, q_mpc = None, q_ih = True\<rparr> = Some (e, qr, d1, fs1)"
    "keeps fs d fs1 d1" "e = (if \<exists>inid. (inid, name) \<in> entries fs d then EOK else ENOENT)"
    "\<exists>ih. qr_ih qr = Some ih \<and> (ih_lba ih = 0 \<and> (e = ENOENT \<longrightarrow> \<not> has_hole fs d) \<or>
       (\<exists>i < dlen d. fst (dslot fs d i) = 0 \<and> ih = slot_hint fs d i))"
    by (rule lookup_spec [OF R(1) n True R(2), of True]) simp
  note r1 = dir_rep_keeps [OF r q(2)]
  show ?thesis
  proof (cases "m name")
    case (Some i)
    then have "e = EOK" using q(3) mapsD(1) [OF R(5), of name] by auto
    then show ?thesis using q(1) r1 True Some by (intro conformsI) auto
  next
    case None
    then have e: "e = ENOENT" using q(3) mapsD(1) [OF R(5), of name] by auto
    obtain ih where q5: "qr_ih qr = Some ih" "ih_lba ih = 0 \<and> \<not> has_hole fs d \<or> (\<exists>i < dlen d. fst (dslot fs d i) = 0 \<and> ih = slot_hint fs d i)"
      using q(4) e by blast
    have ih: "ih_lba ih = 0 \<and> reachable fs1 d1 (32 * dlen d1) 32 \<or> \<not> u \<and> (\<exists>i < dlen d1. fst (dslot fs1 d1 i) = 0 \<and> ih = slot_hint fs1 d1 i)"
      using q5(2)
    proof
      assume z: "ih_lba ih = 0 \<and> \<not> has_hole fs d"
      then have "reachable fs d (32 * dlen d) 32" using hz by simp
      then show ?thesis using z reachable_keeps [OF _ q(2)] keeps_dlen [OF q(2)] by simp
    next
      assume i: "\<exists>i < dlen d. fst (dslot fs d i) = 0 \<and> ih = slot_hint fs d i"
      then have "\<not> u" using hz by (auto simp: has_hole_def split: if_splits)
      then show ?thesis using i keeps_hint [OF dir_invD(1) [OF R(1)] q(2)] keeps_dlen [OF q(2)] by metis
    qed
    obtain e1 node' d2 fs2 a' where l: "SerenaFS_link u fs1 node d1 name ih = Some (e1, node', d2, fs2)" "dir_rep (fs2, d2) a'"
      "dir_allowed (DirLink name node u) (e1, 0) (m, lc) a'" by (rule link_spec [OF r1 n True None k ih])
    show ?thesis by (rule conformsI [OF _ l(3,2)]) (use q(1) e q5(1) l(1) in simp)
  qed
qed

lemma unlink_conforms:
  assumes r: "dir_rep (fs, d) (m, lc)" and k: "i_inid node < 4294967296" and p: "Inode_IsDirectory node \<longrightarrow> 1 < lc"
  shows "conforms_to (DirUnlink node) (fs, d) (m, lc)"
proof (cases "Inode_IsDirectory node \<and> i_linkCount node > 1")
  case True
  then have "SerenaFS_unlink fs node d = Some (EBUSY, node, d, fs)" by (simp add: SerenaFS_unlink_def SfsDirectory_IsNotEmpty_def)
  then show ?thesis using r True by (intro conformsI) auto
next
  case False
  note R = dir_repD [OF r]
  have u: "SerenaFS_unlink fs node d = SerenaFS_unlinkCore fs node d" using False by (auto simp: SerenaFS_unlink_def)
  from R(1,2) k show ?thesis
  proof (cases rule: remove_spec)
    case (missing d' fs')
    have "i_inid node \<notin> ran m" using missing(3) mapsD(2) [OF R(5)] by simp
    then show ?thesis
      using u missing(1) dir_rep_keeps [OF r missing(2)] False by (intro conformsI) (auto simp: SerenaFS_unlinkCore_def)
  next
    case (removed d1 fs1 nm)
    have m: "m nm = Some (i_inid node)" "i_inid node \<in> ran m" using removed(3) mapsD(3) [OF R(5)] by (auto simp: ran_def)
    have lc1: "i_linkCount d1 = lc - subdir node" using removed(5) link_count(2) [of d node] p R(3) by auto
    have lc0: "0 < lc - subdir node" using p R(4) by (simp add: subdir_def)
    obtain d2 fs2 where w: "Inode_Writeback fs1 d1 = Some (EOK, d2, fs2)" "dir_inv fs2 d2" "entries fs2 d2 = entries fs1 d1"
      "i_linkCount d2 = i_linkCount d1" "c_faults (fs_cont fs2) = []"
      by (rule dir_writeback [OF removed(2) _ removed(6)]) (use lc1 lc0 in simp)
    obtain fs3 where c: "commit fs2 = Some (EOK, fs3)" "dir_inv fs3 d2" "entries fs3 d2 = entries fs2 d2" "c_faults (fs_cont fs3) = []"
      by (rule dir_commit [OF w(2,5)])
    have rep: "dir_rep (fs3, d2) (m(nm := None), lc - subdir node)"
      by (rule dir_repI [OF c(2,4) _ lc0]) (use w(3,4) c(3) lc1 removed(4) maps_remove [OF R(5) m(1)] in simp_all)
    have "dir_allowed (DirUnlink node) (EOK, 0) (m, lc) (m(nm := None), lc - subdir node)" using False m by auto
    then show ?thesis
      by (rule conformsI [OF _ _ rep, rotated 1]) (use u removed(1) w(1) c(1) in \<open>simp add: SerenaFS_unlinkCore_def\<close>)
  qed
qed

lemma rename_conforms:
  assumes r: "dir_rep (fs, d) (m, lc)" and k: "i_inid node < 4294967296" and n: "name \<noteq> []" "m name = None"
  shows "conforms_to (DirRename node name) (fs, d) (m, lc)"
proof (cases "length name \<le> kSFSMaxFilenameLength")
  case False
  then have "SerenaFS_rename fs node d name = Some (ENAMETOOLONG, d, fs)" by (simp add: SerenaFS_rename_def)
  then show ?thesis using r False by (intro conformsI) auto
next
  case True
  note R = dir_repD [OF r]
  have new: "\<not> (\<exists>x. (x, name) \<in> entries fs d)" using mapsD(1) [OF R(5)] n(2) by simp
  from R(1,2) k n(1) True new show ?thesis
  proof (cases rule: rename_spec)
    case (missing d' fs')
    have "i_inid node \<notin> ran m" using missing(3) mapsD(2) [OF R(5)] by simp
    then show ?thesis using missing(1) dir_rep_keeps [OF r missing(2)] True by (intro conformsI) auto
  next
    case (renamed d' fs' nm)
    have m: "m nm = Some (i_inid node)" "i_inid node \<in> ran m" using renamed(3) mapsD(3) [OF R(5)] by (auto simp: ran_def)
    have nn: "(m(nm := None)) name = None" using n(2) by simp
    have mp: "maps (entries fs' d') ((m(nm := None))(name \<mapsto> i_inid node))"
      unfolding renamed(4) by (rule maps_insert [OF maps_remove [OF R(5) m(1)] nn])
    have rep: "dir_rep (fs', d') ((m(nm := None))(name \<mapsto> i_inid node), lc)"
      by (rule dir_repI [OF renamed(2,6) _ R(4) mp]) (use renamed(5) R(3) in simp)
    have "dir_allowed (DirRename node name) (EOK, 0) (m, lc) ((m(nm := None))(name \<mapsto> i_inid node), lc)" using True m by auto
    then show ?thesis by (rule conformsI [OF _ _ rep, rotated 1]) (use renamed(1) in simp)
  qed
qed

lemma parent_conforms:
  assumes r: "dir_rep (fs, d) (m, lc)" and k: "0 < pnid" "pnid < 4294967296"
  shows "conforms_to (DirSetParent pnid) (fs, d) (m, lc)"
  using dir_repD(1,2) [OF r] k
proof (cases rule: parent_spec)
  case (missing d' fs')
  have "m kPathComponent_Parent = None" using missing(3) mapsD(1) [OF dir_repD(5) [OF r]] by blast
  then show ?thesis using missing(1) dir_rep_keeps [OF r missing(2)] by (intro conformsI) auto
next
  case (changed d' fs' x)
  note R = dir_repD [OF r]
  have m: "m kPathComponent_Parent = Some x" using changed(3) mapsD(3) [OF R(5)] by simp
  have nn: "(m(kPathComponent_Parent := None)) kPathComponent_Parent = None" by simp
  have mp: "maps (entries fs' d') ((m(kPathComponent_Parent := None))(kPathComponent_Parent \<mapsto> pnid))"
    unfolding changed(4) by (rule maps_insert [OF maps_remove [OF R(5) m] nn])
  have rep: "dir_rep (fs', d') (m(kPathComponent_Parent \<mapsto> pnid), lc)"
    by (rule dir_repI [OF changed(2,6) _ R(4)]) (use changed(5) R(3) mp in simp_all)
  have "dir_allowed (DirSetParent pnid) (EOK, 0) (m, lc) (m(kPathComponent_Parent \<mapsto> pnid), lc)" using m by simp
  then show ?thesis by (rule conformsI [OF _ _ rep, rotated 1]) (use changed(1) in simp)
qed

interpretation dirmap: relational_refinement dir_rep dir_exec dir_pre dir_allowed dir_hazard
proof
  fix c a x assume r: "dir_rep c a" and p: "dir_pre x a" and hz: "\<not> dir_hazard x c"
  obtain fs d m lc where ca: "c = (fs, d)" "a = (m, lc)" by (metis surj_pair)
  note r = r [unfolded ca]
  show "conforms_to x c a"
  proof (cases x)
    case (DirLookup name)
    show ?thesis unfolding ca DirLookup by (rule lookup_conforms [OF r])
  next
    case (DirLink name node u)
    show ?thesis unfolding ca DirLink by (rule link_conforms [OF r]) (use p hz DirLink ca in simp_all)
  next
    case (DirUnlink node)
    show ?thesis unfolding ca DirUnlink by (rule unlink_conforms [OF r]) (use p DirUnlink ca in simp_all)
  next
    case (DirRename node name)
    show ?thesis unfolding ca DirRename by (rule rename_conforms [OF r]) (use p DirRename ca in simp_all)
  next
    case (DirSetParent pnid)
    show ?thesis unfolding ca DirSetParent by (rule parent_conforms [OF r]) (use p DirSetParent in simp_all)
  qed
qed

subsection \<open>The property\<close>

definition demo_dir :: Inode where
  "demo_dir = (demo_file 2)\<lparr>i_fileType := FS_FTYPE_DIR\<rparr>"

lemma demo_dir_rep: "dir_rep (demo_fs, demo_dir) (Map.empty, 1)"
proof -
  have sb: "same_blocks (demo_file 2) demo_dir" by (simp add: same_blocks_def demo_dir_def)
  have i: "idle demo_fs demo_dir" by (rule same_blocks_idle [OF sb demo_inv(1)])
  have z: "i_size demo_dir = 0" "i_linkCount demo_dir = 1" by (simp_all add: demo_dir_def demo_file_def)
  have l: "dlen demo_dir = 0" using z(1) by (simp add: dlen_def)
  have "dir_inv demo_fs demo_dir" using i z(1) l by (simp add: dir_inv_def dir_ok_def names_unique_def)
  then show ?thesis by (rule dir_repI) (use demo_size(2) z l in \<open>simp_all add: maps_def entries_def\<close>)
qed

text \<open>
  C6. A directory is a partial map from names to inode ids. Every sequence of lookups, links, unlinks, renames and changes of the parent
  entry that meets the conditions of the file manager (no empty names, inode ids of 32 bits, the new name of a rename is not bound, the
  link count covers the subdirectories) keeps the directory well formed with unique names and returns what the map says: the error
  code of every branch, the id of a name that is bound, and a map that changes in exactly the entry concerned. A link fails only when the
  volume or the directory is full. There are no I/O errors. The run completes unless it gets to a link that takes the slot of a removed
  entry while the field that the code does not initialize is set, or to a link that needs a new indirect block while the
  cache may give up clean blocks; it is followed up to there. An unlink goes by the link count of a directory, so that it also removes the
  entry of a directory that still holds files, against the comment at \<open>SerenaFS_unlink\<close>.
\<close>

theorem directory_refines_map:
  assumes "dir_rep c a" "run_demands dir_pre dir_allowed xs a"
  shows "\<exists>ys zs rs c' a'. xs = ys @ zs \<and> run_ops dir_exec ys c = Some (rs, c') \<and> run_allowed dir_allowed ys rs a a' \<and> dir_rep c' a' \<and>
    (zs = [] \<or> dir_hazard (hd zs) c')"
  using assms by (rule dirmap.run_conforms)

theorem directory_refines_map_witness:
  "\<exists>rs c' a'. run_ops dir_exec [DirLink [97] (demo_file 3) True, DirLookup [97], DirRename (demo_file 3) [98], DirUnlink (demo_file 3)]
       (demo_fs, demo_dir) = Some (rs, c') \<and>
     run_allowed dir_allowed [DirLink [97] (demo_file 3) True, DirLookup [97], DirRename (demo_file 3) [98], DirUnlink (demo_file 3)] rs
       (Map.empty, 1) a'"
proof -
  let ?xs = "[DirLink [97] (demo_file 3) True, DirLookup [97], DirRename (demo_file 3) [98], DirUnlink (demo_file 3)]"
  have f: "i_inid (demo_file 3) = 3" "\<not> Inode_IsDirectory (demo_file 3)" by (simp_all add: demo_file_def Inode_IsDirectory_def)
  have fresh: "fst a2 [98] = None" if "dir_allowed (DirLink [97] (demo_file 3) True) r (Map.empty, 1) a1" "dir_allowed (DirLookup [97]) r1 a1 a2"
    for r r1 a1 a2 using that f by (cases r; cases r1; cases a1) auto
  have "run_demands dir_pre dir_allowed ?xs (Map.empty, 1)" using f fresh by simp
  from directory_refines_map [OF demo_dir_rep this] obtain ys zs rs c' a' where
    x: "?xs = ys @ zs" "run_ops dir_exec ys (demo_fs, demo_dir) = Some (rs, c')" "run_allowed dir_allowed ys rs (Map.empty, 1) a'"
      "zs = [] \<or> dir_hazard (hd zs) c'" by blast
  have "\<not> dir_hazard (DirLink [97] (demo_file 3) True) (demo_fs, demo_dir)"
    by (simp add: has_hole_def dlen_def demo_dir_def demo_file_def reachable_def calm_def demo_size(5))
  then have "zs = []" using x(1,2,4) by (cases ys) (auto simp: Cons_eq_append_conv)
  then have "ys = ?xs" using x(1) by simp
  then show ?thesis using x(2,3) by blast
qed

end
