(* ===== verification/SfsMount.thy ===== *)
theory SfsMount
  imports SfsVolume SfsProps
begin

section \<open>Stopping and starting a volume\<close>

text \<open>
  A volume that is stopped and started again is the same volume: the blocks in use, the files and their bytes are kept.
\<close>

subsection \<open>The block shift\<close>

lemma log2_loop_pow2: "j \<le> s \<Longrightarrow> s \<le> 31 \<Longrightarrow> log2_loop (2 ^ s) (2 ^ j) b = Some (b + of_nat (s - j))"
proof (induction "s - j" arbitrary: j b)
  case 0
  then have "j = s" by simp
  then show ?case by (subst log2_loop.simps) simp
next
  case (Suc n)
  then have j: "j < s" "n = s - Suc j" "Suc j \<le> s" by simp_all
  have "unat ((2 :: u32) ^ s) = 2 ^ s" using Suc.prems by (simp add: unat_pow2_u32)
  then have lt: "(2 :: u32) ^ j < 2 ^ s" using j Suc.prems by (simp add: pow2_less_u32)
  have "log2_loop (2 ^ s) (2 ^ j) b = log2_loop (2 ^ s) (2 ^ Suc j) (b + 1)"
    using lt by (subst log2_loop.simps) (simp add: push_bit_eq_mult mult.commute)
  also have "\<dots> = Some (b + 1 + of_nat (s - Suc j))" using Suc.hyps(1) [OF j(2,3) Suc.prems(2)] .
  also have "b + 1 + of_nat (s - Suc j) = b + of_nat (s - j)"
  proof -
    have "s - j = Suc (s - Suc j)" using j(1) by simp
    then show ?thesis by simp
  qed
  finally show ?case .
qed

lemma log2_pow2: "s \<le> 31 \<Longrightarrow> log2_ul (of_nat (2 ^ s)) = Some (of_nat s)"
  using log2_loop_pow2 [of 0 s 0] by (simp add: log2_ul_def)

subsection \<open>Stop and start\<close>

text \<open>The header block describes the volume, and the bitmap on the disk is up to date or marked for writing.\<close>

definition volume_header :: "SerenaFS \<Rightarrow> sfs_vol_header \<Rightarrow> bool" where
  "volume_header fs vh \<longleftrightarrow> vol_header_at (c_data (fs_cont fs) 0) = Some vh \<and> 4 \<le> c_blockCount (fs_cont fs)
   \<and> v_signature vh = kSFSSignature_SerenaFS \<and> v_version vh = kSFSVersion_v0_1 \<and> v_volBlockSize vh = fs_blockSize fs
   \<and> v_lbaAllocBitmap vh = a_bitmapLba (fs_alloc fs) \<and> v_allocBitmapByteSize vh = a_bitmapByteSize (fs_alloc fs)
   \<and> v_volBlockCount vh = a_volumeBlockCount (fs_alloc fs) \<and> 4 \<le> v_volBlockCount vh"

definition bitmap_synced :: "SerenaFS \<Rightarrow> bool" where
  "bitmap_synced fs \<longleftrightarrow> bm_bit (a_dirty (fs_alloc fs)) 0
   \<or> take (a_bitmapByteSize (fs_alloc fs)) (c_data (fs_cont fs) (a_bitmapLba (fs_alloc fs))) = a_bitmap (fs_alloc fs)"

lemma stop_spec:
  assumes ok: "fs_ok fs" and l: "c_locked (fs_cont fs) = {}" and fl: "c_faults (fs_cont fs) = []" and sy: "bitmap_synced fs"
  obtains a c where "SerenaFS_onStop fs = Some (EOK, fs\<lparr>fs_alloc := a, fs_cont := c\<rparr>)" "cont_ok c" "cont_geom (fs_cont fs) c" "c_locked c = {}"
    "take (a_bitmapByteSize (fs_alloc fs)) (c_data c (a_bitmapLba (fs_alloc fs))) = a_bitmap (fs_alloc fs)"
    "\<forall>l. l \<noteq> a_bitmapLba (fs_alloc fs) \<longrightarrow> c_data c l = c_data (fs_cont fs) l"
proof -
  let ?a = "fs_alloc fs" and ?c = "fs_cont fs"
  note D = fs_okD [OF ok]
  have al: "a_bitmapLba ?a \<notin> c_locked ?c" "c_blockSize ?c = a_blockSize ?a" using l D(4,5) by simp_all
  obtain e a1 c1 where w: "SfsAllocator_CommitToDisk ?a ?c = Some (e, a1, c1)" "cont_ok c1" "cont_geom ?c c1" "c_locked c1 = c_locked ?c"
    "c_faults ?c = [] \<longrightarrow> e = EOK" "bm_bit (a_dirty ?a) 0 \<longrightarrow> e = EOK \<longrightarrow> c_data c1 = (c_data ?c)(a_bitmapLba ?a := bitmap_image ?a)"
    "\<not> bm_bit (a_dirty ?a) 0 \<longrightarrow> c_data c1 = c_data ?c" by (rule commit_spec [OF D(1-3) al(2,1)])
  have e: "e = EOK" using w(5) fl by simp
  have len: "length (a_bitmap ?a) = a_bitmapByteSize ?a" using D(1) by (simp add: alloc_ok_def)
  have bm: "take (a_bitmapByteSize ?a) (c_data c1 (a_bitmapLba ?a)) = a_bitmap ?a"
    using w(6,7) e len sy by (cases "bm_bit (a_dirty ?a) 0") (simp_all add: bitmap_image_def bitmap_synced_def)
  have oth: "\<forall>l. l \<noteq> a_bitmapLba ?a \<longrightarrow> c_data c1 l = c_data ?c l" using w(6,7) e by (cases "bm_bit (a_dirty ?a) 0") simp_all
  have "SerenaFS_onStop fs = Some (EOK, fs\<lparr>fs_alloc := SfsAllocator_Stop a1, fs_cont := c1\<rparr>)"
    using w(1) by (simp add: SerenaFS_onStop_def commit_def)
  then show ?thesis using that w(2-4) bm oth l by metis
qed

lemma mount_spec:
  assumes c: "cont_ok (fs_cont fs)" "c_faults (fs_cont fs) = []" "c_locked (fs_cont fs) = {}" "4 \<le> c_blockCount (fs_cont fs)"
    and B: "c_blockSize (fs_cont fs) = 2 ^ s" "2 ^ s \<le> (65535 :: nat)" and k: "\<And>n. kalloc n = EOK"
    and v: "vol_header_at (c_data (fs_cont fs) 0) = Some vh" "v_signature vh = kSFSSignature_SerenaFS" "v_version vh = kSFSVersion_v0_1"
      "v_volBlockSize vh = 2 ^ s" "0 < v_allocBitmapByteSize vh" "v_allocBitmapByteSize vh \<le> 2 ^ s" "4 \<le> v_volBlockCount vh"
      "v_volBlockCount vh \<le> 8 * v_allocBitmapByteSize vh" "v_volBlockCount vh < 4294967296" "v_lbaAllocBitmap vh \<noteq> 0"
  obtains a' where "SerenaFS_onStart kalloc fs props = Some (EOK,
        props\<lparr>p_rootDirectoryId := v_lbaRootDir vh, p_isReadOnly := c_readOnly (fs_cont fs) \<or> v_attributes vh mod 2 = 1\<rparr>,
        fs\<lparr>fs_alloc := a', fs_cont := (fs_cont fs)\<lparr>c_evicts := tl (tl (c_evicts (fs_cont fs)))\<rparr>, fs_blockSize := 2 ^ s, fs_blockShift := s,
           fs_blockMask := 2 ^ s - 1, fs_indirectBlockEntryCount := 2 ^ s div 4, fs_isAccessUpdateOnReadEnabled := False\<rparr>)"
    "alloc_ok a'" "one_bitmap_block a'" "a_bitmap a' = take (v_allocBitmapByteSize vh) (c_data (fs_cont fs) (v_lbaAllocBitmap vh))"
    "a_bitmapLba a' = v_lbaAllocBitmap vh" "a_blockSize a' = 2 ^ s" "a_volumeBlockCount a' = v_volBlockCount vh"
proof -
  let ?c = "fs_cont fs" and ?blk = "\<lparr>b_token = Some 0, b_data = c_data (fs_cont fs) 0\<rparr>"
  define c1 where "c1 = ?c\<lparr>c_locked := {0}\<rparr>"
  let ?c1 = "c1\<lparr>c_evicts := tl (c_evicts c1)\<rparr>" and ?c2 = "?c\<lparr>c_evicts := tl (tl (c_evicts ?c))\<rparr>"
  define fs1 where "fs1 = fs\<lparr>fs_isAccessUpdateOnReadEnabled := True, fs_cont := c1\<rparr>"
  have map: "FSContainer_MapBlock ?c 0 kMapBlock_ReadOnly = Some (EOK, ?blk, c1)"
    using c(2,3) by (cases "fs_cont fs") (simp add: FSContainer_MapBlock_def next_fault_def mapped_bytes_def Let_def c1_def)
  have c1: "cont_ok c1" "c_blockSize c1 = 2 ^ s" "c_faults c1 = []" "v_lbaAllocBitmap vh \<notin> c_locked c1" "c_data c1 = c_data ?c"
    "c_readOnly c1 = c_readOnly ?c" using c B v(10) by (simp_all add: c1_def cont_ok_def)
  obtain a' where a: "SfsAllocator_Start kalloc (fs_alloc fs) c1 vh (2 ^ s) = Some (EOK, a', ?c1)" "alloc_ok a'" "one_bitmap_block a'"
    "a_bitmap a' = take (v_allocBitmapByteSize vh) (c_data c1 (v_lbaAllocBitmap vh))"
    "a_bitmapLba a' = v_lbaAllocBitmap vh" "a_blockSize a' = 2 ^ s" "a_volumeBlockCount a' = v_volBlockCount vh"
    by (rule start_spec [OF c1(1-4) k v(5-9)])
  have s: "s \<le> 31"
  proof (rule ccontr)
    assume "\<not> s \<le> 31"
    then have "(2 :: nat) ^ 16 \<le> 2 ^ s" by (intro power_increasing) simp_all
    then show False using B(2) by simp
  qed
  have lg: "log2_ul (of_nat (2 ^ s)) = Some (of_nat s)" by (rule log2_pow2 [OF s])
  have us: "unat (of_nat s :: u32) = s" using s by (intro unat_of_nat_u32) simp
  let ?props = "props\<lparr>p_rootDirectoryId := v_lbaRootDir vh, p_isReadOnly := c_readOnly ?c \<or> v_attributes vh mod 2 = 1\<rparr>"
  let ?fs2 = "fs1\<lparr>fs_alloc := a', fs_cont := ?c1, fs_blockSize := 2 ^ s, fs_blockShift := s, fs_blockMask := 2 ^ s - 1,
    fs_indirectBlockEntryCount := 2 ^ s div 4, fs_isAccessUpdateOnReadEnabled := False\<rparr>"
  have st: "start_volume kalloc fs1 props vh = Some (EOK, ?props, ?fs2)"
    using v(2-4) k a(1) lg us c1(2,6) unfolding start_volume_def Let_def fs1_def by simp
  have "cont_ok (?c\<lparr>c_evicts := tl (c_evicts ?c)\<rparr>)" using c(1) by (auto simp: cont_ok_def)
  from read_unmapped [OF this, of 0 "[]"] c(2,3) have "unmapped ?c1 0 kWriteBlock_None (c_data ?c 0) = ?c2"
    by (cases "fs_cont fs") (simp add: c1_def)
  then have un: "FSContainer_UnmapBlock ?c1 ?blk kWriteBlock_None = Some (EOK, ?c2)"
    by (simp add: FSContainer_UnmapBlock_def c1_def)
  have "SerenaFS_onStart kalloc fs props = Some (EOK, ?props, ?fs2\<lparr>fs_cont := ?c2\<rparr>)"
    using c(4) B map v(1) st un unfolding SerenaFS_onStart_def fs1_def by (simp add: Let_def)
  also have "?fs2\<lparr>fs_cont := ?c2\<rparr> = fs\<lparr>fs_alloc := a', fs_cont := ?c2, fs_blockSize := 2 ^ s, fs_blockShift := s, fs_blockMask := 2 ^ s - 1,
      fs_indirectBlockEntryCount := 2 ^ s div 4, fs_isAccessUpdateOnReadEnabled := False\<rparr>" by (simp add: fs1_def)
  finally show ?thesis using that a c1(5) by simp
qed

lemma idle_flag: "idle (fs\<lparr>fs_isAccessUpdateOnReadEnabled := b\<rparr>) f = idle fs f" "fbyte (fs\<lparr>fs_isAccessUpdateOnReadEnabled := b\<rparr>) f k = fbyte fs f k"
proof -
  have p: "fptr (fs\<lparr>fs_isAccessUpdateOnReadEnabled := b\<rparr>) f = fptr fs f" by (simp add: fptr_def fun_eq_iff)
  show "fbyte (fs\<lparr>fs_isAccessUpdateOnReadEnabled := b\<rparr>) f k = fbyte fs f k" using p by (simp add: fbyte_def fblock_def)
  show "idle (fs\<lparr>fs_isAccessUpdateOnReadEnabled := b\<rparr>) f = idle fs f"
    using p by (simp add: idle_def fs_ok_def file_ok_def fs_used_def n_blocks_def)
qed

text \<open>A volume whose allocator and container have been exchanged for equivalent ones.\<close>

lemma exchanged_volume:
  assumes ok: "fs_ok fs" and l: "c_locked c = {}" and a: "alloc_ok a" "same_geom (fs_alloc fs) a" "used a = used (fs_alloc fs)"
    and c: "cont_ok c" "cont_geom (fs_cont fs) c" "\<forall>l. l \<noteq> a_bitmapLba (fs_alloc fs) \<longrightarrow> c_data c l = c_data (fs_cont fs) l"
    and fs2: "fs2 = fs\<lparr>fs_alloc := a, fs_cont := c, fs_isAccessUpdateOnReadEnabled := b\<rparr>"
  shows "fs_ok fs2" "fs_used fs2 = fs_used fs" "\<forall>f. idle fs f \<longrightarrow> idle fs2 f \<and> (\<forall>k < capacity fs. fbyte fs2 f k = fbyte fs f k)"
proof -
  define fs1 where "fs1 = fs\<lparr>fs_alloc := a, fs_cont := c\<rparr>"
  have g: "fs_geom fs fs1" using a(2) c(2) by (simp add: fs_geom_def fs1_def)
  have u: "fs_used fs1 = fs_used fs" using a(3) by (simp add: fs_used_def fs1_def)
  have ok1: "fs_ok fs1" by (rule fs_ok_step [OF ok g]) (use a(1) c(1) l u fs_okD(7) [OF ok] in \<open>simp_all add: fs1_def\<close>)
  have e: "fs2 = fs1\<lparr>fs_isAccessUpdateOnReadEnabled := b\<rparr>" by (simp add: fs2 fs1_def)
  show "fs_ok fs2" using ok1 unfolding e by (simp add: fs_ok_def fs_used_def)
  show "fs_used fs2 = fs_used fs" using u unfolding e by (simp add: fs_used_def)
  have "idle fs2 f \<and> (\<forall>k < capacity fs. fbyte fs2 f k = fbyte fs f k)" if i: "idle fs f" for f
  proof -
    have ap: "apart fs f {a_bitmapLba (fs_alloc fs)} fs1"
      by (rule apart_intro [OF i ok1 g u]) (use l c(3) fs_okD(10) [OF ok] own_disjoint(1) [OF idleD(2) [OF i]] in \<open>simp_all add: fs1_def\<close>)
    show ?thesis unfolding e idle_flag using apartD(3) [OF ap] apart_fbyte [OF ap] by blast
  qed
  then show "\<forall>f. idle fs f \<longrightarrow> idle fs2 f \<and> (\<forall>k < capacity fs. fbyte fs2 f k = fbyte fs f k)" by blast
qed

lemma remount_volume:
  assumes ok: "fs_ok fs" and l: "c_locked (fs_cont fs) = {}" and fl: "c_faults (fs_cont fs) = []" and sy: "bitmap_synced fs"
    and h: "volume_header fs vh" and k: "\<And>n. kalloc n = EOK"
  obtains fs1 fs2 where "SerenaFS_onStop fs = Some (EOK, fs1)"
    "SerenaFS_onStart kalloc fs1 props = Some (EOK,
       props\<lparr>p_rootDirectoryId := v_lbaRootDir vh, p_isReadOnly := c_readOnly (fs_cont fs) \<or> v_attributes vh mod 2 = 1\<rparr>, fs2)"
    "fs_ok fs2" "fs_used fs2 = fs_used fs" "\<forall>f. idle fs f \<longrightarrow> idle fs2 f \<and> (\<forall>k < capacity fs. fbyte fs2 f k = fbyte fs f k)"
proof -
  define s where "s = fs_blockShift fs"
  have B: "fs_blockSize fs = 2 ^ s" "fs_blockMask fs = 2 ^ s - 1" "fs_indirectBlockEntryCount fs = 2 ^ s div 4" "2 ^ s \<le> (65535 :: nat)"
    using ok by (simp_all add: fs_ok_def s_def)
  note D = fs_okD [OF ok]
  have A: "length (a_bitmap (fs_alloc fs)) = a_bitmapByteSize (fs_alloc fs)" "a_volumeBlockCount (fs_alloc fs) < 4294967296"
    "a_volumeBlockCount (fs_alloc fs) \<le> 8 * a_bitmapByteSize (fs_alloc fs)" "0 < a_bitmapByteSize (fs_alloc fs)" "a_bitmapByteSize (fs_alloc fs) \<le> 2 ^ s"
    using D(1,2,5) B(1) by (simp_all add: alloc_ok_def one_bitmap_block_def)
  obtain a c where st: "SerenaFS_onStop fs = Some (EOK, fs\<lparr>fs_alloc := a, fs_cont := c\<rparr>)" "cont_ok c" "cont_geom (fs_cont fs) c" "c_locked c = {}"
    "take (a_bitmapByteSize (fs_alloc fs)) (c_data c (a_bitmapLba (fs_alloc fs))) = a_bitmap (fs_alloc fs)"
    "\<forall>l. l \<noteq> a_bitmapLba (fs_alloc fs) \<longrightarrow> c_data c l = c_data (fs_cont fs) l" by (rule stop_spec [OF ok l fl sy])
  define fs1 where "fs1 = fs\<lparr>fs_alloc := a, fs_cont := c\<rparr>"
  have f1: "fs_cont fs1 = c" by (simp add: fs1_def)
  let ?c2 = "c\<lparr>c_evicts := tl (tl (c_evicts c))\<rparr>"
  have c2: "cont_ok ?c2" "cont_geom (fs_cont fs) ?c2" "c_locked ?c2 = {}" using st(2-4) by (auto simp: cont_ok_def cont_geom_def)
  have cg: "c_faults c = []" "c_blockCount c = c_blockCount (fs_cont fs)" "c_blockSize c = 2 ^ s" "c_readOnly c = c_readOnly (fs_cont fs)"
    using st(3) fl D(4) B(1) by (simp_all add: cont_geom_def)
  have c0: "c_data c 0 = c_data (fs_cont fs) 0" using st(6) D(10) by metis
  have H: "vol_header_at (c_data c 0) = Some vh" "4 \<le> c_blockCount c" "v_signature vh = kSFSSignature_SerenaFS" "v_version vh = kSFSVersion_v0_1"
    "v_volBlockSize vh = 2 ^ s" "v_lbaAllocBitmap vh = a_bitmapLba (fs_alloc fs)" "v_allocBitmapByteSize vh = a_bitmapByteSize (fs_alloc fs)"
    "v_volBlockCount vh = a_volumeBlockCount (fs_alloc fs)" "4 \<le> v_volBlockCount vh"
    using h c0 cg(2) B(1) by (simp_all add: volume_header_def)
  obtain a' where m: "SerenaFS_onStart kalloc fs1 props = Some (EOK,
        props\<lparr>p_rootDirectoryId := v_lbaRootDir vh, p_isReadOnly := c_readOnly (fs_cont fs1) \<or> v_attributes vh mod 2 = 1\<rparr>,
        fs1\<lparr>fs_alloc := a', fs_cont := (fs_cont fs1)\<lparr>c_evicts := tl (tl (c_evicts (fs_cont fs1)))\<rparr>, fs_blockSize := 2 ^ s, fs_blockShift := s, fs_blockMask := 2 ^ s - 1, fs_indirectBlockEntryCount := 2 ^ s div 4,
           fs_isAccessUpdateOnReadEnabled := False\<rparr>)"
    "alloc_ok a'" "one_bitmap_block a'" "a_bitmap a' = take (v_allocBitmapByteSize vh) (c_data (fs_cont fs1) (v_lbaAllocBitmap vh))"
    "a_bitmapLba a' = v_lbaAllocBitmap vh" "a_blockSize a' = 2 ^ s" "a_volumeBlockCount a' = v_volBlockCount vh"
    by (rule mount_spec [of fs1 s kalloc vh props, unfolded f1, OF st(2) cg(1) st(4) H(2) cg(3) B(4) k H(1,3-5)])
      (unfold H(6-8), use A H(8,9) D(10) f1 in simp_all)
  have bm: "a_bitmap a' = a_bitmap (fs_alloc fs)" using m(4) st(5) H(6,7) f1 by simp
  have sg: "same_geom (fs_alloc fs) a'"
    using m(2,5-7) A(1) bm H(6,8) B(1) D(1,5) by (simp add: same_geom_def alloc_ok_def)
  have us: "used a' = used (fs_alloc fs)" using bm m(7) H(8) by (simp add: used_def)
  have e: "fs1\<lparr>fs_alloc := a', fs_cont := ?c2, fs_blockSize := 2 ^ s, fs_blockShift := s, fs_blockMask := 2 ^ s - 1, fs_indirectBlockEntryCount := 2 ^ s div 4,
      fs_isAccessUpdateOnReadEnabled := False\<rparr> = fs\<lparr>fs_alloc := a', fs_cont := ?c2, fs_isAccessUpdateOnReadEnabled := False\<rparr>"
    using B(1-3) s_def by (cases fs) (simp add: fs1_def)
  show ?thesis
    by (rule that [OF st(1) m(1) [unfolded f1 cg(4) e, unfolded fs1_def] exchanged_volume [OF ok c2(3) m(2) sg us c2(1,2) _ refl]])
      (use st(6) in simp_all)
qed

subsection \<open>The property\<close>

definition demo_header :: "u8 list" where
  "demo_header = be32_put kSFSSignature_SerenaFS @ be32_put kSFSVersion_v0_1 @ zeros 4 @ zeros 16 @ be32_put 512 @ be32_put 16 @ be32_put 2
     @ be32_put 2 @ be32_put 1 @ zeros 464"

definition demo_vh :: sfs_vol_header where
  "demo_vh = \<lparr>v_signature = kSFSSignature_SerenaFS, v_version = kSFSVersion_v0_1, v_attributes = 0, v_volBlockSize = 512, v_volBlockCount = 16,
     v_allocBitmapByteSize = 2, v_lbaRootDir = 2, v_lbaAllocBitmap = 1, v_labelLength = 0, v_label = zeros 48\<rparr>"

definition demo_vol :: SerenaFS where
  "demo_vol = demo_fs\<lparr>fs_alloc := demo_alloc\<lparr>a_dirty := [128]\<rparr>, fs_cont := demo_cont\<lparr>c_data := (\<lambda>_. zeros 512)(0 := demo_header)\<rparr>\<rparr>"

lemma demo_header_at: "vol_header_at demo_header = Some demo_vh"
  unfolding vol_header_at_def demo_header_def demo_vh_def
  by (simp add: be_at_here be_at_skip be_at_zeros be32_roundtrip be_val_zeros get_bytes_in) (simp add: zeros_def)

lemma demo_header_length: "length demo_header = 512"
  by (simp add: demo_header_def)

lemma demo_vol:
  "fs_ok demo_vol" "c_locked (fs_cont demo_vol) = {}" "c_faults (fs_cont demo_vol) = []" "bitmap_synced demo_vol" "volume_header demo_vol demo_vh"
proof -
  have u: "used (demo_alloc\<lparr>a_dirty := [128]\<rparr>) = {0, 1, 2, 3}" using demo_used by (simp add: used_def)
  have a: "alloc_ok (demo_alloc\<lparr>a_dirty := [128]\<rparr>)" "one_bitmap_block (demo_alloc\<lparr>a_dirty := [128]\<rparr>)"
    by (simp_all add: alloc_ok_def one_bitmap_block_def demo_alloc_def)
  show "fs_ok demo_vol"
    using u a demo_header_length by (simp add: fs_ok_def demo_vol_def demo_fs_def demo_cont_def cont_ok_def fs_used_def) (simp add: demo_alloc_def)
  have "bm_bit [128] 0" by code_simp
  then show "bitmap_synced demo_vol" by (simp add: bitmap_synced_def demo_vol_def)
  show "volume_header demo_vol demo_vh"
    using demo_header_at by (simp add: volume_header_def demo_vol_def demo_fs_def demo_cont_def demo_alloc_def) (simp add: demo_vh_def)
qed (simp_all add: demo_vol_def demo_cont_def)

text \<open>
  C25. A volume survives being stopped and started again: when its header block describes it, the bitmap is on the disk or marked for
  writing, and there is neither an I/O error nor a shortage of memory, stopping and starting succeed, the root directory and the
  write protection are those of the header, the blocks in use are the same, and every file that was valid is valid and has the same bytes.
\<close>

theorem volume_remount:
  assumes "fs_ok fs" "c_locked (fs_cont fs) = {}" "c_faults (fs_cont fs) = []" "bitmap_synced fs" "volume_header fs vh" "\<And>n. kalloc n = EOK"
  shows "\<exists>fs1 fs2. SerenaFS_onStop fs = Some (EOK, fs1) \<and>
    SerenaFS_onStart kalloc fs1 props = Some (EOK,
      props\<lparr>p_rootDirectoryId := v_lbaRootDir vh, p_isReadOnly := c_readOnly (fs_cont fs) \<or> v_attributes vh mod 2 = 1\<rparr>, fs2) \<and>
    fs_ok fs2 \<and> fs_used fs2 = fs_used fs \<and> (\<forall>f. idle fs f \<longrightarrow> idle fs2 f \<and> (\<forall>k < capacity fs. fbyte fs2 f k = fbyte fs f k))"
proof (rule remount_volume [OF assms(1-5), where kalloc = kalloc and props = props])
  show "kalloc n = EOK" for n using assms(6) .
qed blast

theorem volume_remount_witness:
  "\<exists>fs1 fs2. SerenaFS_onStop demo_vol = Some (EOK, fs1) \<and>
     SerenaFS_onStart (\<lambda>_. EOK) fs1 \<lparr>p_rootDirectoryId = 0, p_isReadOnly = True\<rparr> =
       Some (EOK, \<lparr>p_rootDirectoryId = 2, p_isReadOnly = False\<rparr>, fs2) \<and> fs_used fs2 = {0, 1, 2, 3}"
proof -
  have u: "fs_used demo_vol = {0, 1, 2, 3}" using demo_used by (simp add: fs_used_def demo_vol_def used_def)
  have r: "c_readOnly (fs_cont demo_vol) = False" "v_lbaRootDir demo_vh = 2" "v_attributes demo_vh = 0"
    by (simp_all add: demo_vol_def demo_cont_def demo_vh_def)
  show ?thesis
    using volume_remount [OF demo_vol refl, where props = "\<lparr>p_rootDirectoryId = 0, p_isReadOnly = True\<rparr>"]
    unfolding u r by auto
qed

end
