(* ===== verification/FsCache.thy ===== *)
theory FsCache
  imports SfsFile
begin

section \<open>The inode cache of a filesystem\<close>

text \<open>
  \<open>filesystem/Filesystem.c\<close>: inodes in memory are shared. A hash table holds the inodes that are in use with the number of their
  users; a second one holds the ids of the inodes that are being read from the disk, so that a second user of such an inode waits for it. The lock \<open>inLock\<close> of the
  table is dropped while an inode is read or written back, and while a user waits. A call is therefore split
  at these points into segments, each of which runs under the lock.

  Inodes are known by their addresses, which are keys of \<open>heap\<close>; an address that is not in the heap has been freed, and using it is
  a fault. New inodes get the address \<open>next_ref\<close>. The chains of the hash tables are lists (see theory \<open>Deque\<close>); an entry of the table of reads is represented by
  its id.
\<close>

subsection \<open>State\<close>

datatype InodeState = kInodeState_Reading | kInodeState_Cached | kInodeState_Writeback | kInodeState_Deleting

datatype FilesystemState = kFilesystemState_Idle | kFilesystemState_Active | kFilesystemState_Stopped

record Node =
  n_inode :: Inode
  n_useCount :: int
  n_state :: InodeState

record Filesystem =
  inCached :: "nat list list"
  inCachedCount :: nat
  inReading :: "nat list list"
  inReadingCount :: nat
  inReadingWaiterCount :: nat
  inReadingCache :: "nat list"
  inReadingCacheCount :: nat
  rootDirectoryId :: nat
  fsState :: FilesystemState
  fsIsReadOnly :: bool
  heap :: "nat \<Rightarrow> Node option"
  next_ref :: nat

abbreviation (input) IN_CACHED_HASH_CHAINS_COUNT :: nat where "IN_CACHED_HASH_CHAINS_COUNT \<equiv> 16"
abbreviation (input) IN_READING_HASH_CHAINS_COUNT :: nat where "IN_READING_HASH_CHAINS_COUNT \<equiv> 4"
abbreviation (input) MAX_CACHED_RDNODES :: nat where "MAX_CACHED_RDNODES \<equiv> 4"

definition hash_djb2_scalar :: "nat \<Rightarrow> nat" where
  "hash_djb2_scalar val = (4521 + val) mod 4294967296"

text \<open>The masks of the hash indices are one less than a power of two.\<close>

definition IN_CACHED_HASH_INDEX :: "nat \<Rightarrow> nat" where
  "IN_CACHED_HASH_INDEX inid = hash_djb2_scalar inid mod IN_CACHED_HASH_CHAINS_COUNT"

definition IN_READING_HASH_INDEX :: "nat \<Rightarrow> nat" where
  "IN_READING_HASH_INDEX inid = hash_djb2_scalar inid mod IN_READING_HASH_CHAINS_COUNT"

definition Filesystem_Create :: "nat \<Rightarrow> Filesystem" where
  "Filesystem_Create first =
     \<lparr>inCached = replicate IN_CACHED_HASH_CHAINS_COUNT [], inCachedCount = 0, inReading = replicate IN_READING_HASH_CHAINS_COUNT [],
      inReadingCount = 0, inReadingWaiterCount = 0, inReadingCache = [], inReadingCacheCount = 0, rootDirectoryId = 0,
      fsState = kFilesystemState_Idle, fsIsReadOnly = False, heap = Map.empty, next_ref = first\<rparr>"

definition Inode_IsModified :: "Inode \<Rightarrow> bool" where
  "Inode_IsModified self \<longleftrightarrow> i_flags self AND (kInodeFlag_Accessed OR kInodeFlag_Updated OR kInodeFlag_StatusChanged) \<noteq> 0"

subsection \<open>Reads in progress\<close>

definition PrepReadingNode :: "errno \<Rightarrow> Filesystem \<Rightarrow> nat \<Rightarrow> (errno \<times> Filesystem) option" where
  "PrepReadingNode kalloc self inid =
     do { (e, self1) \<leftarrow>
            (if 0 < inReadingCacheCount self
             then (case inReadingCache self of [] \<Rightarrow> None
                   | _ # rest \<Rightarrow> Some (EOK, self\<lparr>inReadingCache := rest, inReadingCacheCount := inReadingCacheCount self - 1\<rparr>))
             else Some (kalloc, self));
          if e = EOK then do {
            let h = IN_READING_HASH_INDEX inid;
            chain \<leftarrow> arr_get (inReading self1) h;
            chains \<leftarrow> arr_set (inReading self1) h (inid # chain);
            Some (EOK, self1\<lparr>inReading := chains, inReadingCount := inReadingCount self1 + 1\<rparr>) }
          else Some (e, self1) }"

definition FinReadingNode :: "Filesystem \<Rightarrow> nat \<Rightarrow> Filesystem option" where
  "FinReadingNode self inid =
     do { let h = IN_READING_HASH_INDEX inid;
          chain \<leftarrow> arr_get (inReading self) h;
          (if inid \<notin> set chain \<or> inReadingCount self = 0 then None
           else do {
             chains \<leftarrow> arr_set (inReading self) h (remove1 inid chain);
             let self1 = self\<lparr>inReading := chains, inReadingCount := inReadingCount self - 1\<rparr>;
             Some (if inReadingCacheCount self1 < MAX_CACHED_RDNODES
                   then self1\<lparr>inReadingCache := inid # inReadingCache self1, inReadingCacheCount := inReadingCacheCount self1 + 1\<rparr>
                   else self1) }) }"

subsection \<open>Acquiring\<close>

text \<open>The loop over a chain; following the address of a freed inode is a fault.\<close>

fun find_in_chain :: "(nat \<Rightarrow> Node option) \<Rightarrow> nat list \<Rightarrow> nat \<Rightarrow> nat option option" where
  "find_in_chain hp [] inid = Some None"
| "find_in_chain hp (p # ps) inid =
     do { n \<leftarrow> hp p; if i_inid (n_inode n) = inid then Some (Some p) else find_in_chain hp ps inid }"

definition set_node :: "Filesystem \<Rightarrow> nat \<Rightarrow> Node \<Rightarrow> Filesystem" where
  "set_node self p n = self\<lparr>heap := (heap self)(p \<mapsto> n)\<rparr>"

text \<open>
  How a segment of \<open>_Filesystem_AcquireNodeWithId\<close> ends: with a result, waiting on the condition variable, or
  reading the inode without the lock. The flag says whether the segment wakes the waiters.
\<close>

datatype acquire_end = AcqReturn errno "nat option" | AcqWait | AcqRead

definition acquire_retry :: "errno \<Rightarrow> Filesystem \<Rightarrow> nat \<Rightarrow> (acquire_end \<times> bool \<times> Filesystem) option" where
  "acquire_retry kalloc self inid =
     do { chain \<leftarrow> arr_get (inCached self) (IN_CACHED_HASH_INDEX inid);
          ip \<leftarrow> find_in_chain (heap self) chain inid;
          rchain \<leftarrow> arr_get (inReading self) (IN_READING_HASH_INDEX inid);
          case ip of
            Some p \<Rightarrow> do {
              n \<leftarrow> heap self p;
              Some (if n_state n = kInodeState_Deleting then (AcqReturn ENOENT None, False, self)
                    else (AcqReturn EOK (Some p), False, set_node self p (n\<lparr>n_useCount := n_useCount n + 1\<rparr>))) }
          | None \<Rightarrow>
              if inid \<in> set rchain then Some (AcqWait, False, self\<lparr>inReadingWaiterCount := inReadingWaiterCount self + 1\<rparr>)
              else do {
                (e, self1) \<leftarrow> PrepReadingNode kalloc self inid;
                Some (if e = EOK then (AcqRead, False, self1)
                      else (AcqReturn e None, 0 < inReadingWaiterCount self1, self1)) } }"

definition acquire_enter :: "errno \<Rightarrow> Filesystem \<Rightarrow> nat \<Rightarrow> (acquire_end \<times> bool \<times> Filesystem) option" where
  "acquire_enter kalloc self inid =
     (if fsState self \<noteq> kFilesystemState_Active then Some (AcqReturn ENXIO None, False, self)
      else acquire_retry kalloc self inid)"

text \<open>After the wait, and after the read with its result.\<close>

definition acquire_woken :: "errno \<Rightarrow> Filesystem \<Rightarrow> nat \<Rightarrow> (acquire_end \<times> bool \<times> Filesystem) option" where
  "acquire_woken kalloc self inid =
     (if inReadingWaiterCount self = 0 then None
      else acquire_retry kalloc (self\<lparr>inReadingWaiterCount := inReadingWaiterCount self - 1\<rparr>) inid)"

definition acquire_finish :: "Filesystem \<Rightarrow> nat \<Rightarrow> errno \<Rightarrow> Inode option \<Rightarrow> (acquire_end \<times> bool \<times> Filesystem) option" where
  "acquire_finish self inid e node =
     do { self1 \<leftarrow> FinReadingNode self inid;
          let doBroadcast = 0 < inReadingWaiterCount self1;
          if e = EOK then do {
            ip \<leftarrow> node;
            let p = next_ref self1;
            let h = IN_CACHED_HASH_INDEX inid;
            chain \<leftarrow> arr_get (inCached self1) h;
            chains \<leftarrow> arr_set (inCached self1) h (p # chain);
            let self2 = self1\<lparr>inCached := chains, inCachedCount := inCachedCount self1 + 1, next_ref := p + 1\<rparr>;
            Some (AcqReturn EOK (Some p), doBroadcast,
                  set_node self2 p \<lparr>n_inode = ip, n_useCount = 1, n_state = kInodeState_Cached\<rparr>) }
          else Some (AcqReturn e None, doBroadcast, self1) }"

definition Filesystem_ReacquireNode :: "Filesystem \<Rightarrow> nat \<Rightarrow> Filesystem option" where
  "Filesystem_ReacquireNode self p =
     do { n \<leftarrow> heap self p; Some (set_node self p (n\<lparr>n_useCount := n_useCount n + 1\<rparr>)) }"

subsection \<open>Relinquishing\<close>

text \<open>The first segment says whether the inode has to be written back; the last one drops the use.\<close>

definition relinquish_enter :: "Filesystem \<Rightarrow> nat \<Rightarrow> (bool \<times> Filesystem) option" where
  "relinquish_enter self p =
     do { n \<leftarrow> heap self p;
          if n_useCount n = 1 then do {
            let st = (if i_linkCount (n_inode n) = 0 then kInodeState_Deleting
                      else if Inode_IsModified (n_inode n) then kInodeState_Writeback
                      else n_state n);
            Some (st = kInodeState_Writeback \<or> st = kInodeState_Deleting, set_node self p (n\<lparr>n_state := st\<rparr>)) }
          else Some (False, self) }"

definition relinquish_leave :: "Filesystem \<Rightarrow> nat \<Rightarrow> Filesystem option" where
  "relinquish_leave self p =
     do { n \<leftarrow> heap self p;
          if n_useCount n \<le> 0 then None
          else if n_useCount n - 1 = 0 then do {
            let h = IN_CACHED_HASH_INDEX (i_inid (n_inode n));
            chain \<leftarrow> arr_get (inCached self) h;
            (if p \<notin> set chain \<or> inCachedCount self = 0 then None
             else do {
               chains \<leftarrow> arr_set (inCached self) h (remove1 p chain);
               Some (self\<lparr>inCached := chains, inCachedCount := inCachedCount self - 1, heap := (heap self)(p := None)\<rparr>) }) }
          else Some (set_node self p (n\<lparr>n_useCount := n_useCount n - 1\<rparr>)) }"

subsection \<open>Starting and stopping\<close>

text \<open>The result of the method \<open>onStart\<close> and of \<open>onStop\<close> are arguments.\<close>

definition Filesystem_Start :: "errno \<times> nat \<times> bool \<Rightarrow> Filesystem \<Rightarrow> errno \<times> Filesystem" where
  "Filesystem_Start onStart self =
     (case fsState self of
        kFilesystemState_Active \<Rightarrow> (EBUSY, self)
      | kFilesystemState_Stopped \<Rightarrow> (ENXIO, self)
      | kFilesystemState_Idle \<Rightarrow>
          (case onStart of (e, root, ro) \<Rightarrow>
             if e = EOK then (EOK, self\<lparr>rootDirectoryId := root, fsIsReadOnly := ro, fsState := kFilesystemState_Active\<rparr>)
             else (e, self)))"

definition Filesystem_Stop :: "errno \<Rightarrow> Filesystem \<Rightarrow> bool \<Rightarrow> errno \<times> Filesystem" where
  "Filesystem_Stop onStop self forced =
     (if fsState self \<noteq> kFilesystemState_Active then (ENXIO, self)
      else if (0 < inCachedCount self \<or> 0 < inReadingCount self) \<and> \<not> forced then (EBUSY, self)
      else (onStop, self\<lparr>fsState := kFilesystemState_Stopped\<rparr>))"

text \<open>Whether the container is disconnected; an active filesystem aborts.\<close>

definition Filesystem_Disconnect :: "Filesystem \<Rightarrow> bool option" where
  "Filesystem_Disconnect self =
     (case fsState self of
        kFilesystemState_Idle \<Rightarrow> Some False
      | kFilesystemState_Active \<Rightarrow> None
      | kFilesystemState_Stopped \<Rightarrow> Some True)"

definition Filesystem_CanDestroy :: "Filesystem \<Rightarrow> bool" where
  "Filesystem_CanDestroy self \<longleftrightarrow>
     (if fsState self = kFilesystemState_Active then False
      else if 0 < inCachedCount self \<or> 0 < inReadingCount self then False
      else True)"

end
