(* ===== verification/FsCacheInv.thy ===== *)
theory FsCacheInv
  imports FsCache
begin

section \<open>The inode cache under concurrency\<close>

text \<open>
  Any number of threads acquire, use and relinquish inodes. Their segments interleave in every possible way; a read returns an arbitrary
  result, and a wait can end at any time. The invariant says that an inode is in memory at most once, that its use count is the number of its
  users, that no freed inode is used, and that a thread sleeps only while the inode that it waits for is being read.
\<close>

subsection \<open>The table of cached inodes\<close>

definition in_chain :: "(nat \<Rightarrow> Node option) \<Rightarrow> nat \<Rightarrow> nat set" where
  "in_chain hp h = {p. \<exists>n. hp p = Some n \<and> IN_CACHED_HASH_INDEX (i_inid (n_inode n)) = h}"

definition chains_ok :: "Filesystem \<Rightarrow> bool" where
  "chains_ok f \<longleftrightarrow> length (inCached f) = 16 \<and> (\<forall>h < 16. distinct (inCached f ! h) \<and> set (inCached f ! h) = in_chain (heap f) h)
   \<and> (\<forall>p n. heap f p = Some n \<longrightarrow> p < next_ref f) \<and> finite (dom (heap f)) \<and> inCachedCount f = card (dom (heap f))"

definition node_of :: "Filesystem \<Rightarrow> nat \<Rightarrow> nat \<Rightarrow> bool" where
  "node_of f inid p \<longleftrightarrow> (\<exists>n. heap f p = Some n \<and> i_inid (n_inode n) = inid)"

lemma hash_less: "IN_CACHED_HASH_INDEX i < 16" "IN_READING_HASH_INDEX i < 4"
  by (simp_all add: IN_CACHED_HASH_INDEX_def IN_READING_HASH_INDEX_def)

lemma chains_okD:
  assumes "chains_ok f"
  shows "length (inCached f) = 16" "h < 16 \<Longrightarrow> distinct (inCached f ! h)" "h < 16 \<Longrightarrow> set (inCached f ! h) = in_chain (heap f) h"
    "heap f p = Some n \<Longrightarrow> p < next_ref f" "finite (dom (heap f))" "inCachedCount f = card (dom (heap f))"
  using assms unfolding chains_ok_def by blast+

lemma in_chain_here: "hp p = Some n \<Longrightarrow> p \<in> in_chain hp (IN_CACHED_HASH_INDEX (i_inid (n_inode n)))"
  by (simp add: in_chain_def)

lemma find_in_chain_spec:
  assumes "\<And>p. p \<in> set ps \<Longrightarrow> hp p \<noteq> None"
  shows "\<exists>r. find_in_chain hp ps inid = Some r \<and>
    (case r of None \<Rightarrow> \<forall>p \<in> set ps. \<forall>n. hp p = Some n \<longrightarrow> i_inid (n_inode n) \<noteq> inid
     | Some p \<Rightarrow> p \<in> set ps \<and> (\<exists>n. hp p = Some n \<and> i_inid (n_inode n) = inid))"
  using assms
proof (induction ps)
  case (Cons p ps)
  then obtain n where n: "hp p = Some n" by fastforce
  show ?case
  proof (cases "i_inid (n_inode n) = inid")
    case True
    then show ?thesis using n by simp
  next
    case False
    from Cons.IH Cons.prems obtain r where r: "find_in_chain hp ps inid = Some r"
      "case r of None \<Rightarrow> \<forall>p \<in> set ps. \<forall>n. hp p = Some n \<longrightarrow> i_inid (n_inode n) \<noteq> inid
       | Some p \<Rightarrow> p \<in> set ps \<and> (\<exists>n. hp p = Some n \<and> i_inid (n_inode n) = inid)" by auto
    then show ?thesis using n False by (cases r) auto
  qed
qed simp

lemma find_cached:
  assumes f: "chains_ok f"
  obtains (hit) p n where "arr_get (inCached f) (IN_CACHED_HASH_INDEX inid) \<bind> (\<lambda>c. find_in_chain (heap f) c inid) = Some (Some p)"
      "heap f p = Some n" "i_inid (n_inode n) = inid"
  | (miss) "arr_get (inCached f) (IN_CACHED_HASH_INDEX inid) \<bind> (\<lambda>c. find_in_chain (heap f) c inid) = Some None"
      "\<And>p. \<not> node_of f inid p"
proof -
  let ?h = "IN_CACHED_HASH_INDEX inid"
  note C = chains_okD [OF f]
  have g: "arr_get (inCached f) ?h = Some (inCached f ! ?h)" using C(1) hash_less(1) by (simp add: arr_get_in)
  have "\<And>p. p \<in> set (inCached f ! ?h) \<Longrightarrow> heap f p \<noteq> None" using C(3) [OF hash_less(1)] by (auto simp: in_chain_def)
  from find_in_chain_spec [of "inCached f ! ?h" "heap f" inid, OF this] obtain r where r: "find_in_chain (heap f) (inCached f ! ?h) inid = Some r"
    "case r of None \<Rightarrow> \<forall>p \<in> set (inCached f ! ?h). \<forall>n. heap f p = Some n \<longrightarrow> i_inid (n_inode n) \<noteq> inid
     | Some p \<Rightarrow> p \<in> set (inCached f ! ?h) \<and> (\<exists>n. heap f p = Some n \<and> i_inid (n_inode n) = inid)" by blast
  show ?thesis
  proof (cases r)
    case None
    have "\<not> node_of f inid p" for p
    proof
      assume "node_of f inid p"
      then obtain n where n: "heap f p = Some n" "i_inid (n_inode n) = inid" unfolding node_of_def by blast
      then have "p \<in> set (inCached f ! ?h)" using C(3) [OF hash_less(1)] in_chain_here by blast
      then show False using r(2) None n by simp
    qed
    then show ?thesis using miss g r(1) None by simp
  next
    case (Some p)
    then show ?thesis using hit g r by auto
  qed
qed

text \<open>Changing a node in place, adding one and removing one.\<close>

lemma chains_set_node:
  assumes f: "chains_ok f" and p: "heap f p = Some n" "i_inid (n_inode m) = i_inid (n_inode n)"
  shows "chains_ok (set_node f p m)"
proof -
  have "dom ((heap f)(p \<mapsto> m)) = dom (heap f)" using p by auto
  moreover have "in_chain ((heap f)(p \<mapsto> m)) h = in_chain (heap f) h" for h using p by (auto simp: in_chain_def)
  ultimately show ?thesis using chains_okD [OF f] p(1) by (auto simp: chains_ok_def set_node_def)
qed

lemma chains_add_node:
  assumes f: "chains_ok f" and m: "i_inid (n_inode m) = inid"
  defines "h \<equiv> IN_CACHED_HASH_INDEX inid" and "p \<equiv> next_ref f"
  shows "heap f p = None"
    "chains_ok (set_node (f\<lparr>inCached := (inCached f)[h := p # inCached f ! h], inCachedCount := inCachedCount f + 1, next_ref := p + 1\<rparr>) p m)"
proof -
  note C = chains_okD [OF f]
  show fresh: "heap f p = None" using C(4) [of p] by (cases "heap f p") (auto simp: p_def)
  have hl: "h < 16" using hash_less(1) by (simp add: h_def)
  have dom: "dom ((heap f)(p \<mapsto> m)) = insert p (dom (heap f))" "p \<notin> dom (heap f)" using fresh by auto
  have ch: "in_chain ((heap f)(p \<mapsto> m)) k = (if k = h then insert p (in_chain (heap f) k) else in_chain (heap f) k)" for k
    using m fresh by (auto simp: in_chain_def h_def)
  have "p \<notin> in_chain (heap f) k" for k using fresh by (simp add: in_chain_def)
  then have "distinct ((inCached f)[h := p # inCached f ! h] ! k) \<and> set ((inCached f)[h := p # inCached f ! h] ! k) = in_chain ((heap f)(p \<mapsto> m)) k"
    if "k < 16" for k using that C(1-3) hl ch by (cases "k = h") simp_all
  moreover have "q < p + 1" if "((heap f)(p \<mapsto> m)) q = Some n" for q n using that C(4) [of q n] by (cases "q = p") (auto simp: p_def)
  ultimately show "chains_ok (set_node (f\<lparr>inCached := (inCached f)[h := p # inCached f ! h], inCachedCount := inCachedCount f + 1, next_ref := p + 1\<rparr>) p m)"
    unfolding chains_ok_def set_node_def using C(1,5,6) dom by (simp del: fun_upd_apply)
qed

lemma chains_remove_node:
  assumes f: "chains_ok f" and p: "heap f p = Some n"
  defines "h \<equiv> IN_CACHED_HASH_INDEX (i_inid (n_inode n))"
  shows "p \<in> set (inCached f ! h)" "0 < inCachedCount f"
    "chains_ok (f\<lparr>inCached := (inCached f)[h := remove1 p (inCached f ! h)], inCachedCount := inCachedCount f - 1, heap := (heap f)(p := None)\<rparr>)"
proof -
  note C = chains_okD [OF f]
  have hl: "h < 16" using hash_less(1) by (simp add: h_def)
  show "p \<in> set (inCached f ! h)" using C(3) [OF hl] in_chain_here [of "heap f" p n] p by (simp add: h_def)
  have dom: "dom ((heap f)(p := None)) = dom (heap f) - {p}" "p \<in> dom (heap f)" using p by auto
  then show "0 < inCachedCount f" using C(5,6) by (auto simp: card_gt_0_iff)
  have ch: "in_chain ((heap f)(p := None)) k = (if k = h then in_chain (heap f) k - {p} else in_chain (heap f) k)" for k
    using p by (auto simp: in_chain_def h_def)
  then have "distinct ((inCached f)[h := remove1 p (inCached f ! h)] ! k) \<and> set ((inCached f)[h := remove1 p (inCached f ! h)] ! k) = in_chain ((heap f)(p := None)) k"
    if "k < 16" for k using that C(1-3) hl by (cases "k = h") simp_all
  moreover have "q < next_ref f" if "((heap f)(p := None)) q = Some m" for q m using that C(4) [of q m] by (cases "q = p") auto
  ultimately show "chains_ok (f\<lparr>inCached := (inCached f)[h := remove1 p (inCached f ! h)], inCachedCount := inCachedCount f - 1, heap := (heap f)(p := None)\<rparr>)"
    unfolding chains_ok_def using C(1,5,6) dom by (simp del: fun_upd_apply)
qed

subsection \<open>The table of reads\<close>

definition reading :: "Filesystem \<Rightarrow> nat set" where
  "reading f = {i. i \<in> set (inReading f ! IN_READING_HASH_INDEX i)}"

definition reads_ok :: "Filesystem \<Rightarrow> bool" where
  "reads_ok f \<longleftrightarrow> length (inReading f) = 4 \<and> (\<forall>r < 4. distinct (inReading f ! r)) \<and> finite (reading f) \<and> inReadingCount f = card (reading f)
   \<and> inReadingCacheCount f = length (inReadingCache f)"

lemma reads_okD:
  assumes "reads_ok f"
  shows "length (inReading f) = 4" "r < 4 \<Longrightarrow> distinct (inReading f ! r)" "finite (reading f)" "inReadingCount f = card (reading f)"
    "inReadingCacheCount f = length (inReadingCache f)"
  using assms unfolding reads_ok_def by blast+

text \<open>What the operations on this table leave alone.\<close>

definition same_cached :: "Filesystem \<Rightarrow> Filesystem \<Rightarrow> bool" where
  "same_cached f f' \<longleftrightarrow> inCached f' = inCached f \<and> inCachedCount f' = inCachedCount f \<and> heap f' = heap f \<and> next_ref f' = next_ref f
     \<and> fsState f' = fsState f"

lemma same_cached_chains: "same_cached f f' \<Longrightarrow> chains_ok f \<Longrightarrow> chains_ok f'"
  by (simp add: same_cached_def chains_ok_def)

lemma prep_reading:
  assumes f: "reads_ok f" and i: "inid \<notin> reading f"
  obtains (fails) "PrepReadingNode kalloc f inid = Some (kalloc, f)" "kalloc \<noteq> EOK"
  | (added) f' where "PrepReadingNode kalloc f inid = Some (EOK, f')" "reads_ok f'" "reading f' = insert inid (reading f)" "same_cached f f'"
      "inReadingWaiterCount f' = inReadingWaiterCount f"
proof (cases "0 < inReadingCacheCount f \<or> kalloc = EOK")
  case False
  then show ?thesis by (intro fails) (simp_all add: PrepReadingNode_def)
next
  case True
  note R = reads_okD [OF f]
  let ?h = "IN_READING_HASH_INDEX inid"
  define f1 where "f1 = (if 0 < inReadingCacheCount f
    then f\<lparr>inReadingCache := tl (inReadingCache f), inReadingCacheCount := inReadingCacheCount f - 1\<rparr> else f)"
  let ?f' = "f1\<lparr>inReading := (inReading f)[?h := inid # inReading f ! ?h], inReadingCount := inReadingCount f + 1\<rparr>"
  have f1: "inReading f1 = inReading f" "inReadingCount f1 = inReadingCount f" "inReadingCacheCount f1 = length (inReadingCache f1)"
    "same_cached f f1" "inReadingWaiterCount f1 = inReadingWaiterCount f" using R(5) by (simp_all add: f1_def same_cached_def)
  have p: "PrepReadingNode kalloc f inid = Some (EOK, ?f')"
    using True R(1,5) hash_less(2) by (cases "inReadingCache f") (auto simp: PrepReadingNode_def f1_def Let_def)
  have rd: "reading ?f' = insert inid (reading f)"
    using R(1) hash_less(2) [of inid] by (auto simp: reading_def nth_list_update)
  have "distinct ((inReading f)[?h := inid # inReading f ! ?h] ! r)" if "r < 4" for r
    using that R(1,2) i by (cases "r = ?h") (simp_all add: reading_def)
  then have "reads_ok ?f'" using R rd i f1(1-3) by (simp add: reads_ok_def)
  then show ?thesis by (rule added [OF p _ rd]) (use f1 in \<open>simp_all add: same_cached_def\<close>)
qed

lemma fin_reading:
  assumes f: "reads_ok f" and i: "inid \<in> reading f"
  obtains f' where "FinReadingNode f inid = Some f'" "reads_ok f'" "reading f' = reading f - {inid}" "same_cached f f'"
    "inReadingWaiterCount f' = inReadingWaiterCount f"
proof -
  note R = reads_okD [OF f]
  let ?h = "IN_READING_HASH_INDEX inid"
  define f1 where "f1 = f\<lparr>inReading := (inReading f)[?h := remove1 inid (inReading f ! ?h)], inReadingCount := inReadingCount f - 1\<rparr>"
  define f' where "f' = (if inReadingCacheCount f < 4
    then f1\<lparr>inReadingCache := inid # inReadingCache f1, inReadingCacheCount := inReadingCacheCount f1 + 1\<rparr> else f1)"
  have n: "inReadingCount f \<noteq> 0" using R(3,4) i by auto
  have p: "FinReadingNode f inid = Some f'"
    using i n R(1) hash_less(2) [of inid] by (simp add: FinReadingNode_def f'_def f1_def reading_def Let_def)
  have r1: "inReading f' = (inReading f)[?h := remove1 inid (inReading f ! ?h)]" "inReadingCount f' = inReadingCount f - 1"
    "inReadingCacheCount f' = length (inReadingCache f')" using R(5) by (simp_all add: f'_def f1_def)
  have dst: "distinct (inReading f ! ?h)" using R(2) hash_less(2) by simp
  have rd: "reading f' = reading f - {inid}"
    using R(1) hash_less(2) [of inid] dst unfolding reading_def r1(1) by (auto simp: nth_list_update)
  have "distinct (inReading f' ! r)" if "r < 4" for r
    using that R(1,2) dst unfolding r1(1) by (cases "r = ?h") simp_all
  then have "reads_ok f'" using R rd i r1 by (simp add: reads_ok_def)
  then show ?thesis by (rule that [OF p _ rd]) (simp_all add: same_cached_def f'_def f1_def)
qed

subsection \<open>Segments\<close>

lemma retry_cases:
  assumes f: "chains_ok f" "reads_ok f"
  obtains (hit) p n where "acquire_retry kalloc f inid = Some (AcqReturn EOK (Some p), False, set_node f p (n\<lparr>n_useCount := n_useCount n + 1\<rparr>))"
      "heap f p = Some n" "i_inid (n_inode n) = inid" "n_state n \<noteq> kInodeState_Deleting"
  | (deleting) "acquire_retry kalloc f inid = Some (AcqReturn ENOENT None, False, f)"
  | (busy) "acquire_retry kalloc f inid = Some (AcqWait, False, f\<lparr>inReadingWaiterCount := inReadingWaiterCount f + 1\<rparr>)" "inid \<in> reading f"
  | (nomem) "acquire_retry kalloc f inid = Some (AcqReturn kalloc None, 0 < inReadingWaiterCount f, f)" "kalloc \<noteq> EOK"
  | (read) f' where "acquire_retry kalloc f inid = Some (AcqRead, False, f')" "reads_ok f'" "reading f' = insert inid (reading f)" "same_cached f f'"
      "inReadingWaiterCount f' = inReadingWaiterCount f" "inid \<notin> reading f" "\<And>p. \<not> node_of f inid p"
proof -
  have rc: "arr_get (inReading f) (IN_READING_HASH_INDEX inid) = Some (inReading f ! IN_READING_HASH_INDEX inid)"
    using reads_okD(1) [OF f(2)] hash_less(2) by simp
  from f(1) show ?thesis
  proof (cases rule: find_cached [where inid = inid])
    case (hit p n)
    then obtain c where c: "arr_get (inCached f) (IN_CACHED_HASH_INDEX inid) = Some c" "find_in_chain (heap f) c inid = Some (Some p)"
      by (auto simp: Option.bind_eq_Some_conv)
    show ?thesis
      using that(1) [of p n] that(2) c rc hit(2,3) by (cases "n_state n = kInodeState_Deleting") (simp_all add: acquire_retry_def)
  next
    case miss
    then obtain c where c: "arr_get (inCached f) (IN_CACHED_HASH_INDEX inid) = Some c" "find_in_chain (heap f) c inid = Some None"
      by (auto simp: Option.bind_eq_Some_conv)
    show ?thesis
    proof (cases "inid \<in> reading f")
      case True
      then show ?thesis using that(3) c rc by (simp add: acquire_retry_def reading_def)
    next
      case False
      then have nr: "inid \<notin> set (inReading f ! IN_READING_HASH_INDEX inid)" by (simp add: reading_def)
      from f(2) False show ?thesis
      proof (cases rule: prep_reading [where kalloc = kalloc])
        case fails
        then show ?thesis using that(4) c rc nr by (simp add: acquire_retry_def)
      next
        case (added f')
        have "acquire_retry kalloc f inid = Some (AcqRead, False, f')" using added(1) c rc nr by (simp add: acquire_retry_def)
        then show ?thesis by (rule that(5) [OF _ added(2-5) False miss(2)])
      qed
    qed
  qed
qed

lemma finish_cases:
  assumes f: "chains_ok f" "reads_ok f" and i: "inid \<in> reading f" and n: "e = EOK \<longrightarrow> (\<exists>ip. node = Some ip \<and> i_inid ip = inid)"
  obtains (failed) f' where "acquire_finish f inid e node = Some (AcqReturn e None, 0 < inReadingWaiterCount f, f')" "e \<noteq> EOK"
      "chains_ok f'" "reads_ok f'" "reading f' = reading f - {inid}" "heap f' = heap f" "inReadingWaiterCount f' = inReadingWaiterCount f"
  | (cached) f' ip where "acquire_finish f inid e node = Some (AcqReturn e (Some (next_ref f)), 0 < inReadingWaiterCount f, f')" "e = EOK"
      "i_inid ip = inid" "heap f (next_ref f) = None" "chains_ok f'" "reads_ok f'" "reading f' = reading f - {inid}"
      "heap f' = (heap f)(next_ref f \<mapsto> \<lparr>n_inode = ip, n_useCount = 1, n_state = kInodeState_Cached\<rparr>)" "inReadingWaiterCount f' = inReadingWaiterCount f"
proof -
  obtain f1 where r: "FinReadingNode f inid = Some f1" "reads_ok f1" "reading f1 = reading f - {inid}" "same_cached f f1"
    "inReadingWaiterCount f1 = inReadingWaiterCount f" by (rule fin_reading [OF f(2) i])
  have c1: "chains_ok f1" "heap f1 = heap f" "next_ref f1 = next_ref f" using same_cached_chains [OF r(4) f(1)] r(4) by (simp_all add: same_cached_def)
  show ?thesis
  proof (cases "e = EOK")
    case False
    then show ?thesis using failed r c1 by (simp add: acquire_finish_def)
  next
    case True
    then obtain ip where ip: "node = Some ip" "i_inid ip = inid" using n by blast
    let ?m = "\<lparr>n_inode = ip, n_useCount = 1, n_state = kInodeState_Cached\<rparr>" and ?h = "IN_CACHED_HASH_INDEX inid" and ?p = "next_ref f1"
    have m: "i_inid (n_inode ?m) = inid" using ip(2) by simp
    note A = chains_add_node [OF c1(1) m]
    let ?f' = "set_node (f1\<lparr>inCached := (inCached f1)[?h := ?p # inCached f1 ! ?h], inCachedCount := inCachedCount f1 + 1, next_ref := ?p + 1\<rparr>) ?p ?m"
    have "acquire_finish f inid e node = Some (AcqReturn e (Some (next_ref f)), 0 < inReadingWaiterCount f, ?f')"
      using r(1,5) True ip(1) chains_okD(1) [OF c1(1)] hash_less(1) c1(3) by (simp add: acquire_finish_def Let_def)
    then show ?thesis
      by (rule cached [OF _ True ip(2)]) (use A r(2,3,5) c1 in \<open>simp_all add: set_node_def reads_ok_def reading_def\<close>)
  qed
qed

lemma leave_cases:
  assumes f: "chains_ok f" and p: "heap f p = Some n" "0 < n_useCount n"
  obtains (last) f' where "relinquish_leave f p = Some f'" "n_useCount n = 1" "chains_ok f'" "heap f' = (heap f)(p := None)"
      "inReading f' = inReading f" "reads_ok f' = reads_ok f" "inReadingWaiterCount f' = inReadingWaiterCount f"
  | (used) "relinquish_leave f p = Some (set_node f p (n\<lparr>n_useCount := n_useCount n - 1\<rparr>))" "1 < n_useCount n"
proof (cases "n_useCount n = 1")
  case True
  note R = chains_remove_node [OF f p(1)]
  let ?h = "IN_CACHED_HASH_INDEX (i_inid (n_inode n))"
  let ?f' = "f\<lparr>inCached := (inCached f)[?h := remove1 p (inCached f ! ?h)], inCachedCount := inCachedCount f - 1, heap := (heap f)(p := None)\<rparr>"
  have "relinquish_leave f p = Some ?f'"
    using p True R(1,2) chains_okD(1) [OF f] hash_less(1) by (simp add: relinquish_leave_def Let_def)
  then show ?thesis by (rule last [OF _ True R(3)]) (simp_all add: reads_ok_def reading_def)
next
  case False
  then show ?thesis using used p by (simp add: relinquish_leave_def)
qed

end
