(* ===== verification/FsCacheProps.thy ===== *)
theory FsCacheProps
  imports FsCacheInv
begin

section \<open>Interleaved users of the inode cache\<close>

text \<open>
  The state of a thread between two segments, the references that the clients hold, and the steps. Every step whose guard
  holds runs without a fault and keeps the invariant (interpretation \<open>nodecache\<close>).
\<close>

subsection \<open>The system\<close>

text \<open>
  A thread is idle, waits for an inode (and sleeps or has been woken), reads an inode, or writes one back. \<open>crefs\<close> counts
  the references to an inode that clients hold; a reference that is being relinquished is not counted any more.
\<close>

datatype ctask = CIdle | CWaiting nat bool | CReading nat | CWriteback nat

record csys =
  cfs :: Filesystem
  ctasks :: "nat \<Rightarrow> ctask"
  crefs :: "nat \<Rightarrow> nat"

definition wake_all :: "(nat \<Rightarrow> ctask) \<Rightarrow> nat \<Rightarrow> ctask" where
  "wake_all ts t = (case ts t of CWaiting i _ \<Rightarrow> CWaiting i False | x \<Rightarrow> x)"

definition end_acquire :: "csys \<Rightarrow> nat \<Rightarrow> nat \<Rightarrow> acquire_end \<times> bool \<times> Filesystem \<Rightarrow> csys" where
  "end_acquire s t inid r =
     (case r of (a, bc, f) \<Rightarrow>
        let ts = (if bc then wake_all (ctasks s) else ctasks s) in
        case a of
          AcqReturn e None \<Rightarrow> s\<lparr>cfs := f, ctasks := ts(t := CIdle)\<rparr>
        | AcqReturn e (Some p) \<Rightarrow> s\<lparr>cfs := f, ctasks := ts(t := CIdle), crefs := (crefs s)(p := crefs s p + 1)\<rparr>
        | AcqWait \<Rightarrow> s\<lparr>cfs := f, ctasks := ts(t := CWaiting inid True)\<rparr>
        | AcqRead \<Rightarrow> s\<lparr>cfs := f, ctasks := ts(t := CReading inid)\<rparr>)"

datatype cache_op =
    CAcquire nat nat errno
  | CSpuriousWakeup nat
  | CResume nat errno
  | CReadDone nat errno "Inode option"
  | CReacquire nat
  | CRelinquish nat nat
  | CWritebackDone nat Inode
  | CModify nat Inode
  | CStart "errno \<times> nat \<times> bool"
  | CStop errno bool

fun cache_step :: "cache_op \<Rightarrow> csys \<Rightarrow> csys option" where
  "cache_step (CAcquire t inid kalloc) s = map_option (end_acquire s t inid) (acquire_enter kalloc (cfs s) inid)"
| "cache_step (CSpuriousWakeup t) s =
     (case ctasks s t of CWaiting i _ \<Rightarrow> Some (s\<lparr>ctasks := (ctasks s)(t := CWaiting i False)\<rparr>) | _ \<Rightarrow> Some s)"
| "cache_step (CResume t kalloc) s =
     (case ctasks s t of CWaiting i _ \<Rightarrow> map_option (end_acquire s t i) (acquire_woken kalloc (cfs s) i) | _ \<Rightarrow> Some s)"
| "cache_step (CReadDone t e node) s =
     (case ctasks s t of CReading i \<Rightarrow> map_option (end_acquire s t i) (acquire_finish (cfs s) i e node) | _ \<Rightarrow> Some s)"
| "cache_step (CReacquire p) s =
     map_option (\<lambda>f. s\<lparr>cfs := f, crefs := (crefs s)(p := crefs s p + 1)\<rparr>) (Filesystem_ReacquireNode (cfs s) p)"
| "cache_step (CRelinquish t p) s =
     do { (wb, f) \<leftarrow> relinquish_enter (cfs s) p;
          let refs = (crefs s)(p := crefs s p - 1);
          if wb then Some (s\<lparr>cfs := f, ctasks := (ctasks s)(t := CWriteback p), crefs := refs\<rparr>)
          else map_option (\<lambda>f. s\<lparr>cfs := f, crefs := refs\<rparr>) (relinquish_leave f p) }"
| "cache_step (CWritebackDone t node) s =
     (case ctasks s t of
        CWriteback p \<Rightarrow> do {
          n \<leftarrow> heap (cfs s) p;
          map_option (\<lambda>f. s\<lparr>cfs := f, ctasks := (ctasks s)(t := CIdle)\<rparr>) (relinquish_leave (set_node (cfs s) p (n\<lparr>n_inode := node\<rparr>)) p) }
      | _ \<Rightarrow> Some s)"
| "cache_step (CModify p node) s =
     do { n \<leftarrow> heap (cfs s) p; Some (s\<lparr>cfs := set_node (cfs s) p (n\<lparr>n_inode := node\<rparr>)\<rparr>) }"
| "cache_step (CStart r) s = Some (s\<lparr>cfs := snd (Filesystem_Start r (cfs s))\<rparr>)"
| "cache_step (CStop e forced) s = Some (s\<lparr>cfs := snd (Filesystem_Stop e (cfs s) forced)\<rparr>)"

text \<open>
  A client relinquishes and changes only inodes that it holds; an inode is not changed while it is written back, which holds its
  lock. A read that succeeds yields the inode that was asked for, and inodes keep their ids.
\<close>

definition same_id :: "csys \<Rightarrow> nat \<Rightarrow> Inode \<Rightarrow> bool" where
  "same_id s p node \<longleftrightarrow> (case heap (cfs s) p of None \<Rightarrow> False | Some n \<Rightarrow> i_inid node = i_inid (n_inode n))"

fun cache_guard :: "cache_op \<Rightarrow> csys \<Rightarrow> bool" where
  "cache_guard (CAcquire t inid kalloc) s \<longleftrightarrow> ctasks s t = CIdle"
| "cache_guard (CSpuriousWakeup t) s \<longleftrightarrow> True"
| "cache_guard (CResume t kalloc) s \<longleftrightarrow> (\<exists>i. ctasks s t = CWaiting i False)"
| "cache_guard (CReadDone t e node) s \<longleftrightarrow>
     (\<forall>i. ctasks s t = CReading i \<longrightarrow> e = EOK \<longrightarrow> (\<exists>ip. node = Some ip \<and> i_inid ip = i))"
| "cache_guard (CReacquire p) s \<longleftrightarrow> 0 < crefs s p"
| "cache_guard (CRelinquish t p) s \<longleftrightarrow> ctasks s t = CIdle \<and> 0 < crefs s p"
| "cache_guard (CWritebackDone t node) s \<longleftrightarrow> (\<forall>p. ctasks s t = CWriteback p \<longrightarrow> same_id s p node)"
| "cache_guard (CModify p node) s \<longleftrightarrow> 0 < crefs s p \<and> (\<forall>t. ctasks s t \<noteq> CWriteback p) \<and> same_id s p node"
| "cache_guard (CStart r) s \<longleftrightarrow> True"
| "cache_guard (CStop e forced) s \<longleftrightarrow> True"

subsection \<open>The invariant\<close>

definition writers :: "(nat \<Rightarrow> ctask) \<Rightarrow> nat \<Rightarrow> nat" where
  "writers ts p = (if \<exists>t. ts t = CWriteback p then 1 else 0)"

definition waiting :: "(nat \<Rightarrow> ctask) \<Rightarrow> nat set" where
  "waiting ts = {t. \<exists>i b. ts t = CWaiting i b}"

text \<open>The use count of an inode is the number of its users; an inode that is being deleted has no clients.\<close>

definition counts_ok :: "(nat \<Rightarrow> Node option) \<Rightarrow> (nat \<Rightarrow> ctask) \<Rightarrow> (nat \<Rightarrow> nat) \<Rightarrow> bool" where
  "counts_ok hp ts refs \<longleftrightarrow> (\<forall>p. case hp p of
      None \<Rightarrow> refs p = 0 \<and> writers ts p = 0
    | Some n \<Rightarrow> n_useCount n = int (refs p + writers ts p) \<and> 0 < refs p + writers ts p \<and> (n_state n = kInodeState_Deleting \<longrightarrow> refs p = 0))"

definition ids_unique :: "Filesystem \<Rightarrow> bool" where
  "ids_unique f \<longleftrightarrow> (\<forall>i p q. node_of f i p \<longrightarrow> node_of f i q \<longrightarrow> p = q) \<and> (\<forall>i p. node_of f i p \<longrightarrow> i \<notin> reading f)"

definition tasks_ok :: "Filesystem \<Rightarrow> (nat \<Rightarrow> ctask) \<Rightarrow> bool" where
  "tasks_ok f ts \<longleftrightarrow> (\<forall>t u p. ts t = CWriteback p \<longrightarrow> ts u = CWriteback p \<longrightarrow> t = u)
   \<and> (\<forall>t u i. ts t = CReading i \<longrightarrow> ts u = CReading i \<longrightarrow> t = u) \<and> reading f = {i. \<exists>t. ts t = CReading i}
   \<and> (\<forall>t i. ts t = CWaiting i True \<longrightarrow> i \<in> reading f)
   \<and> finite (waiting ts) \<and> inReadingWaiterCount f = card (waiting ts)"

definition cache_inv :: "csys \<Rightarrow> bool" where
  "cache_inv s \<longleftrightarrow> chains_ok (cfs s) \<and> reads_ok (cfs s) \<and> ids_unique (cfs s) \<and> tasks_ok (cfs s) (ctasks s)
   \<and> counts_ok (heap (cfs s)) (ctasks s) (crefs s)"

lemma cache_invD:
  assumes "cache_inv s"
  shows "chains_ok (cfs s)" "reads_ok (cfs s)" "ids_unique (cfs s)" "tasks_ok (cfs s) (ctasks s)" "counts_ok (heap (cfs s)) (ctasks s) (crefs s)"
  using assms by (simp_all add: cache_inv_def)

subsection \<open>Effects on the parts of the invariant\<close>

lemma writers_upd:
  "\<nexists>p. x = CWriteback p \<Longrightarrow> \<nexists>p. ts t = CWriteback p \<Longrightarrow> writers (ts(t := x)) = writers ts"
  "writers (wake_all ts) = writers ts"
proof -
  show "writers (ts(t := x)) = writers ts" if "\<nexists>p. x = CWriteback p" "\<nexists>p. ts t = CWriteback p"
  proof
    fix p
    have "(\<exists>u. (ts(t := x)) u = CWriteback p) \<longleftrightarrow> (\<exists>u. ts u = CWriteback p)"
    proof
      assume "\<exists>u. (ts(t := x)) u = CWriteback p"
      then obtain u where u: "(ts(t := x)) u = CWriteback p" by blast
      then have "u \<noteq> t" using that(1) by auto
      then show "\<exists>u. ts u = CWriteback p" using u by auto
    next
      assume "\<exists>u. ts u = CWriteback p"
      then obtain u where u: "ts u = CWriteback p" by blast
      then have "u \<noteq> t" using that(2) by auto
      then show "\<exists>u. (ts(t := x)) u = CWriteback p" using u by (intro exI [of _ u]) simp
    qed
    then show "writers (ts(t := x)) p = writers ts p" by (simp only: writers_def)
  qed
  have "wake_all ts t = CWriteback p \<longleftrightarrow> ts t = CWriteback p" for t p by (cases "ts t") (simp_all add: wake_all_def)
  then show "writers (wake_all ts) = writers ts" by (simp add: writers_def fun_eq_iff)
qed

lemma counts_okD:
  assumes "counts_ok hp ts refs"
  shows "hp p = Some n \<Longrightarrow> n_useCount n = int (refs p + writers ts p)" "hp p = Some n \<Longrightarrow> 0 < refs p + writers ts p"
    "hp p = Some n \<Longrightarrow> n_state n = kInodeState_Deleting \<Longrightarrow> refs p = 0" "hp p = None \<Longrightarrow> refs p = 0" "hp p = None \<Longrightarrow> writers ts p = 0"
  using assms [unfolded counts_ok_def, rule_format, of p] by auto

lemma counts_node:
  assumes c: "counts_ok hp ts refs" and w: "\<And>q. q \<noteq> p \<Longrightarrow> writers ts' q = writers ts q"
    and n: "n_useCount m = int (k + writers ts' p)" "0 < k + writers ts' p" "n_state m = kInodeState_Deleting \<longrightarrow> k = 0"
  shows "counts_ok (hp(p \<mapsto> m)) ts' (refs(p := k))"
  unfolding counts_ok_def
proof
  fix q
  show "case (hp(p \<mapsto> m)) q of None \<Rightarrow> (refs(p := k)) q = 0 \<and> writers ts' q = 0
    | Some n \<Rightarrow> n_useCount n = int ((refs(p := k)) q + writers ts' q) \<and> 0 < (refs(p := k)) q + writers ts' q
        \<and> (n_state n = kInodeState_Deleting \<longrightarrow> (refs(p := k)) q = 0)"
  proof (cases "q = p")
    case False
    then show ?thesis using spec [OF c [unfolded counts_ok_def], of q] w [OF False] by (cases "hp q") simp_all
  qed (use n in simp)
qed

lemma counts_free:
  assumes c: "counts_ok hp ts refs" and w: "\<And>q. q \<noteq> p \<Longrightarrow> writers ts' q = writers ts q" "writers ts' p = 0"
  shows "counts_ok (hp(p := None)) ts' (refs(p := 0))"
  unfolding counts_ok_def
proof
  fix q
  show "case (hp(p := None)) q of None \<Rightarrow> (refs(p := 0)) q = 0 \<and> writers ts' q = 0
    | Some n \<Rightarrow> n_useCount n = int ((refs(p := 0)) q + writers ts' q) \<and> 0 < (refs(p := 0)) q + writers ts' q
        \<and> (n_state n = kInodeState_Deleting \<longrightarrow> (refs(p := 0)) q = 0)"
  proof (cases "q = p")
    case False
    then show ?thesis using spec [OF c [unfolded counts_ok_def], of q] w(1) [OF False] by (cases "hp q") simp_all
  qed (use w(2) in simp)
qed

lemma ids_set_node:
  assumes "heap f p = Some n" "i_inid (n_inode m) = i_inid (n_inode n)"
  shows "ids_unique (set_node f p m) = ids_unique f" "reads_ok (set_node f p m) = reads_ok f" "tasks_ok (set_node f p m) ts = tasks_ok f ts"
proof -
  have "node_of (set_node f p m) = node_of f" using assms by (auto simp: node_of_def set_node_def fun_eq_iff)
  moreover have "reading (set_node f p m) = reading f" by (simp add: reading_def set_node_def)
  ultimately show "ids_unique (set_node f p m) = ids_unique f" by (simp add: ids_unique_def)
  show "reads_ok (set_node f p m) = reads_ok f" by (simp add: reads_ok_def set_node_def reading_def)
  show "tasks_ok (set_node f p m) ts = tasks_ok f ts" by (simp add: tasks_ok_def set_node_def reading_def)
qed

lemma tasks_okD:
  assumes "tasks_ok f ts"
  shows "ts t = CWriteback p \<Longrightarrow> ts u = CWriteback p \<Longrightarrow> t = u" "ts t = CReading i \<Longrightarrow> ts u = CReading i \<Longrightarrow> t = u"
    "i \<in> reading f \<longleftrightarrow> (\<exists>t. ts t = CReading i)" "ts t = CWaiting i True \<Longrightarrow> i \<in> reading f" "finite (waiting ts)"
    "inReadingWaiterCount f = card (waiting ts)"
  using assms unfolding tasks_ok_def by blast+

lemma waiting_upd:
  "waiting (ts(t := x)) = (if \<exists>i b. x = CWaiting i b then insert t (waiting ts) else waiting ts - {t})" "waiting (wake_all ts) = waiting ts"
proof -
  show "waiting (ts(t := x)) = (if \<exists>i b. x = CWaiting i b then insert t (waiting ts) else waiting ts - {t})" by (auto simp: waiting_def)
  have "(\<exists>i b. wake_all ts t = CWaiting i b) \<longleftrightarrow> (\<exists>i b. ts t = CWaiting i b)" for t by (cases "ts t") (auto simp: wake_all_def)
  then show "waiting (wake_all ts) = waiting ts" by (simp add: waiting_def)
qed

lemma wake_all_iff: "wake_all ts t = CReading i \<longleftrightarrow> ts t = CReading i" "wake_all ts t = CWriteback p \<longleftrightarrow> ts t = CWriteback p"
  "wake_all ts t \<noteq> CWaiting i True"
  by (cases "ts t"; simp add: wake_all_def)+

text \<open>All threads are woken, or none waits; then nobody sleeps.\<close>

definition woken :: "bool \<Rightarrow> (nat \<Rightarrow> ctask) \<Rightarrow> nat \<Rightarrow> ctask" where
  "woken bc ts = (if bc then wake_all ts else ts)"

lemma woken_simps:
  "woken bc ts t = CReading i \<longleftrightarrow> ts t = CReading i" "woken bc ts t = CWriteback p \<longleftrightarrow> ts t = CWriteback p"
  "waiting (woken bc ts) = waiting ts" "writers (woken bc ts) = writers ts"
  by (simp_all add: woken_def wake_all_iff waiting_upd writers_upd)

lemma nobody_sleeps:
  assumes "tasks_ok f ts" "bc = (0 < inReadingWaiterCount f)"
  shows "woken bc ts t \<noteq> CWaiting i True"
proof (cases bc)
  case False
  then have "waiting ts = {}" using tasks_okD(5,6) [OF assms(1)] assms(2) by simp
  then show ?thesis using False by (auto simp: woken_def waiting_def)
qed (simp add: woken_def wake_all_iff)

lemma tasks_leave:
  assumes k: "tasks_ok f ts" and t: "ts t = CIdle \<and> reading f' = reading f \<or> ts t = CReading i \<and> reading f' = reading f - {i}"
    and c: "inReadingWaiterCount f' = inReadingWaiterCount f" and b: "bc = (0 < inReadingWaiterCount f)"
  shows "tasks_ok f' ((woken bc ts)(t := CIdle))"
proof -
  note K = tasks_okD [OF k]
  let ?ts = "(woken bc ts)(t := CIdle)"
  have "ts t = CIdle \<or> ts t = CReading i" using t by blast
  then have nw: "t \<notin> waiting ts" unfolding waiting_def by (elim disjE) simp_all
  have R: "?ts u = CReading j \<longleftrightarrow> u \<noteq> t \<and> ts u = CReading j" for u j by (simp add: woken_simps)
  have W: "?ts u = CWriteback p \<longleftrightarrow> u \<noteq> t \<and> ts u = CWriteback p" for u p by (simp add: woken_simps)
  have S: "?ts u \<noteq> CWaiting j True" for u j using nobody_sleeps [OF k b] by simp
  have rd: "j \<in> reading f' \<longleftrightarrow> (\<exists>u. u \<noteq> t \<and> ts u = CReading j)" for j
    using t
  proof
    assume a: "ts t = CIdle \<and> reading f' = reading f"
    then have "ts t = CIdle" by blast
    then have "u \<noteq> t" if "ts u = CReading j" for u using that by auto
    then show ?thesis using a K(3) [of j] by blast
  next
    assume a: "ts t = CReading i \<and> reading f' = reading f - {i}"
    then have "ts t = CReading i" by blast
    then have "u = t \<longleftrightarrow> j = i" if "ts u = CReading j" for u using that K(2) [of u i t] by auto
    then show ?thesis using a K(3) [of j] by blast
  qed
  have wt: "waiting ?ts = waiting ts" using nw by (simp add: waiting_upd woken_simps)
  show ?thesis
    unfolding tasks_ok_def R W wt
  proof (intro conjI allI impI)
    show "reading f' = {i. \<exists>u. u \<noteq> t \<and> ts u = CReading i}" using rd by blast
    show "j \<in> reading f'" if "?ts u = CWaiting j True" for u j using S [of u j] that by (rule notE)
    show "u = v" if "u \<noteq> t \<and> ts u = CWriteback p" "v \<noteq> t \<and> ts v = CWriteback p" for u v p using K(1) [of u p v] that by blast
    show "u = v" if "u \<noteq> t \<and> ts u = CReading j" "v \<noteq> t \<and> ts v = CReading j" for u v j using K(2) [of u j v] that by blast
  qed (use K(5,6) c in simp_all)
qed

lemma tasks_cong:
  assumes k: "tasks_ok f ts" and rd: "reading f' = reading f" and R: "\<And>u j. ts' u = CReading j \<longleftrightarrow> ts u = CReading j"
    and W: "\<And>u p. ts' u = CWriteback p \<longleftrightarrow> ts u = CWriteback p" and Z: "\<And>u j. ts' u = CWaiting j True \<Longrightarrow> ts u = CWaiting j True"
    and c: "finite (waiting ts')" "inReadingWaiterCount f' = card (waiting ts')"
  shows "tasks_ok f' ts'"
proof -
  note K = tasks_okD [OF k]
  show ?thesis
    unfolding tasks_ok_def R W rd
  proof (intro conjI allI impI)
    show "reading f = {i. \<exists>t. ts t = CReading i}" using K(3) by blast
    show "j \<in> reading f" if "ts' u = CWaiting j True" for u j using K(4) [OF Z [OF that]] .
    show "u = v" if "ts u = CWriteback p" "ts v = CWriteback p" for u v p using K(1) that .
    show "u = v" if "ts u = CReading j" "ts v = CReading j" for u v j using K(2) that .
  qed (use c in simp_all)
qed

lemma tasks_wait:
  assumes k: "tasks_ok f ts" and t: "ts t = CIdle" and i: "i \<in> reading f"
  shows "tasks_ok (f\<lparr>inReadingWaiterCount := inReadingWaiterCount f + 1\<rparr>) (ts(t := CWaiting i True))"
proof -
  note K = tasks_okD [OF k]
  let ?ts = "ts(t := CWaiting i True)"
  have R: "?ts u = CReading j \<longleftrightarrow> ts u = CReading j" for u j using t by simp
  have W: "?ts u = CWriteback p \<longleftrightarrow> ts u = CWriteback p" for u p using t by simp
  have nw: "t \<notin> waiting ts" using t unfolding waiting_def by simp
  have wt: "waiting ?ts = insert t (waiting ts)" by (auto simp: waiting_def)
  have rd: "reading (f\<lparr>inReadingWaiterCount := inReadingWaiterCount f + 1\<rparr>) = reading f" by (simp add: reading_def)
  show ?thesis
    unfolding tasks_ok_def R W wt rd
  proof (intro conjI allI impI)
    show "reading f = {i. \<exists>t. ts t = CReading i}" using K(3) by blast
    show "j \<in> reading f" if "?ts u = CWaiting j True" for u j using K(4) [of u j] that i by (cases "u = t") simp_all
    show "u = v" if "ts u = CWriteback p" "ts v = CWriteback p" for u v p using K(1) that .
    show "u = v" if "ts u = CReading j" "ts v = CReading j" for u v j using K(2) that .
  qed (use K(5,6) nw in simp_all)
qed

lemma tasks_writeback:
  assumes k: "tasks_ok f ts" and t: "ts t = CIdle" and w: "writers ts p = 0"
  shows "tasks_ok f (ts(t := CWriteback p))"
proof -
  note K = tasks_okD [OF k]
  let ?ts = "ts(t := CWriteback p)"
  have no: "ts u \<noteq> CWriteback p" for u using w by (auto simp: writers_def split: if_splits)
  have R: "?ts u = CReading j \<longleftrightarrow> ts u = CReading j" for u j using t by simp
  have Z: "?ts u = CWaiting j b \<longleftrightarrow> ts u = CWaiting j b" for u j b using t by simp
  have W: "?ts u = CWriteback q \<longleftrightarrow> (if u = t then q = p else ts u = CWriteback q)" for u q by auto
  have wt: "waiting ?ts = waiting ts" unfolding waiting_def Z ..
  show ?thesis
    unfolding tasks_ok_def R W Z wt
  proof (intro conjI allI impI)
    show "reading f = {i. \<exists>t. ts t = CReading i}" using K(3) by blast
    show "j \<in> reading f" if "ts u = CWaiting j True" for u j using K(4) [OF that] .
    show "u = v" if "if u = t then q = p else ts u = CWriteback q" "if v = t then q = p else ts v = CWriteback q" for u v q
      using that no K(1) [of u q v] by (cases "u = t"; cases "v = t") auto
    show "u = v" if "ts u = CReading j" "ts v = CReading j" for u v j using K(2) that .
  qed (use K(5,6) in simp_all)
qed

lemma tasks_read:
  assumes k: "tasks_ok f ts" and t: "ts t = CIdle" and i: "i \<notin> reading f" and r: "reading f' = insert i (reading f)"
    and c: "inReadingWaiterCount f' = inReadingWaiterCount f"
  shows "tasks_ok f' (ts(t := CReading i))"
proof -
  note K = tasks_okD [OF k]
  let ?ts = "ts(t := CReading i)"
  have R: "?ts u = CReading j \<longleftrightarrow> (if u = t then j = i else ts u = CReading j)" for u j by auto
  have W: "?ts u = CWriteback p \<longleftrightarrow> ts u = CWriteback p" for u p using t by simp
  have S: "?ts u = CWaiting j b \<longleftrightarrow> ts u = CWaiting j b" for u j b using t by simp
  have nw: "t \<notin> waiting ts" using t unfolding waiting_def by simp
  have wt: "waiting ?ts = waiting ts" using nw by (simp add: waiting_upd)
  have no: "ts u \<noteq> CReading i" for u using i K(3) by blast
  have rd: "j \<in> reading f' \<longleftrightarrow> (\<exists>u. if u = t then j = i else ts u = CReading j)" for j
    unfolding r using K(3) [of j] t by (cases "j = i") (auto, metis ctask.distinct(3))
  show ?thesis
    unfolding tasks_ok_def R W S wt
  proof (intro conjI allI impI)
    show "reading f' = {i'. \<exists>u. if u = t then i' = i else ts u = CReading i'}" using rd by blast
    show "j \<in> reading f'" if "ts u = CWaiting j True" for u j using K(4) [OF that] r by blast
    show "u = v" if "ts u = CWriteback p" "ts v = CWriteback p" for u v p using K(1) that .
    show "u = v" if "if u = t then j = i else ts u = CReading j" "if v = t then j = i else ts v = CReading j" for u v j
      using that no K(2) [of u j v] by (cases "u = t"; cases "v = t") auto
  qed (use K(5,6) c in simp_all)
qed

lemma cache_invI:
  "chains_ok (cfs s) \<Longrightarrow> reads_ok (cfs s) \<Longrightarrow> ids_unique (cfs s) \<Longrightarrow> tasks_ok (cfs s) (ctasks s) \<Longrightarrow>
   counts_ok (heap (cfs s)) (ctasks s) (crefs s) \<Longrightarrow> cache_inv s"
  by (simp add: cache_inv_def)

lemma counts_tasks: "counts_ok hp ts refs \<Longrightarrow> writers ts' = writers ts \<Longrightarrow> counts_ok hp ts' refs"
  by (simp only: counts_ok_def simp_thms)

lemma node_of_same: "heap f' = heap f \<Longrightarrow> node_of f' = node_of f"
  by (simp add: node_of_def fun_eq_iff)

text \<open>One more user of a node.\<close>

lemma use_inv:
  assumes s: "cache_inv s" and p: "heap (cfs s) p = Some n" "n_state n \<noteq> kInodeState_Deleting"
  shows "cache_inv (s\<lparr>cfs := set_node (cfs s) p (n\<lparr>n_useCount := n_useCount n + 1\<rparr>), crefs := (crefs s)(p := crefs s p + 1)\<rparr>)"
proof -
  note S = cache_invD [OF s] note C = counts_okD [OF S(5)]
  let ?m = "n\<lparr>n_useCount := n_useCount n + 1\<rparr>"
  have m: "i_inid (n_inode ?m) = i_inid (n_inode n)" by simp
  have cn: "counts_ok ((heap (cfs s))(p \<mapsto> ?m)) (ctasks s) ((crefs s)(p := crefs s p + 1))"
    by (rule counts_node [OF S(5)]) (use C(1) [OF p(1)] p(2) in simp_all)
  show ?thesis
    by (rule cache_invI) (use S chains_set_node [OF S(1) p(1) m] ids_set_node [OF p(1) m] cn in \<open>simp_all add: set_node_def\<close>)
qed

subsection \<open>Every step keeps the invariant\<close>

lemma acquire_step:
  assumes s: "cache_inv s" and t: "ctasks s t = CIdle"
  shows "\<exists>r. acquire_retry kalloc (cfs s) inid = Some r \<and> cache_inv (end_acquire s t inid r)"
proof -
  note S = cache_invD [OF s]
  have same: "(ctasks s)(t := CIdle) = ctasks s" using t by (auto simp: fun_eq_iff)
  from S(1,2) show ?thesis
  proof (cases rule: retry_cases [where kalloc = kalloc and inid = inid])
    case (hit p n)
    have "end_acquire s t inid (AcqReturn EOK (Some p), False, set_node (cfs s) p (n\<lparr>n_useCount := n_useCount n + 1\<rparr>)) =
        s\<lparr>cfs := set_node (cfs s) p (n\<lparr>n_useCount := n_useCount n + 1\<rparr>), crefs := (crefs s)(p := crefs s p + 1)\<rparr>"
      by (simp add: end_acquire_def same)
    then show ?thesis using hit(1) use_inv [OF s hit(2,4)] by simp
  next
    case deleting
    have "end_acquire s t inid (AcqReturn ENOENT None, False, cfs s) = s" by (simp add: end_acquire_def same)
    then show ?thesis using deleting s by simp
  next
    case busy
    let ?f = "(cfs s)\<lparr>inReadingWaiterCount := inReadingWaiterCount (cfs s) + 1\<rparr>"
    have "cache_inv (end_acquire s t inid (AcqWait, False, ?f))"
      by (rule cache_invI)
        (use S tasks_wait [OF S(4) t busy(2)] counts_tasks [OF S(5) writers_upd(1)] t in
          \<open>simp_all add: end_acquire_def chains_ok_def reads_ok_def ids_unique_def node_of_def reading_def\<close>)
    then show ?thesis using busy(1) by blast
  next
    case nomem
    let ?bc = "0 < inReadingWaiterCount (cfs s)"
    have ts: "ctasks (end_acquire s t inid (AcqReturn kalloc None, ?bc, cfs s)) = (woken ?bc (ctasks s))(t := CIdle)"
      "cfs (end_acquire s t inid (AcqReturn kalloc None, ?bc, cfs s)) = cfs s" "crefs (end_acquire s t inid (AcqReturn kalloc None, ?bc, cfs s)) = crefs s"
      by (simp_all add: end_acquire_def woken_def Let_def)
    have w: "writers ((woken ?bc (ctasks s))(t := CIdle)) = writers (ctasks s)"
      using writers_upd(1) [of CIdle "woken ?bc (ctasks s)" t] t by (simp add: woken_simps)
    have "cache_inv (end_acquire s t inid (AcqReturn kalloc None, ?bc, cfs s))"
      by (rule cache_invI, unfold ts)
        (use S tasks_leave [OF S(4) disjI1 [OF conjI [OF t refl]] refl refl] counts_tasks [OF S(5) w] in simp_all)
    then show ?thesis using nomem(1) by blast
  next
    case (read f')
    have h: "heap f' = heap (cfs s)" using read(4) by (simp add: same_cached_def)
    have ids: "ids_unique f'" using S(3) read(7) unfolding ids_unique_def node_of_same [OF h] read(3) by (metis insert_iff)
    have w: "writers ((ctasks s)(t := CReading inid)) = writers (ctasks s)" using writers_upd(1) [of "CReading inid" "ctasks s" t] t by simp
    have "cache_inv (end_acquire s t inid (AcqRead, False, f'))"
      by (rule cache_invI)
        (use S same_cached_chains [OF read(4) S(1)] read(2) ids tasks_read [OF S(4) t read(6,3,5)] counts_tasks [OF S(5) w] h in
          \<open>simp_all add: end_acquire_def\<close>)
    then show ?thesis using read(1) by blast
  qed
qed

lemma finish_step:
  assumes s: "cache_inv s" and t: "ctasks s t = CReading i" and n: "e = EOK \<longrightarrow> (\<exists>ip. node = Some ip \<and> i_inid ip = i)"
  shows "\<exists>r. acquire_finish (cfs s) i e node = Some r \<and> cache_inv (end_acquire s t i r)"
proof -
  note S = cache_invD [OF s]
  let ?bc = "0 < inReadingWaiterCount (cfs s)" and ?ts = "(woken (0 < inReadingWaiterCount (cfs s)) (ctasks s))(t := CIdle)"
  have ir: "i \<in> reading (cfs s)" using tasks_okD(3) [OF S(4)] t by blast
  have w: "writers ?ts = writers (ctasks s)" using writers_upd(1) [of CIdle "woken ?bc (ctasks s)" t] t by (simp add: woken_simps)
  have nn: "\<not> node_of (cfs s) i q" for q using S(3) ir unfolding ids_unique_def by blast
  from S(1,2) ir n show ?thesis
  proof (cases rule: finish_cases)
    case (failed f')
    have ids: "ids_unique f'" using S(3) failed(5) unfolding ids_unique_def node_of_same [OF failed(6)] by blast
    have "cache_inv (end_acquire s t i (AcqReturn e None, ?bc, f'))"
      by (rule cache_invI)
        (use failed(3,4,6) ids tasks_leave [OF S(4) disjI2 [OF conjI [OF t failed(5)]] failed(7) refl] counts_tasks [OF S(5) w] in
          \<open>simp_all add: end_acquire_def woken_def Let_def\<close>)
    then show ?thesis using failed(1) by blast
  next
    case (cached f' ip)
    let ?p = "next_ref (cfs s)"
    have no: "node_of f' j q \<longleftrightarrow> q = ?p \<and> j = i \<or> node_of (cfs s) j q" for j q
      using cached(3,4,8) by (auto simp: node_of_def)
    have ids: "ids_unique f'" using S(3) cached(7) nn unfolding ids_unique_def no by blast
    have cn: "counts_ok (heap f') ?ts ((crefs s)(?p := crefs s ?p + 1))"
      unfolding cached(8) by (rule counts_node [OF S(5)]) (use w counts_okD(4,5) [OF S(5) cached(4)] in simp_all)
    have "cache_inv (end_acquire s t i (AcqReturn e (Some ?p), ?bc, f'))"
      by (rule cache_invI)
        (use cached(5,6) ids tasks_leave [OF S(4) disjI2 [OF conjI [OF t cached(7)]] cached(9) refl] cn in
          \<open>simp_all add: end_acquire_def woken_def Let_def\<close>)
    then show ?thesis using cached(1) by blast
  qed
qed

lemma resume_step:
  assumes s: "cache_inv s" and t: "ctasks s t = CWaiting i False"
  shows "\<exists>r. acquire_woken kalloc (cfs s) i = Some r \<and> cache_inv (end_acquire s t i r)"
proof -
  note S = cache_invD [OF s] note K = tasks_okD [OF S(4)]
  have tw: "t \<in> waiting (ctasks s)" using t by (auto simp: waiting_def)
  then have pos: "inReadingWaiterCount (cfs s) \<noteq> 0" using K(5,6) by auto
  let ?f = "(cfs s)\<lparr>inReadingWaiterCount := inReadingWaiterCount (cfs s) - 1\<rparr>"
  define s0 where "s0 = s\<lparr>cfs := ?f, ctasks := (ctasks s)(t := CIdle)\<rparr>"
  have wt: "waiting ((ctasks s)(t := CIdle)) = waiting (ctasks s) - {t}" by (simp add: waiting_upd)
  have R: "((ctasks s)(t := CIdle)) u = CReading j \<longleftrightarrow> ctasks s u = CReading j" for u j using t by simp
  have W: "((ctasks s)(t := CIdle)) u = CWriteback p \<longleftrightarrow> ctasks s u = CWriteback p" for u p using t by simp
  have Z: "((ctasks s)(t := CIdle)) u = CWaiting j True \<longleftrightarrow> ctasks s u = CWaiting j True" for u j using t by simp
  have rd: "reading ?f = reading (cfs s)" by (simp add: reading_def)
  have tk: "tasks_ok ?f ((ctasks s)(t := CIdle))"
  proof (rule tasks_cong [OF S(4) rd])
    show "finite (waiting ((ctasks s)(t := CIdle)))" "inReadingWaiterCount ?f = card (waiting ((ctasks s)(t := CIdle)))"
      unfolding wt using K(5,6) tw by simp_all
  qed (use R W Z in blast)+
  have w: "writers ((ctasks s)(t := CIdle)) = writers (ctasks s)" using writers_upd(1) [of CIdle "ctasks s" t] t by simp
  have s0: "cache_inv s0"
    by (rule cache_invI)
      (use S tk counts_tasks [OF S(5) w] in \<open>simp_all add: s0_def chains_ok_def reads_ok_def ids_unique_def node_of_def reading_def\<close>)
  have "ctasks s0 t = CIdle" by (simp add: s0_def)
  from acquire_step [OF s0 this] obtain r where r: "acquire_retry kalloc (cfs s0) i = Some r" "cache_inv (end_acquire s0 t i r)" by blast
  have wk: "(wake_all ((ctasks s)(t := CIdle)))(t := x) = (wake_all (ctasks s))(t := x)" for x by (simp add: wake_all_def fun_eq_iff)
  obtain a bc f where rr: "r = (a, bc, f)" by (metis prod_cases3)
  have "end_acquire s0 t i r = end_acquire s t i r"
    by (simp add: end_acquire_def s0_def wk rr Let_def split: acquire_end.split option.split)
  then show ?thesis using r pos by (simp add: acquire_woken_def s0_def)
qed

lemma node_inv:
  assumes s: "cache_inv s" and p: "heap (cfs s) p = Some n" "i_inid (n_inode m) = i_inid (n_inode n)"
    and c: "counts_ok ((heap (cfs s))(p \<mapsto> m)) ts refs" and k: "tasks_ok (cfs s) ts"
  shows "cache_inv (s\<lparr>cfs := set_node (cfs s) p m, ctasks := ts, crefs := refs\<rparr>)"
  by (rule cache_invI)
    (use cache_invD [OF s] chains_set_node [OF cache_invD(1) [OF s] p] ids_set_node [OF p] c k in \<open>simp_all add: set_node_def\<close>)

lemma free_inv:
  assumes s: "cache_inv s" and f: "chains_ok f'" "heap f' = (heap (cfs s))(p := None)" "inReading f' = inReading (cfs s)"
      "reads_ok f'" "inReadingWaiterCount f' = inReadingWaiterCount (cfs s)"
    and c: "counts_ok (heap f') ts refs" and k: "tasks_ok (cfs s) ts"
  shows "cache_inv (s\<lparr>cfs := f', ctasks := ts, crefs := refs\<rparr>)"
proof -
  note S = cache_invD [OF s]
  have rd: "reading f' = reading (cfs s)" using f(3) by (simp add: reading_def)
  have no: "node_of f' i q \<Longrightarrow> node_of (cfs s) i q" for i q using f(2) by (auto simp: node_of_def split: if_splits)
  have "ids_unique f'" using S(3) no unfolding ids_unique_def rd by blast
  moreover have "tasks_ok f' ts" by (rule tasks_cong [OF k rd refl refl]) (use tasks_okD(5,6) [OF k] f(5) in simp_all)
  ultimately show ?thesis by (intro cache_invI) (use f(1,4) c in simp_all)
qed

lemma no_writer: "writers ts p = 0 \<Longrightarrow> ts t \<noteq> CWriteback p"
  by (auto simp: writers_def split: if_splits)

lemma relinquish_shared:
  assumes s: "cache_inv s" and p: "0 < crefs s p" and n: "heap (cfs s) p = Some n" "n_useCount n \<noteq> 1"
  shows "\<exists>s'. cache_step (CRelinquish t p) s = Some s' \<and> cache_inv s'"
proof -
  note S = cache_invD [OF s] note C = counts_okD(1-3) [OF S(5) n(1)]
  let ?refs = "(crefs s)(p := crefs s p - 1)"
  have nd: "n_state n \<noteq> kInodeState_Deleting" using C(3) p by auto
  have pos: "0 < n_useCount n" using C(1) p by simp
  have e: "relinquish_enter (cfs s) p = Some (False, cfs s)" using n by (simp add: relinquish_enter_def)
  from S(1) n(1) pos show ?thesis
  proof (cases rule: leave_cases)
    case used
    let ?m = "n\<lparr>n_useCount := n_useCount n - 1\<rparr>"
    have c: "counts_ok ((heap (cfs s))(p \<mapsto> ?m)) (ctasks s) ?refs"
      by (rule counts_node [OF S(5)]) (use C(1) p used(2) nd in auto)
    have "cache_inv (s\<lparr>cfs := set_node (cfs s) p ?m, ctasks := ctasks s, crefs := ?refs\<rparr>)"
      by (rule node_inv [OF s n(1) _ c S(4)]) simp
    then show ?thesis using e used(1) by (simp add: Let_def)
  qed (use n(2) in simp)
qed

text \<open>The end of the last use removes the inode from the table; \<open>m\<close> is what the inode is by then.\<close>

lemma leave_last:
  assumes s: "cache_inv s" and n: "heap (cfs s) p = Some n" and m: "i_inid (n_inode m) = i_inid (n_inode n)" "n_useCount m = 1"
    and w: "\<And>q. writers ts q = (if q = p then 0 else writers (ctasks s) q)" and k: "tasks_ok (cfs s) ts"
  shows "\<exists>f'. relinquish_leave (set_node (cfs s) p m) p = Some f' \<and> cache_inv (s\<lparr>cfs := f', ctasks := ts, crefs := (crefs s)(p := 0)\<rparr>)"
proof -
  note S = cache_invD [OF s]
  have cm: "chains_ok (set_node (cfs s) p m)" using chains_set_node [OF S(1) n m(1)] .
  have hm: "heap (set_node (cfs s) p m) p = Some m" "0 < n_useCount m" using m(2) by (simp_all add: set_node_def)
  from cm hm show ?thesis
  proof (cases rule: leave_cases)
    case (last f')
    have hf: "heap f' = (heap (cfs s))(p := None)" "inReading f' = inReading (cfs s)" "reads_ok f'"
      "inReadingWaiterCount f' = inReadingWaiterCount (cfs s)"
      using last(4-7) S(2) ids_set_node(2) [OF n m(1)] by (simp_all add: set_node_def)
    have c: "counts_ok (heap f') ts ((crefs s)(p := 0))"
      unfolding hf(1) by (rule counts_free [OF S(5)]) (use w in simp_all)
    show ?thesis using last(1) free_inv [OF s last(3) hf c k] by blast
  qed (use m(2) in simp)
qed

lemma relinquish_step:
  assumes s: "cache_inv s" and t: "ctasks s t = CIdle" and p: "0 < crefs s p"
  shows "\<exists>s'. cache_step (CRelinquish t p) s = Some s' \<and> cache_inv s'"
proof -
  note S = cache_invD [OF s] note C = counts_okD [OF S(5), of p]
  obtain n where n: "heap (cfs s) p = Some n" using C(4) p by (cases "heap (cfs s) p") auto
  note C = C(1-3) [OF n]
  let ?refs = "(crefs s)(p := crefs s p - 1)"
  show ?thesis
  proof (cases "n_useCount n = 1")
    case True
    then have one: "crefs s p = 1" "writers (ctasks s) p = 0" using C(1) p by auto
    define st where "st = (if i_linkCount (n_inode n) = 0 then kInodeState_Deleting
      else if Inode_IsModified (n_inode n) then kInodeState_Writeback else n_state n)"
    define m where "m = n\<lparr>n_state := st\<rparr>"
    have m: "i_inid (n_inode m) = i_inid (n_inode n)" "n_useCount m = 1" "n_state m = st" using True by (simp_all add: m_def)
    have e: "relinquish_enter (cfs s) p = Some (st = kInodeState_Writeback \<or> st = kInodeState_Deleting, set_node (cfs s) p m)"
      using n True by (simp add: relinquish_enter_def st_def m_def Let_def)
    show ?thesis
    proof (cases "st = kInodeState_Writeback \<or> st = kInodeState_Deleting")
      case wb: True
      let ?ts = "(ctasks s)(t := CWriteback p)"
      have wr: "writers ?ts q = (if q = p then 1 else writers (ctasks s) q)" for q
        using t unfolding writers_def by (cases "q = p") (auto, metis ctask.distinct(5))
      have c: "counts_ok ((heap (cfs s))(p \<mapsto> m)) ?ts ?refs"
        by (rule counts_node [OF S(5)]) (use wr m one in simp_all)
      have k: "tasks_ok (cfs s) ?ts" by (rule tasks_writeback [OF S(4) t one(2)])
      have "cache_inv (s\<lparr>cfs := set_node (cfs s) p m, ctasks := ?ts, crefs := ?refs\<rparr>)" by (rule node_inv [OF s n m(1) c k])
      then show ?thesis using e wb by (simp add: Let_def)
    next
      case nowb: False
      have w: "writers (ctasks s) q = (if q = p then 0 else writers (ctasks s) q)" for q using one(2) by simp
      have "?refs = (crefs s)(p := 0)" using one by simp
      then show ?thesis using e nowb leave_last [OF s n m(1,2) w S(4)] by (auto simp: Let_def)
    qed
  qed (rule relinquish_shared [OF s p n])
qed

lemma tasks_written:
  assumes k: "tasks_ok f ts" and t: "ts t = CWriteback p"
  shows "tasks_ok f (ts(t := CIdle))" "writers (ts(t := CIdle)) q = (if q = p then 0 else writers ts q)"
proof -
  note K = tasks_okD [OF k]
  let ?ts = "ts(t := CIdle)"
  have R: "?ts u = CReading j \<longleftrightarrow> ts u = CReading j" for u j using t by simp
  have Z: "?ts u = CWaiting j b \<longleftrightarrow> ts u = CWaiting j b" for u j b using t by simp
  have W: "?ts u = CWriteback r \<Longrightarrow> ts u = CWriteback r" for u r by (simp split: if_splits)
  have wt: "waiting ?ts = waiting ts" unfolding waiting_def Z ..
  show "tasks_ok f ?ts" unfolding tasks_ok_def R Z wt
  proof (intro conjI)
    show "\<forall>v u r. ?ts v = CWriteback r \<longrightarrow> ?ts u = CWriteback r \<longrightarrow> v = u" using K(1) W by blast
    show "\<forall>v u i. ts v = CReading i \<longrightarrow> ts u = CReading i \<longrightarrow> v = u" using K(2) by blast
    show "\<forall>u i. ts u = CWaiting i True \<longrightarrow> i \<in> reading f" using K(4) by blast
    show "reading f = {i. \<exists>t. ts t = CReading i}" using K(3) by blast
    show "finite (waiting ts)" "inReadingWaiterCount f = card (waiting ts)" using K(5,6) by blast+
  qed
  show "writers ?ts q = (if q = p then 0 else writers ts q)"
  proof (cases "q = p")
    case True
    have "?ts u \<noteq> CWriteback p" for u using K(1) [OF t, of u] by auto
    then show ?thesis using True by (simp add: writers_def del: fun_upd_apply)
  next
    case False
    have "?ts u = CWriteback q \<longleftrightarrow> ts u = CWriteback q" for u using False t by simp
    then show ?thesis using False by (simp add: writers_def del: fun_upd_apply)
  qed
qed

lemma writeback_step:
  assumes s: "cache_inv s" and t: "ctasks s t = CWriteback p" and n: "heap (cfs s) p = Some n" "i_inid node = i_inid (n_inode n)"
  shows "\<exists>s'. cache_step (CWritebackDone t node) s = Some s' \<and> cache_inv s'"
proof -
  note S = cache_invD [OF s] note C = counts_okD(1-3) [OF S(5) n(1)] note T = tasks_written [OF S(4) t]
  let ?ts = "(ctasks s)(t := CIdle)"
  define m where "m = n\<lparr>n_inode := node\<rparr>"
  have m: "i_inid (n_inode m) = i_inid (n_inode n)" "n_useCount m = n_useCount n" "n_state m = n_state n" using n(2) by (simp_all add: m_def)
  have w1: "writers (ctasks s) p = 1" using t by (auto simp: writers_def)
  have step: "cache_step (CWritebackDone t node) s = map_option (\<lambda>f. s\<lparr>cfs := f, ctasks := ?ts\<rparr>) (relinquish_leave (set_node (cfs s) p m) p)"
    using n(1) t by (simp add: m_def)
  show ?thesis
  proof (cases "n_useCount n = 1")
    case True
    then have "(crefs s)(p := 0) = crefs s" using C(1) w1 by (simp add: fun_eq_iff)
    moreover obtain f' where f': "relinquish_leave (set_node (cfs s) p m) p = Some f'"
      "cache_inv (s\<lparr>cfs := f', ctasks := ?ts, crefs := (crefs s)(p := 0)\<rparr>)"
      using leave_last [OF s n(1) m(1) _ T(2) T(1)] m(2) True by metis
    ultimately show ?thesis using step by simp
  next
    case False
    let ?m = "m\<lparr>n_useCount := n_useCount m - 1\<rparr>"
    have pos: "0 < crefs s p" using C(1) w1 False by (cases "crefs s p") simp_all
    then have nd: "n_state n \<noteq> kInodeState_Deleting" using C(3) by auto
    have "counts_ok ((heap (cfs s))(p \<mapsto> ?m)) ?ts ((crefs s)(p := crefs s p))"
      by (rule counts_node [OF S(5)]) (use T(2) C(1) m w1 pos nd in \<open>simp_all del: fun_upd_apply\<close>)
    then have c: "counts_ok ((heap (cfs s))(p \<mapsto> ?m)) ?ts (crefs s)" by simp
    have "cache_inv (s\<lparr>cfs := set_node (cfs s) p ?m, ctasks := ?ts, crefs := crefs s\<rparr>)"
      by (rule node_inv [OF s n(1) _ c T(1)]) (use m(1) in simp)
    moreover have "relinquish_leave (set_node (cfs s) p m) p = Some (set_node (cfs s) p ?m)"
      using False m(2) C(1) w1 by (simp add: relinquish_leave_def set_node_def)
    ultimately show ?thesis using step by simp
  qed
qed

lemma modify_step:
  assumes s: "cache_inv s" and n: "heap (cfs s) p = Some n" "i_inid node = i_inid (n_inode n)"
  shows "cache_inv (s\<lparr>cfs := set_node (cfs s) p (n\<lparr>n_inode := node\<rparr>)\<rparr>)"
proof -
  note S = cache_invD [OF s] note C = counts_okD(1-3) [OF S(5) n(1)]
  let ?m = "n\<lparr>n_inode := node\<rparr>"
  have "counts_ok ((heap (cfs s))(p \<mapsto> ?m)) (ctasks s) ((crefs s)(p := crefs s p))"
    by (rule counts_node [OF S(5)]) (use C in auto)
  then have c: "counts_ok ((heap (cfs s))(p \<mapsto> ?m)) (ctasks s) (crefs s)" by simp
  have "cache_inv (s\<lparr>cfs := set_node (cfs s) p ?m, ctasks := ctasks s, crefs := crefs s\<rparr>)"
    by (rule node_inv [OF s n(1) _ c S(4)]) (use n(2) in simp)
  then show ?thesis by simp
qed

lemma cache_inv_cong:
  assumes s: "cache_inv s" and f: "inCached f = inCached (cfs s)" "inCachedCount f = inCachedCount (cfs s)" "inReading f = inReading (cfs s)"
    "inReadingCount f = inReadingCount (cfs s)" "inReadingWaiterCount f = inReadingWaiterCount (cfs s)"
    "inReadingCache f = inReadingCache (cfs s)" "inReadingCacheCount f = inReadingCacheCount (cfs s)" "heap f = heap (cfs s)"
    "next_ref f = next_ref (cfs s)"
  shows "cache_inv (s\<lparr>cfs := f\<rparr>)"
proof -
  note S = cache_invD [OF s]
  have rd: "reading f = reading (cfs s)" by (simp only: reading_def f)
  have "chains_ok f" using S(1) unfolding chains_ok_def f .
  moreover have "reads_ok f" using S(2) unfolding reads_ok_def f rd .
  moreover have "ids_unique f" using S(3) unfolding ids_unique_def node_of_def f rd .
  moreover have "tasks_ok f (ctasks s)" using S(4) unfolding tasks_ok_def f rd .
  moreover have "counts_ok (heap f) (ctasks s) (crefs s)" using S(5) unfolding f .
  ultimately show ?thesis by (simp add: cache_inv_def)
qed

lemma state_step:
  assumes s: "cache_inv s"
  shows "cache_inv (s\<lparr>cfs := snd (Filesystem_Start r (cfs s))\<rparr>)" "cache_inv (s\<lparr>cfs := snd (Filesystem_Stop e (cfs s) forced)\<rparr>)"
  by (rule cache_inv_cong [OF s]; simp add: Filesystem_Start_def Filesystem_Stop_def split: FilesystemState.split prod.split)+

lemma spurious_step:
  assumes s: "cache_inv s" and t: "ctasks s t = CWaiting i b"
  shows "cache_inv (s\<lparr>ctasks := (ctasks s)(t := CWaiting i False)\<rparr>)"
proof -
  note S = cache_invD [OF s]
  let ?ts = "(ctasks s)(t := CWaiting i False)"
  have wt: "waiting ?ts = waiting (ctasks s)" using t by (auto simp: waiting_def)
  have "tasks_ok (cfs s) ?ts"
  proof (rule tasks_cong [OF S(4) refl])
    show "finite (waiting ?ts)" "inReadingWaiterCount (cfs s) = card (waiting ?ts)" unfolding wt using tasks_okD(5,6) [OF S(4)] by simp_all
  qed (use t in \<open>auto split: if_splits\<close>)
  moreover have "counts_ok (heap (cfs s)) ?ts (crefs s)" by (rule counts_tasks [OF S(5)]) (rule writers_upd(1), use t in simp_all)
  ultimately show ?thesis using S(1-3) by (simp add: cache_inv_def)
qed

subsection \<open>Every step\<close>

lemma reacquire_step:
  assumes s: "cache_inv s" and p: "0 < crefs s p"
  shows "\<exists>s'. cache_step (CReacquire p) s = Some s' \<and> cache_inv s'"
proof -
  note C = counts_okD [OF cache_invD(5) [OF s], of p]
  obtain n where n: "heap (cfs s) p = Some n" using C(4) p by (cases "heap (cfs s) p") auto
  have "n_state n \<noteq> kInodeState_Deleting" using C(3) [OF n] p by auto
  then show ?thesis using use_inv [OF s n] n by (simp add: Filesystem_ReacquireNode_def)
qed

lemma cache_step_ok:
  assumes s: "cache_inv s" and g: "cache_guard x s"
  shows "\<exists>s'. cache_step x s = Some s' \<and> cache_inv s'"
proof (cases x)
  case (CAcquire t inid kalloc)
  then have t: "ctasks s t = CIdle" using g by simp
  then have "s\<lparr>ctasks := (ctasks s)(t := CIdle)\<rparr> = s" by (simp add: fun_upd_idem)
  then have "end_acquire s t inid (AcqReturn ENXIO None, False, cfs s) = s" by (simp add: end_acquire_def)
  then show ?thesis using acquire_step [OF s t, of kalloc inid] CAcquire s
    by (cases "fsState (cfs s) = kFilesystemState_Active") (auto simp: acquire_enter_def simp del: split_paired_Ex)
next
  case (CSpuriousWakeup t)
  then show ?thesis using spurious_step [OF s, of t] s by (cases "ctasks s t") auto
next
  case (CResume t kalloc)
  then obtain i where "ctasks s t = CWaiting i False" using g by auto
  then show ?thesis using resume_step [OF s, of t i kalloc] CResume by auto
next
  case (CReadDone t e node)
  then show ?thesis using finish_step [OF s, of t _ e node] g s by (cases "ctasks s t") fastforce+
next
  case (CReacquire p)
  then show ?thesis using reacquire_step [OF s] g by simp
next
  case (CRelinquish t p)
  then show ?thesis using relinquish_step [OF s, of t p] g by (simp del: cache_step.simps)
next
  case (CWritebackDone t node)
  show ?thesis
  proof (cases "ctasks s t")
    case (CWriteback p)
    then obtain n where "heap (cfs s) p = Some n" "i_inid node = i_inid (n_inode n)"
      using g CWritebackDone by (auto simp: same_id_def split: option.splits)
    then show ?thesis using writeback_step [OF s CWriteback] CWritebackDone by blast
  qed (use s CWritebackDone in simp_all)
next
  case (CModify p node)
  then show ?thesis using modify_step [OF s, of p] g by (auto simp: same_id_def split: option.splits)
qed (use state_step [OF s] in simp_all)

interpretation nodecache: guarded_system cache_inv cache_step cache_guard
  by unfold_locales (rule cache_step_ok)

subsection \<open>Runs from an empty cache\<close>

definition csys_start :: "nat \<Rightarrow> csys" where
  "csys_start first = \<lparr>cfs = Filesystem_Create first, ctasks = (\<lambda>_. CIdle), crefs = (\<lambda>_. 0)\<rparr>"

lemma csys_start_inv: "cache_inv (csys_start first)"
proof (rule cache_invI)
  have r: "reading (Filesystem_Create first) = {}" using hash_less(2) by (simp add: reading_def Filesystem_Create_def)
  show "chains_ok (cfs (csys_start first))" by (simp add: csys_start_def Filesystem_Create_def chains_ok_def in_chain_def)
  show "reads_ok (cfs (csys_start first))" using r by (simp add: csys_start_def reads_ok_def) (simp add: Filesystem_Create_def)
  show "ids_unique (cfs (csys_start first))" by (simp add: csys_start_def Filesystem_Create_def ids_unique_def node_of_def)
  show "tasks_ok (cfs (csys_start first)) (ctasks (csys_start first))"
    using r by (simp add: csys_start_def tasks_ok_def waiting_def) (simp add: Filesystem_Create_def)
  show "counts_ok (heap (cfs (csys_start first))) (ctasks (csys_start first)) (crefs (csys_start first))"
    by (simp add: csys_start_def Filesystem_Create_def counts_ok_def writers_def)
qed

text \<open>What the invariant says of the threads and the clients.\<close>

lemma cache_inv_users:
  assumes s: "cache_inv s"
  shows "\<lbrakk>heap (cfs s) p = Some m; heap (cfs s) q = Some n; i_inid (n_inode m) = i_inid (n_inode n)\<rbrakk> \<Longrightarrow> p = q"
    "0 < crefs s p \<Longrightarrow> \<exists>n. heap (cfs s) p = Some n \<and> n_state n \<noteq> kInodeState_Deleting \<and> int (crefs s p) \<le> n_useCount n"
    "ctasks s t = CWaiting i True \<Longrightarrow> \<exists>u. ctasks s u = CReading i"
    "\<lbrakk>\<And>t. ctasks s t = CIdle; \<And>p. crefs s p = 0\<rbrakk> \<Longrightarrow> inCachedCount (cfs s) = 0 \<and> inReadingCount (cfs s) = 0"
proof -
  note S = cache_invD [OF s] note C = counts_okD [OF S(5)] note K = tasks_okD [OF S(4)]
  show "p = q" if "heap (cfs s) p = Some m" "heap (cfs s) q = Some n" "i_inid (n_inode m) = i_inid (n_inode n)"
    using S(3) that unfolding ids_unique_def node_of_def by metis
  show "\<exists>n. heap (cfs s) p = Some n \<and> n_state n \<noteq> kInodeState_Deleting \<and> int (crefs s p) \<le> n_useCount n" if p: "0 < crefs s p"
  proof -
    obtain n where n: "heap (cfs s) p = Some n" using C(4) p by (cases "heap (cfs s) p") auto
    then show ?thesis using C(1,3) [OF n] p by auto
  qed
  show "\<exists>u. ctasks s u = CReading i" if "ctasks s t = CWaiting i True" using K(3,4) that by blast
  show "inCachedCount (cfs s) = 0 \<and> inReadingCount (cfs s) = 0" if idle: "\<And>t. ctasks s t = CIdle" and refs: "\<And>p. crefs s p = 0"
  proof
    have "heap (cfs s) p = None" for p
    proof (rule ccontr)
      assume "heap (cfs s) p \<noteq> None"
      then obtain n where "heap (cfs s) p = Some n" by auto
      then show False using C(2) refs idle by (simp add: writers_def)
    qed
    then have "dom (heap (cfs s)) = {}" by auto
    then show "inCachedCount (cfs s) = 0" using chains_okD(6) [OF S(1)] by simp
    have "reading (cfs s) = {}" using K(3) idle by auto
    then show "inReadingCount (cfs s) = 0" using S(2) by (simp add: reads_ok_def)
  qed
qed

text \<open>
  C9. The inode cache is safe for any number of threads. In every interleaving of acquiring, waiting, reading, reacquiring, changing,
  writing back and relinquishing inodes, and of starting and stopping the filesystem, no step faults. Afterwards an inode is in memory at
  most once, every inode that a client holds is in memory, is not being deleted and has a use count that covers its clients, and a thread
  that sleeps waits for an inode that another thread is reading. When no thread is inside the cache and no client holds an inode, the
  cache is empty.
\<close>

theorem inode_cache_safe:
  "\<exists>s. run_guarded cache_step cache_guard ops (csys_start first) = Some s
     \<and> (\<forall>p q m n. heap (cfs s) p = Some m \<and> heap (cfs s) q = Some n \<and> i_inid (n_inode m) = i_inid (n_inode n) \<longrightarrow> p = q)
     \<and> (\<forall>p. 0 < crefs s p \<longrightarrow> (\<exists>n. heap (cfs s) p = Some n \<and> n_state n \<noteq> kInodeState_Deleting \<and> int (crefs s p) \<le> n_useCount n))
     \<and> (\<forall>t i. ctasks s t = CWaiting i True \<longrightarrow> (\<exists>u. ctasks s u = CReading i))
     \<and> ((\<forall>t. ctasks s t = CIdle) \<and> (\<forall>p. crefs s p = 0) \<longrightarrow> inCachedCount (cfs s) = 0 \<and> inReadingCount (cfs s) = 0)"
proof -
  obtain s where s: "run_guarded cache_step cache_guard ops (csys_start first) = Some s" "cache_inv s"
    using nodecache.run_guarded_ok [OF csys_start_inv] by blast
  show ?thesis by (rule exI [of _ s]) (use s(1) cache_inv_users [OF s(2)] in blast)
qed

text \<open>Two threads want the same inode; the second one waits until the first one has read it.\<close>

definition demo_node :: Inode where
  "demo_node = \<lparr>i_accessTime = (0, 0), i_modificationTime = (0, 0), i_statusChangeTime = (0, 0), i_size = 0, i_inid = 5, i_pnid = 1, i_linkCount = 1,
     i_fileType = FS_FTYPE_REG, i_permissions = 420, i_uid = 0, i_gid = 0, i_flags = 2, i_indirect = 0, i_direct = []\<rparr>"

definition demo_cache_ops :: "cache_op list" where
  "demo_cache_ops = [CStart (EOK, 1, False), CAcquire 0 5 EOK, CAcquire 1 5 EOK, CReadDone 0 EOK (Some demo_node), CResume 1 EOK,
     CRelinquish 0 9, CRelinquish 1 9, CWritebackDone 1 (demo_node\<lparr>i_flags := 0\<rparr>)]"

lemmas demo_cache_simps = demo_cache_ops_def demo_node_def csys_start_def Filesystem_Create_def Filesystem_Start_def acquire_enter_def
  acquire_retry_def PrepReadingNode_def FinReadingNode_def acquire_finish_def acquire_woken_def end_acquire_def wake_all_def set_node_def
  IN_CACHED_HASH_INDEX_def IN_READING_HASH_INDEX_def hash_djb2_scalar_def relinquish_enter_def relinquish_leave_def Inode_IsModified_def
  same_id_def arr_get_def arr_set_def Let_def

lemma demo_cache_run:
  "\<exists>s. run_guarded cache_step cache_guard demo_cache_ops (csys_start 9) = Some s \<and> (\<forall>t. ctasks s t = CIdle) \<and> (\<forall>p. crefs s p = 0)"
  "\<exists>s. run_guarded cache_step cache_guard (take 3 demo_cache_ops) (csys_start 9) = Some s \<and> ctasks s 1 = CWaiting 5 True"
  by (simp_all add: demo_cache_simps)

lemma inode_cache_safe_witness:
  "(\<exists>s. run_guarded cache_step cache_guard demo_cache_ops (csys_start 9) = Some s \<and> inCachedCount (cfs s) = 0 \<and> inReadingCount (cfs s) = 0)
   \<and> (\<exists>s u. run_guarded cache_step cache_guard (take 3 demo_cache_ops) (csys_start 9) = Some s \<and> ctasks s u = CReading 5)"
proof
  obtain s where s: "run_guarded cache_step cache_guard demo_cache_ops (csys_start 9) = Some s" "\<forall>t. ctasks s t = CIdle" "\<forall>p. crefs s p = 0"
    using demo_cache_run(1) by blast
  have "inCachedCount (cfs s) = 0 \<and> inReadingCount (cfs s) = 0" using inode_cache_safe [of demo_cache_ops 9] s by (simp only: s(1)) blast
  with s(1) show "\<exists>s. run_guarded cache_step cache_guard demo_cache_ops (csys_start 9) = Some s \<and> inCachedCount (cfs s) = 0 \<and> inReadingCount (cfs s) = 0"
    by blast
  obtain s where s: "run_guarded cache_step cache_guard (take 3 demo_cache_ops) (csys_start 9) = Some s" "ctasks s 1 = CWaiting 5 True"
    using demo_cache_run(2) by blast
  have "\<exists>u. ctasks s u = CReading 5" using inode_cache_safe [of "take 3 demo_cache_ops" 9] s by (simp only: s(1)) blast
  with s(1) show "\<exists>s u. run_guarded cache_step cache_guard (take 3 demo_cache_ops) (csys_start 9) = Some s \<and> ctasks s u = CReading 5"
    by blast
qed

end
