(* ===== verification/Lsta.thy ===== *)
theory Lsta
  imports Prelude
begin

section \<open>The heap\<close>

text \<open>
  The allocator of the kernel and of the C library, \<open>user/lib/libc/src/malloc/__lsta.c\<close>, on a memory of bytes. Its regions, its blocks and
  the descriptor of the allocator itself live in that memory, so the model reads and writes them there. Pointers are byte addresses, and address
  arithmetic wraps at 32 bits. A call of the error function is part of the result; what it does is up to the clients of the allocator.
\<close>

subsection \<open>Memory\<close>

type_synonym mem = "nat \<Rightarrow> u8"

definition ld :: "mem \<Rightarrow> nat \<Rightarrow> u32" where
  "ld m a = push_bit 24 (ucast (m a)) OR push_bit 16 (ucast (m (a + 1))) OR push_bit 8 (ucast (m (a + 2))) OR ucast (m (a + 3))"

definition sw :: "mem \<Rightarrow> nat \<Rightarrow> u32 \<Rightarrow> mem" where
  "sw m a v = m(a := ucast (drop_bit 24 v), a + 1 := ucast (drop_bit 16 v), a + 2 := ucast (drop_bit 8 v), a + 3 := ucast v)"

text \<open>A word as a pointer and as a \<open>word_t\<close>, a signed integer.\<close>

definition ldp :: "mem \<Rightarrow> nat \<Rightarrow> nat" where
  "ldp m a = unat (ld m a)"

definition lds :: "mem \<Rightarrow> nat \<Rightarrow> int" where
  "lds m a = sint (ld m a)"

definition stp :: "mem \<Rightarrow> nat \<Rightarrow> nat \<Rightarrow> mem" where
  "stp m a p = sw m a (of_nat p)"

definition sts :: "mem \<Rightarrow> nat \<Rightarrow> int \<Rightarrow> mem" where
  "sts m a i = sw m a (of_int i)"

definition padd :: "nat \<Rightarrow> int \<Rightarrow> nat" where
  "padd p i = nat ((int p + i) mod 4294967296)"

definition wrap32 :: "int \<Rightarrow> int" where
  "wrap32 x = (x + 2147483648) mod 4294967296 - 2147483648"

text \<open>The macro \<open>__abs\<close> on a \<open>word_t\<close>, and rounding of an unsigned number to words.\<close>

definition abs_word :: "int \<Rightarrow> int" where
  "abs_word x = (if x < 0 then wrap32 (- x) else x)"

definition ceil_word :: "nat \<Rightarrow> nat" where
  "ceil_word x = (x + 3) mod 4294967296 div 4 * 4"

definition floor_word :: "nat \<Rightarrow> nat" where
  "floor_word x = x div 4 * 4"

definition memcpy :: "mem \<Rightarrow> nat \<Rightarrow> nat \<Rightarrow> nat \<Rightarrow> mem" where
  "memcpy m dst src n = (\<lambda>a. if dst \<le> a \<and> a < dst + n then m (src + (a - dst)) else m a)"

definition memset :: "mem \<Rightarrow> nat \<Rightarrow> u8 \<Rightarrow> nat \<Rightarrow> mem" where
  "memset m dst v n = (\<lambda>a. if dst \<le> a \<and> a < dst + n then v else m a)"

subsection \<open>Blocks and regions\<close>

text \<open>
  A block starts with a header (size, pattern) and ends with a trailer (pattern, size), 8 bytes each. A negative size says that the block is
  allocated. A region starts with its descriptor: the next region, the bounds of its blocks, the error function.
\<close>

abbreviation (input) NULL :: nat where "NULL \<equiv> 0"
abbreviation (input) UINTPTR_MAX :: nat where "UINTPTR_MAX \<equiv> 4294967295"
abbreviation HEADER_PATTERN :: u32 where "HEADER_PATTERN \<equiv> 0x62686472"
abbreviation TRAILER_PATTERN :: u32 where "TRAILER_PATTERN \<equiv> 0x6274726c"
abbreviation (input) MIN_GROSS_BLOCK_SIZE :: nat where "MIN_GROSS_BLOCK_SIZE \<equiv> 20"
abbreviation (input) MAX_NET_BLOCK_SIZE :: nat where "MAX_NET_BLOCK_SIZE \<equiv> 2147483631"

datatype merr = MERR_CORRUPTION | MERR_DOUBLE_FREE

definition set_header :: "mem \<Rightarrow> nat \<Rightarrow> int \<Rightarrow> mem" where
  "set_header m p sz = sw (sts m p sz) (p + 4) HEADER_PATTERN"

definition set_trailer :: "mem \<Rightarrow> nat \<Rightarrow> int \<Rightarrow> mem" where
  "set_trailer m p sz = sw (sts m (p + 4) sz) p TRAILER_PATTERN"

definition validate_block_header :: "mem \<Rightarrow> nat \<Rightarrow> bool" where
  "validate_block_header m bhdr \<longleftrightarrow> ld m (bhdr + 4) = HEADER_PATTERN"

definition validate_block_trailer :: "mem \<Rightarrow> nat \<Rightarrow> bool" where
  "validate_block_trailer m btrl \<longleftrightarrow> ld m btrl = TRAILER_PATTERN"

text \<open>The new region, or NULL; the descriptor is written before the last test.\<close>

definition mem_region_create :: "mem \<Rightarrow> nat \<Rightarrow> nat \<Rightarrow> nat \<Rightarrow> nat \<times> mem" where
  "mem_region_create m md_lower md_upper errFunc =
     (let bptr = ceil_word md_lower; tptr = floor_word md_upper in
      if tptr < bptr then (NULL, m)
      else if tptr - bptr < 16 then (NULL, m)
      else
        let lower = ceil_word (padd bptr 16);
            m1 = stp (stp (stp (stp m bptr NULL) (bptr + 4) lower) (bptr + 8) tptr) (bptr + 12) errFunc;
            len = (int tptr - int lower) mod 4294967296 in
        if len < int MIN_GROSS_BLOCK_SIZE then (NULL, m1)
        else (bptr, set_trailer (set_header m1 lower (wrap32 len)) (padd tptr (- 8)) (wrap32 len)))"

definition mem_region_manages :: "mem \<Rightarrow> nat \<Rightarrow> nat \<Rightarrow> bool" where
  "mem_region_manages m mr addr \<longleftrightarrow> ldp m (mr + 4) \<le> addr \<and> addr < ldp m (mr + 8)"

definition mem_region_block_size :: "mem \<Rightarrow> nat \<Rightarrow> nat \<Rightarrow> nat \<times> merr option" where
  "mem_region_block_size m mr ptr =
     (let bhdr = padd ptr (- 8) in
      if validate_block_header m bhdr then (nat ((abs_word (lds m bhdr) - 16) mod 4294967296), None)
      else (0, Some MERR_CORRUPTION))"

subsection \<open>Allocation in a region\<close>

text \<open>The search for the first free block that is big enough; it does not end if the sizes are corrupt.\<close>

partial_function (option) find_block :: "mem \<Rightarrow> nat \<Rightarrow> nat \<Rightarrow> int \<Rightarrow> nat option option" where
  "find_block m p upper gross_nbytes =
     (if p < upper then
        (if lds m p \<ge> gross_nbytes then Some (Some p)
         else find_block m (padd p (abs_word (lds m p))) upper gross_nbytes)
      else Some None)"

definition mem_region_alloc :: "mem \<Rightarrow> nat \<Rightarrow> nat \<Rightarrow> (nat \<times> mem) option" where
  "mem_region_alloc m mr nbytes =
     (if nbytes > MAX_NET_BLOCK_SIZE then Some (NULL, m)
      else do {
        let gross_nbytes = wrap32 (int (8 + ceil_word nbytes + 8));
        r \<leftarrow> find_block m (ldp m (mr + 4)) (ldp m (mr + 8)) gross_nbytes;
        case r of
          None \<Rightarrow> Some (NULL, m)
        | Some p \<Rightarrow>
            let gross_fsize = wrap32 (lds m p - gross_nbytes) in
            if (of_int gross_fsize :: u32) \<ge> of_nat MIN_GROSS_BLOCK_SIZE then
              let btrl = padd p (gross_nbytes - 8);
                  fhdr = padd p gross_nbytes;
                  ftrl = padd p (lds m p - 8);
                  m1 = set_trailer (set_header m p (- gross_nbytes)) btrl (- gross_nbytes);
                  m2 = set_trailer (set_header m1 fhdr gross_fsize) ftrl gross_fsize in
              Some (padd p 8, m2)
            else
              let btrl = padd p (lds m p - 8);
                  m1 = set_header m p (- lds m p);
                  m2 = set_trailer m1 btrl (- lds m1 (btrl + 4)) in
              Some (padd p 8, m2) })"

text \<open>
  Growing a block in place. The second test of the sign of \<open>bhdr\<close> was meant for the block behind it: after the first test it always holds.
\<close>

definition mem_region_grow_block :: "mem \<Rightarrow> nat \<Rightarrow> nat \<Rightarrow> nat \<Rightarrow> bool \<times> merr option \<times> mem" where
  "mem_region_grow_block m mr ptr new_size =
     (if new_size > MAX_NET_BLOCK_SIZE then (False, None, m)
      else
        let bhdr = padd ptr (- 8) in
        if \<not> validate_block_header m bhdr then (False, Some MERR_CORRUPTION, m)
        else if lds m bhdr \<ge> 0 then (False, None, m)
        else
          let gross_bsize = abs_word (lds m bhdr);
              btrl = padd bhdr (gross_bsize - 8) in
          if \<not> validate_block_trailer m btrl then (False, Some MERR_CORRUPTION, m)
          else
            let succ_hdr = padd btrl 8 in
            if \<not> validate_block_header m succ_hdr then (False, Some MERR_CORRUPTION, m)
            else if lds m bhdr < 0 then (False, None, m)
            else
              let succ_trl = padd succ_hdr (abs_word (lds m succ_hdr) - 8) in
              if \<not> validate_block_trailer m succ_trl then (False, Some MERR_CORRUPTION, m)
              else
                let gross_new_size = wrap32 (int (8 + ceil_word new_size + 8));
                    avail_gross_size = wrap32 (int (padd succ_trl 8) - int bhdr);
                    gross_fsize = wrap32 (avail_gross_size - gross_new_size) in
                if (of_int gross_fsize :: u32) \<ge> of_nat MIN_GROSS_BLOCK_SIZE then
                  let new_btrl = padd bhdr (gross_new_size - 8);
                      new_fhdr = padd new_btrl 8;
                      m1 = sw (sw m btrl 0) (succ_hdr + 4) 0;
                      m2 = set_trailer (set_header m1 bhdr (- gross_new_size)) new_btrl (- gross_new_size);
                      m3 = set_trailer (set_header m2 new_fhdr gross_fsize) succ_trl gross_fsize in
                  (True, None, m3)
                else (True, None, set_trailer (set_header m bhdr (- gross_new_size)) succ_trl (- gross_new_size)))"

subsection \<open>Freeing in a region\<close>

text \<open>The block is merged with its free neighbours; the patterns of headers and trailers that become part of the inside are erased.\<close>

definition merge_free :: "mem \<Rightarrow> nat \<Rightarrow> nat \<Rightarrow> nat \<Rightarrow> nat \<Rightarrow> nat \<Rightarrow> nat \<Rightarrow> mem" where
  "merge_free m pred_hdr pred_trl bhdr btrl succ_hdr succ_trl =
     (let succ_free = lds m succ_hdr \<ge> 0; pred_free = lds m pred_hdr \<ge> 0 in
      if \<not> pred_free \<and> \<not> succ_free then
        (let m1 = sts m bhdr (- lds m bhdr) in sts m1 (btrl + 4) (- lds m1 (btrl + 4)))
      else if \<not> pred_free then
        (let m1 = sts m bhdr (int succ_trl - int bhdr + 8); m2 = sw (sw m1 btrl 0) (succ_hdr + 4) 0 in
         sts m2 (succ_trl + 4) (lds m2 bhdr))
      else if \<not> succ_free then
        (let m1 = sts m pred_hdr (int btrl - int pred_hdr + 8); m2 = sw (sw m1 pred_trl 0) (bhdr + 4) 0 in
         sts m2 (btrl + 4) (lds m2 pred_hdr))
      else
        (let m1 = sts m pred_hdr (int succ_trl - int pred_hdr + 8);
             m2 = sw (sw (sw (sw m1 pred_trl 0) (bhdr + 4) 0) btrl 0) (succ_hdr + 4) 0 in
         sts m2 (succ_trl + 4) (lds m2 pred_hdr)))"

definition mem_region_free :: "mem \<Rightarrow> nat \<Rightarrow> nat \<Rightarrow> bool \<times> merr option \<times> mem" where
  "mem_region_free m mr ptr =
     (let bhdr = padd ptr (- 8) in
      if \<not> validate_block_header m bhdr then (False, Some MERR_CORRUPTION, m)
      else if lds m bhdr \<ge> 0 then (False, Some MERR_DOUBLE_FREE, m)
      else
        let btrl = padd bhdr (abs_word (lds m bhdr) - 8) in
        if \<not> validate_block_trailer m btrl then (False, Some MERR_CORRUPTION, m)
        else
          let pred_trl = padd bhdr (- 8) in
          if \<not> validate_block_trailer m pred_trl then (False, Some MERR_CORRUPTION, m)
          else
            let pred_hdr = padd pred_trl (8 - abs_word (lds m (pred_trl + 4))) in
            if \<not> validate_block_header m pred_hdr then (False, Some MERR_CORRUPTION, m)
            else
              let succ_hdr = padd btrl 8 in
              if \<not> validate_block_header m succ_hdr then (False, Some MERR_CORRUPTION, m)
              else
                let succ_trl = padd succ_hdr (abs_word (lds m succ_hdr) - 8) in
                if \<not> validate_block_trailer m succ_trl then (False, Some MERR_CORRUPTION, m)
                else (True, None, merge_free m pred_hdr pred_trl bhdr btrl succ_hdr succ_trl))"

subsection \<open>The allocator\<close>

text \<open>
  The descriptor of an allocator: first region, last region, function that grows it, error function. It is the first block of the first
  region. \<open>grow\<close> is what the growing function does, given its address, the allocator and the size that is wanted.
\<close>

type_synonym grow_func = "nat \<Rightarrow> nat \<Rightarrow> nat \<Rightarrow> mem \<Rightarrow> (bool \<times> mem) option"

definition lsta_create :: "mem \<Rightarrow> nat \<Rightarrow> nat \<Rightarrow> nat \<Rightarrow> nat \<Rightarrow> (nat \<times> mem) option" where
  "lsta_create m md_lower md_upper growFunc errFunc =
     (case mem_region_create m md_lower md_upper errFunc of (mr, m1) \<Rightarrow>
        if mr \<noteq> NULL then do {
          (self, m2) \<leftarrow> mem_region_alloc m1 mr 16;
          Some (self, if self \<noteq> NULL then stp (stp (stp (stp m2 self mr) (self + 4) mr) (self + 8) growFunc) (self + 12) errFunc else m2) }
        else Some (NULL, m1))"

partial_function (option) find_region :: "mem \<Rightarrow> nat \<Rightarrow> nat \<Rightarrow> nat option" where
  "find_region m mr addr =
     (if mr \<noteq> NULL then
        (if mem_region_manages m mr addr then Some mr else find_region m (ldp m mr) addr)
      else Some NULL)"

definition lsta_getmemregion :: "mem \<Rightarrow> nat \<Rightarrow> nat \<Rightarrow> nat option" where
  "lsta_getmemregion m self addr = find_region m (ldp m self) addr"

definition lsta_isvalidptr :: "mem \<Rightarrow> nat \<Rightarrow> nat \<Rightarrow> bool option" where
  "lsta_isvalidptr m self ptr =
     (if ptr = NULL \<or> ptr = UINTPTR_MAX then Some True
      else map_option (\<lambda>mr. mr \<noteq> NULL) (lsta_getmemregion m self ptr))"

definition lsta_add_memregion :: "mem \<Rightarrow> nat \<Rightarrow> nat \<Rightarrow> nat \<Rightarrow> errno \<times> mem" where
  "lsta_add_memregion m self md_lower md_upper =
     (if md_lower = NULL \<or> md_upper = md_lower then (EINVAL, m)
      else case mem_region_create m md_lower md_upper (ldp m (self + 12)) of (mr, m1) \<Rightarrow>
        if mr \<noteq> NULL then (EOK, stp (stp m1 (ldp m1 (self + 4)) mr) (self + 4) mr)
        else (ENOMEM, m1))"

definition lsta_trygrowstore :: "grow_func \<Rightarrow> mem \<Rightarrow> nat \<Rightarrow> nat \<Rightarrow> (errno \<times> mem) option" where
  "lsta_trygrowstore grow m self minByteCount =
     (if ldp m (self + 8) \<noteq> NULL then do {
        (ok, m1) \<leftarrow> grow (ldp m (self + 8)) self minByteCount m;
        Some (if ok then EOK else ENOMEM, m1) }
      else Some (ENOMEM, m))"

partial_function (option) alloc_regions :: "mem \<Rightarrow> nat \<Rightarrow> nat \<Rightarrow> (nat \<times> mem) option" where
  "alloc_regions m mr nbytes =
     (if mr \<noteq> NULL then do {
        (ptr, m1) \<leftarrow> mem_region_alloc m mr nbytes;
        if ptr \<noteq> NULL then Some (ptr, m1) else alloc_regions m1 (ldp m1 mr) nbytes }
      else Some (NULL, m))"

definition lsta_alloc :: "grow_func \<Rightarrow> mem \<Rightarrow> nat \<Rightarrow> nat \<Rightarrow> (nat \<times> mem) option" where
  "lsta_alloc grow m self nbytes =
     (if nbytes = 0 then Some (UINTPTR_MAX, m)
      else do {
        (ptr, m1) \<leftarrow> alloc_regions m (ldp m self) nbytes;
        if ptr = NULL then do {
          (e, m2) \<leftarrow> lsta_trygrowstore grow m1 self nbytes;
          if e = EOK then mem_region_alloc m2 (ldp m2 (self + 4)) nbytes else Some (NULL, m2) }
        else Some (ptr, m1) })"

definition lsta_dealloc :: "mem \<Rightarrow> nat \<Rightarrow> nat \<Rightarrow> (errno \<times> merr option \<times> mem) option" where
  "lsta_dealloc m self ptr =
     (if ptr = NULL \<or> ptr = UINTPTR_MAX then Some (EOK, None, m)
      else do {
        mr \<leftarrow> lsta_getmemregion m self ptr;
        if mr = NULL then Some (ENOTBLK, None, m)
        else (case mem_region_free m mr ptr of (_, err, m1) \<Rightarrow> Some (EOK, err, m1)) })"

text \<open>
  The copy does not test whether the allocation has failed: a copy to NULL is a fault. The errors are those of the growing, of the reading of the size and of
  the freeing, in this order.
\<close>

definition lsta_realloc :: "grow_func \<Rightarrow> mem \<Rightarrow> nat \<Rightarrow> nat \<Rightarrow> nat \<Rightarrow> (nat \<times> merr list \<times> mem) option" where
  "lsta_realloc grow m self ptr new_size =
     (if ptr = NULL \<or> ptr = UINTPTR_MAX then map_option (\<lambda>(p, m1). (p, [], m1)) (lsta_alloc grow m self new_size)
      else if new_size = 0 then Some (NULL, [], m)
      else do {
        mr \<leftarrow> lsta_getmemregion m self ptr;
        if mr = NULL then Some (NULL, [], m)
        else case mem_region_grow_block m mr ptr new_size of (grown, e1, m1) \<Rightarrow>
          let errs1 = (case e1 of None \<Rightarrow> [] | Some e \<Rightarrow> [e]) in
          if grown then Some (ptr, errs1, m1)
          else case mem_region_block_size m1 mr ptr of (old_size, e2) \<Rightarrow>
            let errs2 = errs1 @ (case e2 of None \<Rightarrow> [] | Some e \<Rightarrow> [e]) in
            if old_size \<noteq> new_size then do {
              (np, m2) \<leftarrow> lsta_alloc grow m1 self new_size;
              if np = NULL \<and> 0 < min old_size new_size then None
              else do {
                (_, e3, m4) \<leftarrow> lsta_dealloc (memcpy m2 np ptr (min old_size new_size)) self ptr;
                Some (np, errs2 @ (case e3 of None \<Rightarrow> [] | Some e \<Rightarrow> [e]), m4) } }
            else Some (ptr, errs2, m1) })"

text \<open>The size is stored only for a block of the allocator.\<close>

definition lsta_getblocksize :: "mem \<Rightarrow> nat \<Rightarrow> nat \<Rightarrow> (errno \<times> nat option \<times> merr option) option" where
  "lsta_getblocksize m self ptr =
     (if ptr = NULL \<or> ptr = UINTPTR_MAX then Some (EOK, None, None)
      else do {
        mr \<leftarrow> lsta_getmemregion m self ptr;
        if mr = NULL then Some (ENOTBLK, None, None)
        else (case mem_region_block_size m mr ptr of (n, e) \<Rightarrow> Some (EOK, Some n, e)) })"

end
