(* ===== verification/LstaInv.thy ===== *)
theory LstaInv
  imports Lsta
begin

section \<open>Well-formed heaps\<close>

text \<open>
  The blocks of a region follow one another without gaps, header and trailer of each agree, and no two free blocks are neighbours. The lemmas say
  what allocating and freeing make of the list of blocks, and which bytes they leave alone.
\<close>

subsection \<open>Words in memory\<close>

lemma sw_outside: "a < x \<or> x + 4 \<le> a \<Longrightarrow> sw m x v a = m a"
  by (auto simp: sw_def)

lemma ld_sw_same: "ld (sw m a v) a = v"
proof (rule bit_word_eqI)
  fix n :: nat
  consider "n < 8" | "8 \<le> n" "n < 16" | "16 \<le> n" "n < 24" | "24 \<le> n" by linarith
  then show "bit (ld (sw m a v) a) n \<longleftrightarrow> bit v n" if "n < LENGTH(32)"
    using that by cases (auto simp: ld_def sw_def bit_simps)
qed

lemma ld_cong: "\<lbrakk>\<And>x. a \<le> x \<Longrightarrow> x < a + 4 \<Longrightarrow> m' x = m x\<rbrakk> \<Longrightarrow> ld m' a = ld m a"
  by (simp add: ld_def)

lemma ld_sw_other: "a + 4 \<le> b \<or> b + 4 \<le> a \<Longrightarrow> ld (sw m a v) b = ld m b"
  by (rule ld_cong) (auto intro: sw_outside)

lemma sint_of_int_u32: "- 2147483648 \<le> i \<Longrightarrow> i < 2147483648 \<Longrightarrow> sint (of_int i :: u32) = i"
  by (simp add: signed_of_int signed_take_bit_int_eq_self_iff)

lemmas mem_defs = ldp_def lds_def stp_def sts_def set_header_def set_trailer_def validate_block_header_def validate_block_trailer_def

lemma wrap32_id: "- 2147483648 \<le> x \<Longrightarrow> x < 2147483648 \<Longrightarrow> wrap32 x = x"
  by (simp add: wrap32_def mod_pos_pos_trivial)

lemma abs_word_simps: "n < 2147483648 \<Longrightarrow> abs_word (int n) = int n" "0 < n \<Longrightarrow> n < 2147483648 \<Longrightarrow> abs_word (- int n) = int n"
  by (simp_all add: abs_word_def wrap32_id)

lemma padd_up: "p + n < 4294967296 \<Longrightarrow> padd p (int n) = p + n"
  by (simp add: padd_def nat_mod_distrib nat_add_distrib)

lemma padd_down: "n \<le> p \<Longrightarrow> p < 4294967296 \<Longrightarrow> padd p (- int n) = p - n"
  by (simp add: padd_def mod_pos_pos_trivial)

lemma padd_int: "int q = int p + i \<Longrightarrow> q < 4294967296 \<Longrightarrow> padd p i = q"
  by (simp add: padd_def mod_pos_pos_trivial flip: add.commute)

lemma ceil_word_spec:
  assumes "n \<le> 4294967292"
  shows "n \<le> ceil_word n" "ceil_word n \<le> n + 3" "4 dvd ceil_word n"
  using assms by (simp_all add: ceil_word_def)

lemma lds_simps:
  "- 2147483648 \<le> i \<Longrightarrow> i < 2147483648 \<Longrightarrow> lds (sts m a i) a = i"
  "a + 4 \<le> b \<or> b + 4 \<le> a \<Longrightarrow> lds (sts m a i) b = lds m b"
  "a + 4 \<le> b \<or> b + 4 \<le> a \<Longrightarrow> lds (sw m a v) b = lds m b"
  "a + 4 \<le> b \<or> b + 4 \<le> a \<Longrightarrow> ld (sts m a i) b = ld m b"
  by (simp_all add: lds_def sts_def ld_sw_same ld_sw_other sint_of_int_u32)

lemma ldp_simps:
  "p < 4294967296 \<Longrightarrow> ldp (stp m a p) a = p" "a + 4 \<le> b \<or> b + 4 \<le> a \<Longrightarrow> ldp (stp m a p) b = ldp m b"
  "a + 4 \<le> b \<or> b + 4 \<le> a \<Longrightarrow> ld (stp m a p) b = ld m b"
  by (simp_all add: ldp_def stp_def ld_sw_same ld_sw_other unat_of_nat_u32)

lemma ldp_less [simp]: "ldp m a < 4294967296"
  by (simp add: ldp_def)

lemma ld_congs:
  assumes "\<And>x. a \<le> x \<Longrightarrow> x < a + 4 \<Longrightarrow> m' x = m x"
  shows "ld m' a = ld m a" "lds m' a = lds m a" "ldp m' a = ldp m a"
  using ld_cong [OF assms] by (simp_all add: lds_def ldp_def)

lemma mem_at:
  "a = b \<Longrightarrow> ld (sw m a v) b = v" "a = b \<Longrightarrow> - 2147483648 \<le> i \<Longrightarrow> i < 2147483648 \<Longrightarrow> lds (sts m a i) b = i"
  "a = b \<Longrightarrow> p < 4294967296 \<Longrightarrow> ldp (stp m a p) b = p"
  by (simp_all add: ld_sw_same lds_simps ldp_simps)

lemmas mem_simps = mem_at ld_sw_other lds_simps(2-) ldp_simps(2-)

subsection \<open>Blocks\<close>

type_synonym block = "bool \<times> nat"

definition signed_size :: "block \<Rightarrow> int" where
  "signed_size b = (if fst b then - int (snd b) else int (snd b))"

definition blk :: "mem \<Rightarrow> nat \<Rightarrow> block \<Rightarrow> bool" where
  "blk m p b \<longleftrightarrow> 20 \<le> snd b \<and> 4 dvd snd b \<and> snd b < 2147483648
     \<and> lds m p = signed_size b \<and> ld m (p + 4) = HEADER_PATTERN
     \<and> ld m (p + snd b - 8) = TRAILER_PATTERN \<and> lds m (p + snd b - 4) = signed_size b"

fun blks :: "mem \<Rightarrow> nat \<Rightarrow> nat \<Rightarrow> block list \<Rightarrow> bool" where
  "blks m p u [] \<longleftrightarrow> u = p"
| "blks m p u (b # bs) \<longleftrightarrow> blk m p b \<and> blks m (p + snd b) u bs"

abbreviation span :: "block list \<Rightarrow> nat" where
  "span bs \<equiv> sum_list (map snd bs)"

lemma blkD:
  assumes "blk m p b"
  shows "20 \<le> snd b" "4 dvd snd b" "snd b < 2147483648" "lds m p = signed_size b" "ld m (p + 4) = HEADER_PATTERN"
    "ld m (p + snd b - 8) = TRAILER_PATTERN" "lds m (p + snd b - 4) = signed_size b"
  using assms by (simp_all add: blk_def)

lemma blks_span: "blks m p u bs \<Longrightarrow> u = p + span bs"
  by (induction bs arbitrary: p) fastforce+

lemma blks_append: "blks m p u (xs @ ys) \<longleftrightarrow> blks m p (p + span xs) xs \<and> blks m (p + span xs) u ys"
  by (induction xs arbitrary: p) (auto simp: add.assoc)

lemma blk_cong:
  assumes "\<And>x. p \<le> x \<Longrightarrow> x < p + snd b \<Longrightarrow> m' x = m x" "blk m p b"
  shows "blk m' p b"
proof -
  note B = blkD [OF assms(2)]
  have "lds m' p = lds m p" "ld m' (p + 4) = ld m (p + 4)" "ld m' (p + snd b - 8) = ld m (p + snd b - 8)"
    "lds m' (p + snd b - 4) = lds m (p + snd b - 4)"
    using B(1) by (auto intro!: ld_congs assms(1))
  with assms(2) show ?thesis by (simp add: blk_def)
qed

lemma blks_cong:
  assumes "\<And>x. p \<le> x \<Longrightarrow> x < u \<Longrightarrow> m' x = m x" "blks m p u bs"
  shows "blks m' p u bs"
  using assms
proof (induction bs arbitrary: p)
  case (Cons b bs)
  have "u = p + snd b + span bs" using blks_span [OF Cons.prems(2)] by simp
  then show ?case using Cons.IH [of "p + snd b"] blk_cong [of p b m' m] Cons.prems by auto
qed simp

text \<open>A write to the inside of a block keeps the block.\<close>

lemma blk_inside:
  assumes "blk m p b" "p + 8 \<le> x" "x + 8 < p + snd b"
  shows "blk (m(x := v)) p b"
proof -
  have "lds (m(x := v)) a = lds m a" "ld (m(x := v)) a = ld m a" if "x < a \<or> a + 4 \<le> x" for a
    using that by (auto intro!: ld_congs)
  moreover have "x < p + snd b - 8" "x < p + snd b - 4" using assms(3) by simp_all
  ultimately show ?thesis using assms(1,2) by (simp add: blk_def)
qed

subsection \<open>The search\<close>

lemma find_block_spec:
  assumes "blks m p u bs" "u < 4294967296" "0 < g"
  shows "\<exists>r. find_block m p u g = Some r \<and>
    (case r of None \<Rightarrow> \<forall>n. (False, n) \<in> set bs \<longrightarrow> int n < g
     | Some q \<Rightarrow> \<exists>xs n ys. bs = xs @ (False, n) # ys \<and> q = p + span xs \<and> g \<le> int n)"
  using assms(1)
proof (induction bs arbitrary: p)
  case Nil
  then show ?case by (subst find_block.simps) simp
next
  case (Cons b bs)
  have b: "blk m p b" "blks m (p + snd b) u bs" using Cons.prems by simp_all
  note B = blkD [OF b(1)]
  have pu: "p + snd b \<le> u" "p < u" using blks_span [OF b(2)] B(1) by simp_all
  show ?case
  proof (cases "lds m p \<ge> g")
    case True
    then have "\<not> fst b" using B(4) assms(3) by (simp add: signed_size_def split: if_splits)
    then obtain n where n: "b = (False, n)" by (cases b) simp
    have "g \<le> int n" using True B(4) n by (simp add: signed_size_def)
    moreover have "find_block m p u g = Some (Some p)" using True pu(2) by (subst find_block.simps) simp
    moreover have "b # bs = [] @ (False, n) # bs \<and> p = p + span []" using n by simp
    ultimately show ?thesis by (intro exI [of _ "Some p"]) (simp only: option.case, blast)
  next
    case False
    have "abs_word (lds m p) = int (snd b)" using B(1,3,4) by (simp add: signed_size_def abs_word_simps)
    then have eq: "find_block m p u g = find_block m (p + snd b) u g"
      using False pu assms(2) by (subst find_block.simps) (simp add: padd_up)
    obtain r where r: "find_block m (p + snd b) u g = Some r"
      "case r of None \<Rightarrow> \<forall>n. (False, n) \<in> set bs \<longrightarrow> int n < g
       | Some q \<Rightarrow> \<exists>xs n ys. bs = xs @ (False, n) # ys \<and> q = p + snd b + span xs \<and> g \<le> int n"
      using Cons.IH [OF b(2)] by blast
    show ?thesis
    proof (cases r)
      case None
      have "int n < g" if "(False, n) = b" for n using False B(4) that by (auto simp: signed_size_def)
      then show ?thesis using r None eq by (intro exI [of _ None]) auto
    next
      case (Some q)
      then obtain xs n ys where "bs = xs @ (False, n) # ys" "q = p + snd b + span xs" "g \<le> int n" using r(2) by auto
      then show ?thesis using r(1) Some eq by (intro exI [of _ "Some q"]) (auto intro!: exI [of _ "b # xs"])
    qed
  qed
qed

subsection \<open>Regions\<close>

abbreviation apart_free :: "block \<Rightarrow> block \<Rightarrow> bool" where
  "apart_free a b \<equiv> fst a \<or> fst b"

definition region :: "mem \<Rightarrow> nat \<Rightarrow> nat \<Rightarrow> block list \<Rightarrow> bool" where
  "region m mr u bs \<longleftrightarrow> mr \<noteq> 0 \<and> 4 dvd mr \<and> ldp m (mr + 4) = mr + 16 \<and> ldp m (mr + 8) = u \<and> blks m (mr + 16) u bs
     \<and> successively apart_free bs \<and> u < mr + 2147483648"

lemma regionD:
  assumes "region m mr u bs"
  shows "mr \<noteq> 0" "4 dvd mr" "ldp m (mr + 4) = mr + 16" "ldp m (mr + 8) = u" "blks m (mr + 16) u bs" "successively apart_free bs"
    "u < mr + 2147483648" "u < 4294967296" "u = mr + 16 + span bs"
  using assms blks_span [of m "mr + 16" u bs] ldp_less [of m "mr + 8"] by (auto simp: region_def simp del: ldp_less)

lemma region_cong:
  assumes "\<And>x. mr + 4 \<le> x \<Longrightarrow> x < u \<Longrightarrow> m' x = m x" "region m mr u bs"
  shows "region m' mr u bs"
proof -
  note R = regionD [OF assms(2)]
  have "ldp m' (mr + 4) = ldp m (mr + 4)" "ldp m' (mr + 8) = ldp m (mr + 8)"
    using R(9) by (auto intro!: ld_congs assms(1))
  moreover have "blks m' (mr + 16) u bs" using blks_cong [of "mr + 16" u m' m bs] assms(1) R(5) by simp
  ultimately show ?thesis using assms(2) by (simp add: region_def)
qed

text \<open>New contents for a part of the list of blocks.\<close>

lemma region_replace:
  assumes r: "region m mr u (xs @ bs @ ys)" and q: "q = mr + 16 + span xs"
    and out: "\<And>x. x < q \<or> q + span bs \<le> x \<Longrightarrow> m' x = m x"
    and new: "blks m' q (q + span bs) bs'" and c: "successively apart_free (xs @ bs' @ ys)"
  shows "region m' mr u (xs @ bs' @ ys)"
proof -
  note R = regionD [OF r]
  have sp: "span bs' = span bs" using blks_span [OF new] by simp
  have old: "blks m (mr + 16) q xs" "blks m (q + span bs) u ys" using R(5) q by (simp_all add: blks_append)
  have "blks m' (mr + 16) q xs" by (rule blks_cong [OF _ old(1)]) (use out in simp)
  moreover have "blks m' (q + span bs) u ys" by (rule blks_cong [OF _ old(2)]) (use out in simp)
  ultimately have "blks m' (mr + 16) u (xs @ bs' @ ys)" using new sp q by (simp add: blks_append)
  moreover have "ldp m' (mr + 4) = ldp m (mr + 4)" "ldp m' (mr + 8) = ldp m (mr + 8)"
    using q by (auto intro!: ld_congs out)
  ultimately show ?thesis using R c by (simp add: region_def)
qed

subsection \<open>Allocation in a region\<close>

lemma split_block:
  assumes b: "blk m q (False, n)" and g: "20 \<le> g" "4 dvd g" "g + 20 \<le> n"
    and m': "m' = set_trailer (set_header (set_trailer (set_header m q (- int g)) (q + g - 8) (- int g)) (q + g) (int (n - g))) (q + n - 8) (int (n - g))"
  shows "blks m' q (q + n) [(True, g), (False, n - g)]" "x < q \<or> q + n \<le> x \<Longrightarrow> m' x = m x"
proof -
  note B = blkD [OF b, simplified]
  define g0 n0 where "g0 = g - 20" "n0 = n - g - 20"
  then have gn: "g = g0 + 20" "n = g0 + n0 + 40" using g by simp_all
  have d: "4 dvd n - g" using B(2) g(2) by (rule dvd_diff_nat)
  have m2: "m' = sw (sts (sw (sts (sw (sts (sw (sts m q (- int g)) (q + 4) HEADER_PATTERN) (q + g0 + 16) (- int g)) (q + g0 + 12) TRAILER_PATTERN)
      (q + g0 + 20) (int n0 + 20)) (q + g0 + 24) HEADER_PATTERN) (q + g0 + n0 + 36) (int n0 + 20)) (q + g0 + n0 + 32) TRAILER_PATTERN"
    unfolding m' set_header_def set_trailer_def by (simp add: gn add_ac)
  have r: "int g < 2147483648" "int n0 + 20 < 2147483648" using B(3) gn by simp_all
  have "blk m' q (True, g)" unfolding m2 using r(1) g(1,2) by (simp add: blk_def signed_size_def gn(1) mem_simps)
  moreover have "blk m' (q + g) (False, n - g)" unfolding m2 using r(2) d by (simp add: blk_def signed_size_def gn mem_simps)
  ultimately show "blks m' q (q + n) [(True, g), (False, n - g)]" using g(3) by simp
  show "m' x = m x" if "x < q \<or> q + n \<le> x" using that unfolding m2 sts_def by (auto simp: sw_outside gn)
qed

lemma take_block:
  assumes b: "blk m q (False, n)"
    and m': "m' = set_trailer (set_header m q (- int n)) (q + n - 8) (- lds (set_header m q (- int n)) (q + n - 8 + 4))"
  shows "blks m' q (q + n) [(True, n)]" "x < q \<or> q + n \<le> x \<Longrightarrow> m' x = m x"
proof -
  note B = blkD [OF b, simplified]
  obtain n0 where n0: "n = n0 + 20" using B(1) by (metis add.commute le_Suc_ex)
  have l: "lds (set_header m q (- int n)) (q + n0 + 16) = int n"
    using B(7) by (simp add: set_header_def mem_simps signed_size_def n0 add_ac)
  have m2: "m' = sw (sts (sw (sts m q (- int n)) (q + 4) HEADER_PATTERN) (q + n0 + 16) (- int n)) (q + n0 + 12) TRAILER_PATTERN"
    unfolding m' set_trailer_def using l by (simp add: n0 add_ac) (simp add: set_header_def)
  show "blks m' q (q + n) [(True, n)]" unfolding m2 using B(2,3) by (simp add: blk_def signed_size_def mem_simps n0)
  show "m' x = m x" if "x < q \<or> q + n \<le> x" using that unfolding m2 sts_def by (auto simp: sw_outside n0)
qed

definition gross :: "nat \<Rightarrow> nat" where
  "gross nbytes = 16 + ceil_word nbytes"

lemma gross_size:
  assumes "0 < nbytes" "nbytes \<le> 2147483628"
  shows "20 \<le> gross nbytes" "4 dvd gross nbytes" "gross nbytes < 2147483648" "nbytes + 16 \<le> gross nbytes"
    "wrap32 (int (8 + ceil_word nbytes + 8)) = int (gross nbytes)"
proof -
  have n: "gross nbytes = 16 + (nbytes + 3) div 4 * 4" using assms by (simp add: gross_def ceil_word_def)
  show "20 \<le> gross nbytes" unfolding n using assms by presburger
  show "4 dvd gross nbytes" unfolding n by (simp add: dvd_add_left_iff)
  show l: "gross nbytes < 2147483648" unfolding n using assms by presburger
  show "nbytes + 16 \<le> gross nbytes" unfolding n by presburger
  show "wrap32 (int (8 + ceil_word nbytes + 8)) = int (gross nbytes)" using l by (simp add: wrap32_id gross_def)
qed

lemma u32_of_int_le: "0 \<le> x \<Longrightarrow> x < 4294967296 \<Longrightarrow> of_nat 20 \<le> (of_int x :: u32) \<longleftrightarrow> 20 \<le> x"
  by (simp add: word_le_def unsigned_of_int take_bit_int_eq_self)

text \<open>The two ways to use a free block: \<open>k\<close> bytes of it are allocated, the rest stays a free block.\<close>

lemma region_alloc_spec:
  assumes r: "region m mr u bs" and n: "0 < nbytes" "nbytes \<le> 2147483628"
  obtains (full) "mem_region_alloc m mr nbytes = Some (0, m)" "\<And>n. (False, n) \<in> set bs \<Longrightarrow> n < gross nbytes"
    | (got) xs n k ys m' where "bs = xs @ (False, n) # ys" "mem_region_alloc m mr nbytes = Some (mr + 16 + span xs + 8, m')"
      "region m' mr u (xs @ (True, k) # (if k = n then [] else [(False, n - k)]) @ ys)" "gross nbytes \<le> k" "k \<le> n"
      "\<And>x. x < mr + 16 + span xs \<or> mr + 16 + span xs + n \<le> x \<Longrightarrow> m' x = m x"
proof -
  note R = regionD [OF r] note G = gross_size [OF n]
  let ?g = "gross nbytes"
  have lim: "\<not> nbytes > MAX_NET_BLOCK_SIZE" using n by simp
  obtain res where f: "find_block m (mr + 16) u (int ?g) = Some res"
    "case res of None \<Rightarrow> \<forall>n. (False, n) \<in> set bs \<longrightarrow> int n < int ?g
     | Some q \<Rightarrow> \<exists>xs n ys. bs = xs @ (False, n) # ys \<and> q = mr + 16 + span xs \<and> int ?g \<le> int n"
  proof -
    have "0 < int ?g" using G(1) by simp
    from find_block_spec [OF R(5,8) this] that show thesis by blast
  qed
  have go: "mem_region_alloc m mr nbytes = (case res of None \<Rightarrow> Some (NULL, m) | Some p \<Rightarrow>
      let gross_fsize = wrap32 (lds m p - int ?g) in
      if (of_int gross_fsize :: u32) \<ge> of_nat MIN_GROSS_BLOCK_SIZE then
        Some (padd p 8, set_trailer (set_header (set_trailer (set_header m p (- int ?g)) (padd p (int ?g - 8)) (- int ?g)) (padd p (int ?g)) gross_fsize)
          (padd p (lds m p - 8)) gross_fsize)
      else Some (padd p 8, set_trailer (set_header m p (- lds m p)) (padd p (lds m p - 8))
          (- lds (set_header m p (- lds m p)) (padd p (lds m p - 8) + 4))))"
    unfolding mem_region_alloc_def using lim f(1) R(3,4) G(5) by (cases res) (simp_all add: Let_def)
  show thesis
  proof (cases res)
    case None
    show thesis by (rule full) (use go None f(2) in auto)
  next
    case (Some q)
    then obtain xs n ys where bs: "bs = xs @ (False, n) # ys" and q: "q = mr + 16 + span xs" and gn: "?g \<le> n" using f(2) by auto
    have b: "blk m q (False, n)" using R(5) bs q by (simp add: blks_append)
    note B = blkD [OF b, simplified]
    have qn: "q + n \<le> u" using R(9) bs q by simp
    have l: "lds m q = int n" using B(4) by (simp add: signed_size_def)
    have P: "padd q 8 = q + 8" "padd q (int ?g) = q + ?g" "padd q (int ?g - 8) = q + ?g - 8" "padd q (int n - 8) = q + n - 8"
      using padd_up [of q 8] padd_up [of q ?g] padd_int [of "q + ?g - 8" q "int ?g - 8"] padd_int [of "q + n - 8" q "int n - 8"] qn gn R(8) B(1) G(1)
      by simp_all
    have w: "wrap32 (int n - int ?g) = int (n - ?g)" using gn B(3) by (simp add: wrap32_id of_nat_diff)
    have c: "successively apart_free (xs @ [(False, n)] @ ys)" using R(6) bs by simp
    have r': "region m mr u (xs @ [(False, n)] @ ys)" using r bs by simp
    show thesis
    proof (cases "?g + 20 \<le> n")
      case True
      have "of_nat 20 \<le> (of_int (int (n - ?g)) :: u32)" using u32_of_int_le [of "int (n - ?g)"] True B(3) by simp
      then have e: "mem_region_alloc m mr nbytes = Some (q + 8, set_trailer (set_header (set_trailer (set_header m q (- int ?g)) (q + ?g - 8) (- int ?g))
          (q + ?g) (int (n - ?g))) (q + n - 8) (int (n - ?g)))" (is "_ = Some (_, ?m)")
        unfolding go Some using l w P by (simp add: Let_def)
      note S = split_block [OF b G(1,2) True refl]
      have c': "successively apart_free (xs @ [(True, ?g), (False, n - ?g)] @ ys)"
        using c by (auto simp: successively_append_iff successively_Cons)
      have "region ?m mr u (xs @ [(True, ?g), (False, n - ?g)] @ ys)"
        by (rule region_replace [OF r' q _ _ c']) (use S in \<open>simp_all del: blks.simps\<close>)
      moreover have "?g \<noteq> n" using True by simp
      ultimately show thesis using got [OF bs, of ?m ?g] e S(2) q gn by simp
    next
      case False
      have "\<not> of_nat 20 \<le> (of_int (int (n - ?g)) :: u32)" using u32_of_int_le [of "int (n - ?g)"] False B(3) by simp
      then have e: "mem_region_alloc m mr nbytes = Some (q + 8, set_trailer (set_header m q (- int n)) (q + n - 8)
          (- lds (set_header m q (- int n)) (q + n - 8 + 4)))" (is "_ = Some (_, ?m)")
        unfolding go Some using l w P by (simp add: Let_def)
      note S = take_block [OF b refl]
      have c': "successively apart_free (xs @ [(True, n)] @ ys)" using c by (auto simp: successively_append_iff successively_Cons)
      have "region ?m mr u (xs @ [(True, n)] @ ys)" by (rule region_replace [OF r' q _ _ c']) (use S in \<open>simp_all del: blks.simps\<close>)
      then show thesis using got [OF bs, of ?m n] e S(2) q gn by simp
    qed
  qed
qed

subsection \<open>Freeing in a region\<close>

text \<open>What becomes of a block that is freed between the blocks \<open>(a, n)\<close> and \<open>(b, k)\<close>.\<close>

definition merged :: "block \<Rightarrow> nat \<Rightarrow> block \<Rightarrow> block list" where
  "merged p n s = (if fst p then [p] else []) @ [(False, (if fst p then 0 else snd p) + n + (if fst s then 0 else snd s))] @ (if fst s then [s] else [])"

lemma merge_free_spec:
  assumes b: "blk m p (a, i)" "blk m (p + i) (True, n)" "blk m (p + i + n) (c, k)" and sz: "i + n + k < 2147483648"
    and m': "m' = merge_free m p (p + i - 8) (p + i) (p + i + n - 8) (p + i + n) (p + i + n + k - 8)"
  shows "blks m' p (p + i + n + k) (merged (a, i) n (c, k))"
    "x < (if a then p + i else p) \<or> (if c then p + i + n else p + i + n + k) \<le> x \<Longrightarrow> m' x = m x"
proof -
  note B = blkD [OF b(1), simplified] blkD [OF b(2), simplified] blkD [OF b(3), simplified]
  define i0 n0 k0 where "i0 = i - 20" "n0 = n - 20" "k0 = k - 20"
  then have z: "i = i0 + 20" "n = n0 + 20" "k = k0 + 20" using B(1,8,15) by simp_all
  have l: "lds m p \<ge> 0 \<longleftrightarrow> \<not> a" "lds m (p + i + n) \<ge> 0 \<longleftrightarrow> \<not> c" "lds m (p + i) = - int n" using B(1,4,8,11,15,18) by (simp_all add: signed_size_def)
  have d: "4 dvd i + n" "4 dvd n + k" "4 dvd i + n + k" using B(2,9,16) by simp_all
  have F: "m' x = m x" if "x < (if a then p + i else p) \<or> (if c then p + i + n else p + i + n + k) \<le> x" for x
    using that unfolding m' merge_free_def l Let_def sts_def by (cases a; cases c) (auto simp: sw_outside z)
  then show "x < (if a then p + i else p) \<or> (if c then p + i + n else p + i + n + k) \<le> x \<Longrightarrow> m' x = m x" .
  have E: "p + i - 8 = p + i0 + 12" "p + i + n - 8 = p + i0 + n0 + 32" "p + i + n + k - 8 = p + i0 + n0 + k0 + 52"
    "p + i + n - 4 = p + i0 + n0 + 36" "p + i + n + k - 4 = p + i0 + n0 + k0 + 56" using z by simp_all
  note L = B(5,6,12,13,14,20,21) [unfolded E]
  have mid: "blk m' (if a then p + i else p) (False, (if a then 0 else i) + n + (if c then 0 else k))"
    unfolding m' merge_free_def l Let_def E using L sz d B(9)
    by (cases a; cases c) (simp_all add: blk_def signed_size_def mem_simps z add_ac)
  have "blk m' p (a, i)" if a by (rule blk_cong [OF _ b(1)]) (use F that in simp)
  moreover have "blk m' (p + i + n) (c, k)" if c by (rule blk_cong [OF _ b(3)]) (use F that in simp)
  ultimately show "blks m' p (p + i + n + k) (merged (a, i) n (c, k))"
    using mid by (cases a; cases c) (simp_all add: merged_def add_ac)
qed

text \<open>What the code computes from an allocated block of a region.\<close>

lemma free_header:
  assumes r: "region m mr u (xs @ (True, n) # ys)" and q: "q = mr + 16 + span xs"
  shows "padd (q + 8) (- 8) = q" "validate_block_header m q" "lds m q = - int n" "abs_word (lds m q) = int n" "20 \<le> n"
    "padd q (int n - 8) = q + n - 8" "validate_block_trailer m (q + n - 8)" "padd q (- 8) = q - 8" "padd (q + n - 8) 8 = q + n"
    "q + n + span ys = u" "u < 4294967296"
proof -
  note R = regionD [OF r]
  have b: "blk m q (True, n)" using R(5) q by (simp add: blks_append)
  note B = blkD [OF b, simplified]
  have qn: "q + n + span ys = u" using R(9) q by simp
  then show "padd (q + 8) (- 8) = q" "padd q (int n - 8) = q + n - 8" "padd q (- 8) = q - 8" "padd (q + n - 8) 8 = q + n" "q + n + span ys = u"
    using padd_int [of q "q + 8" "- 8"] padd_int [of "q + n - 8" q "int n - 8"] padd_int [of "q - 8" q "- 8"] padd_int [of "q + n" "q + n - 8" 8]
      B(1) R(8) q by (simp_all add: of_nat_diff)
  show "validate_block_header m q" "validate_block_trailer m (q + n - 8)" using B(5,6) by (simp_all add: mem_defs)
  show "lds m q = - int n" "abs_word (lds m q) = int n" "20 \<le> n" "u < 4294967296" using B(1,3,4) R(8) by (simp_all add: signed_size_def abs_word_simps)
qed

lemma region_free_inner:
  assumes r: "region m mr u (xs @ p # (True, n) # s # ys)" and q: "q = mr + 16 + span xs"
  obtains m' where "mem_region_free m mr (q + snd p + 8) = (True, None, m')" "region m' mr u (xs @ merged p n s @ ys)"
    "\<And>x. x < (if fst p then q + snd p else q) \<or> (if fst s then q + snd p + n else q + snd p + n + snd s) \<le> x \<Longrightarrow> m' x = m x"
proof -
  note R = regionD [OF r]
  obtain a i where p: "p = (a, i)" by (cases p)
  obtain c k where s: "s = (c, k)" by (cases s)
  have b: "blk m q (a, i)" "blk m (q + i) (True, n)" "blk m (q + i + n) (c, k)" using R(5) q p s by (simp_all add: blks_append add_ac)
  note B = blkD [OF b(1), simplified] note S = blkD [OF b(3), simplified]
  have H: "q + i = mr + 16 + span (xs @ [p])" using q p by simp
  note F = free_header [of m mr u "xs @ [p]" n "s # ys" "q + i", OF _ H, simplified, OF r]
  have u: "q + i + n + k + span ys = u" using F(10) s by simp
  have sz: "i + n + k < 2147483648" using u R(7) q by simp
  have A: "abs_word (lds m (q + i - 4)) = int i" "abs_word (lds m (q + i + n)) = int k"
    using B(1,3,7) S(1,3,4) by (simp_all add: signed_size_def abs_word_simps)
  have P: "padd (q + i - 8) (8 - int i) = q" "padd (q + i + n) (int k - 8) = q + i + n + k - 8"
    using padd_int [of q "q + i - 8" "8 - int i"] padd_int [of "q + i + n + k - 8" "q + i + n" "int k - 8"] B(1) S(1) F(11) u
    by (simp_all add: of_nat_diff)
  have e: "q + i - 8 + 4 = q + i - 4" using B(1) by simp
  have V: "validate_block_trailer m (q + i - 8)" "validate_block_header m q" "validate_block_header m (q + i + n)"
    "validate_block_trailer m (q + i + n + k - 8)" using B(5,6) S(5,6) by (simp_all add: mem_defs)
  note M = merge_free_spec [OF b sz refl]
  let ?m = "merge_free m q (q + i - 8) (q + i) (q + i + n - 8) (q + i + n) (q + i + n + k - 8)"
  have "mem_region_free m mr (q + i + 8) = (True, None, ?m)"
    unfolding mem_region_free_def Let_def F(1,4,6,8,9) e A P using F(2,3,5,7) V by simp
  moreover have "region ?m mr u (xs @ merged p n s @ ys)"
  proof (rule region_replace [OF _ q])
    have sp: "q + span [p, (True, n), s] = q + i + n + k" using p s by simp
    show "region m mr u (xs @ [p, (True, n), s] @ ys)" using r by simp
    show "?m x = m x" if "x < q \<or> q + span [p, (True, n), s] \<le> x" for x by (rule M(2)) (use that sp in auto)
    show "blks ?m q (q + span [p, (True, n), s]) (merged p n s)" unfolding sp using M(1) p s by (simp del: blks.simps)
    show "successively apart_free (xs @ merged p n s @ ys)"
      using R(6) by (auto simp: merged_def successively_append_iff successively_Cons p s)
  qed
  moreover have "?m x = m x" if "x < (if fst p then q + snd p else q) \<or> (if fst s then q + snd p + n else q + snd p + n + snd s) \<le> x" for x
    using that unfolding p s fst_conv snd_conv by (rule M(2))
  moreover have "q + snd p + 8 = q + i + 8" using p by simp
  ultimately show thesis using that [of ?m] by (simp only:)
qed

text \<open>
  The first block of a region has no trailer in front of it, and the last one no header behind it. The code looks there all the same and takes the
  descriptor of the region, or what follows the region, for a corrupt heap.
\<close>

lemma region_free_edge:
  assumes r: "region m mr u (xs @ (True, n) # ys)" and q: "q = mr + 16 + span xs"
    and edge: "xs = [] \<and> of_nat u \<noteq> TRAILER_PATTERN \<or> xs \<noteq> [] \<and> ys = [] \<and> ld m (u + 4) \<noteq> HEADER_PATTERN"
  shows "mem_region_free m mr (q + 8) = (False, Some MERR_CORRUPTION, m)"
proof (cases "xs = []")
  case True
  note F = free_header [OF r q]
  have "ldp m (mr + 8) = u" using regionD(4) [OF r] .
  then have "ld m (mr + 8) = of_nat u" by (auto simp: ldp_def)
  then have "\<not> validate_block_trailer m (q - 8)" using edge q True by (simp add: mem_defs add.commute)
  then show ?thesis unfolding mem_region_free_def Let_def F(1,4,6,8,9) using F(2,3,5,7) by simp
next
  case False
  then obtain zs a i where xs: "xs = zs @ [(a, i)]" by (metis rev_exhaust surj_pair)
  note F = free_header [OF r q] note R = regionD [OF r]
  define p where "p = mr + 16 + span zs"
  have b: "blk m p (a, i)" using R(5) xs p_def by (simp add: blks_append)
  note B = blkD [OF b, simplified]
  have qp: "q = p + i" using q xs p_def by simp
  have "ys = []" using edge False by simp
  then have "q + n = u" using F(10) by simp
  then have s: "\<not> validate_block_header m (q + n)" using edge False by (simp add: mem_defs)
  have e: "q - 8 + 4 = p + i - 4" using B(1) qp by simp
  have A: "abs_word (lds m (p + i - 4)) = int i" using B(1,3,7) by (simp add: signed_size_def abs_word_simps)
  have P: "padd (q - 8) (8 - int i) = p" using padd_int [of p "q - 8" "8 - int i"] B(1) qp F(10,11) by (simp add: of_nat_diff)
  have V: "validate_block_trailer m (q - 8)" "validate_block_header m p" using B(5,6) qp by (simp_all add: mem_defs)
  show ?thesis unfolding mem_region_free_def Let_def F(1,4,6,8,9) e A P using F(2,3,5,7) V s by simp
qed

subsection \<open>The allocated blocks of a region\<close>

text \<open>Pointer and size, as the clients see them.\<close>

fun blocks_at :: "nat \<Rightarrow> block list \<Rightarrow> (nat \<times> nat) set" where
  "blocks_at p [] = {}"
| "blocks_at p (b # bs) = (if fst b then {(p + 8, snd b - 16)} else {}) \<union> blocks_at (p + snd b) bs"

lemma blocks_at_append: "blocks_at p (xs @ ys) = blocks_at p xs \<union> blocks_at (p + span xs) ys"
  by (induction xs arbitrary: p) (auto simp: add.assoc)

lemma blocks_at_range:
  assumes "blks m p u bs" "(a, l) \<in> blocks_at p bs"
  shows "p + 8 \<le> a" "a + l + 8 \<le> u" "0 < l"
proof -
  have "p + 8 \<le> a \<and> a + l + 8 \<le> u \<and> 0 < l"
    using assms
  proof (induction bs arbitrary: p)
    case (Cons b bs)
    have B: "20 \<le> snd b" "blks m (p + snd b) u bs" "p + snd b \<le> u"
      using Cons.prems(1) blkD(1) [of m p b] blks_span [of m "p + snd b" u bs] by simp_all
    show ?case
    proof (cases "(a, l) \<in> blocks_at (p + snd b) bs")
      case True
      then show ?thesis using Cons.IH [OF B(2)] by simp
    qed (use Cons.prems(2) B in \<open>auto split: if_splits\<close>)
  qed simp
  then show "p + 8 \<le> a" "a + l + 8 \<le> u" "0 < l" by simp_all
qed

lemma blocks_at_split:
  assumes "(a, l) \<in> blocks_at p bs" "blks m p u bs"
  obtains xs n ys where "bs = xs @ (True, n) # ys" "a = p + span xs + 8" "l = n - 16" "20 \<le> n"
  using assms
proof (induction bs arbitrary: p thesis)
  case (Cons b bs)
  show thesis
  proof (cases "(a, l) \<in> blocks_at (p + snd b) bs")
    case True
    obtain xs n ys where "bs = xs @ (True, n) # ys" "a = p + snd b + span xs + 8" "l = n - 16" "20 \<le> n"
      using Cons.IH [OF _ True] Cons.prems(3) by auto
    then show thesis using Cons.prems(1) [of "b # xs" n ys] by simp
  next
    case False
    then have "b = (True, snd b)" "a = p + 8" "l = snd b - 16" using Cons.prems(2) by (auto split: if_splits simp: prod_eq_iff)
    then show thesis using Cons.prems(1) [of "[]" "snd b" bs] Cons.prems(3) blkD(1) [of m p b] by simp
  qed
qed simp

text \<open>Blocks that are not in a part of the list lie before or behind it.\<close>

lemma blocks_at_outside:
  assumes b: "blks m p u (xs @ mid @ ys)" and a: "(a, l) \<in> blocks_at p (xs @ mid @ ys)" "(a, l) \<notin> blocks_at (p + span xs) mid"
  shows "a + l + 8 \<le> p + span xs \<or> p + span xs + span mid + 8 \<le> a"
proof -
  have x: "blks m p (p + span xs) xs" and y: "blks m (p + span xs + span mid) u ys" using b by (simp_all add: blks_append)
  consider "(a, l) \<in> blocks_at p xs" | "(a, l) \<in> blocks_at (p + span xs + span mid) ys"
    using a by (auto simp: blocks_at_append add.assoc)
  then show ?thesis
  proof cases
    case 1
    then show ?thesis using blocks_at_range(2) [OF x] by blast
  next
    case 2
    then show ?thesis using blocks_at_range(1) [OF y] by blast
  qed
qed

lemma blocks_at_disjoint:
  assumes b: "blks m p u bs" and a: "(a, l) \<in> blocks_at p bs" "(a', l') \<in> blocks_at p bs" "(a, l) \<noteq> (a', l')"
  shows "a + l + 16 \<le> a' \<or> a' + l' + 16 \<le> a"
proof -
  obtain xs n ys where s: "bs = xs @ (True, n) # ys" "a = p + span xs + 8" "l = n - 16" "20 \<le> n" using blocks_at_split [OF a(1) b] .
  have "(a', l') \<notin> blocks_at (p + span xs) [(True, n)]" using a(3) s by auto
  then have "a' + l' + 8 \<le> p + span xs \<or> p + span xs + span [(True, n)] + 8 \<le> a'"
    using blocks_at_outside [of m p u xs "[(True, n)]" ys a' l'] b a(2) s(1) by simp
  then show ?thesis using s by auto
qed

lemma blocks_at_merged: "blocks_at q (merged p n s) = blocks_at q [p, (True, n), s] - {(q + snd p + 8, n - 16)}" if "20 \<le> snd p" "20 \<le> n"
  using that by (auto simp: merged_def add.assoc)

end
