(* ===== verification/LstaHeap.thy ===== *)
theory LstaHeap
  imports LstaInv
begin

section \<open>Allocators with several regions\<close>

text \<open>
  The regions of an allocator form a list in memory. Its descriptor is the contents of an allocated block. Two regions have room for a header between
  them, which is what the code reads behind a region when it frees the last block.
\<close>

subsection \<open>The list of regions\<close>

type_synonym hregion = "nat \<times> nat \<times> block list"

definition extent :: "hregion \<Rightarrow> nat set" where
  "extent r = {fst r ..< fst (snd r) + 8}"

fun chain :: "mem \<Rightarrow> nat \<Rightarrow> hregion list \<Rightarrow> bool" where
  "chain m p [] \<longleftrightarrow> p = 0"
| "chain m p ((mr, u, bs) # rs) \<longleftrightarrow> p = mr \<and> region m mr u bs \<and> chain m (ldp m mr) rs"

fun apart_regions :: "hregion list \<Rightarrow> bool" where
  "apart_regions [] \<longleftrightarrow> True"
| "apart_regions (r # rs) \<longleftrightarrow> (\<forall>r' \<in> set rs. extent r \<inter> extent r' = {}) \<and> apart_regions rs"

definition allocated :: "hregion list \<Rightarrow> (nat \<times> nat) set" where
  "allocated rs = (\<Union>(mr, u, bs) \<in> set rs. blocks_at (mr + 16) bs)"

definition bounds :: "hregion list \<Rightarrow> (nat \<times> nat) list" where
  "bounds rs = map (\<lambda>(mr, u, bs). (mr, u)) rs"

definition quiet_edges :: "mem \<Rightarrow> hregion list \<Rightarrow> bool" where
  "quiet_edges m rs \<longleftrightarrow> (\<forall>(mr, u) \<in> set (bounds rs). of_nat u \<noteq> TRAILER_PATTERN \<and> ld m (u + 4) \<noteq> HEADER_PATTERN)"

definition heap :: "mem \<Rightarrow> nat \<Rightarrow> hregion list \<Rightarrow> bool" where
  "heap m self rs \<longleftrightarrow> rs \<noteq> [] \<and> chain m (ldp m self) rs \<and> apart_regions rs \<and> quiet_edges m rs \<and> ldp m (self + 4) = fst (last rs)
     \<and> (\<exists>k \<ge> 16. (self, k) \<in> allocated rs)"

lemma extent_upper: "region m mr u bs \<Longrightarrow> x < u + 8 \<Longrightarrow> mr \<le> x \<Longrightarrow> x \<in> extent (mr, u, bs)"
  by (simp add: extent_def)

lemma apart_append: "apart_regions (xs @ ys) \<longleftrightarrow> apart_regions xs \<and> apart_regions ys \<and> (\<forall>x \<in> set xs. \<forall>y \<in> set ys. extent x \<inter> extent y = {})"
  by (induction xs) auto

lemma chain_region: "chain m p rs \<Longrightarrow> (mr, u, bs) \<in> set rs \<Longrightarrow> region m mr u bs"
  by (induction rs arbitrary: p) auto

lemma chain_cong:
  assumes "\<And>r x. r \<in> set rs \<Longrightarrow> x \<in> extent r \<Longrightarrow> m' x = m x" "chain m p rs"
  shows "chain m' p rs"
  using assms
proof (induction rs arbitrary: p)
  case (Cons r rs)
  obtain mr u bs where r: "r = (mr, u, bs)" by (cases r)
  have R: "region m mr u bs" using Cons.prems(2) r by simp
  have e: "m' x = m x" if "mr \<le> x" "x < u + 8" for x using Cons.prems(1) [of r x] that r by (simp add: extent_def)
  have "region m' mr u bs" by (rule region_cong [OF _ R]) (use e in simp)
  moreover have "ldp m' mr = ldp m mr" by (rule ld_congs) (use e regionD(9) [OF R] in simp)
  moreover have "chain m' (ldp m mr) rs" by (rule Cons.IH) (use Cons.prems r in auto)
  ultimately show ?case using Cons.prems(2) r by simp
qed simp

text \<open>A region changes inside; the others and the links stay.\<close>

lemma chain_update:
  assumes c: "chain m p (xs @ (mr, u, bs) # ys)" and a: "apart_regions (xs @ (mr, u, bs) # ys)"
    and out: "\<And>x. x < mr + 16 \<or> u \<le> x \<Longrightarrow> m' x = m x" and r: "region m' mr u bs'"
  shows "chain m' p (xs @ (mr, u, bs') # ys)"
  using c a
proof (induction xs arbitrary: p)
  case Nil
  have "chain m' (ldp m mr) ys"
  proof (rule chain_cong)
    fix r x assume "r \<in> set ys" "x \<in> extent r"
    then have "x \<notin> extent (mr, u, bs)" using Nil.prems(2) by auto
    then show "m' x = m x" using out by (auto simp: extent_def)
  qed (use Nil.prems(1) in simp)
  moreover have "ldp m' mr = ldp m mr" by (rule ld_congs) (use out in simp)
  ultimately show ?case using Nil.prems(1) r by simp
next
  case (Cons s xs)
  obtain nr v cs where s: "s = (nr, v, cs)" by (cases s)
  have R: "region m nr v cs" using Cons.prems(1) s by simp
  have "extent s \<inter> extent (mr, u, bs) = {}" using Cons.prems(2) by simp
  then have e: "m' x = m x" if "nr \<le> x" "x < v + 8" for x
  proof -
    have "x \<in> extent s" using that s by (simp add: extent_def)
    then have "x \<notin> extent (mr, u, bs)" using \<open>extent s \<inter> extent (mr, u, bs) = {}\<close> by blast
    then show ?thesis by (intro out) (auto simp: extent_def)
  qed
  have "region m' nr v cs" by (rule region_cong [OF _ R]) (use e in simp)
  moreover have "ldp m' nr = ldp m nr" by (rule ld_congs) (use e regionD(9) [OF R] in simp)
  ultimately show ?case using Cons.IH Cons.prems s by simp
qed

lemma apart_update: "apart_regions (xs @ (mr, u, bs) # ys) \<Longrightarrow> apart_regions (xs @ (mr, u, bs') # ys)"
  by (auto simp: apart_append extent_def)

subsection \<open>Allocated blocks\<close>

lemma allocated_update:
  "allocated (xs @ (mr, u, bs) # ys) = allocated xs \<union> blocks_at (mr + 16) bs \<union> allocated ys"
  by (auto simp: allocated_def)

lemma allocated_in:
  assumes "chain m p rs" "(a, l) \<in> allocated rs"
  obtains xs mr u bs ys where "rs = xs @ (mr, u, bs) # ys" "(a, l) \<in> blocks_at (mr + 16) bs" "region m mr u bs" "mr + 24 \<le> a" "a + l + 8 \<le> u" "0 < l"
proof -
  obtain mr u bs where r: "(mr, u, bs) \<in> set rs" "(a, l) \<in> blocks_at (mr + 16) bs" using assms(2) by (auto simp: allocated_def)
  have R: "region m mr u bs" using chain_region [OF assms(1) r(1)] .
  obtain xs ys where "rs = xs @ (mr, u, bs) # ys" using r(1) by (meson split_list)
  then show thesis using that r(2) R blocks_at_range [OF regionD(5) [OF R] r(2)] by simp
qed

lemma allocated_disjoint:
  assumes c: "chain m p rs" "apart_regions rs" and a: "(a, l) \<in> allocated rs" "(a', l') \<in> allocated rs" "(a, l) \<noteq> (a', l')"
  shows "a + l + 16 \<le> a' \<or> a' + l' + 16 \<le> a"
proof -
  obtain xs mr u bs ys where A: "rs = xs @ (mr, u, bs) # ys" "(a, l) \<in> blocks_at (mr + 16) bs" "region m mr u bs" "mr + 24 \<le> a" "a + l + 8 \<le> u"
    using allocated_in [OF c(1) a(1)] by metis
  obtain xs' mr' u' bs' ys' where B: "rs = xs' @ (mr', u', bs') # ys'" "(a', l') \<in> blocks_at (mr' + 16) bs'" "region m mr' u' bs'" "mr' + 24 \<le> a'" "a' + l' + 8 \<le> u'"
    using allocated_in [OF c(1) a(2)] by metis
  show ?thesis
  proof (cases "(mr, u, bs) = (mr', u', bs')")
    case True
    then show ?thesis using blocks_at_disjoint [OF regionD(5) [OF A(3)] A(2) _ a(3)] B(2) by simp
  next
    case False
    then have "(mr', u', bs') \<in> set xs \<union> set ys" using A(1) B(1) by (metis Un_iff in_set_conv_decomp set_ConsD set_append)
    then have "extent (mr, u, bs) \<inter> extent (mr', u', bs') = {}" using c(2) A(1) by (auto simp: apart_append)
    then have "\<not> (mr \<le> x \<and> x < u + 8 \<and> mr' \<le> x \<and> x < u' + 8)" for x by (auto simp: extent_def)
    from this [of mr] this [of mr'] show ?thesis using A(4,5) B(4,5) by linarith
  qed
qed

subsection \<open>Steps of an allocator\<close>

text \<open>An allocator after a step inside of one of its regions: the descriptor is in a block that the step does not touch.\<close>

lemma heap_step:
  assumes h: "heap m self (xs @ (mr, u, bs) # ys)"
    and out: "\<And>x. x < mr + 16 \<or> u \<le> x \<Longrightarrow> m' x = m x" and r: "region m' mr u bs'"
    and al: "\<exists>k \<ge> 16. (self, k) \<in> allocated (xs @ (mr, u, bs') # ys)" and desc: "\<And>x. self \<le> x \<Longrightarrow> x < self + 16 \<Longrightarrow> m' x = m x"
  shows "heap m' self (xs @ (mr, u, bs') # ys)"
proof -
  have H: "chain m (ldp m self) (xs @ (mr, u, bs) # ys)" "apart_regions (xs @ (mr, u, bs) # ys)" "quiet_edges m (xs @ (mr, u, bs) # ys)"
    "ldp m (self + 4) = fst (last (xs @ (mr, u, bs) # ys))" using h by (simp_all add: heap_def)
  have d: "ldp m' self = ldp m self" "ldp m' (self + 4) = ldp m (self + 4)" by (rule ld_congs, use desc in simp)+
  have "ld m' (v + 4) = ld m (v + 4)" if v: "(nr, v) \<in> set (bounds (xs @ (mr, u, bs) # ys))" for nr v
  proof (rule ld_cong)
    fix x assume x: "v + 4 \<le> x" "x < v + 4 + 4"
    show "m' x = m x"
    proof (cases "v = u")
      case False
      then obtain cs where c: "(nr, v, cs) \<in> set xs \<union> set ys" using v by (auto simp: bounds_def)
      then have "region m nr v cs" using chain_region [OF H(1)] by auto
      then have "x \<in> extent (nr, v, cs)" using x regionD(9) by (fastforce simp: extent_def)
      then have "x \<notin> extent (mr, u, bs)" using c H(2) by (auto simp: apart_append)
      then show ?thesis by (intro out) (auto simp: extent_def)
    qed (use x out in simp)
  qed
  then have "quiet_edges m' (xs @ (mr, u, bs) # ys)" using H(3) unfolding quiet_edges_def by fastforce
  moreover have "bounds (xs @ (mr, u, bs') # ys) = bounds (xs @ (mr, u, bs) # ys)" by (simp add: bounds_def)
  ultimately have q: "quiet_edges m' (xs @ (mr, u, bs') # ys)" by (simp only: quiet_edges_def)
  have "fst (last (xs @ (mr, u, bs') # ys)) = fst (last (xs @ (mr, u, bs) # ys))" by (cases ys) simp_all
  then show ?thesis
    unfolding heap_def using chain_update [OF H(1,2) out r] apart_update [OF H(2)] H(4) al q by (simp only: d) simp
qed

lemma alloc_regions_spec:
  assumes "chain m p rs" "0 < nbytes" "nbytes \<le> 2147483628"
  obtains (full) "alloc_regions m p nbytes = Some (0, m)" "\<And>mr u bs n. (mr, u, bs) \<in> set rs \<Longrightarrow> (False, n) \<in> set bs \<Longrightarrow> n < gross nbytes"
    | (got) rs1 mr u bs rs2 ptr m' where "rs = rs1 @ (mr, u, bs) # rs2" "alloc_regions m p nbytes = Some (ptr, m')" "ptr \<noteq> 0"
      "mem_region_alloc m mr nbytes = Some (ptr, m')"
  using assms(1)
proof (induction rs arbitrary: p thesis)
  case Nil
  then show ?case using Nil.prems(1) by (simp add: alloc_regions.simps)
next
  case (Cons r rs)
  obtain mr u bs where r: "r = (mr, u, bs)" by (cases r)
  have R: "p = mr" "region m mr u bs" "chain m (ldp m mr) rs" using Cons.prems(3) r by simp_all
  note p0 = regionD(1) [OF R(2)]
  show ?case
  proof (rule region_alloc_spec [OF R(2) assms(2,3)])
    assume f: "mem_region_alloc m mr nbytes = Some (0, m)" "\<And>n. (False, n) \<in> set bs \<Longrightarrow> n < gross nbytes"
    have go: "alloc_regions m p nbytes = alloc_regions m (ldp m mr) nbytes"
      using R(1) p0 f(1) by (subst alloc_regions.simps) simp
    show thesis
    proof (rule Cons.IH)
      show "chain m (ldp m mr) rs" by (rule R(3))
    next
      assume "alloc_regions m (ldp m mr) nbytes = Some (0, m)"
        "\<And>mr u bs n. (mr, u, bs) \<in> set rs \<Longrightarrow> (False, n) \<in> set bs \<Longrightarrow> n < gross nbytes"
      then show thesis by (intro Cons.prems(1)) (use go r f(2) in auto)
    next
      fix rs1 nr v cs rs2 ptr m'
      assume "rs = rs1 @ (nr, v, cs) # rs2" "alloc_regions m (ldp m mr) nbytes = Some (ptr, m')" "ptr \<noteq> 0" "mem_region_alloc m nr nbytes = Some (ptr, m')"
      then show thesis using Cons.prems(2) [of "r # rs1" nr v cs rs2 ptr m'] go by simp
    qed
  next
    fix xs n k ys m'
    assume "mem_region_alloc m mr nbytes = Some (mr + 16 + span xs + 8, m')"
    moreover from this have "alloc_regions m p nbytes = Some (mr + 16 + span xs + 8, m')"
      using R(1) p0 by (subst alloc_regions.simps) simp
    ultimately show thesis using Cons.prems(2) [of "[]" mr u bs rs "mr + 16 + span xs + 8" m'] r by simp
  qed
qed

lemma bounds_update: "bounds (xs @ (mr, u, bs') # ys) = bounds (xs @ (mr, u, bs) # ys)"
  by (simp add: bounds_def)

text \<open>Allocated blocks outside of a part of a region lie before or behind it.\<close>

lemma block_outside:
  assumes H: "chain m p (xs @ (mr, u, pre @ mid @ post) # ys)" "apart_regions (xs @ (mr, u, pre @ mid @ post) # ys)"
    and al: "(a, l) \<in> allocated (xs @ (mr, u, pre @ mid @ post) # ys)" "(a, l) \<notin> blocks_at (mr + 16 + span pre) mid"
  shows "a + l + 8 \<le> mr + 16 + span pre \<or> mr + 16 + span pre + span mid + 8 \<le> a"
proof -
  have R: "region m mr u (pre @ mid @ post)" using chain_region [OF H(1)] by simp
  show ?thesis
  proof (cases "(a, l) \<in> blocks_at (mr + 16) (pre @ mid @ post)")
    case True
    then show ?thesis using blocks_at_outside [OF regionD(5) [OF R] True al(2)] by simp
  next
    case False
    then have "(a, l) \<in> allocated (xs @ ys)" using al(1) by (auto simp: allocated_def)
    then obtain nr v cs where c: "(nr, v, cs) \<in> set xs \<union> set ys" "(a, l) \<in> blocks_at (nr + 16) cs" by (auto simp: allocated_def)
    have "region m nr v cs" using chain_region [OF H(1)] c(1) by auto
    from blocks_at_range [OF regionD(5) [OF this] c(2)] have A: "nr + 24 \<le> a" "a + l + 8 \<le> v" by simp_all
    have "extent (mr, u, pre @ mid @ post) \<inter> extent (nr, v, cs) = {}" using c(1) H(2) by (auto simp: apart_append)
    then have "\<not> (mr \<le> x \<and> x < u + 8 \<and> nr \<le> x \<and> x < v + 8)" for x by (auto simp: extent_def)
    from this [of mr] this [of nr] show ?thesis using A regionD(9) [OF R] by (simp, linarith)
  qed
qed

lemma heapD:
  assumes "heap m self rs"
  shows "rs \<noteq> []" "chain m (ldp m self) rs" "apart_regions rs" "quiet_edges m rs" "\<exists>k \<ge> 16. (self, k) \<in> allocated rs"
  using assms by (simp_all add: heap_def)

definition outside :: "hregion list \<Rightarrow> nat \<Rightarrow> bool" where
  "outside rs x \<longleftrightarrow> (\<forall>r \<in> set rs. x \<notin> extent r)"

lemma split_in_extent: "\<lbrakk>region m mr u bs; bs = pre @ mid @ post; outside (xs @ (mr, u, bs) # ys) x\<rbrakk> \<Longrightarrow>
    x < mr + 16 + span pre \<or> mr + 16 + span pre + span mid \<le> x"
  using regionD(9) [of m mr u bs] by (auto simp: outside_def extent_def)

lemma lsta_alloc_spec:
  assumes h: "heap m self rs" and ng: "ldp m (self + 8) = 0" and n: "0 < nbytes" "nbytes \<le> 2147483628"
  obtains (full) "lsta_alloc grow m self nbytes = Some (0, m)"
      "\<And>mr u bs k. (mr, u, bs) \<in> set rs \<Longrightarrow> (False, k) \<in> set bs \<Longrightarrow> k < gross nbytes"
    | (got) ptr l m' rs' where "lsta_alloc grow m self nbytes = Some (ptr, m')" "heap m' self rs'" "bounds rs' = bounds rs"
      "allocated rs' = insert (ptr, l) (allocated rs)" "nbytes \<le> l" "l < 2147483648" "ptr \<noteq> 0" "\<And>a k. (a, k) \<in> allocated rs \<Longrightarrow> a \<noteq> ptr"
      "\<And>a k x. (a, k) \<in> allocated rs \<Longrightarrow> a \<le> x \<Longrightarrow> x < a + k \<Longrightarrow> m' x = m x" "\<And>x. outside rs x \<Longrightarrow> m' x = m x"
proof -
  note H = heapD [OF h] note G = gross_size [OF n]
  show thesis
  proof (rule alloc_regions_spec [OF H(2) n])
    assume "alloc_regions m (ldp m self) nbytes = Some (0, m)" "\<And>mr u bs k. (mr, u, bs) \<in> set rs \<Longrightarrow> (False, k) \<in> set bs \<Longrightarrow> k < gross nbytes"
    then show thesis by (intro full) (use n ng in \<open>simp_all add: lsta_alloc_def lsta_trygrowstore_def\<close>)
  next
    fix rs1 mr u bs rs2 ptr m'
    assume rs: "rs = rs1 @ (mr, u, bs) # rs2" and a: "alloc_regions m (ldp m self) nbytes = Some (ptr, m')" "ptr \<noteq> 0" "mem_region_alloc m mr nbytes = Some (ptr, m')"
    have R: "region m mr u bs" using chain_region [OF H(2)] rs by simp
    show thesis
    proof (rule region_alloc_spec [OF R n])
      fix pre k0 k post m2
      assume b: "bs = pre @ (False, k0) # post" "mem_region_alloc m mr nbytes = Some (mr + 16 + span pre + 8, m2)"
        "region m2 mr u (pre @ (True, k) # (if k = k0 then [] else [(False, k0 - k)]) @ post)" "gross nbytes \<le> k" "k \<le> k0"
        and out: "\<And>x. x < mr + 16 + span pre \<or> mr + 16 + span pre + k0 \<le> x \<Longrightarrow> m2 x = m x"
      have m2: "m2 = m'" "ptr = mr + 16 + span pre + 8" using b(2) a(3) by simp_all
      let ?bs = "pre @ (True, k) # (if k = k0 then [] else [(False, k0 - k)]) @ post"
      let ?rs = "rs1 @ (mr, u, ?bs) # rs2"
      have O: "a + l + 8 \<le> mr + 16 + span pre \<or> mr + 16 + span pre + k0 + 8 \<le> a" if "(a, l) \<in> allocated rs" for a l
        using block_outside [of m "ldp m self" rs1 mr u pre "[(False, k0)]" post rs2 a l] H(2,3) that rs b(1) by simp
      have al: "allocated ?rs = insert (ptr, k - 16) (allocated rs)"
        using b(4,5) G(1) m2(2) unfolding rs allocated_update b(1) by (auto simp: blocks_at_append add_ac)
      have keep: "m' x = m x" if "(a, l) \<in> allocated rs" "a \<le> x" "x < a + l" for a l x
        using O [OF that(1)] that(2,3) out [of x] m2 by auto
      obtain k1 where k1: "16 \<le> k1" "(self, k1) \<in> allocated rs" using H(5) by blast
      have U: "mr + 16 + span pre + k0 \<le> u" using regionD(9) [OF R] b(1) by simp
      have "heap m' self ?rs"
        by (rule heap_step [where bs = bs]) (use h rs b(3) m2 out U k1 al keep in auto)
      moreover have "k0 < 2147483648" using U regionD(7) [OF R] by simp
      moreover have "m' x = m x" if "outside rs x" for x
        using split_in_extent [OF R, of pre "[(False, k0)]" post rs1 rs2 x] that rs b(1) out m2 by auto
      moreover have "lsta_alloc grow m self nbytes = Some (ptr, m')" using n a by (simp add: lsta_alloc_def)
      moreover have "bounds ?rs = bounds rs" using rs by (simp add: bounds_def)
      ultimately show thesis
        using got [of ptr m' ?rs "k - 16"] al a(2) keep b(4,5) G(4) O m2(2) by fastforce
    qed (use a in simp)
  qed
qed

lemma find_region_spec:
  assumes "chain m p (xs @ (mr, u, bs) # ys)" "apart_regions (xs @ (mr, u, bs) # ys)" "mr + 16 \<le> a" "a < u"
  shows "find_region m p a = Some mr"
  using assms(1,2)
proof (induction xs arbitrary: p)
  case Nil
  have R: "region m mr u bs" "p = mr" using Nil.prems(1) by simp_all
  then have "mem_region_manages m mr a" using regionD(3,4) [OF R(1)] assms(3,4) by (simp add: mem_region_manages_def)
  then show ?case using R(2) regionD(1) [OF R(1)] by (subst find_region.simps) simp
next
  case (Cons s xs)
  obtain nr v cs where s: "s = (nr, v, cs)" by (cases s)
  have R: "region m nr v cs" "p = nr" using Cons.prems(1) s by simp_all
  have "a \<in> extent (mr, u, bs)" using assms(3,4) by (simp add: extent_def)
  moreover have "extent s \<inter> extent (mr, u, bs) = {}" using Cons.prems(2) by simp
  ultimately have "a \<notin> extent (nr, v, cs)" using s by blast
  then have "\<not> mem_region_manages m nr a" using regionD(3,4) [OF R(1)] by (auto simp: mem_region_manages_def extent_def)
  then show ?case using R(2) regionD(1) [OF R(1)] Cons s by (subst find_region.simps) simp
qed

text \<open>The first and the last block of a region.\<close>

definition at_edge :: "(nat \<times> nat) list \<Rightarrow> nat \<Rightarrow> nat \<Rightarrow> bool" where
  "at_edge bds ptr l \<longleftrightarrow> (\<exists>(mr, u) \<in> set bds. ptr = mr + 24 \<or> ptr + l + 8 = u)"

lemma at_edge_iff:
  assumes h: "heap m self rs" and rs: "rs = xs @ (mr, u, pre @ (True, n) # post) # ys"
  shows "at_edge (bounds rs) (mr + 16 + span pre + 8) (n - 16) \<longleftrightarrow> pre = [] \<or> post = []"
proof -
  note H = heapD [OF h]
  have R: "region m mr u (pre @ (True, n) # post)" using chain_region [OF H(2)] rs by simp
  have B: "blk m (mr + 16 + span pre) (True, n)" "blks m (mr + 16) (mr + 16 + span pre) pre" "blks m (mr + 16 + span pre + n) u post"
    using regionD(5) [OF R] by (simp_all add: blks_append)
  have n20: "20 \<le> n" using blkD(1) [OF B(1)] by simp
  have pos: "span cs = 0 \<longleftrightarrow> cs = []" if "blks m p q cs" for p q cs
  proof (cases cs)
    case (Cons b bs)
    then show ?thesis using that blkD(1) [of m p b] by simp
  qed simp
  have only: "at_edge (bounds rs) a l \<longleftrightarrow> a = mr + 24 \<or> a + l + 8 = u" if "mr + 24 \<le> a" "a + l + 8 \<le> u" "0 < l" for a l
  proof
    assume "at_edge (bounds rs) a l"
    then obtain nr v cs where c: "(nr, v, cs) \<in> set rs" "a = nr + 24 \<or> a + l + 8 = v" by (auto simp: at_edge_def bounds_def)
    have "region m nr v cs" using chain_region [OF H(2) c(1)] .
    then have v: "nr + 16 \<le> v" using regionD(9) by fastforce
    show "a = mr + 24 \<or> a + l + 8 = u"
    proof (cases "(nr, v, cs) = (mr, u, pre @ (True, n) # post)")
      case False
      then have "extent (mr, u, pre @ (True, n) # post) \<inter> extent (nr, v, cs) = {}" using H(3) c(1) rs by (auto simp: apart_append)
      then have "\<not> (mr \<le> x \<and> x < u + 8 \<and> nr \<le> x \<and> x < v + 8)" for x by (auto simp: extent_def)
      from this [of mr] this [of nr] have False using that c(2) v by linarith
      then show ?thesis ..
    qed (use c(2) in simp)
  qed (use rs in \<open>auto simp: at_edge_def bounds_def\<close>)
  have "mr + 16 + span pre + n + span post = u" using regionD(9) [OF R] by simp
  then have "mr + 16 + span pre + 8 = mr + 24 \<longleftrightarrow> span pre = 0" "mr + 16 + span pre + 8 + (n - 16) + 8 = u \<longleftrightarrow> span post = 0"
    "mr + 16 + span pre + 8 + (n - 16) + 8 \<le> u" using n20 by linarith+
  then show ?thesis using only [of "mr + 16 + span pre + 8" "n - 16"] n20 unfolding pos [OF B(2)] pos [OF B(3)] by simp
qed

lemma region_of_block:
  assumes h: "heap m self rs" and a: "(ptr, l) \<in> allocated rs"
  obtains xs mr u pre n post ys where "rs = xs @ (mr, u, pre @ (True, n) # post) # ys" "region m mr u (pre @ (True, n) # post)"
    "ptr = mr + 16 + span pre + 8" "l = n - 16" "20 \<le> n" "lsta_getmemregion m self ptr = Some mr" "ptr \<noteq> 0" "ptr \<noteq> UINTPTR_MAX" "ptr < 4294967296"
proof -
  note H = heapD [OF h]
  obtain xs mr u bs ys where A: "rs = xs @ (mr, u, bs) # ys" "(ptr, l) \<in> blocks_at (mr + 16) bs" "region m mr u bs" "mr + 24 \<le> ptr" "ptr + l + 8 \<le> u"
    using allocated_in [OF H(2) a] by metis
  obtain pre n post where B: "bs = pre @ (True, n) # post" "ptr = mr + 16 + span pre + 8" "l = n - 16" "20 \<le> n"
    using blocks_at_split [OF A(2) regionD(5) [OF A(3)]] by metis
  have "lsta_getmemregion m self ptr = Some mr"
    unfolding lsta_getmemregion_def by (rule find_region_spec [OF H(2,3) [unfolded A(1)]]) (use A(4,5) in simp_all)
  then show thesis using that A B regionD(8) [OF A(3)] by simp
qed

lemma lsta_dealloc_edge:
  assumes h: "heap m self rs" and a: "(ptr, l) \<in> allocated rs" "at_edge (bounds rs) ptr l"
  shows "lsta_dealloc m self ptr = Some (EOK, Some MERR_CORRUPTION, m)"
proof -
  obtain xs mr u pre n post ys where B: "rs = xs @ (mr, u, pre @ (True, n) # post) # ys" "region m mr u (pre @ (True, n) # post)"
    "ptr = mr + 16 + span pre + 8" "l = n - 16" "20 \<le> n" "lsta_getmemregion m self ptr = Some mr" "ptr \<noteq> 0" "ptr \<noteq> UINTPTR_MAX"
    using region_of_block [OF h a(1)] by metis
  have "pre = [] \<or> post = []" using at_edge_iff [OF h B(1)] a(2) B(3,4) by simp
  moreover have "of_nat u \<noteq> TRAILER_PATTERN" "ld m (u + 4) \<noteq> HEADER_PATTERN"
    using heapD(4) [OF h] B(1) by (auto simp: quiet_edges_def bounds_def)
  ultimately have "mem_region_free m mr ptr = (False, Some MERR_CORRUPTION, m)"
    using region_free_edge [OF B(2) refl] B(3) by auto
  then show ?thesis using B(6-8) regionD(1) [OF B(2)] by (simp add: lsta_dealloc_def)
qed

text \<open>A block that is freed between two others, and what is left of the three.\<close>

lemma allocated_merged:
  assumes ch: "chain m r (xs @ (mr, u, pre @ merged p n s @ post) # ys)" "apart_regions (xs @ (mr, u, pre @ merged p n s @ post) # ys)"
    and P: "20 \<le> snd p" "20 \<le> n"
  shows "allocated (xs @ (mr, u, pre @ merged p n s @ post) # ys) =
    allocated (xs @ (mr, u, pre @ [p, (True, n), s] @ post) # ys) - {(mr + 16 + span pre + snd p + 8, n - 16)}" (is "allocated ?rs' = allocated ?rs - {(?ptr, ?l)}")
proof
  define q where "q = mr + 16 + span pre"
  have mg: "blocks_at q (merged p n s) = blocks_at q [p, (True, n), s] - {(?ptr, ?l)}" using blocks_at_merged [OF P, of q s] by (simp add: q_def)
  have spm: "span (merged p n s) = span [p, (True, n), s]" by (auto simp: merged_def)
  show "allocated ?rs - {(?ptr, ?l)} \<subseteq> allocated ?rs'"
    unfolding allocated_update blocks_at_append spm q_def [symmetric] mg by blast
  define pa md po where "pa = (if fst p then pre @ [p] else pre)" "md = (if fst p then [] else [p]) @ (True, n) # (if fst s then [] else [s])"
    "po = (if fst s then s # post else post)"
  have bs: "pre @ merged p n s @ post = pa @ [(False, span md)] @ po" by (auto simp: merged_def pa_md_po_def)
  have "(?ptr, ?l) \<notin> allocated ?rs'"
  proof
    assume i: "(?ptr, ?l) \<in> allocated ?rs'"
    have "?ptr + ?l + 8 \<le> mr + 16 + span pa \<or> mr + 16 + span pa + span [(False, span md)] + 8 \<le> ?ptr"
      by (rule block_outside [OF ch [unfolded bs]]) (use i bs in simp_all)
    then show False using P by (auto simp: pa_md_po_def split: if_splits)
  qed
  moreover have "allocated ?rs' \<subseteq> allocated ?rs"
    unfolding allocated_update blocks_at_append spm q_def [symmetric] mg by blast
  ultimately show "allocated ?rs' \<subseteq> allocated ?rs - {(?ptr, ?l)}" by blast
qed

lemma lsta_dealloc_spec:
  assumes h: "heap m self rs" and a: "(ptr, l) \<in> allocated rs" "\<not> at_edge (bounds rs) ptr l" "ptr \<noteq> self"
  obtains m' rs' where "lsta_dealloc m self ptr = Some (EOK, None, m')" "heap m' self rs'" "bounds rs' = bounds rs"
    "allocated rs' = allocated rs - {(ptr, l)}"
    "\<And>a k x. (a, k) \<in> allocated rs \<Longrightarrow> a \<noteq> ptr \<Longrightarrow> a \<le> x \<Longrightarrow> x < a + k \<Longrightarrow> m' x = m x" "\<And>x. outside rs x \<Longrightarrow> m' x = m x"
    "\<exists>mr u bs k. (mr, u, bs) \<in> set rs' \<and> (False, k) \<in> set bs \<and> l + 16 \<le> k"
proof -
  note H = heapD [OF h]
  obtain xs mr u pre n post ys where B: "rs = xs @ (mr, u, pre @ (True, n) # post) # ys" "region m mr u (pre @ (True, n) # post)"
    "ptr = mr + 16 + span pre + 8" "l = n - 16" "20 \<le> n" "lsta_getmemregion m self ptr = Some mr" "ptr \<noteq> 0" "ptr \<noteq> UINTPTR_MAX"
    using region_of_block [OF h a(1)] by metis
  have ne: "pre \<noteq> []" "post \<noteq> []" using at_edge_iff [OF h B(1)] a(2) B(3,4) by simp_all
  obtain pre0 p where pre: "pre = pre0 @ [p]" using ne(1) by (metis rev_exhaust)
  obtain s post0 where post: "post = s # post0" using ne(2) by (cases post) auto
  define q where "q = mr + 16 + span pre0"
  have R: "region m mr u (pre0 @ p # (True, n) # s # post0)" using B(2) pre post by simp
  have P: "20 \<le> snd p" using regionD(5) [OF R] blkD(1) [of m q p] q_def by (simp add: blks_append)
  have ptr: "ptr = q + snd p + 8" using B(3) pre q_def by simp
  let ?mid = "[p, (True, n), s]" and ?bs = "pre0 @ merged p n s @ post0"
  let ?rs = "xs @ (mr, u, ?bs) # ys"
  have rs: "rs = xs @ (mr, u, pre0 @ ?mid @ post0) # ys" using B(1) pre post by simp
  show thesis
  proof (rule region_free_inner [OF R q_def])
    fix m' assume f: "mem_region_free m mr (q + snd p + 8) = (True, None, m')" "region m' mr u ?bs"
      and out: "\<And>x. x < (if fst p then q + snd p else q) \<or> (if fst s then q + snd p + n else q + snd p + n + snd s) \<le> x \<Longrightarrow> m' x = m x"
    define pa where "pa = (if fst p then pre0 @ [p] else pre0)"
    define md where "md = (if fst p then [] else [p]) @ (True, n) # (if fst s then [] else [s])"
    define po where "po = (if fst s then s # post0 else post0)"
    have rs2: "rs = xs @ (mr, u, pa @ md @ po) # ys" using rs by (auto simp: pa_def md_def po_def)
    have sp: "mr + 16 + span pa = (if fst p then q + snd p else q)"
      "mr + 16 + span pa + span md = (if fst s then q + snd p + n else q + snd p + n + snd s)" by (simp_all add: pa_def md_def q_def)
    have md: "blocks_at (mr + 16 + span pa) md = {(ptr, l)}" using ptr B(4) by (auto simp: md_def sp)
    have keep: "m' x = m x" if "(b, k) \<in> allocated rs" "(b, k) \<noteq> (ptr, l)" "b \<le> x" "x < b + k" for b k x
    proof -
      have "b + k + 8 \<le> mr + 16 + span pa \<or> mr + 16 + span pa + span md + 8 \<le> b"
        by (rule block_outside [OF H(2,3) [unfolded rs2]]) (use that(1,2) md rs2 in simp_all)
      then have "x < mr + 16 + span pa \<or> mr + 16 + span pa + span md \<le> x" using that(3,4) by linarith
      then show ?thesis by (intro out) (simp only: sp [symmetric])
    qed
    have uniq: "k = l" if "(ptr, k) \<in> allocated rs" for k
      using allocated_disjoint [OF H(2,3) that a(1)] by auto
    have U: "q + snd p + n + snd s \<le> u" using regionD(9) [OF R] q_def by simp
    have out2: "m' x = m x" if "x < mr + 16 \<or> u \<le> x" for x using that U by (intro out) (auto simp: q_def)
    have ch: "chain m' (ldp m self) ?rs" "apart_regions ?rs"
      using chain_update [OF H(2,3) [unfolded rs] out2 f(2)] apart_update [OF H(3) [unfolded rs]] by blast+
    have al: "allocated ?rs = allocated rs - {(ptr, l)}"
      using allocated_merged [OF ch P B(5)] unfolding rs ptr B(4) q_def by simp
    obtain k1 where k1: "16 \<le> k1" "(self, k1) \<in> allocated rs" using H(5) by blast
    have "heap m' self ?rs"
    proof (rule heap_step [OF h [unfolded rs] out2 f(2)])
      show "\<exists>k \<ge> 16. (self, k) \<in> allocated ?rs" using k1 a(3) al by blast
      show "m' x = m x" if "self \<le> x" "x < self + 16" for x using keep [OF k1(2)] k1(1) that a(3) by simp
    qed
    moreover have "m' x = m x" if "outside rs x" for x
      using split_in_extent [OF B(2), of pa md po xs ys x] that rs2 B(1) out sp by (simp del: if_split)
    moreover have "lsta_dealloc m self ptr = Some (EOK, None, m')"
      using f(1) ptr B(6-8) regionD(1) [OF B(2)] by (simp add: lsta_dealloc_def)
    moreover have "bounds ?rs = bounds rs" using rs by (simp add: bounds_def)
    moreover have "\<exists>mr u bs k. (mr, u, bs) \<in> set ?rs \<and> (False, k) \<in> set bs \<and> l + 16 \<le> k"
    proof (intro exI conjI)
      show "(mr, u, ?bs) \<in> set ?rs" by simp
      show "(False, (if fst p then 0 else snd p) + n + (if fst s then 0 else snd s)) \<in> set ?bs" by (simp add: merged_def)
    qed (use B(4,5) in simp)
    ultimately show thesis using that [of m' ?rs] al keep by simp
  qed
qed

subsection \<open>Frames\<close>

lemma heap_cong:
  assumes h: "heap m self rs" and e: "\<And>x. \<not> outside rs x \<Longrightarrow> m' x = m x"
  shows "heap m' self rs"
proof -
  note H = heapD [OF h]
  have E: "m' x = m x" if "r \<in> set rs" "x \<in> extent r" for r x using e that by (auto simp: outside_def)
  obtain k where k: "16 \<le> k" "(self, k) \<in> allocated rs" using H(5) by blast
  obtain xs mr u bs ys where A: "rs = xs @ (mr, u, bs) # ys" "mr + 24 \<le> self" "self + k + 8 \<le> u" using allocated_in [OF H(2) k(2)] by metis
  have d: "m' x = m x" if "self \<le> x" "x < self + 16" for x
    by (rule E [of "(mr, u, bs)"]) (use A k(1) that in \<open>auto simp: extent_def\<close>)
  have D: "ldp m' self = ldp m self" "ldp m' (self + 4) = ldp m (self + 4)" by (rule ld_congs, use d in simp)+
  have "ld m' (v + 4) = ld m (v + 4)" if v: "(nr, v) \<in> set (bounds rs)" for nr v
  proof -
    obtain cs where c: "(nr, v, cs) \<in> set rs" using v by (auto simp: bounds_def)
    have "nr \<le> v" using regionD(9) [OF chain_region [OF H(2) c]] by simp
    then show ?thesis by (intro ld_cong E [OF c]) (auto simp: extent_def)
  qed
  then have "quiet_edges m' rs" using H(4) unfolding quiet_edges_def by fastforce
  then show ?thesis unfolding heap_def D using h chain_cong [OF E H(2)] by (simp add: heap_def)
qed

text \<open>Writing to the contents of an allocated block.\<close>

lemma region_write:
  assumes r: "region m mr u (pre @ (True, n) # post)" and q: "q = mr + 16 + span pre"
    and out: "\<And>x. x < q + 8 \<or> q + n \<le> x + 8 \<Longrightarrow> m' x = m x"
  shows "region m' mr u (pre @ (True, n) # post)"
proof -
  have b: "blk m q (True, n)" using regionD(5) [OF r] q by (simp add: blks_append)
  then have n: "20 \<le> n" using blkD(1) by fastforce
  have "lds m' q = lds m q" "ld m' (q + 4) = ld m (q + 4)" "ld m' (q + n - 8) = ld m (q + n - 8)" "lds m' (q + n - 4) = lds m (q + n - 4)"
    by (rule ld_congs, rule out, use n in auto)+
  then have b': "blk m' q (True, n)" using b by (simp add: blk_def)
  have "region m' mr u (pre @ [(True, n)] @ post)"
  proof (rule region_replace [OF _ q])
    show "region m mr u (pre @ [(True, n)] @ post)" "successively apart_free (pre @ [(True, n)] @ post)" using r regionD(6) [OF r] by simp_all
    show "m' x = m x" if "x < q \<or> q + span [(True, n)] \<le> x" for x by (rule out) (use that in auto)
  qed (use b' in simp)
  then show ?thesis by simp
qed

lemma chain_write:
  assumes c: "chain m p rs" "apart_regions rs" and a: "(ptr, l) \<in> allocated rs" and out: "\<And>x. x < ptr \<or> ptr + l \<le> x \<Longrightarrow> m' x = m x"
  shows "chain m' p rs"
proof -
  obtain xs mr u bs ys where A: "rs = xs @ (mr, u, bs) # ys" "(ptr, l) \<in> blocks_at (mr + 16) bs" "region m mr u bs" "mr + 24 \<le> ptr" "ptr + l + 8 \<le> u"
    using allocated_in [OF c(1) a] by metis
  obtain pre n post where B: "bs = pre @ (True, n) # post" "ptr = mr + 16 + span pre + 8" "l = n - 16" "20 \<le> n"
    using blocks_at_split [OF A(2) regionD(5) [OF A(3)]] by metis
  have "region m' mr u bs" unfolding B(1) by (rule region_write [OF A(3) [unfolded B(1)] refl]) (rule out, use B in auto)
  then show ?thesis unfolding A(1) by (intro chain_update [OF c [unfolded A(1)]]) (rule out, use A(4,5) in auto)
qed

text \<open>What lies behind a region is no part of a block or of a descriptor, and no block overlaps a descriptor.\<close>

lemma regions_apart:
  assumes c: "chain m p rs" "apart_regions rs" "(nr, v, cs) \<in> set rs" "(mr, u, bs) \<in> set rs"
  shows "u + 8 \<le> nr \<or> v + 8 \<le> mr \<or> nr = mr \<and> v = u"
proof (cases "(nr, v, cs) = (mr, u, bs)")
  case False
  have "extent (mr, u, bs) \<inter> extent (nr, v, cs) = {}"
    using c(2-4) False by (induction rs) (auto simp: Int_commute)
  then have "\<not> (mr \<le> x \<and> x < u + 8 \<and> nr \<le> x \<and> x < v + 8)" for x by (auto simp: extent_def)
  from this [of mr] this [of nr] show ?thesis
    using regionD(9) [OF chain_region [OF c(1,3)]] regionD(9) [OF chain_region [OF c(1,4)]] by linarith
qed simp

lemma edge_apart:
  assumes c: "chain m p rs" "apart_regions rs" "(nr, v) \<in> set (bounds rs)"
  shows "(a, l) \<in> allocated rs \<Longrightarrow> a + l \<le> v + 4 \<or> v + 8 \<le> a" "(lr, w) \<in> set (bounds rs) \<Longrightarrow> lr + 4 \<le> v + 4 \<or> v + 8 \<le> lr"
    "(a, l) \<in> allocated rs \<Longrightarrow> a + l \<le> nr \<or> nr + 16 \<le> a"
proof -
  obtain cs where n: "(nr, v, cs) \<in> set rs" using c(3) by (auto simp: bounds_def)
  have nv: "nr + 16 \<le> v" using regionD(9) [OF chain_region [OF c(1) n]] by simp
  have "(a + l \<le> v + 4 \<or> v + 8 \<le> a) \<and> (a + l \<le> nr \<or> nr + 16 \<le> a)" if al: "(a, l) \<in> allocated rs"
  proof -
    obtain xs mr u bs ys where A: "rs = xs @ (mr, u, bs) # ys" "mr + 24 \<le> a" "a + l + 8 \<le> u" using allocated_in [OF c(1) al] by metis
    have "u + 8 \<le> nr \<or> v + 8 \<le> mr \<or> nr = mr \<and> v = u" by (rule regions_apart [OF c(1,2) n, of mr u bs]) (use A(1) in simp)
    then show ?thesis using A nv by linarith
  qed
  then show "(a, l) \<in> allocated rs \<Longrightarrow> a + l \<le> v + 4 \<or> v + 8 \<le> a" "(a, l) \<in> allocated rs \<Longrightarrow> a + l \<le> nr \<or> nr + 16 \<le> a" by blast+
  show "lr + 4 \<le> v + 4 \<or> v + 8 \<le> lr" if w: "(lr, w) \<in> set (bounds rs)"
  proof -
    obtain ds where d: "(lr, w, ds) \<in> set rs" using w by (auto simp: bounds_def)
    then show ?thesis using regions_apart [OF c(1,2) n d] regionD(9) [OF chain_region [OF c(1) d]] nv by linarith
  qed
qed

lemma heap_write:
  assumes h: "heap m self rs" and a: "(ptr, l) \<in> allocated rs" "ptr \<noteq> self" and out: "\<And>x. x < ptr \<or> ptr + l \<le> x \<Longrightarrow> m' x = m x"
  shows "heap m' self rs" "\<And>a k x. (a, k) \<in> allocated rs \<Longrightarrow> a \<noteq> ptr \<Longrightarrow> a \<le> x \<Longrightarrow> x < a + k \<Longrightarrow> m' x = m x"
proof -
  note H = heapD [OF h]
  show keep: "m' x = m x" if "(b, k) \<in> allocated rs" "b \<noteq> ptr" "b \<le> x" "x < b + k" for b k x
    using allocated_disjoint [OF H(2,3) a(1) that(1)] that by (intro out) auto
  obtain k1 where k1: "16 \<le> k1" "(self, k1) \<in> allocated rs" using H(5) by blast
  have D: "ldp m' self = ldp m self" "ldp m' (self + 4) = ldp m (self + 4)"
    by (rule ld_congs, rule keep [OF k1(2)], use a(2) k1(1) in simp_all)+
  have "ld m' (v + 4) = ld m (v + 4)" if "(nr, v) \<in> set (bounds rs)" for nr v
    using edge_apart(1) [OF H(2,3) that a(1)] by (intro ld_cong out) auto
  then have "quiet_edges m' rs" using H(4) unfolding quiet_edges_def by fastforce
  then show "heap m' self rs" unfolding heap_def D using h chain_write [OF H(2,3) a(1) out] by (simp add: heap_def)
qed

lemma allocated_aligned:
  assumes "heap m self rs" "(a, l) \<in> allocated rs"
  shows "4 dvd a"
proof -
  obtain xs mr u pre n post ys where B: "region m mr u (pre @ (True, n) # post)" "a = mr + 16 + span pre + 8"
    using region_of_block [OF assms] by metis
  have "4 dvd span bs" if "blks m p q bs" for p q bs
    using that by (induction bs arbitrary: p) (auto dest: blkD(2))
  moreover have "blks m (mr + 16) (mr + 16 + span pre) pre" using regionD(5) [OF B(1)] by (simp add: blks_append)
  ultimately have "4 dvd span pre" by blast
  moreover have "4 dvd mr" using regionD(2) [OF B(1)] .
  moreover have "a = mr + span pre + 4 * 6" using B(2) by simp
  ultimately show ?thesis by (metis dvd_add dvd_triv_left)
qed

subsection \<open>New regions\<close>

lemma round_word:
  assumes "p \<le> 4294967292"
  shows "p \<le> ceil_word p" "ceil_word p < p + 4" "4 dvd ceil_word p" "floor_word p \<le> p" "4 dvd floor_word p"
  using assms by (simp_all add: ceil_word_def floor_word_def)

lemma ldp_skip:
  "a + 4 \<le> b \<or> b + 4 \<le> a \<Longrightarrow> ldp (sw m a v) b = ldp m b" "a + 4 \<le> b \<or> b + 4 \<le> a \<Longrightarrow> ldp (sts m a i) b = ldp m b"
  by (simp_all add: ldp_def sts_def ld_sw_other)

text \<open>The descriptor and the single free block of a new region stay within the memory that is given.\<close>

lemma mem_region_create_spec:
  assumes md: "0 < lo" "lo \<le> hi" "hi \<le> 4294967292" "hi < lo + 2147483648" and ef: "ef < 4294967296"
  obtains (none) m' where "mem_region_create m lo hi ef = (0, m')" "\<And>x. x < lo \<or> hi \<le> x \<Longrightarrow> m' x = m x" "hi < lo + 56"
    | (new) mr u m' where "mem_region_create m lo hi ef = (mr, m')" "lo \<le> mr" "u \<le> hi" "hi < u + 4" "u = floor_word hi" "mr + 36 \<le> u" "mr < lo + 4"
      "region m' mr u [(False, u - mr - 16)]" "ldp m' mr = 0" "ldp m' (mr + 12) = ef" "\<And>x. x < mr \<or> u \<le> x \<Longrightarrow> m' x = m x"
proof -
  define b t where "b = ceil_word lo" "t = floor_word hi"
  have B: "lo \<le> b" "4 dvd b" "t \<le> hi" "4 dvd t" "hi < t + 4" "b \<noteq> 0" "b < lo + 4" using round_word [of lo] round_word [of hi] md by (auto simp: b_t_def floor_word_def)
  let ?m1 = "stp (stp (stp (stp m b NULL) (b + 4) (b + 16)) (b + 8) t) (b + 12) ef"
  show thesis
  proof (cases "b + 16 \<le> t")
    case False
    then have "mem_region_create m lo hi ef = (0, m)" by (auto simp: mem_region_create_def Let_def b_t_def [symmetric])
    then show thesis using none False B by simp
  next
    case True
    then have "\<not> t < b" "\<not> t - b < 16" by simp_all
    have pb: "padd b 16 = b + 16" using padd_up [of b 16] True B(3) md(3) by simp
    have cb: "ceil_word (b + 16) = b + 16"
    proof -
      obtain j where "b = 4 * j" using B(2) by (auto simp: dvd_def)
      then show ?thesis using True B(3) md(3) by (simp add: ceil_word_def)
    qed
    have len: "(int t - int (b + 16)) mod 4294967296 = int (t - b - 16)" using True B(3) md(3) by (simp add: of_nat_diff mod_pos_pos_trivial)
    have m1: "?m1 x = m x" if "x < b \<or> b + 16 \<le> x" for x using that by (auto simp: stp_def sw_outside)
    have eq: "mem_region_create m lo hi ef = (if int (t - b - 16) < int 20 then (0, ?m1) else
        (b, set_trailer (set_header ?m1 (b + 16) (wrap32 (int (t - b - 16)))) (padd t (- 8)) (wrap32 (int (t - b - 16)))))"
      unfolding mem_region_create_def b_t_def [symmetric] Let_def pb cb len
      using \<open>\<not> t < b\<close> \<open>\<not> t - b < 16\<close> by simp
    show thesis
    proof (cases "t - b - 16 < 20")
      case small: True
      then have "mem_region_create m lo hi ef = (0, ?m1)" unfolding eq by simp
      then show thesis by (rule none) (use m1 B True small in auto)
    next
      case big: False
      define n where "n = t - b - 16"
      have n: "20 \<le> n" "b + 16 + n = t" "n < 2147483648" using big True md(4) B by (auto simp: n_def)
      have n4: "4 dvd n" using B(2,4) n(2) by presburger
      let ?m = "set_trailer (set_header ?m1 (b + 16) (int n)) (t - 8) (int n)"
      have pt: "padd t (- 8) = t - 8" using padd_int [of "t - 8" t "- 8"] n B(3) md(3) by simp
      have "wrap32 (int n) = int n" using n(3) by (simp add: wrap32_id)
      then have c: "mem_region_create m lo hi ef = (b, ?m)"
        unfolding eq pt n_def [symmetric] using n(1) by simp
      define n0 where "n0 = n - 20"
      have z: "n = n0 + 20" "t - 8 = b + n0 + 28" "t = b + n0 + 36" using n by (simp_all add: n0_def)
      have m2: "?m = sw (sts (sw (sts ?m1 (b + 16) (int n)) (b + 20) HEADER_PATTERN) (b + n0 + 32) (int n)) (b + n0 + 28) TRAILER_PATTERN"
        unfolding set_header_def set_trailer_def z(2) by (simp add: add_ac)
      have "blk ?m (b + 16) (False, n)" unfolding m2 using n n4 z by (simp add: blk_def signed_size_def mem_simps)
      then have bl: "blks ?m (b + 16) t [(False, n)]" using n(2) by simp
      have ldps: "ldp ?m b = 0" "ldp ?m (b + 4) = b + 16" "ldp ?m (b + 8) = t" "ldp ?m (b + 12) = ef"
        unfolding m2 using ef md(3) B(3) z by (simp_all add: ldp_skip mem_simps)
      have "region ?m b t [(False, n)]" using ldps bl B(1-3,6) md(4) by (simp add: region_def del: blks.simps)
      moreover have "?m x = m x" if "x < b \<or> t \<le> x" for x
        unfolding m2 using that z m1 [of x] by (auto simp: sts_def sw_outside)
      ultimately show thesis using new [OF c, of t] ldps B n by (simp add: n_def b_t_def)
    qed
  qed
qed

definition quiet_above :: "mem \<Rightarrow> nat \<Rightarrow> bool" where
  "quiet_above m hi \<longleftrightarrow> of_nat (floor_word hi) \<noteq> TRAILER_PATTERN \<and> ld m (floor_word hi + 4) \<noteq> HEADER_PATTERN"

lemma lsta_create_spec:
  assumes md: "0 < lo" "lo \<le> hi" "hi \<le> 4294967292" "hi < lo + 2147483648" and fp: "gf < 4294967296" "ef < 4294967296" and qu: "quiet_above m hi"
  obtains (none) m' where "lsta_create m lo hi gf ef = Some (0, m')" "\<And>x. x < lo \<or> hi \<le> x \<Longrightarrow> m' x = m x" "hi < lo + 56"
    | (new) mr u bs l m' where "lsta_create m lo hi gf ef = Some (mr + 24, m')" "heap m' (mr + 24) [(mr, u, bs)]" "lo \<le> mr" "u \<le> hi"
      "allocated [(mr, u, bs)] = {(mr + 24, l)}" "ldp m' (mr + 24 + 8) = gf" "\<And>x. x < lo \<or> hi \<le> x \<Longrightarrow> m' x = m x"
proof (rule mem_region_create_spec [OF md fp(2), of m])
  fix m' assume "mem_region_create m lo hi ef = (0, m')" "\<And>x. x < lo \<or> hi \<le> x \<Longrightarrow> m' x = m x" "hi < lo + 56"
  then show thesis by (intro none [of m']) (simp_all add: lsta_create_def)
next
  fix mr u m1
  assume c: "mem_region_create m lo hi ef = (mr, m1)" "lo \<le> mr" "u \<le> hi" "hi < u + 4" "u = floor_word hi" "mr + 36 \<le> u"
    "region m1 mr u [(False, u - mr - 16)]" "ldp m1 mr = 0" and lo: "mr < lo + 4" and o1: "\<And>x. x < mr \<or> u \<le> x \<Longrightarrow> m1 x = m x"
  note R = regionD [OF c(7)]
  show thesis
  proof (rule region_alloc_spec [OF c(7), of 16])
    assume f: "mem_region_alloc m1 mr 16 = Some (0, m1)" "\<And>n. (False, n) \<in> set [(False, u - mr - 16)] \<Longrightarrow> n < gross 16"
    have "u - mr - 16 < 32" using f(2) by (simp add: gross_def ceil_word_def)
    then show thesis by (intro none [of m1]) (use f(1) c(1-4) R(1) o1 lo in \<open>auto simp: lsta_create_def\<close>)
  next
    fix xs n k ys m2
    assume a: "[(False, u - mr - 16)] = xs @ (False, n) # ys" "mem_region_alloc m1 mr 16 = Some (mr + 16 + span xs + 8, m2)"
      "region m2 mr u (xs @ (True, k) # (if k = n then [] else [(False, n - k)]) @ ys)" "gross 16 \<le> k" "k \<le> n"
      and o2: "\<And>x. x < mr + 16 + span xs \<or> mr + 16 + span xs + n \<le> x \<Longrightarrow> m2 x = m1 x"
    have x: "xs = []" "ys = []" "n = u - mr - 16" using a(1) by (auto simp: Cons_eq_append_conv)
    define bs where "bs = (True, k) # (if k = n then [] else [(False, n - k)])"
    have k: "32 \<le> k" using a(4) by (simp add: gross_def ceil_word_def)
    define self where "self = mr + 24"
    define m' where "m' = stp (stp (stp (stp m2 self mr) (self + 4) mr) (self + 8) gf) (self + 12) ef"
    have o3: "m' x = m2 x" if "x < self \<or> self + 16 \<le> x" for x using that by (auto simp: m'_def stp_def sw_outside)
    have out: "m' x = m x" if "x < mr \<or> u \<le> x" for x using that o1 [of x] o2 [of x] o3 [of x] k x a(5) c(6) by (auto simp: self_def)
    have "region m' mr u ([] @ (True, k) # (if k = n then [] else [(False, n - k)]))"
    proof (rule region_write [OF _ refl])
      show "region m2 mr u ([] @ (True, k) # (if k = n then [] else [(False, n - k)]))" using a(3) x by simp
      show "m' x = m2 x" if "x < mr + 16 + span [] + 8 \<or> mr + 16 + span [] + k \<le> x + 8" for x by (rule o3) (use that k self_def in auto)
    qed
    then have r: "region m' mr u bs" by (simp add: bs_def)
    have d: "ldp m' self = mr" "ldp m' (self + 4) = mr" "ldp m' (self + 8) = gf"
      using fp md(3) c(3,6) by (simp_all add: m'_def mem_simps)
    have "ldp m' mr = ldp m1 mr" by (rule ld_congs) (use o2 o3 x in \<open>auto simp: self_def\<close>)
    then have ch: "chain m' (ldp m' self) [(mr, u, bs)]" using r d(1) c(8) by simp
    have al: "allocated [(mr, u, bs)] = {(self, k - 16)}" by (auto simp: allocated_def bs_def self_def)
    have "ld m' (u + 4) = ld m (u + 4)" by (rule ld_cong) (use out in auto)
    then have "quiet_edges m' [(mr, u, bs)]" using qu c(5) by (simp add: quiet_edges_def bounds_def quiet_above_def)
    then have "heap m' self [(mr, u, bs)]" using ch d al k by (auto simp: heap_def)
    moreover have "lsta_create m lo hi gf ef = Some (self, m')"
      using c(1) R(1) a(2) x by (simp add: lsta_create_def m'_def self_def add_ac)
    moreover have "m' x = m x" if "x < lo \<or> hi \<le> x" for x by (rule out) (use that c(2,3) in auto)
    ultimately show thesis using new [of mr m' u bs "k - 16"] al d(3) c(2,3) unfolding self_def by simp
  qed simp_all
qed

lemma chain_snoc:
  assumes "chain m p rs" "apart_regions rs" "rs \<noteq> []" "lr = fst (last rs)" and new: "region m' mr u bs" "ldp m' mr = 0" "ldp m' lr = mr"
    and same: "\<And>r x. r \<in> set rs \<Longrightarrow> x \<in> extent r \<Longrightarrow> x < lr \<or> lr + 4 \<le> x \<Longrightarrow> m' x = m x"
  shows "chain m' p (rs @ [(mr, u, bs)])"
  using assms(1-4) same
proof (induction rs arbitrary: p)
  case (Cons r rs)
  obtain nr v cs where r: "r = (nr, v, cs)" by (cases r)
  have R: "region m nr v cs" "p = nr" "chain m (ldp m nr) rs" using Cons.prems(1) r by simp_all
  have ee: "m' x = m x" if "nr \<le> x" "x < v + 8" "x < lr \<or> lr + 4 \<le> x" for x
    using Cons.prems(5) [of r x] that r by (simp add: extent_def)
  show ?case
  proof (cases "rs = []")
    case True
    then have "lr = nr" using Cons.prems(4) r by simp
    then have "region m' nr v cs" by (intro region_cong [OF _ R(1)] ee) auto
    then show ?thesis using True r R(2) new \<open>lr = nr\<close> by simp
  next
    case False
    obtain v' cs' where l: "(lr, v', cs') \<in> set rs" using Cons.prems(4) False by (metis last.simps last_in_set prod.collapse)
    have "region m lr v' cs'" using chain_region [OF R(3) l] .
    then have "{lr ..< lr + 4} \<subseteq> extent (lr, v', cs')" using regionD(9) by (fastforce simp: extent_def)
    moreover have "extent r \<inter> extent (lr, v', cs') = {}" using Cons.prems(2) l by simp
    ultimately have dj: "x < lr \<or> lr + 4 \<le> x" if "x \<in> extent r" for x using that by (auto simp: subset_iff)
    have e2: "m' x = m x" if "nr \<le> x" "x < v + 8" for x by (rule ee [OF that]) (rule dj, use that r in \<open>simp add: extent_def\<close>)
    have "region m' nr v cs" by (intro region_cong [OF _ R(1)] e2) auto
    moreover have "ldp m' nr = ldp m nr" by (rule ld_congs) (use e2 regionD(9) [OF R(1)] in simp)
    moreover have "chain m' (ldp m nr) (rs @ [(mr, u, bs)])"
      by (rule Cons.IH [OF R(3)]) (use Cons.prems False in auto)
    ultimately show ?thesis using r R(2) by simp
  qed
qed simp

lemma allocated_inside:
  assumes "chain m p rs" "(a, l) \<in> allocated rs" "a \<le> x" "x < a + l"
  shows "\<not> outside rs x"
proof -
  obtain xs mr u bs ys where "rs = xs @ (mr, u, bs) # ys" "mr + 24 \<le> a" "a + l + 8 \<le> u" using allocated_in [OF assms(1,2)] by metis
  then show ?thesis using assms(3,4) by (simp add: outside_def extent_def)
qed

lemma link_region:
  assumes h: "heap m self rs" and new: "region m mr u bs" "ldp m mr = 0" and away: "\<forall>x. mr \<le> x \<and> x < u + 8 \<longrightarrow> outside rs x"
    and qu: "of_nat u \<noteq> TRAILER_PATTERN" "ld m (u + 4) \<noteq> HEADER_PATTERN"
    and m': "m' = stp (stp m (ldp m (self + 4)) mr) (self + 4) mr"
  shows "heap m' self (rs @ [(mr, u, bs)])" "(a, k) \<in> allocated rs \<Longrightarrow> a \<noteq> self \<Longrightarrow> a \<le> x \<Longrightarrow> x < a + k \<Longrightarrow> m' x = m x"
    "ldp m' (self + 8) = ldp m (self + 8)" "outside rs x \<Longrightarrow> m' x = m x"
proof -
  note H = heapD [OF h]
  define lr where "lr = ldp m (self + 4)"
  have lr: "lr = fst (last rs)" using h by (simp add: heap_def lr_def)
  then obtain lu lbs where l: "(lr, lu, lbs) \<in> set rs" using H(1) by (metis last_in_set prod.collapse)
  have lb: "(lr, lu) \<in> set (bounds rs)" using l by (force simp: bounds_def)
  have LR: "region m lr lu lbs" using chain_region [OF H(2) l] .
  obtain k where k: "16 \<le> k" "(self, k) \<in> allocated rs" using H(5) by blast
  obtain xs sr su sbs ys where S: "rs = xs @ (sr, su, sbs) # ys" "sr + 24 \<le> self" "self + k + 8 \<le> su" using allocated_in [OF H(2) k(2)] by metis
  have dl: "{lr ..< lr + 4} \<subseteq> extent (lr, lu, lbs)" using regionD(9) [OF LR] by (auto simp: extent_def)
  have ds: "{self ..< self + 16} \<subseteq> extent (sr, su, sbs)" using S k(1) by (auto simp: extent_def)
  define m2 where "m2 = stp m lr mr"
  have o2: "m2 x = m x" if "x < lr \<or> lr + 4 \<le> x" for x using that by (auto simp: m2_def stp_def sw_outside)
  have o3: "m' x = m2 x" if "x < self + 4 \<or> self + 8 \<le> x" for x using that by (auto simp: m' m2_def lr_def stp_def sw_outside)
  have o: "m' x = m x" if "outside rs x" for x
  proof -
    have "x \<notin> extent (lr, lu, lbs)" "x \<notin> extent (sr, su, sbs)" using that l S(1) by (auto simp: outside_def)
    then have "x \<notin> {lr ..< lr + 4}" "x \<notin> {self ..< self + 16}" using dl ds by blast+
    then show ?thesis using o2 [of x] o3 [of x] by auto
  qed
  then show "outside rs x \<Longrightarrow> m' x = m x" .
  show keep: "m' x = m x" if "(b, l) \<in> allocated rs" "b \<noteq> self" "b \<le> x" "x < b + l" for b l x
    using edge_apart(3) [OF H(2,3) lb that(1)] allocated_disjoint [OF H(2,3) k(2) that(1)] that k(1) o2 [of x] o3 [of x] by auto
  have d: "self + k \<le> lr \<or> lr + 16 \<le> self" using edge_apart(3) [OF H(2,3) lb k(2)] .
  have D: "ldp m' self = ldp m self" "ldp m' (self + 8) = ldp m (self + 8)"
    by (rule ld_congs, use d k(1) o2 o3 in auto)+
  then show "ldp m' (self + 8) = ldp m (self + 8)" by simp
  have mr: "mr < 4294967296" using regionD(8,9) [OF new(1)] by simp
  have D4: "ldp m' (self + 4) = mr" using mr by (simp add: m' mem_simps)
  have N: "m2 x = m x" if "mr \<le> x" "x < u + 8" for x
  proof -
    have "x \<notin> extent (lr, lu, lbs)" using away that l by (auto simp: outside_def)
    then have "x \<notin> {lr ..< lr + 4}" using dl by blast
    then show ?thesis by (intro o2) auto
  qed
  have "chain m2 (ldp m self) (rs @ [(mr, u, bs)])"
  proof (rule chain_snoc [OF H(2,3,1) lr])
    show "region m2 mr u bs" by (rule region_cong [OF _ new(1)]) (use N in simp)
    show "ldp m2 mr = 0" using ld_congs(3) [of mr m2 m] N new regionD(9) [OF new(1)] by simp
    show "ldp m2 lr = mr" using mr by (simp add: m2_def mem_simps)
  qed (use o2 in auto)
  moreover have "outside rs x" if "x \<in> extent (mr, u, bs)" for x using away that by (simp add: extent_def)
  then have ap: "apart_regions (rs @ [(mr, u, bs)])" using H(3) by (auto simp: apart_append outside_def)
  moreover have al: "(self, k) \<in> allocated (rs @ [(mr, u, bs)])" using k(2) by (auto simp: allocated_def)
  ultimately have ch: "chain m' (ldp m self) (rs @ [(mr, u, bs)])" by (rule chain_write) (use o3 k(1) in auto)
  have "ld m' (v + 4) = ld m (v + 4)" if v: "(nr, v) \<in> set (bounds rs)" for nr v
    using edge_apart(1) [OF H(2,3) v k(2)] edge_apart(2) [OF H(2,3) v lb] k(1) o2 o3 by (intro ld_cong) auto
  then have "quiet_edges m' rs" using H(4) unfolding quiet_edges_def by fastforce
  moreover have "ld m' (u + 4) = ld m (u + 4)" by (rule ld_cong) (use o away regionD(9) [OF new(1)] in auto)
  ultimately have "quiet_edges m' (rs @ [(mr, u, bs)])" using qu by (auto simp: quiet_edges_def bounds_def)
  then show "heap m' self (rs @ [(mr, u, bs)])" using ch ap al k(1) D4 D by (auto simp: heap_def)
qed

lemma lsta_add_memregion_spec:
  assumes h: "heap m self rs" and md: "0 < lo" "lo \<le> hi" "hi \<le> 4294967292" "hi < lo + 2147483648" and qu: "quiet_above m hi"
    and away: "\<And>x. lo \<le> x \<Longrightarrow> x < hi + 8 \<Longrightarrow> outside rs x"
  obtains (none) e m' where "lsta_add_memregion m self lo hi = (e, m')" "e \<noteq> EOK" "heap m' self rs" "\<And>x. x < lo \<or> hi \<le> x \<Longrightarrow> m' x = m x"
    | (new) mr u n m' where "lsta_add_memregion m self lo hi = (EOK, m')" "heap m' self (rs @ [(mr, u, [(False, n)])])" "lo \<le> mr" "mr \<le> u" "u \<le> hi"
      "\<And>a k x. (a, k) \<in> allocated rs \<Longrightarrow> a \<noteq> self \<Longrightarrow> a \<le> x \<Longrightarrow> x < a + k \<Longrightarrow> m' x = m x" "ldp m' (self + 8) = ldp m (self + 8)"
      "\<And>x. outside rs x \<Longrightarrow> x < lo \<or> hi \<le> x \<Longrightarrow> m' x = m x"
proof -
  note H = heapD [OF h]
  have dead: "ldp m (self + 12) < 4294967296" by simp
  have in_rs: "x < lo \<or> hi \<le> x" if "\<not> outside rs x" for x using away [of x] that by (cases "lo \<le> x"; cases "x < hi") auto
  have hc: "heap m1 self rs" if "\<And>x. x < lo \<or> hi \<le> x \<Longrightarrow> m1 x = m x" for m1
    by (rule heap_cong [OF h]) (use that in_rs in blast)
  show thesis
  proof (cases "hi = lo")
    case True
    then show thesis using none [of EINVAL m] h by (simp add: lsta_add_memregion_def)
  next
    case ne: False
    show thesis
    proof (rule mem_region_create_spec [OF md dead, of m])
      fix m1 assume "mem_region_create m lo hi (ldp m (self + 12)) = (0, m1)" "\<And>x. x < lo \<or> hi \<le> x \<Longrightarrow> m1 x = m x"
      then show thesis using none [of ENOMEM m1] hc ne md(1) by (simp add: lsta_add_memregion_def)
    next
      fix mr u m1
      assume c: "mem_region_create m lo hi (ldp m (self + 12)) = (mr, m1)" "lo \<le> mr" "u \<le> hi" "hi < u + 4" "u = floor_word hi" "mr + 36 \<le> u"
        "region m1 mr u [(False, u - mr - 16)]" "ldp m1 mr = 0" and o1: "\<And>x. x < mr \<or> u \<le> x \<Longrightarrow> m1 x = m x"
      have h1: "heap m1 self rs" by (rule hc) (use o1 c(2,3) in auto)
      define m3 where "m3 = stp (stp m1 (ldp m1 (self + 4)) mr) (self + 4) mr"
      have eq: "lsta_add_memregion m self lo hi = (EOK, m3)"
        using c(1) regionD(1) [OF c(7)] ne md(1) by (simp add: lsta_add_memregion_def m3_def)
      have q: "of_nat u \<noteq> TRAILER_PATTERN" "ld m1 (u + 4) \<noteq> HEADER_PATTERN"
        using qu c(5) ld_cong [of "u + 4" m1 m] o1 by (auto simp: quiet_above_def)
      have aw: "\<forall>x. mr \<le> x \<and> x < u + 8 \<longrightarrow> outside rs x" using away c(2,3) by simp
      have in_m: "m1 x = m x" if "\<not> outside rs x" for x using in_rs [OF that] c(2,3) by (intro o1) auto
      note L = link_region [OF h1 c(7,8) aw q m3_def]
      show thesis
      proof (rule new [OF eq L(1) c(2)])
        fix x
        show "m3 x = m x" if "outside rs x" "x < lo \<or> hi \<le> x" using L(4) [OF that(1)] o1 [of x] that(2) c(2,3) by auto
        show "m3 x = m x" if b: "(a, k) \<in> allocated rs" "a \<noteq> self" "a \<le> x" "x < a + k" for a k
        proof -
          have "\<not> outside rs x" by (rule allocated_inside [OF H(2) b(1,3,4)])
          then show ?thesis using L(2) [OF b] in_m by simp
        qed
        have "m1 x = m x" if "self \<le> x" "x < self + 16" for x
        proof -
          obtain k where k: "16 \<le> k" "(self, k) \<in> allocated rs" using H(5) by blast
          have "\<not> outside rs x" by (rule allocated_inside [OF H(2) k(2)]) (use that k(1) in simp_all)
          then show ?thesis by (rule in_m)
        qed
        then show "ldp m3 (self + 8) = ldp m (self + 8)" using L(3) ld_congs(3) [of "self + 8" m1 m] by simp
      qed (use c in simp_all)
    qed
  qed
qed

subsection \<open>Pointers of other allocators\<close>

lemma find_region_none:
  assumes "chain m p rs" "outside rs a"
  shows "find_region m p a = Some 0"
  using assms
proof (induction rs arbitrary: p)
  case Nil
  then show ?case by (subst find_region.simps) simp
next
  case (Cons r rs)
  obtain mr u bs where r: "r = (mr, u, bs)" by (cases r)
  have R: "region m mr u bs" "p = mr" "chain m (ldp m mr) rs" using Cons.prems(1) r by simp_all
  have "a \<notin> extent (mr, u, bs)" using Cons.prems(2) r by (simp add: outside_def)
  then have "\<not> mem_region_manages m mr a" using regionD(3,4) [OF R(1)] by (auto simp: mem_region_manages_def extent_def)
  moreover have "find_region m (ldp m mr) a = Some 0" using Cons.IH [OF R(3)] Cons.prems(2) by (simp add: outside_def)
  ultimately show ?case using R(2) regionD(1) [OF R(1)] by (subst find_region.simps) simp
qed

lemma foreign_pointer:
  assumes "heap m self rs" "outside rs ptr" "ptr \<noteq> 0" "ptr \<noteq> UINTPTR_MAX"
  shows "lsta_dealloc m self ptr = Some (ENOTBLK, None, m)" "lsta_getblocksize m self ptr = Some (ENOTBLK, None, None)"
  using find_region_none [OF heapD(2) [OF assms(1)] assms(2)] assms(3,4)
  by (simp_all add: lsta_dealloc_def lsta_getblocksize_def lsta_getmemregion_def)

lemma lsta_getblocksize_spec:
  assumes h: "heap m self rs" and a: "(ptr, l) \<in> allocated rs"
  shows "lsta_getblocksize m self ptr = Some (EOK, Some l, None)"
proof -
  obtain xs mr u pre n post ys where B: "rs = xs @ (mr, u, pre @ (True, n) # post) # ys" "region m mr u (pre @ (True, n) # post)"
    "ptr = mr + 16 + span pre + 8" "l = n - 16" "20 \<le> n" "lsta_getmemregion m self ptr = Some mr" "ptr \<noteq> 0" "ptr \<noteq> UINTPTR_MAX"
    using region_of_block [OF h a] by metis
  note F = free_header [OF B(2) refl]
  have "(int n - 16) mod 4294967296 = int (n - 16)" using B(5) F(10,11) by (simp add: of_nat_diff mod_pos_pos_trivial)
  then have "mem_region_block_size m mr ptr = (l, None)"
    using F(1,2,4) B(3,4) by (simp add: mem_region_block_size_def Let_def)
  then show ?thesis using B(6-8) regionD(1) [OF B(2)] by (simp add: lsta_getblocksize_def)
qed

text \<open>A block is never grown in place.\<close>

lemma grow_block_never: "\<exists>e. mem_region_grow_block m mr ptr n = (False, e, m)"
  by (auto simp: mem_region_grow_block_def Let_def)

end
