(* ===== verification/Kalloc.thy ===== *)
theory Kalloc
  imports Lsta
begin

section \<open>The clients of the heap\<close>

text \<open>
  The kernel heap of \<open>kern/src/kernlib/kalloc.c\<close>, which has an allocator for memory that the chipset reaches and one for the rest, and the
  functions of the C library. The functions of the kernel run under one lock. Its error function aborts, which is the value \<open>None\<close>.
\<close>

subsection \<open>The kernel heap\<close>

record kheap =
  kmem :: mem
  gUnifiedMemory :: nat
  gCpuOnlyMemory :: nat

text \<open>The kernel has no function that grows a heap; a call would be one of address NULL.\<close>

definition no_grow :: grow_func where
  "no_grow f self n m = None"

definition kdealloc :: "mem \<Rightarrow> nat \<Rightarrow> nat \<Rightarrow> (errno \<times> mem) option" where
  "kdealloc m self ptr =
     do { (e, err, m1) \<leftarrow> lsta_dealloc m self ptr;
          if err = None then Some (e, m1) else None }"

abbreviation (input) KALLOC_OPTION_UNIFIED :: nat where "KALLOC_OPTION_UNIFIED \<equiv> 1"
abbreviation (input) KALLOC_OPTION_CLEAR :: nat where "KALLOC_OPTION_CLEAR \<equiv> 2"

definition kalloc_options :: "kheap \<Rightarrow> nat \<Rightarrow> nat \<Rightarrow> (errno \<times> nat \<times> kheap) option" where
  "kalloc_options h nbytes options =
     do { (ptr, m) \<leftarrow>
            (if odd options \<or> gCpuOnlyMemory h = NULL then lsta_alloc no_grow (kmem h) (gUnifiedMemory h) nbytes
             else do {
               (p, m1) \<leftarrow> lsta_alloc no_grow (kmem h) (gCpuOnlyMemory h) nbytes;
               if p = NULL then lsta_alloc no_grow m1 (gUnifiedMemory h) nbytes else Some (p, m1) });
          let m2 = (if ptr \<noteq> NULL \<and> odd (options div KALLOC_OPTION_CLEAR) then memset m ptr 0 nbytes else m);
          Some (if ptr \<noteq> NULL then EOK else ENOMEM, ptr, h\<lparr>kmem := m2\<rparr>) }"

definition kfree :: "kheap \<Rightarrow> nat \<Rightarrow> kheap option" where
  "kfree h ptr =
     do { (e, m) \<leftarrow> kdealloc (kmem h) (gUnifiedMemory h) ptr;
          if e = ENOTBLK \<and> gCpuOnlyMemory h \<noteq> NULL then do {
            (e1, m1) \<leftarrow> kdealloc m (gCpuOnlyMemory h) ptr;
            if e1 = EOK then Some (h\<lparr>kmem := m1\<rparr>) else None }
          else if e \<noteq> EOK then None
          else Some (h\<lparr>kmem := m\<rparr>) }"

definition kblocksize :: "mem \<Rightarrow> nat \<Rightarrow> nat \<Rightarrow> nat \<Rightarrow> (errno \<times> nat) option" where
  "kblocksize m self ptr nbytes =
     do { (e, n, err) \<leftarrow> lsta_getblocksize m self ptr;
          if err = None then Some (e, case n of None \<Rightarrow> nbytes | Some k \<Rightarrow> k) else None }"

definition ksize :: "kheap \<Rightarrow> nat \<Rightarrow> nat option" where
  "ksize h ptr =
     do { (e, n) \<leftarrow> kblocksize (kmem h) (gUnifiedMemory h) ptr 0;
          if e = ENOTBLK \<and> gCpuOnlyMemory h \<noteq> NULL then do {
            (e1, n1) \<leftarrow> kblocksize (kmem h) (gCpuOnlyMemory h) ptr n;
            Some n1 }
          else Some n }"

text \<open>The limit below which the chipset reaches memory is an argument, and so is the address of the error function.\<close>

definition kalloc_add_memory_region :: "nat \<Rightarrow> nat \<Rightarrow> kheap \<Rightarrow> nat \<Rightarrow> nat \<Rightarrow> (errno \<times> kheap) option" where
  "kalloc_add_memory_region chipset_upper_dma_limit kalloc_error h lower upper =
     (if upper < chipset_upper_dma_limit then
        (case lsta_add_memregion (kmem h) (gUnifiedMemory h) lower upper of (e, m) \<Rightarrow> Some (e, h\<lparr>kmem := m\<rparr>))
      else if gCpuOnlyMemory h \<noteq> NULL then
        (case lsta_add_memregion (kmem h) (gCpuOnlyMemory h) lower upper of (e, m) \<Rightarrow> Some (e, h\<lparr>kmem := m\<rparr>))
      else do {
        (self, m) \<leftarrow> lsta_create (kmem h) lower upper NULL kalloc_error;
        Some (if self = NULL then ENOMEM else EOK, h\<lparr>kmem := m, gCpuOnlyMemory := self\<rparr>) })"

subsection \<open>Initializing the kernel heap\<close>

record mem_desc =
  md_lower :: nat
  md_upper :: nat
  md_type :: int

definition adjusted_memory_descriptor :: "mem_desc \<Rightarrow> nat \<Rightarrow> nat \<Rightarrow> nat \<times> nat" where
  "adjusted_memory_descriptor d heapBottom heapTop = (max (md_lower d) heapBottom, min (md_upper d) heapTop)"

definition unusable :: "nat \<Rightarrow> int \<Rightarrow> mem_desc \<Rightarrow> bool" where
  "unusable heapBottom ty d \<longleftrightarrow> md_upper d < heapBottom \<or> md_upper d \<ge> heapBottom \<and> md_type d \<noteq> ty"

fun add_regions :: "mem \<Rightarrow> nat \<Rightarrow> nat \<Rightarrow> nat \<Rightarrow> int \<Rightarrow> mem_desc list \<Rightarrow> errno \<times> mem" where
  "add_regions m self heapBottom heapTop ty [] = (EOK, m)"
| "add_regions m self heapBottom heapTop ty (d # ds) =
     (if md_lower d < heapTop then
        (if md_type d = ty then
           (case adjusted_memory_descriptor d heapBottom heapTop of (lo, hi) \<Rightarrow>
             case lsta_add_memregion m self lo hi of (e, m1) \<Rightarrow>
               if e = EOK then add_regions m1 self heapBottom heapTop ty ds else (e, m1))
         else add_regions m self heapBottom heapTop ty ds)
      else (EOK, m))"

definition create_allocator :: "nat \<Rightarrow> mem \<Rightarrow> mem_desc list \<Rightarrow> nat \<Rightarrow> nat \<Rightarrow> int \<Rightarrow> bool \<Rightarrow> (errno \<times> nat \<times> mem) option" where
  "create_allocator kalloc_error m layout heapBottom heapTop ty isOptional =
     (case dropWhile (unusable heapBottom ty) layout of
        [] \<Rightarrow> Some (if isOptional then EOK else ENOMEM, NULL, m)
      | d # ds \<Rightarrow>
          (case adjusted_memory_descriptor d heapBottom heapTop of (lo, hi) \<Rightarrow> do {
             (self, m1) \<leftarrow> lsta_create m lo hi NULL kalloc_error;
             if self = NULL then Some (ENOMEM, NULL, m1)
             else (case add_regions m1 self heapBottom heapTop ty ds of (e, m2) \<Rightarrow>
                     Some (e, if e = EOK then self else NULL, m2)) }))"

abbreviation (input) MEM_TYPE_UNIFIED_MEMORY :: int where "MEM_TYPE_UNIFIED_MEMORY \<equiv> 1"
abbreviation (input) MEM_TYPE_MEMORY :: int where "MEM_TYPE_MEMORY \<equiv> 0"

definition kalloc_init :: "nat \<Rightarrow> mem \<Rightarrow> mem_desc list \<Rightarrow> nat \<Rightarrow> nat \<Rightarrow> (errno \<times> kheap) option" where
  "kalloc_init kalloc_error m layout heapBottom heapTop =
     do { (e, u, m1) \<leftarrow> create_allocator kalloc_error m layout heapBottom heapTop MEM_TYPE_UNIFIED_MEMORY False;
          if e \<noteq> EOK then Some (e, \<lparr>kmem = m1, gUnifiedMemory = u, gCpuOnlyMemory = NULL\<rparr>)
          else do {
            (e1, c, m2) \<leftarrow> create_allocator kalloc_error m1 layout heapBottom heapTop MEM_TYPE_MEMORY True;
            Some (e1, \<lparr>kmem = m2, gUnifiedMemory = u, gCpuOnlyMemory = c\<rparr>) } }"

subsection \<open>The C library\<close>

text \<open>
  \<open>vm_allocate\<close> is a system call: the argument \<open>vm\<close> gives the address of the new memory, if there is any. A page has 4096 bytes.
\<close>

definition malloc_expand_backing_store :: "(mem \<Rightarrow> nat \<Rightarrow> nat option) \<Rightarrow> grow_func" where
  "malloc_expand_backing_store vm f self minByteCount m =
     (let ceiledSize = (minByteCount + 4095) mod 4294967296 div 4096 * 4096;
          nbytes = min ceiledSize 65536 in
      case vm m nbytes of
        Some ptr \<Rightarrow>
          (case lsta_add_memregion m self ptr (padd ptr (int nbytes)) of (e, m1) \<Rightarrow> Some (e = EOK, m1))
      | None \<Rightarrow> Some (False, m))"

record cheap =
  cmem :: mem
  gMainAllocator :: nat
  gAbortOnNoMem :: bool
  c_errno :: errno

definition abort_on_nomem :: "cheap \<Rightarrow> cheap" where
  "abort_on_nomem h = h\<lparr>gAbortOnNoMem := True\<rparr>"

definition malloc_nomem :: "cheap \<Rightarrow> cheap option" where
  "malloc_nomem h = (if \<not> gAbortOnNoMem h then Some (h\<lparr>c_errno := ENOMEM\<rparr>) else None)"

definition c_malloc :: "(mem \<Rightarrow> nat \<Rightarrow> nat option) \<Rightarrow> cheap \<Rightarrow> nat \<Rightarrow> (nat \<times> cheap) option" where
  "c_malloc vm h sz =
     do { (ptr, m) \<leftarrow> lsta_alloc (malloc_expand_backing_store vm) (cmem h) (gMainAllocator h) sz;
          h1 \<leftarrow> (if ptr = NULL then malloc_nomem (h\<lparr>cmem := m\<rparr>) else Some (h\<lparr>cmem := m\<rparr>));
          Some (ptr, h1) }"

text \<open>The product of the sizes wraps around.\<close>

definition c_calloc :: "(mem \<Rightarrow> nat \<Rightarrow> nat option) \<Rightarrow> cheap \<Rightarrow> nat \<Rightarrow> nat \<Rightarrow> (nat \<times> cheap) option" where
  "c_calloc vm h num sz =
     (let len = num * sz mod 4294967296 in
      do { (p, h1) \<leftarrow> c_malloc vm h len;
           Some (p, if p \<noteq> NULL then h1\<lparr>cmem := memset (cmem h1) p 0 len\<rparr> else h1) })"

definition c_realloc :: "(mem \<Rightarrow> nat \<Rightarrow> nat option) \<Rightarrow> cheap \<Rightarrow> nat \<Rightarrow> nat \<Rightarrow> (nat \<times> cheap) option" where
  "c_realloc vm h ptr new_size =
     do { (np, _, m) \<leftarrow> lsta_realloc (malloc_expand_backing_store vm) (cmem h) (gMainAllocator h) ptr new_size;
          h1 \<leftarrow> (if np = NULL then malloc_nomem (h\<lparr>cmem := m\<rparr>) else Some (h\<lparr>cmem := m\<rparr>));
          Some (np, h1) }"

definition c_free :: "cheap \<Rightarrow> nat \<Rightarrow> cheap option" where
  "c_free h ptr = do { (_, _, m) \<leftarrow> lsta_dealloc (cmem h) (gMainAllocator h) ptr; Some (h\<lparr>cmem := m\<rparr>) }"

definition malloc_init :: "nat \<Rightarrow> nat \<Rightarrow> (mem \<Rightarrow> nat \<Rightarrow> nat option) \<Rightarrow> mem \<Rightarrow> cheap option" where
  "malloc_init expand_func error_func vm m =
     do { ptr \<leftarrow> vm m 65536;
          (self, m1) \<leftarrow> lsta_create m ptr (padd ptr 65536) expand_func error_func;
          if self = NULL then None
          else Some \<lparr>cmem = m1, gMainAllocator = self, gAbortOnNoMem = False, c_errno = EOK\<rparr> }"

end
