(* ===== verification/KallocProps.thy ===== *)
theory KallocProps
  imports Kalloc LstaHeap
begin

section \<open>The kernel heap is safe\<close>

text \<open>
  Clients allocate, fill and free blocks of the kernel heap. What a client has stored in a block stays there until the client changes
  or frees it, whatever the other clients do.
\<close>

subsection \<open>Several allocators in one memory\<close>

abbreviation regs :: "(nat \<times> hregion list) list \<Rightarrow> hregion list" where
  "regs hs \<equiv> concat (map snd hs)"

definition heaps :: "mem \<Rightarrow> (nat \<times> hregion list) list \<Rightarrow> bool" where
  "heaps m hs \<longleftrightarrow> (\<forall>(self, rs) \<in> set hs. heap m self rs \<and> ldp m (self + 8) = 0) \<and> apart_regions (regs hs)"

lemma bounds_append: "bounds (xs @ ys) = bounds xs @ bounds ys"
  by (simp add: bounds_def)

lemma bounds_extents: "bounds rs = bounds rs' \<Longrightarrow> map extent rs = map extent rs'"
  by (induction rs rs' rule: list_induct2') (auto simp: bounds_def extent_def)

lemma apart_by_extents: "map extent rs = map extent rs' \<Longrightarrow> apart_regions rs \<longleftrightarrow> apart_regions rs'"
proof (induction rs rs' rule: list_induct2')
  case (4 r rs r' rs')
  then have e: "extent r = extent r'" "map extent rs = map extent rs'" by simp_all
  have "extent ` set rs = extent ` set rs'" using arg_cong [OF e(2), of set] by simp
  moreover have "(\<forall>s \<in> set ss. extent r \<inter> extent s = {}) \<longleftrightarrow> (\<forall>e \<in> extent ` set ss. extent r \<inter> e = {})" for ss by simp
  ultimately have "(\<forall>s \<in> set rs. extent r \<inter> extent s = {}) \<longleftrightarrow> (\<forall>s \<in> set rs'. extent r \<inter> extent s = {})" by (simp only:)
  then show ?case using "4.IH" [OF e(2)] e(1) by simp
qed simp_all

lemma outside_bounds:
  assumes "bounds rs = bounds rs'"
  shows "outside rs x \<longleftrightarrow> outside rs' x"
proof -
  have "outside ss x \<longleftrightarrow> x \<notin> \<Union> (set (map extent ss))" for ss by (simp add: outside_def)
  then show ?thesis using bounds_extents [OF assms] by (simp only:)
qed

lemma outside_append: "outside (xs @ ys) x \<longleftrightarrow> outside xs x \<and> outside ys x"
  by (auto simp: outside_def)

lemma allocated_append: "allocated (xs @ ys) = allocated xs \<union> allocated ys"
  by (auto simp: allocated_def)

lemma apart_outside: "apart_regions (xs @ ys) \<Longrightarrow> \<not> outside xs x \<Longrightarrow> outside ys x"
proof -
  assume a: "apart_regions (xs @ ys)" "\<not> outside xs x"
  then obtain r where r: "r \<in> set xs" "x \<in> extent r" by (auto simp: outside_def)
  show "outside ys x"
    unfolding outside_def
  proof
    fix s assume "s \<in> set ys"
    then have "extent r \<inter> extent s = {}" using a(1) r(1) by (simp add: apart_append)
    then show "x \<notin> extent s" using r(2) by blast
  qed
qed

lemma outside_regs: "outside (regs hs) x \<longleftrightarrow> (\<forall>(s, r) \<in> set hs. outside r x)"
  by (induction hs) (auto simp: outside_append, simp add: outside_def)

lemma allocated_regs: "(a, k) \<in> allocated (regs hs) \<longleftrightarrow> (\<exists>(s, r) \<in> set hs. (a, k) \<in> allocated r)"
  by (induction hs) (auto simp: allocated_append, simp add: allocated_def)

lemma apart_middle: "apart_regions (xs @ ys @ zs) \<Longrightarrow> \<not> outside (xs @ zs) x \<Longrightarrow> outside ys x"
  using apart_outside [of xs "ys @ zs" x] apart_outside [of ys zs x] by (auto simp: outside_append apart_append)

text \<open>An allocator is not affected by what happens in the regions of another one.\<close>

lemma other_heap:
  assumes h: "heap m self rs" "ldp m (self + 8) = 0" and same: "\<And>x. \<not> outside rs x \<Longrightarrow> m' x = m x"
  shows "heap m' self rs" "ldp m' (self + 8) = 0" "(a, k) \<in> allocated rs \<Longrightarrow> a \<le> x \<Longrightarrow> x < a + k \<Longrightarrow> m' x = m x"
proof -
  note H = heapD [OF h(1)]
  show "heap m' self rs" by (rule heap_cong [OF h(1) same])
  show keep: "m' x = m x" if "(a, k) \<in> allocated rs" "a \<le> x" "x < a + k" for a k x
    by (rule same) (rule allocated_inside [OF H(2) that])
  obtain k where k: "16 \<le> k" "(self, k) \<in> allocated rs" using H(5) by blast
  have "ldp m' (self + 8) = ldp m (self + 8)" by (rule ld_congs) (use keep [OF k(2)] k(1) in auto)
  then show "ldp m' (self + 8) = 0" using h(2) by simp
qed

text \<open>One allocator does a step.\<close>

lemma heaps_step:
  assumes h: "heaps m (xs @ (self, rs) # ys)" and new: "heap m' self rs'" "ldp m' (self + 8) = 0" "bounds rs' = bounds rs"
    and out: "\<And>x. outside rs x \<Longrightarrow> m' x = m x"
  shows "heaps m' (xs @ (self, rs') # ys)" "bounds (regs (xs @ (self, rs') # ys)) = bounds (regs (xs @ (self, rs) # ys))"
    "(a, k) \<in> allocated (regs (xs @ ys)) \<Longrightarrow> a \<le> x \<Longrightarrow> x < a + k \<Longrightarrow> m' x = m x"
proof -
  have ap: "apart_regions (regs xs @ rs @ regs ys)" and H: "\<And>s r. (s, r) \<in> set xs \<union> set ys \<Longrightarrow> heap m s r \<and> ldp m (s + 8) = 0"
    using h by (auto simp: heaps_def)
  have oth: "heap m' s r" "ldp m' (s + 8) = 0" "(a, k) \<in> allocated r \<Longrightarrow> a \<le> x \<Longrightarrow> x < a + k \<Longrightarrow> m' x = m x"
    if s: "(s, r) \<in> set xs \<union> set ys" for s r a k x
  proof -
    have "m' x = m x" if x: "\<not> outside r x" for x
    proof (rule out)
      have "\<not> outside (regs (xs @ ys)) x" using s x unfolding outside_regs by auto
      then show "outside rs x" using apart_middle [OF ap] by simp
    qed
    note O = other_heap [OF conjunct1 [OF H [OF s]] conjunct2 [OF H [OF s]] this]
    show "heap m' s r" "ldp m' (s + 8) = 0" "(a, k) \<in> allocated r \<Longrightarrow> a \<le> x \<Longrightarrow> x < a + k \<Longrightarrow> m' x = m x"
      using O by blast+
  qed
  show b: "bounds (regs (xs @ (self, rs') # ys)) = bounds (regs (xs @ (self, rs) # ys))" using new(3) by (simp add: bounds_append)
  have "apart_regions (regs (xs @ (self, rs') # ys))" using apart_by_extents [OF bounds_extents [OF b]] ap by simp
  then show "heaps m' (xs @ (self, rs') # ys)" using new oth by (auto simp: heaps_def)
  show "m' x = m x" if al: "(a, k) \<in> allocated (regs (xs @ ys))" "a \<le> x" "x < a + k" for a k x
  proof -
    obtain s r where "(s, r) \<in> set xs \<union> set ys" "(a, k) \<in> allocated r" using al(1) unfolding allocated_regs by auto
    then show ?thesis using oth(3) al(2,3) by blast
  qed
qed

lemma heapsD:
  assumes "heaps m (xs @ (self, rs) # ys)"
  shows "heap m self rs" "ldp m (self + 8) = 0" "apart_regions (regs xs @ rs @ regs ys)"
  using assms by (auto simp: heaps_def)

lemma foreign_block:
  assumes h: "heaps m (xs @ (self, rs) # ys)" and a: "(a, k) \<in> allocated (regs (xs @ ys))"
  shows "a \<le> x \<Longrightarrow> x < a + k \<Longrightarrow> outside rs x" "outside rs a" "a \<noteq> 0" "a \<noteq> UINTPTR_MAX"
proof -
  obtain s r where s: "(s, r) \<in> set (xs @ ys)" "(a, k) \<in> allocated r" using a unfolding allocated_regs by blast
  have H: "heap m s r" using h s(1) by (auto simp: heaps_def)
  have k: "0 < k" using allocated_in [OF heapD(2) [OF H] s(2)] by blast
  show o: "outside rs x" if "a \<le> x" "x < a + k" for x
  proof -
    have "\<not> outside r x" by (rule allocated_inside [OF heapD(2) [OF H] s(2) that])
    then have "\<not> outside (regs (xs @ ys)) x" using s(1) unfolding outside_regs by auto
    then show ?thesis using apart_middle [OF heapsD(3) [OF h]] by simp
  qed
  show "outside rs a" using o k by simp
  show "a \<noteq> 0" "a \<noteq> UINTPTR_MAX" using region_of_block [OF H s(2)] by metis+
qed

subsection \<open>The blocks of the clients\<close>

definition owns :: "mem \<Rightarrow> (nat \<times> hregion list) list \<Rightarrow> (nat \<Rightarrow> u8 list option) \<Rightarrow> bool" where
  "owns m hs live \<longleftrightarrow> (\<forall>p bs. live p = Some bs \<longrightarrow> p \<notin> fst ` set hs \<and> (\<exists>l. (p, l) \<in> allocated (regs hs) \<and> length bs \<le> l)
     \<and> (\<forall>i < length bs. m (p + i) = bs ! i))"

lemma ownsD:
  assumes "owns m hs live" "live p = Some bs"
  shows "p \<notin> fst ` set hs" "\<exists>l. (p, l) \<in> allocated (regs hs) \<and> length bs \<le> l" "i < length bs \<Longrightarrow> m (p + i) = bs ! i"
  using assms by (auto simp: owns_def)

lemma owns_upd:
  assumes o: "owns m hs live" and f: "fst ` set hs' = fst ` set hs"
    and keep: "\<And>p l. (p, l) \<in> allocated (regs hs) \<Longrightarrow> live' p \<noteq> None \<Longrightarrow> p \<noteq> q \<Longrightarrow> (p, l) \<in> allocated (regs hs') \<and> (\<forall>x. p \<le> x \<and> x < p + l \<longrightarrow> m' x = m x)"
    and l: "\<And>p. p \<noteq> q \<Longrightarrow> live' p = live p"
    and new: "\<And>bs. live' q = Some bs \<Longrightarrow> q \<notin> fst ` set hs \<and> (\<exists>l. (q, l) \<in> allocated (regs hs') \<and> length bs \<le> l) \<and> (\<forall>i < length bs. m' (q + i) = bs ! i)"
  shows "owns m' hs' live'"
  unfolding owns_def
proof (intro allI impI)
  fix p bs assume p: "live' p = Some bs"
  show "p \<notin> fst ` set hs' \<and> (\<exists>l. (p, l) \<in> allocated (regs hs') \<and> length bs \<le> l) \<and> (\<forall>i < length bs. m' (p + i) = bs ! i)"
  proof (cases "p = q")
    case True
    then show ?thesis using new p f by simp
  next
    case False
    have lp: "live p = Some bs" using l [OF False] p by simp
    obtain k where k: "(p, k) \<in> allocated (regs hs)" "length bs \<le> k" using ownsD(2) [OF o lp] by blast
    have K: "(p, k) \<in> allocated (regs hs')" "\<forall>x. p \<le> x \<and> x < p + k \<longrightarrow> m' x = m x" using keep [OF k(1) _ False] p by auto
    have "m' (p + i) = bs ! i" if "i < length bs" for i using K(2) k(2) that ownsD(3) [OF o lp that] by simp
    then show ?thesis using K(1) k(2) ownsD(1) [OF o lp] f by auto
  qed
qed

lemma regs_split: "allocated (regs (xs @ (self, rs) # ys)) = allocated rs \<union> allocated (regs (xs @ ys))"
  by (auto simp: allocated_append)

text \<open>An allocation, a write and a deallocation.\<close>

lemma heaps_alloc:
  assumes h: "heaps m (xs @ (self, rs) # ys)" and o: "owns m (xs @ (self, rs) # ys) live" and n: "0 < n" "n \<le> 2147483628"
  obtains (full) "lsta_alloc grow m self n = Some (0, m)"
    | (got) ptr l m' rs' where "lsta_alloc grow m self n = Some (ptr, m')" "ptr \<noteq> 0" "heaps m' (xs @ (self, rs') # ys)" "bounds rs' = bounds rs"
      "(ptr, l) \<in> allocated rs'" "n \<le> l" "live ptr = None" "owns m' (xs @ (self, rs') # ys) live" "ptr \<notin> fst ` set (xs @ (self, rs) # ys)"
proof -
  note H = heapsD [OF h]
  show thesis
  proof (rule lsta_alloc_spec [OF H(1,2) n, of grow])
    fix ptr l m' rs'
    assume a: "lsta_alloc grow m self n = Some (ptr, m')" "heap m' self rs'" "bounds rs' = bounds rs" "allocated rs' = insert (ptr, l) (allocated rs)"
      "n \<le> l" "l < 2147483648" "ptr \<noteq> 0" and fresh: "\<And>a k. (a, k) \<in> allocated rs \<Longrightarrow> a \<noteq> ptr"
      and keep: "\<And>a k x. (a, k) \<in> allocated rs \<Longrightarrow> a \<le> x \<Longrightarrow> x < a + k \<Longrightarrow> m' x = m x" and out: "\<And>x. outside rs x \<Longrightarrow> m' x = m x"
    obtain k where k: "16 \<le> k" "(self, k) \<in> allocated rs" using heapD(5) [OF H(1)] by blast
    have "ldp m' (self + 8) = ldp m (self + 8)" by (rule ld_congs) (use keep [OF k(2)] k(1) in auto)
    then have g: "ldp m' (self + 8) = 0" using H(2) by simp
    note S = heaps_step [OF h a(2) g a(3) out]
    have "0 < l" using n a(5) by simp
    then have "\<not> outside rs' ptr" using allocated_inside [OF heapD(2) [OF a(2)], of ptr l ptr] a(4) by simp
    then have no: "\<not> outside rs ptr" using outside_bounds [OF a(3)] by simp
    have away: "b \<noteq> ptr" if "(b, c) \<in> allocated (regs (xs @ ys))" for b c using foreign_block(2) [OF h that] no by auto
    have al: "b \<noteq> ptr" if "(b, c) \<in> allocated (regs (xs @ (self, rs) # ys))" for b c
      using that fresh away unfolding regs_split by blast
    have nself: "ptr \<notin> fst ` set (xs @ (self, rs) # ys)"
    proof
      assume "ptr \<in> fst ` set (xs @ (self, rs) # ys)"
      then obtain r where r: "(ptr, r) \<in> set (xs @ (self, rs) # ys)" by force
      then have "heap m ptr r" using h unfolding heaps_def by blast
      then obtain c where "(ptr, c) \<in> allocated r" using heapD(5) by blast
      then show False using al r unfolding allocated_regs by blast
    qed
    have lv: "live ptr = None"
    proof (cases "live ptr")
      case (Some bs)
      then show ?thesis using ownsD(2) [OF o Some] al by blast
    qed simp
    have "owns m' (xs @ (self, rs') # ys) live"
    proof (rule owns_upd [OF o, where q = ptr])
      fix p c assume "(p, c) \<in> allocated (regs (xs @ (self, rs) # ys))"
      then show "(p, c) \<in> allocated (regs (xs @ (self, rs') # ys)) \<and> (\<forall>x. p \<le> x \<and> x < p + c \<longrightarrow> m' x = m x)"
        unfolding regs_split a(4) using keep S(3) by blast
    qed (use lv in simp_all)
    then show thesis using got [OF a(1,7) S(1) a(3)] a(4,5) lv nself by blast
  qed (use full in blast)
qed

lemma heaps_write:
  assumes h: "heaps m hs" and a: "(ptr, l) \<in> allocated (regs hs)" "ptr \<notin> fst ` set hs" and out: "\<And>x. x < ptr \<or> ptr + l \<le> x \<Longrightarrow> m' x = m x"
  shows "heaps m' hs" "\<And>b k x. (b, k) \<in> allocated (regs hs) \<Longrightarrow> b \<noteq> ptr \<Longrightarrow> b \<le> x \<Longrightarrow> x < b + k \<Longrightarrow> m' x = m x"
proof -
  obtain self rs where s: "(self, rs) \<in> set hs" "(ptr, l) \<in> allocated rs" using a(1) unfolding allocated_regs by blast
  obtain xs ys where hs: "hs = xs @ (self, rs) # ys" using s(1) by (meson split_list)
  note H = heapsD [OF h [unfolded hs]]
  have ne: "ptr \<noteq> self" using a(2) hs by auto
  have W: "heap m' self rs" by (rule heap_write(1) [OF H(1) s(2) ne]) (rule out)
  have W2: "m' x = m x" if "(b, k) \<in> allocated rs" "b \<noteq> ptr" "b \<le> x" "x < b + k" for b k x
    by (rule heap_write(2) [OF H(1) s(2) ne _ that]) (rule out)
  obtain k where k: "16 \<le> k" "(self, k) \<in> allocated rs" using heapD(5) [OF H(1)] by blast
  have "ldp m' (self + 8) = ldp m (self + 8)" by (rule ld_congs) (use W2 [OF k(2)] k(1) ne in auto)
  then have g: "ldp m' (self + 8) = 0" using H(2) by simp
  have o: "m' x = m x" if "outside rs x" for x
    using allocated_inside [OF heapD(2) [OF H(1)] s(2), of x] that out [of x] by (meson leI)
  note S = heaps_step [OF h [unfolded hs] W g refl o]
  show "heaps m' hs" using S(1) hs by simp
  show "m' x = m x" if b: "(b, k) \<in> allocated (regs hs)" "b \<noteq> ptr" "b \<le> x" "x < b + k" for b k x
  proof (cases "(b, k) \<in> allocated rs")
    case True
    then show ?thesis using W2 b(2-) by blast
  next
    case False
    then have "(b, k) \<in> allocated (regs (xs @ ys))" using b(1) unfolding hs regs_split by blast
    then show ?thesis using S(3) b(3,4) by blast
  qed
qed

lemma heaps_free:
  assumes h: "heaps m (xs @ (self, rs) # ys)" and o: "owns m (xs @ (self, rs) # ys) live" and a: "(ptr, l) \<in> allocated rs" "live ptr \<noteq> None"
    and e: "\<not> at_edge (bounds rs) ptr l"
  obtains m' rs' where "kdealloc m self ptr = Some (EOK, m')" "heaps m' (xs @ (self, rs') # ys)" "bounds rs' = bounds rs"
    "owns m' (xs @ (self, rs') # ys) (live(ptr := None))"
proof -
  note H = heapsD [OF h]
  obtain bs where bs: "live ptr = Some bs" using a(2) by blast
  have ne: "ptr \<noteq> self" using ownsD(1) [OF o bs] by auto
  show thesis
  proof (rule lsta_dealloc_spec [OF H(1) a(1) e ne])
    fix m' rs'
    assume d: "lsta_dealloc m self ptr = Some (EOK, None, m')" "heap m' self rs'" "bounds rs' = bounds rs" "allocated rs' = allocated rs - {(ptr, l)}"
      and keep: "\<And>a k x. (a, k) \<in> allocated rs \<Longrightarrow> a \<noteq> ptr \<Longrightarrow> a \<le> x \<Longrightarrow> x < a + k \<Longrightarrow> m' x = m x" and out: "\<And>x. outside rs x \<Longrightarrow> m' x = m x"
    obtain k where k: "16 \<le> k" "(self, k) \<in> allocated rs" using heapD(5) [OF H(1)] by blast
    have "ldp m' (self + 8) = ldp m (self + 8)" by (rule ld_congs) (use keep [OF k(2)] k(1) ne in auto)
    then have g: "ldp m' (self + 8) = 0" using H(2) by simp
    note S = heaps_step [OF h d(2) g d(3) out]
    have "owns m' (xs @ (self, rs') # ys) (live(ptr := None))"
    proof (rule owns_upd [OF o, where q = ptr])
      fix p c assume p: "(p, c) \<in> allocated (regs (xs @ (self, rs) # ys))" "p \<noteq> ptr"
      show "(p, c) \<in> allocated (regs (xs @ (self, rs') # ys)) \<and> (\<forall>x. p \<le> x \<and> x < p + c \<longrightarrow> m' x = m x)"
      proof (cases "(p, c) \<in> allocated rs")
        case True
        then show ?thesis using keep p(2) unfolding regs_split d(4) by blast
      next
        case False
        then have "(p, c) \<in> allocated (regs (xs @ ys))" using p(1) unfolding regs_split by blast
        then show ?thesis using S(3) unfolding regs_split by blast
      qed
    qed simp_all
    then show thesis using that [OF _ S(1) d(3)] d(1) by (simp add: kdealloc_def)
  qed
qed

subsection \<open>The clients of the kernel heap\<close>

text \<open>\<open>klive\<close> is what the clients have stored in their blocks.\<close>

record ksys =
  kh :: kheap
  klive :: "nat \<Rightarrow> u8 list option"

datatype kheap_op = KAlloc nat nat | KFree nat | KWrite nat nat u8 | KAddRegion nat nat nat nat

fun kheap_step :: "kheap_op \<Rightarrow> ksys \<Rightarrow> ksys option" where
  "kheap_step (KAlloc n options) s =
     do { (e, p, h) \<leftarrow> kalloc_options (kh s) n options;
          Some (s\<lparr>kh := h, klive := (if e = EOK \<and> 0 < n then (klive s)(p \<mapsto> map (kmem h) [p ..< p + n]) else klive s)\<rparr>) }"
| "kheap_step (KFree p) s = do { h \<leftarrow> kfree (kh s) p; Some (s\<lparr>kh := h, klive := (klive s)(p := None)\<rparr>) }"
| "kheap_step (KWrite p i v) s =
     (case klive s p of
        Some bs \<Rightarrow> Some (s\<lparr>kh := (kh s)\<lparr>kmem := (kmem (kh s))(p + i := v)\<rparr>, klive := (klive s)(p \<mapsto> bs[i := v])\<rparr>)
      | None \<Rightarrow> Some s)"
| "kheap_step (KAddRegion limit ef lower upper) s =
     do { (e, h) \<leftarrow> kalloc_add_memory_region limit ef (kh s) lower upper; Some (s\<lparr>kh := h\<rparr>) }"

text \<open>Whether a block of the kernel heap is the first or the last one of its region, which is looked up in memory.\<close>

definition region_edge :: "mem \<Rightarrow> nat \<Rightarrow> nat \<Rightarrow> nat \<Rightarrow> bool" where
  "region_edge m mr p n \<longleftrightarrow> p = ldp m (mr + 4) + 8 \<or> p + n + 8 = ldp m (mr + 8)"

definition kheap_edge :: "kheap \<Rightarrow> nat \<Rightarrow> bool option" where
  "kheap_edge h p =
     do { n \<leftarrow> ksize h p;
          mr \<leftarrow> lsta_getmemregion (kmem h) (gUnifiedMemory h) p;
          if mr \<noteq> 0 then Some (region_edge (kmem h) mr p n)
          else do { mr1 \<leftarrow> lsta_getmemregion (kmem h) (gCpuOnlyMemory h) p; Some (region_edge (kmem h) mr1 p n) } }"

definition allocators :: "kheap \<Rightarrow> hregion list \<Rightarrow> hregion list \<Rightarrow> (nat \<times> hregion list) list" where
  "allocators h rs cs = (gUnifiedMemory h, rs) # (if gCpuOnlyMemory h = 0 then [] else [(gCpuOnlyMemory h, cs)])"

definition kinv :: "ksys \<Rightarrow> bool" where
  "kinv s \<longleftrightarrow> (\<exists>rs cs. heaps (kmem (kh s)) (allocators (kh s) rs cs) \<and> owns (kmem (kh s)) (allocators (kh s) rs cs) (klive s))"

text \<open>
  A piece of memory that can be added: it has less than two gigabytes, no region of the heap reaches into it or into the eight bytes behind it, and the
  word behind it does not look like the header of a block.
\<close>

definition new_memory :: "kheap \<Rightarrow> nat \<Rightarrow> nat \<Rightarrow> bool" where
  "new_memory h lower upper \<longleftrightarrow> 0 < lower \<and> lower \<le> upper \<and> upper \<le> 4294967292 \<and> upper < lower + 2147483648 \<and> quiet_above (kmem h) upper
     \<and> (\<forall>rs cs x. heaps (kmem h) (allocators h rs cs) \<longrightarrow> lower \<le> x \<longrightarrow> x < upper + 8 \<longrightarrow> outside (regs (allocators h rs cs)) x)"

text \<open>
  What the users of the heap must not do: ask for more bytes than leave room for the header and the trailer, free a block that is not theirs, write outside
  of the size that they have asked for, or add memory that is not new. The address of the error function has 32 bits.
\<close>

fun kheap_misuse :: "kheap_op \<Rightarrow> ksys \<Rightarrow> bool" where
  "kheap_misuse (KAlloc n options) s \<longleftrightarrow> n > 2147483628"
| "kheap_misuse (KFree p) s \<longleftrightarrow> klive s p = None"
| "kheap_misuse (KWrite p i v) s \<longleftrightarrow> (case klive s p of None \<Rightarrow> True | Some bs \<Rightarrow> length bs \<le> i)"
| "kheap_misuse (KAddRegion limit ef lower upper) s \<longleftrightarrow> ef \<ge> 4294967296 \<or> \<not> new_memory (kh s) lower upper"

text \<open>
  The requests that the heap serves: those of users that keep to the rules, except for freeing the first or the last block of a region, which stops
  the kernel.
\<close>

definition kheap_guard :: "kheap_op \<Rightarrow> ksys \<Rightarrow> bool" where
  "kheap_guard x s \<longleftrightarrow> \<not> kheap_misuse x s \<and> (\<forall>p. x = KFree p \<longrightarrow> kheap_edge (kh s) p = Some False)"

lemma kinvI:
  "heaps (kmem (kh s)) (allocators (kh s) rs cs) \<Longrightarrow> owns (kmem (kh s)) (allocators (kh s) rs cs) (klive s) \<Longrightarrow> kinv s"
  unfolding kinv_def by blast

lemma allocators_mem [simp]: "allocators (h\<lparr>kmem := m\<rparr>) rs cs = allocators h rs cs"
  by (simp add: allocators_def)

lemma memset_none: "memset m p v 0 = m"
  by (rule ext) (auto simp: memset_def)

lemma new_block:
  assumes h: "heaps m hs" and o: "owns m hs live" "live ptr = None" and a: "(ptr, l) \<in> allocated (regs hs)" "ptr \<notin> fst ` set hs" "n \<le> l"
    and m': "m' = (if c then memset m ptr 0 n else m)"
  shows "heaps m' hs" "owns m' hs (live(ptr \<mapsto> map m' [ptr ..< ptr + n]))"
proof -
  have out: "m' x = m x" if "x < ptr \<or> ptr + l \<le> x" for x using that a(3) by (auto simp: m' memset_def)
  show "heaps m' hs" by (rule heaps_write(1) [OF h a(1,2)]) (rule out)
  show "owns m' hs (live(ptr \<mapsto> map m' [ptr ..< ptr + n]))"
  proof (rule owns_upd [OF o(1), where q = ptr])
    fix p k assume p: "(p, k) \<in> allocated (regs hs)" "p \<noteq> ptr"
    have "m' x = m x" if "p \<le> x" "x < p + k" for x by (rule heaps_write(2) [OF h a(1,2) _ p that]) (rule out)
    then show "(p, k) \<in> allocated (regs hs) \<and> (\<forall>x. p \<le> x \<and> x < p + k \<longrightarrow> m' x = m x)" using p(1) by blast
  qed (use a in auto)
qed

lemma write_step:
  assumes s: "kinv s" and p: "klive s p = Some bs" "i < length bs"
  shows "kinv (s\<lparr>kh := (kh s)\<lparr>kmem := (kmem (kh s))(p + i := v)\<rparr>, klive := (klive s)(p \<mapsto> bs[i := v])\<rparr>)"
proof -
  let ?m = "kmem (kh s)" let ?m' = "?m(p + i := v)"
  obtain rs cs where h: "heaps ?m (allocators (kh s) rs cs)" and o: "owns ?m (allocators (kh s) rs cs) (klive s)"
    using s unfolding kinv_def by blast
  let ?hs = "allocators (kh s) rs cs"
  obtain l where a: "(p, l) \<in> allocated (regs ?hs)" "length bs \<le> l" using ownsD(2) [OF o p(1)] by blast
  note f = ownsD(1) [OF o p(1)]
  have out: "?m' x = ?m x" if "x < p \<or> p + l \<le> x" for x using that p(2) a(2) by auto
  have "heaps ?m' ?hs" by (rule heaps_write(1) [OF h a(1) f]) (rule out)
  moreover have "owns ?m' ?hs ((klive s)(p \<mapsto> bs[i := v]))"
  proof (rule owns_upd [OF o, where q = p])
    fix q k assume q: "(q, k) \<in> allocated (regs ?hs)" "q \<noteq> p"
    have "?m' x = ?m x" if "q \<le> x" "x < q + k" for x by (rule heaps_write(2) [OF h a(1) f _ q that]) (rule out)
    then show "(q, k) \<in> allocated (regs ?hs) \<and> (\<forall>x. q \<le> x \<and> x < q + k \<longrightarrow> ?m' x = ?m x)" using q(1) by blast
  next
    fix cs assume "((klive s)(p \<mapsto> bs[i := v])) p = Some cs"
    then have cs: "cs = bs[i := v]" by simp
    have "?m' (p + j) = cs ! j" if "j < length cs" for j
      using that p(2) ownsD(3) [OF o p(1), of j] unfolding cs by (simp add: nth_list_update)
    then show "p \<notin> fst ` set ?hs \<and> (\<exists>l. (p, l) \<in> allocated (regs ?hs) \<and> length cs \<le> l) \<and> (\<forall>j < length cs. ?m' (p + j) = cs ! j)"
      using f a cs by auto
  qed simp_all
  ultimately show ?thesis by (intro kinvI [of _ rs cs]) simp_all
qed

text \<open>The search of \<open>kalloc_options\<close> through the allocators, before the block is cleared.\<close>

definition kalloc_find :: "kheap \<Rightarrow> nat \<Rightarrow> bool \<Rightarrow> (nat \<times> mem) option" where
  "kalloc_find h n unified =
     (if unified \<or> gCpuOnlyMemory h = 0 then lsta_alloc no_grow (kmem h) (gUnifiedMemory h) n
      else do {
        (p, m1) \<leftarrow> lsta_alloc no_grow (kmem h) (gCpuOnlyMemory h) n;
        if p = 0 then lsta_alloc no_grow m1 (gUnifiedMemory h) n else Some (p, m1) })"

lemma kalloc_find_spec:
  assumes h: "heaps (kmem h) (allocators h rs cs)" and o: "owns (kmem h) (allocators h rs cs) live" and n: "0 < n" "n \<le> 2147483628"
  obtains (full) "kalloc_find h n unified = Some (0, kmem h)"
    | (got) ptr l m' rs' cs' where "kalloc_find h n unified = Some (ptr, m')" "ptr \<noteq> 0" "heaps m' (allocators h rs' cs')" "(ptr, l) \<in> allocated (regs (allocators h rs' cs'))" "n \<le> l"
      "live ptr = None" "owns m' (allocators h rs' cs') live" "ptr \<notin> fst ` set (allocators h rs' cs')"
proof -
  let ?u = "gUnifiedMemory h" and ?c = "gCpuOnlyMemory h" and ?m = "kmem h"
  define ys where "ys = (if ?c = 0 then [] else [(?c, cs)])"
  have A: "allocators h r cs = [] @ (?u, r) # ys" for r by (simp add: allocators_def ys_def)
  note hu = h [unfolded A] note ou = o [unfolded A]
  have uni: thesis if k: "kalloc_find h n unified = lsta_alloc no_grow ?m ?u n"
  proof (rule heaps_alloc [OF hu ou n, of no_grow])
    assume "lsta_alloc no_grow ?m ?u n = Some (0, ?m)"
    then show thesis using full k by simp
  next
    fix ptr l m' rs'
    assume g: "lsta_alloc no_grow ?m ?u n = Some (ptr, m')" "ptr \<noteq> 0" "heaps m' ([] @ (?u, rs') # ys)" "bounds rs' = bounds rs" "(ptr, l) \<in> allocated rs'"
      "n \<le> l" "live ptr = None" "owns m' ([] @ (?u, rs') # ys) live" "ptr \<notin> fst ` set ([] @ (?u, rs) # ys)"
    show thesis
      by (rule got [of ptr m' rs' cs l]) (use g k in \<open>simp_all add: A bounds_append allocated_append\<close>)
  qed
  show thesis
  proof (cases "unified \<or> ?c = 0")
    case True
    then show thesis by (intro uni) (simp add: kalloc_find_def)
  next
    case False
    have B: "allocators h rs c = [(?u, rs)] @ (?c, c) # []" for c using False by (simp add: allocators_def)
    show thesis
    proof (rule heaps_alloc [OF h [unfolded B] o [unfolded B] n, of no_grow])
      assume "lsta_alloc no_grow ?m ?c n = Some (0, ?m)"
      then show thesis by (intro uni) (use False in \<open>simp add: kalloc_find_def\<close>)
    next
      fix ptr l m' cs'
      assume g: "lsta_alloc no_grow ?m ?c n = Some (ptr, m')" "ptr \<noteq> 0" "heaps m' ([(?u, rs)] @ (?c, cs') # [])" "bounds cs' = bounds cs" "(ptr, l) \<in> allocated cs'"
        "n \<le> l" "live ptr = None" "owns m' ([(?u, rs)] @ (?c, cs') # []) live" "ptr \<notin> fst ` set ([(?u, rs)] @ (?c, cs) # [])"
      show thesis
        by (rule got [of ptr m' rs cs' l]) (use g False in \<open>simp_all add: B kalloc_find_def bounds_append allocated_append\<close>)
    qed
  qed
qed

lemma alloc_step:
  assumes s: "kinv s" and n: "n \<le> 2147483628"
  shows "\<exists>s'. kheap_step (KAlloc n options) s = Some s' \<and> kinv s'"
proof -
  obtain rs cs where h: "heaps (kmem (kh s)) (allocators (kh s) rs cs)" and o: "owns (kmem (kh s)) (allocators (kh s) rs cs) (klive s)"
    using s unfolding kinv_def by blast
  have eq: "kalloc_options (kh s) n options =
      do { (ptr, m) \<leftarrow> kalloc_find (kh s) n (odd options);
           let m2 = (if ptr \<noteq> 0 \<and> odd (options div 2) then memset m ptr 0 n else m);
           Some (if ptr \<noteq> 0 then EOK else ENOMEM, ptr, (kh s)\<lparr>kmem := m2\<rparr>) }"
    by (simp add: kalloc_options_def kalloc_find_def)
  show ?thesis
  proof (cases "n = 0")
    case True
    have "kalloc_find (kh s) n (odd options) = Some (UINTPTR_MAX, kmem (kh s))" using True by (simp add: kalloc_find_def lsta_alloc_def)
    then show ?thesis using True eq s by (simp add: memset_none)
  next
    case False
    then have n0: "0 < n" by simp
    show ?thesis
    proof (rule kalloc_find_spec [OF h o n0 n, of "odd options"])
      assume "kalloc_find (kh s) n (odd options) = Some (0, kmem (kh s))"
      then show ?thesis using eq s by simp
    next
      fix ptr l m' rs' cs'
      assume g: "kalloc_find (kh s) n (odd options) = Some (ptr, m')" "ptr \<noteq> 0" "heaps m' (allocators (kh s) rs' cs')" "(ptr, l) \<in> allocated (regs (allocators (kh s) rs' cs'))"
        "n \<le> l" "klive s ptr = None" "owns m' (allocators (kh s) rs' cs') (klive s)" "ptr \<notin> fst ` set (allocators (kh s) rs' cs')"
      define m2 where "m2 = (if odd (options div 2) then memset m' ptr 0 n else m')"
      note N = new_block [OF g(3,7,6,4,8,5) m2_def]
      have "kheap_step (KAlloc n options) s = Some (s\<lparr>kh := (kh s)\<lparr>kmem := m2\<rparr>, klive := (klive s)(ptr \<mapsto> map m2 [ptr ..< ptr + n])\<rparr>)"
        using eq g(1,2) n0 by (simp add: m2_def)
      moreover have "kinv (s\<lparr>kh := (kh s)\<lparr>kmem := m2\<rparr>, klive := (klive s)(ptr \<mapsto> map m2 [ptr ..< ptr + n])\<rparr>)"
        by (rule kinvI [of _ rs' cs']) (use N in simp_all)
      ultimately show ?thesis by blast
    qed
  qed
qed

text \<open>The allocator that a block belongs to.\<close>

lemma region_edge_iff:
  assumes h: "heap m self rs" and a: "(p, l) \<in> allocated rs"
  obtains mr where "lsta_getmemregion m self p = Some mr" "mr \<noteq> 0" "region_edge m mr p l \<longleftrightarrow> at_edge (bounds rs) p l"
proof -
  obtain xs mr u pre n post ys where B: "rs = xs @ (mr, u, pre @ (True, n) # post) # ys" "region m mr u (pre @ (True, n) # post)"
    "p = mr + 16 + span pre + 8" "l = n - 16" "20 \<le> n" "lsta_getmemregion m self p = Some mr" using region_of_block [OF h a] by metis
  note R = regionD [OF B(2)]
  have "span pre = 0 \<longleftrightarrow> pre = []" "span post = 0 \<longleftrightarrow> post = []" using R(5) by (cases pre; cases post; fastforce simp: blks_append dest: blkD(1))+
  then have "region_edge m mr p l \<longleftrightarrow> pre = [] \<or> post = []" using R(3,4,9) B(3-5) by (auto simp: region_edge_def)
  then show thesis using that B(6) R(1) at_edge_iff [OF h B(1)] B(3,4) by simp
qed

lemma allocators_cases:
  assumes h: "heaps (kmem h) (allocators h rs cs)" and a: "(p, l) \<in> allocated (regs (allocators h rs cs))"
  obtains (unified) "(p, l) \<in> allocated rs" "kheap_edge h p = Some (at_edge (bounds rs) p l)"
      "\<forall>m'. kdealloc (kmem h) (gUnifiedMemory h) p = Some (EOK, m') \<longrightarrow> kfree h p = Some (h\<lparr>kmem := m'\<rparr>)"
    | (cpu) "gCpuOnlyMemory h \<noteq> 0" "(p, l) \<in> allocated cs" "kheap_edge h p = Some (at_edge (bounds cs) p l)"
      "\<forall>m'. kdealloc (kmem h) (gCpuOnlyMemory h) p = Some (EOK, m') \<longrightarrow> kfree h p = Some (h\<lparr>kmem := m'\<rparr>)"
proof (cases "(p, l) \<in> allocated rs")
  case True
  have H: "heap (kmem h) (gUnifiedMemory h) rs" using h by (simp add: heaps_def allocators_def)
  obtain mr where mr: "lsta_getmemregion (kmem h) (gUnifiedMemory h) p = Some mr" "mr \<noteq> 0" "region_edge (kmem h) mr p l \<longleftrightarrow> at_edge (bounds rs) p l"
    using region_edge_iff [OF H True] .
  from lsta_getblocksize_spec [OF H True] have "ksize h p = Some l" by (simp add: ksize_def kblocksize_def)
  then show thesis using unified True mr by (simp add: kfree_def kheap_edge_def)
next
  case False
  then have c: "gCpuOnlyMemory h \<noteq> 0" "(p, l) \<in> allocated cs" using a by (auto simp: allocators_def allocated_append allocated_def split: if_splits)
  have A: "allocators h rs cs = [] @ (gUnifiedMemory h, rs) # [(gCpuOnlyMemory h, cs)]" using c(1) by (simp add: allocators_def)
  have H: "heap (kmem h) (gUnifiedMemory h) rs" "heap (kmem h) (gCpuOnlyMemory h) cs" using h A by (simp_all add: heaps_def)
  have "(p, l) \<in> allocated (regs ([] @ [(gCpuOnlyMemory h, cs)]))" using c(2) by simp
  note F = foreign_block [OF h [unfolded A] this] note P = foreign_pointer [OF H(1) F(2-4)]
  obtain mr where mr: "lsta_getmemregion (kmem h) (gCpuOnlyMemory h) p = Some mr" "mr \<noteq> 0" "region_edge (kmem h) mr p l \<longleftrightarrow> at_edge (bounds cs) p l"
    using region_edge_iff [OF H(2) c(2)] .
  have "lsta_getmemregion (kmem h) (gUnifiedMemory h) p = Some 0"
    using find_region_none [OF heapD(2) [OF H(1)] F(2)] by (simp add: lsta_getmemregion_def)
  moreover have "ksize h p = Some l" using P(2) lsta_getblocksize_spec [OF H(2) c(2)] c(1) by (simp add: ksize_def kblocksize_def)
  ultimately show thesis using cpu c P(1) mr by (simp add: kfree_def kheap_edge_def kdealloc_def [of _ "gUnifiedMemory h"])
qed

lemma free_step:
  assumes s: "kinv s" and p: "klive s p \<noteq> None" and k: "kheap_edge (kh s) p = Some False"
  shows "\<exists>s'. kheap_step (KFree p) s = Some s' \<and> kinv s'"
proof -
  let ?h = "kh s" let ?m = "kmem ?h"
  obtain rs cs where h: "heaps ?m (allocators ?h rs cs)" and o: "owns ?m (allocators ?h rs cs) (klive s)" using s unfolding kinv_def by blast
  obtain l where l: "(p, l) \<in> allocated (regs (allocators ?h rs cs))" using ownsD(2) [OF o] p by blast
  have fin: ?thesis if "kfree ?h p = Some (?h\<lparr>kmem := m'\<rparr>)" "heaps m' (allocators ?h rs' cs')" "owns m' (allocators ?h rs' cs') ((klive s)(p := None))"
    for m' rs' cs'
  proof -
    have "kinv (s\<lparr>kh := ?h\<lparr>kmem := m'\<rparr>, klive := (klive s)(p := None)\<rparr>)" by (rule kinvI [of _ rs' cs']) (use that in simp_all)
    then show ?thesis using that(1) by simp
  qed
  from h l show ?thesis
  proof (cases rule: allocators_cases)
    case unified
    define ys where "ys = (if gCpuOnlyMemory ?h = 0 then [] else [(gCpuOnlyMemory ?h, cs)])"
    have A: "allocators ?h r cs = [] @ (gUnifiedMemory ?h, r) # ys" for r by (simp add: allocators_def ys_def)
    have e: "\<not> at_edge (bounds rs) p l" using k unified(2) by simp
    show ?thesis
    proof (rule heaps_free [OF h [unfolded A] o [unfolded A] unified(1) p e])
      fix m' rs' assume "kdealloc ?m (gUnifiedMemory ?h) p = Some (EOK, m')" "heaps m' ([] @ (gUnifiedMemory ?h, rs') # ys)"
        "owns m' ([] @ (gUnifiedMemory ?h, rs') # ys) ((klive s)(p := None))"
      then show ?thesis using unified(3) by (intro fin [of m' rs' cs]) (simp_all add: A)
    qed
  next
    case cpu
    have B: "allocators ?h rs c = [(gUnifiedMemory ?h, rs)] @ (gCpuOnlyMemory ?h, c) # []" for c using cpu(1) by (simp add: allocators_def)
    have e: "\<not> at_edge (bounds cs) p l" using k cpu(3) by simp
    show ?thesis
    proof (rule heaps_free [OF h [unfolded B] o [unfolded B] cpu(2) p e])
      fix m' cs' assume "kdealloc ?m (gCpuOnlyMemory ?h) p = Some (EOK, m')" "heaps m' ([(gUnifiedMemory ?h, rs)] @ (gCpuOnlyMemory ?h, cs') # [])"
        "owns m' ([(gUnifiedMemory ?h, rs)] @ (gCpuOnlyMemory ?h, cs') # []) ((klive s)(p := None))"
      then show ?thesis using cpu(4) by (intro fin [of m' rs cs']) (simp_all add: B)
    qed
  qed
qed

text \<open>Memory that is added to the heap.\<close>

lemma owns_keep:
  assumes "owns m hs live" "fst ` set hs' \<inter> dom live = {}" "allocated (regs hs) \<subseteq> allocated (regs hs')"
    and "\<And>p l x. live p \<noteq> None \<Longrightarrow> (p, l) \<in> allocated (regs hs) \<Longrightarrow> p \<le> x \<Longrightarrow> x < p + l \<Longrightarrow> m' x = m x"
  shows "owns m' hs' live"
  unfolding owns_def
proof (intro allI impI)
  fix p bs assume p: "live p = Some bs"
  obtain l where l: "(p, l) \<in> allocated (regs hs)" "length bs \<le> l" using ownsD(2) [OF assms(1) p] by blast
  have "m' (p + i) = bs ! i" if "i < length bs" for i
    using assms(4) [of p l "p + i"] ownsD(3) [OF assms(1) p that] p l that by simp
  then show "p \<notin> fst ` set hs' \<and> (\<exists>l. (p, l) \<in> allocated (regs hs') \<and> length bs \<le> l) \<and> (\<forall>i < length bs. m' (p + i) = bs ! i)"
    using assms(2,3) p l by blast
qed

lemma heaps_away:
  assumes h: "heaps m hs" and out: "\<And>x. \<not> outside (regs hs) x \<Longrightarrow> m' x = m x"
  shows "heaps m' hs" "(a, k) \<in> allocated (regs hs) \<Longrightarrow> a \<le> x \<Longrightarrow> x < a + k \<Longrightarrow> m' x = m x"
proof -
  have H: "heap m s r" "ldp m (s + 8) = 0" "\<And>x. \<not> outside r x \<Longrightarrow> m' x = m x" if "(s, r) \<in> set hs" for s r
    using h that out unfolding heaps_def outside_regs by blast+
  then show "heaps m' hs" using h other_heap(1,2) [OF H] unfolding heaps_def by fast
  show "m' x = m x" if "(a, k) \<in> allocated (regs hs)" "a \<le> x" "x < a + k"
  proof -
    obtain s r where s: "(s, r) \<in> set hs" "(a, k) \<in> allocated r" using \<open>(a, k) \<in> allocated (regs hs)\<close> unfolding allocated_regs by blast
    then show ?thesis using other_heap(3) [OF H [OF s(1)] s(2) that(2,3)] by simp
  qed
qed

lemma heaps_extend:
  assumes h: "heaps m (xs @ (self, rs) # ys)" and o: "owns m (xs @ (self, rs) # ys) live"
    and md: "0 < lo" "lo \<le> hi" "hi \<le> 4294967292" "hi < lo + 2147483648" "quiet_above m hi"
    and away: "\<And>x. lo \<le> x \<Longrightarrow> x < hi + 8 \<Longrightarrow> outside (regs (xs @ (self, rs) # ys)) x"
  shows "\<exists>e m' rs'. lsta_add_memregion m self lo hi = (e, m') \<and> heaps m' (xs @ (self, rs') # ys) \<and> owns m' (xs @ (self, rs') # ys) live"
proof -
  note H = heapsD [OF h]
  let ?hs = "xs @ (self, rs) # ys"
  have aw: "outside rs x" "outside (regs (xs @ ys)) x" if "lo \<le> x" "x < hi + 8" for x
    using away [OF that] by (simp_all add: outside_append)
  have dom: "fst ` set ?hs \<inter> dom live = {}" using ownsD(1) [OF o] by blast
  show ?thesis
  proof (rule lsta_add_memregion_spec [OF H(1) md aw(1)])
    fix e m' assume g: "lsta_add_memregion m self lo hi = (e, m')" and out: "\<And>x. x < lo \<or> hi \<le> x \<Longrightarrow> m' x = m x"
    have same: "m' x = m x" if "\<not> outside (regs ?hs) x" for x
      by (rule out) (use away [of x] that in \<open>(cases "lo \<le> x"; cases "x < hi"), auto\<close>)
    note A = heaps_away [OF h same]
    have "owns m' ?hs live" by (rule owns_keep [OF o dom order_refl]) (rule A(2))
    then show ?thesis using g A(1) by blast
  next
    fix mr u n m'
    assume g: "lsta_add_memregion m self lo hi = (EOK, m')" "heap m' self (rs @ [(mr, u, [(False, n)])])" "lo \<le> mr" "mr \<le> u" "u \<le> hi"
        "ldp m' (self + 8) = ldp m (self + 8)"
      and keep: "\<And>a k x. (a, k) \<in> allocated rs \<Longrightarrow> a \<noteq> self \<Longrightarrow> a \<le> x \<Longrightarrow> x < a + k \<Longrightarrow> m' x = m x"
      and out: "\<And>x. outside rs x \<Longrightarrow> x < lo \<or> hi \<le> x \<Longrightarrow> m' x = m x"
    let ?rs = "rs @ [(mr, u, [(False, n)])]" and ?r = "(mr, u, [(False, n)])"
    have r: "lo \<le> x \<and> x < hi + 8" if "x \<in> extent ?r" for x using that g(3-5) by (simp add: extent_def)
    have same: "m' x = m x" if "\<not> outside (regs (xs @ ys)) x" for x
    proof (rule out)
      show "outside rs x" using apart_middle [OF H(3), of x] that by simp
      show "x < lo \<or> hi \<le> x" using aw(2) [of x] that by (cases "lo \<le> x"; cases "x < hi") auto
    qed
    have O: "heap m' s t \<and> ldp m' (s + 8) = 0" if st: "(s, t) \<in> set (xs @ ys)" for s t
    proof -
      have "heap m s t" "ldp m (s + 8) = 0" using h st unfolding heaps_def by auto
      moreover have "m' x = m x" if "\<not> outside t x" for x by (rule same) (use st that in \<open>auto simp only: outside_regs\<close>)
      ultimately show ?thesis using other_heap(1,2) by blast
    qed
    have ap: "apart_regions (regs (xs @ (self, ?rs) # ys))"
    proof -
      have out_r: "extent ?r \<inter> extent t = {}" if "t \<in> set (regs ?hs)" for t
        using away r that unfolding outside_def by blast
      have "extent t \<inter> extent ?r = {}" if "t \<in> set (regs ?hs)" for t using out_r [OF that] by blast
      with out_r show ?thesis using H(3) by (auto simp: apart_append)
    qed
    have hs: "heaps m' (xs @ (self, ?rs) # ys)" unfolding heaps_def using O ap g(2,6) H(2) by auto
    have al: "allocated ?rs = allocated rs" by (auto simp: allocated_append allocated_def)
    have "owns m' (xs @ (self, ?rs) # ys) live"
    proof (rule owns_keep [OF o])
      show "fst ` set (xs @ (self, ?rs) # ys) \<inter> dom live = {}" using dom by simp
      show "allocated (regs ?hs) \<subseteq> allocated (regs (xs @ (self, ?rs) # ys))" unfolding regs_split al by blast
      fix p l x assume p: "live p \<noteq> None" "(p, l) \<in> allocated (regs ?hs)" "p \<le> x" "x < p + l"
      have "p \<noteq> self" using dom p(1) by auto
      show "m' x = m x"
      proof (cases "(p, l) \<in> allocated rs")
        case True
        then show ?thesis using keep \<open>p \<noteq> self\<close> p(3,4) by blast
      next
        case False
        then have "(p, l) \<in> allocated (regs (xs @ ys))" using p(2) unfolding regs_split by blast
        then obtain s t where st: "(s, t) \<in> set (xs @ ys)" "(p, l) \<in> allocated t" unfolding allocated_regs by blast
        have "heap m s t" using h st(1) unfolding heaps_def by auto
        then have "\<not> outside t x" using allocated_inside [OF heapD(2) st(2) p(3,4)] by blast
        then show ?thesis by (intro same) (use st(1) in \<open>auto simp only: outside_regs\<close>)
      qed
    qed
    then show ?thesis using g(1) hs by blast
  qed
qed

lemma heaps_create:
  assumes h: "heaps m [(u, rs)]" and o: "owns m [(u, rs)] live" and ef: "ef < 4294967296"
    and md: "0 < lo" "lo \<le> hi" "hi \<le> 4294967292" "hi < lo + 2147483648" "quiet_above m hi"
    and away: "\<And>x. lo \<le> x \<Longrightarrow> x < hi + 8 \<Longrightarrow> outside rs x"
  shows "\<exists>self m' cs. lsta_create m lo hi 0 ef = Some (self, m') \<and>
    (let hs = (u, rs) # (if self = 0 then [] else [(self, cs)]) in heaps m' hs \<and> owns m' hs live)"
proof -
  have H: "heap m u rs" "ldp m (u + 8) = 0" "apart_regions rs" using h by (simp_all add: heaps_def)
  have z: "(0 :: nat) < 4294967296" by simp
  have same: "m' x = m x" if "\<not> outside (regs [(u, rs)]) x" "\<And>x. x < lo \<or> hi \<le> x \<Longrightarrow> m' x = m x" for m' :: mem and x
    by (rule that(2)) (use away [of x] that(1) in \<open>(cases "lo \<le> x"; cases "x < hi"), auto\<close>)
  have own: "owns m' hs live" if "\<And>x. x < lo \<or> hi \<le> x \<Longrightarrow> m' x = m x" "fst ` set hs \<inter> dom live = {}"
    "allocated (regs [(u, rs)]) \<subseteq> allocated (regs hs)" for m' hs
    by (rule owns_keep [OF o that(2,3)]) (rule heaps_away(2) [OF h same [OF _ that(1)]])
  have dom: "u \<notin> dom live" using ownsD(1) [OF o] by force
  show ?thesis
  proof (rule lsta_create_spec [OF md(1-4) z ef md(5)])
    fix m' assume g: "lsta_create m lo hi 0 ef = Some (0, m')" and out: "\<And>x. x < lo \<or> hi \<le> x \<Longrightarrow> m' x = m x"
    have "heaps m' [(u, rs)]" by (rule heaps_away(1) [OF h same [OF _ out]])
    moreover have "owns m' [(u, rs)] live" by (rule own [OF out]) (use dom in auto)
    ultimately show ?thesis using g by simp
  next
    fix mr v bs l m'
    assume g: "lsta_create m lo hi 0 ef = Some (mr + 24, m')" "heap m' (mr + 24) [(mr, v, bs)]" "lo \<le> mr" "v \<le> hi"
      "allocated [(mr, v, bs)] = {(mr + 24, l)}" "ldp m' (mr + 24 + 8) = 0" and out: "\<And>x. x < lo \<or> hi \<le> x \<Longrightarrow> m' x = m x"
    let ?hs = "[(u, rs), (mr + 24, [(mr, v, bs)])]"
    have e: "lo \<le> x \<and> x < hi + 8" if "x \<in> extent (mr, v, bs)" for x using that g(3,4) by (simp add: extent_def)
    have U: "heap m' u rs" "ldp m' (u + 8) = 0"
      using heaps_away(1) [OF h same [OF _ out]] by (simp_all add: heaps_def)
    have "extent t \<inter> extent (mr, v, bs) = {}" if "t \<in> set rs" for t using away e that unfolding outside_def by blast
    then have hs: "heaps m' ?hs" using U g(2,6) H(3) by (auto simp: heaps_def apart_append)
    have "mr + 24 \<notin> dom live"
    proof
      assume "mr + 24 \<in> dom live"
      then obtain c where c: "live (mr + 24) = Some c" by blast
      obtain k where k: "(mr + 24, k) \<in> allocated rs" using ownsD(2) [OF o c] by auto
      have pos: "0 < k" using allocated_in [OF heapD(2) [OF H(1)] k] by blast
      then have "\<not> outside rs (mr + 24)" using allocated_inside [OF heapD(2) [OF H(1)] k] by simp
      moreover have "mr + 24 \<in> extent (mr, v, bs)"
      proof -
        have "(mr + 24, l) \<in> allocated [(mr, v, bs)]" using g(5) by simp
        moreover from this have "0 < l" using allocated_in [OF heapD(2) [OF g(2)]] by blast
        ultimately show ?thesis using allocated_inside [OF heapD(2) [OF g(2)], of "mr + 24" l "mr + 24"] by (simp add: outside_def)
      qed
      ultimately show False using away e by blast
    qed
    then have "owns m' ?hs live" by (intro own [OF out]) (use dom in \<open>auto simp: allocated_append allocated_def\<close>)
    then show ?thesis using g(1) hs by (intro exI [of _ "mr + 24"] exI [of _ m'] exI [of _ "[(mr, v, bs)]"]) simp
  qed
qed

lemma add_region_step:
  assumes s: "kinv s" and n: "ef < 4294967296" "new_memory (kh s) lo hi"
  shows "\<exists>s'. kheap_step (KAddRegion limit ef lo hi) s = Some s' \<and> kinv s'"
proof -
  let ?h = "kh s" let ?m = "kmem ?h" let ?u = "gUnifiedMemory ?h" and ?c = "gCpuOnlyMemory ?h"
  obtain rs cs where h: "heaps ?m (allocators ?h rs cs)" and o: "owns ?m (allocators ?h rs cs) (klive s)" using s unfolding kinv_def by blast
  have md: "0 < lo" "lo \<le> hi" "hi \<le> 4294967292" "hi < lo + 2147483648" "quiet_above ?m hi" using n(2) by (simp_all add: new_memory_def)
  have away: "outside (regs (allocators ?h rs cs)) x" if "lo \<le> x" "x < hi + 8" for x
    using n(2) h that unfolding new_memory_def by blast
  have fin: ?thesis if "kalloc_add_memory_region limit ef ?h lo hi = Some (e, h')" "heaps (kmem h') (allocators h' rs' cs')"
    "owns (kmem h') (allocators h' rs' cs') (klive s)" for e h' rs' cs'
    using that kinvI [of "s\<lparr>kh := h'\<rparr>" rs' cs'] by simp
  show ?thesis
  proof (cases "hi < limit")
    case True
    define ys where "ys = (if ?c = 0 then [] else [(?c, cs)])"
    have A: "allocators ?h r cs = [] @ (?u, r) # ys" for r by (simp add: allocators_def ys_def)
    from heaps_extend [OF h [unfolded A] o [unfolded A] md away [unfolded A]] obtain e m' rs' where
      "lsta_add_memregion ?m ?u lo hi = (e, m')" "heaps m' (allocators ?h rs' cs)" "owns m' (allocators ?h rs' cs) (klive s)"
      unfolding A by blast
    then show ?thesis using True by (intro fin [of e "?h\<lparr>kmem := m'\<rparr>" rs' cs]) (simp_all add: kalloc_add_memory_region_def)
  next
    case False
    show ?thesis
    proof (cases "?c = 0")
      case True
      have A: "allocators ?h rs cs = [(?u, rs)]" using True by (simp add: allocators_def)
      have aw: "outside rs x" if "lo \<le> x" "x < hi + 8" for x using away [OF that] unfolding A by simp
      from heaps_create [OF h [unfolded A] o [unfolded A] n(1) md aw] obtain self m' cs' where
        g: "lsta_create ?m lo hi 0 ef = Some (self, m')"
          "let hs = (?u, rs) # (if self = 0 then [] else [(self, cs')]) in heaps m' hs \<and> owns m' hs (klive s)" by blast
      then show ?thesis using True False
        by (intro fin [of "if self = 0 then ENOMEM else EOK" "?h\<lparr>kmem := m', gCpuOnlyMemory := self\<rparr>" rs cs'])
           (auto simp: kalloc_add_memory_region_def allocators_def Let_def split: if_splits)
    next
      case c: False
      have B: "allocators ?h rs c = [(?u, rs)] @ (?c, c) # []" for c using c by (simp add: allocators_def)
      from heaps_extend [OF h [unfolded B] o [unfolded B] md away [unfolded B]] obtain e m' cs' where
        "lsta_add_memregion ?m ?c lo hi = (e, m')" "heaps m' (allocators ?h rs cs')" "owns m' (allocators ?h rs cs') (klive s)"
        unfolding B by blast
      then show ?thesis using False c by (intro fin [of e "?h\<lparr>kmem := m'\<rparr>" rs cs']) (simp_all add: kalloc_add_memory_region_def)
    qed
  qed
qed

lemma kheap_step_ok:
  assumes s: "kinv s" and g: "kheap_guard x s"
  shows "\<exists>s'. kheap_step x s = Some s' \<and> kinv s'"
proof (cases x)
  case (KAlloc n options)
  then show ?thesis using alloc_step [OF s] g by (simp add: kheap_guard_def del: kheap_step.simps)
next
  case (KWrite p i v)
  then show ?thesis using write_step [OF s, of p] g by (auto simp: kheap_guard_def split: option.splits)
next
  case (KFree p)
  then show ?thesis using free_step [OF s, of p] g by (simp add: kheap_guard_def del: kheap_step.simps)
next
  case (KAddRegion limit ef lo hi)
  then show ?thesis using add_region_step [OF s] g by (simp add: kheap_guard_def del: kheap_step.simps)
qed

interpretation kernheap: guarded_system kinv kheap_step kheap_guard
  by unfold_locales (rule kheap_step_ok)

end
