(* ===== verification/KallocInit.thy ===== *)
theory KallocInit
  imports KallocProps
begin

section \<open>The kernel heap from its start\<close>

text \<open>
  \<open>kalloc_init\<close> makes the allocators of the kernel heap from the memory layout of the machine. The state that it leaves satisfies the
  invariant of the kernel heap, and with it every history of the clients is safe.
\<close>

subsection \<open>Memory layouts\<close>

text \<open>
  A layout is sorted, its pieces are at least eight bytes apart, and none has two gigabytes. The word behind a piece must not look like
  the header of a block.
\<close>

definition usable :: "nat \<Rightarrow> nat \<Rightarrow> mem_desc \<Rightarrow> bool" where
  "usable b t d \<longleftrightarrow> b \<le> md_upper d \<and> md_lower d < t"

definition apart_layout :: "nat \<Rightarrow> nat \<Rightarrow> mem_desc list \<Rightarrow> bool" where
  "apart_layout b t ds \<longleftrightarrow> 0 < b \<and> b \<le> t \<and> sorted_wrt (\<lambda>d d'. md_upper d + 8 \<le> md_lower d') ds
     \<and> list_all (\<lambda>d. md_lower d \<le> md_upper d \<and> md_upper d \<le> 4294967292 \<and> md_upper d < md_lower d + 2147483648) ds"

definition quiet_layout :: "mem \<Rightarrow> nat \<Rightarrow> nat \<Rightarrow> int \<Rightarrow> mem_desc list \<Rightarrow> bool" where
  "quiet_layout m b t ty ds \<longleftrightarrow> list_all (\<lambda>d. md_type d = ty \<and> usable b t d \<longrightarrow> quiet_above m (min (md_upper d) t)) ds"

definition room :: "nat \<Rightarrow> nat \<Rightarrow> mem_desc \<Rightarrow> nat set" where
  "room b t d = {max (md_lower d) b ..< min (md_upper d) t + 8}"

definition touches :: "nat \<Rightarrow> nat \<Rightarrow> int \<Rightarrow> mem_desc list \<Rightarrow> nat \<Rightarrow> bool" where
  "touches b t ty ds x \<longleftrightarrow> (\<exists>d \<in> set ds. md_type d = ty \<and> usable b t d \<and> x \<in> room b t d)"

lemma room_apart: "md_upper d + 8 \<le> md_lower d' \<Longrightarrow> x \<in> room b t d \<Longrightarrow> x \<notin> room b t d'"
  by (auto simp: room_def)

lemma apart_layout_Cons:
  assumes "apart_layout b t (d # ds)"
  shows "apart_layout b t ds" "touches b t ty ds x \<Longrightarrow> x \<notin> room b t d"
  using assms by (auto simp: apart_layout_def touches_def dest: room_apart)

lemma apart_layout_suffix: "apart_layout b t (xs @ ds) \<Longrightarrow> apart_layout b t ds"
  by (induction xs) (auto dest: apart_layout_Cons)

lemma touches_other: "apart_layout b t ds \<Longrightarrow> ty \<noteq> ty' \<Longrightarrow> touches b t ty ds x \<Longrightarrow> \<not> touches b t ty' ds x"
proof (induction ds)
  case (Cons d ds)
  note A = apart_layout_Cons [OF Cons.prems(1)]
  show ?case using Cons.IH [OF A(1) Cons.prems(2)] A(2) Cons.prems(2,3) unfolding touches_def by auto
qed (simp add: touches_def)

lemma piece_limits:
  assumes "apart_layout b t ds" "d \<in> set ds" "usable b t d"
  shows "0 < max (md_lower d) b" "max (md_lower d) b \<le> min (md_upper d) t" "min (md_upper d) t \<le> 4294967292"
    "min (md_upper d) t < max (md_lower d) b + 2147483648"
  using assms by (auto simp: apart_layout_def usable_def list_all_iff)

lemma quiet_keeps:
  assumes q: "quiet_layout m b t ty ds" and a: "apart_layout b t ds" and same: "\<And>x. touches b t ty ds x \<Longrightarrow> m' x = m x"
  shows "quiet_layout m' b t ty ds"
  unfolding quiet_layout_def list_all_iff
proof (intro ballI impI)
  fix d assume d: "d \<in> set ds" "md_type d = ty \<and> usable b t d"
  let ?hi = "min (md_upper d) t"
  note L = piece_limits [OF a d(1) conjunct2 [OF d(2)]]
  have f: "floor_word ?hi \<le> ?hi" "?hi < floor_word ?hi + 4" unfolding floor_word_def by arith+
  have "ld m' (floor_word ?hi + 4) = ld m (floor_word ?hi + 4)"
    by (rule ld_congs, rule same) (use d f L(2) in \<open>auto simp: touches_def room_def\<close>)
  moreover have "quiet_above m ?hi" using q d by (auto simp: quiet_layout_def list_all_iff)
  ultimately show "quiet_above m' ?hi" by (simp add: quiet_above_def)
qed

subsection \<open>Making an allocator\<close>

lemma add_regions_spec:
  assumes "add_regions m self b t ty ds = (EOK, m')" "heap m self rs" "ldp m (self + 8) = 0" "apart_layout b t ds" "quiet_layout m b t ty ds"
    "\<forall>d \<in> set ds. b \<le> md_upper d" "\<forall>x. touches b t ty ds x \<longrightarrow> outside rs x"
  shows "\<exists>rs'. heap m' self rs' \<and> ldp m' (self + 8) = 0 \<and> (\<forall>x. outside rs x \<and> \<not> touches b t ty ds x \<longrightarrow> outside rs' x \<and> m' x = m x)"
  using assms
proof (induction ds arbitrary: m rs)
  case (Cons d ds)
  note A = apart_layout_Cons [OF Cons.prems(4)]
  have up: "\<forall>d \<in> set ds. b \<le> md_upper d" using Cons.prems(6) by simp
  have tl: "touches b t ty ds x \<Longrightarrow> touches b t ty (d # ds) x" for x by (auto simp: touches_def)
  have q: "quiet_layout m b t ty ds" using Cons.prems(5) by (simp add: quiet_layout_def)
  consider (stop) "\<not> md_lower d < t" | (skip) "md_lower d < t" "md_type d \<noteq> ty" | (add) "md_lower d < t" "md_type d = ty" by blast
  then show ?case
  proof cases
    case stop
    then show ?thesis using Cons.prems(1-3) by (intro exI [of _ rs]) simp
  next
    case skip
    then have "add_regions m self b t ty ds = (EOK, m')" using Cons.prems(1) by simp
    from Cons.IH [OF this Cons.prems(2,3) A(1) q up] show ?thesis using Cons.prems(7) tl by meson
  next
    case add
    let ?lo = "max (md_lower d) b" and ?hi = "min (md_upper d) t"
    have u: "usable b t d" using add Cons.prems(6) by (simp add: usable_def)
    note L = piece_limits [OF Cons.prems(4) _ u, simplified]
    have hd: "touches b t ty (d # ds) x" if "?lo \<le> x" "x < ?hi + 8" for x using that add(2) u by (auto simp: touches_def room_def)
    have aw: "outside rs x" if "?lo \<le> x" "x < ?hi + 8" for x using hd [OF that] Cons.prems(7) by blast
    have qd: "quiet_above m ?hi" using Cons.prems(5) add u by (simp add: quiet_layout_def)
    have lim: "0 < ?lo" "?lo \<le> ?hi" "?hi \<le> 4294967292" "?hi < ?lo + 2147483648" using piece_limits [OF Cons.prems(4) _ u] by simp_all
    obtain m1 where m1: "lsta_add_memregion m self ?lo ?hi = (EOK, m1)" "add_regions m1 self b t ty ds = (EOK, m')"
      using Cons.prems(1) add by (auto simp: adjusted_memory_descriptor_def split: prod.splits if_splits)
    show ?thesis
    proof (rule lsta_add_memregion_spec [OF Cons.prems(2) lim qd aw])
      fix e m2 assume "lsta_add_memregion m self ?lo ?hi = (e, m2)" "e \<noteq> EOK"
      then show ?thesis using m1(1) by simp
    next
      fix mr u n m2
      assume g: "lsta_add_memregion m self ?lo ?hi = (EOK, m2)" "heap m2 self (rs @ [(mr, u, [(False, n)])])" "?lo \<le> mr" "mr \<le> u" "u \<le> ?hi"
        "ldp m2 (self + 8) = ldp m (self + 8)" and out: "\<And>x. outside rs x \<Longrightarrow> x < ?lo \<or> ?hi \<le> x \<Longrightarrow> m2 x = m x"
      let ?rs = "rs @ [(mr, u, [(False, n)])]"
      have m2: "m2 = m1" using g(1) m1(1) by simp
      have new: "outside ?rs x" if "outside rs x" "x \<notin> room b t d" for x
        using that g(3-5) by (auto simp: outside_append outside_def extent_def room_def)
      have keep: "m2 x = m x" if "outside rs x" "x \<notin> room b t d" for x
        by (rule out [OF that(1)]) (use that(2) in \<open>auto simp: room_def\<close>)
      have o: "outside rs x" "x \<notin> room b t d" if "touches b t ty ds x" for x using tl [OF that] Cons.prems(7) A(2) [OF that] by blast+
      have "quiet_layout m1 b t ty ds" by (rule quiet_keeps [OF q A(1)]) (use keep o m2 in blast)
      moreover have "\<forall>x. touches b t ty ds x \<longrightarrow> outside ?rs x" using new o by blast
      moreover have "ldp m1 (self + 8) = 0" using g(6) m2 Cons.prems(3) by simp
      ultimately obtain rs' where R: "heap m' self rs'" "ldp m' (self + 8) = 0"
        "\<forall>x. outside ?rs x \<and> \<not> touches b t ty ds x \<longrightarrow> outside rs' x \<and> m' x = m1 x"
        using Cons.IH [OF m1(2) g(2) [unfolded m2] _ A(1) _ up] by blast
      have "outside rs' x \<and> m' x = m x" if x: "outside rs x" "\<not> touches b t ty (d # ds) x" for x
      proof -
        have r: "x \<notin> room b t d" using x(2) hd by (auto simp: room_def)
        have "\<not> touches b t ty ds x" using x(2) tl by blast
        then show ?thesis using R(3) new [OF x(1) r] keep [OF x(1) r] m2 by simp
      qed
      then show ?thesis using R(1,2) by blast
    qed
  qed
qed auto

lemma create_too_high: "\<lbrakk>t \<le> lo; lo \<le> 4294967292; 0 < lo\<rbrakk> \<Longrightarrow> lsta_create m lo t gf ef = Some (0, m)"
proof -
  assume a: "t \<le> lo" "lo \<le> 4294967292" "0 < lo"
  have "lo \<le> ceil_word lo" "ceil_word lo \<noteq> 0" "floor_word t \<le> t" using round_word [of lo] round_word [of t] a by auto
  then have "mem_region_create m lo t ef = (0, m)" using a(1) by (auto simp: mem_region_create_def Let_def)
  then show ?thesis by (simp add: lsta_create_def)
qed

lemma create_allocator_spec:
  assumes c: "create_allocator ef m layout b t ty opt = Some (EOK, self, m')" and a: "apart_layout b t layout" and q: "quiet_layout m b t ty layout"
    and ef: "ef < 4294967296"
  obtains (none) "opt" "self = 0" "m' = m"
    | (new) rs where "self \<noteq> 0" "heap m' self rs" "ldp m' (self + 8) = 0"
      "\<forall>x. \<not> touches b t ty layout x \<longrightarrow> outside rs x \<and> m' x = m x"
proof (cases "dropWhile (unusable b ty) layout")
  case Nil
  then have "opt \<and> self = 0 \<and> m' = m" using c by (cases opt) (simp_all add: create_allocator_def del: dropWhile_eq_Nil_conv)
  then show thesis using none by blast
next
  case (Cons d ds)
  obtain xs where xs: "layout = xs @ d # ds" using Cons by (metis takeWhile_dropWhile_id)
  have "\<not> unusable b ty d" using Cons by (metis dropWhile_eq_Cons_conv)
  then have d: "b \<le> md_upper d" "md_type d = ty" by (auto simp: unusable_def)
  have al: "apart_layout b t (d # ds)" using a xs apart_layout_suffix by blast
  note A = apart_layout_Cons [OF al]
  have up: "\<forall>e \<in> set ds. b \<le> md_upper e" using al d(1) by (force simp: apart_layout_def list_all_iff)
  let ?lo = "max (md_lower d) b" and ?hi = "min (md_upper d) t"
  obtain m1 where m1: "lsta_create m ?lo ?hi 0 ef = Some (self, m1)" "self \<noteq> 0" "add_regions m1 self b t ty ds = (EOK, m')"
  proof -
    obtain v m1 where v: "lsta_create m ?lo ?hi 0 ef = Some (v, m1)" "v \<noteq> 0"
      using c Cons by (auto simp: create_allocator_def adjusted_memory_descriptor_def bind_eq_Some_conv split: if_splits)
    then show thesis using that [of m1] c Cons
      by (cases "add_regions m1 v b t ty ds") (auto simp: create_allocator_def adjusted_memory_descriptor_def split: if_splits)
  qed
  have low: "md_lower d < t"
  proof (rule ccontr)
    assume n: "\<not> md_lower d < t"
    moreover have "md_lower d \<le> md_upper d" "md_upper d \<le> 4294967292" "0 < b" "b \<le> t" using al by (simp_all add: apart_layout_def)
    ultimately have "lsta_create m ?lo ?hi 0 ef = Some (0, m)" by (intro create_too_high) auto
    then show False using m1 by simp
  qed
  have u: "usable b t d" using low d by (simp add: usable_def)
  have lim: "0 < ?lo" "?lo \<le> ?hi" "?hi \<le> 4294967292" "?hi < ?lo + 2147483648" using piece_limits [OF al _ u] by simp_all
  have qs: "quiet_above m ?hi" "quiet_layout m b t ty ds" using q xs d u by (simp_all add: quiet_layout_def)
  have t: "touches b t ty layout x" if "touches b t ty ds x \<or> x \<in> room b t d" for x
    using that xs d u by (auto simp: touches_def)
  have z: "(0::nat) < 4294967296" by simp
  show thesis
  proof (rule lsta_create_spec [OF lim z ef qs(1)])
    fix m2 assume "lsta_create m ?lo ?hi 0 ef = Some (0, m2)"
    then show thesis using m1 by simp
  next
    fix mr u bs l m2
    assume g: "lsta_create m ?lo ?hi 0 ef = Some (mr + 24, m2)" "heap m2 (mr + 24) [(mr, u, bs)]" "?lo \<le> mr" "u \<le> ?hi" "ldp m2 (mr + 24 + 8) = 0"
      and out: "\<And>x. x < ?lo \<or> ?hi \<le> x \<Longrightarrow> m2 x = m x"
    have e: "self = mr + 24" "m1 = m2" using g(1) m1(1) by simp_all
    have o: "outside [(mr, u, bs)] x" "m1 x = m x" if "x \<notin> room b t d" for x
    proof -
      show "outside [(mr, u, bs)] x" using that g(3,4) by (auto simp: outside_def extent_def room_def)
      have "x < ?lo \<or> ?hi \<le> x" using that by (auto simp: room_def)
      then show "m1 x = m x" using out e(2) by simp
    qed
    have ql: "quiet_layout m1 b t ty ds" by (rule quiet_keeps [OF qs(2) A(1)]) (rule o(2), rule A(2))
    have "\<forall>x. touches b t ty ds x \<longrightarrow> outside [(mr, u, bs)] x" using o(1) A(2) by blast
    from add_regions_spec [OF m1(3) g(2) [folded e] g(5) [folded e] A(1) ql up this] obtain rs' where R: "heap m' self rs'" "ldp m' (self + 8) = 0"
      "\<forall>x. outside [(mr, u, bs)] x \<and> \<not> touches b t ty ds x \<longrightarrow> outside rs' x \<and> m' x = m1 x" by blast
    have "outside rs' x \<and> m' x = m x" if x: "\<not> touches b t ty layout x" for x
      using R(3) o [of x] t [of x] x by (metis (full_types))
    then show thesis by (intro new [OF m1(2) R(1,2)]) blast
  qed
qed

subsection \<open>The start of the kernel heap\<close>

definition layout_ok :: "mem \<Rightarrow> nat \<Rightarrow> nat \<Rightarrow> mem_desc list \<Rightarrow> bool" where
  "layout_ok m b t ds \<longleftrightarrow> apart_layout b t ds \<and> quiet_layout m b t 1 ds \<and> quiet_layout m b t 0 ds"

lemma apart_two:
  assumes "apart_regions rs" "apart_regions cs" "\<And>x. \<not> outside rs x \<Longrightarrow> outside cs x"
  shows "apart_regions (rs @ cs)"
proof -
  have "extent r \<inter> extent c = {}" if "r \<in> set rs" "c \<in> set cs" for r c
  proof (rule ccontr)
    assume "extent r \<inter> extent c \<noteq> {}"
    then obtain x where "x \<in> extent r" "x \<in> extent c" by blast
    then show False using assms(3) [of x] that by (auto simp: outside_def)
  qed
  then show ?thesis using assms(1,2) by (simp add: apart_append)
qed

lemma kalloc_init_inv:
  assumes ok: "layout_ok m b t layout" and ef: "ef < 4294967296" and i: "kalloc_init ef m layout b t = Some (EOK, h)"
  shows "kinv \<lparr>kh = h, klive = Map.empty\<rparr>"
proof -
  obtain u m1 c m2 where C: "create_allocator ef m layout b t 1 False = Some (EOK, u, m1)" "create_allocator ef m1 layout b t 0 True = Some (EOK, c, m2)"
    and h: "h = \<lparr>kmem = m2, gUnifiedMemory = u, gCpuOnlyMemory = c\<rparr>"
    using i by (auto simp: kalloc_init_def bind_eq_Some_conv split: if_splits)
  have L: "apart_layout b t layout" "quiet_layout m b t 1 layout" "quiet_layout m b t 0 layout" using ok by (simp_all add: layout_ok_def)
  obtain rs where U: "heap m1 u rs" "ldp m1 (u + 8) = 0" "\<forall>x. \<not> touches b t 1 layout x \<longrightarrow> outside rs x \<and> m1 x = m x"
    using create_allocator_spec [OF C(1) L(1,2) ef] by blast
  have fin: ?thesis if "heaps m2 (allocators h rs cs)" for cs
    by (rule kinvI [of _ rs cs]) (use that h in \<open>simp_all add: owns_def\<close>)
  have x: "\<not> touches b t 1 layout x" if "touches b t 0 layout x" for x using touches_other [OF L(1) _ that, of 1] by simp
  have q: "quiet_layout m1 b t 0 layout" by (rule quiet_keeps [OF L(3,1)]) (use x U(3) in blast)
  from C(2) L(1) q ef show ?thesis
  proof (cases rule: create_allocator_spec)
    case none
    then show ?thesis using U heapD(3) [OF U(1)] by (intro fin) (simp add: heaps_def allocators_def h)
  next
    case (new cs)
    have same: "m2 y = m1 y \<and> outside cs y" if "\<not> outside rs y" for y using new(4) U(3) x that by blast
    have U2: "heap m2 u rs" "ldp m2 (u + 8) = 0" using other_heap [OF U(1,2)] same by blast+
    have "apart_regions (rs @ cs)" by (rule apart_two [OF heapD(3) [OF U(1)] heapD(3) [OF new(2)]]) (use same in blast)
    then show ?thesis using U2 new(1-3) by (intro fin [of cs]) (simp add: heaps_def allocators_def h)
  qed
qed

subsection \<open>A small machine\<close>

text \<open>One piece of memory, which has space for the allocator and two blocks of eight bytes.\<close>

definition small_layout :: "mem_desc list" where
  "small_layout = [\<lparr>md_lower = 16, md_upper = 112, md_type = 1\<rparr>]"

definition small_region :: mem where
  "small_region = set_trailer (set_header (stp (stp (stp (stp (\<lambda>_. 0) 16 0) 20 32) 24 112) 28 0) 32 80) 104 80"

definition small_start :: mem where
  "small_start = stp (stp (stp (stp (set_trailer (set_header (set_trailer (set_header small_region
     32 (-32)) 56 (-32)) 64 48) 104 48) 40 16) 44 16) 48 0) 52 0"

definition small_one :: mem where
  "small_one = set_trailer (set_header (set_trailer (set_header small_start 64 (-24)) 80 (-24)) 88 24) 104 24"

definition small_two :: mem where
  "small_two = set_trailer (set_header small_one 88 (-24)) 104 (-24)"

definition small_sys :: "mem \<Rightarrow> (nat \<Rightarrow> u8 list option) \<Rightarrow> ksys" where
  "small_sys m live = \<lparr>kh = \<lparr>kmem = m, gUnifiedMemory = 40, gCpuOnlyMemory = 0\<rparr>, klive = live\<rparr>"

lemma stp_skip:
  "a + 4 \<le> b \<or> b + 4 \<le> a \<Longrightarrow> lds (stp m a p) b = lds m b" "a + 4 \<le> b \<or> b + 4 \<le> a \<Longrightarrow> ld (stp m a p) b = ld m b"
  by (simp_all add: lds_def stp_def ld_sw_other)

lemmas small_defs = stp_skip small_region_def small_start_def small_one_def small_two_def set_header_def set_trailer_def mem_simps ldp_skip

lemma small_layout_ok: "layout_ok (\<lambda>_. 0) 16 112 small_layout"
  by (simp add: layout_ok_def apart_layout_def quiet_layout_def small_layout_def quiet_above_def floor_word_def ld_def)

lemma small_region_create: "mem_region_create (\<lambda>_. 0) 16 112 0 = (16, small_region)"
  by (simp add: mem_region_create_def Let_def ceil_word_def floor_word_def padd_def wrap32_def small_region_def)

lemma small_region_words: "ldp small_region 20 = 32" "ldp small_region 24 = 112" "lds small_region 32 = 80"
  by (simp_all add: small_defs)

lemma small_region_find: "find_block small_region 32 112 32 = Some (Some 32)"
  by (subst find_block.simps) (simp add: small_region_words)

lemma small_region_alloc: "mem_region_alloc small_region 16 16 =
    Some (40, set_trailer (set_header (set_trailer (set_header small_region 32 (-32)) 56 (-32)) 64 48) 104 48)"
  by (simp add: mem_region_alloc_def small_region_words small_region_find Let_def ceil_word_def padd_def wrap32_def)

lemma small_init: "kalloc_init 0 (\<lambda>_. 0) small_layout 16 112 = Some (EOK, kh (small_sys small_start Map.empty))"
  by (simp add: kalloc_init_def create_allocator_def unusable_def adjusted_memory_descriptor_def lsta_create_def small_layout_def
    small_region_create small_region_alloc small_start_def small_sys_def)

lemma small_words:
  "ldp small_start 40 = 16" "ldp small_start 20 = 32" "ldp small_start 24 = 112" "lds small_start 32 = - 32" "lds small_start 64 = 48"
  "ldp small_one 40 = 16" "ldp small_one 20 = 32" "ldp small_one 24 = 112" "lds small_one 32 = - 32" "lds small_one 64 = - 24" "lds small_one 88 = 24"
  "ldp small_two 40 = 16" "ldp small_two 20 = 32" "ldp small_two 24 = 112" "lds small_two 88 = - 24"
  by (simp_all add: small_defs)

lemma small_headers: "validate_block_header small_one 64" "validate_block_header small_two 88" "validate_block_header small_two 64"
    "lds small_two 64 = - 24"
  by (simp_all add: small_defs validate_block_header_def)

lemma small_find: "find_block small_start 32 112 24 = Some (Some 64)" "find_block small_one 32 112 24 = Some (Some 88)"
proof -
  have "find_block small_start 64 112 24 = Some (Some 64)" "find_block small_one 88 112 24 = Some (Some 88)"
    by (subst find_block.simps, simp add: small_words)+
  moreover from this have "find_block small_one 64 112 24 = Some (Some 88)"
    by (subst find_block.simps) (simp add: small_words abs_word_def padd_def wrap32_def)
  ultimately show "find_block small_start 32 112 24 = Some (Some 64)" "find_block small_one 32 112 24 = Some (Some 88)"
    by (subst find_block.simps, simp add: small_words abs_word_def padd_def wrap32_def)+
qed

lemma small_alloc: "mem_region_alloc small_start 16 8 = Some (72, small_one)" "mem_region_alloc small_one 16 8 = Some (96, small_two)"
proof -
  show "mem_region_alloc small_start 16 8 = Some (72, small_one)"
    by (simp add: mem_region_alloc_def small_words small_find Let_def ceil_word_def padd_def wrap32_def) (simp add: small_one_def)
  have "lds (set_header small_one 88 (- 24)) 108 = 24" by (simp add: small_defs)
  then show "mem_region_alloc small_one 16 8 = Some (96, small_two)"
    by (simp add: mem_region_alloc_def small_words small_find Let_def ceil_word_def padd_def wrap32_def) (simp add: small_two_def)
qed

lemma small_kalloc:
  "mem_region_alloc m 16 8 = Some (p, m') \<Longrightarrow> p \<noteq> 0 \<Longrightarrow> ldp m 40 = 16 \<Longrightarrow>
   kheap_step (KAlloc 8 0) (small_sys m live) = Some (small_sys m' (live(p \<mapsto> map m' [p ..< p + 8])))"
  by (simp add: small_sys_def kalloc_options_def lsta_alloc_def alloc_regions.simps)

lemma small_edge:
  assumes "ldp m 40 = 16" "ldp m 20 = 32" "ldp m 24 = 112" "validate_block_header m (p - 8)" "lds m (p - 8) = - 24" "72 \<le> p" "p < 112"
  shows "kheap_edge (kh (small_sys m live)) p = Some (p = 40 \<or> p + 16 = 112)"
proof -
  have f: "find_region m 16 p = Some 16" using assms by (subst find_region.simps) (simp add: mem_region_manages_def)
  have d: "padd p (- 8) = p - 8" using assms(6,7) padd_int [of "p - 8" p "- 8"] by simp
  show ?thesis
    using assms f d by (simp add: small_sys_def kheap_edge_def ksize_def kblocksize_def lsta_getblocksize_def lsta_getmemregion_def
      mem_region_block_size_def Let_def region_edge_def abs_word_def wrap32_def)
qed

lemma small_run:
  "run_guarded kheap_step kheap_guard [KAlloc 8 0] (small_sys small_start Map.empty) = Some (small_sys small_one [72 \<mapsto> map small_one [72 ..< 80]])"
  "run_guarded kheap_step kheap_guard [KAlloc 8 0, KAlloc 8 0] (small_sys small_start Map.empty) =
     Some (small_sys small_two [72 \<mapsto> map small_one [72 ..< 80], 96 \<mapsto> map small_two [96 ..< 104]])"
  using small_kalloc [OF small_alloc(1), of Map.empty] small_kalloc [OF small_alloc(2), of "[72 \<mapsto> map small_one [72 ..< 80]]"]
  by (simp_all add: small_words kheap_guard_def del: kheap_step.simps)

lemma small_run_all:
  "run_all kheap_step [KAlloc 8 0, KAlloc 8 0] (small_sys small_start Map.empty) =
     Some (small_sys small_two [72 \<mapsto> map small_one [72 ..< 80], 96 \<mapsto> map small_two [96 ..< 104]])"
  using small_kalloc [OF small_alloc(1), of Map.empty] small_kalloc [OF small_alloc(2), of "[72 \<mapsto> map small_one [72 ..< 80]]"]
  by (simp_all add: small_words del: kheap_step.simps)

subsection \<open>The properties of the kernel heap\<close>

lemma kalloc_run_inv:
  assumes "layout_ok m b t layout" "ef < 4294967296" "kalloc_init ef m layout b t = Some (EOK, h)"
  shows "\<exists>s. run_guarded kheap_step kheap_guard ops \<lparr>kh = h, klive = Map.empty\<rparr> = Some s \<and> kinv s"
  using kernheap.run_guarded_ok [OF kalloc_init_inv [OF assms]] .

lemma regions_of_heaps: "heaps m hs \<Longrightarrow> (p, l) \<in> allocated (regs hs) \<Longrightarrow> \<exists>self rs. (self, rs) \<in> set hs \<and> heap m self rs \<and> (p, l) \<in> allocated rs"
  unfolding allocated_regs heaps_def by fast

lemma live_apart:
  assumes h: "heaps m hs" and a: "(p, l) \<in> allocated (regs hs)" "(q, k) \<in> allocated (regs hs)" "p \<noteq> q"
  shows "p + l \<le> q \<or> q + k \<le> p"
proof -
  obtain s r where P: "(s, r) \<in> set hs" "heap m s r" "(p, l) \<in> allocated r" using regions_of_heaps [OF h a(1)] by blast
  obtain s' r' where Q: "(s', r') \<in> set hs" "heap m s' r'" "(q, k) \<in> allocated r'" using regions_of_heaps [OF h a(2)] by blast
  show ?thesis
  proof (cases "(q, k) \<in> allocated r")
    case True
    then show ?thesis using allocated_disjoint [OF heapD(2,3) [OF P(2)] P(3) True] a(3) by auto
  next
    case False
    have pos: "0 < l" "0 < k" using allocated_in [OF heapD(2) [OF P(2)] P(3)] allocated_in [OF heapD(2) [OF Q(2)] Q(3)] by metis+
    obtain xs ys where hs: "hs = xs @ (s, r) # ys" using P(1) by (meson split_list)
    have "(q, k) \<in> allocated (regs (xs @ ys))" using a(2) False hs by (simp only: regs_split) blast
    note F = foreign_block [OF h [unfolded hs] this]
    show ?thesis
    proof (rule ccontr)
      assume "\<not> (p + l \<le> q \<or> q + k \<le> p)"
      then have "\<exists>x. p \<le> x \<and> x < p + l \<and> q \<le> x \<and> x < q + k" using pos by (intro exI [of _ "max p q"]) auto
      then show False using F(1) allocated_inside [OF heapD(2) [OF P(2)] P(3)] by blast
    qed
  qed
qed

lemma kinv_live:
  assumes s: "kinv s" and p: "klive s p = Some bs"
  shows "p \<noteq> 0 \<and> 4 dvd p" "i < length bs \<Longrightarrow> kmem (kh s) (p + i) = bs ! i"
    "klive s q = Some cs \<Longrightarrow> q \<noteq> p \<Longrightarrow> p + length bs \<le> q \<or> q + length cs \<le> p"
proof -
  let ?m = "kmem (kh s)"
  obtain rs ds where h: "heaps ?m (allocators (kh s) rs ds)" and o: "owns ?m (allocators (kh s) rs ds) (klive s)" using s unfolding kinv_def by blast
  obtain l where l: "(p, l) \<in> allocated (regs (allocators (kh s) rs ds))" "length bs \<le> l" using ownsD(2) [OF o p] by blast
  obtain self r where r: "heap ?m self r" "(p, l) \<in> allocated r" using regions_of_heaps [OF h l(1)] by blast
  show "p \<noteq> 0 \<and> 4 dvd p" using allocated_aligned [OF r] region_of_block [OF r] by metis
  show "?m (p + i) = bs ! i" if "i < length bs" using ownsD(3) [OF o p that] .
  assume q: "klive s q = Some cs" "q \<noteq> p"
  obtain k where k: "(q, k) \<in> allocated (regs (allocators (kh s) rs ds))" "length cs \<le> k" using ownsD(2) [OF o q(1)] by blast
  show "p + length bs \<le> q \<or> q + length cs \<le> p" using live_apart [OF h l(1) k(1)] q(2) l(2) k(2) by auto
qed

text \<open>A freed block can be used again for a request that is not larger.\<close>

lemma dealloc_alloc:
  assumes h: "heap m self rs" "ldp m (self + 8) = 0" and a: "(p, l) \<in> allocated rs" "\<not> at_edge (bounds rs) p l" "p \<noteq> self" and n: "0 < n" "n \<le> l" "n \<le> 2147483628"
  shows "\<exists>m' q m''. kdealloc m self p = Some (EOK, m') \<and> lsta_alloc grow m' self n = Some (q, m'') \<and> q \<noteq> 0"
proof (rule lsta_dealloc_spec [OF h(1) a])
  fix m' rs'
  assume d: "lsta_dealloc m self p = Some (EOK, None, m')" "heap m' self rs'" "\<exists>mr u bs k. (mr, u, bs) \<in> set rs' \<and> (False, k) \<in> set bs \<and> l + 16 \<le> k"
    and keep: "\<And>a k x. (a, k) \<in> allocated rs \<Longrightarrow> a \<noteq> p \<Longrightarrow> a \<le> x \<Longrightarrow> x < a + k \<Longrightarrow> m' x = m x"
  obtain k where k: "16 \<le> k" "(self, k) \<in> allocated rs" using heapD(5) [OF h(1)] by blast
  have "ldp m' (self + 8) = ldp m (self + 8)" by (rule ld_congs) (use keep [OF k(2)] k(1) a(3) in auto)
  then have g: "ldp m' (self + 8) = 0" using h(2) by simp
  have l4: "gross n \<le> l + 16"
  proof -
    obtain xs mr u pre j post ys where B: "region m mr u (pre @ (True, j) # post)" "l = j - 16" "20 \<le> j" using region_of_block [OF h(1) a(1)] by metis
    then have "4 dvd j" using regionD(5) [OF B(1)] blkD(2) [of m _ "(True, j)"] by (auto simp: blks_append)
    then have "4 dvd l" using B(2,3) by presburger
    then have "(n + 3) div 4 * 4 \<le> l" using n(2) by presburger
    moreover have "ceil_word n = (n + 3) div 4 * 4" using n(3) by (simp add: ceil_word_def)
    ultimately show ?thesis by (simp add: gross_def)
  qed
  have "\<exists>q m''. lsta_alloc grow m' self n = Some (q, m'') \<and> q \<noteq> 0"
  proof (rule lsta_alloc_spec [OF d(2) g n(1,3), of grow])
    assume "\<And>mr u bs k. (mr, u, bs) \<in> set rs' \<Longrightarrow> (False, k) \<in> set bs \<Longrightarrow> k < gross n"
    then show ?thesis using d(3) l4 by (meson le_trans not_le)
  qed blast
  then show ?thesis using d(1) by (simp add: kdealloc_def)
qed

lemma kalloc_even:
  assumes k: "kinv s" and n: "0 < n" "n \<le> 2147483628"
    and a: "(\<exists>q m. lsta_alloc no_grow (kmem (kh s)) (gUnifiedMemory (kh s)) n = Some (q, m) \<and> q \<noteq> 0)
      \<or> gCpuOnlyMemory (kh s) \<noteq> 0 \<and> (\<exists>q m. lsta_alloc no_grow (kmem (kh s)) (gCpuOnlyMemory (kh s)) n = Some (q, m) \<and> q \<noteq> 0)"
  shows "\<exists>q h'. kalloc_options (kh s) n 0 = Some (EOK, q, h')"
proof (cases "gCpuOnlyMemory (kh s) = 0")
  case True
  then show ?thesis using a by (auto simp: kalloc_options_def)
next
  case False
  let ?m = "kmem (kh s)" and ?c = "gCpuOnlyMemory (kh s)"
  obtain rs cs where "heaps ?m (allocators (kh s) rs cs)" using k unfolding kinv_def by blast
  then have h: "heap ?m ?c cs" "ldp ?m (?c + 8) = 0" using False by (simp_all add: heaps_def allocators_def)
  show ?thesis
  proof (rule lsta_alloc_spec [OF h n, of no_grow])
    assume "lsta_alloc no_grow ?m ?c n = Some (0, ?m)"
    then show ?thesis using a False by (auto simp: kalloc_options_def)
  qed (use False in \<open>simp add: kalloc_options_def\<close>)
qed

lemma free_then_alloc:
  assumes s: "kinv s" and p: "klive s p = Some bs" "kheap_edge (kh s) p = Some False" and n: "0 < n" "n \<le> length bs" "n \<le> 2147483628"
  shows "\<exists>h q h'. kfree (kh s) p = Some h \<and> kalloc_options h n 0 = Some (EOK, q, h')"
proof -
  let ?h = "kh s" let ?m = "kmem ?h"
  obtain rs cs where h: "heaps ?m (allocators ?h rs cs)" and o: "owns ?m (allocators ?h rs cs) (klive s)" using s unfolding kinv_def by blast
  obtain l where l: "(p, l) \<in> allocated (regs (allocators ?h rs cs))" "length bs \<le> l" using ownsD(2) [OF o p(1)] by blast
  have ps: "p \<noteq> gUnifiedMemory ?h" "gCpuOnlyMemory ?h \<noteq> 0 \<Longrightarrow> p \<noteq> gCpuOnlyMemory ?h" using ownsD(1) [OF o p(1)] by (auto simp: allocators_def)
  obtain s' where s': "kheap_step (KFree p) s = Some s'" "kinv s'" using free_step [OF s _ p(2)] p(1) by auto
  have nl: "n \<le> l" using n(2) l(2) by simp
  have fin: ?thesis if f: "kfree ?h p = Some (?h\<lparr>kmem := m'\<rparr>)" and a: "lsta_alloc no_grow m' self n = Some (q, m'')" "q \<noteq> 0"
    "self = gUnifiedMemory ?h \<or> gCpuOnlyMemory ?h \<noteq> 0 \<and> self = gCpuOnlyMemory ?h" for m' self q m''
  proof -
    have "kh s' = ?h\<lparr>kmem := m'\<rparr>" using s'(1) f by auto
    then show ?thesis using kalloc_even [OF s'(2) n(1,3)] f a by auto
  qed
  from h l(1) show ?thesis
  proof (cases rule: allocators_cases)
    case unified
    have H: "heap ?m (gUnifiedMemory ?h) rs" "ldp ?m (gUnifiedMemory ?h + 8) = 0" using h by (simp_all add: heaps_def allocators_def)
    have e: "\<not> at_edge (bounds rs) p l" using p(2) unified(2) by simp
    show ?thesis using dealloc_alloc [OF H unified(1) e ps(1) n(1) nl n(3), of no_grow] unified(3) fin by blast
  next
    case cpu
    have H: "heap ?m (gCpuOnlyMemory ?h) cs" "ldp ?m (gCpuOnlyMemory ?h + 8) = 0" using h cpu(1) by (simp_all add: heaps_def allocators_def)
    have e: "\<not> at_edge (bounds cs) p l" using p(2) cpu(3) by simp
    show ?thesis using dealloc_alloc [OF H cpu(2) e ps(2) [OF cpu(1)] n(1) nl n(3), of no_grow] cpu(1,4) fin by blast
  qed
qed

lemma free_at_edge:
  assumes s: "kinv s" and p: "klive s p = Some bs" "kheap_edge (kh s) p = Some True"
  shows "kfree (kh s) p = None"
proof -
  let ?h = "kh s" let ?m = "kmem ?h"
  obtain rs cs where h: "heaps ?m (allocators ?h rs cs)" and o: "owns ?m (allocators ?h rs cs) (klive s)" using s unfolding kinv_def by blast
  obtain l where l: "(p, l) \<in> allocated (regs (allocators ?h rs cs))" using ownsD(2) [OF o p(1)] by blast
  from h l show ?thesis
  proof (cases rule: allocators_cases)
    case unified
    have "heap ?m (gUnifiedMemory ?h) rs" using h by (simp add: heaps_def allocators_def)
    then show ?thesis using lsta_dealloc_edge unified(1,2) p(2) by (simp add: kfree_def kdealloc_def)
  next
    case cpu
    have A: "allocators ?h rs cs = [] @ (gUnifiedMemory ?h, rs) # [(gCpuOnlyMemory ?h, cs)]" using cpu(1) by (simp add: allocators_def)
    have H: "heap ?m (gUnifiedMemory ?h) rs" "heap ?m (gCpuOnlyMemory ?h) cs" using h A by (simp_all add: heaps_def)
    have "(p, l) \<in> allocated (regs ([] @ [(gCpuOnlyMemory ?h, cs)]))" using cpu(2) by simp
    note F = foreign_block [OF h [unfolded A] this]
    have "lsta_dealloc ?m (gCpuOnlyMemory ?h) p = Some (EOK, Some MERR_CORRUPTION, ?m)"
      using lsta_dealloc_edge [OF H(2) cpu(2)] cpu(3) p(2) by simp
    then show ?thesis using foreign_pointer(1) [OF H(1) F(2-4)] cpu(1) by (simp add: kfree_def kdealloc_def)
  qed
qed

lemma edge_known:
  assumes s: "kinv s" and p: "klive s p = Some bs"
  shows "kheap_edge (kh s) p \<noteq> None"
proof -
  obtain rs cs where h: "heaps (kmem (kh s)) (allocators (kh s) rs cs)" and o: "owns (kmem (kh s)) (allocators (kh s) rs cs) (klive s)"
    using s unfolding kinv_def by blast
  obtain l where "(p, l) \<in> allocated (regs (allocators (kh s) rs cs))" using ownsD(2) [OF o p] by blast
  with h show ?thesis by (cases rule: allocators_cases) simp_all
qed

lemma stopped_by:
  assumes "kinv s" "\<not> kheap_guard x s"
  shows "kheap_misuse x s \<or> (\<exists>p bs. x = KFree p \<and> klive s p = Some bs \<and> kheap_edge (kh s) p = Some True \<and> kheap_step x s = None)"
proof (cases "kheap_misuse x s")
  case False
  then obtain p where p: "x = KFree p" "kheap_edge (kh s) p \<noteq> Some False" using assms(2) unfolding kheap_guard_def by blast
  then obtain bs where bs: "klive s p = Some bs" using False by auto
  have "kheap_edge (kh s) p = Some True" using edge_known [OF assms(1) bs] p(2) by (cases "kheap_edge (kh s) p") auto
  then show ?thesis using p(1) bs free_at_edge [OF assms(1) bs] by simp
qed simp

text \<open>
  All blocks of the clients are aligned to words, they hold what their owners have stored in them, and no two of them overlap.
\<close>

definition blocks_intact :: "ksys \<Rightarrow> bool" where
  "blocks_intact s \<longleftrightarrow> (\<forall>p bs. klive s p = Some bs \<longrightarrow> p \<noteq> 0 \<and> 4 dvd p \<and> (\<forall>i < length bs. kmem (kh s) (p + i) = bs ! i)
     \<and> (\<forall>q cs. klive s q = Some cs \<and> q \<noteq> p \<longrightarrow> p + length bs \<le> q \<or> q + length cs \<le> p))"

lemma kinv_intact:
  assumes "kinv s"
  shows "blocks_intact s"
  unfolding blocks_intact_def
proof (intro allI impI)
  fix p bs assume p: "klive s p = Some bs"
  note L = kinv_live [OF assms p]
  show "p \<noteq> 0 \<and> 4 dvd p \<and> (\<forall>i < length bs. kmem (kh s) (p + i) = bs ! i)
     \<and> (\<forall>q cs. klive s q = Some cs \<and> q \<noteq> p \<longrightarrow> p + length bs \<le> q \<or> q + length cs \<le> p)"
    using L(1) by (intro conjI allI impI) (auto intro: L(2) dest: L(3))
qed

text \<open>
  C8. Histories of requests to the kernel heap: allocating, freeing, writing and adding memory, from the state that \<open>kalloc_init\<close> makes on, with no
  request left out. Either all of them run without a fault or an abort, and then the blocks of the clients are intact. Or the history gets, with all blocks
  intact, to a first request that breaks the rules of \<open>kheap_misuse\<close> (a request for more than 2147483628 bytes, a free of a block that the client does not
  have, a write outside of the requested size, adding memory that the heap already has), about which nothing is said; or to a correct free of a block that
  is the first or the last one of its region, where the code takes the missing neighbour for a corrupt heap and the kernel aborts. The memory layout has to
  be well-formed: sorted, with gaps of eight bytes, and with no word behind a piece that looks like the header of a block.
\<close>

theorem kernel_heap_safe:
  assumes "layout_ok m b t layout" "ef < 4294967296" "kalloc_init ef m layout b t = Some (EOK, h)"
  defines "start \<equiv> \<lparr>kh = h, klive = Map.empty\<rparr>"
  shows "(\<exists>s. run_all kheap_step ops start = Some s \<and> blocks_intact s)
    \<or> (\<exists>before x after s. ops = before @ x # after \<and> run_all kheap_step before start = Some s \<and> blocks_intact s
        \<and> (kheap_misuse x s
            \<or> (\<exists>p bs. x = KFree p \<and> klive s p = Some bs \<and> kheap_edge (kh s) p = Some True \<and> run_all kheap_step ops start = None)))"
proof -
  have "kinv start" unfolding start_def by (rule kalloc_init_inv [OF assms(1-3)])
  from kernheap.run_stops [OF this, of ops] show ?thesis
  proof
    assume "\<exists>ys x zs s. ops = ys @ x # zs \<and> run_all kheap_step ys start = Some s \<and> kinv s \<and> \<not> kheap_guard x s"
    then obtain ys x zs s where stop: "ops = ys @ x # zs" "run_all kheap_step ys start = Some s" "kinv s" "\<not> kheap_guard x s" by blast
    have fault: "run_all kheap_step ops start = None" if "kheap_step x s = None" using run_all_stuck [OF stop(2) that] stop(1) by simp
    from stopped_by [OF stop(3,4)]
    have why: "kheap_misuse x s \<or> (\<exists>p bs. x = KFree p \<and> klive s p = Some bs \<and> kheap_edge (kh s) p = Some True \<and> run_all kheap_step ops start = None)"
      by (elim disjE exE conjE) (simp_all add: fault)
    show ?thesis
      by (rule disjI2, rule exI [of _ ys], rule exI [of _ x], rule exI [of _ zs], rule exI [of _ s])
         (intro conjI stop(1,2) kinv_intact [OF stop(3)] why)
  next
    assume "\<exists>s. run_all kheap_step ops start = Some s \<and> kinv s"
    then obtain s where "run_all kheap_step ops start = Some s" "blocks_intact s" by (elim exE conjE) (drule kinv_intact)
    then show ?thesis by (intro disjI1 exI [of _ s] conjI)
  qed
qed

theorem kernel_heap_safe_witness:
  "layout_ok (\<lambda>_. 0) 16 112 small_layout \<and> kalloc_init 0 (\<lambda>_. 0) small_layout 16 112 = Some (EOK, kh (small_sys small_start Map.empty))
   \<and> (\<exists>s. run_all kheap_step [KAlloc 8 0, KAlloc 8 0] (small_sys small_start Map.empty) = Some s \<and> klive s 72 \<noteq> None \<and> klive s 96 \<noteq> None \<and> blocks_intact s)"
proof -
  let ?ops = "[KAlloc 8 0, KAlloc 8 0]"
  have start: "\<lparr>kh = kh (small_sys small_start Map.empty), klive = Map.empty\<rparr> = small_sys small_start Map.empty" by (simp add: small_sys_def)
  have no: "\<not> kheap_misuse x s" "x \<noteq> KFree p" if "?ops = before @ x # after" for before x after s p
  proof -
    have "x \<in> set ?ops" unfolding that by simp
    then show "\<not> kheap_misuse x s" "x \<noteq> KFree p" by auto
  qed
  have "(0 :: nat) < 4294967296" by simp
  note safe = kernel_heap_safe [OF small_layout_ok this small_init, of ?ops, unfolded start]
  let ?s = "small_sys small_two [72 \<mapsto> map small_one [72 ..< 80], 96 \<mapsto> map small_two [96 ..< 104]]"
  from safe have "blocks_intact ?s"
  proof
    assume "\<exists>s. run_all kheap_step ?ops (small_sys small_start Map.empty) = Some s \<and> blocks_intact s"
    then show ?thesis unfolding small_run_all option.inject by blast
  next
    assume "\<exists>before x after s. ?ops = before @ x # after \<and> run_all kheap_step before (small_sys small_start Map.empty) = Some s
      \<and> blocks_intact s \<and> (kheap_misuse x s \<or> (\<exists>p bs. x = KFree p \<and> klive s p = Some bs \<and> kheap_edge (kh s) p = Some True
        \<and> run_all kheap_step ?ops (small_sys small_start Map.empty) = None))"
    then obtain before x after s where "?ops = before @ x # after" "kheap_misuse x s \<or> (\<exists>p. x = KFree p)" by blast
    then show ?thesis using no by blast
  qed
  moreover have "klive ?s 72 \<noteq> None" "klive ?s 96 \<noteq> None" by (simp_all add: small_sys_def)
  ultimately show ?thesis using small_layout_ok small_init small_run_all by blast
qed

text \<open>
  C19. After any history of requests to the kernel heap, a block that its owner frees can be given out again: the next request for general memory that is not
  larger than the block succeeds. The block must not be the first or the last one of its region.
\<close>

theorem kfree_makes_room:
  assumes "layout_ok m b t layout" "ef < 4294967296" "kalloc_init ef m layout b t = Some (EOK, h)"
    "run_guarded kheap_step kheap_guard ops \<lparr>kh = h, klive = Map.empty\<rparr> = Some s"
    "klive s p = Some bs" "kheap_edge (kh s) p = Some False" "0 < n" "n \<le> length bs" "n \<le> 2147483628"
  shows "\<exists>h' q h''. kfree (kh s) p = Some h' \<and> kalloc_options h' n 0 = Some (EOK, q, h'')"
  using kalloc_run_inv [OF assms(1-3), of ops] assms(4-) free_then_alloc by simp

theorem kfree_makes_room_witness:
  "run_guarded kheap_step kheap_guard [KAlloc 8 0] \<lparr>kh = kh (small_sys small_start Map.empty), klive = Map.empty\<rparr>
     = Some (small_sys small_one [72 \<mapsto> map small_one [72 ..< 80]])
   \<and> (\<exists>h' q h''. kfree (kh (small_sys small_one [72 \<mapsto> map small_one [72 ..< 80]])) 72 = Some h' \<and> kalloc_options h' 5 0 = Some (EOK, q, h''))"
proof -
  let ?s = "small_sys small_one [72 \<mapsto> map small_one [72 ..< 80]]"
  have z: "(0::nat) < 4294967296" "(0::nat) < 5" "(5::nat) \<le> 2147483628" by simp_all
  have r: "run_guarded kheap_step kheap_guard [KAlloc 8 0] \<lparr>kh = kh (small_sys small_start Map.empty), klive = Map.empty\<rparr> = Some ?s"
    using small_run(1) by (simp add: small_sys_def)
  have l: "klive ?s 72 = Some (map small_one [72 ..< 80])" "5 \<le> length (map small_one [72 ..< 80])" by (simp_all add: small_sys_def)
  have e: "kheap_edge (kh ?s) 72 = Some False" by (subst small_edge) (simp_all add: small_words small_headers)
  show ?thesis using r kfree_makes_room [OF small_layout_ok z(1) small_init r l(1) e z(2) l(2) z(3)] by blast
qed

text \<open>
  C39. Freeing the first or the last block of a region stops the kernel. The function that frees a block looks for a neighbour on each side; outside of the
  region it finds no block and reports that the heap is corrupt.
\<close>

theorem kfree_edge_aborts:
  assumes "layout_ok m b t layout" "ef < 4294967296" "kalloc_init ef m layout b t = Some (EOK, h)"
    "run_guarded kheap_step kheap_guard ops \<lparr>kh = h, klive = Map.empty\<rparr> = Some s"
    "klive s p = Some bs" "kheap_edge (kh s) p = Some True"
  shows "kfree (kh s) p = None"
  using kalloc_run_inv [OF assms(1-3), of ops] assms(4-) free_at_edge by simp

theorem kfree_edge_aborts_witness:
  "run_guarded kheap_step kheap_guard [KAlloc 8 0, KAlloc 8 0] \<lparr>kh = kh (small_sys small_start Map.empty), klive = Map.empty\<rparr>
     = Some (small_sys small_two [72 \<mapsto> map small_one [72 ..< 80], 96 \<mapsto> map small_two [96 ..< 104]])
   \<and> kfree (kh (small_sys small_two [72 \<mapsto> map small_one [72 ..< 80], 96 \<mapsto> map small_two [96 ..< 104]])) 96 = None"
proof -
  let ?s = "small_sys small_two [72 \<mapsto> map small_one [72 ..< 80], 96 \<mapsto> map small_two [96 ..< 104]]"
  have r: "run_guarded kheap_step kheap_guard [KAlloc 8 0, KAlloc 8 0] \<lparr>kh = kh (small_sys small_start Map.empty), klive = Map.empty\<rparr> = Some ?s"
    using small_run(2) by (simp add: small_sys_def)
  have l: "klive ?s 96 = Some (map small_two [96 ..< 104])" by (simp add: small_sys_def)
  have e: "kheap_edge (kh ?s) 96 = Some True" by (subst small_edge) (simp_all add: small_words small_headers)
  show ?thesis using r kfree_edge_aborts [OF small_layout_ok _ small_init r l e] by simp
qed

end
