(* ===== verification/Spec2Isabelle.thy ===== *)
theory Spec2Isabelle
  imports Prelude BitMath Deque Cbuf PipeModel HandlerTab Perms Sched Waitq SchedInv SchedOps SchedProps
    FsBlocks SfsAlloc SfsFile SfsFileInv SfsFileRW SfsFileOps SfsTrim SfsInode SfsProps SfsDir SfsDirInv SfsVolume SfsDirProps SfsMount
    FsCache FsCacheInv FsCacheProps Lsta LstaInv LstaHeap
    Kalloc KallocProps KallocInit
begin

text \<open>
  \<^bold>\<open>Verification of the Serena operating system\<close>

  Serena is a preemptive, multi-threaded operating system for 32 bit Amiga computers, written in C. This development models parts
  of its kernel (\<open>kern/src\<close>) and of the C library code that the kernel links (\<open>user/lib/libc/src/ext\<close>), and proves what makes these
  parts correct. All paths are relative to \<open>src/\<close>.

  \<^bold>\<open>The parts and how they interact.\<close> Virtual processors (vcpus) run on one CPU under a priority scheduler (\<open>kern/src/sched\<close>). Everything that
  blocks does so on a wait queue of the scheduler; timeouts come from the monotonic clock and signals interrupt waits. The queues
  are the intrusive lists of \<open>ext/deque.c\<close>, and the search for the best ready vcpu uses the bit helpers of
  \<open>ext/bit_ul.c\<close>. A process reaches pipes, files and drivers through the descriptor table of \<open>kern/src/handler\<close>, whose calls check
  permissions (\<open>kern/src/security\<close>). A pipe (\<open>kern/src/ipc\<close>) keeps its bytes in the circular buffer of \<open>kernlib/cbuf.c\<close>.
  The disk filesystem SerenaFS (\<open>kern/src/filesystem/serenafs\<close>) sees the disk as a container of blocks that it maps and unmaps; its block
  allocator hands out blocks, its files map file offsets to blocks, and inodes are written back through the same container.
  The heap of the kernel (\<open>kernlib/kalloc.c\<close>) and the one of user programs (\<open>libc/src/malloc\<close>) share one allocator, \<open>__lsta.c\<close>.

  \<^bold>\<open>Conventions.\<close> The target is ILP32 and big endian. A function that can abort, fail an assertion, dereference NULL, leave an array or
  deadlock on itself returns an \<open>option\<close> whose \<open>None\<close> is that fault; error codes are values of type \<open>errno\<close>. Structures are
  records, enumerations datatypes; state is passed explicitly. Machine integers are words where the code wraps or works bitwise, and
  \<open>int\<close> or \<open>nat\<close> with the reduction written out elsewhere. Memory allocation is an argument of the functions that use it. Code that runs under one lock, or with preemption
  disabled, is one atomic step; a function that blocks is split where it gives the CPU away.

  \<^bold>\<open>The theories.\<close>
  \<^item> \<open>Prelude\<close>: errors, machine integers, bounds-checked arrays, and the locales by which components are related: \<open>data_refinement\<close> (an
    implementation simulates a deterministic specification for every sequence of calls), \<open>relational_refinement\<close> (the specification is a relation, and
    a run conforms to it up to the first call that meets a hazard of the concrete state) and \<open>guarded_system\<close> (a run of all calls, \<open>run_all\<close>, completes and keeps
    the invariant, or gets in a state with the invariant to a first call whose guard does not hold). Properties that say that nothing goes wrong
    are stated over such runs, without leaving calls out, and name the calls at which they stop.
  \<^item> \<open>BitMath\<close>: \<open>ext/pow2_ul.c\<close>, \<open>log2_ul.c\<close>, \<open>bit_*.c\<close>. The loops are partial functions; the theorems say for which arguments they return and
    what, and that the leading zero counts are those of the number.
  \<^item> \<open>Deque\<close>: \<open>ext/deque.c\<close>, \<open>ext/queue.c\<close> on an explicit store of nodes. The operations implement lists (locale \<open>deque_ops\<close>), which is why the other
    theories use lists.
  \<^item> \<open>Cbuf\<close>, \<open>PipeModel\<close>: \<open>kernlib/cbuf.c\<close> and \<open>ipc/Pipe.c\<close>. The buffer is a FIFO also when its 32 bit indices wrap around; a pipe
    neither loses, duplicates nor reorders bytes in any interleaving of readers and writers.
  \<^item> \<open>HandlerTab\<close>: \<open>handler/HandlerTable.c\<close>, \<open>syscall/sys_fd.c\<close>. The table is a partial map; descriptors are allocated lowest first; reference
    counts agree with the slots after every call, up to a duplication with a negative minimum, which faults.
  \<^item> \<open>Perms\<close>: \<open>kpi/fs_perms.h\<close>, \<open>security/perm_check.c\<close>, \<open>kernlib/sigset.c\<close>. Decisions against an access matrix; signal sets against sets.
  \<^item> \<open>Sched\<close>, \<open>Waitq\<close> (definitions), \<open>SchedInv\<close>, \<open>SchedOps\<close> (invariant and its preservation), \<open>SchedProps\<close> (properties): \<open>sched/sched.c\<close>,
    \<open>sched_irq.c\<close>, \<open>vcpu.c\<close>, \<open>vcpu_signal.c\<close>, \<open>waitqueue.c\<close>, the slow paths of \<open>sem.c\<close>, \<open>cnd.c\<close>, \<open>mtx.c\<close>, the deadline queue of
    \<open>hal/hw/m68k-amiga/clock.c\<close>, the context switch \<open>hal/hw/m68k/sched_csw.s\<close> and \<open>Process_SetSchedParam\<close>. Every sequence of calls and
    interrupts keeps run states, queues and timers consistent, up to the calls of \<open>sched_hazard\<close>, which the code does not survive; the
    vcpu that runs is one of highest priority; wakeups, timeouts and signals reach their vcpus. The end of a system call is two steps, because it can suspend the
    vcpu. What a realtime vcpu reads behind the end of the quantum tables is a parameter.
  \<^item> \<open>FsBlocks\<close>: the container of blocks (\<open>filesystem/FSBlock.h\<close>, \<open>DiskContainer.c\<close>) and the big endian encoding of integers. The container has a schedule of I/O errors
    and a schedule of the clean blocks that the cache gives up: a block that is changed and then unmapped without a write can lose the change.
  \<^item> \<open>SfsAlloc\<close>: \<open>serenafs/SfsAllocator.c\<close>. The allocator implements a set of blocks in use (interpretation \<open>allocset\<close>); the bitmap that is
    committed is the one that is read at the next start.
  \<^item> \<open>SfsFile\<close> (definitions), \<open>SfsFileInv\<close> (validity of a volume and a file, mapping of file blocks), \<open>SfsFileRW\<close> (the loops of read and write),
    \<open>SfsFileOps\<close> (read, write, write back), \<open>SfsTrim\<close> (truncation and deletion), \<open>SfsInode\<close> (the disk format of inodes), \<open>SfsProps\<close> (properties):
    \<open>serenafs/SfsFile.c\<close>, \<open>SfsRegularFile.c\<close>, \<open>SerenaFS_Inode.c\<close>, parts of \<open>filesystem/Inode.c\<close>. A file is an array of bytes that is read as it was
    written; calls on one file do not touch another one; every call keeps the volume well formed, for all arguments and every schedule of I/O errors. A new indirect block
    that is unmapped without a write can be lost (\<open>indirect_block_lost\<close>); the properties hold up to such a call (\<open>loses_map\<close>), and for every call if the cache keeps
    clean blocks.

  \<^item> \<open>SfsDir\<close> (definitions), \<open>SfsDirInv\<close> (the entries of a directory file, what the scans find), \<open>SfsDirProps\<close> (property): \<open>serenafs/SfsDirectory.c\<close> and
    \<open>filesystem/PathComponent.c\<close>. A directory is a map from names to inode ids (interpretation \<open>dirmap\<close>) on a disk without I/O errors; an operation that
    reports an error leaves the map as it was. A run is followed up to a link that uses a field which the code has not initialized, or that can lose the block map
    (\<open>dir_hazard\<close>).
  \<^item> \<open>SfsVolume\<close> (definitions), \<open>SfsMount\<close> (property): \<open>serenafs/SerenaFS.c\<close> and \<open>SerenaFS_Directory.c\<close>. A volume that is stopped and started again has the same
    geometry and the same blocks in use.
  \<^item> \<open>FsCache\<close> (definitions), \<open>FsCacheInv\<close> (the hash tables), \<open>FsCacheProps\<close> (interleaved threads, property): the inode cache of \<open>filesystem/Filesystem.c\<close>. The
    parts of its functions that run under the lock of the cache are the steps of the threads (interpretation \<open>nodecache\<close>); an inode is in memory
    at most once, its use count covers its users, and no thread sleeps without a reader that wakes it.

  \<^item> \<open>Lsta\<close> (definitions), \<open>LstaInv\<close> (the blocks of a region), \<open>LstaHeap\<close> (the regions of an allocator): \<open>libc/src/malloc/__lsta.c\<close> on a memory of bytes. Blocks
    tile the regions, no two free blocks are adjacent, and blocks that are in use are not touched.
  \<^item> \<open>Kalloc\<close> (definitions), \<open>KallocProps\<close> (several allocators in one memory, steps of the clients), \<open>KallocInit\<close> (start of the heap, properties):
    \<open>kernlib/kalloc.c\<close> and the functions of \<open>libc/src/malloc\<close>. Every history of requests is safe up to the first misuse or the first free of a block at the edge of its region
    (interpretation \<open>kernheap\<close>), freed memory is used again, and the first and the last block of a region cannot be freed.

  \<^bold>\<open>Bounds and fuel.\<close> The loops of read and write get one unit of fuel more than there are bytes to transfer; every pass transfers at least one
  byte, and the specifications (\<open>read_loop_spec\<close>, \<open>write_loop_spec\<close>) show that the loops return with this fuel. Other loops recurse over the number of their
  iterations. The loops of \<open>BitMath\<close> and the searches of the heap are partial functions, for which termination is a theorem where it holds. Properties of files are
  for volumes whose allocation bitmap fits one block, because the code overruns the block otherwise; the round trip of a write and the effect of a truncation are
  for offsets below $2^{32}$ blocks, where the block index is not cut off. Requests to the heap are for at most $2^{31} - 20$ bytes, where the gross size does not
  overflow, and the memory layout has gaps of eight bytes.

  \<^bold>\<open>Not modelled.\<close> Drivers, hardware abstraction other than the context switch and the clock, boot and console depend on devices. The object
  system, the generic filesystem layer, the file manager, processes and most system calls connect objects through
  method tables. The disk cache is represented by the block container that it implements. What grows the heap of a user program, the call \<open>vm_allocate\<close>, is an argument. The C library besides the functions above, the
  mathematics library and the programs in user space are not part of the kernel.
\<close>

end
